(* ===== verification/Prelude.thy ===== *)
theory Prelude
  imports Main "HOL-Library.List_Lexorder" "HOL-Library.Char_ord"
begin

text \<open>
  Shared vocabulary of the development: the pieces of Python's language and standard library
  that the sources use on strings, dictionaries and exceptions, the SQL row selections that
  several tables of the store share, and the interfaces (locales) that more than one component
  provides: a per-session numbered log and a table whose first insert wins.

  A Python \<open>str\<close> is a \<^typ>\<open>string\<close>, that is a list of code points below 256;
  a \<open>dict\<close> is an association list in insertion order with distinct keys.
\<close>

named_theorems store_simps "frame and effect equations of the store operations"
named_theorems ledger_simps "frame and effect equations of the ledger operations"
named_theorems kernel_defs "definitions of the kernel's straight-line helpers"
named_theorems cap_simps "characterisations of the capability checks"

subsection \<open>Exceptions\<close>

text \<open>
  A raised exception: its class name, the names of its superclasses (so that
  \<open>isinstance\<close> can be decided), \<open>str(e)\<close>, and the \<open>winerror\<close> attribute
  that \<open>OSError\<close> may carry.
\<close>

record py_exn =
  exn_class :: string
  exn_bases :: "string list"
  exn_msg :: string
  exn_winerror :: "int option"

definition mk_exn :: "string \<Rightarrow> string \<Rightarrow> py_exn" where
  "mk_exn c m = \<lparr>exn_class = c, exn_bases = [''Exception''], exn_msg = m, exn_winerror = None\<rparr>"

definition isinstance :: "py_exn \<Rightarrow> string \<Rightarrow> bool" where
  "isinstance e c \<longleftrightarrow> exn_class e = c \<or> c \<in> set (exn_bases e)"

text \<open>Sequencing of computations that may raise: the first exception wins.\<close>

definition rbind :: "'e + 'a \<Rightarrow> ('a \<Rightarrow> 'e + 'b) \<Rightarrow> 'e + 'b" where
  "rbind m f = (case m of Inl e \<Rightarrow> Inl e | Inr x \<Rightarrow> f x)"

fun traverse :: "('a \<Rightarrow> 'e + 'b) \<Rightarrow> 'a list \<Rightarrow> 'e + 'b list" where
  "traverse f [] = Inr []"
| "traverse f (x # xs) = rbind (f x) (\<lambda>y. rbind (traverse f xs) (\<lambda>ys. Inr (y # ys)))"

lemma rbind_simps [simp]: "rbind (Inl e) f = Inl e" "rbind (Inr x) f = f x"
  by (simp_all add: rbind_def)

lemma rbind_Inr_iff: "rbind m f = Inr y \<longleftrightarrow> (\<exists>x. m = Inr x \<and> f x = Inr y)"
  by (cases m) auto

lemma rbind_Inl_iff: "rbind m f = Inl e \<longleftrightarrow> m = Inl e \<or> (\<exists>x. m = Inr x \<and> f x = Inl e)"
  by (cases m) auto

lemma traverse_map: "(\<And>x. x \<in> set xs \<Longrightarrow> f (g x) = Inr (h x)) \<Longrightarrow> traverse f (map g xs) = Inr (map h xs)"
  by (induction xs) auto

subsection \<open>Numbers and strings\<close>

definition digit_char :: "nat \<Rightarrow> char" where
  "digit_char n = char_of (48 + n)"

fun nat_str :: "nat \<Rightarrow> string" where
  "nat_str n = (if n < 10 then [digit_char n] else nat_str (n div 10) @ [digit_char (n mod 10)])"

declare nat_str.simps [simp del]

definition int_str :: "int \<Rightarrow> string" where
  "int_str i = (if i < 0 then CHR ''-'' # nat_str (nat (- i)) else nat_str (nat i))"

definition hex_char :: "nat \<Rightarrow> char" where
  "hex_char n = (if n < 10 then char_of (48 + n) else char_of (87 + n))"

definition hex_val :: "char \<Rightarrow> nat option" where
  "hex_val c =
     (let n = (of_char c :: nat)
      in if 48 \<le> n \<and> n < 58 then Some (n - 48)
         else if 97 \<le> n \<and> n < 103 then Some (n - 87)
         else if 65 \<le> n \<and> n < 71 then Some (n - 55) else None)"

fun join :: "string \<Rightarrow> string list \<Rightarrow> string" where
  "join sep [] = []"
| "join sep [x] = x"
| "join sep (x # y # xs) = x @ sep @ join sep (y # xs)"

text \<open>\<open>s.split(c)\<close> for a one-character separator: always at least one part.\<close>

fun split_on :: "char \<Rightarrow> string \<Rightarrow> string list" where
  "split_on c [] = [[]]"
| "split_on c (x # xs) =
     (if x = c then [] # split_on c xs
      else (case split_on c xs of [] \<Rightarrow> [[x]] | p # ps \<Rightarrow> (x # p) # ps))"

definition startswith :: "string \<Rightarrow> string \<Rightarrow> bool" where
  "startswith s p \<longleftrightarrow> take (length p) s = p"

definition endswith :: "string \<Rightarrow> string \<Rightarrow> bool" where
  "endswith s p \<longleftrightarrow> length p \<le> length s \<and> drop (length s - length p) s = p"

text \<open>\<open>str.replace\<close> for a non-empty pattern.\<close>

function replace_all :: "string \<Rightarrow> string \<Rightarrow> string \<Rightarrow> string" where
  "replace_all old new s =
     (if old = [] \<or> s = [] then s
      else if startswith s old then new @ replace_all old new (drop (length old) s)
      else [hd s] @ replace_all old new (tl s))"
  by pat_completeness auto
termination
  by (relation "measure (\<lambda>(old, new, s). length s)") auto

declare replace_all.simps [simp del]

lemma replace_all_cases:
  "old = [] \<or> s = [] \<Longrightarrow> replace_all old new s = s"
  "old \<noteq> [] \<Longrightarrow> s \<noteq> [] \<Longrightarrow> startswith s old \<Longrightarrow> replace_all old new s = new @ replace_all old new (drop (length old) s)"
  "old \<noteq> [] \<Longrightarrow> s \<noteq> [] \<Longrightarrow> \<not> startswith s old \<Longrightarrow> replace_all old new s = hd s # replace_all old new (tl s)"
  by (subst replace_all.simps, simp)+

text \<open>\<open>s.split("]", 1)[0]\<close>: everything before the first separator.\<close>

definition before :: "char \<Rightarrow> string \<Rightarrow> string" where
  "before c s = takeWhile (\<lambda>x. x \<noteq> c) s"

definition is_space :: "char \<Rightarrow> bool" where
  "is_space c \<longleftrightarrow> (of_char c :: nat) \<in> {9, 10, 11, 12, 13, 28, 29, 30, 31, 32, 133, 160}"

text \<open>\<open>s.split()\<close> and \<open>s.strip()\<close> on whitespace.\<close>

fun split_ws_acc :: "string \<Rightarrow> string \<Rightarrow> string list" where
  "split_ws_acc acc [] = (if acc = [] then [] else [acc])"
| "split_ws_acc acc (x # xs) =
     (if is_space x then (if acc = [] then split_ws_acc [] xs else acc # split_ws_acc [] xs)
      else split_ws_acc (acc @ [x]) xs)"

definition split_ws :: "string \<Rightarrow> string list" where
  "split_ws s = split_ws_acc [] s"

definition lstrip :: "string \<Rightarrow> string" where
  "lstrip s = dropWhile is_space s"

definition rstrip :: "string \<Rightarrow> string" where
  "rstrip s = rev (dropWhile is_space (rev s))"

definition strip :: "string \<Rightarrow> string" where
  "strip s = lstrip (rstrip s)"

text \<open>\<open>repr\<close> of a string over code points below 256.\<close>

definition printable :: "nat \<Rightarrow> bool" where
  "printable n \<longleftrightarrow> 32 \<le> n \<and> n < 127 \<or> 161 \<le> n \<and> n \<noteq> 173"

definition repr_char :: "char \<Rightarrow> char \<Rightarrow> string" where
  "repr_char q c =
     (let n = (of_char c :: nat) in
      if c = q \<or> n = 92 then [char_of (92::nat), c]
      else if n = 10 then [char_of (92::nat), CHR ''n'']
      else if n = 13 then [char_of (92::nat), CHR ''r'']
      else if n = 9 then [char_of (92::nat), CHR ''t'']
      else if printable n then [c]
      else [char_of (92::nat), CHR ''x'', hex_char (n div 16), hex_char (n mod 16)])"

definition py_repr :: "string \<Rightarrow> string" where
  "py_repr s =
     (let q = (if char_of (39::nat) \<in> set s \<and> char_of (34::nat) \<notin> set s
               then char_of (34::nat) else char_of (39::nat))
      in [q] @ concat (map (repr_char q) s) @ [q])"

definition repr_str_list :: "string list \<Rightarrow> string" where
  "repr_str_list xs = ''['' @ join '', '' (map py_repr xs) @ '']''"

subsection \<open>Dictionaries as association lists\<close>

definition dict_get :: "(string \<times> 'v) list \<Rightarrow> string \<Rightarrow> 'v option" where
  "dict_get d k = map_of d k"

fun dict_set :: "string \<Rightarrow> 'v \<Rightarrow> (string \<times> 'v) list \<Rightarrow> (string \<times> 'v) list" where
  "dict_set k v [] = [(k, v)]"
| "dict_set k v ((k', v') # d) = (if k = k' then (k, v) # d else (k', v') # dict_set k v d)"

definition dict_keys :: "(string \<times> 'v) list \<Rightarrow> string list" where
  "dict_keys d = map fst d"

lemma dict_get_Nil [simp]: "dict_get [] k = None"
  by (simp add: dict_get_def)

lemma dict_get_Cons [simp]: "dict_get ((k', v) # d) k = (if k' = k then Some v else dict_get d k)"
  by (auto simp: dict_get_def)

lemma dict_get_set [simp]: "dict_get (dict_set k v d) k' = (if k' = k then Some v else dict_get d k')"
  by (induction k v d rule: dict_set.induct) auto

lemma keys_dict_set: "set (map fst (dict_set k v d)) = insert k (set (map fst d))"
  by (induction k v d rule: dict_set.induct) auto

lemma distinct_dict_set: "distinct (map fst d) \<Longrightarrow> distinct (map fst (dict_set k v d))"
  by (induction k v d rule: dict_set.induct) (auto simp: keys_dict_set simp flip: set_map)

lemma dict_set_new: "k \<notin> set (map fst d) \<Longrightarrow> dict_set k v d = d @ [(k, v)]"
  by (induction k v d rule: dict_set.induct) auto

text \<open>\<open>sorted(xs)\<close> on strings, by code point.\<close>

abbreviation sorted_strs :: "string list \<Rightarrow> string list" where
  "sorted_strs xs \<equiv> sort xs"

subsection \<open>Rows of a table that are numbered per session\<close>

text \<open>
  \<open>SELECT ... WHERE session_id=? ORDER BY seq\<close> and
  \<open>SELECT COALESCE(MAX(seq), 0) ... WHERE session_id=?\<close>, for a row type with a session
  column and a sequence column.
\<close>

definition select_seq :: "('r \<Rightarrow> string) \<Rightarrow> ('r \<Rightarrow> nat) \<Rightarrow> string \<Rightarrow> 'r list \<Rightarrow> 'r list" where
  "select_seq ses sq sid tbl = sort_key sq (filter (\<lambda>r. ses r = sid) tbl)"

definition max_seq :: "('r \<Rightarrow> string) \<Rightarrow> ('r \<Rightarrow> nat) \<Rightarrow> string \<Rightarrow> 'r list \<Rightarrow> nat" where
  "max_seq ses sq sid tbl = fold max (map sq (filter (\<lambda>r. ses r = sid) tbl)) 0"

text \<open>The invariant of such a table: within a session the numbers are 1, 2, 3 in insertion order.\<close>

definition numbered :: "('r \<Rightarrow> string) \<Rightarrow> ('r \<Rightarrow> nat) \<Rightarrow> 'r list \<Rightarrow> bool" where
  "numbered ses sq tbl \<longleftrightarrow>
     (\<forall>sid. map sq (filter (\<lambda>r. ses r = sid) tbl)
          = [1..<Suc (length (filter (\<lambda>r. ses r = sid) tbl))])"

lemma numbered_Nil [simp]: "numbered ses sq []"
  by (simp add: numbered_def)

lemma fold_max_upt: "fold max [1..<Suc n] (0::nat) = n"
  by (induction n) (auto simp: fold_append)

lemma numbered_max_seq:
  "numbered ses sq tbl \<Longrightarrow> max_seq ses sq sid tbl = length (filter (\<lambda>r. ses r = sid) tbl)"
  unfolding numbered_def max_seq_def by (metis fold_max_upt)

lemma numbered_select:
  assumes "numbered ses sq tbl"
  shows "select_seq ses sq sid tbl = filter (\<lambda>r. ses r = sid) tbl"
proof -
  have "sorted (map sq (filter (\<lambda>r. ses r = sid) tbl))"
    using assms unfolding numbered_def by (metis sorted_upt)
  then show ?thesis unfolding select_seq_def by (rule sort_key_id_if_sorted)
qed

lemma numbered_snoc:
  assumes "numbered ses sq tbl" and "sq r = Suc (length (filter (\<lambda>q. ses q = ses r) tbl))"
  shows "numbered ses sq (tbl @ [r])"
  using assms unfolding numbered_def by auto

lemma select_seq_other:
  "ses r \<noteq> sid \<Longrightarrow> select_seq ses sq sid (tbl @ [r]) = select_seq ses sq sid tbl"
  by (simp add: select_seq_def)

subsection \<open>Interface: a per-session log numbered from one\<close>

text \<open>
  The contract that the write-ahead journal and the evidence ledger share. \<open>entries\<close> is
  what a reader gets back in sequence order, \<open>add\<close> is the append operation (it may compute
  what it stores from the state), \<open>ok\<close> the table's invariant.
\<close>

locale session_log =
  fixes entries :: "'s \<Rightarrow> string \<Rightarrow> (nat \<times> 'e) list"
    and add :: "string \<Rightarrow> 'x \<Rightarrow> 's \<Rightarrow> 's"
    and stored :: "'s \<Rightarrow> string \<Rightarrow> 'x \<Rightarrow> 'e"
    and legal :: "'x \<Rightarrow> bool"
    and ok :: "'s \<Rightarrow> bool"
  assumes entries_add: "ok s \<Longrightarrow> legal x \<Longrightarrow>
        entries (add k x s) k = entries s k @ [(Suc (length (entries s k)), stored s k x)]"
    and entries_add_other: "ok s \<Longrightarrow> legal x \<Longrightarrow> k' \<noteq> k \<Longrightarrow> entries (add k x s) k' = entries s k'"
    and ok_add: "ok s \<Longrightarrow> legal x \<Longrightarrow> ok (add k x s)"
    and entries_numbered: "ok s \<Longrightarrow> map fst (entries s k) = [1..<Suc (length (entries s k))]"
begin

lemma entries_add_prefix: "ok s \<Longrightarrow> legal x \<Longrightarrow> \<exists>es. entries (add k x s) k' = entries s k' @ es"
  by (cases "k' = k") (auto simp: entries_add entries_add_other)

lemma last_entry_add:
  "ok s \<Longrightarrow> legal x \<Longrightarrow> last (entries (add k x s) k) = (Suc (length (entries s k)), stored s k x)"
  by (simp add: entries_add)

text \<open>A run of appends, to any sessions in any order, only ever extends what was there.\<close>

lemma run_extends:
  "ok s \<Longrightarrow> (\<And>k x. (k, x) \<in> set ops \<Longrightarrow> legal x) \<Longrightarrow>
   ok (fold (\<lambda>(k, x). add k x) ops s) \<and>
   (\<exists>es. length es = length (filter (\<lambda>op. fst op = k) ops) \<and>
         entries (fold (\<lambda>(k, x). add k x) ops s) k = entries s k @ es)"
proof (induction ops arbitrary: s)
  case Nil
  then show ?case by simp
next
  case (Cons op ops)
  obtain k' x where op: "op = (k', x)" by fastforce
  with Cons.prems have lx: "legal x" by auto
  with Cons.prems have "ok (add k' x s)" by (simp add: ok_add)
  from Cons.IH [OF this] Cons.prems(2) obtain es where
    es: "ok (fold (\<lambda>(k, x). add k x) ops (add k' x s))"
    "length es = length (filter (\<lambda>op. fst op = k) ops)"
    "entries (fold (\<lambda>(k, x). add k x) ops (add k' x s)) k = entries (add k' x s) k @ es" by auto
  show ?case
  proof (cases "k' = k")
    case True
    with es op lx Cons.prems(1) show ?thesis
      by (auto simp: entries_add intro!: exI [of _ "(Suc (length (entries s k)), stored s k x) # es"])
  next
    case False
    with es op lx Cons.prems(1) show ?thesis
      by (auto simp: entries_add_other intro!: exI [of _ es])
  qed
qed

lemma seq_unique:
  assumes "ok s" and "(n, x) \<in> set (entries s k)" and "(n, y) \<in> set (entries s k)"
  shows "x = y"
proof -
  have "distinct (map fst (entries s k))"
    using entries_numbered [OF assms(1)] by simp
  with assms(2,3) show ?thesis by (meson eq_key_imp_eq_value)
qed

end

subsection \<open>Interface: a table whose first insert wins\<close>

text \<open>\<open>INSERT OR IGNORE\<close> on a primary key: the first value stored under a key stays.\<close>

locale first_wins =
  fixes lookup :: "'s \<Rightarrow> 'k \<Rightarrow> 'v option"
    and put :: "'k \<Rightarrow> 'v \<Rightarrow> 's \<Rightarrow> 's"
  assumes lookup_put: "lookup (put k v s) k' = (if k' = k \<and> lookup s k = None then Some v else lookup s k')"
begin

lemma put_keeps: "lookup s k = Some v \<Longrightarrow> lookup (put k' v' s) k = Some v"
  by (auto simp: lookup_put)

lemma put_present: "lookup (put k v s) k \<noteq> None"
  by (simp add: lookup_put)

lemma put_twice: "lookup (put k v (put k w s)) = lookup (put k w s)"
  by (rule ext) (auto simp: lookup_put)

lemma first_decision_stays:
  "lookup s k = None \<Longrightarrow> lookup (fold (\<lambda>v. put k v) vs (put k v s)) k = Some v"
proof (induction vs arbitrary: s rule: rev_induct)
  case Nil
  then show ?case by (simp add: lookup_put)
next
  case (snoc w vs)
  then show ?case by (simp add: lookup_put)
qed

end

subsection \<open>Interface: a hash chain\<close>

text \<open>
  A chain folds a link function over its events from a fixed start. Linking binds its inputs
  up to a clash: equal results come from equal predecessors and equal events, or exhibit a
  clash of the link function at exactly those inputs.
\<close>

locale hash_chain =
  fixes link :: "'h \<Rightarrow> 'e \<Rightarrow> 'h"
    and start :: 'h
    and digest :: "'h \<Rightarrow> bool"
    and same :: "'e \<Rightarrow> 'e \<Rightarrow> bool"
    and clash :: "'h \<Rightarrow> 'e \<Rightarrow> 'h \<Rightarrow> 'e \<Rightarrow> bool"
  assumes start_digest: "digest start"
    and link_digest: "digest (link p e)"
    and link_binding: "digest p \<Longrightarrow> digest p' \<Longrightarrow> link p e = link p' e' \<Longrightarrow>
          p = p' \<and> same e e' \<or> clash p e p' e'"
begin

lemma fold_digest: "digest (foldl link start es)"
  by (induction es rule: rev_induct) (simp_all add: start_digest link_digest)

lemma equal_heads:
  "length es = length es' \<Longrightarrow> foldl link start es = foldl link start es' \<Longrightarrow>
   list_all2 same es es' \<or>
   (\<exists>i<length es. clash (foldl link start (take i es)) (es ! i)
                        (foldl link start (take i es')) (es' ! i))"
proof (induction es arbitrary: es' rule: rev_induct)
  case Nil
  then show ?case by simp
next
  case (snoc e es)
  then obtain fs f where es': "es' = fs @ [f]" "length fs = length es"
    by (metis append_butlast_last_id length_0_conv length_append_singleton
        length_butlast diff_Suc_1 nat.distinct(1))
  let ?p = "foldl link start es" and ?q = "foldl link start fs"
  have "link ?p e = link ?q f" using snoc.prems es' by simp
  then consider "?p = ?q" "same e f" | "clash ?p e ?q f"
    using link_binding [OF fold_digest fold_digest] by blast
  then show ?case
  proof cases
    case 1
    with snoc.IH [of fs] es'(2) consider "list_all2 same es fs"
      | i where "i < length es" "clash (foldl link start (take i es)) (es ! i)
                        (foldl link start (take i fs)) (fs ! i)" by auto
    then show ?thesis
    proof cases
      case 1
      with \<open>same e f\<close> es' show ?thesis by (simp add: list_all2_appendI)
    next
      case 2
      with es' show ?thesis by (auto simp: nth_append intro!: exI [of _ i])
    qed
  next
    case 2
    with es' show ?thesis by (auto simp: nth_append intro!: exI [of _ "length es"])
  qed
qed

end

subsection \<open>Shared list facts\<close>

lemma hex_val_hex_char [simp]: "n < 16 \<Longrightarrow> hex_val (hex_char n) = Some n"
  by (auto simp: hex_val_def hex_char_def Let_def)

lemma option_eqI: "(\<And>v. x = Some v \<longleftrightarrow> y = Some v) \<Longrightarrow> x = y"
  by (cases x; cases y) auto

lemma nat_str_nonempty [simp]: "nat_str n \<noteq> []"
  by (subst nat_str.simps) simp

lemma split_on_nonempty [simp]: "split_on c s \<noteq> []"
  by (induction s) (auto split: list.splits)

lemma split_on_no_sep: "c \<notin> set s \<Longrightarrow> split_on c s = [s]"
  by (induction s) auto

lemma split_on_append_sep:
  "c \<notin> set s \<Longrightarrow> split_on c (s @ c # t) = s # split_on c t"
  by (induction s) auto

lemma split_on_join:
  "xs \<noteq> [] \<Longrightarrow> (\<And>x. x \<in> set xs \<Longrightarrow> c \<notin> set x) \<Longrightarrow> split_on c (join [c] xs) = xs"
proof (induction "[c]" xs rule: join.induct)
  case (3 x y xs)
  then show ?case by (simp add: split_on_append_sep)
qed (auto simp: split_on_no_sep)

lemma split_on_parts: "p \<in> set (split_on c s) \<Longrightarrow> c \<notin> set p"
  by (induction s arbitrary: p) (fastforce split: list.splits if_splits)+

lemma strip_id: "s \<noteq> [] \<Longrightarrow> \<not> is_space (hd s) \<Longrightarrow> \<not> is_space (last s) \<Longrightarrow> strip s = s"
proof -
  assume s: "s \<noteq> []" "\<not> is_space (hd s)" "\<not> is_space (last s)"
  have "rstrip s = s" using s by (cases s rule: rev_cases) (simp_all add: rstrip_def)
  then show ?thesis using s by (cases s) (simp_all add: strip_def lstrip_def)
qed

lemma strip_ends: "strip s \<noteq> [] \<Longrightarrow> \<not> is_space (hd (strip s)) \<and> \<not> is_space (last (strip s))"
proof -
  assume ne: "strip s \<noteq> []"
  have h: "\<not> is_space (hd (strip s))" using ne hd_dropWhile [of is_space "rstrip s"] by (simp add: strip_def lstrip_def)
  have r: "rstrip s \<noteq> []" using ne by (auto simp: strip_def lstrip_def)
  have "last (strip s) = last (rstrip s)"
  proof -
    have "rstrip s = takeWhile is_space (rstrip s) @ strip s" by (simp add: strip_def lstrip_def)
    then show ?thesis using ne by (metis last_appendR)
  qed
  moreover have "\<not> is_space (last (rstrip s))"
    using r hd_dropWhile [of is_space "rev s"] by (simp add: rstrip_def last_rev)
  ultimately show ?thesis using h by simp
qed

lemma strip_idem [simp]: "strip (strip s) = strip s"
proof (cases "strip s = []")
  case True
  have "strip [] = []" by (simp add: strip_def lstrip_def rstrip_def)
  with True show ?thesis by simp
next
  case False
  with strip_ends [OF False] show ?thesis by (intro strip_id) simp_all
qed

end
