(* ===== verification/Capability.thy ===== *)
theory Capability
  imports Prelude "HOL-Library.Sublist" Complex_Main
begin

text \<open>
  The capability kernel (\<open>scr/capability.py\<close>): classification ceilings, path containment,
  the deny-by-default checks of a manifest, and attenuation. Two things the code does not own are
  arguments: \<open>realpath\<close>, which stands for \<open>os.path.realpath(os.path.abspath(p))\<close> on the
  file system of the moment, and \<open>fullmatch\<close>, the regular-expression engine behind
  \<open>re.fullmatch\<close>. \<open>os.path.commonpath\<close> is the POSIX one, for two paths.
\<close>

definition denied :: "string \<Rightarrow> py_exn" where
  "denied msg = mk_exn ''CapabilityDenied'' msg"

subsection \<open>Classification\<close>

definition CLASS_ORDER :: "(string \<times> nat) list" where
  "CLASS_ORDER = [(''public'', 0), (''internal'', 1), (''confidential'', 2), (''secret'', 3)]"

definition classification_rank :: "string \<Rightarrow> py_exn + nat" where
  "classification_rank level =
     (case dict_get CLASS_ORDER level of
        None \<Rightarrow> Inl (denied (''unknown classification level: '' @ py_repr level))
      | Some n \<Rightarrow> Inr n)"

subsection \<open>Paths\<close>

definition is_drive :: "string \<Rightarrow> bool" where
  "is_drive s \<longleftrightarrow> (case s of
     [c, d] \<Rightarrow> d = CHR '':'' \<and> (CHR ''A'' \<le> c \<and> c \<le> CHR ''Z'' \<or> CHR ''a'' \<le> c \<and> c \<le> CHR ''z'')
   | _ \<Rightarrow> False)"

fun ads_parts :: "nat \<Rightarrow> string list \<Rightarrow> py_exn + unit" where
  "ads_parts i [] = Inr ()"
| "ads_parts i (part # parts) =
     (if CHR '':'' \<in> set part \<and> \<not> (i = 0 \<and> is_drive part)
      then Inl (denied (''alternate data stream syntax rejected: '' @ py_repr part))
      else ads_parts (Suc i) parts)"

definition reject_ads :: "string \<Rightarrow> bool \<Rightarrow> py_exn + unit" where
  "reject_ads path windows =
     (if \<not> windows then Inr ()
      else ads_parts 0 (split_on (CHR 0x5C) (map (\<lambda>c. if c = CHR ''/'' then CHR 0x5C else c) path)))"

fun common_prefix :: "'a list \<Rightarrow> 'a list \<Rightarrow> 'a list" where
  "common_prefix (x # xs) (y # ys) = (if x = y then x # common_prefix xs ys else [])"
| "common_prefix _ _ = []"

definition components :: "string \<Rightarrow> string list" where
  "components p = filter (\<lambda>c. c \<noteq> [] \<and> c \<noteq> ''.'') (split_on (CHR ''/'') p)"

text \<open>\<open>None\<close> is the \<open>ValueError\<close> on mixing absolute and relative paths.\<close>

definition commonpath :: "string \<Rightarrow> string \<Rightarrow> string option" where
  "commonpath p q =
     (if startswith p ''/'' \<noteq> startswith q ''/'' then None
      else Some ((if startswith p ''/'' then ''/'' else []) @
                 join ''/'' (common_prefix (components p) (components q))))"

definition resolve_within ::
  "(string \<Rightarrow> string) \<Rightarrow> string \<Rightarrow> string list \<Rightarrow> bool \<Rightarrow> py_exn + string" where
  "resolve_within realpath path roots windows =
     (case reject_ads path windows of
        Inl e \<Rightarrow> Inl e
      | Inr _ \<Rightarrow>
          (let resolved = realpath path in
           if \<exists>root\<in>set roots. commonpath resolved (realpath root) = Some (realpath root)
           then Inr resolved
           else Inl (denied (''path outside allowed roots: '' @ py_repr path))))"

subsection \<open>Manifests and their checks\<close>

record exec_rule =
  binary :: string
  arg_pattern :: string

definition allows :: "(string \<Rightarrow> string \<Rightarrow> bool) \<Rightarrow> exec_rule \<Rightarrow> string \<Rightarrow> string list \<Rightarrow> bool" where
  "allows fullmatch rule bin args \<longleftrightarrow>
     (if bin \<noteq> binary rule then False else fullmatch (arg_pattern rule) (join '' '' args))"

record manifest =
  tools :: "string set"
  fs_read_roots :: "string list"
  fs_write_roots :: "string list"
  net_hosts :: "string set"
  exec_rules :: "exec_rule list"
  max_budget_usd :: rat
  classification_ceiling :: string

definition empty_manifest :: manifest where
  "empty_manifest = \<lparr>tools = {}, fs_read_roots = [], fs_write_roots = [], net_hosts = {},
     exec_rules = [], max_budget_usd = 0, classification_ceiling = ''secret''\<rparr>"

definition check_tool :: "manifest \<Rightarrow> string \<Rightarrow> py_exn + unit" where
  "check_tool m name =
     (if name \<notin> tools m then Inl (denied (''tool not permitted: '' @ py_repr name)) else Inr ())"

definition check_read :: "(string \<Rightarrow> string) \<Rightarrow> manifest \<Rightarrow> string \<Rightarrow> bool \<Rightarrow> py_exn + string" where
  "check_read realpath m path windows =
     (if fs_read_roots m = [] then Inl (denied ''no filesystem read capability'')
      else resolve_within realpath path (fs_read_roots m) windows)"

definition check_write :: "(string \<Rightarrow> string) \<Rightarrow> manifest \<Rightarrow> string \<Rightarrow> bool \<Rightarrow> py_exn + string" where
  "check_write realpath m path windows =
     (if fs_write_roots m = [] then Inl (denied ''no filesystem write capability'')
      else resolve_within realpath path (fs_write_roots m) windows)"

definition check_net :: "manifest \<Rightarrow> string \<Rightarrow> py_exn + unit" where
  "check_net m host =
     (if host \<notin> net_hosts m then Inl (denied (''network host not permitted: '' @ py_repr host))
      else Inr ())"

definition check_exec ::
  "(string \<Rightarrow> string \<Rightarrow> bool) \<Rightarrow> manifest \<Rightarrow> string \<Rightarrow> string list \<Rightarrow> py_exn + unit" where
  "check_exec fullmatch m bin args =
     (if \<exists>rule\<in>set (exec_rules m). allows fullmatch rule bin args then Inr ()
      else Inl (denied (''exec not permitted: '' @ bin @ '' '' @ join '' '' args)))"

definition check_classification :: "manifest \<Rightarrow> string \<Rightarrow> py_exn + unit" where
  "check_classification m level =
     (case classification_rank level of
        Inl e \<Rightarrow> Inl e
      | Inr r \<Rightarrow>
          (case classification_rank (classification_ceiling m) of
             Inl e \<Rightarrow> Inl e
           | Inr c \<Rightarrow>
               if r > c
               then Inl (denied (''classification '' @ py_repr level @ '' exceeds ceiling '' @
                          py_repr (classification_ceiling m)))
               else Inr ()))"

subsection \<open>Attenuation\<close>

definition roots_contained ::
  "(string \<Rightarrow> string) \<Rightarrow> string list \<Rightarrow> string list \<Rightarrow> string list" where
  "roots_contained realpath child parent =
     filter (\<lambda>c. \<exists>p\<in>set parent. commonpath (realpath c) (realpath p) = Some (realpath p)) child"

definition attenuate ::
  "(string \<Rightarrow> string) \<Rightarrow> manifest \<Rightarrow> manifest \<Rightarrow> py_exn + manifest" where
  "attenuate realpath parent child =
     (case classification_rank (classification_ceiling parent) of
        Inl e \<Rightarrow> Inl e
      | Inr rp \<Rightarrow>
          (case classification_rank (classification_ceiling child) of
             Inl e \<Rightarrow> Inl e
           | Inr rc \<Rightarrow> Inr
               \<lparr>tools = tools child \<inter> tools parent,
                fs_read_roots = roots_contained realpath (fs_read_roots child) (fs_read_roots parent),
                fs_write_roots = roots_contained realpath (fs_write_roots child) (fs_write_roots parent),
                net_hosts = net_hosts child \<inter> net_hosts parent,
                exec_rules = filter (\<lambda>r. \<exists>pr\<in>set (exec_rules parent).
                    binary r = binary pr \<and> arg_pattern r = arg_pattern pr) (exec_rules child),
                max_budget_usd = min (max_budget_usd child) (max_budget_usd parent),
                classification_ceiling =
                  (if rp \<le> rc then classification_ceiling parent else classification_ceiling child)\<rparr>))"

subsection \<open>Path containment\<close>

abbreviation inside :: "string \<Rightarrow> string \<Rightarrow> bool" where
  "inside p r \<equiv> commonpath p r = Some r"

lemma prefix_common_prefix: "prefix (common_prefix xs ys) xs" "prefix (common_prefix xs ys) ys"
  by (induction xs ys rule: common_prefix.induct) auto

lemma common_prefix_of_prefix: "prefix ys xs \<Longrightarrow> common_prefix xs ys = ys"
  by (induction xs ys rule: common_prefix.induct) auto

lemma components_parts: "c \<in> set (components p) \<Longrightarrow> c \<noteq> [] \<and> c \<noteq> ''.'' \<and> CHR ''/'' \<notin> set c"
  by (auto simp: components_def dest: split_on_parts)

lemma components_join:
  assumes "\<forall>c\<in>set cs. c \<noteq> [] \<and> c \<noteq> ''.'' \<and> CHR ''/'' \<notin> set c"
  shows "components ((if a then ''/'' else []) @ join ''/'' cs) = cs"
proof -
  have "components (join ''/'' cs) = cs"
  proof (cases "cs = []")
    case False
    then have "split_on (CHR ''/'') (join ''/'' cs) = cs" using assms by (intro split_on_join) auto
    then show ?thesis using assms by (simp add: components_def)
  qed (simp add: components_def)
  moreover have "components (''/'' @ s) = components s" for s
    by (simp add: components_def)
  ultimately show ?thesis by simp
qed

lemma inside_iff:
  "inside p r \<longleftrightarrow> startswith p ''/'' = startswith r ''/'' \<and> prefix (components r) (components p) \<and>
     r = (if startswith r ''/'' then ''/'' else []) @ join ''/'' (components r)"
    (is "?l \<longleftrightarrow> ?r")
proof
  assume l: ?l
  let ?cs = "common_prefix (components p) (components r)"
  have "\<forall>c\<in>set ?cs. c \<noteq> [] \<and> c \<noteq> ''.'' \<and> CHR ''/'' \<notin> set c"
    using components_parts by (metis prefix_common_prefix(1) set_mono_prefix subsetD)
  note parts = components_join [OF this, of "startswith p ''/''"]
  have eq: "startswith p ''/'' = startswith r ''/''"
    using l by (auto simp: commonpath_def split: if_splits)
  then have r: "(if startswith p ''/'' then ''/'' else []) @ join ''/'' ?cs = r"
    using l by (simp add: commonpath_def)
  then have "components r = ?cs" using parts by metis
  moreover have "prefix ?cs (components p)" by (rule prefix_common_prefix)
  ultimately show ?r using eq r by simp
next
  assume r: ?r
  then have "common_prefix (components p) (components r) = components r"
    by (intro common_prefix_of_prefix) simp
  with r show ?l by (simp add: commonpath_def)
qed

lemma inside_trans: "inside p r \<Longrightarrow> inside r q \<Longrightarrow> inside p q"
  by (auto simp: inside_iff intro: prefix_order.trans)

lemma resolve_within_Inr:
  "resolve_within realpath path roots windows = Inr res \<longleftrightarrow>
     reject_ads path windows = Inr () \<and> res = realpath path \<and>
     (\<exists>root\<in>set roots. inside (realpath path) (realpath root))"
  by (auto simp: resolve_within_def Let_def split: sum.splits)

subsection \<open>What a manifest permits\<close>

text \<open>
  The requests a manifest can be asked for, and whether its check lets them through. Windows path
  rules are part of the request.
\<close>

datatype request =
    UseTool string
  | ReadPath string bool
  | WritePath string bool
  | NetHost string
  | Exec string "string list"
  | Classified string
  | Spend rat

fun permits :: "(string \<Rightarrow> string) \<Rightarrow> (string \<Rightarrow> string \<Rightarrow> bool) \<Rightarrow> manifest \<Rightarrow> request \<Rightarrow> bool" where
  "permits realpath fullmatch m (UseTool n) \<longleftrightarrow> check_tool m n = Inr ()"
| "permits realpath fullmatch m (ReadPath p w) \<longleftrightarrow> check_read realpath m p w = Inr (realpath p)"
| "permits realpath fullmatch m (WritePath p w) \<longleftrightarrow> check_write realpath m p w = Inr (realpath p)"
| "permits realpath fullmatch m (NetHost h) \<longleftrightarrow> check_net m h = Inr ()"
| "permits realpath fullmatch m (Exec b args) \<longleftrightarrow> check_exec fullmatch m b args = Inr ()"
| "permits realpath fullmatch m (Classified l) \<longleftrightarrow> check_classification m l = Inr ()"
| "permits realpath fullmatch m (Spend x) \<longleftrightarrow> x \<le> max_budget_usd m"

lemma check_simps [cap_simps]:
  "check_tool m n = Inr () \<longleftrightarrow> n \<in> tools m"
  "check_net m h = Inr () \<longleftrightarrow> h \<in> net_hosts m"
  "check_exec fm m b args = Inr () \<longleftrightarrow>
     (\<exists>r\<in>set (exec_rules m). binary r = b \<and> fm (arg_pattern r) (join '' '' args))"
  "check_read rp m p w = Inr res \<longleftrightarrow> reject_ads p w = Inr () \<and> res = rp p \<and>
     (\<exists>root\<in>set (fs_read_roots m). inside (rp p) (rp root))"
  "check_write rp m p w = Inr res \<longleftrightarrow> reject_ads p w = Inr () \<and> res = rp p \<and>
     (\<exists>root\<in>set (fs_write_roots m). inside (rp p) (rp root))"
  "check_classification m l = Inr () \<longleftrightarrow>
     (\<exists>r c. classification_rank l = Inr r \<and>
            classification_rank (classification_ceiling m) = Inr c \<and> r \<le> c)"
  by (auto simp: check_tool_def check_net_def check_exec_def check_read_def check_write_def
      check_classification_def allows_def resolve_within_Inr split: sum.splits)

lemma roots_contained_inside:
  assumes "\<exists>root\<in>set (roots_contained rp cs ps). inside x (rp root)"
  shows "(\<exists>root\<in>set cs. inside x (rp root)) \<and> (\<exists>root\<in>set ps. inside x (rp root))"
  using assms inside_trans unfolding roots_contained_def by fastforce

lemma attenuate_Inr:
  assumes "attenuate rp parent child = Inr m"
  shows "\<exists>a b. classification_rank (classification_ceiling parent) = Inr a \<and>
    classification_rank (classification_ceiling child) = Inr b \<and>
    classification_rank (classification_ceiling m) = Inr (min a b)"
  using assms by (auto simp: attenuate_def min_def split: sum.splits if_splits)

lemma attenuate_fields:
  assumes "attenuate rp parent child = Inr m"
  shows "tools m = tools child \<inter> tools parent" "net_hosts m = net_hosts child \<inter> net_hosts parent"
    "fs_read_roots m = roots_contained rp (fs_read_roots child) (fs_read_roots parent)"
    "fs_write_roots m = roots_contained rp (fs_write_roots child) (fs_write_roots parent)"
    "exec_rules m = filter (\<lambda>r. \<exists>pr\<in>set (exec_rules parent).
        binary r = binary pr \<and> arg_pattern r = arg_pattern pr) (exec_rules child)"
    "max_budget_usd m = min (max_budget_usd child) (max_budget_usd parent)"
  using assms by (auto simp: attenuate_def split: sum.splits)

lemma attenuate_permits:
  assumes m: "attenuate rp parent child = Inr m" and p: "permits rp fm m req"
  shows "permits rp fm parent req \<and> permits rp fm child req"
proof -
  note m0 = attenuate_fields [OF m]
  show ?thesis
  proof (cases req)
    case (ReadPath path w)
    with p show ?thesis
      using roots_contained_inside [of rp "fs_read_roots child" "fs_read_roots parent" "rp path"]
      by (simp only: cap_simps m0 permits.simps simp_thms)
  next
    case (WritePath path w)
    with p show ?thesis
      using roots_contained_inside [of rp "fs_write_roots child" "fs_write_roots parent" "rp path"]
      by (simp only: cap_simps m0 permits.simps simp_thms)
  next
    case (Exec b args)
    with p m0 show ?thesis by (auto simp: cap_simps)
  next
    case (Classified l)
    with p attenuate_Inr [OF m] show ?thesis by (auto simp: cap_simps)
  qed (use p m0 in \<open>simp_all add: cap_simps\<close>)
qed

subsection \<open>Interface: attenuating authority down a delegation path\<close>

text \<open>Narrowing step by step, each step by the next delegate's own authority.\<close>

fun descend :: "('m \<Rightarrow> 'm \<Rightarrow> 'e + 'm) \<Rightarrow> 'm \<Rightarrow> 'm list \<Rightarrow> 'e + 'm" where
  "descend meet eff [] = Inr eff"
| "descend meet eff (c # cs) = (case meet eff c of Inl e \<Rightarrow> Inl e | Inr m \<Rightarrow> descend meet m cs)"

locale attenuation =
  fixes meet :: "'m \<Rightarrow> 'm \<Rightarrow> 'e + 'm"
    and grants :: "'m \<Rightarrow> 'r \<Rightarrow> bool"
  assumes meet_grants: "meet p c = Inr m \<Longrightarrow> grants m r \<Longrightarrow> grants p r \<and> grants c r"
begin

lemma descend_grants:
  "descend meet eff cs = Inr m \<Longrightarrow> grants m r \<Longrightarrow> grants eff r \<and> (\<forall>c\<in>set cs. grants c r)"
  by (induction cs arbitrary: eff) (auto split: sum.splits dest: meet_grants)

lemma descend_append:
  assumes "descend meet eff (cs @ ds) = Inr m"
  shows "\<exists>m'. descend meet eff cs = Inr m' \<and> descend meet m' ds = Inr m"
  using assms by (induction cs arbitrary: eff) (auto split: sum.splits)

lemma descend_shrinks:
  assumes "descend meet eff (cs @ ds) = Inr m" "grants m r"
  shows "\<exists>m'. descend meet eff cs = Inr m' \<and> grants m' r"
  using descend_append [OF assms(1)] descend_grants assms(2) by blast

end

interpretation manifest_order: attenuation "attenuate realpath" "permits realpath fullmatch"
  for realpath fullmatch
  by unfold_locales (rule attenuate_permits)

lemma reject_ads_colon:
  "ads_parts (Suc i) parts = Inr () \<longleftrightarrow> (\<forall>p\<in>set parts. CHR '':'' \<notin> set p)"
  by (induction parts arbitrary: i) auto

subsection \<open>Properties\<close>

text \<open>C9: Attenuation is a meet. Whatever an attenuated manifest permits, the parent and the child
  manifest both permit, for every kind of request; for tool names, hosts, classification levels and
  budget it permits exactly what both do.\<close>

theorem attenuate_is_meet:
  assumes "attenuate realpath parent child = Inr m"
  shows "(permits realpath fullmatch m req \<longrightarrow>
           permits realpath fullmatch parent req \<and> permits realpath fullmatch child req) \<and>
    (req \<in> range UseTool \<union> range NetHost \<union> range Classified \<union> range Spend \<longrightarrow>
       permits realpath fullmatch m req =
         (permits realpath fullmatch parent req \<and> permits realpath fullmatch child req))"
proof (intro conjI impI)
  assume "req \<in> range UseTool \<union> range NetHost \<union> range Classified \<union> range Spend"
  then show "permits realpath fullmatch m req =
      (permits realpath fullmatch parent req \<and> permits realpath fullmatch child req)"
    using attenuate_fields [OF assms] attenuate_Inr [OF assms] by (auto simp: cap_simps)
qed (use attenuate_permits [OF assms] in blast)+

definition demo_parent :: manifest where
  "demo_parent = empty_manifest\<lparr>tools := {''fs_read'', ''net''}, fs_read_roots := [''/srv''],
     classification_ceiling := ''internal''\<rparr>"

definition demo_child :: manifest where
  "demo_child = empty_manifest\<lparr>tools := {''fs_read'', ''exec''}, fs_read_roots := [''/srv/data'', ''/etc'']\<rparr>"

theorem attenuate_is_meet_witness:
  "\<exists>m. attenuate id demo_parent demo_child = Inr m \<and>
       permits id (\<lambda>_ _. False) m (ReadPath ''/srv/data/x'' False) \<and>
       permits id (\<lambda>_ _. False) demo_parent (ReadPath ''/srv/data/x'' False)"
proof -
  obtain m where m: "attenuate id demo_parent demo_child = Inr m"
    by (simp add: attenuate_def demo_parent_def demo_child_def empty_manifest_def
        classification_rank_def CLASS_ORDER_def)
  have "permits id (\<lambda>_ _. False) m (ReadPath ''/srv/data/x'' False)"
    using attenuate_fields(3) [OF m]
    by (simp add: cap_simps demo_parent_def demo_child_def empty_manifest_def roots_contained_def
        reject_ads_def commonpath_def components_def startswith_def)
  with m attenuate_is_meet [OF m] show ?thesis by blast
qed

text \<open>No path escapes. When a read or write check answers with a path, it is the resolved path,
  its components extend those of a resolved root of the manifest, and under Windows rules the
  requested path had no colon outside a leading drive letter.\<close>

theorem checked_path_contained:
  assumes "check_read realpath m path windows = Inr res \<or> check_write realpath m path windows = Inr res"
  shows "res = realpath path \<and>
    (\<exists>root\<in>set (fs_read_roots m) \<union> set (fs_write_roots m).
        prefix (components (realpath root)) (components res)) \<and>
    (windows \<longrightarrow> (\<forall>part\<in>set (tl (split_on (CHR 0x5C)
        (map (\<lambda>c. if c = CHR ''/'' then CHR 0x5C else c) path))). CHR '':'' \<notin> set part))"
proof -
  let ?parts = "split_on (CHR 0x5C) (map (\<lambda>c. if c = CHR ''/'' then CHR 0x5C else c) path)"
  have "reject_ads path windows = Inr ()" using assms by (auto simp: cap_simps)
  then have "windows \<Longrightarrow> ads_parts 0 ?parts = Inr ()" by (simp add: reject_ads_def)
  then have "windows \<Longrightarrow> ads_parts (Suc 0) (tl ?parts) = Inr ()"
    by (cases ?parts) (auto split: if_splits)
  then show ?thesis using assms by (auto simp: cap_simps inside_iff reject_ads_colon)
qed

theorem checked_path_contained_witness:
  "check_read id demo_parent ''/srv/data/x'' False = Inr ''/srv/data/x'' \<and>
   (\<exists>root\<in>set (fs_read_roots demo_parent) \<union> set (fs_write_roots demo_parent).
        prefix (components (id root)) (components ''/srv/data/x''))"
proof -
  have r: "check_read id demo_parent ''/srv/data/x'' False = Inr ''/srv/data/x''"
    by (simp add: cap_simps demo_parent_def empty_manifest_def reject_ads_def commonpath_def
        components_def startswith_def)
  then show ?thesis using checked_path_contained [of id demo_parent "''/srv/data/x''" False] by blast
qed

end
