(* ===== verification/Json.thy ===== *)
theory Json
  imports Prelude
begin

text \<open>
  Python's \<open>json\<close> module as the runtime uses it: \<open>json.dumps\<close> with chosen separators
  and \<open>sort_keys\<close>, \<open>json.loads\<close>, and the canonical form (sorted keys, compact
  separators) that the ledger hashes. Values are \<^verbatim>\<open>None\<close>, booleans, integers, strings,
  lists and string-keyed dictionaries; floating-point numbers are outside the model, and
  \<^verbatim>\<open>loads\<close> answers \<^verbatim>\<open>None\<close> on a text that needs one (or a code point above 255).
  The main result is that reading back a dumped value gives the value, for both separator
  styles, so the canonical form determines its value.
\<close>

datatype json = JNull | JBool bool | JInt int | JStr string | JArr "json list"
  | JObj "(string \<times> json) list"

type_synonym dict = "(string \<times> json) list"

subsection \<open>Printing\<close>

definition quote :: char where "quote = CHR 0x22"
definition backslash :: char where "backslash = CHR 0x5C"

definition esc_char :: "char \<Rightarrow> string" where
  "esc_char c =
     (let n = (of_char c :: nat) in
      if n = 34 then [backslash, quote]
      else if n = 92 then [backslash, backslash]
      else if n = 10 then [backslash, CHR ''n'']
      else if n = 13 then [backslash, CHR ''r'']
      else if n = 9 then [backslash, CHR ''t'']
      else if n = 12 then [backslash, CHR ''f'']
      else if n = 8 then [backslash, CHR ''b'']
      else if 32 \<le> n \<and> n < 127 then [c]
      else [backslash, CHR ''u'', CHR ''0'', CHR ''0'', hex_char (n div 16), hex_char (n mod 16)])"

definition dumps_str :: "string \<Rightarrow> string" where
  "dumps_str s = [quote] @ concat (map esc_char s) @ [quote]"

fun dumps_sep :: "string \<Rightarrow> string \<Rightarrow> json \<Rightarrow> string" where
  "dumps_sep i k JNull = ''null''"
| "dumps_sep i k (JBool b) = (if b then ''true'' else ''false'')"
| "dumps_sep i k (JInt n) = int_str n"
| "dumps_sep i k (JStr s) = dumps_str s"
| "dumps_sep i k (JArr xs) = ''['' @ join i (map (dumps_sep i k) xs) @ '']''"
| "dumps_sep i k (JObj ps) =
     ''{'' @ join i (map (\<lambda>p. dumps_str (fst p) @ k @ dumps_sep i k (snd p)) ps) @ ''}''"

text \<open>\<open>sort_keys=True\<close>: dictionaries are emitted in key order at every level.\<close>

fun sort_json :: "json \<Rightarrow> json" where
  "sort_json (JArr xs) = JArr (map sort_json xs)"
| "sort_json (JObj ps) = JObj (sort_key fst (map (\<lambda>p. (fst p, sort_json (snd p))) ps))"
| "sort_json j = j"

text \<open>\<open>json.dumps(x)\<close> and \<open>json.dumps(x, sort_keys=True)\<close>, default separators.\<close>

definition dumps :: "json \<Rightarrow> string" where
  "dumps j = dumps_sep '', '' '': '' j"

definition dumps_sorted :: "json \<Rightarrow> string" where
  "dumps_sorted j = dumps (sort_json j)"

text \<open>\<open>json.dumps(x, sort_keys=True, separators=(",", ":"))\<close>.\<close>

definition canonical :: "json \<Rightarrow> string" where
  "canonical j = dumps_sep '','' '':'' (sort_json j)"

text \<open>Distinct keys at every level: what a Python dictionary always has.\<close>

fun wf_json :: "json \<Rightarrow> bool" where
  "wf_json (JArr xs) = (\<forall>x\<in>set xs. wf_json x)"
| "wf_json (JObj ps) = (distinct (map fst ps) \<and> (\<forall>p\<in>set ps. wf_json (snd p)))"
| "wf_json j = True"

subsection \<open>Reading\<close>

definition json_ws :: "char \<Rightarrow> bool" where
  "json_ws c \<longleftrightarrow> (of_char c :: nat) \<in> {9, 10, 13, 32}"

definition skip_ws :: "string \<Rightarrow> string" where
  "skip_ws s = dropWhile json_ws s"

definition hex4 :: "char \<Rightarrow> char \<Rightarrow> char \<Rightarrow> char \<Rightarrow> char option" where
  "hex4 a b c d =
     (case (hex_val a, hex_val b, hex_val c, hex_val d) of
        (Some w, Some x, Some y, Some z) \<Rightarrow>
          (let n = 4096 * w + 256 * x + 16 * y + z in if n < 256 then Some (char_of n) else None)
      | _ \<Rightarrow> None)"

definition simple_esc :: "char \<Rightarrow> char option" where
  "simple_esc e =
     (let n = (of_char e :: nat) in
      if n = 34 \<or> n = 92 \<or> n = 47 then Some e
      else if n = 110 then Some (char_of (10::nat))
      else if n = 114 then Some (char_of (13::nat))
      else if n = 116 then Some (char_of (9::nat))
      else if n = 102 then Some (char_of (12::nat))
      else if n = 98 then Some (char_of (8::nat)) else None)"

definition push_char :: "char \<Rightarrow> (string \<times> string) option \<Rightarrow> (string \<times> string) option" where
  "push_char c = map_option (\<lambda>(t, r). (c # t, r))"

text \<open>The body of a string literal, after the opening quote (strict mode).\<close>

fun scan_str :: "string \<Rightarrow> (string \<times> string) option" where
  "scan_str [] = None"
| "scan_str (c # s) =
     (if c = quote then Some ([], s)
      else if c = backslash then
        (case s of
           [] \<Rightarrow> None
         | e # s' \<Rightarrow>
             (case simple_esc e of
                Some d \<Rightarrow> push_char d (scan_str s')
              | None \<Rightarrow>
                  if e = CHR ''u'' then
                    (case s' of
                       h1 # h2 # h3 # h4 # s'' \<Rightarrow>
                         (case hex4 h1 h2 h3 h4 of
                            Some d \<Rightarrow> push_char d (scan_str s'') | None \<Rightarrow> None)
                     | _ \<Rightarrow> None)
                  else None))
      else if (of_char c :: nat) < 32 then None
      else push_char c (scan_str s))"

definition is_digit :: "char \<Rightarrow> bool" where
  "is_digit c \<longleftrightarrow> 48 \<le> (of_char c :: nat) \<and> (of_char c :: nat) < 58"

definition digits_val :: "string \<Rightarrow> nat" where
  "digits_val s = foldl (\<lambda>a c. 10 * a + (of_char c - 48)) 0 s"

text \<open>A fraction or an exponent follows, so the literal is a float.\<close>

definition float_tail :: "string \<Rightarrow> bool" where
  "float_tail s =
     (case s of
        c # d # r \<Rightarrow>
          (of_char c :: nat) = 46 \<and> is_digit d
          \<or> (of_char c :: nat) \<in> {69, 101} \<and>
            (is_digit d \<or> (of_char d :: nat) \<in> {43, 45} \<and> r \<noteq> [] \<and> is_digit (hd r))
      | _ \<Rightarrow> False)"

definition parse_nat :: "string \<Rightarrow> (nat \<times> string) option" where
  "parse_nat s =
     (let ds = takeWhile is_digit s in
      if ds = [] then None
      else let tok = (if hd ds = CHR ''0'' then [CHR ''0''] else ds); r = drop (length tok) s
           in if float_tail r then None else Some (digits_val tok, r))"

definition parse_int :: "string \<Rightarrow> (int \<times> string) option" where
  "parse_int s =
     (case s of
        c # r \<Rightarrow> if c = CHR ''-'' then map_option (\<lambda>(n, t). (- int n, t)) (parse_nat r)
                 else map_option (\<lambda>(n, t). (int n, t)) (parse_nat s)
      | [] \<Rightarrow> None)"

text \<open>A later duplicate key replaces the earlier one in place, as building a dict does.\<close>

definition dict_of_pairs :: "dict \<Rightarrow> dict" where
  "dict_of_pairs ps = foldl (\<lambda>d p. dict_set (fst p) (snd p) d) [] ps"

text \<open>
  The recursive-descent reader. The first argument bounds the nesting of calls;
  \<open>loads\<close> starts it with more than the text can use up.
\<close>

fun parse_value :: "nat \<Rightarrow> string \<Rightarrow> (json \<times> string) option"
  and parse_elems :: "nat \<Rightarrow> string \<Rightarrow> (json list \<times> string) option"
  and parse_members :: "nat \<Rightarrow> string \<Rightarrow> (dict \<times> string) option" where
  "parse_value 0 s = None"
| "parse_value (Suc n) s =
     (case s of
        [] \<Rightarrow> None
      | c # r \<Rightarrow>
          if c = quote then map_option (\<lambda>(t, r'). (JStr t, r')) (scan_str r)
          else if c = CHR ''['' then
            (case skip_ws r of
               [] \<Rightarrow> None
             | d # r' \<Rightarrow> if d = CHR '']'' then Some (JArr [], r')
                         else map_option (\<lambda>(xs, q). (JArr xs, q)) (parse_elems n (d # r')))
          else if c = CHR ''{'' then
            (case skip_ws r of
               [] \<Rightarrow> None
             | d # r' \<Rightarrow> if d = CHR ''}'' then Some (JObj [], r')
                         else map_option (\<lambda>(ps, q). (JObj (dict_of_pairs ps), q))
                                (parse_members n (d # r')))
          else if startswith s ''null'' then Some (JNull, drop 4 s)
          else if startswith s ''true'' then Some (JBool True, drop 4 s)
          else if startswith s ''false'' then Some (JBool False, drop 5 s)
          else map_option (\<lambda>(i, q). (JInt i, q)) (parse_int s))"
| "parse_elems 0 s = None"
| "parse_elems (Suc n) s =
     (case parse_value n s of
        None \<Rightarrow> None
      | Some (v, r) \<Rightarrow>
          (case skip_ws r of
             [] \<Rightarrow> None
           | d # r' \<Rightarrow>
               if d = CHR '']'' then Some ([v], r')
               else if d = CHR '','' then
                 map_option (\<lambda>(vs, q). (v # vs, q)) (parse_elems n (skip_ws r'))
               else None))"
| "parse_members 0 s = None"
| "parse_members (Suc n) s =
     (case s of
        [] \<Rightarrow> None
      | c # r \<Rightarrow>
          if c \<noteq> quote then None
          else (case scan_str r of
                  None \<Rightarrow> None
                | Some (key, r1) \<Rightarrow>
                    (case skip_ws r1 of
                       [] \<Rightarrow> None
                     | e # r2 \<Rightarrow>
                         if e \<noteq> CHR '':'' then None
                         else (case parse_value n (skip_ws r2) of
                                 None \<Rightarrow> None
                               | Some (v, r3) \<Rightarrow>
                                   (case skip_ws r3 of
                                      [] \<Rightarrow> None
                                    | d # r4 \<Rightarrow>
                                        if d = CHR ''}'' then Some ([(key, v)], r4)
                                        else if d = CHR '','' then
                                          map_option (\<lambda>(ps, q). ((key, v) # ps, q))
                                            (parse_members n (skip_ws r4))
                                        else None)))))"

definition loads :: "string \<Rightarrow> json option" where
  "loads s =
     (case parse_value (2 * length s + 2) (skip_ws s) of
        Some (v, r) \<Rightarrow> if skip_ws r = [] then Some v else None
      | None \<Rightarrow> None)"

subsection \<open>Access\<close>

text \<open>\<open>e.get(k)\<close> on a decoded event; \<^const>\<open>None\<close> also when it is not a dict.\<close>

fun jget :: "json \<Rightarrow> string \<Rightarrow> json option" where
  "jget (JObj ps) k = dict_get ps k"
| "jget _ k = None"

text \<open>\<open>str(v)\<close> of a decoded value.\<close>

fun py_repr_json :: "json \<Rightarrow> string" where
  "py_repr_json JNull = ''None''"
| "py_repr_json (JBool b) = (if b then ''True'' else ''False'')"
| "py_repr_json (JInt i) = int_str i"
| "py_repr_json (JStr s) = py_repr s"
| "py_repr_json (JArr xs) = ''['' @ join '', '' (map py_repr_json xs) @ '']''"
| "py_repr_json (JObj ps) =
     ''{'' @ join '', '' (map (\<lambda>p. py_repr (fst p) @ '': '' @ py_repr_json (snd p)) ps) @ ''}''"

definition py_str :: "json \<Rightarrow> string" where
  "py_str j = (case j of JStr s \<Rightarrow> s | _ \<Rightarrow> py_repr_json j)"

text \<open>Python truth of a decoded value.\<close>

definition truthy :: "json \<Rightarrow> bool" where
  "truthy j = (case j of JNull \<Rightarrow> False | JBool b \<Rightarrow> b | JInt i \<Rightarrow> i \<noteq> 0 | JStr s \<Rightarrow> s \<noteq> []
     | JArr xs \<Rightarrow> xs \<noteq> [] | JObj d \<Rightarrow> d \<noteq> [])"

text \<open>\<open>int(s)\<close> of a string: optional sign, digits, single underscores between digits.\<close>

definition int_of_str :: "string \<Rightarrow> int option" where
  "int_of_str s =
     (let t = strip s;
          (neg, body) = (case t of c # cs \<Rightarrow> if c = CHR ''-'' then (True, cs)
                                   else if c = CHR ''+'' then (False, cs) else (False, t)
                         | [] \<Rightarrow> (False, t));
          parts = split_on (CHR ''_'') body
      in if \<forall>p\<in>set parts. p \<noteq> [] \<and> list_all is_digit p
         then Some ((if neg then - 1 else 1) * int (digits_val (concat parts)))
         else None)"

subsection \<open>Strings and integers read back\<close>

lemma of_char_less_256 [simp]: "(of_char c :: nat) < 256"
  by simp

lemma of_char_eq_iff_char: "(of_char c :: nat) = n \<Longrightarrow> c = char_of n"
  by auto

lemma char_of_literals:
  "char_of (34::nat) = CHR 0x22" "char_of (92::nat) = CHR 0x5C" "char_of (48::nat) = CHR ''0''"
  by code_simp+

lemma char_of_hex_digits: "char_of (16 * ((of_char c :: nat) div 16) + of_char c mod 16) = c"
  by (metis char_of_char div_mult_mod_eq mult.commute)

lemma scan_esc_char: "scan_str (esc_char c @ r) = push_char c (scan_str r)"
proof -
  let ?n = "of_char c :: nat"
  have hx: "hex_val (CHR ''0'') = Some 0" by (simp add: hex_val_def)
  have n: "?n div 16 < 16" using of_char_less_256 [of c] by linarith
  consider "?n = 34" | "?n = 92" | "?n = 10" | "?n = 13" | "?n = 9" | "?n = 12" | "?n = 8"
    | "32 \<le> ?n \<and> ?n < 127 \<and> ?n \<noteq> 34 \<and> ?n \<noteq> 92"
    | "(?n < 32 \<or> 127 \<le> ?n) \<and> ?n \<notin> {8, 9, 10, 12, 13}"
    by fastforce
  then show ?thesis
  proof cases
    case 8
    then have "c \<noteq> quote" "c \<noteq> backslash" by (auto simp: quote_def backslash_def)
    with 8 show ?thesis by (simp add: esc_char_def Let_def)
  next
    case 9
    have "hex4 (CHR ''0'') (CHR ''0'') (hex_char (?n div 16)) (hex_char (?n mod 16)) = Some c"
      using n by (simp add: hex4_def hx hex_val_hex_char char_of_hex_digits)
    moreover have "simple_esc (CHR ''u'') = None" by (simp add: simple_esc_def)
    moreover have "backslash \<noteq> quote" by (simp add: quote_def backslash_def)
    moreover have "esc_char c = [backslash, CHR ''u'', CHR ''0'', CHR ''0'',
        hex_char (?n div 16), hex_char (?n mod 16)]"
      using 9 by (auto simp: esc_char_def Let_def)
    ultimately show ?thesis by simp
  qed (auto simp: esc_char_def simple_esc_def quote_def backslash_def char_of_literals
         dest!: of_char_eq_iff_char)
qed

lemma scan_dumps_str: "scan_str (concat (map esc_char s) @ quote # r) = Some (s, r)"
  by (induction s) (simp_all add: scan_esc_char push_char_def)

lemma is_digit_digit_char: "n < 10 \<Longrightarrow> is_digit (digit_char n)"
  by (simp add: is_digit_def digit_char_def)

lemma nat_str_digits: "c \<in> set (nat_str n) \<Longrightarrow> is_digit c"
proof (induction n rule: nat_str.induct)
  case (1 n)
  then show ?case
    by (subst (asm) (2) nat_str.simps) (auto simp: is_digit_digit_char split: if_splits)
qed

lemma digits_val_snoc: "digits_val (s @ [c]) = 10 * digits_val s + (of_char c - 48)"
  by (simp add: digits_val_def)

lemma digits_val_nat_str: "digits_val (nat_str n) = n"
proof (induction n rule: nat_str.induct)
  case (1 n)
  show ?case
  proof (cases "n < 10")
    case True
    then show ?thesis by (subst nat_str.simps) (simp add: digits_val_def digit_char_def)
  next
    case False
    with 1 show ?thesis
      by (subst nat_str.simps) (simp add: digits_val_snoc digit_char_def)
  qed
qed

lemma hd_nat_str: "hd (nat_str n) = CHR ''0'' \<longleftrightarrow> n = 0"
proof (induction n rule: nat_str.induct)
  case (1 n)
  have z: "digit_char m = CHR ''0'' \<longleftrightarrow> m = 0" if "m < 10" for m
  proof -
    have "(of_char (digit_char m) :: nat) = 48 + m" using that by (simp add: digit_char_def)
    moreover have "digit_char m = CHR ''0'' \<longleftrightarrow> (of_char (digit_char m) :: nat) = of_char (CHR ''0'')"
      by (simp only: of_char_eq_iff)
    ultimately show ?thesis by simp
  qed
  show ?case
  proof (cases "n < 10")
    case True
    then show ?thesis by (subst nat_str.simps) (simp add: z)
  next
    case False
    with 1 show ?thesis by (subst nat_str.simps) (simp add: div_eq_0_iff)
  qed
qed

text \<open>What may follow a number without being read as part of it.\<close>

definition stop :: "string \<Rightarrow> bool" where
  "stop r \<longleftrightarrow> (case r of [] \<Rightarrow> True | c # _ \<Rightarrow> \<not> is_digit c \<and> (of_char c :: nat) \<notin> {46, 69, 101})"

lemma stop_float_tail: "stop r \<Longrightarrow> \<not> float_tail r"
  by (auto simp: stop_def float_tail_def split: list.splits)

lemma takeWhile_digits:
  "(\<And>c. c \<in> set s \<Longrightarrow> is_digit c) \<Longrightarrow> stop r \<Longrightarrow> takeWhile is_digit (s @ r) = s"
  by (cases r) (auto simp: stop_def takeWhile_append2)

lemma parse_nat_str: "stop r \<Longrightarrow> parse_nat (nat_str n @ r) = Some (n, r)"
proof -
  assume "stop r"
  then have tw: "takeWhile is_digit (nat_str n @ r) = nat_str n"
    by (intro takeWhile_digits) (auto dest: nat_str_digits)
  show ?thesis
  proof (cases "n = 0")
    case True
    have "nat_str 0 = [CHR ''0'']" by (subst nat_str.simps) (simp add: digit_char_def char_of_literals)
    then show ?thesis using True tw \<open>stop r\<close>
      by (simp add: parse_nat_def Let_def stop_float_tail digits_val_def)
  next
    case False
    then show ?thesis using tw \<open>stop r\<close>
      by (simp add: parse_nat_def Let_def stop_float_tail digits_val_nat_str hd_nat_str)
  qed
qed

lemma parse_int_str: "stop r \<Longrightarrow> parse_int (int_str i @ r) = Some (i, r)"
proof (cases "i < 0")
  case True
  then show "stop r \<Longrightarrow> ?thesis" by (simp add: parse_int_def int_str_def parse_nat_str)
next
  case False
  assume "stop r"
  obtain c s where cs: "nat_str (nat i) = c # s" by (cases "nat_str (nat i)") auto
  then have "is_digit c" using nat_str_digits [of c "nat i"] by simp
  then have "c \<noteq> CHR ''-''" by (auto simp: is_digit_def)
  with False cs parse_nat_str [OF \<open>stop r\<close>, of "nat i"] show ?thesis
    by (simp add: parse_int_def int_str_def)
qed


subsection \<open>Values read back\<close>

lemma skip_ws_Cons [simp]: "skip_ws (c # s) = (if json_ws c then skip_ws s else c # s)"
  by (simp add: skip_ws_def)

lemma skip_ws_Nil [simp]: "skip_ws [] = []"
  by (simp add: skip_ws_def)

lemma skip_ws_append: "(\<And>c. c \<in> set w \<Longrightarrow> json_ws c) \<Longrightarrow> skip_ws (w @ s) = skip_ws s"
  by (simp add: skip_ws_def dropWhile_append2)

text \<open>The first character of a dumped value is no white space and starts no closing bracket.\<close>

definition value_start :: "char \<Rightarrow> bool" where
  "value_start c \<longleftrightarrow> \<not> json_ws c \<and> c \<noteq> CHR '']'' \<and> c \<noteq> CHR ''}''"

lemma dumps_start: "\<exists>c s. dumps_sep i k j = c # s \<and> value_start c"
proof (cases j)
  case (JInt n)
  obtain c s where cs: "nat_str (nat \<bar>n\<bar>) = c # s" by (cases "nat_str (nat \<bar>n\<bar>)") auto
  then have "is_digit c" using nat_str_digits [of c "nat \<bar>n\<bar>"] by simp
  then have "value_start c" by (auto simp: value_start_def is_digit_def json_ws_def)
  with JInt cs show ?thesis
    by (cases "n < 0") (auto simp: int_str_def value_start_def json_ws_def)
qed (auto simp: value_start_def json_ws_def dumps_str_def quote_def)

lemma skip_ws_dumps: "skip_ws (dumps_sep i k j @ r) = dumps_sep i k j @ r"
  using dumps_start [of i k j] by (auto simp: value_start_def)

lemma foldl_dict_set_distinct:
  "distinct (map fst (d @ ps)) \<Longrightarrow> foldl (\<lambda>d p. dict_set (fst p) (snd p) d) d ps = d @ ps"
proof (induction ps arbitrary: d)
  case (Cons p ps)
  then have "fst p \<notin> set (map fst d)" by auto
  with Cons.IH [of "d @ [p]"] Cons.prems show ?case by (simp add: dict_set_new)
qed simp

lemma dict_of_pairs_id: "distinct (map fst ps) \<Longrightarrow> dict_of_pairs ps = ps"
  using foldl_dict_set_distinct [of "[]" ps] by (simp add: dict_of_pairs_def)

text \<open>The separators the sources use: a comma or a colon, then optional spaces.\<close>

definition seps :: "string \<Rightarrow> string \<Rightarrow> bool" where
  "seps i k \<longleftrightarrow> (\<exists>w. i = CHR '','' # w \<and> (\<forall>c\<in>set w. json_ws c)) \<and>
              (\<exists>w. k = CHR '':'' # w \<and> (\<forall>c\<in>set w. json_ws c))"

definition reads_back :: "string \<Rightarrow> string \<Rightarrow> json \<Rightarrow> bool" where
  "reads_back i k j \<longleftrightarrow>
     (\<forall>n r. stop r \<longrightarrow> 2 * length (dumps_sep i k j) < n \<longrightarrow>
            parse_value n (dumps_sep i k j @ r) = Some (j, r))"

lemma stop_close [simp]:
  "stop (CHR '']'' # r)" "stop (CHR ''}'' # r)" "stop (CHR '','' # r)" "stop []"
  by (simp_all add: stop_def is_digit_def)

lemma join_Cons: "join sep (x # xs) = x @ (if xs = [] then [] else sep @ join sep xs)"
  by (cases xs) auto

lemma parse_elems_dumps:
  assumes "seps i k"
  shows "xs \<noteq> [] \<Longrightarrow> (\<And>x. x \<in> set xs \<Longrightarrow> reads_back i k x) \<Longrightarrow>
     2 * length (join i (map (dumps_sep i k) xs)) + 1 < n \<Longrightarrow>
     parse_elems n (join i (map (dumps_sep i k) xs) @ CHR '']'' # r) = Some (xs, r)"
proof (induction xs arbitrary: n)
  case (Cons x xs)
  from assms obtain w where i: "i = CHR '','' # w" "\<forall>c\<in>set w. json_ws c"
    by (auto simp: seps_def)
  have li: "length i = Suc (length w)" using i(1) by simp
  obtain m where n: "n = Suc m" using Cons.prems(3) by (cases n) auto
  have rb: "reads_back i k x" using Cons.prems by simp
  show ?case
  proof (cases "xs = []")
    case True
    with n rb Cons.prems(3) show ?thesis
      by (simp add: reads_back_def json_ws_def)
  next
    case False
    let ?t = "join i (map (dumps_sep i k) xs)"
    have pv: "parse_value m (dumps_sep i k x @ i @ ?t @ CHR '']'' # r)
        = Some (x, i @ ?t @ CHR '']'' # r)"
      using rb Cons.prems(3) n False i by (simp add: reads_back_def join_Cons)
    obtain y ys where xs: "xs = y # ys" using False by (cases xs) auto
    have "skip_ws (w @ ?t @ CHR '']'' # r) = ?t @ CHR '']'' # r"
      using i(2) by (subst skip_ws_append) (auto simp: xs join_Cons skip_ws_dumps)
    moreover have "parse_elems m (?t @ CHR '']'' # r) = Some (xs, r)"
      using Cons.prems False n li by (intro Cons.IH) (auto simp: join_Cons)
    ultimately show ?thesis
      using pv n False i(1) by (simp add: join_Cons json_ws_def)
  qed
qed simp

lemma parse_members_step:
  assumes "k = CHR '':'' # v" and "\<forall>c\<in>set v. json_ws c"
    and "skip_ws t = t" and "parse_value m t = Some (b, r3)"
  shows "parse_members (Suc m) (dumps_str a @ k @ t) =
     (case skip_ws r3 of
        [] \<Rightarrow> None
      | d # r4 \<Rightarrow>
          if d = CHR ''}'' then Some ([(a, b)], r4)
          else if d = CHR '','' then
            map_option (\<lambda>(ps, q). ((a, b) # ps, q)) (parse_members m (skip_ws r4))
          else None)"
proof -
  have "skip_ws (v @ t) = t" using assms(2,3) by (simp add: skip_ws_append)
  with assms(1,4) show ?thesis by (simp add: dumps_str_def scan_dumps_str json_ws_def)
qed

lemma parse_members_dumps:
  assumes "seps i k"
  shows "ps \<noteq> [] \<Longrightarrow> (\<And>p. p \<in> set ps \<Longrightarrow> reads_back i k (snd p)) \<Longrightarrow>
     2 * length (join i (map (\<lambda>p. dumps_str (fst p) @ k @ dumps_sep i k (snd p)) ps)) + 1 < n \<Longrightarrow>
     parse_members n (join i (map (\<lambda>p. dumps_str (fst p) @ k @ dumps_sep i k (snd p)) ps) @ CHR ''}'' # r)
       = Some (ps, r)"
proof (induction ps arbitrary: n)
  case (Cons p ps)
  from assms obtain w v where i: "i = CHR '','' # w" "\<forall>c\<in>set w. json_ws c"
    and k: "k = CHR '':'' # v" "\<forall>c\<in>set v. json_ws c"
    by (auto simp: seps_def)
  have li: "length i = Suc (length w)" using i(1) by simp
  obtain m where n: "n = Suc m" using Cons.prems(3) by (cases n) auto
  have pv: "parse_value m (dumps_sep i k (snd p) @ q) = Some (snd p, q)" if "stop q" for q
    using Cons.prems n that by (simp add: reads_back_def join_Cons)
  note step = parse_members_step [OF k skip_ws_dumps pv, of _ "fst p"]
  show ?case
  proof (cases "ps = []")
    case True
    with n step [of "CHR ''}'' # r"] show ?thesis by (simp add: json_ws_def)
  next
    case False
    let ?t = "join i (map (\<lambda>p. dumps_str (fst p) @ k @ dumps_sep i k (snd p)) ps)"
    obtain y ys where xs: "ps = y # ys" using False by (cases ps) auto
    have "skip_ws (w @ ?t @ CHR ''}'' # r) = ?t @ CHR ''}'' # r"
      using i(2) by (subst skip_ws_append) (auto simp: xs join_Cons dumps_str_def quote_def json_ws_def)
    moreover have "parse_members m (?t @ CHR ''}'' # r) = Some (ps, r)"
      using Cons.prems False n li by (intro Cons.IH) (auto simp: join_Cons)
    moreover have "join i (map (\<lambda>p. dumps_str (fst p) @ k @ dumps_sep i k (snd p)) (p # ps))
        = dumps_str (fst p) @ k @ dumps_sep i k (snd p) @ CHR '','' # w @ ?t"
      using False i(1) by (simp add: join_Cons)
    ultimately show ?thesis
      using step [of "CHR '','' # w @ ?t @ CHR ''}'' # r"] n
      by (simp only: append_assoc append_Cons stop_close simp_thms) (simp add: json_ws_def)
  qed
qed simp

lemma dumps_reads_back:
  assumes "seps i k"
  shows "wf_json j \<Longrightarrow> reads_back i k j"
proof (induction j)
  case (JArr xs)
  have el: "reads_back i k x" if "x \<in> set xs" for x
    using JArr that by simp
  show ?case unfolding reads_back_def
  proof (intro allI impI)
    fix n r assume "2 * length (dumps_sep i k (JArr xs)) < n"
    then obtain m where n: "n = Suc m" "2 * length (dumps_sep i k (JArr xs)) \<le> m"
      by (cases n) auto
    show "parse_value n (dumps_sep i k (JArr xs) @ r) = Some (JArr xs, r)"
    proof (cases xs)
      case Nil
      then show ?thesis using n by (simp add: quote_def json_ws_def)
    next
      case (Cons y ys)
      have "parse_elems m (join i (map (dumps_sep i k) xs) @ CHR '']'' # r) = Some (xs, r)"
        using Cons el n by (intro parse_elems_dumps [OF assms]) auto
      moreover obtain c t where "join i (map (dumps_sep i k) xs) = c # t" "value_start c"
        using dumps_start [of i k y] Cons by (auto simp: join_Cons)
      ultimately show ?thesis using n by (simp add: quote_def value_start_def)
    qed
  qed
next
  case (JObj ps)
  have el: "reads_back i k (snd p)" if "p \<in> set ps" for p
    using JObj that by (cases p) force
  show ?case unfolding reads_back_def
  proof (intro allI impI)
    fix n r assume "2 * length (dumps_sep i k (JObj ps)) < n"
    then obtain m where n: "n = Suc m" "2 * length (dumps_sep i k (JObj ps)) \<le> m"
      by (cases n) auto
    show "parse_value n (dumps_sep i k (JObj ps) @ r) = Some (JObj ps, r)"
    proof (cases ps)
      case Nil
      then show ?thesis using n by (simp add: quote_def json_ws_def)
    next
      case (Cons y ys)
      let ?t = "join i (map (\<lambda>p. dumps_str (fst p) @ k @ dumps_sep i k (snd p)) ps)"
      have "parse_members m (?t @ CHR ''}'' # r) = Some (ps, r)"
        using Cons el n by (intro parse_members_dumps [OF assms]) auto
      moreover obtain t where "?t = quote # t"
        using Cons by (auto simp: join_Cons dumps_str_def)
      moreover have "dict_of_pairs ps = ps" using JObj.prems by (simp add: dict_of_pairs_id)
      ultimately show ?thesis using n by (simp add: quote_def json_ws_def)
    qed
  qed
next
  case (JInt x)
  show ?case unfolding reads_back_def
  proof (intro allI impI)
    fix n r assume "stop r" and "2 * length (dumps_sep i k (JInt x)) < n"
    then obtain m where n: "n = Suc m" by (cases n) auto
    obtain c s where cs: "dumps_sep i k (JInt x) = c # s" and d: "is_digit c \<or> c = CHR ''-''"
    proof (cases "x < 0")
      case True
      then show ?thesis using that by (simp add: int_str_def)
    next
      case False
      obtain c s where "nat_str (nat x) = c # s" by (cases "nat_str (nat x)") auto
      then show ?thesis using that False nat_str_digits [of c "nat x"] by (simp add: int_str_def)
    qed
    have "c \<notin> {quote, CHR ''['', CHR ''{'', CHR ''n'', CHR ''t'', CHR ''f''}"
      using d by (auto simp: is_digit_def quote_def)
    then show "parse_value n (dumps_sep i k (JInt x) @ r) = Some (JInt x, r)"
      using parse_int_str [OF \<open>stop r\<close>, of x] n cs by (simp add: startswith_def)
  qed
next
  case (JStr x)
  show ?case unfolding reads_back_def
  proof (intro allI impI)
    fix n r assume "2 * length (dumps_sep i k (JStr x)) < n"
    then obtain m where n: "n = Suc m" by (cases n) auto
    then show "parse_value n (dumps_sep i k (JStr x) @ r) = Some (JStr x, r)"
      by (simp add: dumps_str_def scan_dumps_str)
  qed
next
  case JNull
  have "parse_value (Suc m) (''null'' @ r) = Some (JNull, r)" for m r
    by (simp add: quote_def startswith_def)
  then show ?case unfolding reads_back_def
    by (metis dumps_sep.simps(1) less_nat_zero_code not0_implies_Suc)
next
  case (JBool b)
  have "parse_value (Suc m) (dumps_sep i k (JBool b) @ r) = Some (JBool b, r)" for m r
    by (cases b) (simp_all add: quote_def startswith_def)
  then show ?case unfolding reads_back_def
    by (metis less_nat_zero_code not0_implies_Suc)
qed


lemma seps_compact: "seps '','' '':''"
  by (simp add: seps_def)

lemma seps_default: "seps '', '' '': ''"
  by (auto simp: seps_def json_ws_def)

lemma length_skip_ws: "length (skip_ws s) \<le> length s"
  by (simp add: skip_ws_def length_dropWhile_le)

lemma loads_dumps_sep:
  assumes "seps i k" and "wf_json j"
  shows "loads (dumps_sep i k j) = Some j"
proof -
  have "parse_value (2 * length (dumps_sep i k j) + 2) (dumps_sep i k j @ []) = Some (j, [])"
    using dumps_reads_back [OF assms] unfolding reads_back_def
    by (elim allE [of _ "2 * length (dumps_sep i k j) + 2"] allE [of _ "[]"]) simp_all
  then show ?thesis
    using skip_ws_dumps [of i k j "[]"] by (simp add: loads_def del: parse_value.simps)
qed

subsection \<open>Sorting keys\<close>

lemma wf_sort_json: "wf_json j \<Longrightarrow> wf_json (sort_json j)"
proof (induction j)
  case (JObj ps)
  have "distinct (map fst (sort_key fst (map (\<lambda>p. (fst p, sort_json (snd p))) ps)))"
    using JObj.prems by (simp add: distinct_map inj_on_def) (metis (no_types, lifting))
  moreover have "wf_json (sort_json (snd p))" if "p \<in> set ps" for p
    using JObj that by (cases p) force
  ultimately show ?case by auto
qed auto

lemma sort_json_idem [simp]: "sort_json (sort_json j) = sort_json j"
proof (induction j)
  case (JObj ps)
  let ?q = "map (\<lambda>p. (fst p, sort_json (snd p))) ps"
  have "sort_json (sort_json (snd p)) = sort_json (snd p)" if "p \<in> set ps" for p
    using JObj that by (cases p) force
  then have el: "sort_json (snd p) = snd p" if "p \<in> set (sort_key fst ?q)" for p
    using that by auto
  have "map (\<lambda>p. (fst p, sort_json (snd p))) (sort_key fst ?q) = sort_key fst ?q"
  proof (rule map_idI)
    fix p assume "p \<in> set (sort_key fst ?q)"
    then show "(fst p, sort_json (snd p)) = p" by (metis el prod.collapse)
  qed
  moreover have "sort_key fst (sort_key fst ?q) = sort_key fst ?q"
    by (rule sort_key_id_if_sorted) (rule sorted_sort_key)
  ultimately show ?case by (simp only: sort_json.simps)
qed auto

lemma loads_canonical: "wf_json j \<Longrightarrow> loads (canonical j) = Some (sort_json j)"
  unfolding canonical_def by (rule loads_dumps_sep [OF seps_compact wf_sort_json])

lemma loads_dumps_sorted: "wf_json j \<Longrightarrow> loads (dumps_sorted j) = Some (sort_json j)"
  unfolding dumps_sorted_def dumps_def by (rule loads_dumps_sep [OF seps_default wf_sort_json])

lemma loads_dumps: "wf_json j \<Longrightarrow> loads (dumps j) = Some j"
  unfolding dumps_def by (rule loads_dumps_sep [OF seps_default])

lemma canonical_sort [simp]: "canonical (sort_json j) = canonical j"
  by (simp add: canonical_def)

lemma dumps_sorted_sort [simp]: "dumps_sorted (sort_json j) = dumps_sorted j"
  by (simp add: dumps_sorted_def)

lemma canonical_inject:
  assumes "wf_json a" and "wf_json b"
  shows "canonical a = canonical b \<longleftrightarrow> sort_json a = sort_json b"
proof
  assume "canonical a = canonical b"
  with assms show "sort_json a = sort_json b"
    by (metis loads_canonical option.inject)
qed (metis canonical_sort)

text \<open>A dictionary read back answers every key with the (sorted) value it was given.\<close>

lemma map_of_map_snd: "map_of (map (\<lambda>p. (fst p, f (snd p))) ps) k = map_option f (map_of ps k)"
  by (induction ps) auto

lemma dict_get_sort_json:
  assumes "distinct (map fst ps)"
  shows "jget (sort_json (JObj ps)) k = map_option sort_json (dict_get ps k)"
proof -
  let ?q = "map (\<lambda>p. (fst p, sort_json (snd p))) ps"
  have "distinct (map fst ?q)" using assms by (simp add: comp_def)
  moreover have "distinct (map fst (sort_key fst ?q))"
    using assms by (simp add: distinct_map inj_on_def) (metis (no_types, lifting))
  ultimately have "map_of (sort_key fst ?q) k = Some v \<longleftrightarrow> map_of ?q k = Some v" for v
    by (simp only: map_of_eq_Some_iff set_sort)
  then have "map_of (sort_key fst ?q) k = map_of ?q k" by (rule option_eqI)
  then show ?thesis by (simp add: dict_get_def map_of_map_snd)
qed

subsection \<open>The reader's bound is never used up\<close>

lemma push_char_Some: "push_char c x = Some (t, r) \<longleftrightarrow> (\<exists>u. x = Some (u, r) \<and> t = c # u)"
  by (auto simp: push_char_def)

lemma scan_str_shorter: "scan_str s = Some (t, r) \<Longrightarrow> length r < length s"
proof (induction "length s" arbitrary: s t rule: less_induct)
  case less
  have IH: "scan_str s' = Some (t', r) \<Longrightarrow> length s' < length s \<Longrightarrow> length r < length s'" for s' t'
    using less.hyps by blast
  from less.prems show ?case
    by (cases s) (auto simp: push_char_Some split: if_splits list.splits option.splits dest!: IH)
qed

lemma parse_int_shorter: "parse_int s = Some (i, r) \<Longrightarrow> length r < length s"
proof -
  have pn: "parse_nat s = Some (n, r) \<Longrightarrow> length r < length s" for s n r
    by (cases s) (auto simp: parse_nat_def Let_def split: if_splits)
  show "parse_int s = Some (i, r) \<Longrightarrow> length r < length s"
    by (auto simp: parse_int_def split: list.splits if_splits dest!: pn)
qed

lemma parse_shorter:
  "parse_value n s = Some (v, r) \<Longrightarrow> length r < length s"
  "parse_elems n s = Some (vs, r) \<Longrightarrow> length r < length s"
  "parse_members n s = Some (ps, r) \<Longrightarrow> length r < length s"
proof (induction n arbitrary: s v r vs ps)
  case (Suc n)
  note ws = length_skip_ws
  have pw: "skip_ws q = c # q' \<Longrightarrow> length q' < length q" for c q q'
    using ws [of q] by simp
  have wl: "length r < length (skip_ws q) \<Longrightarrow> length r < length q" for r q
    using ws [of q] by simp
  {
    case 1
    then show ?case
      by (cases s) (auto split: if_splits list.splits dest!: Suc.IH pw scan_str_shorter parse_int_shorter)
  next
    case 2
    then show ?case
      by (auto split: if_splits list.splits option.splits dest!: Suc.IH pw wl)
  next
    case 3
    then show ?case
      by (auto split: if_splits list.splits option.splits dest!: Suc.IH pw wl scan_str_shorter)
  }
qed simp_all


lemma parse_bound:
  "2 * length s < n \<Longrightarrow> 2 * length s < m \<Longrightarrow> parse_value n s = parse_value m s"
  "2 * length s + 1 < n \<Longrightarrow> 2 * length s + 1 < m \<Longrightarrow> parse_elems n s = parse_elems m s"
  "2 * length s + 1 < n \<Longrightarrow> 2 * length s + 1 < m \<Longrightarrow> parse_members n s = parse_members m s"
proof (induction n arbitrary: s m)
  case (Suc n)
  have sk: "length q' < length q" if "skip_ws q = c # q'" for c q q'
    using that length_skip_ws [of q] by simp
  {
    case 1
    then obtain m' where m: "m = Suc m'" "2 * length s \<le> m'" "2 * length s \<le> n" by (cases m) auto
    have e: "parse_elems n t = parse_elems m' t" "parse_members n t = parse_members m' t"
      if "length t < length s" for t
      using that m by (auto intro!: Suc.IH)
    show ?case
    proof (cases s)
      case (Cons c r)
      have "length (d # r') < length s" if "skip_ws r = d # r'" for d r'
        using that length_skip_ws [of r] Cons by simp
      then show ?thesis using m(1) Cons
        by (auto split: list.splits simp: e)
    qed (simp add: m)
  next
    case 2
    then obtain m' where m: "m = Suc m'" "2 * length s < m'" "2 * length s < n" by (cases m) auto
    have v: "parse_value n s = parse_value m' s" using m by (auto intro!: Suc.IH)
    have e: "parse_elems n t = parse_elems m' t" if "length t < length s" for t
      using that m by (auto intro!: Suc.IH)
    have "length (skip_ws r') < length s"
      if "parse_value m' s = Some (x, r)" "skip_ws r = d # r'" for x r d r'
      using parse_shorter(1) [OF that(1)] sk [OF that(2)] length_skip_ws [of r'] by linarith
    then show ?case using m(1) by (auto simp: v e split: option.splits list.splits)
  next
    case 3
    then obtain m' where m: "m = Suc m'" "2 * length s < m'" "2 * length s < n" by (cases m) auto
    have v: "parse_value n t = parse_value m' t" if "length t \<le> length s" for t
      using that m by (auto intro!: Suc.IH)
    have e: "parse_members n t = parse_members m' t" if "length t < length s" for t
      using that m by (auto intro!: Suc.IH)
    show ?case
    proof (cases s)
      case (Cons c r)
      have a: "length (skip_ws r2) < length s" if "scan_str r = Some (key, r1)" "skip_ws r1 = d # r2"
        for key r1 d r2
        using scan_str_shorter [OF that(1)] sk [OF that(2)] length_skip_ws [of r2] Cons by simp
      have b: "length (skip_ws r4) < length s"
        if "scan_str r = Some (key, r1)" "skip_ws r1 = d # r2"
          "parse_value m' (skip_ws r2) = Some (x, r3)" "skip_ws r3 = d' # r4" for key r1 d r2 x r3 d' r4
        using a [OF that(1,2)] parse_shorter(1) [OF that(3)] sk [OF that(4)] length_skip_ws [of r4]
        by linarith
      have e': "parse_members n t = parse_members m' t" if "length t < length (c # r)" for t
        using e that Cons by simp
      show ?thesis
      proof (cases "\<exists>key r1 r2. scan_str r = Some (key, r1) \<and> skip_ws r1 = CHR '':'' # r2")
        case True
        then obtain key r1 r2 where h: "scan_str r = Some (key, r1)" "skip_ws r1 = CHR '':'' # r2"
          by blast
        have "parse_value n (skip_ws r2) = parse_value m' (skip_ws r2)"
          using a [OF h] by (intro v) simp
        then show ?thesis using m(1) Cons h
          by (auto split: option.splits list.splits
                   intro!: arg_cong [where f = "map_option _"] e'
                   dest: b [OF h, unfolded Cons])
      next
        case False
        then show ?thesis using m(1) Cons by (auto split: option.splits list.splits)
      qed
    qed (simp add: m)
  }
qed simp_all

text \<open>Any larger bound gives the same answer, so \<^const>\<open>loads\<close> fails only on bad texts.\<close>

lemma loads_any_bound:
  "2 * length s < n \<Longrightarrow>
   loads s = (case parse_value n (skip_ws s) of
                Some (v, r) \<Rightarrow> if skip_ws r = [] then Some v else None
              | None \<Rightarrow> None)"
  using parse_bound(1) [of "skip_ws s" n "2 * length s + 2"] length_skip_ws [of s]
  by (simp add: loads_def del: parse_value.simps)

text \<open>What the reader returns is well formed, whatever the text repeats.\<close>

lemma set_dict_set: "q \<in> set (dict_set k v d) \<Longrightarrow> q = (k, v) \<or> q \<in> set d"
  by (induction k v d rule: dict_set.induct) (auto split: if_splits)

lemma wf_dict_set: "wf_json v \<Longrightarrow> wf_json (JObj d) \<Longrightarrow> wf_json (JObj (dict_set k v d))"
  using distinct_dict_set set_dict_set by fastforce

lemma wf_foldl_dict_set:
  "(\<forall>p\<in>set ps. wf_json (snd p)) \<Longrightarrow> wf_json (JObj d) \<Longrightarrow>
   wf_json (JObj (foldl (\<lambda>d p. dict_set (fst p) (snd p) d) d ps))"
proof (induction ps arbitrary: d)
  case (Cons p ps)
  then have "wf_json (JObj (dict_set (fst p) (snd p) d))" by (intro wf_dict_set) simp_all
  from Cons.IH [OF _ this] Cons.prems(1) show ?case by simp
qed simp

lemma wf_dict_of_pairs: "(\<forall>p\<in>set ps. wf_json (snd p)) \<Longrightarrow> wf_json (JObj (dict_of_pairs ps))"
  unfolding dict_of_pairs_def by (rule wf_foldl_dict_set) simp_all

lemma parse_wf:
  "parse_value n s = Some (v, r) \<Longrightarrow> wf_json v"
  "parse_elems n s = Some (vs, r) \<Longrightarrow> \<forall>x\<in>set vs. wf_json x"
  "parse_members n s = Some (ps, r) \<Longrightarrow> \<forall>p\<in>set ps. wf_json (snd p)"
proof (induction n arbitrary: s v r vs ps)
  case (Suc n)
  {
    case 1
    then show ?case
      using Suc.IH(2,3) wf_dict_of_pairs
      by (cases s) (fastforce simp del: wf_json.simps(2) simp: wf_json.simps(2) [of "[]"] split: if_splits list.splits)+
  next
    case 2
    then show ?case
      using Suc.IH(1,2) by (fastforce split: if_splits list.splits option.splits)
  next
    case 3
    then show ?case
      using Suc.IH(1,3) by (fastforce split: if_splits list.splits option.splits)
  }
qed simp_all

lemma loads_wf: "loads s = Some j \<Longrightarrow> wf_json j"
  by (auto simp: loads_def simp del: parse_value.simps split: option.splits if_splits dest: parse_wf(1))

declare parse_value.simps [simp del] parse_elems.simps [simp del] parse_members.simps [simp del]
declare dumps_sep.simps [simp del] sort_json.simps [simp del]

end
