(* ===== verification/State.thy ===== *)
theory State
  imports Json
begin

text \<open>
  The durable store (\<open>scr/state.py\<close>): one record with a list of rows per SQLite table, in
  insertion order, and one definition per method of \<open>Store\<close>. Text columns that hold JSON
  hold the JSON text. Columns holding a creation time are kept only where a query orders by them
  (jobs and team sessions); the clock reading and a fresh UUID are arguments of the operation.
  The journal provides the session-log interface, the tool-result and approval tables the
  first-insert-wins interface.
\<close>

subsection \<open>Tables\<close>

record session_row =
  ses_id :: string
  ses_status :: string

record message_row =
  msg_session :: string
  msg_role :: string
  msg_content :: string

record journal_row =
  jr_session :: string
  jr_seq :: nat
  jr_state :: string
  jr_payload :: string

record result_row =
  tr_key :: string
  tr_session :: string
  tr_tool :: string
  tr_result :: string

record ledger_row =
  lr_session :: string
  lr_seq :: nat
  lr_event :: string
  lr_hash :: string

record seal_row =
  sl_session :: string
  sl_head :: string
  sl_count :: nat
  sl_hmac :: string

record approval_row =
  ap_id :: string
  ap_session :: string
  ap_status :: string
  ap_approver :: string

record job_row =
  jb_id :: string
  jb_session :: string
  jb_idem :: string
  jb_status :: string
  jb_text :: string
  jb_created :: int

record mail_row =
  ml_session :: string
  ml_from :: string
  ml_to :: string
  ml_body :: string

record token_row =
  tk_token :: string
  tk_subject :: string
  tk_role :: string

record team_row =
  tm_team :: string
  tm_session :: string
  tm_agent :: string
  tm_parent :: "string option"
  tm_depth :: nat
  tm_created :: int

record store =
  sessions :: "session_row list"
  messages :: "message_row list"
  journal :: "journal_row list"
  tool_results :: "result_row list"
  ledger :: "ledger_row list"
  seals :: "seal_row list"
  approvals :: "approval_row list"
  jobs :: "job_row list"
  mailbox :: "mail_row list"
  agent_tokens :: "token_row list"
  seat_holders :: "string list"
  team_sessions :: "team_row list"

definition empty_store :: store where
  "empty_store = \<lparr>sessions = [], messages = [], journal = [], tool_results = [], ledger = [],
     seals = [], approvals = [], jobs = [], mailbox = [], agent_tokens = [], seat_holders = [],
     team_sessions = []\<rparr>"

subsection \<open>Sessions and messages\<close>

definition create_session :: "store \<Rightarrow> string option \<Rightarrow> string \<Rightarrow> py_exn + (string \<times> store)" where
  "create_session st session_id fresh =
     (let sid = (case session_id of Some s \<Rightarrow> if s = [] then fresh else s | None \<Rightarrow> fresh) in
      if sid \<in> set (map ses_id (sessions st))
      then Inl (mk_exn ''IntegrityError'' ''UNIQUE constraint failed: sessions.id'')
      else Inr (sid, st\<lparr>sessions := sessions st @ [\<lparr>ses_id = sid, ses_status = ''open''\<rparr>]\<rparr>))"

definition set_session_status :: "store \<Rightarrow> string \<Rightarrow> string \<Rightarrow> store" where
  "set_session_status st sid status =
     st\<lparr>sessions := map (\<lambda>r. if ses_id r = sid then r\<lparr>ses_status := status\<rparr> else r) (sessions st)\<rparr>"

definition session_status :: "store \<Rightarrow> string \<Rightarrow> string option" where
  "session_status st sid = map_option ses_status (find (\<lambda>r. ses_id r = sid) (sessions st))"

definition add_message :: "store \<Rightarrow> string \<Rightarrow> string \<Rightarrow> string \<Rightarrow> store" where
  "add_message st sid rl content =
     st\<lparr>messages := messages st @
          [\<lparr>msg_session = sid, msg_role = rl, msg_content = content\<rparr>]\<rparr>"

record message =
  role :: string
  content :: string

definition get_messages :: "store \<Rightarrow> string \<Rightarrow> message list" where
  "get_messages st sid =
     map (\<lambda>r. \<lparr>role = msg_role r, content = msg_content r\<rparr>)
       (filter (\<lambda>r. msg_session r = sid) (messages st))"

subsection \<open>The write-ahead journal\<close>

record journal_entry =
  je_seq :: nat
  je_state :: string
  je_payload :: json

definition journal_rows :: "store \<Rightarrow> string \<Rightarrow> journal_row list" where
  "journal_rows st sid = select_seq jr_session jr_seq sid (journal st)"

definition journal_append :: "store \<Rightarrow> string \<Rightarrow> string \<Rightarrow> dict \<Rightarrow> nat \<times> store" where
  "journal_append st sid state payload =
     (let sq = Suc (max_seq jr_session jr_seq sid (journal st))
      in (sq, st\<lparr>journal := journal st @
            [\<lparr>jr_session = sid, jr_seq = sq, jr_state = state,
              jr_payload = dumps_sorted (JObj payload)\<rparr>]\<rparr>))"

text \<open>A payload that is not JSON makes \<open>json.loads\<close> raise.\<close>

definition decode_row :: "journal_row \<Rightarrow> py_exn + journal_entry" where
  "decode_row r =
     (case loads (jr_payload r) of
        None \<Rightarrow> Inl (mk_exn ''JSONDecodeError'' ''journal payload'')
      | Some p \<Rightarrow> Inr \<lparr>je_seq = jr_seq r, je_state = jr_state r, je_payload = p\<rparr>)"

definition journal_tail :: "store \<Rightarrow> string \<Rightarrow> py_exn + journal_entry option" where
  "journal_tail st sid =
     (case rev (journal_rows st sid) of
        [] \<Rightarrow> Inr None
      | r # _ \<Rightarrow> (case decode_row r of Inl e \<Rightarrow> Inl e | Inr x \<Rightarrow> Inr (Some x)))"

fun decode_rows :: "journal_row list \<Rightarrow> py_exn + journal_entry list" where
  "decode_rows [] = Inr []"
| "decode_rows (r # rs) =
     (case decode_row r of
        Inl e \<Rightarrow> Inl e
      | Inr x \<Rightarrow> (case decode_rows rs of Inl e \<Rightarrow> Inl e | Inr xs \<Rightarrow> Inr (x # xs)))"

definition journal_all :: "store \<Rightarrow> string \<Rightarrow> py_exn + journal_entry list" where
  "journal_all st sid = decode_rows (journal_rows st sid)"

subsection \<open>Idempotent tool results and approvals\<close>

definition tool_result_get :: "store \<Rightarrow> string \<Rightarrow> string option" where
  "tool_result_get st key = map_option tr_result (find (\<lambda>r. tr_key r = key) (tool_results st))"

definition tool_result_put :: "store \<Rightarrow> string \<Rightarrow> string \<Rightarrow> string \<Rightarrow> string \<Rightarrow> store" where
  "tool_result_put st key sid tool result =
     (if key \<in> set (map tr_key (tool_results st)) then st
      else st\<lparr>tool_results := tool_results st @
             [\<lparr>tr_key = key, tr_session = sid, tr_tool = tool, tr_result = result\<rparr>]\<rparr>)"

definition approval_put :: "store \<Rightarrow> string \<Rightarrow> string \<Rightarrow> string \<Rightarrow> string \<Rightarrow> store" where
  "approval_put st aid sid status approver =
     (if aid \<in> set (map ap_id (approvals st)) then st
      else st\<lparr>approvals := approvals st @
             [\<lparr>ap_id = aid, ap_session = sid, ap_status = status, ap_approver = approver\<rparr>]\<rparr>)"

definition approval_get :: "store \<Rightarrow> string \<Rightarrow> (string \<times> string) option" where
  "approval_get st aid =
     map_option (\<lambda>r. (ap_status r, ap_approver r)) (find (\<lambda>r. ap_id r = aid) (approvals st))"

subsection \<open>The job queue\<close>

record job_record =
  jr_job_id :: string
  jr_job_session :: string
  jr_job_status :: string
  jr_deduped :: bool

definition job_upsert ::
  "store \<Rightarrow> int \<Rightarrow> string \<Rightarrow> string \<Rightarrow> string \<Rightarrow> string \<Rightarrow> string \<Rightarrow> py_exn + (job_record \<times> store)" where
  "job_upsert st now jid sid key status text =
     (case find (\<lambda>r. jb_idem r = key) (jobs st) of
        Some r \<Rightarrow> Inr (\<lparr>jr_job_id = jb_id r, jr_job_session = jb_session r,
                       jr_job_status = jb_status r, jr_deduped = True\<rparr>, st)
      | None \<Rightarrow>
          if jid \<in> set (map jb_id (jobs st))
          then Inl (mk_exn ''IntegrityError'' ''UNIQUE constraint failed: jobs.job_id'')
          else Inr (\<lparr>jr_job_id = jid, jr_job_session = sid, jr_job_status = status,
                     jr_deduped = False\<rparr>,
                    st\<lparr>jobs := jobs st @ [\<lparr>jb_id = jid, jb_session = sid, jb_idem = key,
                         jb_status = status, jb_text = text, jb_created = now\<rparr>]\<rparr>))"

definition job_set_status :: "store \<Rightarrow> string \<Rightarrow> string \<Rightarrow> store" where
  "job_set_status st jid status =
     st\<lparr>jobs := map (\<lambda>r. if jb_id r = jid then r\<lparr>jb_status := status\<rparr> else r) (jobs st)\<rparr>"

definition job_get :: "store \<Rightarrow> string \<Rightarrow> job_row option" where
  "job_get st jid = find (\<lambda>r. jb_id r = jid) (jobs st)"

definition jobs_by_status :: "store \<Rightarrow> string \<Rightarrow> job_row list" where
  "jobs_by_status st status = sort_key jb_created (filter (\<lambda>r. jb_status r = status) (jobs st))"

definition jobs_all :: "store \<Rightarrow> job_row list" where
  "jobs_all st = sort_key jb_created (jobs st)"

subsection \<open>Mailbox, tokens, team sessions\<close>

definition mailbox_send :: "store \<Rightarrow> string \<Rightarrow> string \<Rightarrow> string \<Rightarrow> string \<Rightarrow> store" where
  "mailbox_send st sid frm to body =
     st\<lparr>mailbox := mailbox st @ [\<lparr>ml_session = sid, ml_from = frm, ml_to = to, ml_body = body\<rparr>]\<rparr>"

definition mailbox_inbox :: "store \<Rightarrow> string \<Rightarrow> string \<Rightarrow> (string \<times> string \<times> string) list" where
  "mailbox_inbox st sid to =
     map (\<lambda>r. (ml_from r, ml_to r, ml_body r))
       (filter (\<lambda>r. ml_session r = sid \<and> ml_to r = to) (mailbox st))"

definition token_put :: "store \<Rightarrow> string \<Rightarrow> string \<Rightarrow> string \<Rightarrow> store" where
  "token_put st token subject rl =
     st\<lparr>agent_tokens := filter (\<lambda>r. tk_token r \<noteq> token) (agent_tokens st) @
          [\<lparr>tk_token = token, tk_subject = subject, tk_role = rl\<rparr>]\<rparr>"

definition token_get :: "store \<Rightarrow> string \<Rightarrow> (string \<times> string) option" where
  "token_get st token =
     map_option (\<lambda>r. (tk_subject r, tk_role r)) (find (\<lambda>r. tk_token r = token) (agent_tokens st))"

definition team_session_add ::
  "store \<Rightarrow> int \<Rightarrow> string \<Rightarrow> string \<Rightarrow> string \<Rightarrow> string option \<Rightarrow> nat \<Rightarrow> store" where
  "team_session_add st now tid sid agent parent depth =
     (if sid \<in> set (map tm_session (team_sessions st)) then st
      else st\<lparr>team_sessions := team_sessions st @
             [\<lparr>tm_team = tid, tm_session = sid, tm_agent = agent, tm_parent = parent,
               tm_depth = depth, tm_created = now\<rparr>]\<rparr>)"

definition team_members :: "store \<Rightarrow> string \<Rightarrow> team_row list" where
  "team_members st tid = sort_key tm_created (filter (\<lambda>r. tm_team r = tid) (team_sessions st))"

definition team_id_for_session :: "store \<Rightarrow> string \<Rightarrow> string option" where
  "team_id_for_session st sid =
     map_option tm_team (find (\<lambda>r. tm_session r = sid) (team_sessions st))"

subsection \<open>The journal as a session log\<close>

text \<open>The invariant: sequence numbers are dense and every payload is a decodable dictionary.\<close>

definition payload_ok :: "journal_row \<Rightarrow> bool" where
  "payload_ok r \<longleftrightarrow> (\<exists>p. loads (jr_payload r) = Some (JObj p))"

definition journal_ok :: "store \<Rightarrow> bool" where
  "journal_ok st \<longleftrightarrow> numbered jr_session jr_seq (journal st) \<and> (\<forall>r\<in>set (journal st). payload_ok r)"

text \<open>What a reader sees of a session: sequence number, state and decoded payload.\<close>

definition journal_view :: "store \<Rightarrow> string \<Rightarrow> (nat \<times> string \<times> json option) list" where
  "journal_view st sid =
     map (\<lambda>r. (jr_seq r, jr_state r, loads (jr_payload r))) (journal_rows st sid)"

lemma find_append: "find P (xs @ ys) = (case find P xs of None \<Rightarrow> find P ys | Some x \<Rightarrow> Some x)"
  by (induction xs) auto

lemma find_SomeD: "find P xs = Some x \<Longrightarrow> x \<in> set xs \<and> P x"
  by (induction xs) (auto split: if_splits)

lemma find_key_None: "find (\<lambda>r. f r = k) xs = None \<longleftrightarrow> k \<notin> set (map f xs)"
  by (induction xs) auto

lemma journal_ok_empty [simp]: "journal_ok empty_store"
  by (simp add: journal_ok_def empty_store_def)

lemma journal_rows_filter:
  "journal_ok st \<Longrightarrow> journal_rows st sid = filter (\<lambda>r. jr_session r = sid) (journal st)"
  by (simp add: journal_ok_def journal_rows_def numbered_select)

lemma journal_append_seq:
  "journal_ok st \<Longrightarrow> fst (journal_append st sid s p) = Suc (length (journal_rows st sid))"
  by (simp add: journal_append_def Let_def journal_ok_def numbered_max_seq journal_rows_def
      numbered_select)

lemma journal_append_ok:
  assumes "journal_ok st" and "wf_json (JObj p)"
  shows "journal_ok (snd (journal_append st sid s p))"
proof -
  have "payload_ok \<lparr>jr_session = sid, jr_seq = n, jr_state = s, jr_payload = dumps_sorted (JObj p)\<rparr>" for n
    using loads_dumps_sorted [OF assms(2)] by (simp add: payload_ok_def sort_json.simps)
  then show ?thesis
    using assms(1)
    by (auto simp: journal_append_def Let_def journal_ok_def numbered_max_seq intro!: numbered_snoc)
qed

lemma journal_rows_append:
  assumes "journal_ok st" and "wf_json (JObj p)"
  shows "journal_rows (snd (journal_append st sid s p)) sid' =
     (if sid' = sid
      then journal_rows st sid @ [\<lparr>jr_session = sid, jr_seq = Suc (length (journal_rows st sid)),
             jr_state = s, jr_payload = dumps_sorted (JObj p)\<rparr>]
      else journal_rows st sid')"
proof -
  note ok = assms(1) journal_append_ok [OF assms]
  have "max_seq jr_session jr_seq sid (journal st) = length (filter (\<lambda>r. jr_session r = sid) (journal st))"
    using assms(1) by (simp add: journal_ok_def numbered_max_seq)
  then show ?thesis
    using ok by (simp add: journal_rows_filter) (simp add: journal_append_def Let_def)
qed

lemma decode_appended:
  "wf_json (JObj p) \<Longrightarrow>
   decode_row \<lparr>jr_session = sid, jr_seq = n, jr_state = s, jr_payload = dumps_sorted (JObj p)\<rparr>
     = Inr \<lparr>je_seq = n, je_state = s, je_payload = sort_json (JObj p)\<rparr>"
  by (simp add: decode_row_def loads_dumps_sorted)

lemma journal_tail_append:
  "journal_ok st \<Longrightarrow> wf_json (JObj p) \<Longrightarrow>
   journal_tail (snd (journal_append st sid s p)) sid =
     Inr (Some \<lparr>je_seq = Suc (length (journal_rows st sid)), je_state = s,
                je_payload = sort_json (JObj p)\<rparr>)"
  by (simp add: journal_tail_def journal_rows_append decode_appended)

lemma decode_rows_append:
  "decode_rows (xs @ ys) =
     (case decode_rows xs of
        Inl e \<Rightarrow> Inl e
      | Inr as \<Rightarrow> (case decode_rows ys of Inl e \<Rightarrow> Inl e | Inr bs \<Rightarrow> Inr (as @ bs)))"
  by (induction xs) (auto split: sum.splits)

lemma decode_row_ok: "payload_ok r \<Longrightarrow> \<exists>x. decode_row r = Inr x"
  by (auto simp: payload_ok_def decode_row_def)

lemma journal_rows_subset: "set (journal_rows st sid) \<subseteq> set (journal st)"
  by (auto simp: journal_rows_def select_seq_def)

lemma journal_tail_ok:
  assumes "journal_ok st"
  shows "\<exists>t. journal_tail st sid = Inr t"
proof (cases "rev (journal_rows st sid)")
  case (Cons r rs)
  then have "r \<in> set (journal_rows st sid)" by (metis list.set_intros(1) set_rev)
  with assms have "payload_ok r" using journal_rows_subset by (force simp: journal_ok_def)
  with Cons show ?thesis using decode_row_ok by (fastforce simp: journal_tail_def)
qed (simp add: journal_tail_def)

lemma journal_all_ok:
  assumes "journal_ok st"
  shows "\<exists>es. journal_all st sid = Inr es"
proof -
  have "(\<forall>r\<in>set rs. payload_ok r) \<Longrightarrow> \<exists>es. decode_rows rs = Inr es" for rs
    by (induction rs) (auto dest: decode_row_ok)
  then show ?thesis
    using assms journal_rows_subset by (fastforce simp: journal_all_def journal_ok_def)
qed

lemma journal_all_append:
  assumes "journal_ok st" and "wf_json (JObj p)" and "journal_all st sid = Inr es"
  shows "journal_all (snd (journal_append st sid s p)) sid =
     Inr (es @ [\<lparr>je_seq = Suc (length (journal_rows st sid)), je_state = s,
                 je_payload = sort_json (JObj p)\<rparr>])"
  using assms by (simp add: journal_all_def journal_rows_append decode_rows_append decode_appended)

lemma journal_numbered:
  assumes "journal_ok st"
  shows "map jr_seq (journal_rows st sid) = [1..<Suc (length (journal_rows st sid))]"
  using assms unfolding journal_rows_filter [OF assms] journal_ok_def numbered_def by blast

interpretation journal_log: session_log
  journal_view
  "\<lambda>sid x st. snd (journal_append st sid (fst x) (snd x))"
  "\<lambda>st sid x. (fst x, Some (sort_json (JObj (snd x))))"
  "\<lambda>x. wf_json (JObj (snd x))"
  journal_ok
proof unfold_locales
  fix st :: store and x :: "string \<times> dict" and k k' :: string
  assume ok: "journal_ok st"
  show "map fst (journal_view st k) = [1..<Suc (length (journal_view st k))]"
    using journal_numbered [OF ok] by (simp add: journal_view_def comp_def)
  assume lx: "wf_json (JObj (snd x))"
  show "journal_view (snd (journal_append st k (fst x) (snd x))) k =
      journal_view st k @ [(Suc (length (journal_view st k)), fst x, Some (sort_json (JObj (snd x))))]"
    using ok lx by (simp add: journal_view_def journal_rows_append loads_dumps_sorted)
  show "journal_ok (snd (journal_append st k (fst x) (snd x)))"
    using ok lx by (rule journal_append_ok)
  assume "k' \<noteq> k"
  with ok lx show "journal_view (snd (journal_append st k (fst x) (snd x))) k' = journal_view st k'"
    by (simp add: journal_view_def journal_rows_append)
qed

interpretation results_table: first_wins
  tool_result_get "\<lambda>key v st. tool_result_put st key sid tool v" for sid tool
  by unfold_locales
     (auto simp: tool_result_get_def tool_result_put_def find_append find_key_None
           split: option.splits dest!: find_SomeD)

interpretation approvals_table: first_wins
  approval_get "\<lambda>aid v st. approval_put st aid sid (fst v) (snd v)" for sid
  by unfold_locales
     (auto simp: approval_get_def approval_put_def find_append find_key_None
           split: option.splits dest!: find_SomeD)

subsection \<open>Frames: what each operation leaves alone\<close>

lemma add_message_frame [simp, store_simps]:
  "sessions (add_message st sid rl c) = sessions st"
  "journal (add_message st sid rl c) = journal st"
  "tool_results (add_message st sid rl c) = tool_results st"
  "ledger (add_message st sid rl c) = ledger st"
  "seals (add_message st sid rl c) = seals st"
  "approvals (add_message st sid rl c) = approvals st"
  "jobs (add_message st sid rl c) = jobs st"
  "mailbox (add_message st sid rl c) = mailbox st"
  "agent_tokens (add_message st sid rl c) = agent_tokens st"
  "seat_holders (add_message st sid rl c) = seat_holders st"
  "team_sessions (add_message st sid rl c) = team_sessions st"
  by (simp_all add: add_message_def)

lemma set_session_status_frame [simp, store_simps]:
  "messages (set_session_status st sid s) = messages st"
  "journal (set_session_status st sid s) = journal st"
  "tool_results (set_session_status st sid s) = tool_results st"
  "ledger (set_session_status st sid s) = ledger st"
  "seals (set_session_status st sid s) = seals st"
  "approvals (set_session_status st sid s) = approvals st"
  "jobs (set_session_status st sid s) = jobs st"
  "mailbox (set_session_status st sid s) = mailbox st"
  "agent_tokens (set_session_status st sid s) = agent_tokens st"
  "seat_holders (set_session_status st sid s) = seat_holders st"
  "team_sessions (set_session_status st sid s) = team_sessions st"
  by (simp_all add: set_session_status_def)

lemma journal_append_frame [simp, store_simps]:
  "sessions (snd (journal_append st sid s p)) = sessions st"
  "messages (snd (journal_append st sid s p)) = messages st"
  "tool_results (snd (journal_append st sid s p)) = tool_results st"
  "ledger (snd (journal_append st sid s p)) = ledger st"
  "seals (snd (journal_append st sid s p)) = seals st"
  "approvals (snd (journal_append st sid s p)) = approvals st"
  "jobs (snd (journal_append st sid s p)) = jobs st"
  "mailbox (snd (journal_append st sid s p)) = mailbox st"
  "agent_tokens (snd (journal_append st sid s p)) = agent_tokens st"
  "seat_holders (snd (journal_append st sid s p)) = seat_holders st"
  "team_sessions (snd (journal_append st sid s p)) = team_sessions st"
  by (simp_all add: journal_append_def Let_def)

lemma tool_result_put_frame [simp, store_simps]:
  "sessions (tool_result_put st k sid t r) = sessions st"
  "messages (tool_result_put st k sid t r) = messages st"
  "journal (tool_result_put st k sid t r) = journal st"
  "ledger (tool_result_put st k sid t r) = ledger st"
  "seals (tool_result_put st k sid t r) = seals st"
  "approvals (tool_result_put st k sid t r) = approvals st"
  "jobs (tool_result_put st k sid t r) = jobs st"
  "mailbox (tool_result_put st k sid t r) = mailbox st"
  "agent_tokens (tool_result_put st k sid t r) = agent_tokens st"
  "seat_holders (tool_result_put st k sid t r) = seat_holders st"
  "team_sessions (tool_result_put st k sid t r) = team_sessions st"
  by (simp_all add: tool_result_put_def)

lemma approval_put_frame [simp, store_simps]:
  "sessions (approval_put st aid sid s a) = sessions st"
  "messages (approval_put st aid sid s a) = messages st"
  "journal (approval_put st aid sid s a) = journal st"
  "tool_results (approval_put st aid sid s a) = tool_results st"
  "ledger (approval_put st aid sid s a) = ledger st"
  "seals (approval_put st aid sid s a) = seals st"
  "jobs (approval_put st aid sid s a) = jobs st"
  "mailbox (approval_put st aid sid s a) = mailbox st"
  "agent_tokens (approval_put st aid sid s a) = agent_tokens st"
  "seat_holders (approval_put st aid sid s a) = seat_holders st"
  "team_sessions (approval_put st aid sid s a) = team_sessions st"
  by (simp_all add: approval_put_def)

lemma job_set_status_frame [simp, store_simps]:
  "sessions (job_set_status st jid s) = sessions st"
  "messages (job_set_status st jid s) = messages st"
  "journal (job_set_status st jid s) = journal st"
  "tool_results (job_set_status st jid s) = tool_results st"
  "ledger (job_set_status st jid s) = ledger st"
  "seals (job_set_status st jid s) = seals st"
  "approvals (job_set_status st jid s) = approvals st"
  "mailbox (job_set_status st jid s) = mailbox st"
  "agent_tokens (job_set_status st jid s) = agent_tokens st"
  "seat_holders (job_set_status st jid s) = seat_holders st"
  "team_sessions (job_set_status st jid s) = team_sessions st"
  by (simp_all add: job_set_status_def)

lemma mailbox_send_frame [simp, store_simps]:
  "sessions (mailbox_send st sid f t b) = sessions st"
  "messages (mailbox_send st sid f t b) = messages st"
  "journal (mailbox_send st sid f t b) = journal st"
  "tool_results (mailbox_send st sid f t b) = tool_results st"
  "ledger (mailbox_send st sid f t b) = ledger st"
  "seals (mailbox_send st sid f t b) = seals st"
  "approvals (mailbox_send st sid f t b) = approvals st"
  "jobs (mailbox_send st sid f t b) = jobs st"
  "agent_tokens (mailbox_send st sid f t b) = agent_tokens st"
  "seat_holders (mailbox_send st sid f t b) = seat_holders st"
  "team_sessions (mailbox_send st sid f t b) = team_sessions st"
  by (simp_all add: mailbox_send_def)

lemma team_session_add_frame [simp, store_simps]:
  "sessions (team_session_add st now tid sid ag pa dp) = sessions st"
  "messages (team_session_add st now tid sid ag pa dp) = messages st"
  "journal (team_session_add st now tid sid ag pa dp) = journal st"
  "tool_results (team_session_add st now tid sid ag pa dp) = tool_results st"
  "ledger (team_session_add st now tid sid ag pa dp) = ledger st"
  "seals (team_session_add st now tid sid ag pa dp) = seals st"
  "approvals (team_session_add st now tid sid ag pa dp) = approvals st"
  "jobs (team_session_add st now tid sid ag pa dp) = jobs st"
  "mailbox (team_session_add st now tid sid ag pa dp) = mailbox st"
  "agent_tokens (team_session_add st now tid sid ag pa dp) = agent_tokens st"
  "seat_holders (team_session_add st now tid sid ag pa dp) = seat_holders st"
  by (simp_all add: team_session_add_def)

lemma create_session_frame:
  assumes "create_session st i fresh = Inr (sid, st')"
  shows "journal st' = journal st" "ledger st' = ledger st" "tool_results st' = tool_results st"
    "approvals st' = approvals st" "messages st' = messages st" "seals st' = seals st"
    "jobs st' = jobs st" "mailbox st' = mailbox st" "team_sessions st' = team_sessions st"
  using assms by (auto simp: create_session_def Let_def split: if_splits)

lemma journal_reads_frame:
  assumes "journal st' = journal st"
  shows "journal_rows st' = journal_rows st" "journal_ok st' = journal_ok st"
    "journal_tail st' = journal_tail st" "journal_all st' = journal_all st"
    "journal_view st' = journal_view st"
  using assms
  by (auto simp: fun_eq_iff journal_rows_def journal_ok_def journal_tail_def journal_all_def
      journal_view_def)

lemma tool_result_frame: "tool_results st' = tool_results st \<Longrightarrow> tool_result_get st' = tool_result_get st"
  by (simp add: tool_result_get_def fun_eq_iff)

lemma approval_frame: "approvals st' = approvals st \<Longrightarrow> approval_get st' = approval_get st"
  by (simp add: approval_get_def fun_eq_iff)

end
