(* ===== verification/Gateway.thy ===== *)
theory Gateway
  imports State
begin

text \<open>
  The model gateway (\<open>scr/gateway.py\<close>): the internal schema the kernel speaks, the scripted
  adapter, and the request bodies the three vendor adapters build. Network traffic is outside; answers are
  parsed in \<open>Adapters\<close>, and the kernel takes an adapter as an argument.
\<close>

record tool_def =
  td_name :: string
  td_description :: string
  td_parameters :: dict

record tool_call =
  tc_id :: string
  tc_name :: string
  tc_arguments :: dict

record model_response =
  mr_text :: string
  mr_tool_calls :: "tool_call list"
  mr_input_tokens :: int
  mr_output_tokens :: int

subsection \<open>The scripted adapter\<close>

record mock_adapter =
  mk_script :: "(py_exn + model_response) list"
  mk_calls :: "message list list"

definition mock_complete ::
  "message list \<Rightarrow> tool_def list \<Rightarrow> mock_adapter \<Rightarrow> (py_exn + model_response) \<times> mock_adapter" where
  "mock_complete msgs tls a =
     (let a' = a\<lparr>mk_calls := mk_calls a @ [msgs]\<rparr> in
      case mk_script a' of
        [] \<Rightarrow> (Inl (mk_exn ''RuntimeError'' ''MockAdapter script exhausted''), a')
      | step # rest \<Rightarrow> (step, a'\<lparr>mk_script := rest\<rparr>))"

subsection \<open>Vendor requests\<close>

definition json_message :: "message \<Rightarrow> json" where
  "json_message m = JObj [(''role'', JStr (role m)), (''content'', JStr (content m))]"

definition rstrip_slash :: "string \<Rightarrow> string" where
  "rstrip_slash s = rev (dropWhile (\<lambda>c. c = CHR ''/'') (rev s))"

definition function_tool :: "tool_def \<Rightarrow> json" where
  "function_tool t = JObj [(''type'', JStr ''function''),
     (''function'', JObj [(''name'', JStr (td_name t)), (''description'', JStr (td_description t)),
        (''parameters'', JObj (td_parameters t))])]"

record openai_adapter =
  oa_base_url :: string
  oa_api_key :: string
  oa_model :: string

definition openai_init :: "string \<Rightarrow> string \<Rightarrow> string \<Rightarrow> openai_adapter" where
  "openai_init url key mdl = \<lparr>oa_base_url = rstrip_slash url, oa_api_key = key, oa_model = mdl\<rparr>"

definition openai_build_request ::
  "openai_adapter \<Rightarrow> message list \<Rightarrow> tool_def list \<Rightarrow> string \<times> dict \<times> dict" where
  "openai_build_request a msgs tls =
     (oa_base_url a @ ''/chat/completions'',
      [(''Content-Type'', JStr ''application/json''),
       (''Authorization'', JStr (''Bearer '' @ oa_api_key a))],
      [(''model'', JStr (oa_model a)), (''messages'', JArr (map json_message msgs))] @
      (if tls = [] then [] else [(''tools'', JArr (map function_tool tls))]))"

record ollama_adapter =
  ol_base_url :: string
  ol_model :: string
  ol_num_ctx :: int

definition ollama_init :: "string \<Rightarrow> string \<Rightarrow> int \<Rightarrow> ollama_adapter" where
  "ollama_init url mdl ctx = \<lparr>ol_base_url = rstrip_slash url, ol_model = mdl, ol_num_ctx = ctx\<rparr>"

definition ollama_build_request ::
  "ollama_adapter \<Rightarrow> message list \<Rightarrow> tool_def list \<Rightarrow> string \<times> dict \<times> dict" where
  "ollama_build_request a msgs tls =
     (ol_base_url a @ ''/api/chat'',
      [(''Content-Type'', JStr ''application/json'')],
      [(''model'', JStr (ol_model a)), (''messages'', JArr (map json_message msgs)),
       (''stream'', JBool False), (''options'', JObj [(''num_ctx'', JInt (ol_num_ctx a))])] @
      (if tls = [] then [] else [(''tools'', JArr (map function_tool tls))]))"

record anthropic_adapter =
  an_base_url :: string
  an_api_key :: string
  an_model :: string
  an_max_tokens :: int

definition anthropic_init :: "string \<Rightarrow> string \<Rightarrow> string \<Rightarrow> int \<Rightarrow> anthropic_adapter" where
  "anthropic_init key mdl url mx =
     \<lparr>an_base_url = rstrip_slash url, an_api_key = key, an_model = mdl, an_max_tokens = mx\<rparr>"

definition anthropic_build_request ::
  "anthropic_adapter \<Rightarrow> message list \<Rightarrow> tool_def list \<Rightarrow> string \<times> dict \<times> dict" where
  "anthropic_build_request a msgs tls =
     (let sys = join [CHR 0x0A] (map content (filter (\<lambda>m. role m = ''system'') msgs));
          convo = filter (\<lambda>m. role m \<noteq> ''system'') msgs
      in (an_base_url a @ ''/v1/messages'',
          [(''Content-Type'', JStr ''application/json''), (''x-api-key'', JStr (an_api_key a)),
           (''anthropic-version'', JStr ''2023-06-01'')],
          [(''model'', JStr (an_model a)), (''max_tokens'', JInt (an_max_tokens a)),
           (''messages'', JArr (map json_message convo))] @
          (if sys = [] then [] else [(''system'', JStr sys)]) @
          (if tls = [] then []
           else [(''tools'', JArr (map (\<lambda>t. JObj [(''name'', JStr (td_name t)),
                    (''description'', JStr (td_description t)),
                    (''input_schema'', JObj (td_parameters t))]) tls))])))"

text \<open>The credential of a customer goes into the headers only, never into a request body.\<close>

lemma request_bodies_wf:
  assumes "\<forall>t\<in>set tls. wf_json (JObj (td_parameters t))"
  shows "wf_json (JObj (snd (snd (openai_build_request oa msgs tls))))"
    "wf_json (JObj (snd (snd (ollama_build_request ol msgs tls))))"
    "wf_json (JObj (snd (snd (anthropic_build_request an msgs tls))))"
  using assms
  by (auto simp: openai_build_request_def ollama_build_request_def anthropic_build_request_def
      json_message_def function_tool_def Let_def)

end
