(* ===== verification/Policy.thy ===== *)
theory Policy
  imports Capability Gateway
begin

text \<open>
  The policy layer (\<open>scr/policy.py\<close>): approval rules and admin tightening. \<open>search\<close> stands
  for \<open>re.search(pattern, text) is not None\<close>. A policy is the record that \<open>Policy.from_yaml\<close> builds;
  that reading, from the value the YAML text denotes, is in the theory Settings.
\<close>

record approval_rule =
  rule_tool :: string
  arg_match :: "(string \<times> string) list"

definition matches :: "(string \<Rightarrow> string \<Rightarrow> bool) \<Rightarrow> approval_rule \<Rightarrow> tool_call \<Rightarrow> bool" where
  "matches search rule call \<longleftrightarrow>
     (rule_tool rule = ''*'' \<or> rule_tool rule = tc_name call) \<and>
     (\<forall>(name, pattern)\<in>set (arg_match rule).
        case dict_get (tc_arguments call) name of
          None \<Rightarrow> False
        | Some v \<Rightarrow> v \<noteq> JNull \<and> search pattern (py_str v))"

record policy =
  approval_rules :: "approval_rule list"
  tighten_tools :: "string set option"
  tighten_net_hosts :: "string set option"

definition requires_approval :: "(string \<Rightarrow> string \<Rightarrow> bool) \<Rightarrow> policy \<Rightarrow> tool_call \<Rightarrow> bool" where
  "requires_approval search p call \<longleftrightarrow> (\<exists>rule\<in>set (approval_rules p). matches search rule call)"

definition policy_error :: "string \<Rightarrow> string set \<Rightarrow> py_exn" where
  "policy_error what extra =
     mk_exn ''PolicyError'' (''policy widens '' @ what @ '' beyond manifest: '' @
       repr_str_list (sorted_list_of_set extra))"

definition validate_tightening :: "policy \<Rightarrow> manifest \<Rightarrow> py_exn + unit" where
  "validate_tightening p base =
     (case tighten_tools p of
        Some ts \<Rightarrow>
          if ts - tools base \<noteq> {} then Inl (policy_error ''tools'' (ts - tools base))
          else (case tighten_net_hosts p of
                  Some hs \<Rightarrow> if hs - net_hosts base \<noteq> {}
                              then Inl (policy_error ''net_hosts'' (hs - net_hosts base)) else Inr ()
                | None \<Rightarrow> Inr ())
      | None \<Rightarrow>
          (case tighten_net_hosts p of
             Some hs \<Rightarrow> if hs - net_hosts base \<noteq> {}
                         then Inl (policy_error ''net_hosts'' (hs - net_hosts base)) else Inr ()
           | None \<Rightarrow> Inr ()))"

text \<open>The constructor call of \<open>tighten\<close> names every field but the ceiling, which takes its default.\<close>

definition tighten :: "policy \<Rightarrow> manifest \<Rightarrow> py_exn + manifest" where
  "tighten p base =
     (case validate_tightening p base of
        Inl e \<Rightarrow> Inl e
      | Inr _ \<Rightarrow> Inr
          \<lparr>tools = (case tighten_tools p of None \<Rightarrow> tools base | Some ts \<Rightarrow> tools base \<inter> ts),
           fs_read_roots = fs_read_roots base,
           fs_write_roots = fs_write_roots base,
           net_hosts = (case tighten_net_hosts p of None \<Rightarrow> net_hosts base | Some hs \<Rightarrow> net_hosts base \<inter> hs),
           exec_rules = exec_rules base,
           max_budget_usd = max_budget_usd base,
           classification_ceiling = ''secret''\<rparr>)"

lemma tighten_fields:
  assumes "tighten p base = Inr m"
  shows "tools m = (case tighten_tools p of None \<Rightarrow> tools base | Some ts \<Rightarrow> ts)"
    "net_hosts m = (case tighten_net_hosts p of None \<Rightarrow> net_hosts base | Some hs \<Rightarrow> hs)"
    "tools m \<subseteq> tools base" "net_hosts m \<subseteq> net_hosts base"
    "fs_read_roots m = fs_read_roots base" "fs_write_roots m = fs_write_roots base"
    "exec_rules m = exec_rules base" "max_budget_usd m = max_budget_usd base"
    "classification_ceiling m = ''secret''"
  using assms
  by (auto simp: tighten_def validate_tightening_def split: sum.splits option.splits if_splits)

subsection \<open>Properties\<close>

text \<open>Tightening. When a policy tightens a manifest, the tools and hosts are exactly the ones it
  names (all of the base's when it names none), every request other than a classification check that
  the result permits the base permits too, and a policy that names a tool or a host outside the
  base is refused.\<close>

theorem tighten_narrows:
  "case tighten p base of
     Inr m \<Rightarrow> tools m = (case tighten_tools p of None \<Rightarrow> tools base | Some ts \<Rightarrow> ts) \<and>
       net_hosts m = (case tighten_net_hosts p of None \<Rightarrow> net_hosts base | Some hs \<Rightarrow> hs) \<and>
       (\<forall>req. req \<notin> range Classified \<and> permits realpath fullmatch m req \<longrightarrow> permits realpath fullmatch base req)
   | Inl e \<Rightarrow> exn_class e = ''PolicyError'' \<and>
       ((\<exists>ts. tighten_tools p = Some ts \<and> \<not> ts \<subseteq> tools base) \<or>
        (\<exists>hs. tighten_net_hosts p = Some hs \<and> \<not> hs \<subseteq> net_hosts base))"
proof (cases "tighten p base")
  case (Inr m)
  have "permits realpath fullmatch base req"
    if "req \<notin> range Classified" "permits realpath fullmatch m req" for req
    using that tighten_fields [OF Inr] by (cases req) (auto simp: cap_simps)
  then show ?thesis using Inr tighten_fields(1,2) [OF Inr] by simp
next
  case (Inl e)
  then show ?thesis
    by (auto simp: tighten_def validate_tightening_def policy_error_def mk_exn_def
        split: sum.splits option.splits if_splits)
qed

theorem tighten_narrows_witness:
  "case tighten \<lparr>approval_rules = [], tighten_tools = Some {''fs_read''}, tighten_net_hosts = None\<rparr> demo_parent
     of Inr m \<Rightarrow> tools m = {''fs_read''} | Inl e \<Rightarrow> False"
  using tighten_narrows [of "\<lparr>approval_rules = [], tighten_tools = Some {''fs_read''}, tighten_net_hosts = None\<rparr>"
      demo_parent id "\<lambda>_ _. False"]
  by (simp add: tighten_def validate_tightening_def demo_parent_def)

text \<open>The classification ceiling is not kept. A policy that restricts nothing turns a manifest
  whose ceiling forbids a level into one that permits it, so the result of \<open>tighten\<close> is not
  always a subset of the base manifest.\<close>

theorem tighten_raises_ceiling:
  "\<exists>p base m level. tighten p base = Inr m \<and>
     check_classification base level \<noteq> Inr () \<and> check_classification m level = Inr ()"
proof (intro exI conjI)
  let ?p = "\<lparr>approval_rules = [], tighten_tools = None, tighten_net_hosts = None\<rparr>"
  show "tighten ?p demo_parent = Inr (demo_parent\<lparr>classification_ceiling := ''secret''\<rparr>)"
    by (simp add: tighten_def validate_tightening_def demo_parent_def empty_manifest_def)
  show "check_classification demo_parent ''secret'' \<noteq> Inr ()"
    by (simp add: cap_simps demo_parent_def empty_manifest_def classification_rank_def CLASS_ORDER_def)
  show "check_classification (demo_parent\<lparr>classification_ceiling := ''secret''\<rparr>) ''secret'' = Inr ()"
    by (simp add: cap_simps classification_rank_def CLASS_ORDER_def)
qed

end
