(* ===== verification/Sha256.thy ===== *)
theory Sha256
  imports Prelude "HOL-Library.Word"
begin

text \<open>
  The parts of Python's \<open>hashlib\<close> and \<open>hmac\<close> the runtime uses: SHA-256 (FIPS
  180-4) over byte strings, HMAC-SHA256 (RFC 2104), their hex digests, \<open>str.encode\<close>
  (UTF-8) for strings over code points below 256, and \<open>bytes.hex\<close> / \<open>bytes.fromhex\<close>.
  Every definition computes. The facts used elsewhere are the lengths of digests and that the
  encodings are injective; nothing is assumed about collisions of the hash, and the theorems
  that need one of its promises name the colliding inputs instead.
\<close>

unbundle bit_operations_syntax

type_synonym byte = "8 word"
type_synonym u32 = "32 word"
type_synonym sha_state = "u32 \<times> u32 \<times> u32 \<times> u32 \<times> u32 \<times> u32 \<times> u32 \<times> u32"

subsection \<open>The compression function\<close>

text \<open>The round constants and the initial state, in decimal.\<close>

definition sha_K :: "u32 list" where
  "sha_K = [
    1116352408, 1899447441, 3049323471, 3921009573,
    961987163, 1508970993, 2453635748, 2870763221,
    3624381080, 310598401, 607225278, 1426881987,
    1925078388, 2162078206, 2614888103, 3248222580,
    3835390401, 4022224774, 264347078, 604807628,
    770255983, 1249150122, 1555081692, 1996064986,
    2554220882, 2821834349, 2952996808, 3210313671,
    3336571891, 3584528711, 113926993, 338241895,
    666307205, 773529912, 1294757372, 1396182291,
    1695183700, 1986661051, 2177026350, 2456956037,
    2730485921, 2820302411, 3259730800, 3345764771,
    3516065817, 3600352804, 4094571909, 275423344,
    430227734, 506948616, 659060556, 883997877,
    958139571, 1322822218, 1537002063, 1747873779,
    1955562222, 2024104815, 2227730452, 2361852424,
    2428436474, 2756734187, 3204031479, 3329325298]"

definition sha_init :: sha_state where
  "sha_init = (1779033703, 3144134277, 1013904242, 2773480762,
               1359893119, 2600822924, 528734635, 1541459225)"

definition rotr :: "nat \<Rightarrow> u32 \<Rightarrow> u32" where
  "rotr n w = drop_bit n w OR push_bit (32 - n) w"

definition big_sigma0 :: "u32 \<Rightarrow> u32" where
  "big_sigma0 x = rotr 2 x XOR rotr 13 x XOR rotr 22 x"

definition big_sigma1 :: "u32 \<Rightarrow> u32" where
  "big_sigma1 x = rotr 6 x XOR rotr 11 x XOR rotr 25 x"

definition small_sigma0 :: "u32 \<Rightarrow> u32" where
  "small_sigma0 x = rotr 7 x XOR rotr 18 x XOR drop_bit 3 x"

definition small_sigma1 :: "u32 \<Rightarrow> u32" where
  "small_sigma1 x = rotr 17 x XOR rotr 19 x XOR drop_bit 10 x"

definition ch :: "u32 \<Rightarrow> u32 \<Rightarrow> u32 \<Rightarrow> u32" where
  "ch x y z = (x AND y) XOR (NOT x AND z)"

definition maj :: "u32 \<Rightarrow> u32 \<Rightarrow> u32 \<Rightarrow> u32" where
  "maj x y z = (x AND y) XOR (x AND z) XOR (y AND z)"

fun sha_round :: "u32 \<times> u32 \<Rightarrow> sha_state \<Rightarrow> sha_state" where
  "sha_round (k, w) (a, b, c, d, e, f, g, h) =
     (let t1 = h + big_sigma1 e + ch e f g + k + w;
          t2 = big_sigma0 a + maj a b c
      in (t1 + t2, a, b, c, d + t1, e, f, g))"

text \<open>Four bytes to a word and back, most significant first.\<close>

definition word_of_bytes :: "byte list \<Rightarrow> u32" where
  "word_of_bytes bs = foldl (\<lambda>acc b. push_bit 8 acc OR ucast b) 0 bs"

fun block_words :: "byte list \<Rightarrow> u32 list" where
  "block_words (a # b # c # d # bs) = word_of_bytes [a, b, c, d] # block_words bs"
| "block_words _ = []"

text \<open>The message schedule, newest word first; each step needs the last sixteen words.\<close>

fun sha_schedule :: "nat \<Rightarrow> u32 list \<Rightarrow> u32 list" where
  "sha_schedule 0 ws = ws"
| "sha_schedule (Suc n) ws =
     sha_schedule n ((small_sigma1 (ws ! 1) + ws ! 6 + small_sigma0 (ws ! 14) + ws ! 15) # ws)"

fun sha_add :: "sha_state \<Rightarrow> sha_state \<Rightarrow> sha_state" where
  "sha_add (a, b, c, d, e, f, g, h) (a', b', c', d', e', f', g', h') =
     (a + a', b + b', c + c', d + d', e + e', f + f', g + g', h + h')"

definition sha_block :: "sha_state \<Rightarrow> byte list \<Rightarrow> sha_state" where
  "sha_block st block =
     sha_add st (fold sha_round (zip sha_K (rev (sha_schedule 48 (rev (block_words block))))) st)"

fun sha_blocks :: "sha_state \<Rightarrow> byte list \<Rightarrow> sha_state" where
  "sha_blocks st bs =
     (if length bs < 64 then st else sha_blocks (sha_block st (take 64 bs)) (drop 64 bs))"

declare sha_blocks.simps [simp del]

definition sha_pad :: "byte list \<Rightarrow> byte list" where
  "sha_pad bs =
     (let n = length bs; z = (119 - n mod 64) mod 64
      in bs @ [0x80] @ replicate z 0 @
         map (\<lambda>i. of_nat (8 * n div 256 ^ i)) (rev [0..<8]))"

definition bytes_of_word :: "u32 \<Rightarrow> byte list" where
  "bytes_of_word w = [ucast (drop_bit 24 w), ucast (drop_bit 16 w), ucast (drop_bit 8 w), ucast w]"

fun sha_output :: "sha_state \<Rightarrow> byte list" where
  "sha_output (a, b, c, d, e, f, g, h) = concat (map bytes_of_word [a, b, c, d, e, f, g, h])"

definition sha256 :: "byte list \<Rightarrow> byte list" where
  "sha256 bs = sha_output (sha_blocks sha_init (sha_pad bs))"

subsection \<open>HMAC\<close>

definition hmac_sha256 :: "byte list \<Rightarrow> byte list \<Rightarrow> byte list" where
  "hmac_sha256 key msg =
     (let k0 = (if 64 < length key then sha256 key else key);
          k = k0 @ replicate (64 - length k0) 0
      in sha256 (map (\<lambda>b. b XOR 0x5c) k @ sha256 (map (\<lambda>b. b XOR 0x36) k @ msg)))"

subsection \<open>Encodings\<close>

definition utf8_char :: "char \<Rightarrow> byte list" where
  "utf8_char c =
     (let n = (of_char c :: nat)
      in if n < 128 then [of_nat n] else [of_nat (192 + n div 64), of_nat (128 + n mod 64)])"

definition encode :: "string \<Rightarrow> byte list" where
  "encode s = concat (map utf8_char s)"

text \<open>\<open>bytes.decode\<close>, for the code points a \<^typ>\<open>string\<close> can hold.\<close>

fun decode :: "byte list \<Rightarrow> string option" where
  "decode [] = Some []"
| "decode (b # bs) =
     (if unat b < 128 then map_option (\<lambda>s. char_of (unat b) # s) (decode bs)
      else (case bs of
              d # ds \<Rightarrow>
                if 194 \<le> unat b \<and> unat b < 196 \<and> 128 \<le> unat d \<and> unat d < 192
                then map_option (\<lambda>s. char_of (64 * (unat b - 192) + (unat d - 128)) # s) (decode ds)
                else None
            | [] \<Rightarrow> None))"

definition hex_byte :: "byte \<Rightarrow> string" where
  "hex_byte b = [hex_char (unat b div 16), hex_char (unat b mod 16)]"

definition hex :: "byte list \<Rightarrow> string" where
  "hex bs = concat (map hex_byte bs)"

text \<open>
  \<open>bytes.fromhex\<close>: pairs of hex digits, with ASCII whitespace allowed between pairs;
  anything else raises \<open>ValueError\<close> (\<^const>\<open>None\<close>).
\<close>

fun fromhex :: "string \<Rightarrow> byte list option" where
  "fromhex [] = Some []"
| "fromhex [c] = (if is_space c \<and> (of_char c :: nat) \<in> {9, 10, 11, 12, 13, 32} then Some [] else None)"
| "fromhex (c # d # s) =
     (if is_space c \<and> (of_char c :: nat) \<in> {9, 10, 11, 12, 13, 32} then fromhex (d # s)
      else (case (hex_val c, hex_val d) of
              (Some x, Some y) \<Rightarrow> map_option (\<lambda>bs. of_nat (16 * x + y) # bs) (fromhex s)
            | _ \<Rightarrow> None))"

definition sha256_hex :: "byte list \<Rightarrow> string" where
  "sha256_hex bs = hex (sha256 bs)"

definition hmac_hex :: "byte list \<Rightarrow> byte list \<Rightarrow> string" where
  "hmac_hex key msg = hex (hmac_sha256 key msg)"

text \<open>Two different inputs with the same digest: what a tamperer must produce.\<close>

definition collision :: "byte list \<Rightarrow> byte list \<Rightarrow> bool" where
  "collision x y \<longleftrightarrow> x \<noteq> y \<and> sha256 x = sha256 y"


subsection \<open>Facts\<close>

lemma length_sha_output [simp]: "length (sha_output st) = 32"
  by (cases st rule: sha_output.cases) (simp add: bytes_of_word_def)

lemma length_sha256 [simp]: "length (sha256 bs) = 32"
  by (simp add: sha256_def)

lemma length_hex [simp]: "length (hex bs) = 2 * length bs"
  by (induction bs) (auto simp: hex_def hex_byte_def)

lemma length_sha256_hex [simp]: "length (sha256_hex bs) = 64"
  by (simp add: sha256_hex_def)

lemma not_space_hex_char: "n < 16 \<Longrightarrow> \<not> is_space (hex_char n)"
  by (auto simp: is_space_def hex_char_def)

lemma unat_byte_div [simp]: "unat (b::byte) div 16 < 16"
proof -
  have "unat b < 2 ^ LENGTH(8)" by (rule unsigned_less)
  then show ?thesis by simp
qed

lemma fromhex_hex_append: "fromhex (hex_byte b @ s) = map_option (\<lambda>bs. b # bs) (fromhex s)"
  by (simp add: hex_byte_def not_space_hex_char)

lemma fromhex_hex: "fromhex (hex bs) = Some bs"
  by (induction bs) (simp_all add: hex_def fromhex_hex_append)

lemma hex_inject [simp]: "hex xs = hex ys \<longleftrightarrow> xs = ys"
  by (metis fromhex_hex option.inject)

lemma sha256_hex_inject [simp]: "sha256_hex xs = sha256_hex ys \<longleftrightarrow> sha256 xs = sha256 ys"
  by (simp add: sha256_hex_def)

lemma hex_char_ascii: "n < 16 \<Longrightarrow> (of_char (hex_char n) :: nat) < 128"
  by (auto simp: hex_char_def)

lemma hex_ascii: "c \<in> set (hex bs) \<Longrightarrow> (of_char c :: nat) < 128"
  by (induction bs) (auto simp: hex_def hex_byte_def hex_char_ascii)

text \<open>UTF-8 over code points below 256 is injective: the first byte tells the length.\<close>

lemma utf8_char_append_inject:
  assumes "utf8_char c @ xs = utf8_char d @ ys"
  shows "c = d \<and> xs = ys"
proof -
  let ?m = "of_char c :: nat" and ?n = "of_char d :: nat"
  have lt: "?m < 256" "?n < 256" by simp_all
  then have lt': "?m div 64 < 64" "?n div 64 < 64" by linarith+
  have small: "(of_nat i :: byte) = of_nat j \<longleftrightarrow> i = j" if "i < 256" "j < 256" for i j
    using that by (simp add: word_of_nat_eq_iff take_bit_eq_mod)
  have "?m = ?n \<and> xs = ys"
  proof (cases "?m < 128"; cases "?n < 128")
    assume "?m < 128" "?n < 128"
    with assms show ?thesis by (auto simp: utf8_char_def Let_def small)
  next
    assume a: "?m < 128" "\<not> ?n < 128"
    with assms have "(of_nat ?m :: byte) = of_nat (192 + ?n div 64)"
      by (auto simp: utf8_char_def Let_def)
    then have "?m = 192 + ?n div 64" using lt lt' by (subst (asm) small) auto
    with a show ?thesis by simp
  next
    assume a: "\<not> ?m < 128" "?n < 128"
    with assms have "(of_nat (192 + ?m div 64) :: byte) = of_nat ?n"
      by (auto simp: utf8_char_def Let_def)
    then have "192 + ?m div 64 = ?n" using lt lt' by (subst (asm) small) auto
    with a show ?thesis by simp
  next
    assume "\<not> ?m < 128" "\<not> ?n < 128"
    with assms have e: "(of_nat (192 + ?m div 64) :: byte) = of_nat (192 + ?n div 64)"
      "(of_nat (128 + ?m mod 64) :: byte) = of_nat (128 + ?n mod 64)" "xs = ys"
      by (simp_all only: utf8_char_def Let_def if_False append.simps list.inject)
    have "192 + ?m div 64 = 192 + ?n div 64"
      using e(1) lt lt' by (subst (asm) small) auto
    moreover have "128 + ?m mod 64 = 128 + ?n mod 64"
      using e(2) lt lt' by (subst (asm) small) auto
    ultimately have "?m div 64 = ?n div 64" "?m mod 64 = ?n mod 64" by simp_all
    then have "?m = ?n" by (metis div_mult_mod_eq)
    with e(3) show ?thesis by blast
  qed
  then show ?thesis by auto
qed

lemma encode_Cons: "encode (c # s) = utf8_char c @ encode s"
  by (simp add: encode_def)

lemma decode_utf8_char: "decode (utf8_char c @ bs) = map_option (\<lambda>s. c # s) (decode bs)"
proof (cases "(of_char c :: nat) < 128")
  case True
  then show ?thesis by (simp add: utf8_char_def unat_of_nat)
next
  case False
  let ?n = "of_char c :: nat"
  have lt: "?n < 256" by simp
  have "?n div 64 = 2 \<or> ?n div 64 = 3" using lt False by linarith
  moreover have "char_of (64 * (?n div 64) + ?n mod 64) = c" by simp
  ultimately have "char_of (128 + ?n mod 64) = c \<and> ?n div 64 = 2 \<or> char_of (192 + ?n mod 64) = c \<and> ?n div 64 = 3"
    by (elim disjE) (simp_all only: mult_2_right mult_numeral_1 numeral_times_numeral arith_simps, simp_all)
  then show ?thesis using False
    by (auto simp: utf8_char_def unat_of_nat Let_def unat_word_ariths)
qed

lemma decode_encode [simp]: "decode (encode s) = Some s"
  by (induction s) (simp_all add: encode_Cons decode_utf8_char del: decode.simps(2), simp add: encode_def)

lemma encode_append [simp]: "encode (s @ t) = encode s @ encode t"
  by (simp add: encode_def)

lemma utf8_char_nonempty [simp]: "utf8_char c \<noteq> []"
  by (simp add: utf8_char_def Let_def)

lemma encode_Nil [simp]: "encode [] = []"
  by (simp add: encode_def)

lemma encode_inject [simp]: "encode s = encode t \<longleftrightarrow> s = t"
proof (induction s arbitrary: t)
  case Nil
  then show ?case by (cases t) (auto simp: encode_def)
next
  case (Cons c s)
  then show ?case
    by (cases t) (auto simp: encode_Cons dest: utf8_char_append_inject)
qed

lemma length_encode_ascii:
  "(\<And>c. c \<in> set s \<Longrightarrow> (of_char c :: nat) < 128) \<Longrightarrow> length (encode s) = length s"
  by (induction s) (auto simp: encode_Cons utf8_char_def Let_def)

lemma length_encode_sha256_hex [simp]: "length (encode (sha256_hex bs)) = 64"
  by (simp add: length_encode_ascii hex_ascii sha256_hex_def)

lemma sha256_eq_or_collision: "sha256 x = sha256 y \<Longrightarrow> x = y \<or> collision x y"
  by (auto simp: collision_def)

end
