(* ===== verification/Ledger.thy ===== *)
theory Ledger
  imports State Sha256
begin

text \<open>
  The tamper-evident ledger (\<open>scr/ledger.py\<close>): canonical events, the SHA-256 chain, the
  HMAC seal and \<open>Ledger.verify\<close> with each of its error answers. The ledger provides the
  session-log interface and the hash-chain interface. Nothing is assumed about SHA-256: where
  the argument needs collision resistance the theorem names the two colliding byte strings.
\<close>

definition GENESIS :: string where
  "GENESIS = replicate 64 (CHR ''0'')"

definition chain_hash :: "string \<Rightarrow> json \<Rightarrow> string" where
  "chain_hash prev event = sha256_hex (encode prev @ encode (canonical event))"

record verify_result =
  vr_ok :: bool
  vr_count :: nat
  vr_head :: string
  vr_error :: "string option"

definition ledger_rows :: "store \<Rightarrow> string \<Rightarrow> ledger_row list" where
  "ledger_rows st sid = select_seq lr_session lr_seq sid (ledger st)"

definition ledger_head :: "store \<Rightarrow> string \<Rightarrow> string \<times> nat" where
  "ledger_head st sid =
     (case rev (ledger_rows st sid) of [] \<Rightarrow> (GENESIS, 0) | r # _ \<Rightarrow> (lr_hash r, lr_seq r))"

definition ledger_append :: "store \<Rightarrow> string \<Rightarrow> dict \<Rightarrow> string \<times> store" where
  "ledger_append st sid event =
     (let (prev, sq) = ledger_head st sid; new_hash = chain_hash prev (JObj event)
      in (new_hash, st\<lparr>ledger := ledger st @
            [\<lparr>lr_session = sid, lr_seq = Suc sq, lr_event = canonical (JObj event),
              lr_hash = new_hash\<rparr>]\<rparr>))"

definition seal_mac :: "byte list \<Rightarrow> string \<Rightarrow> nat \<Rightarrow> string" where
  "seal_mac key hh n = hmac_hex key (encode (hh @ '':'' @ nat_str n))"

definition ledger_seal :: "store \<Rightarrow> string \<Rightarrow> byte list \<Rightarrow> string \<times> store" where
  "ledger_seal st sid key =
     (let (hh, n) = ledger_head st sid; mac = seal_mac key hh n
      in (mac, st\<lparr>seals := filter (\<lambda>r. sl_session r \<noteq> sid) (seals st) @
            [\<lparr>sl_session = sid, sl_head = hh, sl_count = n, sl_hmac = mac\<rparr>]\<rparr>))"

text \<open>The loop of \<open>verify\<close>: the first bad row ends it; otherwise the head hash.\<close>

fun verify_rows :: "nat \<Rightarrow> nat \<Rightarrow> string \<Rightarrow> ledger_row list \<Rightarrow> verify_result + string" where
  "verify_rows tot expected prev [] = Inr prev"
| "verify_rows tot expected prev (r # rs) =
     (if lr_seq r \<noteq> expected then
        Inl \<lparr>vr_ok = False, vr_count = tot, vr_head = prev,
             vr_error = Some (''sequence gap: expected '' @ nat_str expected @ '', found '' @
                              nat_str (lr_seq r))\<rparr>
      else (case loads (lr_event r) of
              None \<Rightarrow> Inl \<lparr>vr_ok = False, vr_count = tot, vr_head = prev,
                          vr_error = Some (''unparseable event at seq '' @ nat_str (lr_seq r))\<rparr>
            | Some event \<Rightarrow>
                (let recomputed = chain_hash prev event in
                 if recomputed \<noteq> lr_hash r then
                   Inl \<lparr>vr_ok = False, vr_count = tot, vr_head = prev,
                        vr_error = Some (''chain break at seq '' @ nat_str (lr_seq r))\<rparr>
                 else verify_rows tot (Suc expected) recomputed rs)))"

definition ledger_verify :: "store \<Rightarrow> string \<Rightarrow> byte list option \<Rightarrow> verify_result" where
  "ledger_verify st sid key =
     (let rows = ledger_rows st sid; n = length rows in
      case verify_rows n 1 GENESIS rows of
        Inl r \<Rightarrow> r
      | Inr hh \<Rightarrow>
          (case find (\<lambda>r. sl_session r = sid) (seals st) of
             None \<Rightarrow> \<lparr>vr_ok = True, vr_count = n, vr_head = hh, vr_error = None\<rparr>
           | Some sl \<Rightarrow>
               if sl_head sl \<noteq> hh \<or> sl_count sl \<noteq> n then
                 \<lparr>vr_ok = False, vr_count = n, vr_head = hh,
                  vr_error = Some ''seal mismatch: chain truncated or extended after sealing''\<rparr>
               else (case key of
                       None \<Rightarrow> \<lparr>vr_ok = True, vr_count = n, vr_head = hh, vr_error = None\<rparr>
                     | Some k \<Rightarrow>
                         if seal_mac k hh n \<noteq> sl_hmac sl then
                           \<lparr>vr_ok = False, vr_count = n, vr_head = hh,
                            vr_error = Some ''seal HMAC invalid (wrong key or forged seal)''\<rparr>
                         else \<lparr>vr_ok = True, vr_count = n, vr_head = hh, vr_error = None\<rparr>)))"

subsection \<open>Invariant\<close>

text \<open>
  The rows of a session form a chain from a given number and hash, each row holding the
  canonical text of a dictionary.
\<close>

fun chain_from :: "nat \<Rightarrow> string \<Rightarrow> ledger_row list \<Rightarrow> bool" where
  "chain_from n prev [] = True"
| "chain_from n prev (r # rs) =
     (lr_seq r = n \<and> lr_hash r = sha256_hex (encode prev @ encode (lr_event r)) \<and>
      chain_from (Suc n) (lr_hash r) rs)"

definition event_ok :: "ledger_row \<Rightarrow> bool" where
  "event_ok r \<longleftrightarrow> (\<exists>d. wf_json (JObj d) \<and> lr_event r = canonical (JObj d))"

definition ledger_ok :: "store \<Rightarrow> bool" where
  "ledger_ok st \<longleftrightarrow>
     numbered lr_session lr_seq (ledger st) \<and> (\<forall>r\<in>set (ledger st). event_ok r) \<and>
     (\<forall>sid. chain_from 1 GENESIS (ledger_rows st sid))"

text \<open>The decoded events of a session, and the hash a chain of events ends in.\<close>

definition events_of :: "ledger_row list \<Rightarrow> json list" where
  "events_of rows = map (\<lambda>r. case loads (lr_event r) of Some e \<Rightarrow> e | None \<Rightarrow> JNull) rows"

definition chain_head :: "json list \<Rightarrow> string" where
  "chain_head es = foldl chain_hash GENESIS es"

subsection \<open>The hash chain\<close>


lemma GENESIS_digest: "length (encode GENESIS) = 64"
  by (simp only: GENESIS_def, subst length_encode_ascii) simp_all

text \<open>Equal links come from equal inputs, or the two hashed byte strings collide.\<close>

definition link_clash :: "string \<Rightarrow> json \<Rightarrow> string \<Rightarrow> json \<Rightarrow> bool" where
  "link_clash p e p' e' \<longleftrightarrow>
     collision (encode p @ encode (canonical e)) (encode p' @ encode (canonical e'))"

interpretation runtime_chain: hash_chain chain_hash GENESIS "\<lambda>h. length (encode h) = 64"
  "\<lambda>e e'. canonical e = canonical e'" link_clash
proof unfold_locales
  fix p p' e e'
  assume len: "length (encode p) = 64" "length (encode p') = 64"
    and eq: "chain_hash p e = chain_hash p' e'"
  then have "sha256 (encode p @ encode (canonical e)) = sha256 (encode p' @ encode (canonical e'))"
    by (simp add: chain_hash_def)
  then show "p = p' \<and> canonical e = canonical e' \<or> link_clash p e p' e'"
    using len by (auto simp: link_clash_def dest!: sha256_eq_or_collision)
qed (simp_all add: GENESIS_digest chain_hash_def)

subsection \<open>What a successful check means\<close>

lemma verify_rows_Inr:
  "verify_rows t n p rows = Inr h \<Longrightarrow>
   h = foldl chain_hash p (events_of rows) \<and> map lr_seq rows = [n..<n + length rows] \<and>
   (\<forall>r\<in>set rows. loads (lr_event r) \<noteq> None)"
proof (induction rows arbitrary: n p)
  case (Cons r rows)
  then obtain e where e: "lr_seq r = n" "loads (lr_event r) = Some e"
    "verify_rows t (Suc n) (chain_hash p e) rows = Inr h"
    by (auto simp: Let_def split: if_splits option.splits)
  have "[n..<n + length (r # rows)] = n # [Suc n..<Suc n + length rows]"
    by (subst upt_rec) simp
  with Cons.IH [OF e(3)] e(1,2) show ?case by (simp add: events_of_def del: upt_Suc)
qed (simp add: events_of_def)

lemma event_okE:
  assumes "event_ok r"
  obtains e where "loads (lr_event r) = Some e" "canonical e = lr_event r"
    "events_of (r # rs) = e # events_of rs"
proof -
  from assms obtain d where d: "wf_json (JObj d)" "lr_event r = canonical (JObj d)"
    by (auto simp: event_ok_def)
  then have "loads (lr_event r) = Some (sort_json (JObj d))" by (simp add: loads_canonical)
  with d that show ?thesis by (simp add: events_of_def)
qed

lemma verify_rows_complete:
  "chain_from n p rows \<Longrightarrow> (\<forall>r\<in>set rows. event_ok r) \<Longrightarrow>
   verify_rows t n p rows = Inr (foldl chain_hash p (events_of rows))"
proof (induction rows arbitrary: n p)
  case (Cons r rows)
  then obtain e where e: "loads (lr_event r) = Some e" "canonical e = lr_event r"
    "events_of (r # rows) = e # events_of rows"
    by (metis event_okE list.set_intros(1))
  have "lr_hash r = chain_hash p e" "lr_seq r = n" "chain_from (Suc n) (chain_hash p e) rows"
    using Cons.prems e(2) by (auto simp: chain_hash_def)
  with Cons.IH [of "Suc n" "chain_hash p e"] Cons.prems(2) e show ?case by simp
qed (simp add: events_of_def)

lemma verify_rows_Inl: "verify_rows t n p rows = Inl v \<Longrightarrow> \<not> vr_ok v \<and> vr_count v = t"
  by (induction rows arbitrary: n p) (auto simp: Let_def split: if_splits option.splits)

lemma ledger_verify_ok_iff:
  "vr_ok (ledger_verify st sid key) \<longleftrightarrow>
     (\<exists>h. verify_rows (length (ledger_rows st sid)) 1 GENESIS (ledger_rows st sid) = Inr h \<and>
          (case find (\<lambda>r. sl_session r = sid) (seals st) of
             None \<Rightarrow> True
           | Some sl \<Rightarrow> sl_head sl = h \<and> sl_count sl = length (ledger_rows st sid) \<and>
               (\<forall>k. key = Some k \<longrightarrow> sl_hmac sl = seal_mac k h (length (ledger_rows st sid)))))"
  by (auto simp: ledger_verify_def Let_def split: sum.splits option.splits
      dest: verify_rows_Inl)

subsection \<open>Appending keeps the chain\<close>

lemma ledger_rows_filter:
  "ledger_ok st \<Longrightarrow> ledger_rows st sid = filter (\<lambda>r. lr_session r = sid) (ledger st)"
  by (simp add: ledger_ok_def ledger_rows_def numbered_select)

lemma ledger_numbered:
  assumes "ledger_ok st"
  shows "map lr_seq (ledger_rows st sid) = [1..<Suc (length (ledger_rows st sid))]"
  using assms unfolding ledger_rows_filter [OF assms] ledger_ok_def numbered_def by blast

lemma ledger_rows_ok: "ledger_ok st \<Longrightarrow> \<forall>r\<in>set (ledger_rows st sid). event_ok r"
  by (simp add: ledger_rows_filter) (simp add: ledger_ok_def)

lemma chain_from_events:
  "chain_from n p rows \<Longrightarrow> (\<forall>r\<in>set rows. event_ok r) \<Longrightarrow> rows \<noteq> [] \<Longrightarrow>
   lr_hash (last rows) = foldl chain_hash p (events_of rows)"
proof (induction rows arbitrary: n p)
  case (Cons r rows)
  then obtain e where e: "canonical e = lr_event r" "events_of (r # rows) = e # events_of rows"
    by (metis event_okE list.set_intros(1))
  have "lr_hash r = chain_hash p e" "chain_from (Suc n) (chain_hash p e) rows"
    using Cons.prems e(1) by (auto simp: chain_hash_def)
  with Cons.IH [of "Suc n" "chain_hash p e"] Cons.prems(2) e(2) show ?case
    by (cases "rows = []") (simp_all add: events_of_def)
qed simp

lemma ledger_head_chain:
  assumes "ledger_ok st"
  shows "ledger_head st sid = (chain_head (events_of (ledger_rows st sid)), length (ledger_rows st sid))"
proof (cases "ledger_rows st sid" rule: rev_cases)
  case Nil
  then show ?thesis by (simp add: ledger_head_def chain_head_def events_of_def)
next
  case (snoc rs r)
  have "chain_from 1 GENESIS (ledger_rows st sid)" using assms by (simp add: ledger_ok_def)
  then have "lr_hash r = chain_head (events_of (ledger_rows st sid))"
    using ledger_rows_ok [OF assms] chain_from_events [of 1 GENESIS "ledger_rows st sid"] snoc
    unfolding chain_head_def by (metis last_snoc snoc_eq_iff_butlast)
  moreover have "lr_seq r = length (ledger_rows st sid)"
    using ledger_numbered [OF assms, of sid] snoc by (auto dest!: arg_cong [of _ _ last])
  ultimately show ?thesis using snoc by (simp add: ledger_head_def)
qed



text \<open>The row that \<open>append\<close> inserts.\<close>

definition new_row :: "store \<Rightarrow> string \<Rightarrow> dict \<Rightarrow> ledger_row" where
  "new_row st sid ev =
     \<lparr>lr_session = sid, lr_seq = Suc (length (ledger_rows st sid)), lr_event = canonical (JObj ev),
      lr_hash = chain_hash (chain_head (events_of (ledger_rows st sid))) (JObj ev)\<rparr>"

lemma new_row_simps [simp]:
  "lr_session (new_row st sid ev) = sid"
  "lr_seq (new_row st sid ev) = Suc (length (ledger_rows st sid))"
  "lr_event (new_row st sid ev) = canonical (JObj ev)"
  "wf_json (JObj ev) \<Longrightarrow> event_ok (new_row st sid ev)"
  by (auto simp: new_row_def event_ok_def)

lemma ledger_append_row:
  "ledger_ok st \<Longrightarrow> ledger_append st sid ev =
     (lr_hash (new_row st sid ev), st\<lparr>ledger := ledger st @ [new_row st sid ev]\<rparr>)"
  by (simp add: ledger_append_def ledger_head_chain new_row_def Let_def)

lemma ledger_append_numbered:
  "ledger_ok st \<Longrightarrow> numbered lr_session lr_seq (ledger st @ [new_row st sid ev])"
  by (rule numbered_snoc) (simp_all add: ledger_rows_filter, simp add: ledger_ok_def)

lemma ledger_rows_append:
  assumes "ledger_ok st"
  shows "ledger_rows (snd (ledger_append st sid ev)) k =
    (if k = sid then ledger_rows st sid @ [new_row st sid ev] else ledger_rows st k)"
  using ledger_append_numbered [OF assms, of sid ev]
  by (simp add: ledger_append_row [OF assms] ledger_rows_filter [OF assms])
     (simp add: ledger_rows_def numbered_select)

lemma chain_from_snoc:
  "chain_from n p (rows @ [r]) \<longleftrightarrow> chain_from n p rows \<and> lr_seq r = n + length rows \<and>
   lr_hash r = sha256_hex (encode (if rows = [] then p else lr_hash (last rows)) @ encode (lr_event r))"
  by (induction rows arbitrary: n p) auto

lemma ledger_append_ok:
  assumes ok: "ledger_ok st" and ev: "wf_json (JObj ev)"
  shows "ledger_ok (snd (ledger_append st sid ev))"
proof -
  let ?rows = "ledger_rows st sid"
  have c: "chain_from 1 GENESIS (ledger_rows st k)" for k using ok by (simp add: ledger_ok_def)
  have "chain_head (events_of ?rows) = (if ?rows = [] then GENESIS else lr_hash (last ?rows))"
    using chain_from_events [OF c ledger_rows_ok [OF ok]] by (simp add: chain_head_def events_of_def)
  then have "chain_from 1 GENESIS (?rows @ [new_row st sid ev])"
    using c by (simp add: chain_from_snoc new_row_def chain_hash_def split: if_splits)
  then have "chain_from 1 GENESIS (ledger_rows (snd (ledger_append st sid ev)) k)" for k
    using c by (simp add: ledger_rows_append [OF ok])
  moreover have "\<forall>r\<in>set (ledger st). event_ok r" using ok by (simp add: ledger_ok_def)
  ultimately show ?thesis
    using ledger_append_numbered [OF ok] ev
    by (simp add: ledger_ok_def [of "snd (ledger_append st sid ev)"]) (simp add: ledger_append_row ok)
qed

definition ledger_view :: "store \<Rightarrow> string \<Rightarrow> (nat \<times> json) list" where
  "ledger_view st sid = zip (map lr_seq (ledger_rows st sid)) (events_of (ledger_rows st sid))"

lemma events_of_append:
  "ledger_ok st \<Longrightarrow> wf_json (JObj ev) \<Longrightarrow>
   events_of (ledger_rows (snd (ledger_append st sid ev)) sid) =
   events_of (ledger_rows st sid) @ [sort_json (JObj ev)]"
  by (simp add: ledger_rows_append) (simp add: events_of_def loads_canonical)

lemma length_events_of [simp]: "length (events_of rows) = length rows"
  by (simp add: events_of_def)

interpretation ledger_log: session_log
  ledger_view
  "\<lambda>sid ev st. snd (ledger_append st sid ev)"
  "\<lambda>st sid ev. sort_json (JObj ev)"
  "\<lambda>ev. wf_json (JObj ev)"
  ledger_ok
proof unfold_locales
  fix st :: store and ev :: dict and k k' :: string
  assume ok: "ledger_ok st"
  show "map fst (ledger_view st k) = [1..<Suc (length (ledger_view st k))]"
    using ledger_numbered [OF ok] by (simp add: ledger_view_def)
  assume ev: "wf_json (JObj ev)"
  show "ledger_view (snd (ledger_append st k ev)) k =
      ledger_view st k @ [(Suc (length (ledger_view st k)), sort_json (JObj ev))]"
    using ok ev by (simp add: ledger_view_def events_of_append) (simp add: ledger_rows_append)
  show "ledger_ok (snd (ledger_append st k ev))"
    using ok ev by (rule ledger_append_ok)
  assume "k' \<noteq> k"
  with ok ev show "ledger_view (snd (ledger_append st k ev)) k' = ledger_view st k'"
    by (simp add: ledger_view_def ledger_rows_append)
qed

subsection \<open>Effects on the rest of the store\<close>

lemma ledger_append_frame [simp, ledger_simps]:
  "journal (snd (ledger_append st sid ev)) = journal st"
  "seals (snd (ledger_append st sid ev)) = seals st"
  by (simp_all add: ledger_append_def Let_def split: prod.splits)

lemma ledger_seal_frame [simp, ledger_simps]:
  "ledger (snd (ledger_seal st sid key)) = ledger st"
  "ledger_rows (snd (ledger_seal st sid key)) k = ledger_rows st k"
  "ledger_ok (snd (ledger_seal st sid key)) = ledger_ok st"
  by (simp_all add: ledger_seal_def ledger_rows_def ledger_ok_def Let_def split: prod.splits)

lemma seal_row_after_seal:
  assumes "ledger_ok st"
  shows "find (\<lambda>r. sl_session r = sid) (seals (snd (ledger_seal st sid key))) =
    Some (let h = chain_head (events_of (ledger_rows st sid)); n = length (ledger_rows st sid)
          in \<lparr>sl_session = sid, sl_head = h, sl_count = n, sl_hmac = seal_mac key h n\<rparr>)"
proof -
  have "find (\<lambda>r. sl_session r = sid) (filter (\<lambda>r. sl_session r \<noteq> sid) (seals st)) = None"
    by (simp add: find_None_iff)
  then show ?thesis
    by (simp add: ledger_seal_def ledger_head_chain [OF assms] Let_def find_append)
qed

lemma ledger_verify_unsealed:
  assumes ok: "ledger_ok st" and "find (\<lambda>r. sl_session r = sid) (seals st) = None"
  shows "ledger_verify st sid key =
    \<lparr>vr_ok = True, vr_count = length (ledger_rows st sid),
     vr_head = chain_head (events_of (ledger_rows st sid)), vr_error = None\<rparr>"
proof -
  have "chain_from 1 GENESIS (ledger_rows st sid)" using ok by (simp add: ledger_ok_def)
  then show ?thesis
    using verify_rows_complete [OF _ ledger_rows_ok [OF ok]] assms(2)
    by (simp add: ledger_verify_def chain_head_def Let_def)
qed

text \<open>A run of appends.\<close>

primrec append_all :: "(string \<times> dict) list \<Rightarrow> store \<Rightarrow> store" where
  "append_all [] st = st"
| "append_all (op # ops) st = append_all ops (snd (ledger_append st (fst op) (snd op)))"

lemma append_all_fold:
  "append_all ops st = fold (\<lambda>(k, ev). (\<lambda>sid ev st. snd (ledger_append st sid ev)) k ev) ops st"
  by (induction ops arbitrary: st) (auto simp: split_beta)

lemma append_all_ok:
  assumes "ledger_ok st" and "\<forall>op\<in>set ops. wf_json (JObj (snd op))"
  shows "ledger_ok (append_all ops st)"
  unfolding append_all_fold
  using assms by (intro conjunct1 [OF ledger_log.run_extends]) auto

lemma append_all_seals [simp]: "seals (append_all ops st) = seals st"
  by (induction ops arbitrary: st) auto

lemma append_all_events:
  assumes "ledger_ok st" and "\<forall>op\<in>set ops. wf_json (JObj (snd op))"
  shows "events_of (ledger_rows (append_all ops st) sid) = events_of (ledger_rows st sid) @
    map (\<lambda>op. sort_json (JObj (snd op))) (filter (\<lambda>op. fst op = sid) ops)"
  using assms
proof (induction ops arbitrary: st)
  case (Cons op ops)
  have ok: "ledger_ok (snd (ledger_append st (fst op) (snd op)))"
    using Cons.prems by (intro ledger_append_ok) auto
  have wf: "wf_json (JObj (snd op))" using Cons.prems(2) by auto
  show ?case
  proof (cases "fst op = sid")
    case True
    then show ?thesis
      using Cons.IH [OF ok] Cons.prems(2) events_of_append [OF Cons.prems(1) wf, of sid] by simp
  next
    case False
    then show ?thesis
      using Cons.IH [OF ok] Cons.prems ledger_rows_append [OF Cons.prems(1), of "fst op" "snd op" sid] by simp
  qed
qed simp

lemma ledger_verify_head:
  assumes "vr_ok (ledger_verify st sid key)"
  shows "vr_head (ledger_verify st sid key) = chain_head (events_of (ledger_rows st sid)) \<and>
    vr_count (ledger_verify st sid key) = length (events_of (ledger_rows st sid))"
proof -
  from assms obtain h where h: "verify_rows (length (ledger_rows st sid)) 1 GENESIS (ledger_rows st sid) = Inr h"
    by (auto simp: ledger_verify_ok_iff)
  with verify_rows_Inr [OF h] show ?thesis
    by (auto simp: ledger_verify_def chain_head_def Let_def split: option.splits)
qed

lemma empty_store_ledger [simp]:
  "ledger_ok empty_store" "ledger_rows empty_store sid = []" "seals empty_store = []"
  by (simp_all add: ledger_ok_def ledger_rows_def select_seq_def empty_store_def)

lemma list_all2_map_eq: "list_all2 (\<lambda>x y. f x = f y) xs ys \<longleftrightarrow> map f xs = map f ys"
  by (auto simp: list_all2_conv_all_nth list_eq_iff_nth_eq)

subsection \<open>Properties\<close>

text \<open>Appending any events to any sessions in any order leaves a ledger that \<open>verify\<close> accepts:
  for an unsealed session the answer is ok, with no error, the number of rows, and as head the
  fold of the chain hash over exactly the events appended to that session, in order.\<close>

theorem ledger_runs_verify:
  assumes "ledger_ok st" and "\<forall>op\<in>set ops. wf_json (JObj (snd op))"
    and "\<forall>r\<in>set (seals st). sl_session r \<noteq> sid"
  shows "ledger_verify (append_all ops st) sid key =
    (let es = events_of (ledger_rows st sid) @
              map (\<lambda>op. sort_json (JObj (snd op))) (filter (\<lambda>op. fst op = sid) ops)
     in \<lparr>vr_ok = True, vr_count = length es, vr_head = chain_head es, vr_error = None\<rparr>)"
proof -
  have "find (\<lambda>r. sl_session r = sid) (seals (append_all ops st)) = None"
    using assms(3) by (simp add: find_None_iff)
  from ledger_verify_unsealed [OF append_all_ok [OF assms(1,2)] this, of key]
  show ?thesis
    unfolding Let_def append_all_events [OF assms(1,2), symmetric] by simp
qed

theorem ledger_runs_verify_witness:
  "vr_count (ledger_verify (append_all
      [(''a'', [(''type'', JStr ''x'')]), (''b'', []), (''a'', [(''n'', JInt 1)])] empty_store) ''a'' None) = 2"
  using ledger_runs_verify [of empty_store
      "[(''a'', [(''type'', JStr ''x'')]), (''b'', []), (''a'', [(''n'', JInt 1)])]" "''a''" None]
  by (simp add: Let_def events_of_def)

text \<open>C5: Tamper evidence. Whatever two ledgers hold, if \<open>verify\<close> accepts a session in both with
  the same head and count, the two histories decode to the same canonical events one by one, or
  at some position the two hashed byte strings are a collision of SHA-256.\<close>

theorem verified_head_fixes_history:
  assumes "vr_ok (ledger_verify st sid key)" and "vr_ok (ledger_verify st' sid' key')"
    and "vr_head (ledger_verify st sid key) = vr_head (ledger_verify st' sid' key')"
    and "vr_count (ledger_verify st sid key) = vr_count (ledger_verify st' sid' key')"
  defines "es \<equiv> events_of (ledger_rows st sid)" and "es' \<equiv> events_of (ledger_rows st' sid')"
  shows "map canonical es = map canonical es' \<or>
    (\<exists>i<length es. collision
       (encode (chain_head (take i es)) @ encode (canonical (es ! i)))
       (encode (chain_head (take i es')) @ encode (canonical (es' ! i))))"
proof -
  have head: "vr_head (ledger_verify s k q) = chain_head (events_of (ledger_rows s k)) \<and>
      vr_count (ledger_verify s k q) = length (events_of (ledger_rows s k))"
    if "vr_ok (ledger_verify s k q)" for s k q
    using that by (rule ledger_verify_head)
  have "length es = length es'" "foldl chain_hash GENESIS es = foldl chain_hash GENESIS es'"
    using head [OF assms(1)] head [OF assms(2)] assms(3,4) by (simp_all add: es_def es'_def chain_head_def)
  from runtime_chain.equal_heads [OF this] show ?thesis
    by (simp add: link_clash_def chain_head_def list_all2_map_eq)
qed

theorem verified_head_fixes_history_witness:
  "map canonical (events_of (ledger_rows (append_all [(''b'', []), (''a'', [(''n'', JInt 1)])] empty_store) ''a'')) =
   map canonical (events_of (ledger_rows (append_all [(''a'', [(''n'', JInt 1)])] empty_store) ''a''))"
proof -
  let ?st = "append_all [(''b'', []), (''a'', [(''n'', JInt 1)])] empty_store"
  let ?st' = "append_all [(''a'', [(''n'', JInt 1)])] empty_store"
  have ok: "ledger_ok ?st" "ledger_ok ?st'" by (rule append_all_ok; simp)+
  have ev: "events_of (ledger_rows ?st ''a'') = events_of (ledger_rows ?st' ''a'')"
    by (subst (1 2) append_all_events) simp_all
  have "ledger_verify ?st ''a'' None = ledger_verify ?st' ''a'' None" "vr_ok (ledger_verify ?st' ''a'' None)"
    using ledger_verify_unsealed [OF ok(1), of "''a''" None] ledger_verify_unsealed [OF ok(2), of "''a''" None] ev
    by (simp_all flip: length_events_of)
  then show ?thesis
    using verified_head_fixes_history [of ?st "''a''" None ?st' "''a''" None] ev
    by (simp add: collision_def)
qed

text \<open>Sealing. \<open>seal\<close> leaves a session that \<open>verify\<close> accepts under the sealing key, and every
  later append to the session, without a new seal, makes \<open>verify\<close> answer with the seal
  mismatch under any key; appends to other sessions do not.\<close>

theorem seal_then_verify:
  fixes sid :: string and key :: "byte list"
  assumes ok: "ledger_ok st" and wf: "\<forall>op\<in>set ops. wf_json (JObj (snd op))"
  defines "st' \<equiv> append_all ops (snd (ledger_seal st sid key))"
  shows "if sid \<in> fst ` set ops
    then \<not> vr_ok (ledger_verify st' sid k) \<and>
         vr_error (ledger_verify st' sid k) = Some ''seal mismatch: chain truncated or extended after sealing''
    else vr_ok (ledger_verify st' sid (Some key)) \<and> vr_count (ledger_verify st' sid (Some key)) = length (ledger_rows st sid)"
proof -
  let ?s0 = "snd (ledger_seal st sid key)"
  have ok0: "ledger_ok ?s0" using ok by simp
  have ok': "ledger_ok st'" unfolding st'_def using ok0 wf by (rule append_all_ok)
  have len: "length (ledger_rows st' sid) =
      length (ledger_rows st sid) + length (filter (\<lambda>op. fst op = sid) ops)"
    using append_all_events [OF ok0 wf, of sid] by (simp add: st'_def flip: length_events_of)
  have v: "verify_rows (length (ledger_rows st' sid)) 1 GENESIS (ledger_rows st' sid) =
      Inr (chain_head (events_of (ledger_rows st' sid)))"
    using ok' verify_rows_complete [OF _ ledger_rows_ok [OF ok']] by (simp add: ledger_ok_def chain_head_def)
  have sl: "find (\<lambda>r. sl_session r = sid) (seals st') =
      Some (let h = chain_head (events_of (ledger_rows st sid)); n = length (ledger_rows st sid)
            in \<lparr>sl_session = sid, sl_head = h, sl_count = n, sl_hmac = seal_mac key h n\<rparr>)"
    using seal_row_after_seal [OF ok] by (simp add: st'_def)
  show ?thesis
  proof (cases "sid \<in> fst ` set ops")
    case True
    then have "filter (\<lambda>op. fst op = sid) ops \<noteq> []" by (auto simp: filter_empty_conv)
    then have "length (ledger_rows st' sid) \<noteq> length (ledger_rows st sid)" using len by simp
    then show ?thesis using True v sl by (simp add: ledger_verify_def Let_def)
  next
    case False
    then have e: "filter (\<lambda>op. fst op = sid) ops = []" by (auto simp: filter_empty_conv)
    have "events_of (ledger_rows st' sid) = events_of (ledger_rows st sid)"
      using append_all_events [OF ok0 wf, of sid] by (simp add: st'_def e)
    then show ?thesis using False v sl len e by (simp add: ledger_verify_def Let_def)
  qed
qed

theorem seal_then_verify_witness:
  "\<not> vr_ok (ledger_verify (append_all [(''s'', [])] (snd (ledger_seal empty_store ''s'' [1, 2, 3]))) ''s'' None)"
  using seal_then_verify [of empty_store "[(''s'', [])]" "''s''" "[1, 2, 3]" None] by simp

text \<open>C23: Truncation and rewriting after the seal. Replace the ledger table of a sealed store by any
  rows whatsoever: if \<open>verify\<close> still accepts the session, there are as many rows as were sealed, and they decode to
  the sealed events in canonical form, or at some position the two hashed byte strings are a collision of SHA-256. So no
  event can be dropped, added or changed; what is not fixed is the text of a row, since one that spells the same event
  otherwise, with other spaces or another order of keys, is accepted.\<close>

theorem sealed_history_fixed:
  assumes ok: "ledger_ok st"
    and acc: "vr_ok (ledger_verify ((snd (ledger_seal st sid key))\<lparr>ledger := forged\<rparr>) sid k)"
  defines "es \<equiv> events_of (ledger_rows st sid)" and "es' \<equiv> events_of (ledger_rows (st\<lparr>ledger := forged\<rparr>) sid)"
  shows "length (ledger_rows (st\<lparr>ledger := forged\<rparr>) sid) = length (ledger_rows st sid) \<and>
    (map canonical es = map canonical es' \<or>
      (\<exists>i<length es. collision
         (encode (chain_head (take i es)) @ encode (canonical (es ! i)))
         (encode (chain_head (take i es')) @ encode (canonical (es' ! i)))))"
proof -
  let ?f = "(snd (ledger_seal st sid key))\<lparr>ledger := forged\<rparr>"
  have rows: "ledger_rows ?f sid = ledger_rows (st\<lparr>ledger := forged\<rparr>) sid" by (simp add: ledger_rows_def)
  have seals: "find (\<lambda>r. sl_session r = sid) (seals ?f) =
      find (\<lambda>r. sl_session r = sid) (seals (snd (ledger_seal st sid key)))" by simp
  from acc obtain h where h: "verify_rows (length (ledger_rows ?f sid)) 1 GENESIS (ledger_rows ?f sid) = Inr h"
      "chain_head es = h" "length (ledger_rows st sid) = length (ledger_rows ?f sid)"
    using seal_row_after_seal [OF ok, of sid key]
    by (auto simp only: ledger_verify_ok_iff seals es_def Let_def option.case seal_row.simps)
  have "foldl chain_hash GENESIS es = foldl chain_hash GENESIS es'" "length es = length es'"
    using verify_rows_Inr [OF h(1)] h(2,3) rows by (simp_all add: es_def es'_def chain_head_def)
  from runtime_chain.equal_heads [OF this(2,1)] h(3) show ?thesis
    by (simp add: link_clash_def chain_head_def list_all2_map_eq rows)
qed

theorem sealed_history_fixed_witness:
  "vr_ok (ledger_verify ((snd (ledger_seal (append_all [(''a'', [])] empty_store) ''a'' []))
      \<lparr>ledger := ledger (append_all [(''a'', [])] empty_store)\<rparr>) ''a'' None)
   \<and> map canonical (events_of (ledger_rows (append_all [(''a'', [])] empty_store) ''a'')) =
     map canonical (events_of (ledger_rows (empty_store\<lparr>ledger := ledger (append_all [(''a'', [])] empty_store)\<rparr>) ''a''))"
proof -
  let ?st = "append_all [(''a'', [])] empty_store"
  have ok: "ledger_ok ?st" by (rule append_all_ok) simp_all
  have id: "(snd (ledger_seal ?st ''a'' []))\<lparr>ledger := ledger ?st\<rparr> = snd (ledger_seal ?st ''a'' [])"
    by (simp add: ledger_seal_def Let_def split: prod.splits)
  have acc: "vr_ok (ledger_verify (snd (ledger_seal ?st ''a'' [])) ''a'' None)"
    using ok seal_row_after_seal [OF ok, of "''a''" "[]"] verify_rows_complete [OF _ ledger_rows_ok [OF ok]]
    by (simp add: ledger_verify_ok_iff ledger_ok_def chain_head_def Let_def)
  then have acc': "vr_ok (ledger_verify ((snd (ledger_seal ?st ''a'' []))\<lparr>ledger := ledger ?st\<rparr>) ''a'' None)"
    by (simp only: id)
  have "ledger_rows (?st\<lparr>ledger := ledger ?st\<rparr>) ''a'' = ledger_rows (empty_store\<lparr>ledger := ledger ?st\<rparr>) ''a''"
    by (simp add: ledger_rows_def)
  with sealed_history_fixed [OF ok acc'] acc' show ?thesis
    by (simp add: collision_def del: append_all.simps)
qed

end
