(* ===== verification/Kernel.thy ===== *)
theory Kernel
  imports Policy Ledger
begin

text \<open>
  The agent kernel (\<open>scr/kernel.py\<close>): one turn of the loop after another, with the write-ahead
  journal, the approval gate, the parallel batch, retry of transient model errors, and the stop
  reasons. A kernel method is a function of the store and of a world \<open>'w\<close> that carries the
  adapter, the clock, the cancel flag and whatever the tools touch; it returns a value or the
  exception that leaves it, with the new store and world. Clock readings and durations are integers
  in one unit. A parallel batch runs its functions one after another in list order.
\<close>

subsection \<open>Tools, guards, results\<close>

record 'w tool_spec =
  ts_name :: string
  ts_fn :: "dict \<Rightarrow> store \<times> 'w \<Rightarrow> (py_exn + string) \<times> store \<times> 'w"
  ts_idempotent :: bool
  ts_description :: string
  ts_parameters :: dict
  ts_parallel_safe :: bool
  ts_classification :: string

record guards =
  max_iterations :: nat
  max_token_estimate :: nat
  max_wall_seconds :: int
  cycle_repeat_threshold :: nat
  max_total_tokens :: int
  summarize_at_tokens :: nat
  summarize_keep_recent :: nat

definition default_guards :: guards where
  "default_guards = \<lparr>max_iterations = 25, max_token_estimate = 200000, max_wall_seconds = 3600,
     cycle_repeat_threshold = 3, max_total_tokens = 2000000, summarize_at_tokens = 150000,
     summarize_keep_recent = 6\<rparr>"

record run_result =
  rr_session :: string
  rr_final_text :: string
  rr_iterations :: nat
  rr_stopped :: string
  rr_pending :: "string option"

record recovery_report =
  rc_session :: string
  rc_status :: string
  rc_detail :: string

record 'w kernel =
  k_complete :: "message list \<Rightarrow> tool_def list \<Rightarrow> 'w \<Rightarrow> (py_exn + model_response) \<times> 'w"
  k_tools :: "(string \<times> 'w tool_spec) list"
  k_manifest :: manifest
  k_guards :: guards
  k_system_prompt :: string
  k_policy :: "policy option"
  k_search :: "string \<Rightarrow> string \<Rightarrow> bool"
  k_cancel_check :: "('w \<Rightarrow> bool \<times> 'w) option"
  k_finalize_guard :: "(string \<Rightarrow> store \<times> 'w \<Rightarrow> string option) option"
  k_monotonic :: "'w \<Rightarrow> int \<times> 'w"
  k_sleep :: "int \<Rightarrow> 'w \<Rightarrow> 'w"

text \<open>
  Only \<open>except Exception\<close> clauses fold an error; what is not an \<open>Exception\<close>
  (a keyboard interrupt, an exit) leaves the method.
\<close>

definition run_tool_fn ::
  "'w tool_spec \<Rightarrow> tool_call \<Rightarrow> store \<times> 'w \<Rightarrow> (py_exn + string) \<times> store \<times> 'w" where
  "run_tool_fn spec call s =
     (case ts_fn spec (tc_arguments call) s of
        (Inr r, s') \<Rightarrow> (Inr r, s')
      | (Inl e, s') \<Rightarrow>
          if isinstance e ''Exception''
          then (Inr (''TOOL ERROR [tool_exception]: '' @ exn_class e @ '': '' @ take 200 (exn_msg e) @
                     '' (tool='' @ tc_name call @ '')''), s')
          else (Inl e, s'))"

fun arg_path_keys :: "string list \<Rightarrow> dict \<Rightarrow> dict" where
  "arg_path_keys [] args = []"
| "arg_path_keys (k # ks) args =
     (case dict_get args k of
        Some (JStr v) \<Rightarrow> if v \<noteq> [] then (k, JStr (take 300 v)) # arg_path_keys ks args
                        else arg_path_keys ks args
      | _ \<Rightarrow> arg_path_keys ks args)"

definition arg_path :: "dict \<Rightarrow> dict" where
  "arg_path args = arg_path_keys [''path'', ''bundle'', ''url'', ''binary''] args"

definition estimate_tokens :: "message list \<Rightarrow> nat" where
  "estimate_tokens msgs = sum_list (map (\<lambda>m. length (content m)) msgs) div 4"

definition idem_key :: "string \<Rightarrow> nat \<Rightarrow> string \<Rightarrow> dict \<Rightarrow> string" where
  "idem_key sid q tool args =
     sha256_hex (encode (canonical (JObj [(''s'', JStr sid), (''q'', JInt (int q)), (''t'', JStr tool),
       (''a'', JObj args)])))"

definition cycle_signature :: "tool_call list \<Rightarrow> string" where
  "cycle_signature calls =
     sha256_hex (encode (join ''|'' (sorted_strs (map (\<lambda>c. canonical (JObj [(''n'', JStr (tc_name c)),
       (''a'', JObj (tc_arguments c))])) calls))))"

definition approval_id :: "string \<Rightarrow> tool_call \<Rightarrow> string" where
  "approval_id sid call =
     sha256_hex (encode (canonical (JObj [(''s'', JStr sid), (''t'', JStr (tc_name call)),
       (''a'', JObj (tc_arguments call)), (''c'', JStr (tc_id call))])))"

subsection \<open>Context assembly\<close>

definition summarize :: "message list \<Rightarrow> string" where
  "summarize msgs =
     take 4000 (''[SUMMARY of '' @ nat_str (length msgs) @ '' earlier messages] '' @
       join '' | '' (map (\<lambda>m. role m @ '': '' @ take 160 (join '' '' (split_ws (content m)))) msgs))"

text \<open>
  \<open>history[:-keep]\<close> and \<open>history[-keep:]\<close> with \<open>keep = 0\<close> are the empty list and the
  whole list, because \<open>-0\<close> is \<open>0\<close>.
\<close>

definition split_recent :: "nat \<Rightarrow> 'a list \<Rightarrow> 'a list \<times> 'a list" where
  "split_recent keep h =
     (if keep = 0 then ([], h) else (take (length h - keep) h, drop (length h - keep) h))"

definition assemble_context :: "'w kernel \<Rightarrow> store \<Rightarrow> string \<Rightarrow> message list" where
  "assemble_context k st sid =
     (let history = get_messages st sid;
          sys = \<lparr>role = ''system'', content = k_system_prompt k\<rparr>;
          msgs = sys # history;
          keep = summarize_keep_recent (k_guards k)
      in if estimate_tokens msgs \<le> summarize_at_tokens (k_guards k) then msgs
         else if length history \<le> keep then msgs
         else (let (old, recent) = split_recent keep history
               in sys # \<lparr>role = ''system'', content = summarize old\<rparr> # recent))"

text \<open>
  \<open>int(e.get(..., 0))\<close> on a decoded event. A value that \<open>int\<close> refuses, and an event that
  is not a dictionary, raise.
\<close>

definition token_int :: "json option \<Rightarrow> py_exn + int" where
  "token_int j = (case j of
     None \<Rightarrow> Inr 0
   | Some (JInt i) \<Rightarrow> Inr i
   | Some (JBool b) \<Rightarrow> Inr (if b then 1 else 0)
   | Some (JStr s) \<Rightarrow> (case int_of_str s of Some i \<Rightarrow> Inr i
                     | None \<Rightarrow> Inl (mk_exn ''ValueError'' ''invalid literal for int()''))
   | Some _ \<Rightarrow> Inl (mk_exn ''TypeError'' ''int() argument''))"

fun sum_tokens :: "int \<Rightarrow> ledger_row list \<Rightarrow> py_exn + int" where
  "sum_tokens n [] = Inr n"
| "sum_tokens n (r # rs) =
     (case loads (lr_event r) of
        None \<Rightarrow> sum_tokens n rs
      | Some (JObj e) \<Rightarrow>
          if dict_get e ''type'' = Some (JStr ''model_call'') then
            (case token_int (dict_get e ''in_tokens'') of
               Inl x \<Rightarrow> Inl x
             | Inr i \<Rightarrow> (case token_int (dict_get e ''out_tokens'') of
                          Inl x \<Rightarrow> Inl x
                        | Inr j \<Rightarrow> sum_tokens (n + (i + j)) rs))
          else sum_tokens n rs
      | Some _ \<Rightarrow> Inl (mk_exn ''AttributeError'' ''object has no attribute get''))"

definition total_tokens :: "store \<Rightarrow> string \<Rightarrow> py_exn + int" where
  "total_tokens st sid = sum_tokens 0 (filter (\<lambda>r. lr_session r = sid) (ledger st))"

subsection \<open>Recording\<close>

definition note_event :: "string \<Rightarrow> dict \<Rightarrow> store \<Rightarrow> store" where
  "note_event sid ev st = snd (ledger_append st sid ev)"

definition note_journal :: "string \<Rightarrow> string \<Rightarrow> dict \<Rightarrow> store \<Rightarrow> store" where
  "note_journal sid state payload st = snd (journal_append st sid state payload)"

definition args_sha256 :: "dict \<Rightarrow> json" where
  "args_sha256 args = JStr (sha256_hex (encode (dumps_sorted (JObj args))))"

definition ledger_tool_error :: "string \<Rightarrow> string \<Rightarrow> string \<Rightarrow> store \<Rightarrow> store" where
  "ledger_tool_error sid tool result st =
     (if startswith result ''TOOL ERROR [''
      then note_event sid [(''type'', JStr ''tool_error''), (''tool'', JStr tool),
             (''class'', JStr (before (CHR '']'') (drop (length ''TOOL ERROR ['') result))),
             (''detail'', JStr (take 200 result))] st
      else st)"

definition add_tool_msg :: "string \<Rightarrow> tool_call \<Rightarrow> string \<Rightarrow> store \<Rightarrow> store" where
  "add_tool_msg sid call result st =
     add_message st sid ''tool'' (dumps (JObj [(''tool'', JStr (tc_name call)), (''id'', JStr (tc_id call)),
       (''result'', JStr result)]))"

definition stop_run :: "string \<Rightarrow> nat \<Rightarrow> string \<Rightarrow> store \<Rightarrow> run_result \<times> store" where
  "stop_run sid iteration reason st =
     (\<lparr>rr_session = sid, rr_final_text = [], rr_iterations = iteration, rr_stopped = reason,
       rr_pending = None\<rparr>,
      note_event sid [(''type'', JStr ''stopped''), (''reason'', JStr reason)]
        (note_journal sid ''STOPPED'' [(''reason'', JStr reason)] st))"

subsection \<open>Executing one call\<close>

text \<open>
  The write-ahead record of a call, and the idempotency key read back from it. The key is computed
  from the tail's number plus one, the number the record gets.
\<close>

definition intent_payload :: "string \<Rightarrow> tool_call \<Rightarrow> bool \<Rightarrow> nat \<Rightarrow> dict" where
  "intent_payload sid call idem q =
     [(''tool'', JStr (tc_name call)), (''args'', JObj (tc_arguments call)), (''idempotent'', JBool idem),
      (''idem_key'', JStr (idem_key sid q (tc_name call) (tc_arguments call)))]"

definition write_intent ::
  "string \<Rightarrow> tool_call \<Rightarrow> bool \<Rightarrow> store \<Rightarrow> (py_exn + nat \<times> string) \<times> store" where
  "write_intent sid call idem st =
     (case journal_tail st sid of
        Inl e \<Rightarrow> (Inl e, st)
      | Inr tail \<Rightarrow>
          (let q = (case tail of None \<Rightarrow> 0 | Some t \<Rightarrow> je_seq t) + 1;
               (sq, st1) = journal_append st sid ''EXEC_INTENT'' (intent_payload sid call idem q)
           in (case journal_all st1 sid of
                 Inl e \<Rightarrow> (Inl e, st1)
               | Inr es \<Rightarrow>
                   if es = [] then (Inl (mk_exn ''IndexError'' ''list index out of range''), st1)
                   else (case jget (je_payload (last es)) ''idem_key'' of
                           Some (JStr key) \<Rightarrow> (Inr (sq, key), st1)
                         | _ \<Rightarrow> (Inl (mk_exn ''KeyError'' ''idem_key''), st1)))))"

definition close_exec ::
  "string \<Rightarrow> tool_call \<Rightarrow> nat \<Rightarrow> string \<Rightarrow> bool \<Rightarrow> string \<Rightarrow> store \<Rightarrow> store" where
  "close_exec sid call sq key par result st =
     ledger_tool_error sid (tc_name call) result
       (note_event sid
          ([(''type'', JStr ''tool_exec''), (''tool'', JStr (tc_name call)),
            (''args_sha256'', args_sha256 (tc_arguments call)),
            (''result_sha256'', JStr (sha256_hex (encode result))), (''idem_key'', JStr key)] @
           (if par then [(''parallel'', JBool True)] else []) @ arg_path (tc_arguments call))
          (note_journal sid ''EXEC_DONE'' [(''intent_seq'', JInt (int sq)), (''idem_key'', JStr key)] st))"

definition cap_check :: "'w kernel \<Rightarrow> tool_call \<Rightarrow> py_exn + 'w tool_spec" where
  "cap_check k call =
     (case check_tool (k_manifest k) (tc_name call) of
        Inl e \<Rightarrow> Inl e
      | Inr _ \<Rightarrow>
          (case dict_get (k_tools k) (tc_name call) of
             None \<Rightarrow> Inl (denied (''unknown tool: '' @ py_repr (tc_name call)))
           | Some spec \<Rightarrow>
               (case check_classification (k_manifest k) (ts_classification spec) of
                  Inl e \<Rightarrow> Inl e
                | Inr _ \<Rightarrow> Inr spec)))"

definition execute_call ::
  "'w kernel \<Rightarrow> string \<Rightarrow> tool_call \<Rightarrow> store \<times> 'w \<Rightarrow> (py_exn + string) \<times> store \<times> 'w" where
  "execute_call k sid call s =
     (case s of (st, w) \<Rightarrow>
      (case cap_check k call of
         Inl e \<Rightarrow>
           (Inr (''DENIED by capability kernel: '' @ exn_msg e),
            note_event sid [(''type'', JStr ''cap_denied''), (''tool'', JStr (tc_name call)),
              (''reason'', JStr (exn_msg e))] st, w)
       | Inr spec \<Rightarrow>
           (case write_intent sid call (ts_idempotent spec) st of
              (Inl e, st1) \<Rightarrow> (Inl e, st1, w)
            | (Inr (sq, key), st1) \<Rightarrow>
                (case tool_result_get st1 key of
                   Some cached \<Rightarrow> (Inr cached, close_exec sid call sq key False cached st1, w)
                 | None \<Rightarrow>
                     (case run_tool_fn spec call (st1, w) of
                        (Inl e, s2) \<Rightarrow> (Inl e, s2)
                      | (Inr result, (st2, w2)) \<Rightarrow>
                          (Inr result,
                           close_exec sid call sq key False result
                             (tool_result_put st2 key sid (tc_name call) result), w2))))))"

subsection \<open>The parallel batch\<close>

definition gated :: "'w kernel \<Rightarrow> tool_call \<Rightarrow> bool" where
  "gated k call \<longleftrightarrow> (case k_policy k of None \<Rightarrow> False | Some p \<Rightarrow> requires_approval (k_search k) p call)"

definition batch_eligible :: "'w kernel \<Rightarrow> tool_call \<Rightarrow> bool" where
  "batch_eligible k call \<longleftrightarrow>
     (case dict_get (k_tools k) (tc_name call) of
        None \<Rightarrow> False
      | Some spec \<Rightarrow> ts_parallel_safe spec \<and> ts_idempotent spec \<and> \<not> gated k call \<and>
          check_tool (k_manifest k) (tc_name call) = Inr () \<and>
          check_classification (k_manifest k) (ts_classification spec) = Inr ())"

definition persist_precomputed ::
  "string \<Rightarrow> tool_call \<Rightarrow> string \<Rightarrow> store \<Rightarrow> (py_exn + string) \<times> store" where
  "persist_precomputed sid call precomputed st =
     (case write_intent sid call True st of
        (Inl e, st1) \<Rightarrow> (Inl e, st1)
      | (Inr (sq, key), st1) \<Rightarrow>
          (case tool_result_get st1 key of
             Some cached \<Rightarrow> (Inr cached, close_exec sid call sq key True cached st1)
           | None \<Rightarrow>
               (Inr precomputed,
                close_exec sid call sq key True precomputed
                  (tool_result_put st1 key sid (tc_name call) precomputed))))"

fun run_batch_fns ::
  "'w kernel \<Rightarrow> tool_call list \<Rightarrow> store \<times> 'w \<Rightarrow> (py_exn + string) list \<times> store \<times> 'w" where
  "run_batch_fns k [] s = ([], s)"
| "run_batch_fns k (call # cs) s =
     (case (case dict_get (k_tools k) (tc_name call) of
              None \<Rightarrow> (Inl (mk_exn ''KeyError'' (py_repr (tc_name call))), s)
            | Some spec \<Rightarrow> run_tool_fn spec call s) of
        (r, s1) \<Rightarrow> (case run_batch_fns k cs s1 of (rs, s2) \<Rightarrow> (r # rs, s2)))"

fun persist_batch ::
  "string \<Rightarrow> (tool_call \<times> (py_exn + string)) list \<Rightarrow> store \<Rightarrow> (py_exn + unit) \<times> store" where
  "persist_batch sid [] st = (Inr (), st)"
| "persist_batch sid ((call, Inl e) # rest) st = (Inl e, st)"
| "persist_batch sid ((call, Inr res) # rest) st =
     (case persist_precomputed sid call res st of
        (Inl e, st1) \<Rightarrow> (Inl e, st1)
      | (Inr text, st1) \<Rightarrow> persist_batch sid rest (add_tool_msg sid call text st1))"

text \<open>Collecting the results raises the first exception before anything is persisted.\<close>

definition run_parallel_batch ::
  "'w kernel \<Rightarrow> string \<Rightarrow> tool_call list \<Rightarrow> store \<times> 'w \<Rightarrow> (py_exn + unit) \<times> store \<times> 'w" where
  "run_parallel_batch k sid batch s =
     (case run_batch_fns k batch s of
        (rs, (st1, w1)) \<Rightarrow>
          (case find isl rs of
             Some (Inl e) \<Rightarrow> (Inl e, st1, w1)
           | _ \<Rightarrow> (case persist_batch sid (zip batch rs) st1 of (r, st2) \<Rightarrow> (r, st2, w1))))"

subsection \<open>Pending calls and the approval gate\<close>

definition poll_cancel :: "'w kernel \<Rightarrow> 'w \<Rightarrow> bool \<times> 'w" where
  "poll_cancel k w = (case k_cancel_check k of None \<Rightarrow> (False, w) | Some f \<Rightarrow> f w)"

definition json_call :: "tool_call \<Rightarrow> json" where
  "json_call c = JObj [(''id'', JStr (tc_id c)), (''name'', JStr (tc_name c)), (''arguments'', JObj (tc_arguments c))]"

definition await_approval :: "string \<Rightarrow> string \<Rightarrow> tool_call \<Rightarrow> tool_call list \<Rightarrow> store \<Rightarrow> store" where
  "await_approval sid aid call remaining st =
     note_event sid [(''type'', JStr ''approval_required''), (''tool'', JStr (tc_name call)),
         (''approval_id'', JStr aid), (''args_sha256'', args_sha256 (tc_arguments call))]
       (note_journal sid ''AWAITING_APPROVAL''
          [(''approval_id'', JStr aid), (''tool'', JStr (tc_name call)), (''args'', JObj (tc_arguments call)),
           (''pending'', JArr (map json_call remaining))] st)"

definition approval_event :: "string \<Rightarrow> string \<Rightarrow> tool_call \<Rightarrow> string \<Rightarrow> string \<Rightarrow> store \<Rightarrow> store" where
  "approval_event sid typ call aid approver st =
     note_event sid [(''type'', JStr typ), (''tool'', JStr (tc_name call)), (''approval_id'', JStr aid),
       (''approver'', JStr approver)] st"

definition exec_and_fold ::
  "'w kernel \<Rightarrow> string \<Rightarrow> tool_call \<Rightarrow> store \<times> 'w \<Rightarrow> (py_exn + unit) \<times> store \<times> 'w" where
  "exec_and_fold k sid call s =
     (case execute_call k sid call s of
        (Inl e, s1) \<Rightarrow> (Inl e, s1)
      | (Inr text, (st1, w1)) \<Rightarrow> (Inr (), add_tool_msg sid call text st1, w1))"

text \<open>One call on the sequential path: \<open>Inr (Some aid)\<close> pauses, \<open>Inr None\<close> goes on.\<close>

definition sequential_call ::
  "'w kernel \<Rightarrow> string \<Rightarrow> tool_call \<Rightarrow> tool_call list \<Rightarrow> store \<times> 'w \<Rightarrow>
     (py_exn + string option) \<times> store \<times> 'w" where
  "sequential_call k sid call remaining s =
     (case s of (st, w) \<Rightarrow>
      if \<not> gated k call then
        (case exec_and_fold k sid call (st, w) of
           (Inl e, s1) \<Rightarrow> (Inl e, s1) | (Inr _, s1) \<Rightarrow> (Inr None, s1))
      else
        (let aid = approval_id sid call in
         case approval_get st aid of
           None \<Rightarrow> (Inr (Some aid), await_approval sid aid call remaining st, w)
         | Some (status, approver) \<Rightarrow>
             if status = ''denied'' then
               (Inr None,
                add_tool_msg sid call
                  (''DENIED by approver '' @ approver @ '': action not authorized'')
                  (approval_event sid ''approval_denied_exec'' call aid approver st), w)
             else
               (case exec_and_fold k sid call
                       (approval_event sid ''approval_granted_exec'' call aid approver st, w) of
                  (Inl e, s1) \<Rightarrow> (Inl e, s1) | (Inr _, s1) \<Rightarrow> (Inr None, s1))))"

function execute_pending ::
  "'w kernel \<Rightarrow> string \<Rightarrow> tool_call list \<Rightarrow> store \<times> 'w \<Rightarrow> (py_exn + string option) \<times> store \<times> 'w" where
  "execute_pending k sid [] s = (Inr None, s)"
| "execute_pending k sid (call # rest) s =
     (case s of (st, w) \<Rightarrow>
      (case poll_cancel k w of (cancelled, w1) \<Rightarrow>
       if cancelled then
         (Inr None, note_journal sid ''CANCELLED'' [(''at_call'', JStr (tc_name call))] st, w1)
       else
         (let batch = takeWhile (batch_eligible k) (call # rest) in
          if length batch \<ge> 2 then
            (case run_parallel_batch k sid batch (st, w1) of
               (Inl e, s1) \<Rightarrow> (Inl e, s1)
             | (Inr _, s1) \<Rightarrow> execute_pending k sid (drop (length batch) (call # rest)) s1)
          else
            (case sequential_call k sid call (call # rest) (st, w1) of
               (Inl e, s1) \<Rightarrow> (Inl e, s1)
             | (Inr (Some aid), s1) \<Rightarrow> (Inr (Some aid), s1)
             | (Inr None, s1) \<Rightarrow> execute_pending k sid rest s1))))"
  by pat_completeness auto
termination
  by (relation "measure (\<lambda>(k, sid, calls, s). length calls)") auto

declare execute_pending.simps(2) [simp del]

definition approve :: "string \<Rightarrow> string \<Rightarrow> string \<Rightarrow> store \<Rightarrow> store" where
  "approve sid aid approver st =
     note_event sid [(''type'', JStr ''approval''), (''decision'', JStr ''approved''),
         (''approval_id'', JStr aid), (''approver'', JStr approver)]
       (approval_put st aid sid ''approved'' approver)"

definition deny :: "string \<Rightarrow> string \<Rightarrow> string \<Rightarrow> store \<Rightarrow> store" where
  "deny sid aid approver st =
     note_event sid [(''type'', JStr ''approval''), (''decision'', JStr ''denied''),
         (''approval_id'', JStr aid), (''approver'', JStr approver)]
       (approval_put st aid sid ''denied'' approver)"

subsection \<open>The model call\<close>

definition model_retries :: nat where "model_retries = 3"
definition model_retry_backoff :: int where "model_retry_backoff = 2"

definition is_transient :: "py_exn \<Rightarrow> bool" where
  "is_transient e \<longleftrightarrow>
     (\<exists>c\<in>set [''ConnectionError'', ''ConnectionResetError'', ''ConnectionAbortedError'', ''TimeoutError''].
        isinstance e c) \<or>
     isinstance e ''OSError'' \<and> exn_winerror e \<in> {Some 10053, Some 10054, Some 10060, Some 10061}"

text \<open>The attempts left count down from \<open>model_retries\<close>; the last line of the method is unreachable.\<close>

fun try_model ::
  "'w kernel \<Rightarrow> string \<Rightarrow> nat \<Rightarrow> message list \<Rightarrow> tool_def list \<Rightarrow> nat \<Rightarrow> nat \<Rightarrow> store \<times> 'w \<Rightarrow>
     (py_exn + model_response) \<times> store \<times> 'w" where
  "try_model k sid iteration msgs tls 0 attempt s =
     (Inl (mk_exn ''TypeError'' ''exceptions must derive from BaseException''), s)"
| "try_model k sid iteration msgs tls (Suc n) attempt (st, w) =
     (case k_complete k msgs tls w of
        (Inr resp, w1) \<Rightarrow> (Inr resp, st, w1)
      | (Inl e, w1) \<Rightarrow>
          if \<not> isinstance e ''Exception'' then (Inl e, st, w1)
          else if attempt \<ge> model_retries \<or> \<not> is_transient e then (Inl e, st, w1)
          else try_model k sid iteration msgs tls n (Suc attempt)
                 (note_event sid [(''type'', JStr ''model_retry''), (''iteration'', JInt (int iteration)),
                    (''attempt'', JInt (int attempt)), (''class'', JStr (exn_class e)),
                    (''detail'', JStr (take 160 (exn_msg e)))] st,
                  k_sleep k (model_retry_backoff * int attempt) w1))"

definition model_call_with_retry ::
  "'w kernel \<Rightarrow> string \<Rightarrow> nat \<Rightarrow> message list \<Rightarrow> tool_def list \<Rightarrow> store \<times> 'w \<Rightarrow>
     (py_exn + model_response) \<times> store \<times> 'w" where
  "model_call_with_retry k sid iteration msgs tls s = try_model k sid iteration msgs tls model_retries 1 s"

subsection \<open>The loop\<close>

datatype outcome = Return run_result | Continue "string list"

definition stop_with :: "string \<Rightarrow> nat \<Rightarrow> string \<Rightarrow> store \<times> 'w \<Rightarrow> (py_exn + outcome) \<times> store \<times> 'w" where
  "stop_with sid iteration reason s =
     (case stop_run sid iteration reason (fst s) of (r, st) \<Rightarrow> (Inr (Return r), st, snd s))"

text \<open>No tool calls: finalize, unless the finalize guard names a reason not to.\<close>

definition finish_turn ::
  "'w kernel \<Rightarrow> string \<Rightarrow> nat \<Rightarrow> string list \<Rightarrow> model_response \<Rightarrow> store \<times> 'w \<Rightarrow>
     (py_exn + outcome) \<times> store \<times> 'w" where
  "finish_turn k sid iteration hist resp s =
     (case s of (st, w) \<Rightarrow>
      (case (case k_finalize_guard k of None \<Rightarrow> None | Some g \<Rightarrow> g sid (st, w)) of
         Some (c # cs) \<Rightarrow>
           (let st1 = (if mr_text resp \<noteq> [] then add_message st sid ''assistant'' (mr_text resp) else st);
                st2 = add_message st1 sid ''user'' (c # cs)
            in (Inr (Continue hist),
                note_event sid [(''type'', JStr ''policy''), (''rule'', JStr ''required_children''),
                  (''decision'', JStr ''finalize_refused''), (''reason'', JStr (c # cs))] st2, w))
       | _ \<Rightarrow>
           (let st1 = add_message st sid ''assistant'' (mr_text resp);
                st2 = note_journal sid ''FINALIZE'' [(''iteration'', JInt (int iteration))] st1;
                st3 = note_event sid [(''type'', JStr ''finalize''), (''iteration'', JInt (int iteration))] st2
            in (Inr (Return \<lparr>rr_session = sid, rr_final_text = mr_text resp, rr_iterations = iteration,
                  rr_stopped = ''completed'', rr_pending = None\<rparr>), st3, w))))"

definition tools_turn ::
  "'w kernel \<Rightarrow> string \<Rightarrow> nat \<Rightarrow> string list \<Rightarrow> model_response \<Rightarrow> store \<times> 'w \<Rightarrow>
     (py_exn + outcome) \<times> store \<times> 'w" where
  "tools_turn k sid iteration hist resp s =
     (case s of (st, w) \<Rightarrow>
      (let hist' = hist @ [cycle_signature (mr_tool_calls resp)];
           n = cycle_repeat_threshold (k_guards k)
       in if length hist' \<ge> n \<and> length (remdups (snd (split_recent n hist'))) = 1
          then stop_with sid iteration ''loop_detected'' (st, w)
          else
            (let st1 = (if mr_text resp \<noteq> [] then add_message st sid ''assistant'' (mr_text resp) else st)
             in case execute_pending k sid (mr_tool_calls resp) (st1, w) of
                  (Inl e, s2) \<Rightarrow> (Inl e, s2)
                | (Inr (Some aid), s2) \<Rightarrow>
                    (Inr (Return \<lparr>rr_session = sid, rr_final_text = [], rr_iterations = iteration,
                       rr_stopped = ''awaiting_approval'', rr_pending = Some aid\<rparr>), s2)
                | (Inr None, s2) \<Rightarrow> (Inr (Continue hist'), s2))))"

definition record_response :: "string \<Rightarrow> nat \<Rightarrow> nat \<Rightarrow> model_response \<Rightarrow> store \<Rightarrow> store" where
  "record_response sid iteration sq resp st =
     note_event sid
       [(''type'', JStr ''model_call''), (''iteration'', JInt (int iteration)),
        (''text_sha256'', JStr (sha256_hex (encode (mr_text resp)))),
        (''tool_calls'', JArr (map (\<lambda>c. JStr (tc_name c)) (mr_tool_calls resp))),
        (''in_tokens'', JInt (mr_input_tokens resp)), (''out_tokens'', JInt (mr_output_tokens resp))]
       (note_journal sid ''MODEL_CALL_DONE''
          [(''iteration'', JInt (int iteration)), (''intent_seq'', JInt (int sq)),
           (''tool_calls'', JInt (int (length (mr_tool_calls resp))))] st)"

definition tool_defs :: "'w kernel \<Rightarrow> tool_def list" where
  "tool_defs k = map (\<lambda>(_, t). \<lparr>td_name = ts_name t, td_description = ts_description t,
     td_parameters = ts_parameters t\<rparr>) (k_tools k)"

definition model_turn ::
  "'w kernel \<Rightarrow> string \<Rightarrow> nat \<Rightarrow> string list \<Rightarrow> message list \<Rightarrow> store \<times> 'w \<Rightarrow>
     (py_exn + outcome) \<times> store \<times> 'w" where
  "model_turn k sid iteration hist msgs s =
     (case s of (st, w) \<Rightarrow>
      (case journal_append st sid ''MODEL_CALL_INTENT'' [(''iteration'', JInt (int iteration))] of
         (sq, st1) \<Rightarrow>
      (case model_call_with_retry k sid iteration msgs (tool_defs k) (st1, w) of
         (Inl e, (st2, w2)) \<Rightarrow>
           if isinstance e ''Exception''
           then stop_with sid iteration ''model_error''
                  (note_event sid [(''type'', JStr ''model_error''), (''iteration'', JInt (int iteration)),
                     (''class'', JStr (exn_class e)), (''detail'', JStr (take 200 (exn_msg e)))] st2, w2)
           else (Inl e, st2, w2)
       | (Inr resp, (st2, w2)) \<Rightarrow>
           (let st3 = record_response sid iteration sq resp st2 in
            case total_tokens st3 sid of
              Inl e \<Rightarrow> (Inl e, st3, w2)
            | Inr used \<Rightarrow>
                if used > max_total_tokens (k_guards k)
                then stop_with sid iteration ''budget'' (st3, w2)
                else if mr_tool_calls resp = [] then finish_turn k sid iteration hist resp (st3, w2)
                else tools_turn k sid iteration hist resp (st3, w2)))))"

definition turn ::
  "'w kernel \<Rightarrow> string \<Rightarrow> int \<Rightarrow> nat \<Rightarrow> string list \<Rightarrow> store \<times> 'w \<Rightarrow>
     (py_exn + outcome) \<times> store \<times> 'w" where
  "turn k sid start iteration hist s =
     (case s of (st, w) \<Rightarrow>
      (case poll_cancel k w of (cancelled, w1) \<Rightarrow>
       if cancelled then stop_with sid iteration ''cancelled'' (st, w1)
       else
         (let msgs = assemble_context k st sid in
          if estimate_tokens msgs > max_token_estimate (k_guards k)
          then stop_with sid iteration ''budget'' (st, w1)
          else (case k_monotonic k w1 of (now, w2) \<Rightarrow>
                if now - start > max_wall_seconds (k_guards k)
                then stop_with sid iteration ''wall_clock'' (st, w2)
                else model_turn k sid iteration hist msgs (st, w2)))))"

fun iterate ::
  "'w kernel \<Rightarrow> string \<Rightarrow> int \<Rightarrow> nat \<Rightarrow> nat \<Rightarrow> string list \<Rightarrow> store \<times> 'w \<Rightarrow>
     (py_exn + run_result) \<times> store \<times> 'w" where
  "iterate k sid start 0 iteration hist s =
     (case stop_run sid (max_iterations (k_guards k)) ''max_iterations'' (fst s) of
        (r, st) \<Rightarrow> (Inr r, st, snd s))"
| "iterate k sid start (Suc n) iteration hist s =
     (case turn k sid start iteration hist s of
        (Inl e, s1) \<Rightarrow> (Inl e, s1)
      | (Inr (Return r), s1) \<Rightarrow> (Inr r, s1)
      | (Inr (Continue hist'), s1) \<Rightarrow> iterate k sid start n (Suc iteration) hist' s1)"

definition kernel_loop ::
  "'w kernel \<Rightarrow> string \<Rightarrow> store \<times> 'w \<Rightarrow> (py_exn + run_result) \<times> store \<times> 'w" where
  "kernel_loop k sid s =
     (case s of (st, w) \<Rightarrow>
      (case k_monotonic k w of (start, w1) \<Rightarrow>
         iterate k sid start (max_iterations (k_guards k)) 1 [] (st, w1)))"

definition kernel_run ::
  "'w kernel \<Rightarrow> string \<Rightarrow> string \<Rightarrow> store \<times> 'w \<Rightarrow> (py_exn + run_result) \<times> store \<times> 'w" where
  "kernel_run k sid user_text s =
     kernel_loop k sid
       (note_journal sid ''ASSEMBLE'' [(''task'', JBool True)]
          (add_message (fst s) sid ''user'' user_text), snd s)"

subsection \<open>Resuming after approval\<close>

definition decode_call :: "json \<Rightarrow> py_exn + tool_call" where
  "decode_call j =
     (case (jget j ''id'', jget j ''name'', jget j ''arguments'') of
        (Some (JStr i), Some (JStr n), Some (JObj a)) \<Rightarrow>
          Inr \<lparr>tc_id = i, tc_name = n, tc_arguments = a\<rparr>
      | _ \<Rightarrow> Inl (mk_exn ''KeyError'' ''pending call''))"

fun decode_calls :: "json list \<Rightarrow> py_exn + tool_call list" where
  "decode_calls [] = Inr []"
| "decode_calls (j # js) =
     (case decode_call j of
        Inl e \<Rightarrow> Inl e
      | Inr c \<Rightarrow> (case decode_calls js of Inl e \<Rightarrow> Inl e | Inr cs \<Rightarrow> Inr (c # cs)))"

definition resume_result :: "string \<Rightarrow> string \<Rightarrow> string option \<Rightarrow> run_result" where
  "resume_result sid reason pend =
     \<lparr>rr_session = sid, rr_final_text = [], rr_iterations = 0, rr_stopped = reason, rr_pending = pend\<rparr>"

definition kernel_resume ::
  "'w kernel \<Rightarrow> string \<Rightarrow> store \<times> 'w \<Rightarrow> (py_exn + run_result) \<times> store \<times> 'w" where
  "kernel_resume k sid s =
     (case journal_tail (fst s) sid of
        Inl e \<Rightarrow> (Inl e, s)
      | Inr None \<Rightarrow> (Inr (resume_result sid ''resume_noop'' None), s)
      | Inr (Some tail) \<Rightarrow>
          if je_state tail \<noteq> ''AWAITING_APPROVAL'' then (Inr (resume_result sid ''resume_noop'' None), s)
          else
            (case jget (je_payload tail) ''pending'' of
               Some (JArr pending) \<Rightarrow>
                 (case decode_calls pending of
                    Inl e \<Rightarrow> (Inl e, s)
                  | Inr cs \<Rightarrow>
                      (case execute_pending k sid cs s of
                         (Inl e, s1) \<Rightarrow> (Inl e, s1)
                       | (Inr (Some aid), s1) \<Rightarrow>
                           (Inr (resume_result sid ''awaiting_approval'' (Some aid)), s1)
                       | (Inr None, s1) \<Rightarrow> kernel_loop k sid s1))
             | _ \<Rightarrow> (Inl (mk_exn ''KeyError'' ''pending''), s)))"

subsection \<open>The store invariant, and what every step keeps\<close>

text \<open>Token counts in the ledger are integers, so that adding them up cannot raise.\<close>

definition tokens_ok :: "json \<Rightarrow> bool" where
  "tokens_ok j \<longleftrightarrow> jget j ''type'' = Some (JStr ''model_call'') \<longrightarrow>
     (\<exists>m n. jget j ''in_tokens'' = Some (JInt m) \<and> jget j ''out_tokens'' = Some (JInt n))"

definition tokens_row_ok :: "ledger_row \<Rightarrow> bool" where
  "tokens_row_ok r \<longleftrightarrow> (\<exists>e. loads (lr_event r) = Some (JObj e) \<and> tokens_ok (JObj e))"

definition store_ok :: "store \<Rightarrow> bool" where
  "store_ok st \<longleftrightarrow> journal_ok st \<and> ledger_ok st \<and> (\<forall>r\<in>set (ledger st). tokens_row_ok r)"

definition event_legal :: "dict \<Rightarrow> bool" where
  "event_legal ev \<longleftrightarrow> wf_json (JObj ev) \<and> tokens_ok (JObj ev)"

text \<open>
  \<open>grows st st'\<close>: the invariant holds again and everything durable is still there: journals,
  ledgers and messages are extended, persisted results stay, approvals, seals and jobs are untouched.
\<close>

definition grows :: "store \<Rightarrow> store \<Rightarrow> bool" where
  "grows st st' \<longleftrightarrow> store_ok st' \<and>
     (\<forall>sid. prefix (journal_view st sid) (journal_view st' sid)) \<and>
     (\<forall>sid. prefix (ledger_view st sid) (ledger_view st' sid)) \<and>
     (\<forall>key v. tool_result_get st key = Some v \<longrightarrow> tool_result_get st' key = Some v) \<and>
     approvals st' = approvals st \<and> seals st' = seals st \<and> jobs st' = jobs st \<and>
     prefix (messages st) (messages st')"

lemma grows_refl: "store_ok st \<Longrightarrow> grows st st"
  by (simp add: grows_def)

lemma grows_trans [trans]: "grows a b \<Longrightarrow> grows b c \<Longrightarrow> grows a c"
  unfolding grows_def by (auto intro: prefix_order.trans)

lemma grows_ok: "grows st st' \<Longrightarrow> store_ok st'"
  by (simp add: grows_def)

lemma tokens_ok_sort:
  assumes "event_legal ev"
  shows "tokens_ok (sort_json (JObj ev))"
proof -
  have d: "distinct (map fst ev)" using assms by (simp add: event_legal_def)
  have leaf: "sort_json v = JStr x \<longleftrightarrow> v = JStr x" for v x
    by (cases v) (simp_all add: sort_json.simps)
  have leaf': "sort_json (JInt i) = JInt i" for i by (simp add: sort_json.simps)
  show ?thesis
    using assms by (auto simp: tokens_ok_def event_legal_def dict_get_sort_json [OF d] leaf leaf')
qed

lemma note_event_frame [simp, kernel_defs]:
  "journal (note_event sid ev st) = journal st"
  "seals (note_event sid ev st) = seals st"
  "messages (note_event sid ev st) = messages st"
  "tool_results (note_event sid ev st) = tool_results st"
  "approvals (note_event sid ev st) = approvals st"
  "sessions (note_event sid ev st) = sessions st"
  "jobs (note_event sid ev st) = jobs st"
  by (simp_all add: note_event_def ledger_append_def Let_def split: prod.splits)

lemma note_journal_frame [simp, kernel_defs]:
  "ledger (note_journal sid s p st) = ledger st"
  "seals (note_journal sid s p st) = seals st"
  "messages (note_journal sid s p st) = messages st"
  "tool_results (note_journal sid s p st) = tool_results st"
  "approvals (note_journal sid s p st) = approvals st"
  "sessions (note_journal sid s p st) = sessions st"
  "jobs (note_journal sid s p st) = jobs st"
  by (simp_all add: note_journal_def)

lemma ledger_reads_frame:
  assumes "ledger st' = ledger st"
  shows "ledger_rows st' = ledger_rows st" "ledger_ok st' = ledger_ok st" "ledger_view st' = ledger_view st"
  using assms by (auto simp: fun_eq_iff ledger_rows_def ledger_ok_def ledger_view_def)

lemma store_ok_frame: "journal st' = journal st \<Longrightarrow> ledger st' = ledger st \<Longrightarrow> store_ok st' = store_ok st"
  by (simp add: store_ok_def journal_ok_def ledger_reads_frame [of st' st])

lemmas note_event_reads [simp] = journal_reads_frame [OF note_event_frame(1)]
  tool_result_frame [OF note_event_frame(4)] approval_frame [OF note_event_frame(5)]

lemmas note_journal_reads [simp] = ledger_reads_frame [OF note_journal_frame(1)]
  tool_result_frame [OF note_journal_frame(4)] approval_frame [OF note_journal_frame(5)]

lemmas add_message_reads [simp] = journal_reads_frame [OF add_message_frame(2)]
  tool_result_frame [OF add_message_frame(3)] ledger_reads_frame [OF add_message_frame(4)]
  approval_frame [OF add_message_frame(6)]

lemmas tool_result_put_reads [simp] = journal_reads_frame [OF tool_result_put_frame(3)]
  ledger_reads_frame [OF tool_result_put_frame(4)] approval_frame [OF tool_result_put_frame(6)]

lemma note_event_ok:
  assumes "store_ok st" and "event_legal ev"
  shows "store_ok (note_event sid ev st)"
    and "prefix (ledger_view st k) (ledger_view (note_event sid ev st) k)"
proof -
  have wf: "wf_json (JObj ev)" and l: "ledger_ok st" using assms by (simp_all add: event_legal_def store_ok_def)
  obtain e where "sort_json (JObj ev) = JObj e" by (simp add: sort_json.simps)
  then have "tokens_row_ok (new_row st sid ev)"
    using tokens_ok_sort [OF assms(2)] loads_canonical [OF wf] by (simp add: tokens_row_ok_def)
  then show "store_ok (note_event sid ev st)"
    using assms(1) ledger_append_ok [OF l wf, of sid]
    by (auto simp: store_ok_def)
       (auto simp: note_event_def ledger_append_row [OF l])
  show "prefix (ledger_view st k) (ledger_view (note_event sid ev st) k)"
    using ledger_log.entries_add_prefix [OF l wf, of sid k] by (auto simp: note_event_def prefix_def)
qed

lemma note_event_grows:
  assumes "store_ok st" and "event_legal ev"
  shows "grows st (note_event sid ev st)"
  using note_event_ok [OF assms]
  by (simp add: grows_def)

lemma note_journal_grows:
  assumes "store_ok st" and "wf_json (JObj p)"
  shows "grows st (note_journal sid s p st)"
proof -
  have j: "journal_ok st" using assms by (simp add: store_ok_def)
  have "prefix (journal_view st k) (journal_view (note_journal sid s p st) k)" for k
    using journal_log.entries_add_prefix [OF j, of "(s, p)" sid k] assms(2)
    by (auto simp: note_journal_def prefix_def)
  moreover have "journal_ok (note_journal sid s p st)"
    using journal_append_ok [OF j assms(2)] by (simp add: note_journal_def)
  ultimately show ?thesis
    using assms(1)
    by (simp add: grows_def store_ok_def)
qed

lemma add_message_grows: "store_ok st \<Longrightarrow> grows st (add_message st sid r c)"
  by (simp add: grows_def store_ok_def) (simp add: add_message_def)

lemma tool_result_put_grows: "store_ok st \<Longrightarrow> grows st (tool_result_put st key sid t r)"
  by (simp add: grows_def store_ok_def results_table.put_keeps)

subsection \<open>What the kernel expects of its tools and its adapter\<close>

text \<open>
  A tool keeps the store's invariant, only extends what is durable, and does not write to the journal
  of the session that runs it. An adapter answers with tool calls whose arguments are dictionaries
  as Python has them.
\<close>

definition tool_ok :: "string \<Rightarrow> 'w tool_spec \<Rightarrow> bool" where
  "tool_ok sid spec \<longleftrightarrow>
     (\<forall>args st w r st' w'. store_ok st \<longrightarrow> ts_fn spec args (st, w) = (r, st', w') \<longrightarrow>
        grows st st' \<and> journal_view st' sid = journal_view st sid)"

definition call_ok :: "tool_call \<Rightarrow> bool" where
  "call_ok c \<longleftrightarrow> wf_json (JObj (tc_arguments c))"

definition kernel_ok :: "string \<Rightarrow> 'w kernel \<Rightarrow> bool" where
  "kernel_ok sid k \<longleftrightarrow>
     (\<forall>n spec. dict_get (k_tools k) n = Some spec \<longrightarrow> tool_ok sid spec) \<and>
     (\<forall>msgs tls w resp w'. k_complete k msgs tls w = (Inr resp, w') \<longrightarrow>
        list_all call_ok (mr_tool_calls resp))"

lemma kernel_okD:
  "kernel_ok sid k \<Longrightarrow> dict_get (k_tools k) n = Some spec \<Longrightarrow> tool_ok sid spec"
  "kernel_ok sid k \<Longrightarrow> k_complete k msgs tls w = (Inr resp, w') \<Longrightarrow> list_all call_ok (mr_tool_calls resp)"
  unfolding kernel_ok_def by blast+

subsection \<open>Legal records\<close>

lemma arg_path_keys_shape:
  "set (map fst (arg_path_keys ks args)) \<subseteq> set ks \<and>
   (distinct ks \<longrightarrow> distinct (map fst (arg_path_keys ks args))) \<and>
   (\<forall>p\<in>set (arg_path_keys ks args). wf_json (snd p))"
proof (induction ks)
  case (Cons k ks)
  let ?r = "arg_path_keys ks args"
  have "(\<exists>v. arg_path_keys (k # ks) args = (k, JStr v) # ?r) \<or> arg_path_keys (k # ks) args = ?r"
    by (auto split: option.split json.split)
  then consider (keep) v where "arg_path_keys (k # ks) args = (k, JStr v) # ?r"
    | (skip) "arg_path_keys (k # ks) args = ?r" by blast
  then show ?case
  proof cases
    case keep
    with Cons show ?thesis by (simp only: list.map fst_conv list.set) force
  next
    case skip
    with Cons show ?thesis by (simp only: distinct.simps list.set) blast
  qed
qed simp

lemma arg_path_shape:
  "set (map fst (arg_path args)) \<subseteq> {''path'', ''bundle'', ''url'', ''binary''}"
  "distinct (map fst (arg_path args))" "\<forall>p\<in>set (arg_path args). wf_json (snd p)"
  using arg_path_keys_shape [of "[''path'', ''bundle'', ''url'', ''binary'']" args]
  by (auto simp: arg_path_def)

lemma event_legalI:
  "wf_json (JObj ev) \<Longrightarrow> dict_get ev ''type'' \<noteq> Some (JStr ''model_call'') \<Longrightarrow> event_legal ev"
  by (simp add: event_legal_def tokens_ok_def)

lemma tool_exec_legal:
  "event_legal ([(''type'', JStr ''tool_exec''), (''tool'', JStr t), (''args_sha256'', JStr a),
     (''result_sha256'', JStr r), (''idem_key'', JStr key)] @
     (if par then [(''parallel'', JBool True)] else []) @ arg_path args)"
  using arg_path_shape [of args] by (intro event_legalI) (auto simp: image_iff subset_iff)

lemma intent_payload_wf: "call_ok call \<Longrightarrow> wf_json (JObj (intent_payload sid call idem q))"
  by (simp add: intent_payload_def call_ok_def)

lemma json_call_wf: "call_ok call \<Longrightarrow> wf_json (json_call call)"
  by (simp add: json_call_def call_ok_def)

subsection \<open>One call\<close>

lemma tail_seq:
  assumes "journal_ok st" and "journal_tail st sid = Inr tail"
  shows "(case tail of None \<Rightarrow> 0 | Some t \<Rightarrow> je_seq t) = length (journal_rows st sid)"
proof (cases "journal_rows st sid" rule: rev_cases)
  case (snoc rs r)
  then obtain t where t: "tail = Some t" "decode_row r = Inr t"
    using assms(2) by (auto simp: journal_tail_def split: sum.splits)
  have "jr_seq r = length (journal_rows st sid)"
    using journal_numbered [OF assms(1), of sid] snoc by (auto dest!: arg_cong [of _ _ last])
  with t show ?thesis by (auto simp: decode_row_def split: option.splits)
qed (use assms in \<open>simp add: journal_tail_def\<close>)

lemma write_intent_eq:
  fixes sid :: string
  assumes ok: "store_ok st" and c: "call_ok call"
  defines "q \<equiv> Suc (length (journal_rows st sid))"
  shows "write_intent sid call idem st =
    (Inr (q, idem_key sid q (tc_name call) (tc_arguments call)),
     note_journal sid ''EXEC_INTENT'' (intent_payload sid call idem q) st)"
proof -
  have j: "journal_ok st" using ok by (simp add: store_ok_def)
  obtain tail where tail: "journal_tail st sid = Inr tail" using journal_tail_ok [OF j] by blast
  have q: "(case tail of None \<Rightarrow> 0 | Some t \<Rightarrow> je_seq t) + 1 = q" using tail_seq [OF j tail] by (simp add: q_def)
  let ?p = "intent_payload sid call idem q"
  have wf: "wf_json (JObj ?p)" using c by (rule intent_payload_wf)
  then have d: "distinct (map fst ?p)" by simp
  obtain es where es: "journal_all st sid = Inr es" using journal_all_ok [OF j] by blast
  have ap: "journal_append st sid ''EXEC_INTENT'' ?p = (q, note_journal sid ''EXEC_INTENT'' ?p st)"
    using journal_append_seq [OF j] by (simp add: prod_eq_iff note_journal_def q_def)
  have "jget (sort_json (JObj ?p)) ''idem_key'' = Some (JStr (idem_key sid q (tc_name call) (tc_arguments call)))"
    using dict_get_sort_json [OF d, of "''idem_key''"] by (simp add: intent_payload_def sort_json.simps)
  then show ?thesis
    using journal_all_append [OF j wf es, of "''EXEC_INTENT''"] tail ap
    by (simp only: write_intent_def sum.case q Let_def prod.case note_journal_def [symmetric])
       simp
qed

lemma ledger_tool_error_grows: "store_ok st \<Longrightarrow> grows st (ledger_tool_error sid t r st)"
  by (auto simp: ledger_tool_error_def grows_refl intro!: note_event_grows event_legalI)

lemma ledger_tool_error_frame [simp]:
  "journal (ledger_tool_error sid t r st) = journal st"
  "tool_results (ledger_tool_error sid t r st) = tool_results st"
  by (simp_all add: ledger_tool_error_def)

lemma close_exec_grows:
  assumes "store_ok st"
  shows "grows st (close_exec sid call sq key par r st)"
proof -
  let ?j = "note_journal sid ''EXEC_DONE'' [(''intent_seq'', JInt (int sq)), (''idem_key'', JStr key)] st"
  have 1: "grows st ?j" using assms by (rule note_journal_grows) simp
  let ?e = "note_event sid ([(''type'', JStr ''tool_exec''), (''tool'', JStr (tc_name call)),
            (''args_sha256'', args_sha256 (tc_arguments call)),
            (''result_sha256'', JStr (sha256_hex (encode r))), (''idem_key'', JStr key)] @
           (if par then [(''parallel'', JBool True)] else []) @ arg_path (tc_arguments call)) ?j"
  have 2: "grows ?j ?e" unfolding args_sha256_def
    by (rule note_event_grows [OF grows_ok [OF 1] tool_exec_legal])
  have 3: "grows ?e (ledger_tool_error sid (tc_name call) r ?e)"
    by (rule ledger_tool_error_grows [OF grows_ok [OF 2]])
  show ?thesis unfolding close_exec_def using 1 2 3 by (blast intro: grows_trans)
qed

lemma run_tool_fn_grows:
  assumes "tool_ok sid spec" "store_ok st" "run_tool_fn spec call (st, w) = (r, st', w')"
  shows "grows st st' \<and> journal_view st' sid = journal_view st sid \<and>
    (\<forall>e. r = Inl e \<longrightarrow> \<not> isinstance e ''Exception'')"
  using assms by (auto simp: run_tool_fn_def tool_ok_def split: prod.splits sum.splits if_splits) blast+

lemma cap_check_Inr:
  "cap_check k call = Inr spec \<longleftrightarrow>
     check_tool (k_manifest k) (tc_name call) = Inr () \<and> dict_get (k_tools k) (tc_name call) = Some spec \<and>
     check_classification (k_manifest k) (ts_classification spec) = Inr ()"
  by (auto simp: cap_check_def split: sum.splits option.splits)

subsection \<open>Authorised growth\<close>

text \<open>
  A call is authorised when its capability check passes and, if a policy gates it, an approval that
  is not a denial is on record for its approval id. \<open>extends k sid st st'\<close>: the store grew, and
  every execution intent added to the session's journal is that of an authorised call.
\<close>

definition approved :: "'w kernel \<Rightarrow> string \<Rightarrow> store \<Rightarrow> tool_call \<Rightarrow> bool" where
  "approved k sid st call \<longleftrightarrow>
     (gated k call \<longrightarrow> (\<exists>s a. approval_get st (approval_id sid call) = Some (s, a) \<and> s \<noteq> ''denied''))"

definition authorized :: "'w kernel \<Rightarrow> string \<Rightarrow> store \<Rightarrow> tool_call \<Rightarrow> bool" where
  "authorized k sid st call \<longleftrightarrow> (\<exists>spec. cap_check k call = Inr spec) \<and> approved k sid st call"

definition intent_ok :: "'w kernel \<Rightarrow> string \<Rightarrow> store \<Rightarrow> nat \<times> string \<times> json option \<Rightarrow> bool" where
  "intent_ok k sid st x \<longleftrightarrow> (fst (snd x) = ''EXEC_INTENT'' \<longrightarrow>
     (\<exists>call idem. authorized k sid st call \<and>
        snd (snd x) = Some (sort_json (JObj (intent_payload sid call idem (fst x))))))"

definition extends :: "'w kernel \<Rightarrow> string \<Rightarrow> store \<Rightarrow> store \<Rightarrow> bool" where
  "extends k sid st st' \<longleftrightarrow> grows st st' \<and>
     (\<exists>es. journal_view st' sid = journal_view st sid @ es \<and> (\<forall>x\<in>set es. intent_ok k sid st x))"

lemma extendsI:
  assumes "grows st st'" "journal_view st' sid = journal_view st sid @ es" "\<forall>x\<in>set es. intent_ok k sid st x"
  shows "extends k sid st st'"
  using assms by (auto simp: extends_def)

lemma extends_same: "grows st st' \<Longrightarrow> journal_view st' sid = journal_view st sid \<Longrightarrow> extends k sid st st'"
  by (rule extendsI [of _ _ _ "[]"]) simp_all

lemma extends_refl: "store_ok st \<Longrightarrow> extends k sid st st"
  by (simp add: extends_same grows_refl)

lemma extends_grows: "extends k sid st st' \<Longrightarrow> grows st st'"
  by (simp add: extends_def)

lemma extends_ok: "extends k sid st st' \<Longrightarrow> store_ok st'"
  by (rule grows_ok [OF extends_grows])

lemma approved_frame: "approvals st' = approvals st \<Longrightarrow> approved k sid st' call = approved k sid st call"
  by (simp add: approved_def approval_get_def)

lemma intent_ok_frame: "approvals st' = approvals st \<Longrightarrow> intent_ok k sid st' x = intent_ok k sid st x"
  by (simp add: intent_ok_def authorized_def approved_frame [of st' st])

lemma extends_approved: "extends k sid st st' \<Longrightarrow> approved k sid st' call = approved k sid st call"
  by (rule approved_frame) (simp add: extends_def grows_def)

lemma batch_eligible_authorized: "batch_eligible k call \<Longrightarrow> authorized k sid st call"
  by (auto simp: batch_eligible_def authorized_def approved_def cap_check_Inr split: option.splits)

lemma run_tool_fn_ext:
  assumes "tool_ok sid spec" "store_ok st" "run_tool_fn spec call (st, w) = (r, st', w')"
  shows "extends k sid st st' \<and> (\<forall>e. r = Inl e \<longrightarrow> \<not> isinstance e ''Exception'')"
  using run_tool_fn_grows [OF assms] by (simp add: extends_same)

lemma extends_trans:
  assumes "extends k sid a b" and "extends k sid b c"
  shows "extends k sid a c"
proof -
  from assms(1) obtain es where es: "journal_view b sid = journal_view a sid @ es"
    "\<forall>x\<in>set es. intent_ok k sid a x" by (auto simp: extends_def)
  from assms(2) obtain fs where fs: "journal_view c sid = journal_view b sid @ fs"
    "\<forall>x\<in>set fs. intent_ok k sid b x" by (auto simp: extends_def)
  have "approvals b = approvals a" using assms(1) by (simp add: extends_def grows_def)
  with es fs intent_ok_frame [of b a k sid] grows_trans [OF extends_grows [OF assms(1)] extends_grows [OF assms(2)]]
  show ?thesis by (intro extendsI [of a c sid "es @ fs"]) auto
qed

lemma journal_view_note:
  assumes "store_ok st" "wf_json (JObj p)"
  shows "journal_view (note_journal sid s p st) sid =
    journal_view st sid @ [(Suc (length (journal_rows st sid)), s, Some (sort_json (JObj p)))]"
  using journal_log.entries_add [of st "(s, p)" sid] assms
  by (simp add: store_ok_def note_journal_def journal_view_def)

lemma note_journal_ext:
  assumes "store_ok st" "wf_json (JObj p)" "s \<noteq> ''EXEC_INTENT''"
  shows "extends k sid st (note_journal sid s p st)"
  by (rule extendsI [OF note_journal_grows [OF assms(1,2)] journal_view_note [OF assms(1,2)]])
     (simp add: intent_ok_def assms(3))

lemma intent_ext:
  assumes "store_ok st" "call_ok call" "authorized k sid st call"
  shows "extends k sid st (note_journal sid ''EXEC_INTENT''
     (intent_payload sid call idem (Suc (length (journal_rows st sid)))) st)"
  using note_journal_grows [OF assms(1) intent_payload_wf [OF assms(2)]]
    journal_view_note [OF assms(1) intent_payload_wf [OF assms(2)]]
  by (rule extendsI) (use assms(3) in \<open>auto simp: intent_ok_def\<close>)

lemma note_event_ext:
  "store_ok st \<Longrightarrow> event_legal ev \<Longrightarrow> extends k sid st (note_event sid ev st)"
  by (simp add: extends_same note_event_grows)

lemma add_message_ext: "store_ok st \<Longrightarrow> extends k sid st (add_message st sid r c)"
  by (simp add: extends_same add_message_grows)

lemma tool_result_put_ext: "store_ok st \<Longrightarrow> extends k sid st (tool_result_put st key sid t r)"
  by (simp add: extends_same tool_result_put_grows)

lemma close_exec_ext:
  assumes "store_ok st"
  shows "extends k sid st (close_exec sid call sq key par r st)"
proof -
  have "journal_view (close_exec sid call sq key par r st) sid = journal_view (note_journal sid ''EXEC_DONE''
      [(''intent_seq'', JInt (int sq)), (''idem_key'', JStr key)] st) sid"
    by (simp add: close_exec_def journal_view_def journal_rows_def)
  then show ?thesis
    using journal_view_note [OF assms] close_exec_grows [OF assms]
    by (intro extendsI [of _ _ _ "[(Suc (length (journal_rows st sid)), ''EXEC_DONE'',
          Some (sort_json (JObj [(''intent_seq'', JInt (int sq)), (''idem_key'', JStr key)])))]"])
       (auto simp: intent_ok_def)
qed

subsection \<open>Every operation extends the store and folds ordinary exceptions\<close>

definition safe :: "'w kernel \<Rightarrow> string \<Rightarrow> store \<Rightarrow> (py_exn + 'a) \<times> store \<times> 'w \<Rightarrow> bool" where
  "safe k sid st x \<longleftrightarrow> extends k sid st (fst (snd x)) \<and> (\<forall>e. fst x = Inl e \<longrightarrow> \<not> isinstance e ''Exception'')"

lemma safe_Inr [simp]: "safe k sid st (Inr a, st', w) \<longleftrightarrow> extends k sid st st'"
  by (simp add: safe_def)

lemma safe_Inl [simp]: "safe k sid st (Inl e, st', w) \<longleftrightarrow> extends k sid st st' \<and> \<not> isinstance e ''Exception''"
  by (simp add: safe_def)

lemma safe_trans: "extends k sid st st' \<Longrightarrow> safe k sid st' x \<Longrightarrow> safe k sid st x"
  by (auto simp: safe_def intro: extends_trans)

lemma safe_ok: "safe k sid st (r, st', w) \<Longrightarrow> store_ok st'"
  by (auto simp: safe_def dest: extends_ok)

lemma note_event_extI:
  "store_ok st \<Longrightarrow> wf_json (JObj ev) \<Longrightarrow> dict_get ev ''type'' \<noteq> Some (JStr ''model_call'') \<Longrightarrow>
   extends k sid st (note_event sid ev st)"
  by (intro note_event_ext event_legalI)

lemma execute_call_granted:
  fixes sid :: string
  assumes "store_ok st" "call_ok call" "cap_check k call = Inr spec"
  defines "q \<equiv> Suc (length (journal_rows st sid))"
  defines "key \<equiv> idem_key sid q (tc_name call) (tc_arguments call)"
  defines "st1 \<equiv> note_journal sid ''EXEC_INTENT'' (intent_payload sid call (ts_idempotent spec) q) st"
  shows "execute_call k sid call (st, w) =
    (case tool_result_get st key of
       Some cached \<Rightarrow> (Inr cached, close_exec sid call q key False cached st1, w)
     | None \<Rightarrow>
         (case run_tool_fn spec call (st1, w) of
            (Inl e, s2) \<Rightarrow> (Inl e, s2)
          | (Inr result, (st2, w2)) \<Rightarrow>
              (Inr result, close_exec sid call q key False result
                 (tool_result_put st2 key sid (tc_name call) result), w2)))"
  using assms(3) write_intent_eq [OF assms(1,2), of sid "ts_idempotent spec"]
  unfolding execute_call_def q_def key_def st1_def by simp

lemma execute_call_safe:
  assumes k: "kernel_ok sid k" and st: "store_ok st" and c: "call_ok call"
    and a: "approved k sid st call"
  shows "safe k sid st (execute_call k sid call (st, w))"
proof (cases "cap_check k call")
  case (Inl e)
  then show ?thesis using st by (simp add: execute_call_def note_event_extI)
next
  case (Inr spec)
  define q where "q = Suc (length (journal_rows st sid))"
  define key where "key = idem_key sid q (tc_name call) (tc_arguments call)"
  define st1 where "st1 = note_journal sid ''EXEC_INTENT'' (intent_payload sid call (ts_idempotent spec) q) st"
  have g1: "extends k sid st st1" 
    unfolding st1_def q_def by (rule intent_ext [OF st c]) (use a Inr in \<open>auto simp: authorized_def\<close>)
  note ok1 = extends_ok [OF g1]
  have ts: "tool_ok sid spec" using k Inr by (auto simp: cap_check_Inr intro: kernel_okD(1))
  show ?thesis
  proof (cases "tool_result_get st key")
    case (Some v)
    then show ?thesis
      using execute_call_granted [OF st c Inr] extends_trans [OF g1 close_exec_ext [OF ok1]]
      by (simp add: key_def q_def st1_def)
  next
    case None
    obtain r st2 w2 where run: "run_tool_fn spec call (st1, w) = (r, st2, w2)" by (cases "run_tool_fn spec call (st1, w)")
    note fn = run_tool_fn_ext [OF ts ok1 run]
    let ?p = "tool_result_put st2 key sid (tc_name call)"
    have "extends k sid st1 (close_exec sid call q key False v (?p v))" for v
      using fn tool_result_put_ext close_exec_ext by (meson extends_ok extends_trans)
    with g1 None run fn show ?thesis
      using execute_call_granted [OF st c Inr, of sid w]
      by (cases r) (auto simp: key_def q_def st1_def intro: extends_trans)
  qed
qed

lemma add_tool_msg_ext: "store_ok st \<Longrightarrow> extends k sid st (add_tool_msg sid call r st)"
  by (simp add: add_tool_msg_def add_message_ext)

lemma exec_and_fold_safe:
  assumes "kernel_ok sid k" "store_ok st" "call_ok call" "approved k sid st call"
  shows "safe k sid st (exec_and_fold k sid call (st, w))"
proof -
  obtain r st1 w1 where e: "execute_call k sid call (st, w) = (r, st1, w1)" by (cases "execute_call k sid call (st, w)")
  with execute_call_safe [OF assms, of w] show ?thesis
    by (cases r) (auto simp: exec_and_fold_def intro: extends_trans add_tool_msg_ext extends_ok)
qed

lemma persist_precomputed_safe:
  assumes "store_ok st" "call_ok call" "authorized k sid st call"
  shows "\<exists>r st'. persist_precomputed sid call pre st = (Inr r, st') \<and> extends k sid st st'"
proof -
  let ?q = "Suc (length (journal_rows st sid))"
  let ?st1 = "note_journal sid ''EXEC_INTENT'' (intent_payload sid call True ?q) st"
  have g1: "extends k sid st ?st1" using assms by (rule intent_ext)
  note ok1 = extends_ok [OF g1]
  have "extends k sid ?st1 (close_exec sid call n key True r (tool_result_put ?st1 key sid t r))"
      "extends k sid ?st1 (close_exec sid call n key True r ?st1)" for n key r t
    using tool_result_put_ext close_exec_ext ok1 by (meson extends_ok extends_trans)+
  with g1 write_intent_eq [OF assms(1,2), of sid True] show ?thesis
    by (auto simp: persist_precomputed_def intro: extends_trans split: option.split)
qed

lemma run_batch_fns_ext:
  assumes "kernel_ok sid k"
  shows "store_ok st \<Longrightarrow> list_all (batch_eligible k) cs \<Longrightarrow> run_batch_fns k cs (st, w) = (rs, st', w') \<Longrightarrow>
    extends k sid st st' \<and> length rs = length cs \<and> (\<forall>e. Inl e \<in> set rs \<longrightarrow> \<not> isinstance e ''Exception'')"
proof (induction cs arbitrary: st w rs)
  case Nil
  then show ?case by (auto simp: extends_refl)
next
  case (Cons c cs)
  from Cons.prems obtain spec where spec: "dict_get (k_tools k) (tc_name c) = Some spec"
    by (auto simp: batch_eligible_def split: option.splits)
  obtain r st1 w1 where run: "run_tool_fn spec c (st, w) = (r, st1, w1)" by (cases "run_tool_fn spec c (st, w)")
  obtain rs' where rs': "run_batch_fns k cs (st1, w1) = (rs', st', w')" "rs = r # rs'"
    using Cons.prems(3) spec run by (auto split: prod.splits)
  note g = run_tool_fn_ext [OF kernel_okD(1) [OF assms spec] Cons.prems(1) run]
  from Cons.IH [OF extends_ok [OF conjunct1 [OF g]] _ rs'(1)] Cons.prems(2) g rs'(2) show ?case
    by (auto intro: extends_trans)
qed

lemma persist_batch_safe:
  "store_ok st \<Longrightarrow> list_all (call_ok \<circ> fst) xs \<Longrightarrow> \<forall>x\<in>set xs. \<not> isl (snd x) \<Longrightarrow>
   \<forall>x\<in>set xs. batch_eligible k (fst x) \<Longrightarrow>
   \<exists>st'. persist_batch sid xs st = (Inr (), st') \<and> extends k sid st st'"
proof (induction sid xs st rule: persist_batch.induct)
  case (3 sid call res rest st)
  have c: "call_ok call" using "3.prems"(2) by simp
  have a: "authorized k sid st call" using "3.prems"(4) by (simp add: batch_eligible_authorized)
  obtain r st1 where p: "persist_precomputed sid call res st = (Inr r, st1)" "extends k sid st st1"
    using persist_precomputed_safe [OF "3.prems"(1) c a] by blast
  have g: "extends k sid st1 (add_tool_msg sid call r st1)" using p(2) by (simp add: add_tool_msg_ext extends_ok)
  have "\<exists>st'. persist_batch sid rest (add_tool_msg sid call r st1) = (Inr (), st') \<and>
      extends k sid (add_tool_msg sid call r st1) st'"
    using "3.prems"(2-4) by (intro "3.IH" [OF p(1) [symmetric] refl extends_ok [OF g]]) auto
  then obtain st' where "persist_batch sid rest (add_tool_msg sid call r st1) = (Inr (), st')"
    "extends k sid (add_tool_msg sid call r st1) st'" by blast
  with p g show ?case by (auto intro: extends_trans)
qed (auto simp: extends_refl)

lemma run_parallel_batch_safe:
  assumes k: "kernel_ok sid k" and st: "store_ok st"
    and cs: "list_all (batch_eligible k) cs" "list_all call_ok cs"
  shows "safe k sid st (run_parallel_batch k sid cs (st, w))"
proof -
  obtain rs st1 w1 where run: "run_batch_fns k cs (st, w) = (rs, st1, w1)" by (cases "run_batch_fns k cs (st, w)")
  note g = run_batch_fns_ext [OF k st cs(1) run]
  show ?thesis
  proof (cases "find isl rs")
    case None
    then have "\<forall>x\<in>set (zip cs rs). \<not> isl (snd x)" by (auto simp: find_None_iff dest: set_zip_rightD)
    moreover have "list_all (call_ok \<circ> fst) (zip cs rs)"
      using cs(2) by (auto simp: list_all_iff dest: set_zip_leftD)
    moreover have "\<forall>x\<in>set (zip cs rs). batch_eligible k (fst x)"
      using cs(1) by (auto simp: list_all_iff dest: set_zip_leftD)
    ultimately obtain st2 where "persist_batch sid (zip cs rs) st1 = (Inr (), st2)" "extends k sid st1 st2"
      using persist_batch_safe [of st1 "zip cs rs" k sid] extends_ok [OF conjunct1 [OF g]] by blast
    with g run None show ?thesis by (auto simp: run_parallel_batch_def intro: extends_trans)
  next
    case (Some r)
    then obtain e where "r = Inl e" "Inl e \<in> set rs" by (auto dest!: find_SomeD simp: isl_def)
    with g run Some show ?thesis by (auto simp: run_parallel_batch_def)
  qed
qed

lemma await_approval_ext:
  assumes "store_ok st" "call_ok call" "list_all call_ok remaining"
  shows "extends k sid st (await_approval sid aid call remaining st)"
proof -
  have "\<forall>x\<in>set (map json_call remaining). wf_json x"
    using assms(3) by (auto simp: list_all_iff json_call_wf)
  then have "extends k sid st (note_journal sid ''AWAITING_APPROVAL''
          [(''approval_id'', JStr aid), (''tool'', JStr (tc_name call)), (''args'', JObj (tc_arguments call)),
           (''pending'', JArr (map json_call remaining))] st)" (is "extends k sid st ?j")
    using assms by (intro note_journal_ext) (auto simp: call_ok_def)
  moreover from this have "extends k sid ?j (await_approval sid aid call remaining st)"
    unfolding await_approval_def by (intro note_event_extI) (auto simp: args_sha256_def dest: extends_ok)
  ultimately show ?thesis by (rule extends_trans)
qed

lemma approval_event_ext: "store_ok st \<Longrightarrow> typ \<noteq> ''model_call'' \<Longrightarrow> extends k sid st (approval_event sid typ call aid a st)"
  unfolding approval_event_def by (intro note_event_extI) auto

lemma sequential_call_safe:
  assumes k: "kernel_ok sid k" and st: "store_ok st" and c: "call_ok call" "list_all call_ok remaining"
  shows "safe k sid st (sequential_call k sid call remaining (st, w))"
proof -
  have exec: "safe k sid st' (case exec_and_fold k sid call (st', w) of
      (Inl e, s1) \<Rightarrow> (Inl e, s1) | (Inr _, s1) \<Rightarrow> (Inr (None :: string option), s1))"
    if "store_ok st'" "approved k sid st' call" for st'
    using exec_and_fold_safe [OF k that(1) c(1) that(2), of w]
    by (cases "exec_and_fold k sid call (st', w)") (auto split: sum.split)
  let ?aid = "approval_id sid call"
  consider (free) "\<not> gated k call" | (pause) "gated k call" "approval_get st ?aid = None"
    | (denied) a where "gated k call" "approval_get st ?aid = Some (''denied'', a)"
    | (granted) s a where "gated k call" "approval_get st ?aid = Some (s, a)" "s \<noteq> ''denied''"
    by (metis option.exhaust prod.exhaust)
  then show ?thesis
  proof cases
    case free
    with exec [OF st] show ?thesis by (simp add: sequential_call_def approved_def)
  next
    case pause
    with await_approval_ext [OF st c, of k sid] show ?thesis by (simp add: sequential_call_def Let_def)
  next
    case denied
    have g: "extends k sid st (approval_event sid ''approval_denied_exec'' call ?aid a st)"
      using st by (simp add: approval_event_ext)
    from extends_trans [OF g add_tool_msg_ext [OF extends_ok [OF g]]] denied show ?thesis
      by (simp add: sequential_call_def Let_def)
  next
    case granted
    have g: "extends k sid st (approval_event sid ''approval_granted_exec'' call ?aid a st)"
      using st by (simp add: approval_event_ext)
    have "approved k sid st call" using granted by (simp add: approved_def)
    with safe_trans [OF g exec [OF extends_ok [OF g]]] extends_approved [OF g] granted show ?thesis by (simp add: sequential_call_def Let_def)
  qed
qed

lemma execute_pending_safe:
  assumes k: "kernel_ok sid k"
  shows "store_ok st \<Longrightarrow> list_all call_ok cs \<Longrightarrow> safe k sid st (execute_pending k sid cs (st, w))"
proof (induction "length cs" arbitrary: cs st w rule: less_induct)
  case less
  show ?case
  proof (cases cs)
    case Nil
    then show ?thesis using less.prems by (simp add: extends_refl)
  next
    case (Cons call rest)
    obtain b w1 where p: "poll_cancel k w = (b, w1)" by (cases "poll_cancel k w")
    let ?batch = "takeWhile (batch_eligible k) cs"
    have step: "safe k sid st (execute_pending k sid ds (st', w'))"
      if "extends k sid st st'" "length ds < length cs" "list_all call_ok ds" for ds st' w'
      using less.hyps [OF that(2) extends_ok [OF that(1)] that(3)] that(1) by (blast intro: safe_trans)
    consider (cancel) b | (batch) "\<not> b" "length ?batch \<ge> 2" | (single) "\<not> b" "\<not> length ?batch \<ge> 2" by blast
    then show ?thesis
    proof cases
      case cancel
      then show ?thesis using p Cons note_journal_ext [OF less.prems(1), of "[(''at_call'', JStr (tc_name call))]" "''CANCELLED''" k sid]
        by (simp add: execute_pending.simps)
    next
      case batch
      have el: "list_all (batch_eligible k) ?batch" "list_all call_ok ?batch"
        using less.prems(2) by (auto simp: list_all_iff dest: set_takeWhileD)
      have "list_all call_ok (drop (length ?batch) cs)"
        using less.prems(2) by (auto simp: list_all_iff dest: in_set_dropD)
      moreover have "length (drop (length ?batch) cs) < length cs" using batch Cons by simp
      moreover obtain r st1 w2 where run: "run_parallel_batch k sid ?batch (st, w1) = (r, st1, w2)"
        by (cases "run_parallel_batch k sid ?batch (st, w1)")
      ultimately show ?thesis
        using run_parallel_batch_safe [OF k less.prems(1) el, of w1] p batch step [of st1 "drop (length ?batch) cs" w2]
        by (cases r) (auto simp: Cons execute_pending.simps(2) Let_def)
    next
      case single
      have co: "call_ok call" "list_all call_ok (call # rest)" "list_all call_ok rest"
        using less.prems(2) Cons by simp_all
      obtain r st1 w2 where run: "sequential_call k sid call (call # rest) (st, w1) = (r, st1, w2)"
        by (cases "sequential_call k sid call (call # rest) (st, w1)")
      from sequential_call_safe [OF k less.prems(1) co(1,2), of w1] run p single co(3) step [of st1 rest w2]
      show ?thesis
        by (auto simp: Cons execute_pending.simps(2) Let_def safe_def split: sum.splits option.splits)
    qed
  qed
qed

lemma try_model_safe:
  assumes "kernel_ok sid k"
  shows "store_ok st \<Longrightarrow> try_model k sid i msgs tls n a (st, w) = (r, st', w') \<Longrightarrow>
    extends k sid st st' \<and> (\<forall>resp. r = Inr resp \<longrightarrow> list_all call_ok (mr_tool_calls resp))"
proof (induction n arbitrary: a st w)
  case 0
  then show ?case by (auto simp: extends_refl)
next
  case (Suc n)
  obtain x w1 where x: "k_complete k msgs tls w = (x, w1)" by (cases "k_complete k msgs tls w")
  show ?case
  proof (cases x)
    case (Inr resp)
    with Suc.prems x kernel_okD(2) [OF assms] show ?thesis by (auto simp: extends_refl)
  next
    case (Inl e)
    let ?st1 = "note_event sid [(''type'', JStr ''model_retry''), (''iteration'', JInt (int i)),
        (''attempt'', JInt (int a)), (''class'', JStr (exn_class e)), (''detail'', JStr (take 160 (exn_msg e)))] st"
    have g: "extends k sid st ?st1" using Suc.prems(1) by (intro note_event_extI) auto
    show ?thesis
      using Suc.prems x Inl Suc.IH [OF extends_ok [OF g]] g
      by (auto simp: extends_refl split: if_splits intro: extends_trans)
  qed
qed

lemma stop_with_safe:
  assumes "store_ok st"
  shows "safe k sid st (stop_with sid i reason (st, w))"
proof -
  let ?j = "note_journal sid ''STOPPED'' [(''reason'', JStr reason)] st"
  have "extends k sid st ?j" using assms by (intro note_journal_ext) simp_all
  moreover from this have "extends k sid ?j (note_event sid [(''type'', JStr ''stopped''), (''reason'', JStr reason)] ?j)"
    by (intro note_event_extI) (auto dest: extends_ok)
  ultimately show ?thesis by (auto simp: stop_with_def stop_run_def intro: extends_trans)
qed

lemma finish_turn_safe:
  assumes "store_ok st"
  shows "safe k sid st (finish_turn k sid i hist resp (st, w))"
proof -
  have fin: "extends k sid st (note_event sid [(''type'', JStr ''finalize''), (''iteration'', JInt (int i))]
      (note_journal sid ''FINALIZE'' [(''iteration'', JInt (int i))] (add_message st sid r c)))" for r c
    using assms by (intro extends_trans [OF add_message_ext extends_trans [OF note_journal_ext note_event_extI]])
      (auto intro!: extends_ok [OF add_message_ext] extends_ok [OF note_journal_ext])
  have ref: "store_ok st1 \<Longrightarrow> extends k sid st1 (note_event sid [(''type'', JStr ''policy''), (''rule'', JStr ''required_children''),
      (''decision'', JStr ''finalize_refused''), (''reason'', JStr reason)] (add_message st1 sid ''user'' reason))"
    for st1 reason
    by (intro extends_trans [OF add_message_ext note_event_extI]) (auto intro!: extends_ok [OF add_message_ext])
  let ?g = "case k_finalize_guard k of None \<Rightarrow> None | Some g \<Rightarrow> g sid (st, w)"
  consider (refused) c cs where "?g = Some (c # cs)" | (allowed) "?g = None \<or> ?g = Some []"
    by (metis list.exhaust option.exhaust)
  then show ?thesis
  proof cases
    case refused
    let ?st1 = "if mr_text resp \<noteq> [] then add_message st sid ''assistant'' (mr_text resp) else st"
    have g: "extends k sid st ?st1" using assms by (simp add: add_message_ext extends_refl)
    from refused extends_trans [OF g ref [OF extends_ok [OF g]]] show ?thesis
      unfolding finish_turn_def Let_def by simp
  next
    case allowed
    with fin show ?thesis by (auto simp: finish_turn_def Let_def)
  qed
qed

lemma tools_turn_safe:
  assumes "kernel_ok sid k" "store_ok st" "list_all call_ok (mr_tool_calls resp)"
  shows "safe k sid st (tools_turn k sid i hist resp (st, w))"
proof -
  let ?st1 = "if mr_text resp \<noteq> [] then add_message st sid ''assistant'' (mr_text resp) else st"
  have g: "extends k sid st ?st1" using assms(2) by (simp add: add_message_ext extends_refl)
  obtain r st2 w2 where e: "execute_pending k sid (mr_tool_calls resp) (?st1, w) = (r, st2, w2)"
    by (cases "execute_pending k sid (mr_tool_calls resp) (?st1, w)")
  have "safe k sid st (r, st2, w2)"
    using execute_pending_safe [OF assms(1) extends_ok [OF g] assms(3), of w] e safe_trans [OF g] by metis
  with e have "safe k sid st (case execute_pending k sid (mr_tool_calls resp) (?st1, w) of
        (Inl e, s2) \<Rightarrow> (Inl e, s2)
      | (Inr (Some aid), s2) \<Rightarrow>
          (Inr (Return \<lparr>rr_session = sid, rr_final_text = [], rr_iterations = i,
             rr_stopped = ''awaiting_approval'', rr_pending = Some aid\<rparr>), s2)
      | (Inr None, s2) \<Rightarrow> (Inr (Continue (hist @ [cycle_signature (mr_tool_calls resp)])), s2))"
    by (auto simp: safe_def split: sum.splits option.splits)
  with stop_with_safe [OF assms(2), of k sid i "''loop_detected''" w] show ?thesis
    by (simp add: tools_turn_def Let_def)
qed

lemma model_call_legal:
  "event_legal [(''type'', JStr ''model_call''), (''iteration'', JInt i), (''text_sha256'', JStr h),
     (''tool_calls'', JArr (map (\<lambda>c. JStr (tc_name c)) cs)), (''in_tokens'', JInt m), (''out_tokens'', JInt n)]"
  by (simp add: event_legal_def tokens_ok_def)

lemma record_response_ext:
  assumes "store_ok st"
  shows "extends k sid st (record_response sid i sq resp st)"
proof -
  let ?j = "note_journal sid ''MODEL_CALL_DONE''
          [(''iteration'', JInt (int i)), (''intent_seq'', JInt (int sq)),
           (''tool_calls'', JInt (int (length (mr_tool_calls resp))))] st"
  have "extends k sid st ?j" using assms by (intro note_journal_ext) simp_all
  moreover from this have "extends k sid ?j (record_response sid i sq resp st)"
    unfolding record_response_def by (intro note_event_ext model_call_legal) (auto dest: extends_ok)
  ultimately show ?thesis by (rule extends_trans)
qed

lemma sum_tokens_ok: "(\<forall>r\<in>set rs. tokens_row_ok r) \<Longrightarrow> \<exists>n'. sum_tokens n rs = Inr n'"
proof (induction rs arbitrary: n)
  case (Cons r rs)
  then obtain e where "loads (lr_event r) = Some (JObj e)" "tokens_ok (JObj e)"
    by (auto simp: tokens_row_ok_def)
  with Cons show ?case by (auto simp: tokens_ok_def token_int_def)
qed simp

lemma total_tokens_ok: "store_ok st \<Longrightarrow> \<exists>n. total_tokens st sid = Inr n"
  by (auto simp: total_tokens_def store_ok_def intro: sum_tokens_ok)

lemma model_turn_safe:
  assumes k: "kernel_ok sid k" and st: "store_ok st"
  shows "safe k sid st (model_turn k sid i hist msgs (st, w))"
proof -
  obtain sq st1 where ap: "journal_append st sid ''MODEL_CALL_INTENT'' [(''iteration'', JInt (int i))] = (sq, st1)"
    by (cases "journal_append st sid ''MODEL_CALL_INTENT'' [(''iteration'', JInt (int i))]")
  have g1: "extends k sid st st1"
    using note_journal_ext [OF st, of "[(''iteration'', JInt (int i))]" "''MODEL_CALL_INTENT''" k sid] ap
    by (simp add: note_journal_def)
  obtain r st2 w2 where call: "model_call_with_retry k sid i msgs (tool_defs k) (st1, w) = (r, st2, w2)"
    by (cases "model_call_with_retry k sid i msgs (tool_defs k) (st1, w)")
  note t = try_model_safe [OF k extends_ok [OF g1] call [unfolded model_call_with_retry_def]]
  then have g2: "extends k sid st st2" using g1 by (blast intro: extends_trans)
  show ?thesis
  proof (cases r)
    case (Inl e)
    let ?st3 = "note_event sid [(''type'', JStr ''model_error''), (''iteration'', JInt (int i)),
        (''class'', JStr (exn_class e)), (''detail'', JStr (take 200 (exn_msg e)))] st2"
    have "extends k sid st2 ?st3" using extends_ok [OF g2] by (intro note_event_extI) auto
    then have "safe k sid st (stop_with sid i ''model_error'' (?st3, w2))"
      using g2 stop_with_safe [of ?st3 k sid i "''model_error''" w2] by (meson extends_ok extends_trans safe_trans)
    with Inl ap call g2 show ?thesis by (simp add: model_turn_def)
  next
    case (Inr resp)
    have wf: "list_all call_ok (mr_tool_calls resp)" using t Inr by blast
    let ?st3 = "record_response sid i sq resp st2"
    have g3: "extends k sid st ?st3" using g2 record_response_ext [OF extends_ok [OF g2]] by (rule extends_trans)
    note ok3 = extends_ok [OF g3]
    obtain n where n: "total_tokens ?st3 sid = Inr n" using total_tokens_ok [OF ok3] by blast
    have "safe k sid st (stop_with sid i ''budget'' (?st3, w2))" "safe k sid st (finish_turn k sid i hist resp (?st3, w2))"
        "safe k sid st (tools_turn k sid i hist resp (?st3, w2))"
      by (rule safe_trans [OF g3]; rule stop_with_safe [OF ok3] finish_turn_safe [OF ok3]
          tools_turn_safe [OF k ok3 wf])+
    with Inr ap call n show ?thesis by (simp add: model_turn_def Let_def)
  qed
qed

lemma turn_safe:
  assumes "kernel_ok sid k" "store_ok st"
  shows "safe k sid st (turn k sid start i hist (st, w))"
proof -
  obtain b w1 where p: "poll_cancel k w = (b, w1)" by (cases "poll_cancel k w")
  obtain now w2 where m: "k_monotonic k w1 = (now, w2)" by (cases "k_monotonic k w1")
  have "turn k sid start i hist (st, w) =
    (if b then stop_with sid i ''cancelled'' (st, w1)
     else if estimate_tokens (assemble_context k st sid) > max_token_estimate (k_guards k)
     then stop_with sid i ''budget'' (st, w1)
     else if now - start > max_wall_seconds (k_guards k) then stop_with sid i ''wall_clock'' (st, w2)
     else model_turn k sid i hist (assemble_context k st sid) (st, w2))"
    by (simp only: turn_def Let_def p m prod.case)
  then show ?thesis by (simp add: stop_with_safe [OF assms(2)] model_turn_safe [OF assms])
qed

lemma iterate_safe:
  assumes k: "kernel_ok sid k"
  shows "store_ok st \<Longrightarrow> safe k sid st (iterate k sid start n i hist (st, w))"
proof (induction n arbitrary: i hist st w)
  case 0
  then show ?case
    using stop_with_safe [of st k sid "max_iterations (k_guards k)" "''max_iterations''" w]
    by (simp add: stop_with_def stop_run_def)
next
  case (Suc n)
  obtain r st1 w1 where t: "turn k sid start i hist (st, w) = (r, st1, w1)" by (cases "turn k sid start i hist (st, w)")
  with turn_safe [OF k Suc.prems, of start i hist w] have s: "safe k sid st (r, st1, w1)" by simp
  then have g: "extends k sid st st1" by (simp add: safe_def)
  have "safe k sid st (iterate k sid start n (Suc i) h (st1, w1))" for h
    using Suc.IH [OF extends_ok [OF g]] g by (blast intro: safe_trans)
  moreover have "iterate k sid start (Suc n) i hist (st, w) =
    (case r of Inl e \<Rightarrow> (Inl e, st1, w1) | Inr (Return x) \<Rightarrow> (Inr x, st1, w1)
     | Inr (Continue h) \<Rightarrow> iterate k sid start n (Suc i) h (st1, w1))" by (simp add: t)
  ultimately show ?case using s
    by (auto simp: safe_def simp del: iterate.simps split: sum.split outcome.split)
qed

lemma kernel_loop_safe:
  "kernel_ok sid k \<Longrightarrow> store_ok st \<Longrightarrow> safe k sid st (kernel_loop k sid (st, w))"
  by (simp add: kernel_loop_def iterate_safe split: prod.split)

lemma kernel_run_safe:
  assumes "kernel_ok sid k" "store_ok st"
  shows "safe k sid st (kernel_run k sid text (st, w))"
proof -
  have "extends k sid st (add_message st sid ''user'' text)" using assms(2) by (rule add_message_ext)
  moreover from this have "extends k sid (add_message st sid ''user'' text)
      (note_journal sid ''ASSEMBLE'' [(''task'', JBool True)] (add_message st sid ''user'' text))"
    by (intro note_journal_ext) (auto dest: extends_ok)
  ultimately have g: "extends k sid st (note_journal sid ''ASSEMBLE'' [(''task'', JBool True)] (add_message st sid ''user'' text))"
    by (rule extends_trans)
  from safe_trans [OF g kernel_loop_safe [OF assms(1) extends_ok [OF g]]] show ?thesis
    by (simp add: kernel_run_def)
qed

end
