(* ===== verification/Execution.thy ===== *)
theory Execution
  imports Kernel
begin

text \<open>
  Properties of the kernel's runs (\<open>scr/kernel.py\<close>): outcomes and bounds of the loop, the
  write-ahead discipline of a tool call, the approval gate with pause and resume, cycle detection
  and retries.
\<close>

subsection \<open>The journal's last word\<close>

definition last_state :: "store \<Rightarrow> string \<Rightarrow> string option" where
  "last_state st sid = (if journal_rows st sid = [] then None else Some (jr_state (last (journal_rows st sid))))"

lemma last_state_frame: "journal st' = journal st \<Longrightarrow> last_state st' = last_state st"
  by (simp add: last_state_def fun_eq_iff journal_rows_def)

lemmas last_state_reads [simp] =
  last_state_frame [OF note_event_frame(1)] last_state_frame [OF add_message_frame(2)]
  last_state_frame [OF tool_result_put_frame(3)] last_state_frame [OF ledger_tool_error_frame(1)]

lemma last_state_note:
  "journal_ok st \<Longrightarrow> wf_json (JObj p) \<Longrightarrow> last_state (note_journal sid s p st) sid = Some s"
  by (simp add: last_state_def note_journal_def journal_rows_append)

lemma store_ok_journal [simp]: "store_ok st \<Longrightarrow> journal_ok st"
  by (simp add: store_ok_def)

lemma last_state_await:
  assumes "store_ok st" "call_ok call" "list_all call_ok remaining"
  shows "last_state (await_approval sid aid call remaining st) sid = Some ''AWAITING_APPROVAL''"
proof -
  have "\<forall>x\<in>set (map json_call remaining). wf_json x"
    using assms(3) by (auto simp: list_all_iff json_call_wf)
  with assms show ?thesis
    unfolding await_approval_def by (simp add: last_state_note call_ok_def)
qed

text \<open>What the journal of a run ends with, for each stop reason.\<close>

definition closing_state :: "string \<Rightarrow> string option" where
  "closing_state reason =
     (if reason = ''completed'' then Some ''FINALIZE''
      else if reason = ''awaiting_approval'' then Some ''AWAITING_APPROVAL''
      else if reason \<in> {''max_iterations'', ''budget'', ''wall_clock'', ''loop_detected'', ''cancelled'', ''model_error''}
      then Some ''STOPPED'' else None)"

definition outcome_ok :: "string \<Rightarrow> nat \<Rightarrow> run_result \<Rightarrow> store \<Rightarrow> bool" where
  "outcome_ok sid i r st \<longleftrightarrow> rr_session r = sid \<and> rr_iterations r = i \<and>
     closing_state (rr_stopped r) \<noteq> None \<and> last_state st sid = closing_state (rr_stopped r) \<and>
     (rr_pending r \<noteq> None \<longleftrightarrow> rr_stopped r = ''awaiting_approval'')"

lemma stop_with_outcome:
  assumes "store_ok st" "closing_state reason = Some ''STOPPED''" "stop_with sid i reason (st, w) = (Inr (Return r), st', w')"
  shows "outcome_ok sid i r st'"
proof -
  have "reason \<noteq> ''awaiting_approval''" using assms(2) by (auto simp: closing_state_def)
  with assms show ?thesis by (auto simp: stop_with_def stop_run_def outcome_ok_def last_state_note)
qed

lemma sequential_call_pause:
  assumes "kernel_ok sid k" "store_ok st" "call_ok call" "list_all call_ok remaining"
    and "sequential_call k sid call remaining (st, w) = (Inr (Some aid), st', w')"
  shows "last_state st' sid = Some ''AWAITING_APPROVAL'' \<and> gated k call \<and> aid = approval_id sid call \<and>
    approval_get st aid = None \<and> st' = await_approval sid aid call remaining st \<and> w' = w"
  using assms(5) last_state_await [OF assms(2-4)]
  by (auto simp: sequential_call_def Let_def split: if_splits prod.splits sum.splits option.splits)

lemma execute_pending_pause:
  assumes k: "kernel_ok sid k"
  shows "store_ok st \<Longrightarrow> list_all call_ok cs \<Longrightarrow>
    execute_pending k sid cs (st, w) = (Inr (Some aid), st', w') \<Longrightarrow>
    last_state st' sid = Some ''AWAITING_APPROVAL''"
proof (induction "length cs" arbitrary: cs st w rule: less_induct)
  case less
  then obtain call rest where cs: "cs = call # rest" by (cases cs) auto
  obtain b w1 where p: "poll_cancel k w = (b, w1)" by (cases "poll_cancel k w")
  have nb: "\<not> b" using less.prems(3) p by (auto simp: cs execute_pending.simps(2))
  let ?batch = "takeWhile (batch_eligible k) cs"
  show ?case
  proof (cases "length ?batch \<ge> 2")
    case True
    have el: "list_all (batch_eligible k) ?batch" "list_all call_ok ?batch" "list_all call_ok (drop (length ?batch) cs)"
      using less.prems(2) by (auto simp: list_all_iff dest: set_takeWhileD in_set_dropD)
    from True nb p less.prems(3) obtain u st1 w2 where
      b: "run_parallel_batch k sid ?batch (st, w1) = (Inr u, st1, w2)"
         "execute_pending k sid (drop (length ?batch) cs) (st1, w2) = (Inr (Some aid), st', w')"
      by (auto simp: cs execute_pending.simps(2) Let_def split: prod.splits sum.splits)
    have "store_ok st1" using run_parallel_batch_safe [OF k less.prems(1) el(1,2), of w1] b(1) by (auto dest: extends_ok)
    moreover have "length (drop (length ?batch) cs) < length cs" using True cs by simp
    ultimately show ?thesis using less.hyps b(2) el(3) by blast
  next
    case False
    have co: "call_ok call" "list_all call_ok (call # rest)" "list_all call_ok rest" using less.prems(2) cs by simp_all
    obtain r st1 w2 where sc: "sequential_call k sid call (call # rest) (st, w1) = (r, st1, w2)"
      by (cases "sequential_call k sid call (call # rest) (st, w1)")
    have ok1: "store_ok st1" using sequential_call_safe [OF k less.prems(1) co(1,2), of w1] sc by (auto simp: safe_def dest: extends_ok)
    from less.prems(3) False nb p sc consider "r = Inr (Some aid)" "st' = st1"
      | "r = Inr None" "execute_pending k sid rest (st1, w2) = (Inr (Some aid), st', w')"
      by (auto simp: cs execute_pending.simps(2) Let_def split: sum.splits option.splits)
    then show ?thesis
    proof cases
      case 1
      with sequential_call_pause [OF k less.prems(1) co(1,2)] sc show ?thesis by blast
    next
      case 2
      with less.hyps [OF _ ok1 co(3)] cs show ?thesis by simp
    qed
  qed
qed

subsection \<open>Outcomes\<close>

lemma stop_closing:
  "closing_state ''budget'' = Some ''STOPPED''" "closing_state ''wall_clock'' = Some ''STOPPED''"
  "closing_state ''cancelled'' = Some ''STOPPED''" "closing_state ''model_error'' = Some ''STOPPED''"
  "closing_state ''loop_detected'' = Some ''STOPPED''" "closing_state ''max_iterations'' = Some ''STOPPED''"
  "closing_state ''completed'' = Some ''FINALIZE''"
  "closing_state ''awaiting_approval'' = Some ''AWAITING_APPROVAL''"
  by (simp_all add: closing_state_def)

lemma finish_turn_outcome:
  assumes "store_ok st" "finish_turn k sid i hist resp (st, w) = (Inr (Return r), st', w')"
  shows "outcome_ok sid i r st'"
  using assms
  by (auto simp: finish_turn_def outcome_ok_def stop_closing Let_def last_state_note
      split: option.splits list.splits)

lemma tools_turn_outcome:
  assumes k: "kernel_ok sid k" and st: "store_ok st" and cs: "list_all call_ok (mr_tool_calls resp)"
    and t: "tools_turn k sid i hist resp (st, w) = (Inr (Return r), st', w')"
  shows "outcome_ok sid i r st'"
proof -
  let ?st1 = "if mr_text resp \<noteq> [] then add_message st sid ''assistant'' (mr_text resp) else st"
  have ok1: "store_ok ?st1" using st by (simp add: grows_ok [OF add_message_grows])
  obtain x st2 w2 where e: "execute_pending k sid (mr_tool_calls resp) (?st1, w) = (x, st2, w2)"
    by (cases "execute_pending k sid (mr_tool_calls resp) (?st1, w)")
  consider "stop_with sid i ''loop_detected'' (st, w) = (Inr (Return r), st', w')"
    | aid where "x = Inr (Some aid)" "st' = st2" "r = \<lparr>rr_session = sid, rr_final_text = [], rr_iterations = i,
        rr_stopped = ''awaiting_approval'', rr_pending = Some aid\<rparr>"
    using t e by (auto simp: tools_turn_def Let_def split: if_splits sum.splits option.splits)
  then show ?thesis
  proof cases
    case 1
    with st show ?thesis by (intro stop_with_outcome) (auto simp: stop_closing)
  next
    case 2
    with e execute_pending_pause [OF k ok1 cs] show ?thesis by (simp add: outcome_ok_def stop_closing)
  qed
qed

lemma model_turn_outcome:
  assumes k: "kernel_ok sid k" and st: "store_ok st"
    and t: "model_turn k sid i hist msgs (st, w) = (Inr (Return r), st', w')"
  shows "outcome_ok sid i r st'"
proof -
  obtain sq st1 where ap: "journal_append st sid ''MODEL_CALL_INTENT'' [(''iteration'', JInt (int i))] = (sq, st1)"
    by (cases "journal_append st sid ''MODEL_CALL_INTENT'' [(''iteration'', JInt (int i))]")
  have ok1: "store_ok st1"
    using note_journal_grows [OF st, of "[(''iteration'', JInt (int i))]" sid "''MODEL_CALL_INTENT''"] ap
    by (simp add: note_journal_def grows_ok)
  obtain x st2 w2 where call: "model_call_with_retry k sid i msgs (tool_defs k) (st1, w) = (x, st2, w2)"
    by (cases "model_call_with_retry k sid i msgs (tool_defs k) (st1, w)")
  note m = try_model_safe [OF k ok1 call [unfolded model_call_with_retry_def]]
  then have ok2: "store_ok st2" by (blast dest: extends_ok)
  show ?thesis
  proof (cases x)
    case (Inl e)
    let ?st3 = "note_event sid [(''type'', JStr ''model_error''), (''iteration'', JInt (int i)),
        (''class'', JStr (exn_class e)), (''detail'', JStr (take 200 (exn_msg e)))] st2"
    have "store_ok ?st3" by (rule extends_ok [OF note_event_extI [OF ok2]]) auto
    moreover have "stop_with sid i ''model_error'' (?st3, w2) = (Inr (Return r), st', w')"
      using t ap call Inl by (simp add: model_turn_def split: if_splits)
    ultimately show ?thesis by (intro stop_with_outcome) (auto simp: stop_closing)
  next
    case (Inr resp)
    let ?st3 = "record_response sid i sq resp st2"
    have ok3: "store_ok ?st3" by (rule extends_ok [OF record_response_ext [OF ok2]])
    have cs: "list_all call_ok (mr_tool_calls resp)" using m Inr by blast
    consider "stop_with sid i ''budget'' (?st3, w2) = (Inr (Return r), st', w')"
      | "finish_turn k sid i hist resp (?st3, w2) = (Inr (Return r), st', w')"
      | "tools_turn k sid i hist resp (?st3, w2) = (Inr (Return r), st', w')"
      using t ap call Inr by (auto simp: model_turn_def Let_def split: sum.splits if_splits)
    then show ?thesis
    proof cases
      case 1
      with ok3 show ?thesis by (intro stop_with_outcome) (auto simp: stop_closing)
    qed (erule finish_turn_outcome [OF ok3] tools_turn_outcome [OF k ok3 cs])+
  qed
qed

lemma turn_outcome:
  assumes k: "kernel_ok sid k" and st: "store_ok st"
    and t: "turn k sid start i hist (st, w) = (Inr (Return r), st', w')"
  shows "outcome_ok sid i r st'"
proof -
  obtain b w1 where p: "poll_cancel k w = (b, w1)" by (cases "poll_cancel k w")
  obtain now w2 where m: "k_monotonic k w1 = (now, w2)" by (cases "k_monotonic k w1")
  consider "stop_with sid i ''cancelled'' (st, w1) = (Inr (Return r), st', w')"
    | "stop_with sid i ''budget'' (st, w1) = (Inr (Return r), st', w')"
    | "stop_with sid i ''wall_clock'' (st, w2) = (Inr (Return r), st', w')"
    | "model_turn k sid i hist (assemble_context k st sid) (st, w2) = (Inr (Return r), st', w')"
    using t p m by (auto simp: turn_def Let_def split: if_splits)
  then show ?thesis
    by cases (erule stop_with_outcome [OF st stop_closing(3)] stop_with_outcome [OF st stop_closing(1)]
      stop_with_outcome [OF st stop_closing(2)] model_turn_outcome [OF k st])+
qed

lemma iterate_outcome:
  assumes k: "kernel_ok sid k"
  shows "store_ok st \<Longrightarrow> iterate k sid start n i hist (st, w) = (Inr r, st', w') \<Longrightarrow>
    i + n = Suc (max_iterations (k_guards k)) \<Longrightarrow> \<exists>m \<le> max_iterations (k_guards k). outcome_ok sid m r st'"
proof (induction n arbitrary: i hist st w)
  case 0
  then have "stop_with sid (max_iterations (k_guards k)) ''max_iterations'' (st, w) = (Inr (Return r), st', w')"
    by (auto simp: stop_with_def split: prod.splits)
  from stop_with_outcome [OF 0(1) _ this] show ?case by (auto simp: stop_closing)
next
  case (Suc n)
  obtain x st1 w1 where t: "turn k sid start i hist (st, w) = (x, st1, w1)" by (cases "turn k sid start i hist (st, w)")
  have ok1: "store_ok st1" using turn_safe [OF k Suc.prems(1), of start i hist w] t by (auto simp: safe_def dest: extends_ok)
  from Suc.prems(2) t consider "x = Inr (Return r)" "st' = st1"
    | h where "x = Inr (Continue h)" "iterate k sid start n (Suc i) h (st1, w1) = (Inr r, st', w')"
    by (auto split: sum.splits outcome.splits)
  then show ?case
  proof cases
    case 1
    with turn_outcome [OF k Suc.prems(1)] t Suc.prems(3) show ?thesis by (intro exI [of _ i]) auto
  next
    case 2
    with Suc.IH [OF ok1 2(2)] Suc.prems(3) show ?thesis by simp
  qed
qed

lemma kernel_loop_outcome:
  assumes "kernel_ok sid k" "store_ok st" "kernel_loop k sid (st, w) = (Inr r, st', w')"
  shows "\<exists>m \<le> max_iterations (k_guards k). outcome_ok sid m r st'"
proof -
  obtain start w1 where m: "k_monotonic k w = (start, w1)" by (cases "k_monotonic k w")
  from iterate_outcome [OF assms(1,2), of start "max_iterations (k_guards k)" 1 "[]" w1 r st' w'] m assms(3)
  show ?thesis by (simp add: kernel_loop_def)
qed

lemma grows_verifies:
  assumes "grows st st'" and "\<forall>r\<in>set (seals st). sl_session r \<noteq> sid"
  shows "vr_ok (ledger_verify st' sid key)"
proof -
  have "find (\<lambda>r. sl_session r = sid) (seals st') = None" "ledger_ok st'"
    using assms by (auto simp: grows_def store_ok_def find_None_iff)
  then show ?thesis by (simp add: ledger_verify_unsealed)
qed

subsection \<open>Properties: runs\<close>

text \<open>C4: A run always ends, within its iteration budget, in a documented way. From a consistent
  store, with tools and an adapter that keep their contract, \<open>run\<close> returns a result whose iteration
  count is at most the guard's and whose stop reason is one of the eight, the journal ends with the
  record that belongs to that reason, and an approval id is given exactly when the run pauses; the
  only exceptions that leave it are not instances of \<open>Exception\<close>.\<close>

theorem kernel_run_ends:
  assumes "kernel_ok sid k" and "store_ok st"
  shows "case kernel_run k sid text (st, w) of
     (Inr r, st', w') \<Rightarrow> rr_session r = sid \<and> rr_iterations r \<le> max_iterations (k_guards k) \<and>
       rr_stopped r \<in> {''completed'', ''awaiting_approval'', ''max_iterations'', ''budget'', ''wall_clock'',
         ''loop_detected'', ''cancelled'', ''model_error''} \<and>
       last_state st' sid = closing_state (rr_stopped r) \<and>
       (rr_pending r \<noteq> None \<longleftrightarrow> rr_stopped r = ''awaiting_approval'')
   | (Inl e, st', w') \<Rightarrow> \<not> isinstance e ''Exception''"
proof -
  let ?st0 = "note_journal sid ''ASSEMBLE'' [(''task'', JBool True)] (add_message st sid ''user'' text)"
  have ok0: "store_ok ?st0"
    using assms(2) by (intro grows_ok [OF note_journal_grows] grows_ok [OF add_message_grows]) simp_all
  obtain x st' w' where run: "kernel_run k sid text (st, w) = (x, st', w')" by (cases "kernel_run k sid text (st, w)")
  show ?thesis
  proof (cases x)
    case (Inl e)
    with run kernel_run_safe [OF assms, of "text" w] show ?thesis by simp
  next
    case (Inr r)
    with run have "kernel_loop k sid (?st0, w) = (Inr r, st', w')" by (simp add: kernel_run_def)
    from kernel_loop_outcome [OF assms(1) ok0 this] obtain m where
      m: "m \<le> max_iterations (k_guards k)" "outcome_ok sid m r st'" by blast
    then have "closing_state (rr_stopped r) \<noteq> None" by (simp add: outcome_ok_def)
    then have "rr_stopped r \<in> {''completed'', ''awaiting_approval'', ''max_iterations'', ''budget'', ''wall_clock'',
         ''loop_detected'', ''cancelled'', ''model_error''}" by (auto simp: closing_state_def split: if_splits)
    with m run Inr show ?thesis by (simp add: outcome_ok_def)
  qed
qed

text \<open>
  A small concrete kernel for the witnesses: the adapter asks for the tool \<open>echo\<close> on its first
  call and answers with a text afterwards; the tool returns a fixed text and leaves the store alone.
\<close>

definition echo_tool :: "nat tool_spec" where
  "echo_tool = \<lparr>ts_name = ''echo'', ts_fn = (\<lambda>args s. (Inr ''hello'', s)), ts_idempotent = True,
     ts_description = [], ts_parameters = [], ts_parallel_safe = False, ts_classification = ''public''\<rparr>"

definition echo_call :: tool_call where
  "echo_call = \<lparr>tc_id = ''c1'', tc_name = ''echo'', tc_arguments = [(''path'', JStr ''/srv/x'')]\<rparr>"

definition echo_complete :: "message list \<Rightarrow> tool_def list \<Rightarrow> nat \<Rightarrow> (py_exn + model_response) \<times> nat" where
  "echo_complete msgs tls w =
     (Inr \<lparr>mr_text = ''done'', mr_tool_calls = (if w = 0 then [echo_call] else []),
           mr_input_tokens = 1, mr_output_tokens = 1\<rparr>, Suc w)"

definition echo_kernel :: "nat kernel" where
  "echo_kernel = \<lparr>k_complete = echo_complete, k_tools = [(''echo'', echo_tool)],
     k_manifest = empty_manifest\<lparr>tools := {''echo''}\<rparr>, k_guards = default_guards,
     k_system_prompt = ''agent'', k_policy = None, k_search = (\<lambda>_ _. False), k_cancel_check = None,
     k_finalize_guard = None, k_monotonic = (\<lambda>w. (0, w)), k_sleep = (\<lambda>_ w. w)\<rparr>"

definition gated_kernel :: "nat kernel" where
  "gated_kernel = echo_kernel\<lparr>k_policy := Some \<lparr>approval_rules = [\<lparr>rule_tool = ''echo'', arg_match = []\<rparr>],
     tighten_tools = None, tighten_net_hosts = None\<rparr>\<rparr>"

lemma echo_call_ok [simp]: "call_ok echo_call"
  by (simp add: call_ok_def echo_call_def)

lemma echo_kernel_ok [simp]: "kernel_ok sid echo_kernel" "kernel_ok sid gated_kernel"
  by (auto simp: kernel_ok_def echo_kernel_def gated_kernel_def echo_tool_def tool_ok_def echo_complete_def
      grows_refl split: if_splits)

lemma empty_store_ok [simp]: "store_ok empty_store"
  using empty_store_ledger(1) by (simp add: store_ok_def) (simp add: empty_store_def)

theorem kernel_run_ends_witness:
  "case kernel_run echo_kernel ''s'' ''hi'' (empty_store, 0) of
     (Inr r, st', w') \<Rightarrow> rr_iterations r \<le> 25
   | (Inl e, st', w') \<Rightarrow> \<not> isinstance e ''Exception''"
proof -
  have "max_iterations (k_guards echo_kernel) = 25" by (simp add: echo_kernel_def default_guards_def)
  with kernel_run_ends [OF echo_kernel_ok(1) empty_store_ok, of "''s''" "''hi''" 0] show ?thesis
    by (cases "kernel_run echo_kernel ''s'' ''hi'' (empty_store, 0)") (auto split: sum.splits)
qed

text \<open>C1: Nothing executes unauthorised. Over a whole run, every execution intent that enters the
  session's journal is the intent of a call whose tool the manifest permits, is registered and lies
  within the classification ceiling, and which is either not gated by the policy or has an approval
  on record for its exact approval id that is not a denial.\<close>

theorem run_executes_only_authorized:
  assumes "kernel_ok sid k" and "store_ok st" and "kernel_run k sid text (st, w) = (res, st', w')"
  shows "\<exists>es. journal_view st' sid = journal_view st sid @ es \<and>
    (\<forall>(n, state, payload)\<in>set es. state = ''EXEC_INTENT'' \<longrightarrow>
       (\<exists>call idem spec. payload = Some (sort_json (JObj (intent_payload sid call idem n))) \<and>
          tc_name call \<in> tools (k_manifest k) \<and> dict_get (k_tools k) (tc_name call) = Some spec \<and>
          check_classification (k_manifest k) (ts_classification spec) = Inr () \<and>
          (gated k call \<longrightarrow> (\<exists>s a. approval_get st (approval_id sid call) = Some (s, a) \<and> s \<noteq> ''denied''))))"
proof -
  have "extends k sid st st'" using kernel_run_safe [OF assms(1,2), of "text" w] assms(3) by (simp add: safe_def)
  then obtain es where es: "journal_view st' sid = journal_view st sid @ es" "\<forall>x\<in>set es. intent_ok k sid st x"
    by (auto simp: extends_def)
  show ?thesis
  proof (intro exI conjI ballI)
    show "journal_view st' sid = journal_view st sid @ es" by (rule es(1))
    fix x assume "x \<in> set es"
    with es(2) have "intent_ok k sid st x" by blast
    then show "case x of (n, state, payload) \<Rightarrow> state = ''EXEC_INTENT'' \<longrightarrow>
       (\<exists>call idem spec. payload = Some (sort_json (JObj (intent_payload sid call idem n))) \<and>
          tc_name call \<in> tools (k_manifest k) \<and> dict_get (k_tools k) (tc_name call) = Some spec \<and>
          check_classification (k_manifest k) (ts_classification spec) = Inr () \<and>
          (gated k call \<longrightarrow> (\<exists>s a. approval_get st (approval_id sid call) = Some (s, a) \<and> s \<noteq> ''denied'')))"
      by (cases x) (auto simp: intent_ok_def authorized_def approved_def cap_check_Inr cap_simps(1))
  qed
qed

theorem run_executes_only_authorized_witness:
  "\<exists>es. journal_view (fst (snd (kernel_run echo_kernel ''s'' ''hi'' (empty_store, 0)))) ''s'' =
      journal_view empty_store ''s'' @ es \<and>
    (\<forall>(n, state, payload)\<in>set es. state = ''EXEC_INTENT'' \<longrightarrow>
       (\<exists>call idem. payload = Some (sort_json (JObj (intent_payload ''s'' call idem n))) \<and> tc_name call = ''echo''))"
proof -
  obtain res st' w' where r: "kernel_run echo_kernel ''s'' ''hi'' (empty_store, 0) = (res, st', w')"
    by (cases "kernel_run echo_kernel ''s'' ''hi'' (empty_store, 0)")
  have t: "tools (k_manifest echo_kernel) = {''echo''}" by (simp add: echo_kernel_def)
  from run_executes_only_authorized [OF echo_kernel_ok(1) empty_store_ok r] show ?thesis
    unfolding r t by (simp add: split_beta) blast
qed

text \<open>C20: A run keeps the evidence. Whatever happens in a run, also one that an exception ends, every
  unsealed session of the store still verifies, its events are extended and never altered, and every
  persisted tool result is still there.\<close>

theorem run_keeps_evidence:
  assumes "kernel_ok sid k" and "store_ok st" and "kernel_run k sid text (st, w) = (res, st', w')"
    and "\<forall>r\<in>set (seals st). sl_session r \<noteq> s"
  shows "vr_ok (ledger_verify st' s key) \<and>
    (\<exists>es. events_of (ledger_rows st' s) = events_of (ledger_rows st s) @ es) \<and>
    (\<forall>ik v. tool_result_get st ik = Some v \<longrightarrow> tool_result_get st' ik = Some v)"
proof -
  have g: "grows st st'" using kernel_run_safe [OF assms(1,2), of "text" w] assms(3) by (auto simp: safe_def extends_grows)
  then have "prefix (ledger_view st s) (ledger_view st' s)" by (simp add: grows_def)
  then have "prefix (map snd (ledger_view st s)) (map snd (ledger_view st' s))" by (rule map_mono_prefix)
  then have "prefix (events_of (ledger_rows st s)) (events_of (ledger_rows st' s))" by (simp add: ledger_view_def)
  then show ?thesis using g grows_verifies [OF g assms(4)] by (auto simp: grows_def prefix_def)
qed

theorem run_keeps_evidence_witness:
  "vr_ok (ledger_verify (fst (snd (kernel_run echo_kernel ''s'' ''hi'' (empty_store, 0)))) ''s'' None)"
proof -
  obtain res st' w' where r: "kernel_run echo_kernel ''s'' ''hi'' (empty_store, 0) = (res, st', w')"
    by (cases "kernel_run echo_kernel ''s'' ''hi'' (empty_store, 0)")
  from run_keeps_evidence [OF echo_kernel_ok(1) empty_store_ok r, of "''s''" None] show ?thesis
    by (simp add: r)
qed

subsection \<open>Properties: one call\<close>

text \<open>A tool that leaves the table of persisted results to the kernel.\<close>

definition results_private :: "'w tool_spec \<Rightarrow> bool" where
  "results_private spec \<longleftrightarrow>
     (\<forall>args st w r st' w'. ts_fn spec args (st, w) = (r, st', w') \<longrightarrow> tool_results st' = tool_results st)"

lemma run_tool_fn_private:
  "results_private spec \<Longrightarrow> run_tool_fn spec call (st, w) = (r, st', w') \<Longrightarrow> tool_results st' = tool_results st"
  by (auto simp: results_private_def run_tool_fn_def split: prod.splits sum.splits if_splits) blast+

lemma close_exec_view:
  assumes "store_ok st"
  shows "journal_view (close_exec sid call sq key par r st) sid = journal_view st sid @
    [(Suc (length (journal_view st sid)), ''EXEC_DONE'',
      Some (sort_json (JObj [(''intent_seq'', JInt (int sq)), (''idem_key'', JStr key)])))]"
    "tool_result_get (close_exec sid call sq key par r st) = tool_result_get st"
proof -
  show "tool_result_get (close_exec sid call sq key par r st) = tool_result_get st"
    by (simp add: tool_result_get_def close_exec_def fun_eq_iff)
  have "journal_view (close_exec sid call sq key par r st) sid = journal_view (note_journal sid ''EXEC_DONE''
      [(''intent_seq'', JInt (int sq)), (''idem_key'', JStr key)] st) sid"
    by (simp add: close_exec_def journal_view_def journal_rows_def)
  then show "journal_view (close_exec sid call sq key par r st) sid = journal_view st sid @
    [(Suc (length (journal_view st sid)), ''EXEC_DONE'',
      Some (sort_json (JObj [(''intent_seq'', JInt (int sq)), (''idem_key'', JStr key)])))]"
    using journal_view_note [OF assms] by (simp add: journal_view_def)
qed

text \<open>C6: The write-ahead discipline. A permitted call that returns has journalled exactly two records,
  the intent with the idempotency key before the tool runs and the completion after it; the result it
  returns is persisted under that key; and the tool function runs, exactly once, only when no result was
  persisted under the key.\<close>

theorem execute_call_write_ahead:
  fixes sid :: string
  assumes k: "kernel_ok sid k" and st: "store_ok st" and c: "call_ok call"
    and spec: "cap_check k call = Inr spec" and priv: "results_private spec"
    and run: "execute_call k sid call (st, w) = (Inr result, st', w')"
  defines "q \<equiv> Suc (length (journal_view st sid))"
  defines "key \<equiv> idem_key sid q (tc_name call) (tc_arguments call)"
  shows "journal_view st' sid = journal_view st sid @
      [(q, ''EXEC_INTENT'', Some (sort_json (JObj (intent_payload sid call (ts_idempotent spec) q)))),
       (Suc q, ''EXEC_DONE'', Some (sort_json (JObj [(''intent_seq'', JInt (int q)), (''idem_key'', JStr key)])))] \<and>
    tool_result_get st' key = Some result \<and>
    (case tool_result_get st key of
       Some v \<Rightarrow> result = v \<and> w' = w
     | None \<Rightarrow> \<exists>st1 st2. last_state st1 sid = Some ''EXEC_INTENT'' \<and>
                 run_tool_fn spec call (st1, w) = (Inr result, st2, w'))"
proof -
  let ?p = "intent_payload sid call (ts_idempotent spec) q"
  define st1 where "st1 = note_journal sid ''EXEC_INTENT'' ?p st"
  have q: "q = Suc (length (journal_rows st sid))" by (simp add: q_def journal_view_def)
  have wf: "wf_json (JObj ?p)" using c by (rule intent_payload_wf)
  have v1: "journal_view st1 sid = journal_view st sid @ [(q, ''EXEC_INTENT'', Some (sort_json (JObj ?p)))]"
    unfolding st1_def using journal_view_note [OF st wf] by (simp add: q)
  have ok1: "store_ok st1" unfolding st1_def by (rule grows_ok [OF note_journal_grows [OF st wf]])
  have l1: "last_state st1 sid = Some ''EXEC_INTENT''" unfolding st1_def using st wf by (simp add: last_state_note)
  have len: "length (journal_view st sid) + 1 = q" by (simp add: q_def)
  have g1: "tool_result_get st1 = tool_result_get st" by (simp add: st1_def)
  note ex = execute_call_granted [OF st c spec, of sid w, folded q, folded key_def, folded st1_def]
  show ?thesis
  proof (cases "tool_result_get st key")
    case (Some v)
    with ex run have "result = v" "w' = w" "st' = close_exec sid call q key False v st1" by simp_all
    with Some close_exec_view [OF ok1, of sid call q key False v] v1 g1 len show ?thesis by simp
  next
    case None
    obtain r st2 w2 where fn: "run_tool_fn spec call (st1, w) = (r, st2, w2)" by (cases "run_tool_fn spec call (st1, w)")
    with ex run None have r: "r = Inr result" "w2 = w'"
        "st' = close_exec sid call q key False result (tool_result_put st2 key sid (tc_name call) result)"
      by (auto split: sum.splits)
    have ts: "tool_ok sid spec" using k spec by (auto simp: cap_check_Inr intro: kernel_okD(1))
    note g2 = run_tool_fn_grows [OF ts ok1 fn]
    have ok2: "store_ok (tool_result_put st2 key sid (tc_name call) result)"
      using g2 by (blast intro: grows_ok tool_result_put_grows)
    have "tool_result_get st2 key = None"
      using run_tool_fn_private [OF priv fn] None by (simp add: tool_result_get_def st1_def)
    then have "tool_result_get st' key = Some result"
      using r(3) close_exec_view(2) [OF ok2] results_table.lookup_put [of st2 key sid "tc_name call" result key] by simp
    with None r fn l1 g2 close_exec_view(1) [OF ok2, of sid call q key False result] v1 len show ?thesis by auto
  qed
qed

lemma echo_call_exec:
  "execute_call echo_kernel ''s'' echo_call (empty_store, 7) =
     (Inr ''hello'', close_exec ''s'' echo_call 1 (idem_key ''s'' 1 ''echo'' (tc_arguments echo_call)) False ''hello''
       (tool_result_put (note_journal ''s'' ''EXEC_INTENT'' (intent_payload ''s'' echo_call True 1) empty_store)
          (idem_key ''s'' 1 ''echo'' (tc_arguments echo_call)) ''s'' ''echo'' ''hello''), 7)"
proof -
  have "cap_check echo_kernel echo_call = Inr echo_tool"
    by (simp add: cap_check_Inr cap_simps echo_kernel_def echo_call_def echo_tool_def classification_rank_def
        CLASS_ORDER_def empty_manifest_def)
  moreover have "tool_result_get empty_store key = None" for key by (simp add: tool_result_get_def empty_store_def)
  moreover have "journal_rows empty_store ''s'' = []" by (simp add: journal_rows_def select_seq_def empty_store_def)
  moreover have "run_tool_fn echo_tool echo_call s = (Inr ''hello'', s)" for s
    by (simp add: run_tool_fn_def echo_tool_def)
  moreover have "ts_idempotent echo_tool" "tc_name echo_call = ''echo''" by (simp_all add: echo_tool_def echo_call_def)
  ultimately show ?thesis
    using execute_call_granted [OF empty_store_ok echo_call_ok, of echo_kernel echo_tool "''s''" 7] by simp
qed

theorem execute_call_write_ahead_witness:
  "\<exists>st'. execute_call echo_kernel ''s'' echo_call (empty_store, 7) = (Inr ''hello'', st', 7) \<and>
     map (\<lambda>x. fst (snd x)) (journal_view st' ''s'') = [''EXEC_INTENT'', ''EXEC_DONE''] \<and>
     tool_result_get st' (idem_key ''s'' 1 ''echo'' (tc_arguments echo_call)) = Some ''hello''"
proof -
  have spec: "cap_check echo_kernel echo_call = Inr echo_tool"
    by (simp add: cap_check_Inr cap_simps echo_kernel_def echo_call_def echo_tool_def classification_rank_def
        CLASS_ORDER_def empty_manifest_def)
  have priv: "results_private echo_tool" by (simp add: results_private_def echo_tool_def)
  have e: "journal_view empty_store ''s'' = []" by (simp add: journal_view_def journal_rows_def select_seq_def empty_store_def)
  have n: "tc_name echo_call = ''echo''" by (simp add: echo_call_def)
  from execute_call_write_ahead [OF echo_kernel_ok(1) empty_store_ok echo_call_ok spec priv echo_call_exec] e n
  show ?thesis using echo_call_exec by simp
qed

text \<open>A denied call is inert. When the manifest does not list the tool, the tool is not registered,
  or its classification exceeds the ceiling, the call touches neither the world nor the journal, the
  persisted results or the messages; it adds one ledger event that names the tool and the reason, and
  the reason comes back as the result.\<close>

theorem denied_call_inert:
  assumes "store_ok st" and "tc_name call \<notin> tools (k_manifest k) \<or> dict_get (k_tools k) (tc_name call) = None \<or>
    (\<exists>spec. dict_get (k_tools k) (tc_name call) = Some spec \<and>
       check_classification (k_manifest k) (ts_classification spec) \<noteq> Inr ())"
  shows "\<exists>reason st'. execute_call k sid call (st, w) = (Inr (''DENIED by capability kernel: '' @ reason), st', w) \<and>
    journal st' = journal st \<and> tool_results st' = tool_results st \<and> messages st' = messages st \<and>
    events_of (ledger_rows st' sid) = events_of (ledger_rows st sid) @
      [sort_json (JObj [(''type'', JStr ''cap_denied''), (''tool'', JStr (tc_name call)), (''reason'', JStr reason)])]"
proof -
  have "\<nexists>spec. cap_check k call = Inr spec" using assms(2) by (auto simp: cap_check_Inr cap_simps)
  then obtain e where e: "cap_check k call = Inl e" by (cases "cap_check k call") auto
  have l: "ledger_ok st" using assms(1) by (simp add: store_ok_def)
  let ?ev = "[(''type'', JStr ''cap_denied''), (''tool'', JStr (tc_name call)), (''reason'', JStr (exn_msg e))]"
  have "events_of (ledger_rows (note_event sid ?ev st) sid) = events_of (ledger_rows st sid) @ [sort_json (JObj ?ev)]"
    unfolding note_event_def by (rule events_of_append [OF l]) simp
  with e show ?thesis
    by (intro exI [of _ "exn_msg e"] exI [of _ "note_event sid ?ev st"]) (simp add: execute_call_def)
qed

theorem denied_call_inert_witness:
  "\<exists>reason st'. execute_call echo_kernel ''s'' (echo_call\<lparr>tc_name := ''rm''\<rparr>) (empty_store, 7) =
     (Inr (''DENIED by capability kernel: '' @ reason), st', 7) \<and> journal st' = journal empty_store"
proof -
  have "tc_name (echo_call\<lparr>tc_name := ''rm''\<rparr>) \<notin> tools (k_manifest echo_kernel)"
    by (simp add: echo_kernel_def)
  with denied_call_inert [OF empty_store_ok, of "echo_call\<lparr>tc_name := ''rm''\<rparr>" echo_kernel "''s''" 7]
  show ?thesis by blast
qed

subsection \<open>Properties: the approval gate\<close>

text \<open>A call as it comes back from the journal: its arguments in key order.\<close>

definition norm_call :: "tool_call \<Rightarrow> tool_call" where
  "norm_call c = c\<lparr>tc_arguments := (case sort_json (JObj (tc_arguments c)) of JObj a \<Rightarrow> a | _ \<Rightarrow> [])\<rparr>"

lemma norm_call_args: "JObj (tc_arguments (norm_call c)) = sort_json (JObj (tc_arguments c))"
  by (simp add: norm_call_def sort_json.simps)

lemma norm_call_fields [simp]: "tc_id (norm_call c) = tc_id c" "tc_name (norm_call c) = tc_name c"
  by (simp_all add: norm_call_def)

lemma canonical_arg:
  "canonical (JObj [(''s'', a), (''t'', b), (''a'', sort_json x), (''c'', d)]) =
   canonical (JObj [(''s'', a), (''t'', b), (''a'', x), (''c'', d)])"
  unfolding canonical_def by (simp add: sort_json.simps)

lemma approval_id_norm: "approval_id sid (norm_call c) = approval_id sid c"
  by (simp add: approval_id_def norm_call_args canonical_arg)

lemma decode_json_call: "call_ok c \<Longrightarrow> decode_call (sort_json (json_call c)) = Inr (norm_call c)"
  using dict_get_sort_json [of "[(''id'', JStr (tc_id c)), (''name'', JStr (tc_name c)), (''arguments'', JObj (tc_arguments c))]"]
  by (simp add: decode_call_def json_call_def sort_json.simps(3-6) norm_call_args [symmetric])

lemma decode_json_calls:
  "list_all call_ok cs \<Longrightarrow> decode_calls (map (\<lambda>c. sort_json (json_call c)) cs) = Inr (map norm_call cs)"
  by (induction cs) (auto simp: decode_json_call)

lemma await_tail:
  assumes "store_ok st" "call_ok call" "list_all call_ok remaining"
  shows "\<exists>t. journal_tail (await_approval sid aid call remaining st) sid = Inr (Some t) \<and>
    je_state t = ''AWAITING_APPROVAL'' \<and>
    jget (je_payload t) ''pending'' = Some (JArr (map (\<lambda>c. sort_json (json_call c)) remaining))"
proof -
  let ?p = "[(''approval_id'', JStr aid), (''tool'', JStr (tc_name call)), (''args'', JObj (tc_arguments call)),
           (''pending'', JArr (map json_call remaining))]"
  have wf: "wf_json (JObj ?p)"
    using assms(2,3) by (auto simp: call_ok_def list_all_iff json_call_wf)
  have "distinct (map fst ?p)" by simp
  from dict_get_sort_json [OF this, of "''pending''"]
  have "jget (sort_json (JObj ?p)) ''pending'' = Some (JArr (map (\<lambda>c. sort_json (json_call c)) remaining))"
    by (simp add: sort_json.simps(1))
  with journal_tail_append [OF store_ok_journal [OF assms(1)] wf, of sid "''AWAITING_APPROVAL''"] show ?thesis
    unfolding await_approval_def by (simp add: note_journal_def)
qed

lemma approve_frame:
  "journal (approve sid aid a st) = journal st" "approvals (approve sid aid a st) = approvals (approval_put st aid sid ''approved'' a)"
  "journal (deny sid aid a st) = journal st" "approvals (deny sid aid a st) = approvals (approval_put st aid sid ''denied'' a)"
  by (simp_all add: approve_def deny_def)

lemma await_frame: "approvals (await_approval sid aid call remaining st) = approvals st"
  by (simp add: await_approval_def)

lemma approval_get_decided:
  assumes "approval_get st aid = None"
  shows "approval_get (approve sid aid a st) aid = Some (''approved'', a)"
    "approval_get (deny sid aid a st) aid = Some (''denied'', a)"
  using approvals_table.lookup_put [of st aid sid "(''approved'', a)" aid]
    approvals_table.lookup_put [of st aid sid "(''denied'', a)" aid] assms
    approval_frame [OF approve_frame(2)] approval_frame [OF approve_frame(4)] by simp_all

text \<open>Pause and resume. Once a paused run's action is approved, \<open>resume\<close> takes up exactly the
  calls that were left, in order, with the same ids, names and arguments (in key order, as the journal
  gives them back), each under the same approval id, and the action the run paused for is approved;
  afterwards the run goes on in the model loop or pauses at the next undecided action.\<close>

theorem resume_takes_up_pending:
  fixes k :: "'w kernel" and sid :: string and who :: string
  assumes st: "store_ok st" and cs: "list_all call_ok (call # rest)"
    and undecided: "approval_get st (approval_id sid call) = None"
  defines "aid \<equiv> approval_id sid call"
  defines "st2 \<equiv> approve sid aid who (await_approval sid aid call (call # rest) st)"
  shows "kernel_resume k sid (st2, w) =
      (case execute_pending k sid (map norm_call (call # rest)) (st2, w) of
         (Inl e, s1) \<Rightarrow> (Inl e, s1)
       | (Inr (Some a), s1) \<Rightarrow> (Inr (resume_result sid ''awaiting_approval'' (Some a)), s1)
       | (Inr None, s1) \<Rightarrow> kernel_loop k sid s1) \<and>
    map (approval_id sid) (map norm_call (call # rest)) = map (approval_id sid) (call # rest) \<and>
    approval_get st2 (approval_id sid (norm_call call)) = Some (''approved'', who)"
proof -
  let ?st1 = "await_approval sid aid call (call # rest) st"
  have co: "call_ok call" using cs by simp
  from await_tail [OF st co cs, of sid aid] obtain t where
    t: "journal_tail ?st1 sid = Inr (Some t)" "je_state t = ''AWAITING_APPROVAL''"
       "jget (je_payload t) ''pending'' = Some (JArr (map (\<lambda>c. sort_json (json_call c)) (call # rest)))" by blast
  have t2: "journal_tail st2 sid = Inr (Some t)"
    using t(1) journal_reads_frame(3) [OF approve_frame(1) [of sid aid who ?st1]] by (simp add: st2_def)
  have "approval_get ?st1 aid = None" using undecided approval_frame [OF await_frame] by (simp add: aid_def)
  from approval_get_decided(1) [OF this, of sid who] have "approval_get st2 aid = Some (''approved'', who)"
    by (simp add: st2_def)
  then have g: "approval_get st2 (approval_id sid (norm_call call)) = Some (''approved'', who)"
    by (simp add: approval_id_norm aid_def)
  have d: "decode_calls (map (\<lambda>c. sort_json (json_call c)) (call # rest)) = Inr (map norm_call (call # rest))"
    using cs by (rule decode_json_calls)
  show ?thesis
    using g by (simp only: kernel_resume_def fst_conv t2 sum.case option.case t(2,3) json.case d simp_thms if_False)
      (simp add: approval_id_norm)
qed

theorem resume_takes_up_pending_witness:
  "\<exists>st2. approval_get st2 (approval_id ''s'' (norm_call echo_call)) = Some (''approved'', ''ann'') \<and>
     kernel_resume gated_kernel ''s'' (st2, 0) =
       (case execute_pending gated_kernel ''s'' [norm_call echo_call] (st2, 0) of
          (Inl e, s1) \<Rightarrow> (Inl e, s1)
        | (Inr (Some a), s1) \<Rightarrow> (Inr (resume_result ''s'' ''awaiting_approval'' (Some a)), s1)
        | (Inr None, s1) \<Rightarrow> kernel_loop gated_kernel ''s'' s1)"
proof -
  have "approval_get empty_store (approval_id ''s'' echo_call) = None"
    by (simp add: approval_get_def empty_store_def)
  from resume_takes_up_pending [OF empty_store_ok _ this, where rest = "[]" and who = "''ann''" and k = gated_kernel and w = 0] show ?thesis
    by (simp only: list.map list.pred_inject echo_call_ok simp_thms) blast
qed

text \<open>The gate holds a call back. When a gated call has no decision on record, \<open>execute_pending\<close>
  stops at it, before any tool runs: it returns its approval id, and the journal ends with the list of
  the calls that are left. When the recorded decision is a denial the call is skipped: the world and
  the journal stay as they are.\<close>

theorem gate_holds_call:
  fixes sid :: string
  assumes "gated k call" and "poll_cancel k w = (False, w1)"
  defines "aid \<equiv> approval_id sid call"
  shows "case approval_get st aid of
      None \<Rightarrow> execute_pending k sid (call # rest) (st, w) =
                (Inr (Some aid), await_approval sid aid call (call # rest) st, w1)
    | Some (status, who) \<Rightarrow> status = ''denied'' \<longrightarrow>
        (\<exists>st1. execute_pending k sid (call # rest) (st, w) = execute_pending k sid rest (st1, w1) \<and>
           journal st1 = journal st \<and> tool_results st1 = tool_results st \<and> approvals st1 = approvals st)"
proof -
  have ne: "\<not> batch_eligible k call" using assms(1) by (auto simp: batch_eligible_def split: option.splits)
  have step: "execute_pending k sid (call # rest) (st, w) =
      (case sequential_call k sid call (call # rest) (st, w1) of
         (Inl e, s1) \<Rightarrow> (Inl e, s1) | (Inr (Some aid), s1) \<Rightarrow> (Inr (Some aid), s1)
       | (Inr None, s1) \<Rightarrow> execute_pending k sid rest s1)"
    using assms(2) ne by (simp add: execute_pending.simps(2))
  show ?thesis
  proof (cases "approval_get st aid")
    case None
    with step assms(1) show ?thesis by (simp add: sequential_call_def aid_def Let_def)
  next
    case (Some p)
    obtain s a where p: "p = (s, a)" by (cases p)
    let ?st1 = "add_tool_msg sid call (''DENIED by approver '' @ a @ '': action not authorized'')
        (approval_event sid ''approval_denied_exec'' call aid a st)"
    have "journal ?st1 = journal st" "tool_results ?st1 = tool_results st" "approvals ?st1 = approvals st"
      by (simp_all add: add_tool_msg_def approval_event_def)
    moreover have "s = ''denied'' \<Longrightarrow> execute_pending k sid (call # rest) (st, w) = execute_pending k sid rest (?st1, w1)"
      using step assms(1) Some p by (simp add: sequential_call_def aid_def Let_def)
    ultimately show ?thesis using Some p by auto
  qed
qed

theorem gate_holds_call_witness:
  "execute_pending gated_kernel ''s'' [echo_call] (empty_store, 0) =
     (Inr (Some (approval_id ''s'' echo_call)),
      await_approval ''s'' (approval_id ''s'' echo_call) echo_call [echo_call] empty_store, 0)"
proof -
  have "gated gated_kernel echo_call"
    by (simp add: gated_def gated_kernel_def requires_approval_def matches_def echo_call_def)
  moreover have "poll_cancel gated_kernel 0 = (False, 0)" by (simp add: poll_cancel_def gated_kernel_def echo_kernel_def)
  moreover have "approval_get empty_store (approval_id ''s'' echo_call) = None"
    by (simp add: approval_get_def empty_store_def)
  ultimately show ?thesis
    using gate_holds_call [where k = gated_kernel and call = echo_call and w = 0 and ?w1.0 = 0
        and sid = "''s''" and st = empty_store and rest = "[]"] by simp
qed

text \<open>An approval is bound to its action. Two actions share an approval id only if they agree in
  session, tool, model-given call id and (up to key order) arguments, or the two serialised payloads
  are a collision of SHA-256.\<close>

theorem approval_id_binds:
  assumes "call_ok c" and "call_ok c'" and "approval_id sid c = approval_id sid' c'"
  shows "sid = sid' \<and> tc_name c = tc_name c' \<and> tc_id c = tc_id c' \<and>
      sort_json (JObj (tc_arguments c)) = sort_json (JObj (tc_arguments c')) \<or>
    collision
      (encode (canonical (JObj [(''s'', JStr sid), (''t'', JStr (tc_name c)), (''a'', JObj (tc_arguments c)), (''c'', JStr (tc_id c))])))
      (encode (canonical (JObj [(''s'', JStr sid'), (''t'', JStr (tc_name c')), (''a'', JObj (tc_arguments c')), (''c'', JStr (tc_id c'))])))"
proof -
  let ?p = "\<lambda>s c. [(''s'', JStr s), (''t'', JStr (tc_name c)), (''a'', JObj (tc_arguments c)), (''c'', JStr (tc_id c))]"
  have wf: "wf_json (JObj (?p s d))" if "call_ok d" for s d using that by (simp add: call_ok_def)
  have get: "jget (sort_json (JObj (?p s d))) x = map_option sort_json (dict_get (?p s d) x)" for s d x
    by (rule dict_get_sort_json) simp
  have "sha256 (encode (canonical (JObj (?p sid c)))) = sha256 (encode (canonical (JObj (?p sid' c'))))"
    using assms(3) by (simp add: approval_id_def)
  then consider "canonical (JObj (?p sid c)) = canonical (JObj (?p sid' c'))"
    | "collision (encode (canonical (JObj (?p sid c)))) (encode (canonical (JObj (?p sid' c'))))"
    by (auto dest!: sha256_eq_or_collision)
  then show ?thesis
  proof cases
    case 1
    then have eq: "sort_json (JObj (?p sid c)) = sort_json (JObj (?p sid' c'))"
      using canonical_inject [OF wf [OF assms(1)] wf [OF assms(2)]] by blast
    have "map_option sort_json (dict_get (?p sid c) x) = map_option sort_json (dict_get (?p sid' c') x)" for x
      using eq get by metis
    from this [of "''s''"] this [of "''t''"] this [of "''a''"] this [of "''c''"] show ?thesis
      by (simp add: sort_json.simps(3-6))
  qed blast
qed

theorem approval_id_binds_witness:
  "sort_json (JObj (tc_arguments echo_call)) = sort_json (JObj (tc_arguments (norm_call echo_call)))"
proof -
  have "call_ok (norm_call echo_call)"
    using wf_sort_json [of "JObj (tc_arguments echo_call)"] echo_call_ok by (simp only: call_ok_def norm_call_args)
  from approval_id_binds [OF echo_call_ok this approval_id_norm [symmetric, of "''s''"]] show ?thesis
    by (simp add: norm_call_args canonical_arg collision_def)
qed

text \<open>The first decision stands. Once an action is denied, no later approval changes the decision the
  gate reads, although each one is ledgered as approved; and the other way round.\<close>

theorem first_decision_stands:
  assumes "store_ok st" and "approval_get st aid = None"
  shows "approval_get (approve sid aid b (deny sid aid a st)) aid = Some (''denied'', a) \<and>
    approval_get (deny sid aid b (approve sid aid a st)) aid = Some (''approved'', a) \<and>
    last (events_of (ledger_rows (approve sid aid b (deny sid aid a st)) sid)) =
      sort_json (JObj [(''type'', JStr ''approval''), (''decision'', JStr ''approved''),
         (''approval_id'', JStr aid), (''approver'', JStr b)])"
proof -
  note d = approval_get_decided [OF assms(2), of sid a]
  have keep: "approval_get (approve sid aid b s) aid = approval_get s aid"
      "approval_get (deny sid aid b s) aid = approval_get s aid" if "approval_get s aid = Some v" for s v
    using that approvals_table.put_keeps [of s aid v aid sid "(''approved'', b)"]
      approvals_table.put_keeps [of s aid v aid sid "(''denied'', b)"]
      approval_frame [OF approve_frame(2)] approval_frame [OF approve_frame(4)] by simp_all
  have "ledger_ok (approval_put (deny sid aid a st) aid sid ''approved'' b)"
  proof -
    have "ledger_ok (approval_put st aid sid ''denied'' a)"
      using assms(1) ledger_reads_frame(2) [OF approval_put_frame(5)] by (simp add: store_ok_def)
    then have "ledger_ok (deny sid aid a st)" unfolding deny_def note_event_def by (rule ledger_append_ok) simp
    then show ?thesis using ledger_reads_frame(2) [OF approval_put_frame(5)] by simp
  qed
  from events_of_append [OF this] have "last (events_of (ledger_rows (approve sid aid b (deny sid aid a st)) sid)) =
      sort_json (JObj [(''type'', JStr ''approval''), (''decision'', JStr ''approved''),
         (''approval_id'', JStr aid), (''approver'', JStr b)])"
    unfolding approve_def note_event_def by simp
  with keep [OF d(1)] keep [OF d(2)] d show ?thesis by simp
qed

theorem first_decision_stands_witness:
  "approval_get (approve ''s'' ''id'' ''bob'' (deny ''s'' ''id'' ''ann'' empty_store)) ''id'' = Some (''denied'', ''ann'')"
proof -
  have "approval_get empty_store ''id'' = None" by (simp add: approval_get_def empty_store_def)
  from first_decision_stands [OF empty_store_ok this] show ?thesis by blast
qed

end
