(* ===== verification/Recovery.thy ===== *)
theory Recovery
  imports Execution
begin

text \<open>
  Crash recovery (\<open>Kernel.recover\<close> in \<open>scr/kernel.py\<close>) and a model of where a call can be
  cut off: the durable states between two consecutive writes of \<open>_execute_call\<close>. Recovery is a
  function of the store alone, so it cannot run a tool.
\<close>

definition report :: "string \<Rightarrow> string \<Rightarrow> string \<Rightarrow> recovery_report" where
  "report sid status detail = \<lparr>rc_session = sid, rc_status = status, rc_detail = detail\<rparr>"

definition missing_key :: "string \<Rightarrow> py_exn" where
  "missing_key k = mk_exn ''KeyError'' (py_repr k)"

text \<open>
  The payload is read with subscripts, so an absent field raises. The kernel writes the tool name and
  the key as strings. The dash in the message of the last case is outside the character set of the
  model and appears as a hyphen.
\<close>

definition recover_exec :: "string \<Rightarrow> journal_entry \<Rightarrow> store \<Rightarrow> (py_exn + recovery_report) \<times> store" where
  "recover_exec sid tail st =
     (case jget (je_payload tail) ''idem_key'' of
        Some (JStr key) \<Rightarrow>
          (case tool_result_get st key of
             Some _ \<Rightarrow>
               (Inr (report sid ''resumed'' ''result persisted before crash; folded without re-execution''),
                note_journal sid ''EXEC_DONE'' [(''intent_seq'', JInt (int (je_seq tail))), (''idem_key'', JStr key),
                  (''recovered'', JBool True)] st)
           | None \<Rightarrow>
               (case jget (je_payload tail) ''idempotent'' of
                  None \<Rightarrow> (Inl (missing_key ''idempotent''), st)
                | Some idem \<Rightarrow>
                    if truthy idem then
                      (let st1 = note_journal sid ''RECOVERED'' [(''from'', JStr ''EXEC_INTENT''),
                             (''action'', JStr ''safe_reissue''), (''idem_key'', JStr key)] st
                       in case jget (je_payload tail) ''tool'' of
                            None \<Rightarrow> (Inl (missing_key ''tool''), st1)
                          | Some tool \<Rightarrow> (Inr (report sid ''safe_reissue''
                              (''idempotent tool '' @ py_repr_json tool @ '' may be re-executed'')), st1))
                    else
                      (case jget (je_payload tail) ''tool'' of
                         None \<Rightarrow> (Inl (missing_key ''tool''), st)
                       | Some tool \<Rightarrow>
                           (Inr (report sid ''quarantined'' (''non-idempotent tool '' @ py_repr_json tool @
                                '' interrupted; human review required - will not re-execute'')),
                            set_session_status
                              (note_journal sid ''FAILED_NEEDS_REVIEW'' [(''from'', JStr ''EXEC_INTENT''),
                                 (''tool'', tool), (''idem_key'', JStr key)] st) sid ''needs_review''))))
      | _ \<Rightarrow> (Inl (missing_key ''idem_key''), st))"

definition recover :: "string \<Rightarrow> store \<Rightarrow> (py_exn + recovery_report) \<times> store" where
  "recover sid st =
     (case journal_tail st sid of
        Inl e \<Rightarrow> (Inl e, st)
      | Inr None \<Rightarrow> (Inr (report sid ''clean'' ''no journal''), st)
      | Inr (Some tail) \<Rightarrow>
          if je_state tail = ''MODEL_CALL_INTENT'' then
            (Inr (report sid ''reissue_model_call'' ''model call interrupted before completion record''),
             note_journal sid ''RECOVERED'' [(''from'', JStr ''MODEL_CALL_INTENT''),
               (''action'', JStr ''reissue_model_call'')] st)
          else if je_state tail = ''EXEC_INTENT'' then recover_exec sid tail st
          else (Inr (report sid ''clean'' (''tail state '' @ je_state tail)), st))"

subsection \<open>Where a call can be cut off\<close>

text \<open>
  The store as a crash may leave it: before the intent, with the intent written, with the tool
  (partly) run but its result not persisted, with the result persisted, with the completion record,
  and after the call. \<open>Tool_Cut\<close> allows any effect the tool's contract allows, so it covers a
  tool that was cut off half way.
\<close>

datatype stage = Before | Intended | Running | Persisted | Completed

inductive cut :: "string \<Rightarrow> tool_call \<Rightarrow> 'w tool_spec \<Rightarrow> store \<Rightarrow> stage \<Rightarrow> store \<Rightarrow> bool"
  for sid call spec st where
  Not_Started: "cut sid call spec st Before st"
| Intent_Cut: "write_intent sid call (ts_idempotent spec) st = (Inr (sq, key), st1) \<Longrightarrow>
     cut sid call spec st Intended st1"
| Tool_Cut: "cut sid call spec st Intended st1 \<Longrightarrow> grows st1 st2 \<Longrightarrow>
     journal_view st2 sid = journal_view st1 sid \<Longrightarrow> tool_results st2 = tool_results st1 \<Longrightarrow>
     cut sid call spec st Running st2"
| Result_Cut: "cut sid call spec st Running st2 \<Longrightarrow>
     key = idem_key sid (Suc (length (journal_rows st sid))) (tc_name call) (tc_arguments call) \<Longrightarrow>
     cut sid call spec st Persisted (tool_result_put st2 key sid (tc_name call) result)"
| Done_Cut: "cut sid call spec st Persisted st3 \<Longrightarrow>
     sq = Suc (length (journal_rows st sid)) \<Longrightarrow>
     key = idem_key sid sq (tc_name call) (tc_arguments call) \<Longrightarrow>
     cut sid call spec st Completed (note_journal sid ''EXEC_DONE'' [(''intent_seq'', JInt (int sq)), (''idem_key'', JStr key)] st3)"

inductive_cases cut_IntendedE: "cut sid call spec st Intended st'"
inductive_cases cut_RunningE: "cut sid call spec st Running st'"
inductive_cases cut_PersistedE: "cut sid call spec st Persisted st'"
inductive_cases cut_CompletedE: "cut sid call spec st Completed st'"


subsection \<open>Reading the tail\<close>

lemma journal_tail_view:
  assumes "journal_view st sid = xs @ [(n, s, Some p)]"
  shows "journal_tail st sid = Inr (Some \<lparr>je_seq = n, je_state = s, je_payload = p\<rparr>)"
proof -
  have ne: "journal_rows st sid \<noteq> []" using assms by (auto simp: journal_view_def)
  then obtain rs r where r: "journal_rows st sid = rs @ [r]" by (meson rev_exhaust)
  with assms have "jr_seq r = n" "jr_state r = s" "loads (jr_payload r) = Some p" by (auto simp: journal_view_def)
  with r show ?thesis by (simp add: journal_tail_def decode_row_def)
qed

lemma journal_tail_wf:
  assumes "journal_tail st sid = Inr (Some e)"
  shows "wf_json (je_payload e)"
proof -
  obtain r where "decode_row r = Inr e" using assms by (auto simp: journal_tail_def split: list.splits sum.splits)
  then show ?thesis by (auto simp: decode_row_def split: option.splits dest: loads_wf)
qed

lemma jget_wf: "wf_json j \<Longrightarrow> jget j k = Some v \<Longrightarrow> wf_json v"
  by (cases j) (auto simp: dict_get_def dest: map_of_SomeD)

lemma intent_view:
  fixes sid :: string
  assumes st: "store_ok st" and c: "call_ok call"
  defines "q \<equiv> Suc (length (journal_rows st sid))"
  assumes cut: "cut sid call spec st stage st'" and stage: "stage \<in> {Intended, Running, Persisted}"
  shows "store_ok st' \<and> journal_view st' sid = journal_view st sid @
    [(q, ''EXEC_INTENT'', Some (sort_json (JObj (intent_payload sid call (ts_idempotent spec) q))))] \<and>
    (if stage = Persisted
     then tool_result_get st' (idem_key sid q (tc_name call) (tc_arguments call)) \<noteq> None
     else tool_results st' = tool_results st)"
  using cut stage
proof (induction rule: cut.induct)
  case (Intent_Cut sq key st1)
  then have "st1 = note_journal sid ''EXEC_INTENT'' (intent_payload sid call (ts_idempotent spec) q) st"
    using write_intent_eq [OF st c, of sid "ts_idempotent spec"] by (auto simp: q_def)
  then show ?case
    using journal_view_note [OF st intent_payload_wf [OF c], of sid "''EXEC_INTENT''" sid "ts_idempotent spec" q]
      grows_ok [OF note_journal_grows [OF st intent_payload_wf [OF c]]]
    by (simp add: q_def)
next
  case (Tool_Cut st1 st2)
  then show ?case by (simp add: grows_ok)
next
  case (Result_Cut st2 key result)
  then have "store_ok st2" by simp
  then have "store_ok (tool_result_put st2 key sid (tc_name call) result)"
    by (rule grows_ok [OF tool_result_put_grows])
  with Result_Cut show ?case
    using results_table.put_present [of st2 key sid "tc_name call" result] by (simp add: q_def)
qed (simp_all)

lemma intent_fields:
  "jget (sort_json (JObj (intent_payload sid call idem q))) ''idem_key'' =
     Some (JStr (idem_key sid q (tc_name call) (tc_arguments call)))"
  "jget (sort_json (JObj (intent_payload sid call idem q))) ''idempotent'' = Some (JBool idem)"
  "jget (sort_json (JObj (intent_payload sid call idem q))) ''tool'' = Some (JStr (tc_name call))"
proof -
  have d: "distinct (map fst (intent_payload sid call idem q))" by (simp add: intent_payload_def)
  show "jget (sort_json (JObj (intent_payload sid call idem q))) ''idem_key'' =
     Some (JStr (idem_key sid q (tc_name call) (tc_arguments call)))"
    "jget (sort_json (JObj (intent_payload sid call idem q))) ''idempotent'' = Some (JBool idem)"
    "jget (sort_json (JObj (intent_payload sid call idem q))) ''tool'' = Some (JStr (tc_name call))"
    unfolding dict_get_sort_json [OF d] by (simp_all add: intent_payload_def sort_json.simps(3-6))
qed

lemma set_status_frame: "last_state (set_session_status st sid s) = last_state st"
  by (rule last_state_frame) simp

lemma session_status_set:
  "session_status st sid \<noteq> None \<Longrightarrow> session_status (set_session_status st sid s) sid = Some s"
proof -
  have "find (\<lambda>r. ses_id r = sid) rs \<noteq> None \<Longrightarrow>
      map_option ses_status (find (\<lambda>r. ses_id r = sid)
        (map (\<lambda>r. if ses_id r = sid then r\<lparr>ses_status := s\<rparr> else r) rs)) = Some s" for rs
    by (induction rs) auto
  then show "session_status st sid \<noteq> None \<Longrightarrow> ?thesis"
    by (simp add: session_status_def set_session_status_def)
qed

subsection \<open>Properties\<close>

text \<open>C7: A crash in a tool call is classified by what is durable. Cut off after the write-ahead record
  and before the result is persisted, a call of a tool with side effects is quarantined and the
  session marked for review, a call of an idempotent tool is released for re-execution; cut off
  after its result is persisted, it is closed without running again; cut off after its completion
  record, nothing is left to do. In every case the recovered journal ends in a state that is not an
  execution intent, and no tool result and no message changes.\<close>

theorem crash_classified:
  fixes sid :: string
  assumes st: "store_ok st" and c: "call_ok call"
    and fresh: "tool_result_get st (idem_key sid (Suc (length (journal_rows st sid))) (tc_name call) (tc_arguments call)) = None"
    and cut: "cut sid call spec st stage crashed" and started: "stage \<noteq> Before"
  shows "\<exists>rep st'. recover sid crashed = (Inr rep, st') \<and>
    rc_status rep = (if stage \<in> {Intended, Running} then if ts_idempotent spec then ''safe_reissue'' else ''quarantined''
                     else if stage = Persisted then ''resumed'' else ''clean'') \<and>
    last_state st' sid = Some (if stage \<in> {Intended, Running} then
                       if ts_idempotent spec then ''RECOVERED'' else ''FAILED_NEEDS_REVIEW'' else ''EXEC_DONE'') \<and>
    tool_results st' = tool_results crashed \<and> messages st' = messages crashed \<and>
    (rc_status rep = ''quarantined'' \<and> session_status crashed sid \<noteq> None \<longrightarrow> session_status st' sid = Some ''needs_review'')"
proof -
  let ?q = "Suc (length (journal_rows st sid))"
  let ?key = "idem_key sid ?q (tc_name call) (tc_arguments call)"
  consider (mid) "stage \<in> {Intended, Running, Persisted}" | (closed) "stage = Completed"
    using started by (cases stage) auto
  then show ?thesis
  proof cases
    case mid
    note v = intent_view [OF st c cut mid]
    have tail: "journal_tail crashed sid = Inr (Some \<lparr>je_seq = ?q, je_state = ''EXEC_INTENT'',
        je_payload = sort_json (JObj (intent_payload sid call (ts_idempotent spec) ?q))\<rparr>)"
      using v by (intro journal_tail_view) auto
    have j: "journal_ok crashed" using v by (simp add: store_ok_def)
    have rec: "recover sid crashed = recover_exec sid \<lparr>je_seq = ?q, je_state = ''EXEC_INTENT'',
        je_payload = sort_json (JObj (intent_payload sid call (ts_idempotent spec) ?q))\<rparr> crashed"
      by (simp add: recover_def tail)
    show ?thesis
    proof (cases "stage = Persisted")
      case True
      then obtain r where "tool_result_get crashed ?key = Some r" using v by auto
      with True rec j show ?thesis
        by (simp add: recover_exec_def intent_fields report_def last_state_note)
    next
      case False
      then have "tool_result_get crashed ?key = None" using v fresh by (simp add: tool_result_get_def)
      with False mid rec j show ?thesis
        by (cases "ts_idempotent spec")
           (auto simp: recover_exec_def intent_fields report_def truthy_def last_state_note set_status_frame
             session_status_set session_status_def [of "note_journal _ _ _ _"] session_status_def [of crashed])
    qed
  next
    case closed
    with cut obtain st3 key where st3: "cut sid call spec st Persisted st3"
      "crashed = note_journal sid ''EXEC_DONE'' [(''intent_seq'', JInt (int ?q)), (''idem_key'', JStr key)] st3"
      by (auto elim: cut_CompletedE)
    have ok3: "store_ok st3" using intent_view [OF st c st3(1)] by simp
    have "journal_tail crashed sid = Inr (Some \<lparr>je_seq = Suc (length (journal_rows st3 sid)), je_state = ''EXEC_DONE'',
        je_payload = sort_json (JObj [(''intent_seq'', JInt (int ?q)), (''idem_key'', JStr key)])\<rparr>)"
      using st3(2) journal_tail_append [OF store_ok_journal [OF ok3]] by (simp add: note_journal_def)
    moreover have "last_state crashed sid = Some ''EXEC_DONE''"
      using st3(2) ok3 by (simp add: last_state_note)
    ultimately show ?thesis using closed by (simp add: recover_def report_def)
  qed
qed

theorem crash_classified_witness:
  "\<exists>crashed rep st'. cut ''s'' echo_call (echo_tool\<lparr>ts_idempotent := False\<rparr>) empty_store Intended crashed \<and>
     recover ''s'' crashed = (Inr rep, st') \<and> rc_status rep = ''quarantined''"
proof -
  let ?spec = "echo_tool\<lparr>ts_idempotent := False\<rparr>"
  obtain crashed where cut: "cut ''s'' echo_call ?spec empty_store Intended crashed"
    using write_intent_eq [OF empty_store_ok echo_call_ok, of "''s''" "ts_idempotent ?spec"] by (blast intro: cut.Intent_Cut)
  have "tool_result_get empty_store key = None" for key by (simp add: tool_result_get_def empty_store_def)
  from crash_classified [OF empty_store_ok echo_call_ok this cut] cut show ?thesis by auto
qed

text \<open>Recovery is idempotent. After one recovery that reports, a second one reports clean and
  changes nothing.\<close>

theorem recover_idempotent:
  assumes st: "store_ok st" and r: "recover sid st = (Inr rep, st')"
  shows "\<exists>rep'. recover sid st' = (Inr rep', st') \<and> rc_status rep' = ''clean''"
proof -
  have j: "journal_ok st" using st by (simp add: store_ok_def)
  have noting: "\<exists>rep'. recover sid s' = (Inr rep', s') \<and> rc_status rep' = ''clean''"
    if "journal s' = journal (note_journal sid s p st)" "s \<noteq> ''EXEC_INTENT''" "s \<noteq> ''MODEL_CALL_INTENT''" "wf_json (JObj p)"
    for s p s'
    using journal_tail_append [OF j that(4), of sid s] that(2,3) journal_reads_frame(3) [OF that(1)]
    by (simp add: recover_def report_def note_journal_def)
  obtain t where t: "journal_tail st sid = Inr t" using journal_tail_ok [OF j] by blast
  consider (same) "st' = st" "rc_status rep = ''clean''" "t = None \<or> (\<exists>e. t = Some e \<and> je_state e \<noteq> ''EXEC_INTENT'' \<and> je_state e \<noteq> ''MODEL_CALL_INTENT'')"
    | (noted) s p where "journal st' = journal (note_journal sid s p st)" "s \<noteq> ''EXEC_INTENT''"
        "s \<noteq> ''MODEL_CALL_INTENT''" "wf_json (JObj p)"
    | (exec) e where "t = Some e" "je_state e = ''EXEC_INTENT''" "recover_exec sid e st = (Inr rep, st')"
    using r t by (auto simp: recover_def report_def split: option.splits if_splits)
  then show ?thesis
  proof cases
    case same
    with t show ?thesis by (auto simp: recover_def report_def)
  next
    case noted
    then show ?thesis by (rule noting)
  next
    case exec
    have tool_leaf: "wf_json j" if "jget (je_payload e) ''tool'' = Some j" for j
      using exec(1) t that journal_tail_wf jget_wf by blast
    from exec(3) obtain s p where "journal st' = journal (note_journal sid s p st)"
        "s \<in> {''EXEC_DONE'', ''RECOVERED'', ''FAILED_NEEDS_REVIEW''}" "wf_json (JObj p)"
      using tool_leaf by (fastforce simp: recover_exec_def Let_def split: option.splits json.splits if_splits)
    then show ?thesis by (intro noting) auto
  qed
qed

theorem recover_idempotent_witness:
  "\<exists>rep st' rep'. recover ''s'' (note_journal ''s'' ''MODEL_CALL_INTENT'' [] empty_store) = (Inr rep, st') \<and>
     recover ''s'' st' = (Inr rep', st') \<and> rc_status rep' = ''clean''"
proof -
  let ?st = "note_journal ''s'' ''MODEL_CALL_INTENT'' [] empty_store"
  have ok: "store_ok ?st" by (rule grows_ok [OF note_journal_grows [OF empty_store_ok]]) simp
  have "\<exists>rep st'. recover ''s'' ?st = (Inr rep, st')"
    using journal_tail_append [of empty_store "[]" "''s''" "''MODEL_CALL_INTENT''"]
    by (simp add: recover_def note_journal_def)
  then obtain rep st' where r: "recover ''s'' ?st = (Inr rep, st')" by blast
  with recover_idempotent [OF ok r] show ?thesis by blast
qed

text \<open>
  The stages are those of \<open>_execute_call\<close>: the store of a call that ran its tool is the completed
  stage with ledger events added.
\<close>

lemma execute_call_completes:
  assumes k: "kernel_ok sid k" and st: "store_ok st" and c: "call_ok call"
    and spec: "cap_check k call = Inr spec" and priv: "results_private spec"
    and fresh: "tool_result_get st (idem_key sid (Suc (length (journal_rows st sid))) (tc_name call) (tc_arguments call)) = None"
    and run: "execute_call k sid call (st, w) = (Inr result, st', w')"
  shows "\<exists>st4. cut sid call spec st Completed st4 \<and> journal st' = journal st4 \<and> tool_results st' = tool_results st4"
proof -
  let ?q = "Suc (length (journal_rows st sid))"
  let ?key = "idem_key sid ?q (tc_name call) (tc_arguments call)"
  let ?st1 = "note_journal sid ''EXEC_INTENT'' (intent_payload sid call (ts_idempotent spec) ?q) st"
  have c1: "cut sid call spec st Intended ?st1" using write_intent_eq [OF st c] by (rule cut.Intent_Cut)
  have ok1: "store_ok ?st1" using intent_view [OF st c c1] by simp
  obtain r st2 w2 where fn: "run_tool_fn spec call (?st1, w) = (r, st2, w2)" by (cases "run_tool_fn spec call (?st1, w)")
  have ts: "tool_ok sid spec" using k spec by (auto simp: cap_check_Inr intro: kernel_okD(1))
  have c2: "cut sid call spec st Running st2"
    using run_tool_fn_grows [OF ts ok1 fn] run_tool_fn_private [OF priv fn] by (intro cut.Tool_Cut [OF c1]) auto
  have st': "st' = close_exec sid call ?q ?key False result (tool_result_put st2 ?key sid (tc_name call) result)"
    using run fresh fn execute_call_granted [OF st c spec, of sid w] by (auto split: sum.splits)
  show ?thesis
    by (rule exI, rule conjI, rule cut.Done_Cut [OF cut.Result_Cut [OF c2 refl] refl refl])
       (simp add: st' close_exec_def)
qed

text \<open>Recovery does not fold. Whatever recovery reports, also \<open>resumed\<close>, it leaves the
  conversation, the persisted results and the ledger as they were: the persisted result of an
  interrupted call is not added to the messages.\<close>

theorem recover_folds_nothing:
  "messages (snd (recover sid st)) = messages st \<and> tool_results (snd (recover sid st)) = tool_results st \<and>
   ledger (snd (recover sid st)) = ledger st"
  by (auto simp: recover_def recover_exec_def Let_def split: sum.splits option.splits json.splits)

end
