(* ===== verification/Orchestration.thy ===== *)
theory Orchestration
  imports Capability State
begin

text \<open>
  Multi-agent topology (\<open>scr/orchestration.py\<close>): the delegation tree, the path from the root to
  an agent, revocation, and the effective manifest of an agent. The mailbox class only forwards to
  the store.
\<close>

record agent_node =
  an_name :: string
  an_manifest :: manifest

record team =
  tm_root :: agent_node
  tm_edges :: "(string \<times> string list) list"
  tm_nodes :: "(string \<times> agent_node) list"
  tm_max_depth :: nat
  tm_revoked :: "string set"

definition delegation_error :: "string \<Rightarrow> py_exn" where
  "delegation_error msg = mk_exn ''DelegationError'' msg"

definition revoke :: "team \<Rightarrow> string \<Rightarrow> team" where
  "revoke t name = t\<lparr>tm_revoked := insert name (tm_revoked t)\<rparr>"

definition team_add :: "team \<Rightarrow> string \<Rightarrow> agent_node \<Rightarrow> py_exn + team" where
  "team_add t parent child =
     (if parent \<notin> set (dict_keys (tm_nodes t)) \<and> parent \<noteq> an_name (tm_root t)
      then Inl (delegation_error (''unknown parent '' @ py_repr parent))
      else Inr (t\<lparr>tm_nodes := dict_set (an_name child) child (tm_nodes t),
             tm_edges := dict_set parent
               ((case dict_get (tm_edges t) parent of None \<Rightarrow> [] | Some cs \<Rightarrow> cs) @ [an_name child])
               (tm_edges t)\<rparr>))"

definition team_node :: "team \<Rightarrow> string \<Rightarrow> py_exn + agent_node" where
  "team_node t name =
     (if name = an_name (tm_root t) then Inr (tm_root t)
      else (case dict_get (tm_nodes t) name of
              None \<Rightarrow> Inl (mk_exn ''KeyError'' (py_repr name))
            | Some a \<Rightarrow> Inr a))"

definition parent_of :: "(string \<times> string list) list \<Rightarrow> (string \<times> string) list" where
  "parent_of edges =
     fold (\<lambda>(parent, children) d. fold (\<lambda>c d. dict_set c parent d) children d) edges []"

text \<open>
  The loop of \<open>path_to\<close>. The chain is kept newest first, which is the order the code ends with
  after reversing it.
\<close>

function climb ::
  "string \<Rightarrow> (string \<times> string) list \<Rightarrow> nat \<Rightarrow> string \<Rightarrow> string \<Rightarrow> string list \<Rightarrow> py_exn + string list" where
  "climb rt parents depth name c below =
     (if c = rt then Inr (c # below)
      else (case dict_get parents c of
              None \<Rightarrow> Inl (delegation_error (py_repr name @ '' not reachable from root''))
            | Some p \<Rightarrow>
                if length (p # c # below) > depth + 1
                then Inl (delegation_error (''delegation depth exceeds '' @ nat_str depth))
                else climb rt parents depth name p (c # below)))"
  by pat_completeness auto
termination
  by (relation "measure (\<lambda>(rt, parents, depth, name, c, below). depth - length below)") auto

declare climb.simps [simp del]

definition path_to :: "team \<Rightarrow> string \<Rightarrow> py_exn + string list" where
  "path_to t name =
     climb (an_name (tm_root t)) (parent_of (tm_edges t)) (tm_max_depth t) name name []"

definition is_severed :: "team \<Rightarrow> string \<Rightarrow> py_exn + bool" where
  "is_severed t name =
     (case path_to t name of Inl e \<Rightarrow> Inl e | Inr path \<Rightarrow> Inr (\<exists>n\<in>set path. n \<in> tm_revoked t))"

fun narrow_path ::
  "(string \<Rightarrow> string) \<Rightarrow> team \<Rightarrow> manifest \<Rightarrow> string list \<Rightarrow> py_exn + manifest" where
  "narrow_path realpath t eff [] = Inr eff"
| "narrow_path realpath t eff (n # ns) =
     (case team_node t n of
        Inl e \<Rightarrow> Inl e
      | Inr a \<Rightarrow> (case attenuate realpath eff (an_manifest a) of
                    Inl e \<Rightarrow> Inl e
                  | Inr eff' \<Rightarrow> narrow_path realpath t eff' ns))"

definition effective_manifest ::
  "(string \<Rightarrow> string) \<Rightarrow> team \<Rightarrow> string \<Rightarrow> py_exn + manifest" where
  "effective_manifest realpath t name =
     (case path_to t name of
        Inl e \<Rightarrow> Inl e
      | Inr path \<Rightarrow>
          if \<exists>n\<in>set path. n \<in> tm_revoked t
          then Inl (delegation_error (''delegation chain to '' @ py_repr name @
                 '' severed by a revoked ancestor''))
          else narrow_path realpath t (an_manifest (tm_root t)) (tl path))"

subsection \<open>Paths\<close>

lemma climb_path:
  "climb rt parents depth name c below = Inr path \<Longrightarrow> length below \<le> depth \<Longrightarrow>
   \<exists>up. path = up @ c # below \<and> hd path = rt \<and> length path \<le> depth + 1"
proof (induction rt parents depth name c below rule: climb.induct)
  case (1 rt parents depth name c below)
  show ?case
  proof (cases "c = rt")
    case True
    with 1 show ?thesis by (auto simp: climb.simps)
  next
    case False
    with "1.prems" obtain p where p: "dict_get parents c = Some p" "length (p # c # below) \<le> depth + 1"
        "climb rt parents depth name p (c # below) = Inr path"
      by (subst (asm) climb.simps) (auto split: option.splits if_splits)
    with "1.IH" [OF False p(1)] have "\<exists>up. path = up @ p # c # below \<and> hd path = rt \<and> length path \<le> depth + 1"
      by simp
    then show ?thesis by (metis append.assoc append_Cons append_Nil)
  qed
qed

lemma climb_shorter:
  "climb rt parents depth name c (below @ tail) = Inr path \<Longrightarrow>
   \<exists>path'. climb rt parents depth name' c below = Inr path' \<and> path = path' @ tail"
proof (induction rt parents depth name' c below rule: climb.induct)
  case (1 rt parents depth name' c below)
  show ?case
  proof (cases "c = rt")
    case True
    with 1 show ?thesis by (auto simp: climb.simps)
  next
    case False
    with "1.prems" obtain p where p: "dict_get parents c = Some p"
        "\<not> length (p # c # below) > depth + 1"
        "climb rt parents depth name p ((c # below) @ tail) = Inr path"
      by (subst (asm) climb.simps) (auto split: option.splits if_splits)
    from "1.IH" [OF False p(1,2)] p(3) obtain path' where
      "climb rt parents depth name' p (c # below) = Inr path'" "path = path' @ tail" by auto
    then show ?thesis using False p(1,2) by (subst climb.simps) simp
  qed
qed

lemma path_to_Inr:
  "path_to t name = Inr path \<Longrightarrow>
   \<exists>up. path = up @ [name] \<and> hd path = an_name (tm_root t) \<and> length path \<le> tm_max_depth t + 1"
  unfolding path_to_def by (drule climb_path) auto

text \<open>The path to a delegator is the path to its delegate without the last step.\<close>

lemma path_to_parent:
  assumes "path_to t name = Inr path" and "name \<noteq> an_name (tm_root t)"
  shows "\<exists>p path'. dict_get (parent_of (tm_edges t)) name = Some p \<and> path_to t p = Inr path' \<and>
    path = path' @ [name]"
proof -
  let ?r = "an_name (tm_root t)" and ?ps = "parent_of (tm_edges t)" and ?d = "tm_max_depth t"
  from assms obtain p where p: "dict_get ?ps name = Some p" "climb ?r ?ps ?d name p ([] @ [name]) = Inr path"
    unfolding path_to_def by (subst (asm) climb.simps) (auto split: option.splits if_splits)
  from climb_shorter [OF p(2), of p] p(1) show ?thesis unfolding path_to_def by auto
qed

lemma narrow_path_descend:
  "narrow_path rp t eff ns = Inr m \<Longrightarrow>
   \<exists>as. map (team_node t) ns = map Inr as \<and> descend (attenuate rp) eff (map an_manifest as) = Inr m"
proof (induction rp t eff ns rule: narrow_path.induct)
  case (2 rp t eff n ns)
  then obtain a eff' where a: "team_node t n = Inr a" "attenuate rp eff (an_manifest a) = Inr eff'"
    "narrow_path rp t eff' ns = Inr m" by (auto split: sum.splits)
  with 2 obtain as where "map (team_node t) ns = map Inr as"
    "descend (attenuate rp) eff' (map an_manifest as) = Inr m" by blast
  with a show ?case by (intro exI [of _ "a # as"]) simp
qed simp

lemma narrow_path_append:
  "narrow_path rp t eff (ns @ ks) = Inr m \<Longrightarrow>
   \<exists>m'. narrow_path rp t eff ns = Inr m' \<and> narrow_path rp t m' ks = Inr m"
  by (induction rp t eff ns rule: narrow_path.induct) (auto split: sum.splits)

lemma narrow_path_permits:
  assumes "narrow_path rp t eff ns = Inr m" and "permits rp fm m req"
  shows "permits rp fm eff req \<and> (\<forall>n\<in>set ns. \<exists>a. team_node t n = Inr a \<and> permits rp fm (an_manifest a) req)"
proof -
  from narrow_path_descend [OF assms(1)] obtain as where
    as: "map (team_node t) ns = map Inr as" "descend (attenuate rp) eff (map an_manifest as) = Inr m" by auto
  have "\<exists>a\<in>set as. team_node t n = Inr a" if "n \<in> set ns" for n
  proof -
    from that have "team_node t n \<in> set (map (team_node t) ns)" by auto
    then show ?thesis unfolding as(1) by auto
  qed
  with manifest_order.descend_grants [OF as(2) assms(2)] show ?thesis by fastforce
qed

lemma effective_manifest_Inr:
  "effective_manifest rp t name = Inr m \<longleftrightarrow>
     (\<exists>path. path_to t name = Inr path \<and> (\<forall>n\<in>set path. n \<notin> tm_revoked t) \<and>
             narrow_path rp t (an_manifest (tm_root t)) (tl path) = Inr m)"
  by (auto simp: effective_manifest_def split: sum.splits)

subsection \<open>Properties\<close>

text \<open>C11: No agent exceeds its delegators. If an agent has an effective manifest, there is a path of
  bounded length from the root to it, none of whose agents is revoked, and whatever the effective
  manifest permits, the manifest of every agent on that path permits.\<close>

theorem effective_within_ancestors:
  assumes "effective_manifest realpath t name = Inr m" and "permits realpath fullmatch m req"
  shows "\<exists>path. path_to t name = Inr path \<and> hd path = an_name (tm_root t) \<and> last path = name \<and>
    length path \<le> tm_max_depth t + 1 \<and>
    (\<forall>n\<in>set path. n \<notin> tm_revoked t \<and>
       (\<exists>a. team_node t n = Inr a \<and> permits realpath fullmatch (an_manifest a) req))"
proof -
  from assms(1) obtain path where path: "path_to t name = Inr path" "\<forall>n\<in>set path. n \<notin> tm_revoked t"
    "narrow_path realpath t (an_manifest (tm_root t)) (tl path) = Inr m"
    by (auto simp: effective_manifest_Inr)
  from path_to_Inr [OF path(1)] have shape: "hd path = an_name (tm_root t)" "last path = name"
    "length path \<le> tm_max_depth t + 1" "path \<noteq> []" by auto
  have "team_node t (hd path) = Inr (tm_root t)" by (simp add: team_node_def shape)
  with narrow_path_permits [OF path(3) assms(2)] shape(4)
  have "\<forall>n\<in>set path. \<exists>a. team_node t n = Inr a \<and> permits realpath fullmatch (an_manifest a) req"
    by (cases path) auto
  with path shape show ?thesis by blast
qed

definition demo_team :: team where
  "demo_team = \<lparr>tm_root = \<lparr>an_name = ''lead'', an_manifest = demo_parent\<rparr>,
     tm_edges = [(''lead'', [''dev''])],
     tm_nodes = [(''dev'', \<lparr>an_name = ''dev'', an_manifest = demo_child\<rparr>)],
     tm_max_depth = 4, tm_revoked = {}\<rparr>"

lemma demo_team_effective: "\<exists>m. effective_manifest id demo_team ''dev'' = Inr m \<and> ''fs_read'' \<in> tools m"
  by (simp add: effective_manifest_def demo_team_def path_to_def parent_of_def climb.simps
      team_node_def attenuate_def demo_parent_def demo_child_def empty_manifest_def
      classification_rank_def CLASS_ORDER_def)

theorem effective_within_ancestors_witness:
  "\<exists>path. path_to demo_team ''dev'' = Inr path \<and> length path \<le> tm_max_depth demo_team + 1 \<and>
     (\<forall>n\<in>set path. \<exists>a. team_node demo_team n = Inr a \<and>
        permits id (\<lambda>_ _. False) (an_manifest a) (UseTool ''fs_read''))"
proof -
  from demo_team_effective obtain m where m: "effective_manifest id demo_team ''dev'' = Inr m"
    "''fs_read'' \<in> tools m" by blast
  from m(2) have "permits id (\<lambda>_ _. False) m (UseTool ''fs_read'')" by (simp add: cap_simps)
  from effective_within_ancestors [OF m(1) this] show ?thesis by blast
qed

text \<open>Delegation shrinks authority at every edge. If an agent other than the root has an
  effective manifest, so has the agent that delegates to it, and the delegate's manifest permits
  nothing the delegator's does not.\<close>

theorem delegate_within_delegator:
  assumes "effective_manifest realpath t name = Inr m" and "name \<noteq> an_name (tm_root t)"
  shows "\<exists>p m'. dict_get (parent_of (tm_edges t)) name = Some p \<and>
    effective_manifest realpath t p = Inr m' \<and>
    (\<forall>req. permits realpath fullmatch m req \<longrightarrow> permits realpath fullmatch m' req)"
proof -
  from assms(1) obtain path where path: "path_to t name = Inr path" "\<forall>n\<in>set path. n \<notin> tm_revoked t"
    "narrow_path realpath t (an_manifest (tm_root t)) (tl path) = Inr m"
    by (auto simp: effective_manifest_Inr)
  from path_to_parent [OF path(1) assms(2)] obtain p path' where
    p: "dict_get (parent_of (tm_edges t)) name = Some p" "path_to t p = Inr path'" "path = path' @ [name]"
    by blast
  from path_to_Inr [OF p(2)] have "path' \<noteq> []" by auto
  with path(3) p(3) have "narrow_path realpath t (an_manifest (tm_root t)) (tl path' @ [name]) = Inr m"
    by simp
  from narrow_path_append [OF this] obtain m' where
    m': "narrow_path realpath t (an_manifest (tm_root t)) (tl path') = Inr m'"
    "narrow_path realpath t m' [name] = Inr m" by blast
  from narrow_path_permits [OF m'(2)] have "\<forall>req. permits realpath fullmatch m req \<longrightarrow> permits realpath fullmatch m' req"
    by blast
  moreover have "effective_manifest realpath t p = Inr m'"
    using p(2,3) path(2) m'(1) by (auto simp: effective_manifest_Inr)
  ultimately show ?thesis using p(1) by blast
qed

theorem delegate_within_delegator_witness:
  "\<exists>m p m'. effective_manifest id demo_team ''dev'' = Inr m \<and>
     effective_manifest id demo_team p = Inr m' \<and>
     (\<forall>req. permits id (\<lambda>_ _. False) m req \<longrightarrow> permits id (\<lambda>_ _. False) m' req)"
proof -
  from demo_team_effective obtain m where m: "effective_manifest id demo_team ''dev'' = Inr m" by blast
  have "''dev'' \<noteq> an_name (tm_root demo_team)" by (simp add: demo_team_def)
  from delegate_within_delegator [OF m this, of "\<lambda>_ _. False"] m show ?thesis by blast
qed

text \<open>Revocation severs exactly the chain. Revoking an agent takes the effective manifest from
  every agent whose delegation path passes through it, with a delegation error, and leaves that of
  every other agent as it was.\<close>

theorem revoke_severs:
  "effective_manifest realpath (revoke t r) name =
     (case path_to t name of
        Inl e \<Rightarrow> Inl e
      | Inr path \<Rightarrow>
          if r \<in> set path
          then Inl (delegation_error (''delegation chain to '' @ py_repr name @ '' severed by a revoked ancestor''))
          else effective_manifest realpath t name)"
proof -
  have p: "path_to (revoke t r) name = path_to t name" by (simp add: path_to_def revoke_def)
  have n: "narrow_path realpath (revoke t r) eff ns = narrow_path realpath t eff ns" for eff ns
    by (induction realpath t eff ns rule: narrow_path.induct)
       (auto simp: revoke_def team_node_def split: sum.splits)
  have f: "tm_root (revoke t r) = tm_root t" "tm_revoked (revoke t r) = insert r (tm_revoked t)"
    by (simp_all add: revoke_def)
  show ?thesis by (simp add: effective_manifest_def p n f split: sum.split)
qed

end
