(* ===== verification/Progress.thy ===== *)
theory Progress
  imports Execution
begin

text \<open>
  Progress of the kernel (\<open>scr/kernel.py\<close>): a model that answers, if need be after transient failures, completes
  the run; a model that keeps failing stops it with a recorded error.
\<close>

subsection \<open>The token budget\<close>

lemma sum_tokens_append: "sum_tokens n xs = Inr m \<Longrightarrow> sum_tokens n (xs @ ys) = sum_tokens m ys"
  by (induction xs arbitrary: n) (auto split: option.splits json.splits if_splits sum.splits)

lemma note_event_last:
  "\<exists>q h. ledger (note_event sid ev st) = ledger st @ [\<lparr>lr_session = sid, lr_seq = q, lr_event = canonical (JObj ev), lr_hash = h\<rparr>]"
  by (simp add: note_event_def ledger_append_def Let_def split: prod.splits)

lemma total_tokens_event:
  assumes "wf_json (JObj ev)" "total_tokens st sid = Inr n"
  shows "dict_get ev ''type'' = Some (JStr t) \<Longrightarrow> t \<noteq> ''model_call'' \<Longrightarrow> total_tokens (note_event sid ev st) sid = Inr n"
    "dict_get ev ''type'' = Some (JStr ''model_call'') \<Longrightarrow> dict_get ev ''in_tokens'' = Some (JInt i) \<Longrightarrow>
     dict_get ev ''out_tokens'' = Some (JInt j) \<Longrightarrow> total_tokens (note_event sid ev st) sid = Inr (n + (i + j))"
proof -
  obtain q h where l: "ledger (note_event sid ev st) = ledger st @ [\<lparr>lr_session = sid, lr_seq = q, lr_event = canonical (JObj ev), lr_hash = h\<rparr>]"
    using note_event_last by blast
  obtain e where e: "sort_json (JObj ev) = JObj e" by (simp add: sort_json.simps)
  have ld: "loads (canonical (JObj ev)) = Some (JObj e)" by (simp only: loads_canonical [OF assms(1)] e)
  have leaf: "sort_json (JStr x) = JStr x" "sort_json (JInt y) = JInt y" for x y by (simp_all add: sort_json.simps)
  have "distinct (map fst ev)" using assms(1) by simp
  from dict_get_sort_json [OF this] have g: "dict_get e k = map_option sort_json (dict_get ev k)" for k unfolding e by simp
  have t: "total_tokens (note_event sid ev st) sid = sum_tokens n [\<lparr>lr_session = sid, lr_seq = q, lr_event = canonical (JObj ev), lr_hash = h\<rparr>]"
    using assms(2) unfolding total_tokens_def l by (simp add: sum_tokens_append del: sum_tokens.simps)
  show "total_tokens (note_event sid ev st) sid = Inr n" if "dict_get ev ''type'' = Some (JStr t)" "t \<noteq> ''model_call''"
    using that unfolding t by (simp add: ld g leaf)
  show "total_tokens (note_event sid ev st) sid = Inr (n + (i + j))"
    if "dict_get ev ''type'' = Some (JStr ''model_call'')" "dict_get ev ''in_tokens'' = Some (JInt i)" "dict_get ev ''out_tokens'' = Some (JInt j)"
    using that unfolding t by (simp add: ld g leaf token_int_def)
qed

subsection \<open>Failures and answers\<close>

text \<open>
  \<open>answers k msgs tls n a w\<close>: called from attempt \<open>a\<close> on, the adapter raises \<open>n\<close> transient errors and
  then answers; the value is the answer and the world in which it came.
\<close>

fun answers :: "'w kernel \<Rightarrow> message list \<Rightarrow> tool_def list \<Rightarrow> nat \<Rightarrow> nat \<Rightarrow> 'w \<Rightarrow> (model_response \<times> 'w) option" where
  "answers k msgs tls 0 a w = (case k_complete k msgs tls w of (Inr resp, w1) \<Rightarrow> Some (resp, w1) | _ \<Rightarrow> None)"
| "answers k msgs tls (Suc n) a w =
     (case k_complete k msgs tls w of
        (Inl e, w1) \<Rightarrow> if isinstance e ''Exception'' \<and> is_transient e
                     then answers k msgs tls n (Suc a) (k_sleep k (model_retry_backoff * int a) w1) else None
      | _ \<Rightarrow> None)"

lemma try_model_answers:
  assumes "answers k msgs tls n a w = Some (resp, w')" "n < m" "a + n \<le> model_retries" "total_tokens st sid = Inr used"
  shows "\<exists>st'. try_model k sid i msgs tls m a (st, w) = (Inr resp, st', w') \<and> total_tokens st' sid = Inr used"
  using assms
proof (induction n arbitrary: a w m st)
  case 0
  then obtain m' where "m = Suc m'" by (cases m) auto
  with 0 show ?case by (auto split: prod.splits sum.splits)
next
  case (Suc n)
  then obtain m' where m: "m = Suc m'" by (cases m) auto
  from Suc.prems(1) obtain e w1 where e: "k_complete k msgs tls w = (Inl e, w1)" "isinstance e ''Exception''" "is_transient e"
      "answers k msgs tls n (Suc a) (k_sleep k (model_retry_backoff * int a) w1) = Some (resp, w')"
    by (auto split: prod.splits sum.splits if_splits)
  define ev where "ev = [(''type'', JStr ''model_retry''), (''iteration'', JInt (int i)), (''attempt'', JInt (int a)),
      (''class'', JStr (exn_class e)), (''detail'', JStr (take 160 (exn_msg e)))]"
  have wf: "wf_json (JObj ev)" "dict_get ev ''type'' = Some (JStr ''model_retry'')" by (simp_all add: ev_def)
  have t: "total_tokens (note_event sid ev st) sid = Inr used"
    using total_tokens_event(1) [OF wf(1) Suc.prems(4) wf(2)] by simp
  have n: "n < m'" "Suc a + n \<le> model_retries" "\<not> model_retries \<le> a" using Suc.prems(2,3) m by simp_all
  have "try_model k sid i msgs tls m a (st, w) = try_model k sid i msgs tls m' (Suc a) (note_event sid ev st, k_sleep k (model_retry_backoff * int a) w1)"
    unfolding m try_model.simps(2) e(1) prod.case sum.case ev_def using e(2,3) n(3) by (simp only: if_False if_True simp_thms)
  with Suc.IH [OF e(4) n(1,2) t] show ?case by simp
qed

lemma record_response_tokens:
  assumes "total_tokens st sid = Inr used"
  shows "total_tokens (record_response sid i sq resp st) sid = Inr (used + (mr_input_tokens resp + mr_output_tokens resp))"
proof -
  let ?ev = "[(''type'', JStr ''model_call''), (''iteration'', JInt (int i)),
        (''text_sha256'', JStr (sha256_hex (encode (mr_text resp)))),
        (''tool_calls'', JArr (map (\<lambda>c. JStr (tc_name c)) (mr_tool_calls resp))),
        (''in_tokens'', JInt (mr_input_tokens resp)), (''out_tokens'', JInt (mr_output_tokens resp))]"
  have wf: "wf_json (JObj ?ev)" by simp
  have "total_tokens (note_journal sid ''MODEL_CALL_DONE''
          [(''iteration'', JInt (int i)), (''intent_seq'', JInt (int sq)),
           (''tool_calls'', JInt (int (length (mr_tool_calls resp))))] st) sid = Inr used"
    using assms by (simp add: total_tokens_def)
  from total_tokens_event(2) [OF wf this] show ?thesis unfolding record_response_def by simp
qed

text \<open>
  What the loop asks of the world before its first model call: the clock at the start, the cancel flag, and the clock again.
  \<open>first_check k w\<close> is the world in which the model is then called, unless the run was cancelled or the wall-clock limit
  had passed.
\<close>

definition first_check :: "'w kernel \<Rightarrow> 'w \<Rightarrow> 'w option" where
  "first_check k w =
     (case k_monotonic k w of (start, w1) \<Rightarrow>
      (case poll_cancel k w1 of (cancelled, w2) \<Rightarrow>
       (case k_monotonic k w2 of (now, w3) \<Rightarrow>
        if cancelled \<or> now - start > max_wall_seconds (k_guards k) then None else Some w3)))"

lemma first_turn:
  assumes "first_check k w = Some w3" "0 < max_iterations (k_guards k)" "estimate_tokens msgs \<le> max_token_estimate (k_guards k)"
    and "msgs = assemble_context k (note_journal sid ''ASSEMBLE'' [(''task'', JBool True)] (add_message st sid ''user'' text)) sid"
    and "model_turn k sid 1 [] msgs (note_journal sid ''ASSEMBLE'' [(''task'', JBool True)] (add_message st sid ''user'' text), w3) = (Inr (Return r), s')"
  shows "kernel_run k sid text (st, w) = (Inr r, s')"
proof -
  obtain m where m: "max_iterations (k_guards k) = Suc m" using assms(2) by (auto simp: gr0_conv_Suc)
  then show ?thesis
    using assms unfolding kernel_run_def kernel_loop_def m
    by (auto simp: first_check_def turn_def Let_def split: prod.splits if_splits)
qed

text \<open>C33: A model that answers completes the run. Let the run be neither cancelled nor past its wall-clock limit when it
  checks before its first model call, let there be an iteration and no finalize guard, and let the context fit its
  limit. If the adapter, called from that moment on, raises fewer transient errors than it has attempts and then answers with
  a text and no tool calls, within the token budget, the run returns in its first iteration as completed with that text,
  in the world the answer left, and its journal ends with the closing record.\<close>

theorem answered_run_completes:
  assumes k: "first_check k w = Some w3" "0 < max_iterations (k_guards k)" "k_finalize_guard k = None" and t: "total_tokens st sid = Inr used"
    and msgs: "msgs = assemble_context k (note_journal sid ''ASSEMBLE'' [(''task'', JBool True)] (add_message st sid ''user'' text)) sid"
      "estimate_tokens msgs \<le> max_token_estimate (k_guards k)"
    and a: "answers k msgs (tool_defs k) n 1 w3 = Some (resp, w')" "n < model_retries" "mr_tool_calls resp = []"
    and b: "used + (mr_input_tokens resp + mr_output_tokens resp) \<le> max_total_tokens (k_guards k)"
  shows "\<exists>st'. kernel_run k sid text (st, w) = (Inr \<lparr>rr_session = sid, rr_final_text = mr_text resp, rr_iterations = 1,
     rr_stopped = ''completed'', rr_pending = None\<rparr>, st', w') \<and> (\<exists>p. journal st' \<noteq> [] \<and> last (journal st') = p \<and> jr_state p = ''FINALIZE'')"
proof -
  let ?st = "note_journal sid ''ASSEMBLE'' [(''task'', JBool True)] (add_message st sid ''user'' text)"
  obtain sq st1 where ap: "journal_append ?st sid ''MODEL_CALL_INTENT'' [(''iteration'', JInt (int 1))] = (sq, st1)"
    by (cases "journal_append ?st sid ''MODEL_CALL_INTENT'' [(''iteration'', JInt (int 1))]")
  have "ledger (note_journal sid ''MODEL_CALL_INTENT'' [(''iteration'', JInt (int 1))] ?st) = ledger st" by simp
  then have "ledger st1 = ledger st" unfolding note_journal_def [of sid "''MODEL_CALL_INTENT''"] ap by simp
  with t have "total_tokens st1 sid = Inr used" by (simp add: total_tokens_def)
  from try_model_answers [OF a(1,2) _ this] a(2) obtain st2 where
    m: "model_call_with_retry k sid 1 msgs (tool_defs k) (st1, w3) = (Inr resp, st2, w')" "total_tokens st2 sid = Inr used"
    by (auto simp: model_call_with_retry_def)
  let ?fin = "finish_turn k sid 1 [] resp (record_response sid 1 sq resp st2, w')"
  have "model_turn k sid 1 [] msgs (?st, w3) = ?fin"
    using ap m record_response_tokens [OF m(2), of 1 sq resp] b a(3) by (simp add: model_turn_def Let_def)
  moreover obtain st' where "?fin = (Inr (Return \<lparr>rr_session = sid, rr_final_text = mr_text resp, rr_iterations = 1,
     rr_stopped = ''completed'', rr_pending = None\<rparr>), st', w')" "journal st' \<noteq> []" "jr_state (last (journal st')) = ''FINALIZE''"
    using k(3) by (auto simp: finish_turn_def Let_def note_journal_def journal_append_def)
  ultimately show ?thesis using first_turn [OF k(1,2) msgs(2,1)] by auto
qed

lemma echo_estimate:
  assumes "k_guards k = k_guards echo_kernel" "k_system_prompt k = k_system_prompt echo_kernel"
  shows "estimate_tokens (assemble_context k (note_journal ''s'' ''ASSEMBLE'' [(''task'', JBool True)] (add_message empty_store ''s'' ''user'' ''hi'')) ''s'')
    \<le> max_token_estimate (k_guards k)"
proof -
  have "get_messages (note_journal ''s'' ''ASSEMBLE'' [(''task'', JBool True)] (add_message empty_store ''s'' ''user'' ''hi'')) ''s'' =
      [\<lparr>role = ''user'', content = ''hi''\<rparr>]"
    by (simp add: get_messages_def add_message_def) (simp add: empty_store_def)
  then show ?thesis
    using assms by (simp add: assemble_context_def estimate_tokens_def Let_def) (simp add: echo_kernel_def default_guards_def)
qed

text \<open>A kernel whose clock advances at every reading and whose adapter fails once.\<close>

definition slow_kernel :: "nat kernel" where
  "slow_kernel = echo_kernel\<lparr>k_monotonic := (\<lambda>w. (int w, Suc w)), k_sleep := (\<lambda>d w. w + nat d),
     k_complete := (\<lambda>msgs tls w. if w = 2 then (Inl (mk_exn ''TimeoutError'' ''slow''), 3) else echo_complete msgs tls w)\<rparr>"

theorem answered_run_completes_witness:
  "\<exists>st' w'. kernel_run slow_kernel ''s'' ''hi'' (empty_store, 0) =
     (Inr \<lparr>rr_session = ''s'', rr_final_text = ''done'', rr_iterations = 1, rr_stopped = ''completed'', rr_pending = None\<rparr>, st', w')"
proof -
  let ?k = slow_kernel
  let ?st = "note_journal ''s'' ''ASSEMBLE'' [(''task'', JBool True)] (add_message empty_store ''s'' ''user'' ''hi'')"
  let ?resp = "\<lparr>mr_text = ''done'', mr_tool_calls = [], mr_input_tokens = 1, mr_output_tokens = 1\<rparr>"
  have k: "first_check ?k 0 = Some 2" "0 < max_iterations (k_guards ?k)" "k_finalize_guard ?k = None"
    by (simp_all add: first_check_def slow_kernel_def echo_kernel_def default_guards_def poll_cancel_def)
  have t: "total_tokens empty_store ''s'' = Inr 0" by (simp add: total_tokens_def empty_store_def)
  have tr: "isinstance (mk_exn ''TimeoutError'' ''slow'') ''Exception''" "is_transient (mk_exn ''TimeoutError'' ''slow'')" by code_simp+
  have a: "\<exists>w'. answers ?k msgs tls 1 1 2 = Some (?resp, w')" for msgs tls
    unfolding One_nat_def using tr by (simp add: slow_kernel_def echo_kernel_def echo_complete_def model_retry_backoff_def)
  have e: "estimate_tokens (assemble_context ?k ?st ''s'') \<le> max_token_estimate (k_guards ?k)" by (rule echo_estimate) (simp_all add: slow_kernel_def)
  have g: "1 < model_retries" "(0::int) + (mr_input_tokens ?resp + mr_output_tokens ?resp) \<le> max_total_tokens (k_guards ?k)" "mr_tool_calls ?resp = []"
    by (simp_all add: model_retries_def slow_kernel_def echo_kernel_def default_guards_def)
  obtain w' where w: "answers ?k (assemble_context ?k ?st ''s'') (tool_defs ?k) 1 1 2 = Some (?resp, w')" using a by blast
  from answered_run_completes [OF k t refl e w g(1,3,2)] show ?thesis by auto
qed

subsection \<open>A model that keeps failing\<close>

text \<open>\<open>failures k msgs tls a es w w'\<close>: calling the adapter from attempt \<open>a\<close> on raises exactly the exceptions \<open>es\<close>, one per call
  and with a pause between two calls, and leads from \<open>w\<close> to \<open>w'\<close>.\<close>

fun failures :: "'w kernel \<Rightarrow> message list \<Rightarrow> tool_def list \<Rightarrow> nat \<Rightarrow> py_exn list \<Rightarrow> 'w \<Rightarrow> 'w \<Rightarrow> bool" where
  "failures k msgs tls a [] w w' \<longleftrightarrow> w' = w"
| "failures k msgs tls a [e] w w' \<longleftrightarrow> k_complete k msgs tls w = (Inl e, w')"
| "failures k msgs tls a (e # e' # es) w w' \<longleftrightarrow>
     (\<exists>w1. k_complete k msgs tls w = (Inl e, w1) \<and> failures k msgs tls (Suc a) (e' # es) (k_sleep k (model_retry_backoff * int a) w1) w')"

text \<open>The exceptions that end the attempts: a failure is tried again if it is transient and attempts are left.\<close>

definition gives_up :: "nat \<Rightarrow> py_exn list \<Rightarrow> bool" where
  "gives_up m es \<longleftrightarrow> es \<noteq> [] \<and> length es \<le> m \<and> (\<forall>e\<in>set es. isinstance e ''Exception'') \<and> (\<forall>e\<in>set (butlast es). is_transient e) \<and>
     (length es = m \<or> \<not> is_transient (last es))"

lemma gives_up_Cons: "isinstance e ''Exception'' \<Longrightarrow> is_transient e \<Longrightarrow> gives_up m es \<Longrightarrow> gives_up (Suc m) (e # es)"
  by (auto simp: gives_up_def)

fun retry_notes :: "nat \<Rightarrow> nat \<Rightarrow> py_exn list \<Rightarrow> dict list" where
  "retry_notes i a [] = []"
| "retry_notes i a (e # es) =
     [(''type'', JStr ''model_retry''), (''iteration'', JInt (int i)), (''attempt'', JInt (int a)),
      (''class'', JStr (exn_class e)), (''detail'', JStr (take 160 (exn_msg e)))] # retry_notes i (Suc a) es"

definition noted :: "store \<Rightarrow> (string \<times> string) list" where
  "noted st = map (\<lambda>r. (lr_session r, lr_event r)) (ledger st)"

definition rows_of :: "string \<Rightarrow> dict list \<Rightarrow> (string \<times> string) list" where
  "rows_of sid evs = map (\<lambda>ev. (sid, canonical (JObj ev))) evs"

lemma noted_event [simp]: "noted (note_event sid ev st) = noted st @ rows_of sid [ev]"
proof -
  obtain q h where "ledger (note_event sid ev st) = ledger st @ [\<lparr>lr_session = sid, lr_seq = q, lr_event = canonical (JObj ev), lr_hash = h\<rparr>]"
    using note_event_last by blast
  then show ?thesis by (simp add: noted_def rows_of_def)
qed

lemma noted_journal [simp]: "noted (note_journal sid x d st) = noted st" "noted (add_message st sid r txt) = noted st"
  by (simp_all add: noted_def)

lemma try_model_gives_up:
  assumes f: "\<And>w. \<exists>e w1. k_complete k msgs tls w = (Inl e, w1) \<and> isinstance e ''Exception''"
  shows "0 < m \<Longrightarrow> a + m = Suc model_retries \<Longrightarrow> \<exists>es st' w'. gives_up m es \<and> failures k msgs tls a es w w' \<and>
    try_model k sid i msgs tls m a (st, w) = (Inl (last es), st', w') \<and> noted st' = noted st @ rows_of sid (retry_notes i a (butlast es))"
proof (induction m arbitrary: a st w)
  case (Suc m)
  obtain e w1 where e: "k_complete k msgs tls w = (Inl e, w1)" "isinstance e ''Exception''" using f by blast
  show ?case
  proof (cases "model_retries \<le> a \<or> \<not> is_transient e")
    case True
    then have "try_model k sid i msgs tls (Suc m) a (st, w) = (Inl e, st, w1)" using e by simp
    moreover have "gives_up (Suc m) [e]" using True e(2) Suc.prems by (auto simp: gives_up_def)
    ultimately show ?thesis using e(1) by (intro exI [of _ "[e]"] exI conjI) (auto simp: rows_of_def)
  next
    case False
    define ev where "ev = [(''type'', JStr ''model_retry''), (''iteration'', JInt (int i)), (''attempt'', JInt (int a)),
      (''class'', JStr (exn_class e)), (''detail'', JStr (take 160 (exn_msg e)))]"
    have s: "try_model k sid i msgs tls (Suc m) a (st, w) = try_model k sid i msgs tls m (Suc a) (note_event sid ev st, k_sleep k (model_retry_backoff * int a) w1)"
      unfolding try_model.simps(2) e(1) prod.case sum.case ev_def using e(2) False by (simp only: if_False if_True simp_thms)
    have "0 < m" "Suc a + m = Suc model_retries" using Suc.prems False by simp_all
    from Suc.IH [OF this, of "k_sleep k (model_retry_backoff * int a) w1" "note_event sid ev st"] obtain es st' w' where
      r: "gives_up m es" "failures k msgs tls (Suc a) es (k_sleep k (model_retry_backoff * int a) w1) w'"
      "try_model k sid i msgs tls m (Suc a) (note_event sid ev st, k_sleep k (model_retry_backoff * int a) w1) = (Inl (last es), st', w')"
      "noted st' = noted (note_event sid ev st) @ rows_of sid (retry_notes i (Suc a) (butlast es))" by blast
    obtain e' es' where es: "es = e' # es'" using r(1) by (cases es) (auto simp: gives_up_def)
    have "gives_up (Suc m) (e # es)" using gives_up_Cons [OF e(2) _ r(1)] False by blast
    moreover have "failures k msgs tls a (e # es) w w'" using r(2) e(1) es by auto
    moreover have "noted st' = noted st @ rows_of sid (retry_notes i a (butlast (e # es)))"
      using r(4) es by (simp add: rows_of_def ev_def)
    ultimately show ?thesis using s r(3) es by (intro exI [of _ "e # es"] exI [of _ st'] exI [of _ w']) simp
  qed
qed simp

text \<open>C34: A model that keeps failing stops the run and is recorded. Let the run be neither cancelled nor past its wall-clock
  limit when it checks before its first model call, let there be an iteration and let the context fit its limit. If every
  call of the adapter raises an ordinary exception, the adapter is called one to three times and no more: again only after
  a transient failure, with a pause before the next call, until a failure is not transient or is the third. The run does not
  raise; it returns in its first iteration with reason \<open>model_error\<close> and no text, in the world the last call left, and it has
  added to the ledger exactly one retry for each failure but the last, with its attempt, class and text, then the
  error with the class and text of the last failure, then the stop.\<close>

theorem failing_model_stops:
  assumes k: "first_check k w = Some w3" "0 < max_iterations (k_guards k)"
    and f: "\<And>msgs tls w. \<exists>e w1. k_complete k msgs tls w = (Inl e, w1) \<and> isinstance e ''Exception''"
    and e: "msgs = assemble_context k (note_journal sid ''ASSEMBLE'' [(''task'', JBool True)] (add_message st sid ''user'' text)) sid"
      "estimate_tokens msgs \<le> max_token_estimate (k_guards k)"
  shows "\<exists>es st' w'. es \<noteq> [] \<and> length es \<le> 3 \<and> (\<forall>x\<in>set (butlast es). is_transient x) \<and> (length es = 3 \<or> \<not> is_transient (last es)) \<and>
    failures k msgs (tool_defs k) 1 es w3 w' \<and>
    kernel_run k sid text (st, w) = (Inr \<lparr>rr_session = sid, rr_final_text = [], rr_iterations = 1,
      rr_stopped = ''model_error'', rr_pending = None\<rparr>, st', w') \<and>
    noted st' = noted st @ rows_of sid (retry_notes 1 1 (butlast es) @
      [[(''type'', JStr ''model_error''), (''iteration'', JInt 1), (''class'', JStr (exn_class (last es))), (''detail'', JStr (take 200 (exn_msg (last es))))],
       [(''type'', JStr ''stopped''), (''reason'', JStr ''model_error'')]])"
proof -
  let ?st = "note_journal sid ''ASSEMBLE'' [(''task'', JBool True)] (add_message st sid ''user'' text)"
  obtain sq st1 where ap: "journal_append ?st sid ''MODEL_CALL_INTENT'' [(''iteration'', JInt (int 1))] = (sq, st1)"
    by (cases "journal_append ?st sid ''MODEL_CALL_INTENT'' [(''iteration'', JInt (int 1))]")
  have "noted (note_journal sid ''MODEL_CALL_INTENT'' [(''iteration'', JInt (int 1))] ?st) = noted st" by simp
  then have l1: "noted st1 = noted st" unfolding note_journal_def [of sid "''MODEL_CALL_INTENT''"] ap by simp
  have "0 < model_retries" by (simp add: model_retries_def)
  from try_model_gives_up [OF f this, where a = 1] obtain es st2 w2 where
    m: "gives_up model_retries es" "failures k msgs (tool_defs k) 1 es w3 w2"
      "model_call_with_retry k sid 1 msgs (tool_defs k) (st1, w3) = (Inl (last es), st2, w2)"
      "noted st2 = noted st1 @ rows_of sid (retry_notes 1 1 (butlast es))"
    unfolding model_call_with_retry_def by (metis plus_1_eq_Suc)
  define ev where "ev = [(''type'', JStr ''model_error''), (''iteration'', JInt (int 1)),
                     (''class'', JStr (exn_class (last es))), (''detail'', JStr (take 200 (exn_msg (last es))))]"
  let ?stop = "[(''type'', JStr ''stopped''), (''reason'', JStr ''model_error'')]"
  let ?st3 = "note_journal sid ''STOPPED'' [(''reason'', JStr ''model_error'')] (note_event sid ev st2)"
  have "isinstance (last es) ''Exception''" using m(1) by (simp add: gives_up_def)
  then have mt: "model_turn k sid 1 [] msgs (?st, w3) = stop_with sid 1 ''model_error'' (note_event sid ev st2, w2)"
    unfolding model_turn_def prod.case ap m(3) sum.case ev_def by (simp only: if_True)
  have "kernel_run k sid text (st, w) = (Inr \<lparr>rr_session = sid, rr_final_text = [], rr_iterations = 1,
      rr_stopped = ''model_error'', rr_pending = None\<rparr>, note_event sid ?stop ?st3, w2)"
    by (rule first_turn [OF k e(2,1)]) (simp only: mt stop_with_def stop_run_def fst_conv snd_conv prod.case)
  moreover have "noted (note_event sid ?stop ?st3) = noted st @ rows_of sid (retry_notes 1 1 (butlast es) @ [ev, ?stop])"
    by (simp add: m(4) l1 rows_of_def)
  ultimately show ?thesis using m(1,2) by (intro exI [of _ es] exI conjI) (auto simp: gives_up_def model_retries_def ev_def)
qed

theorem failing_model_stops_witness:
  "\<exists>es st' w'. length es = 3 \<and> kernel_run (slow_kernel\<lparr>k_complete := (\<lambda>msgs tls w. (Inl (mk_exn ''TimeoutError'' ''slow''), Suc w))\<rparr>) ''s'' ''hi'' (empty_store, 0) =
     (Inr \<lparr>rr_session = ''s'', rr_final_text = [], rr_iterations = 1, rr_stopped = ''model_error'', rr_pending = None\<rparr>, st', w') \<and>
     length (noted st') = length (es::py_exn list) + 1"
proof -
  let ?k = "slow_kernel\<lparr>k_complete := (\<lambda>msgs tls w. (Inl (mk_exn ''TimeoutError'' ''slow''), Suc w))\<rparr>"
  have k: "first_check ?k 0 = Some 2" "0 < max_iterations (k_guards ?k)"
    by (simp_all add: first_check_def slow_kernel_def echo_kernel_def default_guards_def poll_cancel_def)
  have tr: "isinstance (mk_exn ''TimeoutError'' ''slow'') ''Exception''" "is_transient (mk_exn ''TimeoutError'' ''slow'')" by code_simp+
  have f: "\<exists>e w1. k_complete ?k msgs tls w = (Inl e, w1) \<and> isinstance e ''Exception''" for msgs tls w
    using tr by simp
  have e: "estimate_tokens (assemble_context ?k (note_journal ''s'' ''ASSEMBLE'' [(''task'', JBool True)] (add_message empty_store ''s'' ''user'' ''hi'')) ''s'')
    \<le> max_token_estimate (k_guards ?k)" by (rule echo_estimate) (simp_all add: slow_kernel_def)
  from failing_model_stops [OF k f refl e] obtain es st' w' where r: "es \<noteq> []" "length es = 3 \<or> \<not> is_transient (last es)"
    "failures ?k (assemble_context ?k (note_journal ''s'' ''ASSEMBLE'' [(''task'', JBool True)] (add_message empty_store ''s'' ''user'' ''hi'')) ''s'') (tool_defs ?k) 1 es 2 w'"
    "kernel_run ?k ''s'' ''hi'' (empty_store, 0) =
     (Inr \<lparr>rr_session = ''s'', rr_final_text = [], rr_iterations = 1, rr_stopped = ''model_error'', rr_pending = None\<rparr>, st', w')"
    "noted st' = noted empty_store @ rows_of ''s'' (retry_notes 1 1 (butlast es) @
      [[(''type'', JStr ''model_error''), (''iteration'', JInt 1), (''class'', JStr (exn_class (last es))), (''detail'', JStr (take 200 (exn_msg (last es))))],
       [(''type'', JStr ''stopped''), (''reason'', JStr ''model_error'')]])" by metis
  have same: "failures ?k msgs tls a es w w' \<Longrightarrow> set es \<subseteq> {mk_exn ''TimeoutError'' ''slow''}" for msgs tls a es w w'
    by (induction ?k msgs tls a es w w' rule: failures.induct) auto
  have "last es = mk_exn ''TimeoutError'' ''slow''" using same [OF r(3)] r(1) last_in_set by blast
  with r(2) tr(2) have "length es = 3" by auto
  moreover have "length (retry_notes i a xs) = length xs" for i a xs by (induction xs arbitrary: a) simp_all
  ultimately show ?thesis using r(4,5) by (intro exI [of _ es] exI [of _ st'] exI [of _ w']) (simp add: noted_def rows_of_def empty_store_def)
qed

end
