(* ===== verification/Steps.thy ===== *)
theory Steps
  imports Execution
begin

text \<open>
  The kernel (\<open>scr/kernel.py\<close>) as a step relation. A step is one record in the session's journal or ledger,
  a message, a persisted result, a call of the adapter, the clock or the cancel flag, or the
  function of a tool whose capability check passed. Every run is a sequence of such steps, so a property of
  stores and worlds that each step keeps holds after a run, whatever the tools do to the store.
\<close>

subsection \<open>Steps\<close>

definition kernel_event :: "dict \<Rightarrow> bool" where
  "kernel_event ev \<longleftrightarrow> event_legal ev \<and>
     (\<exists>t\<in>set [''model_call'', ''model_retry'', ''model_error'', ''tool_exec'', ''tool_error'', ''cap_denied'',
        ''approval_required'', ''approval_denied_exec'', ''approval_granted_exec'', ''stopped'', ''finalize'', ''policy''].
        dict_get ev ''type'' = Some (JStr t)) \<and>
     (dict_get ev ''type'' = Some (JStr ''policy'') \<longrightarrow> dict_get ev ''decision'' = Some (JStr ''finalize_refused''))"

inductive kstep :: "'w kernel \<Rightarrow> string \<Rightarrow> store \<times> 'w \<Rightarrow> store \<times> 'w \<Rightarrow> bool" for k sid where
  Journal: "wf_json (JObj p) \<Longrightarrow> s \<noteq> ''EXEC_INTENT'' \<Longrightarrow> kstep k sid (st, w) (note_journal sid s p st, w)"
| Intent: "call_ok call \<Longrightarrow> authorized k sid st call \<Longrightarrow>
    kstep k sid (st, w) (note_journal sid ''EXEC_INTENT'' (intent_payload sid call idem q) st, w)"
| Event: "kernel_event ev \<Longrightarrow> kstep k sid (st, w) (note_event sid ev st, w)"
| Message: "kstep k sid (st, w) (add_message st sid rl body, w)"
| Result: "kstep k sid (st, w) (tool_result_put st key sid tool res, w)"
| Model: "k_complete k msgs tls w = (r, w') \<Longrightarrow> kstep k sid (st, w) (st, w')"
| Clock: "k_monotonic k w = (now, w') \<Longrightarrow> kstep k sid (st, w) (st, w')"
| Sleep: "kstep k sid (st, w) (st, k_sleep k d w)"
| Poll: "k_cancel_check k = Some f \<Longrightarrow> f w = (b, w') \<Longrightarrow> kstep k sid (st, w) (st, w')"
| Tool: "cap_check k call = Inr spec \<Longrightarrow> ts_fn spec (tc_arguments call) (st, w) = (r, s') \<Longrightarrow> kstep k sid (st, w) s'"

inductive_cases kstepE: "kstep k sid s s'"

abbreviation ksteps :: "'w kernel \<Rightarrow> string \<Rightarrow> store \<times> 'w \<Rightarrow> store \<times> 'w \<Rightarrow> bool" where
  "ksteps k sid \<equiv> (kstep k sid)\<^sup>*\<^sup>*"

definition adapter_ok :: "'w kernel \<Rightarrow> bool" where
  "adapter_ok k \<longleftrightarrow>
     (\<forall>msgs tls w resp w'. k_complete k msgs tls w = (Inr resp, w') \<longrightarrow> list_all call_ok (mr_tool_calls resp))"

lemma ksteps_snoc: "ksteps k sid s s1 \<Longrightarrow> kstep k sid s1 s2 \<Longrightarrow> ksteps k sid s s2"
  by (rule rtranclp.rtrancl_into_rtrancl)

lemma ksteps_trans: "ksteps k sid a b \<Longrightarrow> ksteps k sid b c \<Longrightarrow> ksteps k sid a c"
  by (rule rtranclp_trans)

text \<open>The rules in the form in which a store expression is taken apart from the outside.\<close>

lemma ksteps_journal:
  "ksteps k sid s (st, w) \<Longrightarrow> wf_json (JObj p) \<Longrightarrow> t \<noteq> ''EXEC_INTENT'' \<Longrightarrow> ksteps k sid s (note_journal sid t p st, w)"
  by (blast intro: ksteps_snoc kstep.Journal)

lemma ksteps_event: "ksteps k sid s (st, w) \<Longrightarrow> kernel_event ev \<Longrightarrow> ksteps k sid s (note_event sid ev st, w)"
  by (blast intro: ksteps_snoc kstep.Event)

lemma ksteps_message: "ksteps k sid s (st, w) \<Longrightarrow> ksteps k sid s (add_message st sid rl body, w)"
  by (blast intro: ksteps_snoc kstep.Message)

lemma ksteps_result: "ksteps k sid s (st, w) \<Longrightarrow> ksteps k sid s (tool_result_put st key sid t r, w)"
  by (blast intro: ksteps_snoc kstep.Result)

lemmas ksteps_intros = ksteps_journal ksteps_event ksteps_message ksteps_result

lemma kernel_eventI:
  "wf_json (JObj ev) \<Longrightarrow> dict_get ev ''type'' = Some (JStr t) \<Longrightarrow>
   t \<in> set [''model_retry'', ''model_error'', ''tool_exec'', ''tool_error'', ''cap_denied'', ''approval_required'',
     ''approval_denied_exec'', ''approval_granted_exec'', ''stopped'', ''finalize''] \<Longrightarrow> kernel_event ev"
  by (auto simp: kernel_event_def intro!: event_legalI)

subsection \<open>One call\<close>

lemma tool_error_steps:
  "ksteps k sid s (st, w) \<Longrightarrow> ksteps k sid s (ledger_tool_error sid t r st, w)"
  by (auto simp: ledger_tool_error_def intro!: ksteps_event kernel_eventI)

lemma close_exec_steps:
  assumes "ksteps k sid s (st, w)"
  shows "ksteps k sid s (close_exec sid call sq key par r st, w)"
proof -
  have "kernel_event ([(''type'', JStr ''tool_exec''), (''tool'', JStr (tc_name call)),
            (''args_sha256'', args_sha256 (tc_arguments call)),
            (''result_sha256'', JStr (sha256_hex (encode r))), (''idem_key'', JStr key)] @
           (if par then [(''parallel'', JBool True)] else []) @ arg_path (tc_arguments call))"
    unfolding args_sha256_def
    using tool_exec_legal [unfolded event_legal_def, THEN conjunct1] by (rule kernel_eventI) auto
  then have "ksteps k sid s (note_event sid ([(''type'', JStr ''tool_exec''), (''tool'', JStr (tc_name call)),
            (''args_sha256'', args_sha256 (tc_arguments call)),
            (''result_sha256'', JStr (sha256_hex (encode r))), (''idem_key'', JStr key)] @
           (if par then [(''parallel'', JBool True)] else []) @ arg_path (tc_arguments call))
     (note_journal sid ''EXEC_DONE'' [(''intent_seq'', JInt (int sq)), (''idem_key'', JStr key)] st), w)"
    by (intro ksteps_event ksteps_journal assms) simp_all
  then show ?thesis unfolding close_exec_def by (rule tool_error_steps)
qed

lemma write_intent_steps:
  assumes "ksteps k sid s (st, w)" "call_ok call" "authorized k sid st call" "write_intent sid call idem st = (r, st')"
  shows "ksteps k sid s (st', w)"
proof -
  have "st' = st \<or> (\<exists>q. st' = note_journal sid ''EXEC_INTENT'' (intent_payload sid call idem q) st)"
    using assms(4) unfolding write_intent_def note_journal_def
    by (auto simp: Let_def split: sum.splits prod.splits if_splits option.splits json.splits) (metis snd_conv)+
  then show ?thesis
    using assms(1-3) by (auto intro: ksteps_snoc kstep.Intent)
qed

lemma run_tool_fn_steps:
  assumes "ksteps k sid s (st, w)" "cap_check k call = Inr spec" "run_tool_fn spec call (st, w) = (r, s')"
  shows "ksteps k sid s s'"
proof -
  obtain x s1 where t: "ts_fn spec (tc_arguments call) (st, w) = (x, s1)" by (cases "ts_fn spec (tc_arguments call) (st, w)")
  then have "s' = s1" using assms(3) by (auto simp: run_tool_fn_def split: sum.splits if_splits)
  with t assms(1,2) show ?thesis by (blast intro: ksteps_snoc kstep.Tool)
qed

lemma execute_call_steps:
  assumes st: "ksteps k sid s (st, w)" and c: "call_ok call" and a: "approved k sid st call"
    and e: "execute_call k sid call (st, w) = (r, s')"
  shows "ksteps k sid s s'"
proof (cases "cap_check k call")
  case (Inl x)
  with e show ?thesis by (auto simp: execute_call_def intro!: ksteps_intros kernel_eventI st)
next
  case (Inr spec)
  obtain x st1 where wi: "write_intent sid call (ts_idempotent spec) st = (x, st1)"
    by (cases "write_intent sid call (ts_idempotent spec) st")
  have st1: "ksteps k sid s (st1, w)"
    using write_intent_steps [OF st c _ wi] a Inr by (auto simp: authorized_def)
  obtain y st2 w2 where t: "run_tool_fn spec call (st1, w) = (y, st2, w2)" by (cases "run_tool_fn spec call (st1, w)")
  note st2 = run_tool_fn_steps [OF st1 Inr t]
  show ?thesis
    using e Inr wi t by (auto simp: execute_call_def split: sum.splits option.splits intro!: close_exec_steps ksteps_result st1 st2)
qed

lemma add_tool_msg_steps: "ksteps k sid s (st, w) \<Longrightarrow> ksteps k sid s (add_tool_msg sid call r st, w)"
  by (simp add: add_tool_msg_def ksteps_message)

lemma exec_and_fold_steps:
  assumes "ksteps k sid s (st, w)" "call_ok call" "approved k sid st call" "exec_and_fold k sid call (st, w) = (r, s')"
  shows "ksteps k sid s s'"
proof -
  obtain x st1 w1 where e: "execute_call k sid call (st, w) = (x, st1, w1)" by (cases "execute_call k sid call (st, w)")
  show ?thesis
    using assms(4) e execute_call_steps [OF assms(1-3) e]
    by (auto simp: exec_and_fold_def add_tool_msg_steps split: sum.splits)
qed

subsection \<open>Batches and pending calls\<close>

lemma run_batch_fns_steps:
  assumes "ksteps k sid s (st, w)" "list_all (batch_eligible k) cs" "run_batch_fns k cs (st, w) = (rs, s')"
  shows "ksteps k sid s s'"
  using assms
proof (induction cs arbitrary: st w rs)
  case (Cons c cs)
  from Cons.prems(2) obtain spec where spec: "dict_get (k_tools k) (tc_name c) = Some spec" "cap_check k c = Inr spec"
    by (auto simp: batch_eligible_def cap_check_Inr split: option.splits)
  obtain r st1 w1 where run: "run_tool_fn spec c (st, w) = (r, st1, w1)" by (cases "run_tool_fn spec c (st, w)")
  note st1 = run_tool_fn_steps [OF Cons.prems(1) spec(2) run]
  from Cons.prems(3) spec(1) run obtain rs' where "run_batch_fns k cs (st1, w1) = (rs', s')"
    by (auto split: prod.splits)
  with Cons.IH [OF st1] Cons.prems(2) show ?case by simp
qed simp

lemma persist_precomputed_steps:
  assumes "ksteps k sid s (st, w)" "call_ok call" "authorized k sid st call" "persist_precomputed sid call pre st = (r, st')"
  shows "ksteps k sid s (st', w)"
proof -
  obtain x st1 where wi: "write_intent sid call True st = (x, st1)" by (cases "write_intent sid call True st")
  note st1 = write_intent_steps [OF assms(1-3) wi]
  show ?thesis
    using assms(4) wi st1
    by (auto simp: persist_precomputed_def split: sum.splits option.splits intro!: close_exec_steps ksteps_result)
qed

lemma persist_batch_steps:
  "ksteps k sid s (st, w) \<Longrightarrow> list_all (call_ok \<circ> fst) xs \<Longrightarrow> \<forall>x\<in>set xs. batch_eligible k (fst x) \<Longrightarrow>
   persist_batch sid xs st = (r, st') \<Longrightarrow> ksteps k sid s (st', w)"
proof (induction sid xs st rule: persist_batch.induct)
  case (3 sid call res rest st)
  obtain x st1 where p: "persist_precomputed sid call res st = (x, st1)" by (cases "persist_precomputed sid call res st")
  have st1: "ksteps k sid s (st1, w)"
    using persist_precomputed_steps [OF "3.prems"(1) _ _ p] "3.prems"(2,3) by (auto intro: batch_eligible_authorized)
  show ?case
  proof (cases x)
    case (Inl e)
    with "3.prems"(4) p st1 show ?thesis by simp
  next
    case (Inr t)
    from "3.IH" [OF p [symmetric] Inr add_tool_msg_steps [OF st1]] "3.prems"(2-4) p Inr show ?thesis by simp
  qed
qed auto

lemma run_parallel_batch_steps:
  assumes "ksteps k sid s (st, w)" "list_all (batch_eligible k) cs" "list_all call_ok cs"
    and "run_parallel_batch k sid cs (st, w) = (r, s')"
  shows "ksteps k sid s s'"
proof -
  obtain rs st1 w1 where run: "run_batch_fns k cs (st, w) = (rs, st1, w1)" by (cases "run_batch_fns k cs (st, w)")
  note st1 = run_batch_fns_steps [OF assms(1,2) run]
  obtain x st2 where p: "persist_batch sid (zip cs rs) st1 = (x, st2)" by (cases "persist_batch sid (zip cs rs) st1")
  have "ksteps k sid s (st2, w1)"
    using assms(2,3) by (intro persist_batch_steps [OF st1 _ _ p]) (auto simp: list_all_iff dest: set_zip_leftD)
  with st1 run p assms(4) show ?thesis
    by (auto simp: run_parallel_batch_def split: option.splits sum.splits)
qed

lemma await_approval_steps:
  assumes "ksteps k sid s (st, w)" "call_ok call" "list_all call_ok remaining"
  shows "ksteps k sid s (await_approval sid aid call remaining st, w)"
proof -
  have "\<forall>x\<in>set (map json_call remaining). wf_json x"
    using assms(3) by (auto simp: list_all_iff json_call_wf)
  with assms show ?thesis
    unfolding await_approval_def
    by (intro ksteps_event ksteps_journal kernel_eventI) (auto simp: call_ok_def args_sha256_def)
qed

lemma sequential_call_steps:
  assumes st: "ksteps k sid s (st, w)" and c: "call_ok call" "list_all call_ok remaining"
    and q: "sequential_call k sid call remaining (st, w) = (r, s')"
  shows "ksteps k sid s s'"
proof -
  let ?aid = "approval_id sid call"
  have ev: "ksteps k sid s (approval_event sid t call ?aid a st, w)"
    if "t \<in> {''approval_denied_exec'', ''approval_granted_exec''}" for t a
    using that st unfolding approval_event_def by (intro ksteps_event kernel_eventI) auto
  obtain x s1 where free: "exec_and_fold k sid call (st, w) = (x, s1)" by (cases "exec_and_fold k sid call (st, w)")
  obtain y s2 where grant: "exec_and_fold k sid call
      (approval_event sid ''approval_granted_exec'' call ?aid (snd (the (approval_get st ?aid))) st, w) = (y, s2)"
    by (meson surj_pair)
  consider "\<not> gated k call" | "gated k call" "approval_get st ?aid = None"
    | b a where "gated k call" "approval_get st ?aid = Some (b, a)" "b = ''denied''"
    | b a where "gated k call" "approval_get st ?aid = Some (b, a)" "b \<noteq> ''denied''"
    by (metis option.exhaust prod.exhaust)
  then show ?thesis
  proof cases
    case 1
    with q free exec_and_fold_steps [OF st c(1) _ free] show ?thesis
      by (auto simp: sequential_call_def approved_def split: sum.splits)
  next
    case 2
    with q await_approval_steps [OF st c] show ?thesis by (auto simp: sequential_call_def Let_def)
  next
    case 3
    with q ev show ?thesis by (auto simp: sequential_call_def Let_def intro: add_tool_msg_steps)
  next
    case 4
    have "approved k sid (approval_event sid ''approval_granted_exec'' call ?aid a st) call"
      using 4 approved_frame [of "approval_event sid ''approval_granted_exec'' call ?aid a st" st]
      by (auto simp: approved_def approval_event_def)
    from exec_and_fold_steps [OF ev c(1) this] grant 4 q show ?thesis
      by (auto simp: sequential_call_def Let_def split: sum.splits)
  qed
qed

lemma poll_cancel_steps:
  assumes "ksteps k sid s (st, w)" "poll_cancel k w = (b, w')"
  shows "ksteps k sid s (st, w')"
  using assms by (auto simp: poll_cancel_def split: option.splits intro: ksteps_snoc kstep.Poll)

lemma execute_pending_steps:
  "ksteps k sid s (st, w) \<Longrightarrow> list_all call_ok cs \<Longrightarrow> execute_pending k sid cs (st, w) = (r, s') \<Longrightarrow> ksteps k sid s s'"
proof (induction "length cs" arbitrary: cs st w rule: less_induct)
  case less
  show ?case
  proof (cases cs)
    case Nil
    with less.prems show ?thesis by simp
  next
    case (Cons call rest)
    obtain b w1 where p: "poll_cancel k w = (b, w1)" by (cases "poll_cancel k w")
    note st1 = poll_cancel_steps [OF less.prems(1) p]
    let ?batch = "takeWhile (batch_eligible k) cs"
    have co: "call_ok call" "list_all call_ok (call # rest)" "list_all call_ok rest"
        "list_all (batch_eligible k) ?batch" "list_all call_ok ?batch" "list_all call_ok (drop (length ?batch) cs)"
      using less.prems(2) Cons by (auto simp: list_all_iff dest: set_takeWhileD in_set_dropD)
    consider (cancel) b | (batch) "\<not> b" "length ?batch \<ge> 2" | (single) "\<not> b" "\<not> length ?batch \<ge> 2" by blast
    then show ?thesis
    proof cases
      case cancel
      with less.prems(3) p Cons st1 show ?thesis
        by (auto simp: execute_pending.simps(2) intro!: ksteps_journal)
    next
      case batch
      obtain x st2 w2 where run: "run_parallel_batch k sid ?batch (st, w1) = (x, st2, w2)"
        by (cases "run_parallel_batch k sid ?batch (st, w1)")
      note st2 = run_parallel_batch_steps [OF st1 co(4,5) run]
      have l: "length (drop (length ?batch) cs) < length cs" using batch Cons by simp
      from less.prems(3) p batch run less.hyps [OF l st2 co(6)] st2 show ?thesis
        by (cases x) (auto simp: Cons execute_pending.simps(2) Let_def)
    next
      case single
      obtain x st2 w2 where run: "sequential_call k sid call (call # rest) (st, w1) = (x, st2, w2)"
        by (cases "sequential_call k sid call (call # rest) (st, w1)")
      note st2 = sequential_call_steps [OF st1 co(1,2) run]
      from less.prems(3) p single run less.hyps [OF _ st2 co(3)] st2 show ?thesis
        by (auto simp: Cons execute_pending.simps(2) Let_def split: sum.splits option.splits)
    qed
  qed
qed

subsection \<open>Turns and runs\<close>

lemma try_model_steps:
  assumes "adapter_ok k"
  shows "ksteps k sid s (st, w) \<Longrightarrow> try_model k sid i msgs tls n a (st, w) = (r, s') \<Longrightarrow>
    ksteps k sid s s' \<and> (\<forall>resp. r = Inr resp \<longrightarrow> list_all call_ok (mr_tool_calls resp))"
proof (induction n arbitrary: a st w)
  case (Suc n)
  obtain x w1 where x: "k_complete k msgs tls w = (x, w1)" by (cases "k_complete k msgs tls w")
  have st1: "ksteps k sid s (st, w1)" using Suc.prems(1) x by (blast intro: ksteps_snoc kstep.Model)
  show ?case
  proof (cases x)
    case (Inr resp)
    with x assms have "list_all call_ok (mr_tool_calls resp)" unfolding adapter_ok_def by blast
    with Inr Suc.prems x st1 show ?thesis by auto
  next
    case (Inl e)
    let ?st1 = "note_event sid [(''type'', JStr ''model_retry''), (''iteration'', JInt (int i)),
        (''attempt'', JInt (int a)), (''class'', JStr (exn_class e)), (''detail'', JStr (take 160 (exn_msg e)))] st"
    have "ksteps k sid s (?st1, w1)" using st1 by (intro ksteps_event kernel_eventI) auto
    then have st2: "ksteps k sid s (?st1, k_sleep k (model_retry_backoff * int a) w1)" by (blast intro: ksteps_snoc kstep.Sleep)
    show ?thesis
      using Suc.prems x Inl st1 Suc.IH [OF st2, of "Suc a"] by (auto split: if_splits)
  qed
qed auto

lemma stop_with_steps:
  assumes "ksteps k sid s (st, w)" "stop_with sid i reason (st, w) = (r, s')"
  shows "ksteps k sid s s'"
  using assms by (auto simp: stop_with_def stop_run_def intro!: ksteps_intros kernel_eventI)

lemma finish_turn_steps:
  assumes "ksteps k sid s (st, w)" "finish_turn k sid i hist resp (st, w) = (r, s')"
  shows "ksteps k sid s s'"
proof -
  have "kernel_event [(''type'', JStr ''policy''), (''rule'', JStr ''required_children''),
      (''decision'', JStr ''finalize_refused''), (''reason'', JStr reason)]" for reason
    by (auto simp: kernel_event_def intro!: event_legalI)
  note refuse = ksteps_event [OF _ this]
  have fin: "ksteps k sid s (note_event sid [(''type'', JStr ''finalize''), (''iteration'', JInt (int i))]
      (note_journal sid ''FINALIZE'' [(''iteration'', JInt (int i))] (add_message st sid rl c)), w)" for rl c
    using assms(1) by (intro ksteps_intros kernel_eventI) auto
  show ?thesis
    using assms refuse fin
    by (auto simp: finish_turn_def Let_def split: option.splits list.splits if_splits intro!: refuse ksteps_message)
qed

lemma tools_turn_steps:
  assumes "ksteps k sid s (st, w)" "list_all call_ok (mr_tool_calls resp)" "tools_turn k sid i hist resp (st, w) = (r, s')"
  shows "ksteps k sid s s'"
proof -
  let ?st1 = "if mr_text resp \<noteq> [] then add_message st sid ''assistant'' (mr_text resp) else st"
  have st1: "ksteps k sid s (?st1, w)" using assms(1) by (simp add: ksteps_message)
  obtain x s2 where e: "execute_pending k sid (mr_tool_calls resp) (?st1, w) = (x, s2)"
    by (cases "execute_pending k sid (mr_tool_calls resp) (?st1, w)")
  consider "stop_with sid i ''loop_detected'' (st, w) = (r, s')" | "s' = s2"
    using assms(3) e by (auto simp: tools_turn_def Let_def split: if_splits sum.splits option.splits)
  then show ?thesis
    by cases (use stop_with_steps [OF assms(1)] execute_pending_steps [OF st1 assms(2) e] in auto)
qed

lemma record_response_steps:
  assumes "ksteps k sid s (st, w)"
  shows "ksteps k sid s (record_response sid i sq resp st, w)"
proof -
  have "kernel_event [(''type'', JStr ''model_call''), (''iteration'', JInt (int i)),
        (''text_sha256'', JStr (sha256_hex (encode (mr_text resp)))),
        (''tool_calls'', JArr (map (\<lambda>c. JStr (tc_name c)) (mr_tool_calls resp))),
        (''in_tokens'', JInt (mr_input_tokens resp)), (''out_tokens'', JInt (mr_output_tokens resp))]"
    by (simp add: kernel_event_def model_call_legal)
  with assms show ?thesis unfolding record_response_def by (intro ksteps_intros) simp_all
qed

lemma model_turn_steps:
  assumes k: "adapter_ok k" and st: "ksteps k sid s (st, w)" and t: "model_turn k sid i hist msgs (st, w) = (r, s')"
  shows "ksteps k sid s s'"
proof -
  obtain sq st1 where ap: "journal_append st sid ''MODEL_CALL_INTENT'' [(''iteration'', JInt (int i))] = (sq, st1)"
    by (cases "journal_append st sid ''MODEL_CALL_INTENT'' [(''iteration'', JInt (int i))]")
  have st1: "ksteps k sid s (st1, w)"
    using ksteps_journal [OF st, of "[(''iteration'', JInt (int i))]" "''MODEL_CALL_INTENT''"] ap
    by (simp add: note_journal_def)
  obtain x st2 w2 where call: "model_call_with_retry k sid i msgs (tool_defs k) (st1, w) = (x, st2, w2)"
    by (cases "model_call_with_retry k sid i msgs (tool_defs k) (st1, w)")
  note m = try_model_steps [OF k st1 call [unfolded model_call_with_retry_def]]
  show ?thesis
  proof (cases x)
    case (Inl e)
    let ?st3 = "note_event sid [(''type'', JStr ''model_error''), (''iteration'', JInt (int i)),
        (''class'', JStr (exn_class e)), (''detail'', JStr (take 200 (exn_msg e)))] st2"
    have "ksteps k sid s (?st3, w2)" using m by (intro ksteps_event kernel_eventI) auto
    from stop_with_steps [OF this] t ap call Inl m show ?thesis by (auto simp: model_turn_def split: if_splits)
  next
    case (Inr resp)
    let ?st3 = "record_response sid i sq resp st2"
    have st3: "ksteps k sid s (?st3, w2)" using m by (intro record_response_steps) simp
    have cs: "list_all call_ok (mr_tool_calls resp)" using m Inr by blast
    from t ap call Inr stop_with_steps [OF st3] finish_turn_steps [OF st3] tools_turn_steps [OF st3 cs] st3 show ?thesis
      by (auto simp: model_turn_def Let_def split: sum.splits if_splits)
  qed
qed

lemma turn_steps:
  assumes k: "adapter_ok k" and st: "ksteps k sid s (st, w)" and t: "turn k sid start i hist (st, w) = (r, s')"
  shows "ksteps k sid s s'"
proof -
  obtain b w1 where p: "poll_cancel k w = (b, w1)" by (cases "poll_cancel k w")
  note st1 = poll_cancel_steps [OF st p]
  obtain now w2 where m: "k_monotonic k w1 = (now, w2)" by (cases "k_monotonic k w1")
  have st2: "ksteps k sid s (st, w2)" using st1 m by (blast intro: ksteps_snoc kstep.Clock)
  from t p m stop_with_steps [OF st1] stop_with_steps [OF st2] model_turn_steps [OF k st2] show ?thesis
    by (auto simp: turn_def Let_def split: if_splits)
qed

lemma iterate_steps:
  assumes k: "adapter_ok k"
  shows "ksteps k sid s (st, w) \<Longrightarrow> iterate k sid start n i hist (st, w) = (r, s') \<Longrightarrow> ksteps k sid s s'"
proof (induction n arbitrary: i hist st w)
  case 0
  then have "stop_with sid (max_iterations (k_guards k)) ''max_iterations'' (st, w) =
      (Inr (Return (projr r)), s')" by (auto simp: stop_with_def split: prod.splits)
  from stop_with_steps [OF 0(1) this] show ?case .
next
  case (Suc n)
  obtain x st1 w1 where t: "turn k sid start i hist (st, w) = (x, st1, w1)" by (cases "turn k sid start i hist (st, w)")
  note st1 = turn_steps [OF k Suc.prems(1) t]
  from Suc.prems(2) t st1 Suc.IH [OF st1] show ?case by (auto split: sum.splits outcome.splits)
qed

lemma kernel_loop_steps:
  assumes "adapter_ok k" "ksteps k sid s (st, w)" "kernel_loop k sid (st, w) = (r, s')"
  shows "ksteps k sid s s'"
proof -
  obtain start w1 where m: "k_monotonic k w = (start, w1)" by (cases "k_monotonic k w")
  then have "ksteps k sid s (st, w1)" using assms(2) by (blast intro: ksteps_snoc kstep.Clock)
  from iterate_steps [OF assms(1) this] m assms(3) show ?thesis by (simp add: kernel_loop_def)
qed

lemma kernel_run_steps:
  assumes "adapter_ok k" "kernel_run k sid text (st, w) = (r, s')"
  shows "ksteps k sid (st, w) s'"
proof -
  have "ksteps k sid (st, w) (note_journal sid ''ASSEMBLE'' [(''task'', JBool True)] (add_message st sid ''user'' text), w)"
    by (intro ksteps_intros rtranclp.rtrancl_refl) simp_all
  from kernel_loop_steps [OF assms(1) this] assms(2) show ?thesis by (simp add: kernel_run_def)
qed

subsection \<open>Completed runs\<close>

text \<open>A run that ends as completed passed the finalize guard.\<close>

definition passed :: "'w kernel \<Rightarrow> string \<Rightarrow> store \<times> 'w \<Rightarrow> store \<times> 'w \<Rightarrow> bool" where
  "passed k sid s s' \<longleftrightarrow> (\<forall>g. k_finalize_guard k = Some g \<longrightarrow>
     (\<exists>s1. ksteps k sid s s1 \<and> (g sid s1 = None \<or> g sid s1 = Some []) \<and> ksteps k sid s1 s'))"

lemma stop_with_reason: "stop_with sid i reason s = (Inr (Return r), s') \<Longrightarrow> rr_stopped r = reason"
  by (auto simp: stop_with_def stop_run_def split: prod.splits)

lemma finish_turn_passed:
  assumes "ksteps k sid s (st, w)" "finish_turn k sid i hist resp (st, w) = (Inr (Return r), s')"
  shows "passed k sid s s'"
  unfolding passed_def
proof (intro allI impI)
  fix g assume g: "k_finalize_guard k = Some g"
  have "g sid (st, w) = None \<or> g sid (st, w) = Some []"
    using assms(2) g by (cases "g sid (st, w)") (auto simp: finish_turn_def Let_def split: list.splits)
  moreover have "ksteps k sid (st, w) s'" by (rule finish_turn_steps [OF rtranclp.rtrancl_refl assms(2)])
  ultimately show "\<exists>s1. ksteps k sid s s1 \<and> (g sid s1 = None \<or> g sid s1 = Some []) \<and> ksteps k sid s1 s'"
    using assms(1) by blast
qed

lemma turn_passed:
  assumes k: "adapter_ok k" and st: "ksteps k sid s (st, w)" and t: "turn k sid start i hist (st, w) = (Inr (Return r), s')"
    and c: "rr_stopped r = ''completed''"
  shows "passed k sid s s'"
proof -
  obtain b w1 where p: "poll_cancel k w = (b, w1)" by (cases "poll_cancel k w")
  note st1 = poll_cancel_steps [OF st p]
  obtain now w2 where m: "k_monotonic k w1 = (now, w2)" by (cases "k_monotonic k w1")
  have st2: "ksteps k sid s (st, w2)" using st1 m by (blast intro: ksteps_snoc kstep.Clock)
  have stop: "stop_with sid i reason s1 \<noteq> (Inr (Return r), s')" if "reason \<noteq> ''completed''" for reason s1
    using stop_with_reason [of sid i reason s1 r s'] that c by auto
  obtain sq st3 where ap: "journal_append st sid ''MODEL_CALL_INTENT'' [(''iteration'', JInt (int i))] = (sq, st3)"
    by (cases "journal_append st sid ''MODEL_CALL_INTENT'' [(''iteration'', JInt (int i))]")
  have st3: "ksteps k sid s (st3, w2)"
    using ksteps_journal [OF st2, of "[(''iteration'', JInt (int i))]" "''MODEL_CALL_INTENT''"] ap by (simp add: note_journal_def)
  let ?msgs = "assemble_context k st sid"
  have mt: "model_turn k sid i hist ?msgs (st, w2) = (Inr (Return r), s')"
    using t p m stop by (auto simp: turn_def Let_def split: if_splits)
  obtain x st4 w4 where call: "model_call_with_retry k sid i ?msgs (tool_defs k) (st3, w2) = (x, st4, w4)"
    by (cases "model_call_with_retry k sid i ?msgs (tool_defs k) (st3, w2)")
  note mc = try_model_steps [OF k st3 call [unfolded model_call_with_retry_def]]
  from mt ap call stop obtain resp where x: "x = Inr resp" by (cases x) (auto simp: model_turn_def split: if_splits)
  have st5: "ksteps k sid s (record_response sid i sq resp st4, w4)" using mc by (intro record_response_steps) simp
  have no_tools: "tools_turn k sid i hist resp s1 \<noteq> (Inr (Return r), s')" for s1
    using stop c by (auto simp: tools_turn_def Let_def split: prod.splits if_splits sum.splits option.splits)
  have "finish_turn k sid i hist resp (record_response sid i sq resp st4, w4) = (Inr (Return r), s')"
    using mt ap call x stop no_tools by (auto simp: model_turn_def Let_def split: if_splits sum.splits)
  from finish_turn_passed [OF st5 this] show ?thesis .
qed

lemma iterate_passed:
  assumes k: "adapter_ok k"
  shows "ksteps k sid s (st, w) \<Longrightarrow> iterate k sid start n i hist (st, w) = (Inr r, s') \<Longrightarrow> rr_stopped r = ''completed'' \<Longrightarrow> passed k sid s s'"
proof (induction n arbitrary: i hist st w)
  case 0
  then show ?case by (auto simp: stop_run_def split: prod.splits)
next
  case (Suc n)
  obtain x st1 w1 where t: "turn k sid start i hist (st, w) = (x, st1, w1)" by (cases "turn k sid start i hist (st, w)")
  note st1 = turn_steps [OF k Suc.prems(1) t]
  from Suc.prems t st1 Suc.IH [OF st1] turn_passed [OF k Suc.prems(1)] show ?case by (auto split: sum.splits outcome.splits)
qed

lemma kernel_run_passed:
  assumes k: "adapter_ok k" and run: "kernel_run k sid text (st, w) = (Inr r, s')" and c: "rr_stopped r = ''completed''"
  shows "passed k sid (st, w) s'"
proof -
  let ?st = "note_journal sid ''ASSEMBLE'' [(''task'', JBool True)] (add_message st sid ''user'' text)"
  have st: "ksteps k sid (st, w) (?st, w)" by (intro ksteps_intros rtranclp.rtrancl_refl) simp_all
  obtain start w1 where m: "k_monotonic k w = (start, w1)" by (cases "k_monotonic k w")
  then have "ksteps k sid (st, w) (?st, w1)" using st by (blast intro: ksteps_snoc kstep.Clock)
  from iterate_passed [OF k this] m run c show ?thesis by (auto simp: kernel_run_def kernel_loop_def)
qed

subsection \<open>Property\<close>

text \<open>C15: A run is a sequence of kernel steps. Whatever the tools do, also to the store, and however the run ends, the
  kernel gets from the state it was given to the state it leaves by steps of the abstract kernel only: a journal or
  ledger record of its own session, an intent for an authorised call, a message, a persisted result, a call of the
  adapter, the clock or the cancel flag, or the function of a tool whose capability check passed.\<close>

theorem run_refines_steps:
  assumes "adapter_ok k" and "kernel_run k sid text (st, w) = (r, s')"
  shows "ksteps k sid (st, w) s' \<and> (\<forall>res. r = Inr res \<longrightarrow> rr_stopped res = ''completed'' \<longrightarrow> passed k sid (st, w) s')"
  using kernel_run_steps [OF assms] kernel_run_passed [OF assms(1)] assms(2) by blast

theorem run_refines_steps_witness:
  "ksteps echo_kernel ''s'' (empty_store, 0) (snd (kernel_run echo_kernel ''s'' ''hi'' (empty_store, 0)))"
proof -
  have "adapter_ok echo_kernel" by (auto simp: adapter_ok_def echo_kernel_def echo_complete_def split: if_splits)
  from run_refines_steps [OF this, of "''s''" "''hi''" empty_store 0] show ?thesis
    by (metis prod.collapse)
qed

end
