(* ===== verification/Merkle.thy ===== *)
theory Merkle
  imports Sha256
begin

text \<open>
  The Merkle tree of a package's file set (\<open>scr/merkle.py\<close>): leaves, nodes and the level-by-level
  loop, and an abstract tree that explains them. A file map is an association list with distinct keys.
  The root determines the file map, or two hashed byte strings of the two trees collide.
\<close>

definition merkle_leaf :: "string \<Rightarrow> string \<Rightarrow> py_exn + byte list" where
  "merkle_leaf path file_hash_hex =
     (case fromhex file_hash_hex of
        None \<Rightarrow> Inl (mk_exn ''ValueError'' ''non-hexadecimal number found in fromhex() arg'')
      | Some b \<Rightarrow> Inr (sha256 (encode ''leaf:'' @ encode path @ encode '':'' @ b)))"

definition merkle_node :: "byte list \<Rightarrow> byte list \<Rightarrow> byte list" where
  "merkle_node l r = sha256 (encode ''node:'' @ l @ r)"

fun merkle_leaves :: "(string \<times> string) list \<Rightarrow> py_exn + byte list list" where
  "merkle_leaves [] = Inr []"
| "merkle_leaves ((p, h) # fs) =
     (case merkle_leaf p h of
        Inl e \<Rightarrow> Inl e
      | Inr x \<Rightarrow> (case merkle_leaves fs of Inl e \<Rightarrow> Inl e | Inr xs \<Rightarrow> Inr (x # xs)))"

text \<open>One pass over a level: neighbours are joined, an odd last element is promoted.\<close>

fun next_level :: "('a \<Rightarrow> 'a \<Rightarrow> 'a) \<Rightarrow> 'a list \<Rightarrow> 'a list" where
  "next_level f (x # y # xs) = f x y # next_level f xs"
| "next_level f xs = xs"

lemma length_next_level: "length (next_level f xs) = (length xs + 1) div 2"
  by (induction f xs rule: next_level.induct) auto

function top_level :: "('a \<Rightarrow> 'a \<Rightarrow> 'a) \<Rightarrow> 'a list \<Rightarrow> 'a list" where
  "top_level f xs = (if length xs > 1 then top_level f (next_level f xs) else xs)"
  by pat_completeness auto
termination
  by (relation "measure (\<lambda>(f, xs). length xs)") (auto simp: length_next_level)

declare top_level.simps [simp del]

definition merkle_root :: "(string \<times> string) list \<Rightarrow> py_exn + string" where
  "merkle_root files =
     (if files = [] then Inr (replicate 64 (CHR ''0''))
      else (case merkle_leaves (sort_key fst files) of
              Inl e \<Rightarrow> Inl e
            | Inr level \<Rightarrow> Inr (hex (hd (top_level merkle_node level)))))"

subsection \<open>The tree behind the levels\<close>

datatype mtree = MLeaf string string | MNode mtree mtree

definition hash_bytes :: "string \<Rightarrow> byte list" where
  "hash_bytes h = (case fromhex h of Some b \<Rightarrow> b | None \<Rightarrow> [])"

fun tree_hash :: "mtree \<Rightarrow> byte list" where
  "tree_hash (MLeaf p h) = sha256 (encode ''leaf:'' @ encode p @ encode '':'' @ hash_bytes h)"
| "tree_hash (MNode l r) = merkle_node (tree_hash l) (tree_hash r)"

fun preimage :: "mtree \<Rightarrow> byte list" where
  "preimage (MLeaf p h) = encode ''leaf:'' @ encode p @ encode '':'' @ hash_bytes h"
| "preimage (MNode l r) = encode ''node:'' @ tree_hash l @ tree_hash r"

fun subtrees :: "mtree \<Rightarrow> mtree set" where
  "subtrees (MLeaf p h) = {MLeaf p h}"
| "subtrees (MNode l r) = insert (MNode l r) (subtrees l \<union> subtrees r)"

fun fringe :: "mtree \<Rightarrow> (string \<times> string) list" where
  "fringe (MLeaf p h) = [(p, h)]"
| "fringe (MNode l r) = fringe l @ fringe r"

text \<open>A SHA-256 digest in hex, the only thing \<open>build_files_map\<close> puts into a file map.\<close>

definition digest_hex :: "string \<Rightarrow> bool" where
  "digest_hex h \<longleftrightarrow> (\<exists>b. length b = 32 \<and> h = hex b)"

definition file_tree :: "(string \<times> string) list \<Rightarrow> mtree" where
  "file_tree files = hd (top_level MNode (map (\<lambda>(p, h). MLeaf p h) (sort_key fst files)))"

lemma tree_hash_preimage: "tree_hash t = sha256 (preimage t)"
  by (cases t) (simp_all add: merkle_node_def)

lemma length_tree_hash [simp]: "length (tree_hash t) = 32"
  by (simp add: tree_hash_preimage)

lemma digest_hexD: "digest_hex h \<Longrightarrow> fromhex h = Some (hash_bytes h) \<and> length (hash_bytes h) = 32 \<and> h = hex (hash_bytes h)"
  by (auto simp: digest_hex_def fromhex_hex hash_bytes_def)

lemma self_subtree [simp]: "t \<in> subtrees t"
  by (cases t) auto

lemma leaf_preimage_inject:
  assumes "digest_hex h" "digest_hex h'" "preimage (MLeaf p h) = preimage (MLeaf p' h')"
  shows "p = p' \<and> h = h'"
proof -
  note d = digest_hexD [OF assms(1)] digest_hexD [OF assms(2)]
  have "encode (p @ '':'') @ hash_bytes h = encode (p' @ '':'') @ hash_bytes h'"
    using assms(3) by simp
  moreover have "length (hash_bytes h) = length (hash_bytes h')" using d by simp
  ultimately have "encode (p @ '':'') = encode (p' @ '':'') \<and> hash_bytes h = hash_bytes h'"
    by (meson append_eq_append_conv)
  with d show ?thesis by (metis append_same_eq encode_inject)
qed

lemma leaf_node_preimage: "preimage (MLeaf p h) \<noteq> preimage (MNode l r)"
  by (simp add: encode_def utf8_char_def Let_def)

lemma tree_hash_binding:
  "(\<forall>(p, h)\<in>set (fringe t). digest_hex h) \<Longrightarrow> (\<forall>(p, h)\<in>set (fringe u). digest_hex h) \<Longrightarrow>
   tree_hash t = tree_hash u \<Longrightarrow>
   t = u \<or> (\<exists>x\<in>subtrees t. \<exists>y\<in>subtrees u. collision (preimage x) (preimage y))"
proof (induction t arbitrary: u)
  case (MLeaf p h)
  then consider "preimage (MLeaf p h) = preimage u" | "collision (preimage (MLeaf p h)) (preimage u)"
    unfolding tree_hash_preimage using sha256_eq_or_collision by blast
  then show ?case
  proof cases
    case 1
    then obtain p' h' where "u = MLeaf p' h'" using leaf_node_preimage by (cases u) metis+
    with 1 MLeaf.prems leaf_preimage_inject [of h h' p p'] show ?thesis by auto
  next
    case 2
    then show ?thesis using self_subtree [of u] by auto
  qed
next
  case (MNode l r)
  then consider "preimage (MNode l r) = preimage u" | "collision (preimage (MNode l r)) (preimage u)"
    unfolding tree_hash_preimage using sha256_eq_or_collision by blast
  then show ?case
  proof cases
    case 1
    then obtain l' r' where u: "u = MNode l' r'" using leaf_node_preimage by (cases u) metis+
    with 1 have eq: "tree_hash l = tree_hash l'" "tree_hash r = tree_hash r'" by simp_all
    have "l = l' \<or> (\<exists>x\<in>subtrees l. \<exists>y\<in>subtrees l'. collision (preimage x) (preimage y))"
      "r = r' \<or> (\<exists>x\<in>subtrees r. \<exists>y\<in>subtrees r'. collision (preimage x) (preimage y))"
      using MNode.IH(1) [OF _ _ eq(1)] MNode.IH(2) [OF _ _ eq(2)] MNode.prems(1,2) u by auto
    then show ?thesis unfolding u by auto
  next
    case 2
    then show ?thesis using self_subtree [of u] self_subtree [of "MNode l r"] by blast
  qed
qed

subsection \<open>The loop builds the tree\<close>

lemma map_next_level: "(\<And>x y. h (f x y) = g (h x) (h y)) \<Longrightarrow> map h (next_level f xs) = next_level g (map h xs)"
  by (induction f xs rule: next_level.induct) auto

lemma map_top_level:
  assumes "\<And>x y. h (f x y) = g (h x) (h y)"
  shows "map h (top_level f xs) = top_level g (map h xs)"
proof (induction xs rule: measure_induct_rule [of length])
  case (less xs)
  show ?case
  proof (cases "length xs > 1")
    case True
    then have "length (next_level f xs) < length xs" by (simp add: length_next_level)
    from less [OF this] True show ?thesis
      by (subst (1 2) top_level.simps) (simp add: map_next_level [of h f g, OF assms])
  next
    case False
    then show ?thesis by (simp add: top_level.simps)
  qed
qed

lemma concat_next_level:
  assumes "\<And>x y. h (f x y) = h x @ h y"
  shows "concat (map h (next_level f xs)) = concat (map h xs)"
proof (induction xs rule: induct_list012)
  case (3 x y zs)
  then show ?case by (simp add: assms)
qed simp_all

lemma top_level_single:
  assumes "xs \<noteq> []"
  shows "\<exists>t. top_level f xs = [t]"
  using assms
proof (induction xs rule: measure_induct_rule [of length])
  case (less xs)
  show ?case
  proof (cases "length xs > 1")
    case True
    then have "length (next_level f xs) < length xs" "next_level f xs \<noteq> []"
      using length_next_level [of f xs] by auto
    from less.IH [OF this] True show ?thesis by (simp add: top_level.simps)
  next
    case False
    with less.prems show ?thesis by (cases xs) (auto simp: top_level.simps)
  qed
qed

lemma concat_top_level:
  assumes "\<And>x y. h (f x y) = h x @ h y"
  shows "concat (map h (top_level f xs)) = concat (map h xs)"
proof (induction xs rule: measure_induct_rule [of length])
  case (less xs)
  show ?case
  proof (cases "length xs > 1")
    case True
    then have "length (next_level f xs) < length xs" by (simp add: length_next_level)
    from less [OF this] True show ?thesis
      by (subst top_level.simps) (simp add: concat_next_level [of h f, OF assms])
  next
    case False
    then show ?thesis by (simp add: top_level.simps)
  qed
qed

lemma fringe_file_tree: "files \<noteq> [] \<Longrightarrow> fringe (file_tree files) = sort_key fst files"
proof -
  assume "files \<noteq> []"
  let ?ls = "map (\<lambda>(p, h). MLeaf p h) (sort_key fst files)"
  have "sort_key fst files \<noteq> []" using \<open>files \<noteq> []\<close> by (metis length_0_conv length_sort)
  then obtain t where t: "top_level MNode ?ls = [t]" using top_level_single [of ?ls MNode] by auto
  have "concat (map fringe (top_level MNode ?ls)) = concat (map fringe ?ls)"
    by (rule concat_top_level) simp
  moreover have "concat (map fringe (map (\<lambda>(p, h). MLeaf p h) xs)) = xs" for xs
    by (induction xs) auto
  ultimately show "fringe (file_tree files) = sort_key fst files" by (simp add: file_tree_def t)
qed

lemma merkle_leaves_digest:
  "\<forall>(p, h)\<in>set fs. digest_hex h \<Longrightarrow>
   merkle_leaves fs = Inr (map tree_hash (map (\<lambda>(p, h). MLeaf p h) fs))"
  by (induction fs rule: merkle_leaves.induct) (auto simp: merkle_leaf_def dest!: digest_hexD)

lemma merkle_root_tree:
  assumes "files \<noteq> []" "\<forall>(p, h)\<in>set files. digest_hex h"
  shows "merkle_root files = Inr (hex (tree_hash (file_tree files)))"
proof -
  let ?ls = "map (\<lambda>(p, h). MLeaf p h) (sort_key fst files)"
  have "sort_key fst files \<noteq> []" using assms(1) by (metis length_0_conv length_sort)
  then obtain t where t: "top_level MNode ?ls = [t]" using top_level_single [of ?ls MNode] by auto
  have "map tree_hash (top_level MNode ?ls) = top_level merkle_node (map tree_hash ?ls)"
    by (rule map_top_level) simp
  with t have "hd (top_level merkle_node (map tree_hash ?ls)) = tree_hash (file_tree files)"
    by (simp add: file_tree_def) (metis list.sel(1))
  with assms merkle_leaves_digest [of "sort_key fst files"] show ?thesis by (simp add: merkle_root_def)
qed

lemma merkle_roots_bind:
  assumes "files \<noteq> []" and "files' \<noteq> []"
    and "\<forall>(p, h)\<in>set files \<union> set files'. digest_hex h"
    and "merkle_root files = merkle_root files'"
  shows "sort_key fst files = sort_key fst files' \<or>
    (\<exists>x\<in>subtrees (file_tree files). \<exists>y\<in>subtrees (file_tree files'). collision (preimage x) (preimage y))"
proof -
  have ok: "\<forall>(p, h)\<in>set files. digest_hex h" "\<forall>(p, h)\<in>set files'. digest_hex h" using assms(3) by auto
  note f = fringe_file_tree [OF assms(1)] fringe_file_tree [OF assms(2)]
  have "tree_hash (file_tree files) = tree_hash (file_tree files')"
    using assms(4) by (simp add: merkle_root_tree [OF assms(1) ok(1)] merkle_root_tree [OF assms(2) ok(2)])
  moreover have "\<forall>(p, h)\<in>set (fringe (file_tree files)). digest_hex h"
    "\<forall>(p, h)\<in>set (fringe (file_tree files')). digest_hex h" using ok f by simp_all
  ultimately show ?thesis using tree_hash_binding [of "file_tree files" "file_tree files'"] f by metis
qed

subsection \<open>Properties\<close>

text \<open>The Merkle root binds the file set. For two file maps of SHA-256 digests with the same
  root, the maps are the same, as lists sorted by path, or two byte strings hashed in building the
  two trees are a collision of SHA-256; in particular no leaf can pass for an inner node.\<close>

theorem merkle_root_binds:
  assumes "files \<noteq> []" and "files' \<noteq> []"
    and "\<forall>(p, h)\<in>set files \<union> set files'. digest_hex h"
    and "merkle_root files = merkle_root files'"
  shows "sort_key fst files = sort_key fst files' \<or>
    (\<exists>x\<in>subtrees (file_tree files). \<exists>y\<in>subtrees (file_tree files'). collision (preimage x) (preimage y))"
  using assms by (rule merkle_roots_bind)

theorem merkle_root_binds_witness:
  "sort_key fst [(''b'', hex (replicate 32 1)), (''a'', hex (replicate 32 2))] =
     sort_key fst [(''a'', hex (replicate 32 2)), (''b'', hex (replicate 32 1))] \<and>
   merkle_root [(''b'', hex (replicate 32 1)), (''a'', hex (replicate 32 2))] =
     merkle_root [(''a'', hex (replicate 32 2)), (''b'', hex (replicate 32 1))]"
proof -
  let ?f = "[(''b'', hex (replicate 32 (1::byte))), (''a'', hex (replicate 32 2))]"
  let ?g = "[(''a'', hex (replicate 32 (2::byte))), (''b'', hex (replicate 32 1))]"
  have s: "sort_key fst ?f = sort_key fst ?g" by simp
  then have r: "merkle_root ?f = merkle_root ?g" "file_tree ?f = file_tree ?g"
    by (simp_all only: merkle_root_def file_tree_def list.distinct if_False)
  have d: "\<forall>(p, h)\<in>set ?f \<union> set ?g. digest_hex h"
  proof -
    have "digest_hex (hex (replicate 32 (b::byte)))" for b unfolding digest_hex_def by (rule exI [of _ "replicate 32 b"]) simp
    then show ?thesis by simp
  qed
  from merkle_root_binds [OF _ _ d r(1)] s r(1) show ?thesis by blast
qed

text \<open>The Merkle root is a function of the file map alone: the order in which the files are listed
  does not matter.\<close>

theorem merkle_root_order:
  assumes "distinct (map fst files)" and "set files = set files'" and "distinct (map fst files')"
  shows "merkle_root files = merkle_root files'"
proof -
  have "sort_key fst files = sort_key fst files'"
  proof (rule map_sorted_distinct_set_unique [where f = fst])
    show "inj_on fst (set (sort_key fst files) \<union> set (sort_key fst files'))"
      using assms by (simp add: distinct_map)
  qed (use assms in \<open>simp_all add: distinct_map\<close>)
  moreover have "files = [] \<longleftrightarrow> files' = []" using assms(2) by auto
  ultimately show ?thesis by (simp add: merkle_root_def)
qed

theorem merkle_root_order_witness:
  "merkle_root [(''b'', ''00''), (''a'', ''01'')] = merkle_root [(''a'', ''01''), (''b'', ''00'')]"
  by (rule merkle_root_order) auto

end
