(* ===== verification/Packages.thy ===== *)
theory Packages
  imports Merkle Json
begin

text \<open>
  Signed packages: keys and revocation lists (\<open>scr/signing.py\<close>), the package format
  (\<open>scr/package.py\<close>), the publisher's signer (\<open>scr/signer.py\<close>) and the verifying loader
  (\<open>scr/loader.py\<close>). The Ed25519 implementation of the \<open>cryptography\<close> package is a
  parameter; the documented behaviour the code relies on is that keys are 32 bytes long and that a
  signature made with a private key verifies under its public key. A package file is what the zip
  directory holds: member names with their bytes, in archive order.
\<close>

subsection \<open>Keys and signatures\<close>

record ed25519 =
  ed_public :: "byte list \<Rightarrow> byte list"
  ed_sign :: "byte list \<Rightarrow> byte list \<Rightarrow> byte list"
  ed_verify :: "byte list \<Rightarrow> byte list \<Rightarrow> byte list \<Rightarrow> bool"

definition ed_correct :: "ed25519 \<Rightarrow> bool" where
  "ed_correct ed \<longleftrightarrow> (\<forall>sk m. length sk = 32 \<longrightarrow>
     length (ed_public ed sk) = 32 \<and> ed_verify ed (ed_public ed sk) (ed_sign ed sk m) m)"

definition value_error :: py_exn where
  "value_error = mk_exn ''ValueError'' ''non-hexadecimal number found in fromhex() arg''"

definition type_error :: py_exn where
  "type_error = mk_exn ''TypeError'' ''unexpected type''"

definition key_id :: "string \<Rightarrow> py_exn + string" where
  "key_id public_key_hex =
     (case fromhex public_key_hex of None \<Rightarrow> Inl value_error | Some b \<Rightarrow> Inr (take 16 (sha256_hex b)))"

definition private_bytes :: "string \<Rightarrow> py_exn + byte list" where
  "private_bytes private_key_hex =
     (case fromhex private_key_hex of
        None \<Rightarrow> Inl value_error
      | Some sk \<Rightarrow> if length sk = 32 then Inr sk
                   else Inl (mk_exn ''ValueError'' ''An Ed25519 private key is 32 bytes long''))"

definition sign :: "ed25519 \<Rightarrow> string \<Rightarrow> byte list \<Rightarrow> py_exn + string" where
  "sign ed private_key_hex message =
     (case private_bytes private_key_hex of
        Inl e \<Rightarrow> Inl e
      | Inr sk \<Rightarrow> Inr (hex (ed_sign ed sk message)))"

definition verify :: "ed25519 \<Rightarrow> string \<Rightarrow> string \<Rightarrow> byte list \<Rightarrow> bool" where
  "verify ed public_key_hex signature_hex message \<longleftrightarrow>
     (case (fromhex public_key_hex, fromhex signature_hex) of
        (Some pk, Some sg) \<Rightarrow> length pk = 32 \<and> ed_verify ed pk sg message
      | _ \<Rightarrow> False)"

type_synonym keystore = "(string \<times> string) list"

definition keystore_add :: "keystore \<Rightarrow> string \<Rightarrow> py_exn + (string \<times> keystore)" where
  "keystore_add ks public_key_hex =
     (case key_id public_key_hex of Inl e \<Rightarrow> Inl e | Inr kid \<Rightarrow> Inr (kid, dict_set kid public_key_hex ks))"

definition trusts :: "keystore \<Rightarrow> string \<Rightarrow> py_exn + bool" where
  "trusts ks public_key_hex =
     (case key_id public_key_hex of Inl e \<Rightarrow> Inl e | Inr kid \<Rightarrow> Inr (dict_get ks kid = Some public_key_hex))"

record revocation_list =
  revoked :: "(string \<times> string) list"
  rl_public_key :: string
  rl_signature :: string

definition revocation_message :: "revocation_list \<Rightarrow> byte list" where
  "revocation_message rl =
     encode (canonical (JObj [(''revoked'', JArr (map (\<lambda>r. JArr [JStr (fst r), JStr (snd r)])
       (sort_key (\<lambda>r. [fst r, snd r]) (revoked rl))))]))"

definition revocation_create ::
  "ed25519 \<Rightarrow> (string \<times> string) list \<Rightarrow> string \<Rightarrow> string \<Rightarrow> py_exn + revocation_list" where
  "revocation_create ed rs private_key_hex public_key_hex =
     (let rl = \<lparr>revoked = rs, rl_public_key = public_key_hex, rl_signature = []\<rparr> in
      case sign ed private_key_hex (revocation_message rl) of
        Inl e \<Rightarrow> Inl e
      | Inr sg \<Rightarrow> Inr (rl\<lparr>rl_signature := sg\<rparr>))"

definition revocation_valid :: "ed25519 \<Rightarrow> revocation_list \<Rightarrow> keystore \<Rightarrow> py_exn + bool" where
  "revocation_valid ed rl ks =
     (if rl_signature rl = [] then Inr False
      else (case trusts ks (rl_public_key rl) of
              Inl e \<Rightarrow> Inl e
            | Inr t \<Rightarrow> Inr (t \<and> verify ed (rl_public_key rl) (rl_signature rl) (revocation_message rl))))"

text \<open>Name and version are whatever the manifest holds; a list or an object there cannot be hashed.\<close>

fun hashable :: "json \<Rightarrow> bool" where
  "hashable (JArr _) = False"
| "hashable (JObj _) = False"
| "hashable _ = True"

definition is_revoked :: "revocation_list \<Rightarrow> json \<Rightarrow> json \<Rightarrow> py_exn + bool" where
  "is_revoked rl name version =
     (if hashable name \<and> hashable version
      then Inr (\<exists>r\<in>set (revoked rl). name = JStr (fst r) \<and> version = JStr (snd r))
      else Inl type_error)"

subsection \<open>Packages\<close>

definition MANIFEST_NAME :: string where "MANIFEST_NAME = ''manifest.json''"
definition SIGNATURE_NAME :: string where "SIGNATURE_NAME = ''SIGNATURE''"

type_synonym zip_file = "(string \<times> byte list) list"

record package =
  pk_zip :: zip_file
  pk_manifest :: json
  pk_signature :: "json option"

text \<open>Reading a member by name gives the last one of that name, as the zip directory does.\<close>

definition zip_read :: "zip_file \<Rightarrow> string \<Rightarrow> py_exn + byte list" where
  "zip_read z name =
     (case map_of (rev z) name of
        Some b \<Rightarrow> Inr b
      | None \<Rightarrow> Inl (mk_exn ''KeyError'' (''There is no item named '' @ py_repr name @ '' in the archive'')))"

definition loads_bytes :: "byte list \<Rightarrow> py_exn + json" where
  "loads_bytes b =
     (case decode b of
        None \<Rightarrow> Inl (mk_exn ''UnicodeDecodeError'' ''invalid utf-8'')
      | Some s \<Rightarrow> (case loads s of
                     None \<Rightarrow> Inl (mk_exn ''JSONDecodeError'' ''invalid JSON'')
                   | Some j \<Rightarrow> Inr j))"

definition open_package :: "py_exn + zip_file \<Rightarrow> py_exn + package" where
  "open_package file =
     (case file of
        Inl e \<Rightarrow> Inl e
      | Inr z \<Rightarrow>
          (case zip_read z MANIFEST_NAME of
             Inl e \<Rightarrow> Inl e
           | Inr mb \<Rightarrow>
               (case loads_bytes mb of
                  Inl e \<Rightarrow> Inl e
                | Inr m \<Rightarrow>
                    if SIGNATURE_NAME \<notin> set (map fst z)
                    then Inr \<lparr>pk_zip = z, pk_manifest = m, pk_signature = None\<rparr>
                    else
                      (case zip_read z SIGNATURE_NAME of
                         Inl e \<Rightarrow> Inl e
                       | Inr sb \<Rightarrow>
                           (case loads_bytes sb of
                              Inl e \<Rightarrow> Inl e
                            | Inr sg \<Rightarrow> Inr \<lparr>pk_zip = z, pk_manifest = m,
                                pk_signature = (if sg = JNull then None else Some sg)\<rparr>)))))"

definition read_member :: "package \<Rightarrow> string \<Rightarrow> byte list option" where
  "read_member pkg name = map_of (rev (pk_zip pkg)) name"

definition member_names :: "package \<Rightarrow> string list" where
  "member_names pkg = filter (\<lambda>n. n \<noteq> MANIFEST_NAME \<and> n \<noteq> SIGNATURE_NAME) (map fst (pk_zip pkg))"

definition actual_file_hashes :: "package \<Rightarrow> (string \<times> string) list" where
  "actual_file_hashes pkg =
     foldl (\<lambda>d n. dict_set n (case read_member pkg n of Some b \<Rightarrow> sha256_hex b | None \<Rightarrow> []) d) []
       (member_names pkg)"

text \<open>The files below the source directory in the order of the walk, with their bytes.\<close>

definition build_files_map :: "(string \<times> byte list) list \<Rightarrow> (string \<times> string) list" where
  "build_files_map src =
     foldl (\<lambda>d (rel, b). if rel = MANIFEST_NAME \<or> rel = SIGNATURE_NAME then d else dict_set rel (sha256_hex b) d) [] src"

definition json_files :: "(string \<times> string) list \<Rightarrow> dict" where
  "json_files files = map (\<lambda>p. (fst p, JStr (snd p))) files"

definition build_manifest :: "(string \<times> byte list) list \<Rightarrow> string \<Rightarrow> string \<Rightarrow> json" where
  "build_manifest src name version =
     JObj [(''name'', JStr name), (''version'', JStr version), (''files'', JObj (json_files (build_files_map src)))]"

definition write_package :: "(string \<times> byte list) list \<Rightarrow> (string \<times> string) list \<Rightarrow> json \<Rightarrow> json \<Rightarrow> zip_file" where
  "write_package src files manifest signature =
     (MANIFEST_NAME, encode (canonical manifest)) #
     map (\<lambda>rel. (rel, case map_of src rel of Some b \<Rightarrow> b | None \<Rightarrow> [])) (sorted_strs (dict_keys files)) @
     [(SIGNATURE_NAME, encode (canonical signature))]"

subsection \<open>The signer\<close>

definition public_of :: "ed25519 \<Rightarrow> string \<Rightarrow> py_exn + string" where
  "public_of ed private_hex =
     (case private_bytes private_hex of Inl e \<Rightarrow> Inl e | Inr sk \<Rightarrow> Inr (hex (ed_public ed sk)))"

definition sign_package ::
  "ed25519 \<Rightarrow> (string \<times> byte list) list \<Rightarrow> string \<Rightarrow> string \<Rightarrow> string \<Rightarrow> py_exn + (dict \<times> zip_file)" where
  "sign_package ed src name version private_key_hex =
     (let manifest = build_manifest src name version; files = build_files_map src in
      case merkle_root files of
        Inl e \<Rightarrow> Inl e
      | Inr rt \<Rightarrow>
          (case public_of ed private_key_hex of
             Inl e \<Rightarrow> Inl e
           | Inr public_hex \<Rightarrow>
               (case key_id public_hex of
                  Inl e \<Rightarrow> Inl e
                | Inr kid \<Rightarrow>
                    (case sign ed private_key_hex (encode rt) of
                       Inl e \<Rightarrow> Inl e
                     | Inr sg \<Rightarrow>
                         (let signature =
                                [(''algorithm'', JStr ''ed25519''), (''package'', JStr name), (''version'', JStr version),
                                 (''merkle_root'', JStr rt), (''public_key'', JStr public_hex), (''key_id'', JStr kid),
                                 (''signature'', JStr sg)]
                          in Inr (signature, write_package src files manifest (JObj signature)))))))"

subsection \<open>The loader\<close>

record load_result =
  ld_ok :: bool
  ld_error :: "string option"
  ld_detail :: string
  ld_package :: json
  ld_version :: json

definition malformed :: "py_exn \<Rightarrow> load_result" where
  "malformed e = \<lparr>ld_ok = False, ld_error = Some ''malformed_package'', ld_detail = take 200 (exn_msg e),
     ld_package = JNull, ld_version = JNull\<rparr>"

definition reject :: "json \<Rightarrow> json \<Rightarrow> string \<Rightarrow> string \<Rightarrow> load_result" where
  "reject name version err detail =
     \<lparr>ld_ok = False, ld_error = Some err, ld_detail = detail, ld_package = name, ld_version = version\<rparr>"

text \<open>\<open>d.get(k)\<close> with \<open>None\<close> as the JSON null, and \<open>d.get(k, "")\<close> where a string is needed.\<close>

definition get_or_null :: "dict \<Rightarrow> string \<Rightarrow> json" where
  "get_or_null d k = (case dict_get d k of None \<Rightarrow> JNull | Some v \<Rightarrow> v)"

definition text_field :: "dict \<Rightarrow> string \<Rightarrow> py_exn + string" where
  "text_field d k = (case dict_get d k of
     None \<Rightarrow> Inr [] | Some (JStr s) \<Rightarrow> Inr s | Some _ \<Rightarrow> Inl type_error)"

text \<open>The names \<open>set(declared)\<close> iterates over when all of them are strings, and the hash \<open>declared[rel]\<close>.\<close>

fun declared_names :: "json \<Rightarrow> py_exn + string list" where
  "declared_names (JObj d) = Inr (dict_keys d)"
| "declared_names (JArr vs) =
     (if \<forall>v\<in>set vs. \<exists>s. v = JStr s then Inr (map py_str vs) else Inl type_error)"
| "declared_names (JStr s) = Inr (map (\<lambda>c. [c]) s)"
| "declared_names _ = Inl type_error"

text \<open>A list may also name things that are no strings. Those that can be hashed are never members, so they are missing files;
  \<open>sorted\<close> puts numbers in order, of which equal ones are one, and raises when it has to compare different kinds.\<close>

fun number_of :: "json \<Rightarrow> int option" where
  "number_of (JInt i) = Some i"
| "number_of (JBool b) = Some (if b then 1 else 0)"
| "number_of _ = None"

fun set_of_items :: "json list \<Rightarrow> json list \<Rightarrow> json list" where
  "set_of_items seen [] = seen"
| "set_of_items seen (v # vs) =
     set_of_items (if v \<in> set seen \<or> number_of v \<noteq> None \<and> number_of v \<in> number_of ` set seen then seen else seen @ [v]) vs"

definition sorted_items :: "json list \<Rightarrow> py_exn + json list" where
  "sorted_items vs =
     (if length vs \<le> 1 then Inr vs
      else if \<forall>v\<in>set vs. number_of v \<noteq> None then Inr (sort_key (\<lambda>v. case number_of v of Some i \<Rightarrow> i | None \<Rightarrow> 0) vs)
      else if \<forall>v\<in>set vs. \<exists>s. v = JStr s then Inr (map JStr (sorted_strs (map py_str vs)))
      else Inl type_error)"

definition odd_names :: "json \<Rightarrow> string list \<Rightarrow> json \<Rightarrow> json \<Rightarrow> py_exn \<Rightarrow> py_exn + load_result" where
  "odd_names declared members name version e =
     (case declared of
        JArr vs \<Rightarrow>
          if \<forall>v\<in>set vs. hashable v
          then rbind (sorted_items (filter (\<lambda>v. v \<notin> JStr ` set members) (set_of_items [] vs))) (\<lambda>ms.
                 Inr (reject name version ''missing_files'' (''declared but absent: '' @ py_repr_json (JArr ms))))
          else Inl e
      | _ \<Rightarrow> Inl e)"

fun declared_hash :: "json \<Rightarrow> string \<Rightarrow> py_exn + json" where
  "declared_hash (JObj d) rel = Inr (get_or_null d rel)"
| "declared_hash _ rel = Inl type_error"

fun first_mismatch :: "(string \<times> string) list \<Rightarrow> json \<Rightarrow> string list \<Rightarrow> py_exn + string option" where
  "first_mismatch actual declared [] = Inr None"
| "first_mismatch actual declared (rel # rels) =
     (case declared_hash declared rel of
        Inl e \<Rightarrow> Inl e
      | Inr h \<Rightarrow> if map_option JStr (dict_get actual rel) \<noteq> Some h then Inr (Some rel)
                 else first_mismatch actual declared rels)"

fun string_files :: "json \<Rightarrow> (string \<times> string) list" where
  "string_files (JObj d) = map (\<lambda>(p, j). (p, case j of JStr h \<Rightarrow> h | _ \<Rightarrow> [])) d"
| "string_files _ = []"

text \<open>Step 6: revocation, honoured only if the list is validly signed.\<close>

definition check_revocation ::
  "ed25519 \<Rightarrow> json \<Rightarrow> json \<Rightarrow> keystore \<Rightarrow> revocation_list option \<Rightarrow> py_exn + load_result" where
  "check_revocation ed name version ks revs =
     (let accept = \<lparr>ld_ok = True, ld_error = None, ld_detail = ''verified'', ld_package = name, ld_version = version\<rparr> in
      case revs of
        None \<Rightarrow> Inr accept
      | Some rl \<Rightarrow>
          (case revocation_valid ed rl ks of
             Inl e \<Rightarrow> Inl e
           | Inr valid \<Rightarrow>
               if \<not> valid then Inr accept
               else
                 (case is_revoked rl name version of
                    Inl e \<Rightarrow> Inl e
                  | Inr r \<Rightarrow>
                      if r then Inr (reject name version ''revoked'' (py_str name @ '' '' @ py_str version @ '' is revoked''))
                      else Inr accept)))"

text \<open>Steps 3 to 5: root, signature, pinning.\<close>

definition check_signature ::
  "ed25519 \<Rightarrow> json option \<Rightarrow> json \<Rightarrow> json \<Rightarrow> json \<Rightarrow> keystore \<Rightarrow> revocation_list option \<Rightarrow> py_exn + load_result" where
  "check_signature ed signature declared name version ks revs =
     (case signature of
        None \<Rightarrow> Inr (reject name version ''unsigned'' ''no SIGNATURE member'')
      | Some (JObj sg) \<Rightarrow>
          (case merkle_root (string_files declared) of
             Inl e \<Rightarrow> Inl e
           | Inr rt \<Rightarrow>
               if get_or_null sg ''merkle_root'' \<noteq> JStr rt
               then Inr (reject name version ''root_mismatch'' ''SIGNATURE root != recomputed Merkle root'')
               else
                 (case text_field sg ''public_key'' of
                    Inl e \<Rightarrow> Inl e
                  | Inr pub \<Rightarrow>
                      if (case fromhex pub of None \<Rightarrow> True | Some b \<Rightarrow> length b \<noteq> 32)
                      then Inr (reject name version ''bad_signature'' ''Ed25519 signature does not verify'')
                      else
                        (case text_field sg ''signature'' of
                           Inl e \<Rightarrow> Inl e
                         | Inr sigx \<Rightarrow>
                             if \<not> verify ed pub sigx (encode rt)
                             then Inr (reject name version ''bad_signature'' ''Ed25519 signature does not verify'')
                             else
                               (case trusts ks pub of
                                  Inl e \<Rightarrow> Inl e
                                | Inr t \<Rightarrow>
                                    if \<not> t
                                    then Inr (reject name version ''untrusted_key'' ''signing key is not pinned in the keystore'')
                                    else check_revocation ed name version ks revs))))
      | Some _ \<Rightarrow> Inl (mk_exn ''AttributeError'' ''object has no attribute get''))"

definition verify_package ::
  "ed25519 \<Rightarrow> py_exn + zip_file \<Rightarrow> keystore \<Rightarrow> revocation_list option \<Rightarrow> py_exn + load_result" where
  "verify_package ed file ks revs =
     (case open_package file of
        Inl e \<Rightarrow> if isinstance e ''Exception'' then Inr (malformed e) else Inl e
      | Inr pkg \<Rightarrow>
          (case pk_manifest pkg of
             JObj manifest \<Rightarrow>
               (let name = get_or_null manifest ''name'';
                    version = get_or_null manifest ''version'';
                    declared = (case dict_get manifest ''files'' of None \<Rightarrow> JObj [] | Some j \<Rightarrow> j);
                    actual = actual_file_hashes pkg in
                case declared_names declared of
                  Inl e \<Rightarrow> odd_names declared (dict_keys actual) name version e
                | Inr names \<Rightarrow>
                    (let missing = filter (\<lambda>n. n \<notin> set (dict_keys actual)) (sorted_strs (remdups names));
                         extra = filter (\<lambda>n. n \<notin> set names) (sorted_strs (dict_keys actual)) in
                     if missing \<noteq> []
                     then Inr (reject name version ''missing_files'' (''declared but absent: '' @ repr_str_list missing))
                     else if extra \<noteq> []
                     then Inr (reject name version ''unexpected_files'' (''present but not in manifest: '' @ repr_str_list extra))
                     else
                       (case first_mismatch actual declared (sorted_strs names) of
                          Inl e \<Rightarrow> Inl e
                        | Inr (Some rel) \<Rightarrow> Inr (reject name version ''tampered_file'' (''hash mismatch in '' @ py_repr rel))
                        | Inr None \<Rightarrow> check_signature ed (pk_signature pkg) declared name version ks revs)))
           | _ \<Rightarrow> Inl (mk_exn ''AttributeError'' ''object has no attribute get'')))"

definition integrity_check :: "ed25519 \<Rightarrow> py_exn + zip_file \<Rightarrow> py_exn + load_result" where
  "integrity_check ed file =
     (case open_package file of
        Inl e \<Rightarrow> if isinstance e ''Exception'' then Inr (malformed e) else Inl e
      | Inr pkg \<Rightarrow>
          (case (case pk_signature pkg of Some j \<Rightarrow> if truthy j then j else JObj [] | None \<Rightarrow> JObj []) of
             JObj sg \<Rightarrow>
               (let pub = (case dict_get sg ''public_key'' of None \<Rightarrow> JStr [] | Some v \<Rightarrow> v) in
                if \<not> truthy pub then verify_package ed file [] None
                else (case pub of
                        JStr p \<Rightarrow> (case keystore_add [] p of
                                     Inl e \<Rightarrow> Inl e
                                   | Inr (_, ks) \<Rightarrow> verify_package ed file ks None)
                      | _ \<Rightarrow> Inl type_error))
           | _ \<Rightarrow> Inr (malformed (mk_exn ''AttributeError'' ''object has no attribute get''))))"

subsection \<open>File maps\<close>

lemma dict_get_foldl_set:
  "dict_get (foldl (\<lambda>d n. dict_set n (f n) d) d ns) k = (if k \<in> set ns then Some (f k) else dict_get d k)"
  by (induction ns arbitrary: d) auto

lemma keys_foldl_set: "set (map fst (foldl (\<lambda>d n. dict_set n (f n) d) d ns)) = set ns \<union> set (map fst d)"
  by (induction ns arbitrary: d) (auto simp del: set_map simp: keys_dict_set)

lemma read_member_Some: "n \<in> set (member_names pkg) \<Longrightarrow> \<exists>b. read_member pkg n = Some b"
proof -
  assume "n \<in> set (member_names pkg)"
  then have "n \<in> fst ` set (rev (pk_zip pkg))" by (auto simp: member_names_def)
  then show ?thesis unfolding read_member_def by (metis domD dom_map_of_conv_image_fst)
qed

lemma actual_get:
  "dict_get (actual_file_hashes pkg) n =
     (if n \<in> set (member_names pkg) then map_option sha256_hex (read_member pkg n) else None)"
  using read_member_Some [of n pkg] by (auto simp: actual_file_hashes_def dict_get_foldl_set)

lemma actual_keys: "set (dict_keys (actual_file_hashes pkg)) = set (member_names pkg)"
  using keys_foldl_set [of _ "[]"] by (simp add: actual_file_hashes_def dict_keys_def)

lemma filter_empty_sub: "filter (\<lambda>n. n \<notin> set ys) (sorted_strs xs) = [] \<longleftrightarrow> set xs \<subseteq> set ys"
  by (auto simp: filter_empty_conv)

lemma first_mismatch_None:
  "first_mismatch actual declared rels = Inr None \<longleftrightarrow>
     (\<forall>rel\<in>set rels. \<exists>h. dict_get actual rel = Some h \<and> declared_hash declared rel = Inr (JStr h))"
  by (induction rels) (auto split: sum.splits)

subsection \<open>Acceptance\<close>

definition not_revoked :: "ed25519 \<Rightarrow> keystore \<Rightarrow> revocation_list option \<Rightarrow> json \<Rightarrow> json \<Rightarrow> bool" where
  "not_revoked ed ks revs name version \<longleftrightarrow>
     (\<forall>rl. revs = Some rl \<longrightarrow> (\<exists>v. revocation_valid ed rl ks = Inr v \<and> (v \<longrightarrow> is_revoked rl name version = Inr False)))"

definition manifest_files :: "dict \<Rightarrow> json" where
  "manifest_files m = (case dict_get m ''files'' of None \<Rightarrow> JObj [] | Some j \<Rightarrow> j)"

lemma check_revocation_ok:
  "(\<exists>r. check_revocation ed name version ks revs = Inr r \<and> ld_ok r) \<longleftrightarrow> not_revoked ed ks revs name version"
  by (cases revs) (auto simp: check_revocation_def not_revoked_def reject_def Let_def split: sum.splits)

lemma verify_length: "verify ed pub sgnx m \<Longrightarrow> \<exists>b. fromhex pub = Some b \<and> length b = 32"
  by (auto simp: verify_def split: option.splits)

lemma check_signature_ok:
  "(\<exists>r. check_signature ed signature declared name version ks revs = Inr r \<and> ld_ok r) \<longleftrightarrow>
     (\<exists>sg rt pub sigx. signature = Some (JObj sg) \<and> merkle_root (string_files declared) = Inr rt \<and>
        get_or_null sg ''merkle_root'' = JStr rt \<and>
        text_field sg ''public_key'' = Inr pub \<and> text_field sg ''signature'' = Inr sigx \<and>
        verify ed pub sigx (encode rt) \<and> trusts ks pub = Inr True \<and> not_revoked ed ks revs name version)"
  unfolding check_revocation_ok [symmetric] check_signature_def
  by (auto simp: reject_def split: option.splits sum.splits if_splits json.splits dest: verify_length)

lemma odd_names_rejects: "odd_names declared members name version e = Inr r \<Longrightarrow> \<not> ld_ok r"
  by (auto simp: odd_names_def reject_def rbind_Inr_iff split: json.splits if_splits)

lemma verify_package_ok:
  "(\<exists>r. verify_package ed file ks revs = Inr r \<and> ld_ok r) \<longleftrightarrow>
     (\<exists>pkg m names. open_package file = Inr pkg \<and> pk_manifest pkg = JObj m \<and>
        declared_names (manifest_files m) = Inr names \<and> set names = set (member_names pkg) \<and>
        (\<forall>n\<in>set (member_names pkg). \<exists>b. read_member pkg n = Some b \<and>
            declared_hash (manifest_files m) n = Inr (JStr (sha256_hex b))) \<and>
        (\<exists>r. check_signature ed (pk_signature pkg) (manifest_files m)
               (get_or_null m ''name'') (get_or_null m ''version'') ks revs = Inr r \<and> ld_ok r))"
proof (cases "\<exists>pkg m names. open_package file = Inr pkg \<and> pk_manifest pkg = JObj m \<and> declared_names (manifest_files m) = Inr names")
  case False
  then show ?thesis
    unfolding verify_package_def manifest_files_def [symmetric]
    by (auto simp: malformed_def Let_def split: sum.splits json.splits dest: odd_names_rejects)
next
  case True
  then obtain pkg m names where o: "open_package file = Inr pkg" "pk_manifest pkg = JObj m"
    "declared_names (manifest_files m) = Inr names" by blast
  let ?d = "manifest_files m" and ?a = "actual_file_hashes pkg"
  have g: "set names = set (member_names pkg) \<Longrightarrow> first_mismatch ?a ?d (sorted_strs names) = Inr None \<longleftrightarrow>
      (\<forall>n\<in>set (member_names pkg). \<exists>b. read_member pkg n = Some b \<and> declared_hash ?d n = Inr (JStr (sha256_hex b)))"
    by (auto simp: first_mismatch_None actual_get)
  have s: "set names \<subseteq> set (dict_keys ?a) \<and> set (dict_keys ?a) \<subseteq> set names \<longleftrightarrow> set names = set (member_names pkg)"
    by (auto simp: actual_keys)
  have e: "verify_package ed file ks revs =
      (if \<not> set names \<subseteq> set (dict_keys ?a) \<or> \<not> set (dict_keys ?a) \<subseteq> set names
       then verify_package ed file ks revs
       else (case first_mismatch ?a ?d (sorted_strs names) of
                Inl e \<Rightarrow> Inl e
              | Inr (Some rel) \<Rightarrow> Inr (reject (get_or_null m ''name'') (get_or_null m ''version'')
                  ''tampered_file'' (''hash mismatch in '' @ py_repr rel))
              | Inr None \<Rightarrow> check_signature ed (pk_signature pkg) ?d
                  (get_or_null m ''name'') (get_or_null m ''version'') ks revs))"
    using o unfolding verify_package_def manifest_files_def [symmetric]
    by (simp add: Let_def filter_empty_sub)
  have bad: "\<not> set names \<subseteq> set (dict_keys ?a) \<or> \<not> set (dict_keys ?a) \<subseteq> set names \<Longrightarrow>
      \<nexists>r. verify_package ed file ks revs = Inr r \<and> ld_ok r"
    using o unfolding verify_package_def manifest_files_def [symmetric]
    by (auto simp: Let_def filter_empty_sub reject_def)
  have "(\<exists>r. verify_package ed file ks revs = Inr r \<and> ld_ok r) \<longleftrightarrow>
      set names = set (member_names pkg) \<and> first_mismatch ?a ?d (sorted_strs names) = Inr None \<and>
      (\<exists>r. check_signature ed (pk_signature pkg) ?d (get_or_null m ''name'') (get_or_null m ''version'') ks revs = Inr r \<and> ld_ok r)"
    using bad e s by (auto simp: reject_def split: sum.splits option.splits if_splits)
  with o g show ?thesis by auto
qed

lemma verify_package_label:
  "verify_package ed file ks revs = Inr r \<Longrightarrow> ld_ok r \<Longrightarrow>
   \<exists>pkg m. open_package file = Inr pkg \<and> pk_manifest pkg = JObj m \<and>
     ld_package r = get_or_null m ''name'' \<and> ld_version r = get_or_null m ''version''"
  by (auto simp: verify_package_def check_signature_def check_revocation_def reject_def malformed_def Let_def
      split: option.splits sum.splits if_splits json.splits dest: odd_names_rejects)

subsection \<open>What the signer writes\<close>

lemma sort_key_json_files: "sort_key fst (json_files fs) = json_files (sort_key fst fs)"
proof -
  have "insort_key fst (fst p, JStr (snd p)) (json_files fs) = json_files (insort_key fst p fs)" for p fs
    by (induction fs) (auto simp: json_files_def)
  then show ?thesis by (induction fs) (simp_all add: json_files_def)
qed

lemma sort_json_files: "sort_json (JObj (json_files fs)) = JObj (json_files (sort_key fst fs))"
proof -
  have "map (\<lambda>p. (fst p, sort_json (snd p))) (json_files fs) = json_files fs"
    by (simp add: json_files_def sort_json.simps)
  then show ?thesis by (simp add: sort_json.simps sort_key_json_files)
qed

lemma string_json_files [simp]: "string_files (JObj (json_files fs)) = fs"
  by (induction fs) (auto simp: json_files_def)

declare string_files.simps [simp del]

lemma keys_json_files [simp]: "dict_keys (json_files fs) = map fst fs"
  by (simp add: json_files_def dict_keys_def)

lemma sort_json_obj:
  assumes "distinct (map fst ps)"
  shows "\<exists>m. sort_json (JObj ps) = JObj m \<and> (\<forall>k. dict_get m k = map_option sort_json (dict_get ps k))"
  using dict_get_sort_json [OF assms] by (simp add: sort_json.simps)

lemma build_files_map_eq:
  "distinct (map fst src) \<Longrightarrow> build_files_map src =
     map (\<lambda>p. (fst p, sha256_hex (snd p))) (filter (\<lambda>p. fst p \<noteq> MANIFEST_NAME \<and> fst p \<noteq> SIGNATURE_NAME) src)"
proof (induction src rule: rev_induct)
  case (snoc p src)
  then show ?case
    by (cases p) (auto simp: build_files_map_def intro!: dict_set_new)
qed (simp add: build_files_map_def)

lemma build_files_map_props:
  assumes "distinct (map fst src)"
  shows "distinct (map fst (build_files_map src))"
    and "n \<in> set (map fst (build_files_map src)) \<Longrightarrow> n \<noteq> MANIFEST_NAME \<and> n \<noteq> SIGNATURE_NAME"
    and "(n, h) \<in> set (build_files_map src) \<Longrightarrow> \<exists>b. map_of src n = Some b \<and> h = sha256_hex b"
  using assms by (auto simp: build_files_map_eq comp_def distinct_map_filter)

lemma wf_build_manifest: "distinct (map fst src) \<Longrightarrow> wf_json (build_manifest src name version)"
  using build_files_map_props(1) [of src]
  by (auto simp: build_manifest_def json_files_def comp_def)

lemma write_package_distinct:
  assumes "distinct (map fst src)"
  shows "distinct (map fst (write_package src (build_files_map src) mf sg))"
    "map fst (write_package src (build_files_map src) mf sg) =
       MANIFEST_NAME # sorted_strs (map fst (build_files_map src)) @ [SIGNATURE_NAME]"
proof -
  show e: "map fst (write_package src (build_files_map src) mf sg) =
       MANIFEST_NAME # sorted_strs (map fst (build_files_map src)) @ [SIGNATURE_NAME]"
    by (simp add: write_package_def dict_keys_def comp_def)
  have "MANIFEST_NAME \<noteq> SIGNATURE_NAME" by (simp add: MANIFEST_NAME_def SIGNATURE_NAME_def)
  then show "distinct (map fst (write_package src (build_files_map src) mf sg))"
    using build_files_map_props(1,2) [OF assms] unfolding e by auto
qed

lemma map_of_rev_distinct: "distinct (map fst z) \<Longrightarrow> map_of (rev z) k = map_of z k"
proof (rule option_eqI)
  fix v assume d: "distinct (map fst z)"
  then have "distinct (map fst (rev z))" by (simp add: rev_map [symmetric])
  with d show "map_of (rev z) k = Some v \<longleftrightarrow> map_of z k = Some v" by (simp add: map_of_eq_Some_iff)
qed

lemma open_written:
  assumes "distinct (map fst src)" and "wf_json mf" and "wf_json sg" and "sg \<noteq> JNull"
  defines "z \<equiv> write_package src (build_files_map src) mf sg"
  shows "open_package (Inr z) = Inr \<lparr>pk_zip = z, pk_manifest = sort_json mf, pk_signature = Some (sort_json sg)\<rparr>"
proof -
  note d = write_package_distinct [OF assms(1), of mf sg, folded z_def]
  have "map_of z MANIFEST_NAME = Some (encode (canonical mf))" by (simp add: z_def write_package_def)
  moreover have "map_of z SIGNATURE_NAME = Some (encode (canonical sg))"
    by (rule map_of_is_SomeI [OF d(1)]) (simp add: z_def write_package_def)
  moreover have "SIGNATURE_NAME \<in> set (map fst z)" using d(2) by simp
  moreover have "sort_json sg \<noteq> JNull" using assms(4) by (cases sg) (simp_all add: sort_json.simps)
  ultimately show ?thesis
    using loads_canonical assms(2,3)
    by (simp add: open_package_def zip_read_def map_of_rev_distinct [OF d(1)] loads_bytes_def)
qed

lemma written_members:
  assumes "distinct (map fst src)" and zd: "z = write_package src (build_files_map src) mf sg" and pz: "pk_zip pkg = z"
  shows "set (member_names pkg) = set (map fst (build_files_map src))"
    and "(n, h) \<in> set (build_files_map src) \<Longrightarrow> \<exists>b. read_member pkg n = Some b \<and> h = sha256_hex b"
proof -
  note d = write_package_distinct [OF assms(1), of mf sg, folded zd]
  show "set (member_names pkg) = set (map fst (build_files_map src))"
    using build_files_map_props(2) [OF assms(1)] unfolding member_names_def pz d(2) by auto
  assume n: "(n, h) \<in> set (build_files_map src)"
  then obtain b where b: "map_of src n = Some b" "h = sha256_hex b" using build_files_map_props(3) [OF assms(1)] by blast
  have "(n, b) \<in> set z" using b n by (force simp: zd write_package_def dict_keys_def)
  then have "map_of z n = Some b" using d(1) by (rule map_of_is_SomeI [rotated])
  with b show "\<exists>b. read_member pkg n = Some b \<and> h = sha256_hex b"
    by (simp add: read_member_def pz map_of_rev_distinct [OF d(1)])
qed

lemma sign_package_shape:
  assumes "sign_package ed src name version sk = Inr (sg, z)"
  shows "\<exists>rt skb kid. merkle_root (build_files_map src) = Inr rt \<and> length skb = 32 \<and>
    sg = [(''algorithm'', JStr ''ed25519''), (''package'', JStr name), (''version'', JStr version),
         (''merkle_root'', JStr rt), (''public_key'', JStr (hex (ed_public ed skb))), (''key_id'', JStr kid),
         (''signature'', JStr (hex (ed_sign ed skb (encode rt))))] \<and>
    z = write_package src (build_files_map src) (build_manifest src name version) (JObj sg)"
  using assms
  by (auto simp: sign_package_def sign_def public_of_def private_bytes_def Let_def
      split: sum.splits option.splits if_splits)

lemma merkle_root_sorted: "merkle_root (sort_key fst fs) = merkle_root fs"
proof -
  have "sort_key fst (sort_key fst fs) = sort_key fst fs" by (rule sort_key_id_if_sorted) simp
  moreover have "sort_key fst fs = [] \<longleftrightarrow> fs = []" by (metis length_0_conv length_sort)
  ultimately show ?thesis by (simp add: merkle_root_def)
qed

lemma written_manifest:
  assumes src: "distinct (map fst src)"
  obtains m where "sort_json (build_manifest src nm vs) = JObj m"
    "dict_get m ''name'' = Some (JStr nm)" "dict_get m ''version'' = Some (JStr vs)"
    "dict_get m ''files'' = Some (JObj (json_files (sort_key fst (build_files_map src))))"
  using sort_json_obj [of "[(''name'', JStr nm), (''version'', JStr vs), (''files'', JObj (json_files (build_files_map src)))]"]
  by (auto simp: build_manifest_def sort_json_files) (auto simp: sort_json.simps)

lemma label_written:
  assumes src: "distinct (map fst src)" and sg: "wf_json sg" "sg \<noteq> JNull"
    and z: "z = write_package src (build_files_map src) (build_manifest src nm vs) sg"
    and o: "open_package (Inr z) = Inr pkg" "pk_manifest pkg = JObj m"
  shows "get_or_null m ''name'' = JStr nm \<and> get_or_null m ''version'' = JStr vs"
proof -
  obtain m' where m': "sort_json (build_manifest src nm vs) = JObj m'"
    "dict_get m' ''name'' = Some (JStr nm)" "dict_get m' ''version'' = Some (JStr vs)"
    using written_manifest [OF src] by metis
  have "JObj m = JObj m'" using open_written [OF src wf_build_manifest [OF src] sg, of nm vs] o m'(1) z by auto
  with m' show ?thesis by (simp add: get_or_null_def)
qed

lemma written_verifies:
  assumes ed: "ed_correct ed" and src: "distinct (map fst src)"
    and s: "sign_package ed src name version sk = Inr (sg, z0)"
    and pin: "text_field sg ''public_key'' = Inr pub" "trusts ks pub = Inr True"
    and rev: "not_revoked ed ks revs (JStr nm) (JStr vs)"
    and z: "z = write_package src (build_files_map src) (build_manifest src nm vs) (JObj sg)"
  shows "\<exists>r. verify_package ed (Inr z) ks revs = Inr r \<and> ld_ok r \<and>
    ld_package r = JStr nm \<and> ld_version r = JStr vs"
proof -
  from sign_package_shape [OF s] obtain rt skb kid where
    rt: "merkle_root (build_files_map src) = Inr rt" and sk: "length skb = 32"
    and sg: "sg = [(''algorithm'', JStr ''ed25519''), (''package'', JStr name), (''version'', JStr version),
         (''merkle_root'', JStr rt), (''public_key'', JStr (hex (ed_public ed skb))), (''key_id'', JStr kid),
         (''signature'', JStr (hex (ed_sign ed skb (encode rt))))]" by blast
  have pub: "pub = hex (ed_public ed skb)" using pin(1) sg by (simp add: text_field_def)
  let ?fs = "build_files_map src"
  have dsg: "distinct (map fst sg)" "wf_json (JObj sg)" using sg by simp_all
  from sort_json_obj [OF dsg(1)] obtain sg' where sg': "sort_json (JObj sg) = JObj sg'"
    "dict_get sg' k = map_option sort_json (dict_get sg k)" for k by blast
  obtain m where m: "sort_json (build_manifest src nm vs) = JObj m"
    "dict_get m ''name'' = Some (JStr nm)" "dict_get m ''version'' = Some (JStr vs)"
    "dict_get m ''files'' = Some (JObj (json_files (sort_key fst ?fs)))"
    using written_manifest [OF src] by metis
  define pkg where "pkg = \<lparr>pk_zip = z, pk_manifest = JObj m, pk_signature = Some (JObj sg')\<rparr>"
  have o: "open_package (Inr z) = Inr pkg"
    using open_written [OF src wf_build_manifest [OF src] dsg(2)] m(1) sg'(1) unfolding z pkg_def by simp
  have pz: "pk_zip pkg = write_package src ?fs (build_manifest src nm vs) (JObj sg)" by (simp add: pkg_def z)
  note mem = written_members [OF src refl pz]
  have mf: "manifest_files m = JObj (json_files (sort_key fst ?fs))" by (simp add: manifest_files_def m)
  have hash: "\<exists>b. read_member pkg n = Some b \<and> declared_hash (manifest_files m) n = Inr (JStr (sha256_hex b))"
    if "n \<in> set (member_names pkg)" for n
  proof -
    from that mem(1) obtain h where h: "(n, h) \<in> set ?fs" by auto
    have "distinct (map fst (sort_key fst ?fs))" using build_files_map_props(1) [OF src] by (simp add: distinct_map)
    then have "dict_get (json_files (sort_key fst ?fs)) n = Some (JStr h)"
      unfolding dict_get_def using h by (intro map_of_is_SomeI) (force simp: json_files_def comp_def)+
    with mem(2) [OF h] show ?thesis by (auto simp: mf get_or_null_def)
  qed
  have chk: "\<exists>r. check_signature ed (pk_signature pkg) (manifest_files m) (get_or_null m ''name'') (get_or_null m ''version'') ks revs = Inr r \<and> ld_ok r"
    unfolding check_signature_ok
    by (rule exI [of _ sg'], rule exI [of _ rt], rule exI [of _ pub], rule exI [of _ "hex (ed_sign ed skb (encode rt))"],
        insert ed sk pin(2) rev rt, unfold pub, simp add: pkg_def mf merkle_root_sorted get_or_null_def sg'(2) sg text_field_def sort_json.simps
          verify_def fromhex_hex ed_correct_def m pub)
  have "\<exists>r. verify_package ed (Inr z) ks revs = Inr r \<and> ld_ok r"
    unfolding verify_package_ok
    using o chk mem(1) hash by (intro exI [of _ pkg] exI [of _ m] exI [of _ "map fst (sort_key fst ?fs)"]) (simp add: pkg_def mf)
  then obtain r where r: "verify_package ed (Inr z) ks revs = Inr r" "ld_ok r" by blast
  with verify_package_label [OF this] o m show ?thesis by (auto simp: pkg_def get_or_null_def)
qed


subsection \<open>Properties\<close>

text \<open>C8: What acceptance means. The loader accepts a package file exactly when it opens, its members
  are exactly the files the manifest declares, each member's SHA-256 is the declared one, the SIGNATURE
  names the recomputed Merkle root, the Ed25519 signature over that root verifies under a public
  key pinned in the keystore, and no validly signed revocation list names the package.\<close>

theorem verify_package_iff:
  "(\<exists>r. verify_package ed file ks revs = Inr r \<and> ld_ok r) \<longleftrightarrow>
     (\<exists>pkg m names sg rt pub sigx. open_package file = Inr pkg \<and> pk_manifest pkg = JObj m \<and>
        declared_names (manifest_files m) = Inr names \<and> set names = set (member_names pkg) \<and>
        (\<forall>n\<in>set (member_names pkg). \<exists>b. read_member pkg n = Some b \<and>
            declared_hash (manifest_files m) n = Inr (JStr (sha256_hex b))) \<and>
        pk_signature pkg = Some (JObj sg) \<and> merkle_root (string_files (manifest_files m)) = Inr rt \<and>
        get_or_null sg ''merkle_root'' = JStr rt \<and>
        text_field sg ''public_key'' = Inr pub \<and> text_field sg ''signature'' = Inr sigx \<and>
        verify ed pub sigx (encode rt) \<and> trusts ks pub = Inr True \<and>
        not_revoked ed ks revs (get_or_null m ''name'') (get_or_null m ''version''))"
  unfolding verify_package_ok check_signature_ok by blast

text \<open>Signing and loading. The file the publisher's signer writes for a set of source files, read
  back through the zip members and the JSON text, is accepted by the loader under a keystore that pins
  the signing key, with the name and version it was signed for, unless it is revoked.\<close>

theorem signed_package_verifies:
  assumes "ed_correct ed" and "distinct (map fst src)"
    and "sign_package ed src name version sk = Inr (sg, z)"
    and "text_field sg ''public_key'' = Inr pub" and "trusts ks pub = Inr True"
    and "not_revoked ed ks revs (JStr name) (JStr version)"
  shows "\<exists>r. verify_package ed (Inr z) ks revs = Inr r \<and> ld_ok r \<and>
    ld_package r = JStr name \<and> ld_version r = JStr version"
  using written_verifies [OF assms] sign_package_shape [OF assms(3)] by blast

definition lax_ed :: ed25519 where
  "lax_ed = \<lparr>ed_public = (\<lambda>sk. sk), ed_sign = (\<lambda>sk m. sk @ m), ed_verify = (\<lambda>pk sg m. sg = pk @ m)\<rparr>"

lemma lax_ed_correct: "ed_correct lax_ed"
  by (simp add: ed_correct_def lax_ed_def)

definition demo_src :: "(string \<times> byte list) list" where
  "demo_src = [(''agents/a.yaml'', [1, 2, 3])]"

definition demo_key :: string where
  "demo_key = hex (replicate 32 7)"

definition demo_ks :: keystore where
  "demo_ks = [(take 16 (sha256_hex (replicate 32 7)), demo_key)]"

lemma demo_files: "build_files_map demo_src = [(''agents/a.yaml'', sha256_hex [1, 2, 3])]"
  by (simp add: build_files_map_def demo_src_def MANIFEST_NAME_def SIGNATURE_NAME_def)

lemma demo_signs:
  "\<exists>sg z. sign_package lax_ed demo_src name version demo_key = Inr (sg, z) \<and>
     text_field sg ''public_key'' = Inr demo_key"
proof -
  have "digest_hex (sha256_hex [1, 2, 3])" unfolding digest_hex_def sha256_hex_def by (metis length_sha256)
  then obtain rt where "merkle_root (build_files_map demo_src) = Inr rt"
    using merkle_root_tree [of "build_files_map demo_src"] by (auto simp: demo_files)
  then show ?thesis
    by (simp add: sign_package_def public_of_def private_bytes_def demo_key_def fromhex_hex key_id_def sign_def
        lax_ed_def text_field_def Let_def)
qed

lemma demo_trusts: "trusts demo_ks demo_key = Inr True"
  by (simp add: trusts_def key_id_def demo_ks_def demo_key_def fromhex_hex)

theorem signed_package_verifies_witness:
  "\<exists>sg z r. sign_package lax_ed demo_src ''p'' ''1.0.0'' demo_key = Inr (sg, z) \<and>
     verify_package lax_ed (Inr z) demo_ks None = Inr r \<and> ld_ok r"
proof -
  from demo_signs obtain sg z where s: "sign_package lax_ed demo_src ''p'' ''1.0.0'' demo_key = Inr (sg, z)"
    "text_field sg ''public_key'' = Inr demo_key" by blast
  have "distinct (map fst demo_src)" by (simp add: demo_src_def)
  from signed_package_verifies [OF lax_ed_correct this s demo_trusts, of None] s(1) show ?thesis
    by (auto simp: not_revoked_def)
qed


text \<open>The signature covers the files but not the label. A revoked package is rejected; its files and
  its SIGNATURE, repacked under a manifest with a name and version the list does not mention, are
  accepted, and the result reports the new label.\<close>

theorem revocation_evaded:
  assumes "ed_correct ed" and "distinct (map fst src)"
    and "sign_package ed src name version sk = Inr (sg, z)"
    and "text_field sg ''public_key'' = Inr pub" and "trusts ks pub = Inr True"
    and "revocation_valid ed rl ks = Inr True" and "(name, version) \<in> set (revoked rl)"
    and "(nm, vs) \<notin> set (revoked rl)"
  shows "(\<nexists>r. verify_package ed (Inr z) ks (Some rl) = Inr r \<and> ld_ok r) \<and>
    (\<exists>r. verify_package ed (Inr (write_package src (build_files_map src) (build_manifest src nm vs) (JObj sg))) ks (Some rl)
           = Inr r \<and> ld_ok r \<and> ld_package r = JStr nm \<and> ld_version r = JStr vs)"
proof (rule conjI)
  have z: "z = write_package src (build_files_map src) (build_manifest src name version) (JObj sg)"
    and wf: "wf_json (JObj sg)" using sign_package_shape [OF assms(3)] by auto
  show "\<nexists>r. verify_package ed (Inr z) ks (Some rl) = Inr r \<and> ld_ok r"
  proof
    assume "\<exists>r. verify_package ed (Inr z) ks (Some rl) = Inr r \<and> ld_ok r"
    then obtain pkg m where o: "open_package (Inr z) = Inr pkg" "pk_manifest pkg = JObj m"
      and nr: "not_revoked ed ks (Some rl) (get_or_null m ''name'') (get_or_null m ''version'')"
      unfolding verify_package_ok check_signature_ok by blast
    have "get_or_null m ''name'' = JStr name \<and> get_or_null m ''version'' = JStr version"
      by (rule label_written [OF assms(2) wf _ z o]) simp
    with nr have "not_revoked ed ks (Some rl) (JStr name) (JStr version)" by simp
    then have "is_revoked rl (JStr name) (JStr version) = Inr False" using assms(6) by (auto simp: not_revoked_def)
    with assms(7) show False by (auto simp: is_revoked_def)
  qed
  have "is_revoked rl (JStr nm) (JStr vs) = Inr False" using assms(8) by (auto simp: is_revoked_def)
  then have "not_revoked ed ks (Some rl) (JStr nm) (JStr vs)" using assms(6) by (auto simp: not_revoked_def)
  from written_verifies [OF assms(1-5) this refl]
  show "\<exists>r. verify_package ed (Inr (write_package src (build_files_map src) (build_manifest src nm vs) (JObj sg))) ks (Some rl)
           = Inr r \<and> ld_ok r \<and> ld_package r = JStr nm \<and> ld_version r = JStr vs" .
qed

definition demo_revocations :: revocation_list where
  "demo_revocations = \<lparr>revoked = [(''p'', ''1.0.0'')], rl_public_key = demo_key,
     rl_signature = hex (replicate 32 7 @ revocation_message \<lparr>revoked = [(''p'', ''1.0.0'')], rl_public_key = demo_key, rl_signature = []\<rparr>)\<rparr>"

lemma demo_revocations_valid: "revocation_valid lax_ed demo_revocations demo_ks = Inr True"
proof -
  have "hex (replicate 32 7 @ bs) \<noteq> []" for bs by (metis length_hex length_append length_replicate list.size(3)
        add_is_0 mult_is_0 zero_neq_numeral)
  then show ?thesis using demo_trusts
    by (simp add: revocation_valid_def demo_revocations_def verify_def demo_key_def fromhex_hex lax_ed_def
        revocation_message_def)
qed

theorem revocation_evaded_witness:
  "\<exists>sg z r. sign_package lax_ed demo_src ''p'' ''1.0.0'' demo_key = Inr (sg, z) \<and>
     (\<nexists>r. verify_package lax_ed (Inr z) demo_ks (Some demo_revocations) = Inr r \<and> ld_ok r) \<and>
     verify_package lax_ed (Inr (write_package demo_src (build_files_map demo_src)
       (build_manifest demo_src ''p'' ''1.0.1'') (JObj sg))) demo_ks (Some demo_revocations) = Inr r \<and> ld_ok r"
proof -
  from demo_signs obtain sg z where s: "sign_package lax_ed demo_src ''p'' ''1.0.0'' demo_key = Inr (sg, z)"
    "text_field sg ''public_key'' = Inr demo_key" by blast
  have "distinct (map fst demo_src)" by (simp add: demo_src_def)
  from revocation_evaded [OF lax_ed_correct this s demo_trusts demo_revocations_valid, where nm = "''p''" and vs = "''1.0.1''"] s(1)
  show ?thesis by (auto simp: demo_revocations_def)
qed

subsection \<open>The signed root fixes the contents\<close>

lemma open_package_wf: "open_package file = Inr pkg \<Longrightarrow> wf_json (pk_manifest pkg)"
  by (auto simp: open_package_def loads_bytes_def dest: loads_wf split: sum.splits option.splits if_splits)

lemma declared_obj: "declared_hash d n = Inr j \<Longrightarrow> \<exists>ps. d = JObj ps \<and> get_or_null ps n = j"
  by (cases d) auto

lemma accepted_files:
  assumes a: "\<exists>r. verify_package ed file ks revs = Inr r \<and> ld_ok r"
    and o: "open_package file = Inr pkg" "pk_manifest pkg = JObj m" and ne: "member_names pkg \<noteq> []"
  shows "\<exists>fs. string_files (manifest_files m) = fs \<and> fs \<noteq> [] \<and> distinct (map fst fs) \<and>
    fst ` set fs = set (member_names pkg) \<and>
    (\<forall>(n, h)\<in>set fs. \<exists>b. read_member pkg n = Some b \<and> h = sha256_hex b)"
proof -
  from a o obtain names where n: "declared_names (manifest_files m) = Inr names" "set names = set (member_names pkg)"
    and h: "\<forall>n\<in>set (member_names pkg). \<exists>b. read_member pkg n = Some b \<and> declared_hash (manifest_files m) n = Inr (JStr (sha256_hex b))"
    unfolding verify_package_ok by auto
  from ne obtain n0 where "n0 \<in> set (member_names pkg)" by (meson hd_in_set)
  with h declared_obj obtain ps where ps: "manifest_files m = JObj ps" by metis
  have d: "distinct (map fst ps)"
  proof (cases "dict_get m ''files''")
    case (Some j)
    then have "(''files'', JObj ps) \<in> set m" using ps by (simp add: manifest_files_def dict_get_def map_of_SomeD)
    then have "wf_json (JObj ps)" using open_package_wf [OF o(1)] o(2) by force
    then show ?thesis by simp
  qed (use ps in \<open>simp add: manifest_files_def\<close>)
  have keys: "fst ` set ps = set (member_names pkg)" 
  proof -
    have "names = map fst ps" using n(1) by (simp add: ps dict_keys_def)
    with n(2) show ?thesis by simp
  qed
  define fs where "fs = map (\<lambda>(p, j). (p, case j of JStr h \<Rightarrow> h | _ \<Rightarrow> [])) ps"
  have sf: "string_files (manifest_files m) = fs" by (simp add: ps string_files.simps fs_def)
  have m1: "map fst fs = map fst ps" by (simp add: fs_def split_beta comp_def)
  have vals: "\<exists>b. read_member pkg n = Some b \<and> x = sha256_hex b" if x: "(n, x) \<in> set fs" for n x
  proof -
    from x [unfolded fs_def] obtain j where j: "(n, j) \<in> set ps" "x = (case j of JStr h \<Rightarrow> h | _ \<Rightarrow> [])" by auto
    from j(1) d have "get_or_null ps n = j" by (simp add: get_or_null_def dict_get_def)
    moreover from j(1) keys h obtain b where "read_member pkg n = Some b" "get_or_null ps n = JStr (sha256_hex b)"
      unfolding ps by force
    ultimately show ?thesis using j(2) by auto
  qed
  have "set (map fst fs) = set (member_names pkg)" unfolding m1 using keys by simp
  moreover have "fs \<noteq> []" using keys ne by (auto simp: fs_def)
  moreover have "distinct (map fst fs)" unfolding m1 by (rule d)
  ultimately show ?thesis using vals sf by (intro exI [of _ fs]) auto
qed

lemma accepted_root:
  assumes "\<exists>r. verify_package ed file ks revs = Inr r \<and> ld_ok r"
    and "open_package file = Inr pkg" "pk_manifest pkg = JObj m" "pk_signature pkg = Some (JObj sg)"
  shows "\<exists>rt. merkle_root (string_files (manifest_files m)) = Inr rt \<and> get_or_null sg ''merkle_root'' = JStr rt"
  using assms unfolding verify_package_ok check_signature_ok by auto

lemma sorted_files_eq: "sort_key fst fs = sort_key fst fs' \<Longrightarrow> set fs = set fs'"
  by (metis set_sort)

text \<open>C24: The signed root fixes the contents. If two packages with members are accepted and their
  SIGNATUREs name the same Merkle root, they hold the same members with the same bytes, or two byte
  strings hashed in checking them, tree nodes or member contents, are a collision of SHA-256.\<close>

theorem accepted_root_fixes_contents:
  assumes "\<exists>r. verify_package ed file ks revs = Inr r \<and> ld_ok r"
    and "\<exists>r. verify_package ed file' ks' revs' = Inr r \<and> ld_ok r"
    and o: "open_package file = Inr pkg" "pk_manifest pkg = JObj m" "pk_signature pkg = Some (JObj sg)" "member_names pkg \<noteq> []"
    and o': "open_package file' = Inr pkg'" "pk_manifest pkg' = JObj m'" "pk_signature pkg' = Some (JObj sg')" "member_names pkg' \<noteq> []"
    and root: "get_or_null sg ''merkle_root'' = get_or_null sg' ''merkle_root''"
  shows "set (member_names pkg) = set (member_names pkg') \<and>
      (\<forall>n\<in>set (member_names pkg). read_member pkg n = read_member pkg' n) \<or>
    (\<exists>n b b'. read_member pkg n = Some b \<and> read_member pkg' n = Some b' \<and> collision b b') \<or>
    (\<exists>x\<in>subtrees (file_tree (string_files (manifest_files m))).
       \<exists>y\<in>subtrees (file_tree (string_files (manifest_files m'))). collision (preimage x) (preimage y))"
proof -
  let ?fs = "string_files (manifest_files m)" and ?fs' = "string_files (manifest_files m')"
  from accepted_files [OF assms(1) o(1,2,4)] accepted_files [OF assms(2) o'(1,2,4)]
  have f: "?fs \<noteq> []" "fst ` set ?fs = set (member_names pkg)"
      "\<forall>(n, h)\<in>set ?fs. \<exists>b. read_member pkg n = Some b \<and> h = sha256_hex b"
    and f': "?fs' \<noteq> []" "fst ` set ?fs' = set (member_names pkg')"
      "\<forall>(n, h)\<in>set ?fs'. \<exists>b. read_member pkg' n = Some b \<and> h = sha256_hex b" by auto
  have dig: "digest_hex (sha256_hex b)" for b unfolding digest_hex_def sha256_hex_def by (metis length_sha256)
  have "\<forall>(p, h)\<in>set ?fs \<union> set ?fs'. digest_hex h" using f(3) f'(3) dig by fastforce
  moreover have "merkle_root ?fs = merkle_root ?fs'"
    using accepted_root [OF assms(1) o(1-3)] accepted_root [OF assms(2) o'(1-3)] root by auto
  ultimately consider "sort_key fst ?fs = sort_key fst ?fs'"
    | "\<exists>x\<in>subtrees (file_tree ?fs). \<exists>y\<in>subtrees (file_tree ?fs'). collision (preimage x) (preimage y)"
    using merkle_roots_bind [OF f(1) f'(1)] by blast
  then show ?thesis
  proof cases
    case 1
    then have fs: "set ?fs = set ?fs'" by (rule sorted_files_eq)
    then have names: "set (member_names pkg) = set (member_names pkg')" using f(2) f'(2) by simp
    have "read_member pkg n = read_member pkg' n \<or>
        (\<exists>b b'. read_member pkg n = Some b \<and> read_member pkg' n = Some b' \<and> collision b b')"
      if "n \<in> set (member_names pkg)" for n
    proof -
      from that f(2) obtain h where h: "(n, h) \<in> set ?fs" by force
      then obtain b where "read_member pkg n = Some b" "h = sha256_hex b" using f(3) by blast
      moreover obtain b' where "read_member pkg' n = Some b'" "h = sha256_hex b'" using f'(3) h unfolding fs by blast
      ultimately show ?thesis using sha256_eq_or_collision [of b b'] by auto
    qed
    with names show ?thesis by blast
  qed blast
qed

theorem accepted_root_fixes_contents_witness:
  "\<exists>z pkg m sg. (\<exists>r. verify_package lax_ed (Inr z) demo_ks None = Inr r \<and> ld_ok r) \<and>
     open_package (Inr z) = Inr pkg \<and> pk_manifest pkg = JObj m \<and> pk_signature pkg = Some (JObj sg) \<and>
     member_names pkg \<noteq> [] \<and>
     (set (member_names pkg) = set (member_names pkg) \<and>
      (\<forall>n\<in>set (member_names pkg). read_member pkg n = read_member pkg n) \<or>
    (\<exists>n b b'. read_member pkg n = Some b \<and> read_member pkg n = Some b' \<and> collision b b') \<or>
    (\<exists>x\<in>subtrees (file_tree (string_files (manifest_files m))).
       \<exists>y\<in>subtrees (file_tree (string_files (manifest_files m))). collision (preimage x) (preimage y)))"
proof -
  from demo_signs obtain sg z where s: "sign_package lax_ed demo_src ''p'' ''1.0.0'' demo_key = Inr (sg, z)"
    "text_field sg ''public_key'' = Inr demo_key" by blast
  have d: "distinct (map fst demo_src)" by (simp add: demo_src_def)
  have nr: "not_revoked lax_ed demo_ks None (JStr ''p'') (JStr ''1.0.0'')" by (simp add: not_revoked_def)
  from sign_package_shape [OF s(1)] have
    z: "z = write_package demo_src (build_files_map demo_src) (build_manifest demo_src ''p'' ''1.0.0'') (JObj sg)" by blast
  have a: "\<exists>r. verify_package lax_ed (Inr z) demo_ks None = Inr r \<and> ld_ok r"
    using written_verifies [OF lax_ed_correct d s demo_trusts nr z] by blast
  then obtain pkg m sg' where o: "open_package (Inr z) = Inr pkg" "pk_manifest pkg = JObj m"
    "pk_signature pkg = Some (JObj sg')" unfolding verify_package_ok check_signature_ok by blast
  have pz: "pk_zip pkg = z" using o(1) by (auto simp: open_package_def split: sum.splits if_splits)
  have "set (member_names pkg) = {''agents/a.yaml''}"
    unfolding written_members(1) [OF d z pz] demo_files by simp
  then have ne: "member_names pkg \<noteq> []" by (metis insert_not_empty list.set(1))
  note c = accepted_root_fixes_contents [OF a a o ne o ne refl]
  show ?thesis
    by (rule exI [of _ z], rule exI [of _ pkg], rule exI [of _ m], rule exI [of _ sg'])
       (rule conjI [OF a conjI [OF o(1) conjI [OF o(2) conjI [OF o(3) conjI [OF ne c]]]]])
qed

theorem verify_package_iff_witness:
  "\<exists>z pkg sg pub. (\<exists>r. verify_package lax_ed (Inr z) demo_ks None = Inr r \<and> ld_ok r) \<and> open_package (Inr z) = Inr pkg \<and>
     pk_signature pkg = Some (JObj sg) \<and> text_field sg ''public_key'' = Inr pub \<and> trusts demo_ks pub = Inr True"
proof -
  from demo_signs obtain sg z where s: "sign_package lax_ed demo_src ''p'' ''1.0.0'' demo_key = Inr (sg, z)"
    "text_field sg ''public_key'' = Inr demo_key" by blast
  have d: "distinct (map fst demo_src)" by (simp add: demo_src_def)
  from sign_package_shape [OF s(1)] have
    z: "z = write_package demo_src (build_files_map demo_src) (build_manifest demo_src ''p'' ''1.0.0'') (JObj sg)" by blast
  have a: "\<exists>r. verify_package lax_ed (Inr z) demo_ks None = Inr r \<and> ld_ok r"
    using written_verifies [OF lax_ed_correct d s demo_trusts _ z, of None] by (auto simp: not_revoked_def)
  then show ?thesis using verify_package_iff [of lax_ed "Inr z" demo_ks None] by blast
qed

end
