(* ===== verification/Topology.thy ===== *)
theory Topology
  imports Orchestration Packages
begin

text \<open>
  Loading a team (first half of \<open>scr/team.py\<close>): the agent documents of a package, the substitution of the
  workspace and output paths, validation of the delegation forest and one delegation tree per team. The YAML
  reader and \<open>float\<close> are arguments. An item that is not a string where the code expects a name, a path or a prompt
  raises here at once; Python raises later or never matches it.
\<close>

definition team_load_error :: "string \<Rightarrow> py_exn" where
  "team_load_error msg = mk_exn ''TeamLoadError'' msg"

record agent_spec =
  as_name :: string
  as_role :: json
  as_prompt :: string
  as_manifest :: manifest
  as_delegates :: "string list"
  as_policy :: dict

type_synonym specs = "(string \<times> agent_spec) list"
type_synonym edges = "(string \<times> string list) list"

record loaded_team =
  lt_specs :: specs
  lt_teams :: "(string \<times> team) list"
  lt_team_of :: "(string \<times> string) list"
  lt_aliases :: "(string \<times> string) list"

definition sole_team :: "loaded_team \<Rightarrow> py_exn + team" where
  "sole_team l =
     (case lt_teams l of
        [(_, t)] \<Rightarrow> Inr t
      | ts \<Rightarrow> Inl (team_load_error (''package declares '' @ nat_str (length ts) @ '' teams; use team_for(entry)'')))"

definition team_for :: "loaded_team \<Rightarrow> string \<Rightarrow> py_exn + team" where
  "team_for l name =
     (case dict_get (lt_team_of l) name of
        None \<Rightarrow> Inl (team_load_error (py_repr name @ '' belongs to no loaded team''))
      | Some rt \<Rightarrow> (case dict_get (lt_teams l) rt of
                      None \<Rightarrow> Inl (mk_exn ''KeyError'' (py_repr rt)) | Some t \<Rightarrow> Inr t))"

definition entry_for :: "loaded_team \<Rightarrow> string \<Rightarrow> py_exn + string" where
  "entry_for l name =
     (case dict_get (lt_aliases l) name of
        Some rt \<Rightarrow> Inr rt
      | None \<Rightarrow>
          if name \<in> set (dict_keys (lt_specs l)) then Inr name
          else Inl (team_load_error (''unknown team/agent '' @ py_repr name @ ''. Available: agents='' @
                 repr_str_list (sorted_strs (dict_keys (lt_specs l))) @ '' teams='' @
                 repr_str_list (sorted_strs (dict_keys (lt_aliases l))))))"

subsection \<open>Reading agent documents\<close>

text \<open>\<open>in\<close> for strings.\<close>

fun occurs :: "string \<Rightarrow> string \<Rightarrow> bool" where
  "occurs pat [] \<longleftrightarrow> pat = []"
| "occurs pat (c # cs) \<longleftrightarrow> startswith (c # cs) pat \<or> occurs pat cs"

definition sub_vars :: "string \<Rightarrow> string option \<Rightarrow> string \<Rightarrow> py_exn + string" where
  "sub_vars workspace output s =
     (let t = replace_all ''${WORKSPACE}'' workspace s in
      if occurs ''${OUTPUT}'' t then
        (case output of
           Some (c # cs) \<Rightarrow> Inr (replace_all ''${OUTPUT}'' (c # cs) t)
         | _ \<Rightarrow> Inl (team_load_error ''package references ${OUTPUT} but no output dir was supplied''))
      else Inr t)"

definition items_in :: "dict \<Rightarrow> string \<Rightarrow> py_exn + json list" where
  "items_in d key =
     (case dict_get d key of
        None \<Rightarrow> Inr []
      | Some j \<Rightarrow>
          if \<not> truthy j then Inr []
          else (case j of JArr xs \<Rightarrow> Inr xs | JObj ps \<Rightarrow> Inr (map (\<lambda>p. JStr (fst p)) ps)
                | JStr s \<Rightarrow> Inr (map (\<lambda>c. JStr [c]) s) | _ \<Rightarrow> Inl type_error))"

fun as_str :: "json \<Rightarrow> py_exn + string" where
  "as_str (JStr s) = Inr s"
| "as_str _ = Inl type_error"

definition names_in :: "dict \<Rightarrow> string \<Rightarrow> py_exn + string list" where
  "names_in d key = rbind (items_in d key) (traverse as_str)"

definition dict_in :: "dict \<Rightarrow> string \<Rightarrow> py_exn + dict" where
  "dict_in d key =
     (case dict_get d key of
        None \<Rightarrow> Inr []
      | Some j \<Rightarrow> if \<not> truthy j then Inr [] else (case j of JObj ps \<Rightarrow> Inr ps | _ \<Rightarrow> Inl type_error))"

fun exec_rule_of :: "json \<Rightarrow> py_exn + exec_rule" where
  "exec_rule_of (JObj r) =
     (case dict_get r ''binary'' of
        None \<Rightarrow> Inl (mk_exn ''KeyError'' (py_repr ''binary''))
      | Some b \<Rightarrow> rbind (as_str b) (\<lambda>bin.
          rbind (case dict_get r ''arg_pattern'' of None \<Rightarrow> Inr ''.*'' | Some p \<Rightarrow> as_str p) (\<lambda>pat.
          Inr \<lparr>binary = bin, arg_pattern = pat\<rparr>)))"
| "exec_rule_of _ = Inl type_error"

definition manifest_from_caps ::
  "(json \<Rightarrow> py_exn + rat) \<Rightarrow> dict \<Rightarrow> string \<Rightarrow> string option \<Rightarrow> py_exn + manifest" where
  "manifest_from_caps float_of caps workspace output =
     (let roots = (\<lambda>key. rbind (items_in caps key) (traverse (\<lambda>r. sub_vars workspace output (py_str r)))) in
      rbind (rbind (items_in caps ''exec_rules'') (traverse exec_rule_of)) (\<lambda>rules.
      rbind (names_in caps ''tools'') (\<lambda>tls.
      rbind (roots ''fs_read_roots'') (\<lambda>rd.
      rbind (roots ''fs_write_roots'') (\<lambda>wr.
      rbind (names_in caps ''net_hosts'') (\<lambda>hosts.
      rbind (case dict_get caps ''max_budget_usd'' of None \<Rightarrow> Inr 0 | Some j \<Rightarrow> if truthy j then float_of j else Inr 0) (\<lambda>budget.
      rbind (case dict_get caps ''classification_ceiling'' of None \<Rightarrow> Inr ''secret'' | Some j \<Rightarrow> as_str j) (\<lambda>ceil.
      Inr \<lparr>tools = set tls, fs_read_roots = rd, fs_write_roots = wr, net_hosts = set hosts, exec_rules = rules,
           max_budget_usd = budget, classification_ceiling = ceil\<rparr>))))))))"

fun parse_agent :: "(json \<Rightarrow> py_exn + rat) \<Rightarrow> string \<Rightarrow> string option \<Rightarrow> json \<Rightarrow> py_exn + agent_spec" where
  "parse_agent float_of workspace output (JObj d) =
     (case dict_get d ''name'' of
        None \<Rightarrow> Inl (mk_exn ''KeyError'' (py_repr ''name''))
      | Some nm \<Rightarrow>
          rbind (as_str nm) (\<lambda>name.
          rbind (case dict_get d ''system_prompt'' of
                   None \<Rightarrow> Inr (''You are the '' @ name @ '' agent.'')
                 | Some j \<Rightarrow> if truthy j then as_str j else Inr (''You are the '' @ name @ '' agent.'')) (\<lambda>prompt.
          rbind (sub_vars workspace output (strip prompt)) (\<lambda>prompt'.
          rbind (rbind (dict_in d ''capabilities'') (\<lambda>caps. manifest_from_caps float_of caps workspace output)) (\<lambda>m.
          rbind (names_in d ''delegates'') (\<lambda>kids.
          rbind (dict_in d ''delegation_policy'') (\<lambda>pol.
          Inr \<lparr>as_name = name, as_role = (case dict_get d ''role'' of None \<Rightarrow> JStr [] | Some r \<Rightarrow> r),
               as_prompt = prompt', as_manifest = m, as_delegates = kids, as_policy = pol\<rparr>)))))))"
| "parse_agent float_of workspace output _ = Inl type_error"

fun parse_agents ::
  "(json \<Rightarrow> py_exn + rat) \<Rightarrow> string \<Rightarrow> string option \<Rightarrow> json list \<Rightarrow> specs \<Rightarrow> py_exn + specs" where
  "parse_agents float_of workspace output [] specs = Inr specs"
| "parse_agents float_of workspace output (d # ds) specs =
     rbind (parse_agent float_of workspace output d) (\<lambda>s.
       parse_agents float_of workspace output ds (dict_set (as_name s) s specs))"

subsection \<open>Validation\<close>

definition kids :: "edges \<Rightarrow> string \<Rightarrow> string list" where
  "kids edges n = (case dict_get edges n of None \<Rightarrow> [] | Some ks \<Rightarrow> ks)"

definition edges_of :: "specs \<Rightarrow> edges" where
  "edges_of specs = map (\<lambda>(n, s). (n, as_delegates s)) specs"

definition edge_pairs :: "edges \<Rightarrow> (string \<times> string) list" where
  "edge_pairs edges = concat (map (\<lambda>(p, ks). map (Pair p) ks) edges)"

fun claim_parents :: "(string \<times> string) list \<Rightarrow> (string \<times> string) list \<Rightarrow> py_exn + (string \<times> string) list" where
  "claim_parents [] parents = Inr parents"
| "claim_parents ((p, k) # ps) parents =
     (case dict_get parents k of
        Some q \<Rightarrow> Inl (team_load_error (py_repr k @ '' has multiple parents ('' @ py_repr q @ '', '' @ py_repr p @ '')''))
      | None \<Rightarrow> claim_parents ps (dict_set k p parents))"

fun check_roots :: "specs \<Rightarrow> (string \<times> string) list \<Rightarrow> string list \<Rightarrow> py_exn + unit" where
  "check_roots specs parents [] = Inr ()"
| "check_roots specs parents (r # rs) =
     (if r \<notin> set (dict_keys specs) then Inl (team_load_error (''declared team root '' @ py_repr r @ '' is not an agent''))
      else (case dict_get parents r of
              Some p \<Rightarrow> Inl (team_load_error (''declared team root '' @ py_repr r @ '' is delegated to by '' @ py_repr p @
                          '' - a team root cannot be another team's child''))
            | None \<Rightarrow> check_roots specs parents rs))"

text \<open>The loop over the stack; its top is the head of the list.\<close>

function walk ::
  "edges \<Rightarrow> string \<Rightarrow> string set \<Rightarrow> string list \<Rightarrow> (string \<times> string) list \<Rightarrow> py_exn + (string \<times> string) list" where
  "walk edges rt seen [] owner = Inr owner"
| "walk edges rt seen (n # stack) owner =
     (if n \<in> seen then Inl (team_load_error (''cycle in delegation topology at '' @ py_repr n))
      else (case dict_get owner n of
              Some r \<Rightarrow> Inl (team_load_error (py_repr n @ '' is reachable from two teams ('' @ py_repr r @ '', '' @ py_repr rt @ '')''))
            | None \<Rightarrow> walk edges rt (insert n seen) (rev (kids edges n) @ stack) (dict_set n rt owner)))"
  by pat_completeness auto
termination
proof (relation "inv_image (less_than <*lex*> less_than)
    (\<lambda>(edges, rt, seen, stack, owner). (card (set (dict_keys edges) - seen), length stack))", goal_cases)
  case (2 edges rt seen n stack owner)
  show ?case
  proof (cases "n \<in> set (dict_keys edges)")
    case True
    then have "card (set (dict_keys edges) - insert n seen) < card (set (dict_keys edges) - seen)"
      using 2(1) by (intro psubset_card_mono) auto
    then show ?thesis by simp
  next
    case False
    then have "kids edges n = []" "set (dict_keys edges) - insert n seen = set (dict_keys edges) - seen"
      by (auto simp: kids_def dict_get_def dict_keys_def map_of_eq_None_iff split: option.splits)
         (metis image_eqI fst_conv map_of_SomeD)+
    then show ?thesis by simp
  qed
qed (intro wf_inv_image wf_lex_prod wf_less_than)

declare walk.simps(2) [simp del]

fun walk_roots :: "edges \<Rightarrow> string list \<Rightarrow> (string \<times> string) list \<Rightarrow> py_exn + (string \<times> string) list" where
  "walk_roots edges [] owner = Inr owner"
| "walk_roots edges (r # rs) owner = rbind (walk edges r {} [r] owner) (walk_roots edges rs)"

definition reject_widening :: "(string \<Rightarrow> string) \<Rightarrow> string \<Rightarrow> string \<Rightarrow> manifest \<Rightarrow> manifest \<Rightarrow> py_exn + unit" where
  "reject_widening realpath parent child pm cm =
     (if tools cm - tools pm \<noteq> {} then
        Inl (team_load_error (py_repr child @ '' widens tools beyond parent '' @ py_repr parent @ '': '' @
          repr_str_list (sorted_list_of_set (tools cm - tools pm))))
      else if net_hosts cm - net_hosts pm \<noteq> {} then
        Inl (team_load_error (py_repr child @ '' widens net_hosts beyond '' @ py_repr parent @ '': '' @
          repr_str_list (sorted_list_of_set (net_hosts cm - net_hosts pm))))
      else if set (roots_contained realpath (fs_read_roots cm) (fs_read_roots pm)) \<noteq> set (fs_read_roots cm) then
        Inl (team_load_error (py_repr child @ '' widens fs_read_roots beyond parent '' @ py_repr parent))
      else if set (roots_contained realpath (fs_write_roots cm) (fs_write_roots pm)) \<noteq> set (fs_write_roots cm) then
        Inl (team_load_error (py_repr child @ '' widens fs_write_roots beyond parent '' @ py_repr parent))
      else Inr ())"

definition spec_of :: "specs \<Rightarrow> string \<Rightarrow> py_exn + agent_spec" where
  "spec_of specs n = (case dict_get specs n of None \<Rightarrow> Inl (mk_exn ''KeyError'' (py_repr n)) | Some s \<Rightarrow> Inr s)"

definition check_edge :: "(string \<Rightarrow> string) \<Rightarrow> specs \<Rightarrow> string \<times> string \<Rightarrow> py_exn + unit" where
  "check_edge realpath specs e =
     rbind (spec_of specs (fst e)) (\<lambda>p. rbind (spec_of specs (snd e)) (\<lambda>c.
       reject_widening realpath (fst e) (snd e) (as_manifest p) (as_manifest c)))"

definition check_policy :: "string \<times> agent_spec \<Rightarrow> py_exn + unit" where
  "check_policy x =
     (case x of (name, spec) \<Rightarrow>
      rbind (items_in (as_policy spec) ''required_children'') (\<lambda>refs.
        case find (\<lambda>r. r \<notin> JStr ` set (as_delegates spec)) refs of
          None \<Rightarrow> Inr ()
        | Some r \<Rightarrow> Inl (team_load_error (py_repr name @ '' delegation policy requires undeclared child '' @ py_repr_json r @
                       '' (declared delegates: '' @ repr_str_list (as_delegates spec) @ '')''))))"

definition natural_roots :: "specs \<Rightarrow> (string \<times> string) list \<Rightarrow> string list" where
  "natural_roots specs parents = filter (\<lambda>n. dict_get parents n = None) (dict_keys specs)"

definition choose_roots :: "specs \<Rightarrow> (string \<times> string) list \<Rightarrow> string list \<Rightarrow> py_exn + string list" where
  "choose_roots specs parents declared =
     (if declared \<noteq> [] then Inr declared
      else if length (natural_roots specs parents) \<noteq> 1
      then Inl (team_load_error (''no team.yaml teams declared and agents form '' @ nat_str (length (natural_roots specs parents)) @
             '' trees '' @ repr_str_list (natural_roots specs parents) @ ''; declare a `teams:` map to name each''))
      else Inr (natural_roots specs parents))"

definition validate_forest :: "(string \<Rightarrow> string) \<Rightarrow> specs \<Rightarrow> string list \<Rightarrow> py_exn + edges" where
  "validate_forest realpath specs declared_roots =
     (let edges = edges_of specs in
      case find (\<lambda>(p, k). k \<notin> set (dict_keys specs)) (edge_pairs edges) of
        Some (p, k) \<Rightarrow> Inl (team_load_error (py_repr p @ '' delegates to unknown agent '' @ py_repr k))
      | None \<Rightarrow>
          rbind (claim_parents (edge_pairs edges) []) (\<lambda>parents.
          rbind (choose_roots specs parents declared_roots) (\<lambda>roots.
          rbind (check_roots specs parents roots) (\<lambda>_.
          rbind (walk_roots edges roots []) (\<lambda>owner.
            (let uncovered = filter (\<lambda>n. dict_get owner n = None) (dict_keys specs) in
             if uncovered \<noteq> []
             then Inl (team_load_error (''agents not reachable from any declared team: '' @ repr_str_list (sorted_strs uncovered)))
             else
               rbind (traverse (check_edge realpath specs) (edge_pairs edges)) (\<lambda>_.
               rbind (traverse check_policy specs) (\<lambda>_. Inr edges))))))))"

subsection \<open>Building the teams\<close>

fun add_children :: "specs \<Rightarrow> string \<Rightarrow> string list \<Rightarrow> team \<Rightarrow> py_exn + team" where
  "add_children specs parent [] t = Inr t"
| "add_children specs parent (k # ks) t =
     rbind (spec_of specs k) (\<lambda>s.
     rbind (team_add t parent \<lparr>an_name = k, an_manifest = as_manifest s\<rparr>) (add_children specs parent ks))"

text \<open>The queue loop has no bound of its own: \<open>None\<close> is a loop that does not end.\<close>

partial_function (option) grow_team ::
  "specs \<Rightarrow> edges \<Rightarrow> string \<Rightarrow> string list \<Rightarrow> team \<Rightarrow> (string \<times> string) list \<Rightarrow>
     (py_exn + team \<times> (string \<times> string) list) option" where
  "grow_team specs edges rt queue t team_of =
     (case queue of
        [] \<Rightarrow> Some (Inr (t, team_of))
      | parent # rest \<Rightarrow>
          (case add_children specs parent (kids edges parent) t of
             Inl e \<Rightarrow> Some (Inl e)
           | Inr t' \<Rightarrow> grow_team specs edges rt (rest @ kids edges parent) t' (dict_set parent rt team_of)))"

declare grow_team.simps [code]

definition new_team :: "string \<Rightarrow> manifest \<Rightarrow> team" where
  "new_team n m = \<lparr>tm_root = \<lparr>an_name = n, an_manifest = m\<rparr>, tm_edges = [], tm_nodes = [], tm_max_depth = 4, tm_revoked = {}\<rparr>"

fun build_teams ::
  "specs \<Rightarrow> edges \<Rightarrow> string list \<Rightarrow> (string \<times> team) list \<Rightarrow> (string \<times> string) list \<Rightarrow>
     (py_exn + (string \<times> team) list \<times> (string \<times> string) list) option" where
  "build_teams specs edges [] teams team_of = Some (Inr (teams, team_of))"
| "build_teams specs edges (r # rs) teams team_of =
     (case spec_of specs r of
        Inl e \<Rightarrow> Some (Inl e)
      | Inr s \<Rightarrow>
          (case grow_team specs edges r [r] (new_team r (as_manifest s)) team_of of
             None \<Rightarrow> None
           | Some (Inl e) \<Rightarrow> Some (Inl e)
           | Some (Inr (t, team_of')) \<Rightarrow> build_teams specs edges rs (dict_set r t teams) team_of'))"

definition declared_roots :: "(string \<times> string) list \<Rightarrow> string list" where
  "declared_roots aliases = sorted_strs (remdups (map snd aliases))"

definition build_loaded ::
  "(string \<Rightarrow> string) \<Rightarrow> (json \<Rightarrow> py_exn + rat) \<Rightarrow> json list \<Rightarrow> (string \<times> string) list \<Rightarrow> string \<Rightarrow> string option \<Rightarrow>
     (py_exn + loaded_team) option" where
  "build_loaded realpath float_of docs aliases workspace output =
     (if docs = [] then Some (Inl (team_load_error ''package declares no agents/''))
      else
        (case parse_agents float_of workspace output docs [] of
           Inl e \<Rightarrow> Some (Inl e)
         | Inr specs \<Rightarrow>
             (case validate_forest realpath specs (declared_roots aliases) of
                Inl e \<Rightarrow> Some (Inl e)
              | Inr edges \<Rightarrow>
                  (let roots = (if declared_roots aliases \<noteq> [] then declared_roots aliases
                                else filter (\<lambda>n. n \<notin> set (concat (map snd edges))) (dict_keys specs)) in
                   case build_teams specs edges roots [] [] of
                     None \<Rightarrow> None
                   | Some (Inl e) \<Rightarrow> Some (Inl e)
                   | Some (Inr (teams, team_of)) \<Rightarrow>
                       Some (Inr \<lparr>lt_specs = specs, lt_teams = teams, lt_team_of = team_of, lt_aliases = aliases\<rparr>)))))"

subsection \<open>Loading from a package\<close>

definition is_yaml :: "string \<Rightarrow> bool" where
  "is_yaml name \<longleftrightarrow> endswith name ''.yaml'' \<or> endswith name ''.yml''"

definition aliases_of :: "json \<Rightarrow> py_exn + (string \<times> string) list" where
  "aliases_of j =
     (if \<not> truthy j then Inr []
      else (case j of
              JObj d \<Rightarrow> rbind (dict_in d ''teams'') (traverse (\<lambda>(a, r). rbind (as_str r) (\<lambda>s. Inr (a, s))))
            | _ \<Rightarrow> Inl type_error))"

definition read_text :: "package \<Rightarrow> string \<Rightarrow> py_exn + string" where
  "read_text pkg member =
     (case read_member pkg member of
        None \<Rightarrow> Inl (mk_exn ''KeyError'' member)
      | Some b \<Rightarrow> (case decode b of
                     None \<Rightarrow> Inl (mk_exn ''UnicodeDecodeError'' ''invalid utf-8'') | Some s \<Rightarrow> Inr s))"

fun scan_members ::
  "(string \<Rightarrow> py_exn + json) \<Rightarrow> package \<Rightarrow> string list \<Rightarrow> json list \<Rightarrow> (string \<times> string) list \<Rightarrow>
     py_exn + json list \<times> (string \<times> string) list" where
  "scan_members yaml pkg [] docs aliases = Inr (docs, aliases)"
| "scan_members yaml pkg (m # ms) docs aliases =
     (if startswith m ''agents/'' \<and> is_yaml m then
        rbind (rbind (read_text pkg m) yaml) (\<lambda>d. scan_members yaml pkg ms (docs @ [d]) aliases)
      else if m = ''team.yaml'' then
        rbind (rbind (rbind (read_text pkg m) yaml) aliases_of) (\<lambda>a. scan_members yaml pkg ms docs a)
      else scan_members yaml pkg ms docs aliases)"

definition load_team_from_package ::
  "(string \<Rightarrow> string) \<Rightarrow> (json \<Rightarrow> py_exn + rat) \<Rightarrow> (string \<Rightarrow> py_exn + json) \<Rightarrow> py_exn + zip_file \<Rightarrow> string \<Rightarrow> string option \<Rightarrow>
     (py_exn + loaded_team) option" where
  "load_team_from_package realpath float_of yaml file workspace output =
     (case rbind (open_package file) (\<lambda>pkg. scan_members yaml pkg (member_names pkg) [] []) of
        Inl e \<Rightarrow> Some (Inl e)
      | Inr (docs, aliases) \<Rightarrow> build_loaded realpath float_of docs aliases workspace output)"

text \<open>A directory is the list of its agent files by name, and the text of \<open>team.yaml\<close> if it exists.\<close>

definition load_team_from_dir ::
  "(string \<Rightarrow> string) \<Rightarrow> (json \<Rightarrow> py_exn + rat) \<Rightarrow> (string \<Rightarrow> py_exn + json) \<Rightarrow> (string \<times> string) list \<Rightarrow> string option \<Rightarrow>
     string \<Rightarrow> string option \<Rightarrow> (py_exn + loaded_team) option" where
  "load_team_from_dir realpath float_of yaml agent_files team_file workspace output =
     (case rbind (traverse (\<lambda>f. yaml (snd f)) (filter (\<lambda>f. is_yaml (fst f)) (sort_key fst agent_files))) (\<lambda>docs.
             rbind (case team_file of None \<Rightarrow> Inr [] | Some t \<Rightarrow> rbind (yaml t) aliases_of) (\<lambda>aliases. Inr (docs, aliases))) of
        Inl e \<Rightarrow> Some (Inl e)
      | Inr (docs, aliases) \<Rightarrow> build_loaded realpath float_of docs aliases workspace output)"

subsection \<open>What validation establishes\<close>

lemma traverse_Inr: "traverse f xs = Inr ys \<Longrightarrow> x \<in> set xs \<Longrightarrow> \<exists>y. f x = Inr y"
  by (induction xs arbitrary: ys) (auto simp: rbind_Inr_iff)

lemma keys_img_dict_set: "fst ` set (dict_set k v d) = insert k (fst ` set d)"
  using keys_dict_set [of k v d] by simp

lemma parse_agents_distinct:
  "parse_agents fl ws out ds specs = Inr specs' \<Longrightarrow> distinct (map fst specs) \<Longrightarrow> distinct (map fst specs')"
  by (induction ds arbitrary: specs) (auto simp: rbind_Inr_iff distinct_dict_set)

lemma claim_parents_Inr:
  "claim_parents ps parents = Inr parents' \<Longrightarrow>
   distinct (map snd ps) \<and> set (map snd ps) \<inter> set (map fst parents) = {} \<and>
   (\<forall>k. dict_get parents' k = (case find (\<lambda>e. snd e = k) ps of Some e \<Rightarrow> Some (fst e) | None \<Rightarrow> dict_get parents k))"
proof (induction ps parents rule: claim_parents.induct)
  case (2 p k ps parents)
  from "2.prems" have n: "dict_get parents k = None" and c: "claim_parents ps (dict_set k p parents) = Inr parents'"
    by (auto split: option.splits)
  from "2.IH" [OF n c] have ih: "distinct (map snd ps)" "set (map snd ps) \<inter> set (map fst (dict_set k p parents)) = {}"
      "\<And>j. dict_get parents' j = (case find (\<lambda>e. snd e = j) ps of Some e \<Rightarrow> Some (fst e) | None \<Rightarrow> dict_get (dict_set k p parents) j)"
    by blast+
  have k: "k \<notin> set (map snd ps)" using ih(2) by (auto simp: keys_img_dict_set)
  then have "find (\<lambda>e. snd e = k) ps = None" by (force simp: find_None_iff)
  moreover have "k \<notin> set (map fst parents)" using n by (simp add: dict_get_def map_of_eq_None_iff)
  ultimately show ?case using ih k by (auto simp: keys_img_dict_set split: option.split)
qed auto

lemma edge_pairs_kids:
  assumes "distinct (map fst edges)"
  shows "(p, k) \<in> set (edge_pairs edges) \<longleftrightarrow> k \<in> set (kids edges p)"
  using assms
  by (auto simp: edge_pairs_def kids_def dict_get_def split: option.splits)

definition forest :: "specs \<Rightarrow> edges \<Rightarrow> bool" where
  "forest specs edges \<longleftrightarrow> distinct (map fst specs) \<and> edges = edges_of specs \<and> distinct (map snd (edge_pairs edges)) \<and>
     (\<forall>e\<in>set (edge_pairs edges). snd e \<in> set (map fst specs))"

lemma edges_of_keys [simp]: "map fst (edges_of specs) = map fst specs"
  by (simp add: edges_of_def case_prod_beta comp_def)

lemma validate_forest_Inr:
  assumes "validate_forest rp specs declared = Inr edges" and "distinct (map fst specs)"
  obtains parents roots owner where "forest specs edges" "claim_parents (edge_pairs edges) [] = Inr parents"
    "choose_roots specs parents declared = Inr roots" "check_roots specs parents roots = Inr ()"
    "walk_roots edges roots [] = Inr owner" "\<forall>n\<in>set (map fst specs). dict_get owner n \<noteq> None"
    "\<forall>e\<in>set (edge_pairs edges). check_edge rp specs e = Inr ()"
proof -
  from assms(1) have e: "edges = edges_of specs"
    by (auto simp: validate_forest_def Let_def rbind_Inr_iff split: option.splits if_splits)
  from assms(1) have f: "find (\<lambda>(p, k). k \<notin> set (dict_keys specs)) (edge_pairs edges) = None"
    by (auto simp: validate_forest_def Let_def e split: option.splits)
  with assms(1) obtain parents roots owner u where v: "claim_parents (edge_pairs edges) [] = Inr parents"
    "choose_roots specs parents declared = Inr roots" "check_roots specs parents roots = Inr ()"
    "walk_roots edges roots [] = Inr owner" "filter (\<lambda>n. dict_get owner n = None) (dict_keys specs) = []"
    "traverse (check_edge rp specs) (edge_pairs edges) = Inr u"
    by (auto simp: validate_forest_def Let_def e rbind_Inr_iff split: if_splits)
  have "forest specs edges"
    using claim_parents_Inr [OF v(1)] f assms(2) e by (auto simp: forest_def find_None_iff dict_keys_def)
  moreover have "\<forall>e\<in>set (edge_pairs edges). check_edge rp specs e = Inr ()"
    using traverse_Inr [OF v(6)] by (metis (full_types) old.unit.exhaust)
  ultimately show ?thesis using v that [of parents roots owner] by (auto simp: filter_empty_conv dict_keys_def)
qed

subsection \<open>The queue loop builds the tree\<close>

lemma dict_get_keys: "dict_get d k \<noteq> None \<longleftrightarrow> k \<in> set (map fst d)"
  by (simp add: dict_get_def map_of_eq_None_iff)

lemma kids_iff:
  "forest specs edges \<Longrightarrow> k \<in> set (kids edges p) \<longleftrightarrow> (p, k) \<in> set (edge_pairs edges)"
  by (simp add: forest_def edge_pairs_kids)

lemma kids_known: "forest specs edges \<Longrightarrow> k \<in> set (kids edges p) \<Longrightarrow> k \<in> set (map fst specs)"
  by (metis forest_def kids_iff snd_conv)

lemma one_parent: "forest specs edges \<Longrightarrow> k \<in> set (kids edges p) \<Longrightarrow> k \<in> set (kids edges q) \<Longrightarrow> p = q"
  unfolding kids_iff by (metis (no_types) distinct_map forest_def fst_conv inj_onD snd_conv)

lemma kids_Cons: "kids ((a, ks) # es) p = (if a = p then ks else kids es p)"
  by (simp add: kids_def)

lemma distinct_kids:
  assumes "forest specs edges"
  shows "distinct (kids edges p)"
proof -
  have "distinct (map snd (edge_pairs es)) \<Longrightarrow> distinct (kids es p)" for es :: edges
  proof (induction es)
    case (Cons e es)
    obtain a ks where "e = (a, ks)" by (cases e)
    with Cons show ?case by (auto simp: edge_pairs_def kids_Cons comp_def)
  qed (simp add: kids_def)
  with assms show ?thesis unfolding forest_def by blast
qed

definition manifest_of :: "specs \<Rightarrow> string \<Rightarrow> manifest" where
  "manifest_of specs n = as_manifest (the (dict_get specs n))"

lemma add_children_Inr:
  assumes "set ks \<subseteq> set (map fst specs)" "p \<in> set (dict_keys (tm_nodes t)) \<or> p = an_name (tm_root t)"
  shows "\<exists>t'. add_children specs p ks t = Inr t' \<and> tm_root t' = tm_root t \<and> tm_max_depth t' = tm_max_depth t \<and>
    tm_revoked t' = tm_revoked t \<and>
    (\<forall>n. dict_get (tm_nodes t') n = (if n \<in> set ks then Some \<lparr>an_name = n, an_manifest = manifest_of specs n\<rparr> else dict_get (tm_nodes t) n)) \<and>
    (\<forall>q. dict_get (tm_edges t') q = (if q = p \<and> ks \<noteq> [] then Some (kids (tm_edges t) p @ ks) else dict_get (tm_edges t) q)) \<and>
    (distinct (map fst (tm_edges t)) \<longrightarrow> distinct (map fst (tm_edges t')))"
  using assms
proof (induction ks arbitrary: t)
  case (Cons k ks)
  from Cons.prems(1) obtain s where s: "dict_get specs k = Some s"
    by (metis dict_get_keys list.set_intros(1) option.exhaust subsetD)
  define t1 where "t1 = t\<lparr>tm_nodes := dict_set k \<lparr>an_name = k, an_manifest = as_manifest s\<rparr> (tm_nodes t),
      tm_edges := dict_set p (kids (tm_edges t) p @ [k]) (tm_edges t)\<rparr>"
  have a: "team_add t p \<lparr>an_name = k, an_manifest = as_manifest s\<rparr> = Inr t1"
    using Cons.prems(2) by (auto simp: team_add_def t1_def kids_def)
  have "p \<in> set (dict_keys (tm_nodes t1)) \<or> p = an_name (tm_root t1)"
    using Cons.prems(2) by (auto simp: t1_def dict_keys_def keys_img_dict_set)
  with Cons.IH [of t1] Cons.prems(1) obtain t' where t': "add_children specs p ks t1 = Inr t'" "tm_root t' = tm_root t1"
    "tm_max_depth t' = tm_max_depth t1" "tm_revoked t' = tm_revoked t1"
    "\<forall>n. dict_get (tm_nodes t') n = (if n \<in> set ks then Some \<lparr>an_name = n, an_manifest = manifest_of specs n\<rparr> else dict_get (tm_nodes t1) n)"
    "\<forall>q. dict_get (tm_edges t') q = (if q = p \<and> ks \<noteq> [] then Some (kids (tm_edges t1) p @ ks) else dict_get (tm_edges t1) q)"
    "distinct (map fst (tm_edges t1)) \<longrightarrow> distinct (map fst (tm_edges t'))" by auto
  have "add_children specs p (k # ks) t = Inr t'" using s a t'(1) by (simp add: spec_of_def)
  moreover have "distinct (map fst (tm_edges t)) \<longrightarrow> distinct (map fst (tm_edges t'))"
    using t'(7) distinct_dict_set [of "tm_edges t"] by (simp add: t1_def)
  ultimately show ?case
    using t'(2-6) s by (intro exI [of _ t']) (auto simp: t1_def manifest_of_def kids_def)
qed simp

abbreviation below :: "edges \<Rightarrow> string \<Rightarrow> string \<Rightarrow> bool" where
  "below edges \<equiv> (\<lambda>p k. k \<in> set (kids edges p))\<^sup>*\<^sup>*"

definition grown :: "specs \<Rightarrow> edges \<Rightarrow> string \<Rightarrow> string list \<Rightarrow> string list \<Rightarrow> team \<Rightarrow> bool" where
  "grown specs edges rt V Q t \<longleftrightarrow> distinct (V @ Q) \<and> set (V @ Q) \<subseteq> set (map fst specs) \<and>
     set (V @ Q) = insert rt (\<Union>p\<in>set V. set (kids edges p)) \<and> (\<forall>n\<in>set (V @ Q). below edges rt n) \<and>
     tm_root t = \<lparr>an_name = rt, an_manifest = manifest_of specs rt\<rparr> \<and> tm_max_depth t = 4 \<and> tm_revoked t = {} \<and>
     (\<forall>n. dict_get (tm_nodes t) n =
        (if n \<in> set (V @ Q) \<and> n \<noteq> rt then Some \<lparr>an_name = n, an_manifest = manifest_of specs n\<rparr> else None)) \<and>
     (\<forall>p. dict_get (tm_edges t) p = (if p \<in> set V \<and> kids edges p \<noteq> [] then Some (kids edges p) else None)) \<and>
     distinct (map fst (tm_edges t))"

lemma grown_step:
  assumes f: "forest specs edges" and g: "grown specs edges rt V (p # Q) t" and r: "\<forall>q. rt \<notin> set (kids edges q)"
  shows "\<exists>t'. add_children specs p (kids edges p) t = Inr t' \<and> grown specs edges rt (V @ [p]) (Q @ kids edges p) t'"
proof -
  note gd = g [unfolded grown_def]
  have known: "set (kids edges p) \<subseteq> set (map fst specs)" using kids_known [OF f] by blast
  have "p \<in> set (V @ p # Q)" by simp
  with gd have "dict_get (tm_nodes t) p \<noteq> None \<or> p = an_name (tm_root t)" by auto
  then have "p \<in> set (dict_keys (tm_nodes t)) \<or> p = an_name (tm_root t)"
    unfolding dict_keys_def by (metis dict_get_keys)
  from add_children_Inr [OF known this] obtain t' where t': "add_children specs p (kids edges p) t = Inr t'"
    "tm_root t' = tm_root t" "tm_max_depth t' = tm_max_depth t" "tm_revoked t' = tm_revoked t"
    "\<And>n. dict_get (tm_nodes t') n = (if n \<in> set (kids edges p) then Some \<lparr>an_name = n, an_manifest = manifest_of specs n\<rparr> else dict_get (tm_nodes t) n)"
    "\<And>q. dict_get (tm_edges t') q = (if q = p \<and> kids edges p \<noteq> [] then Some (kids (tm_edges t) p @ kids edges p) else dict_get (tm_edges t) q)"
    "distinct (map fst (tm_edges t)) \<longrightarrow> distinct (map fst (tm_edges t'))" by blast
  have dV: "distinct (V @ p # Q)" using gd by blast
  then have pV: "p \<notin> set V" by auto
  have fresh: "k \<notin> set (V @ p # Q)" if "k \<in> set (kids edges p)" for k
  proof
    assume "k \<in> set (V @ p # Q)"
    with gd r that obtain q where "q \<in> set V" "k \<in> set (kids edges q)" by auto
    with one_parent [OF f that] pV show False by blast
  qed
  have "distinct ((V @ [p]) @ Q @ kids edges p)"
    using dV fresh distinct_kids [OF f, of p] by auto
  moreover have "set ((V @ [p]) @ Q @ kids edges p) = insert rt (\<Union>q\<in>set (V @ [p]). set (kids edges q))"
    using gd by auto
  moreover have "kids (tm_edges t) p = []" using gd pV by (simp add: kids_def)
  moreover have "\<forall>n. dict_get (tm_nodes t') n = (if n \<in> set ((V @ [p]) @ Q @ kids edges p) \<and> n \<noteq> rt
      then Some \<lparr>an_name = n, an_manifest = manifest_of specs n\<rparr> else None)"
    using gd r by (auto simp: t'(5))
  moreover have "\<forall>q. dict_get (tm_edges t') q = (if q \<in> set (V @ [p]) \<and> kids edges q \<noteq> [] then Some (kids edges q) else None)"
    using gd pV calculation(3) by (auto simp: t'(6))
  moreover have "set ((V @ [p]) @ Q @ kids edges p) \<subseteq> set (map fst specs)" using gd known by auto
  moreover have "distinct (map fst (tm_edges t'))" using t'(7) gd by blast
  moreover have "\<forall>n\<in>set ((V @ [p]) @ Q @ kids edges p). below edges rt n"
    using gd by (auto intro: rtranclp.rtrancl_into_rtrancl)
  ultimately have "grown specs edges rt (V @ [p]) (Q @ kids edges p) t'"
    using gd unfolding grown_def t'(2-4) by blast
  with t'(1) show ?thesis by blast
qed

lemma grow_team_Some:
  assumes f: "forest specs edges" and r: "\<forall>q. rt \<notin> set (kids edges q)"
  shows "grown specs edges rt V Q t \<Longrightarrow>
    \<exists>V' t'. grow_team specs edges rt Q t tof = Some (Inr (t', fold (\<lambda>n. dict_set n rt) V' tof)) \<and> grown specs edges rt (V @ V') [] t'"
proof (induction "length specs - length V" arbitrary: V Q t tof rule: less_induct)
  case less
  show ?case
  proof (cases Q)
    case Nil
    with less.prems show ?thesis by (intro exI [of _ "[]"] exI [of _ t]) (simp add: grow_team.simps)
  next
    case (Cons p Q')
    from grown_step [OF f less.prems [unfolded Cons] r] obtain t1 where
      t1: "add_children specs p (kids edges p) t = Inr t1" "grown specs edges rt (V @ [p]) (Q' @ kids edges p) t1" by blast
    have "distinct (V @ p # Q')" "set (V @ p # Q') \<subseteq> set (map fst specs)"
      using less.prems Cons by (auto simp: grown_def)
    then have "length (V @ p # Q') \<le> length (map fst specs)"
      by (metis card_length card_mono distinct_card dual_order.trans finite_set)
    then have "length specs - length (V @ [p]) < length specs - length V" by simp
    from less.hyps [OF this t1(2), of "dict_set p rt tof"] obtain V' t' where
      v: "grow_team specs edges rt (Q' @ kids edges p) t1 (dict_set p rt tof) = Some (Inr (t', fold (\<lambda>n. dict_set n rt) V' (dict_set p rt tof)))"
         "grown specs edges rt ((V @ [p]) @ V') [] t'" by blast
    show ?thesis
      using t1(1) v by (intro exI [of _ "p # V'"] exI [of _ t']) (simp add: Cons grow_team.simps)
  qed
qed

subsection \<open>All teams\<close>

lemma parents_None:
  assumes "claim_parents (edge_pairs edges) [] = Inr parents" "forest specs edges"
  shows "dict_get parents n = None \<longleftrightarrow> (\<forall>p. n \<notin> set (kids edges p))"
proof -
  have "dict_get parents n = None \<longleftrightarrow> (\<forall>p. (p, n) \<notin> set (edge_pairs edges))"
    using claim_parents_Inr [OF assms(1)] by (auto simp: find_None_iff split: option.splits)
  then show ?thesis using kids_iff [OF assms(2)] by blast
qed

lemma below_comparable:
  assumes f: "forest specs edges" and "below edges r x"
  shows "below edges r' x \<Longrightarrow> below edges r r' \<or> below edges r' r"
  using assms(2)
proof (induction rule: rtranclp_induct)
  case (step y z)
  from step.prems show ?case
  proof (cases rule: rtranclp.cases)
    case rtrancl_refl
    with step.hyps show ?thesis by (auto intro: rtranclp.rtrancl_into_rtrancl)
  next
    case (rtrancl_into_rtrancl y')
    with one_parent [OF f] step.hyps(2) have "y' = y" by blast
    with rtrancl_into_rtrancl step.IH show ?thesis by blast
  qed
qed simp

lemma roots_apart:
  assumes "forest specs edges" "\<forall>q. r \<notin> set (kids edges q)" "\<forall>q. r' \<notin> set (kids edges q)"
    and "below edges r x" "below edges r' x"
  shows "r = r'"
  using below_comparable [OF assms(1,4,5)] assms(2,3) by (metis rtranclp.cases)

lemma grown_members:
  assumes "grown specs edges r V [] t"
  shows "set V = {n. below edges r n}" "team_node t n = Inr x \<longleftrightarrow> below edges r n \<and> x = \<lparr>an_name = n, an_manifest = manifest_of specs n\<rparr>"
proof -
  have "below edges r n \<Longrightarrow> n \<in> set V" for n
    by (induction rule: rtranclp_induct) (use assms in \<open>auto simp: grown_def\<close>)
  then show "set V = {n. below edges r n}" using assms by (auto simp: grown_def)
  then show "team_node t n = Inr x \<longleftrightarrow> below edges r n \<and> x = \<lparr>an_name = n, an_manifest = manifest_of specs n\<rparr>"
    using assms by (auto simp: grown_def team_node_def split: option.splits)
qed

text \<open>A tree by its edges: no repeated children, one parent each, none for the root; the nodes are what the root reaches,
  and no node reaches itself.\<close>

definition rooted_tree :: "edges \<Rightarrow> string \<Rightarrow> string set \<Rightarrow> bool" where
  "rooted_tree edges r A \<longleftrightarrow> (\<forall>p. distinct (kids edges p)) \<and>
     (\<forall>p q k. k \<in> set (kids edges p) \<and> k \<in> set (kids edges q) \<longrightarrow> p = q) \<and> (\<forall>p. r \<notin> set (kids edges p)) \<and>
     A = {a. below edges r a} \<and> (\<forall>a. \<not> (\<lambda>p k. k \<in> set (kids edges p))\<^sup>+\<^sup>+ a a)"

lemma reached_acyclic:
  assumes one: "\<And>p q k. E p k \<Longrightarrow> E q k \<Longrightarrow> p = q" and root: "\<And>p. \<not> E p r" and "E\<^sup>*\<^sup>* r a"
  shows "\<not> E\<^sup>+\<^sup>+ a a"
  using assms(3)
proof (induction rule: rtranclp_induct)
  case base
  then show ?case using root by (metis tranclp.cases)
next
  case (step y z)
  show ?case
  proof
    assume "E\<^sup>+\<^sup>+ z z"
    then obtain y' where "E\<^sup>*\<^sup>* z y'" "E y' z" by (metis tranclp.cases tranclp_into_rtranclp rtranclp.rtrancl_refl)
    with one [OF step.hyps(2)] have "E\<^sup>*\<^sup>* z y" by blast
    with step.hyps(2) have "E\<^sup>+\<^sup>+ y y" by (rule rtranclp_into_tranclp2)
    with step.IH show False by blast
  qed
qed

lemma grown_tree:
  assumes f: "forest specs edges" and g: "grown specs edges r V [] t" and r: "\<forall>q. r \<notin> set (kids edges q)"
  shows "kids (tm_edges t) p = (if below edges r p then kids edges p else [])"
    and "rooted_tree (tm_edges t) r {a. below edges r a}"
proof -
  show k: "kids (tm_edges t) p = (if below edges r p then kids edges p else [])" for p
    using g grown_members(1) [OF g] by (auto simp: kids_def [of "tm_edges t"] grown_def)
  let ?E = "\<lambda>p k. k \<in> set (kids (tm_edges t) p)"
  have up: "below (tm_edges t) r a" if "below edges r a" for a
    using that
  proof (induction rule: rtranclp_induct)
    case (step y z)
    then have "?E y z" by (simp add: k)
    with step.IH show ?case by (rule rtranclp.rtrancl_into_rtrancl)
  qed simp
  have down: "below edges r a" if "below (tm_edges t) r a" for a
    using that by (induction rule: rtranclp_induct) (auto simp: k split: if_splits intro: rtranclp.rtrancl_into_rtrancl)
  have one: "?E p n \<Longrightarrow> ?E q n \<Longrightarrow> p = q" for p q n using one_parent [OF f] by (auto simp: k split: if_splits)
  have root: "\<not> ?E p r" for p using r by (simp add: k)
  have "\<not> ?E\<^sup>+\<^sup>+ a a" for a
  proof
    assume c: "?E\<^sup>+\<^sup>+ a a"
    then obtain n where "?E a n" by (metis tranclpD)
    then have "below (tm_edges t) r a" using up by (auto simp: k split: if_splits)
    with reached_acyclic [of ?E r a] one root c show False by blast
  qed
  moreover have "distinct (kids (tm_edges t) p)" for p using distinct_kids [OF f] by (simp add: k)
  moreover have "{a. below edges r a} = {a. below (tm_edges t) r a}" using up down by (intro Collect_cong) blast
  ultimately show "rooted_tree (tm_edges t) r {a. below edges r a}" unfolding rooted_tree_def using one root by blast
qed

lemma fold_dict_set: "dict_get (fold (\<lambda>n. dict_set n r) V tof) a = (if a \<in> set V then Some r else dict_get tof a)"
  by (induction V arbitrary: tof) auto

definition teams_ok :: "specs \<Rightarrow> edges \<Rightarrow> string list \<Rightarrow> (string \<times> team) list \<Rightarrow> (string \<times> string) list \<Rightarrow> bool" where
  "teams_ok specs edges roots teams tof \<longleftrightarrow>
     (\<forall>r. dict_get teams r \<noteq> None \<longleftrightarrow> r \<in> set roots) \<and> (\<forall>r t. dict_get teams r = Some t \<longrightarrow> (\<exists>V. grown specs edges r V [] t)) \<and>
     (\<forall>a r. dict_get tof a = Some r \<longleftrightarrow> r \<in> set roots \<and> below edges r a)"

lemma teams_okD:
  assumes "teams_ok specs edges roots teams tof" "dict_get teams r = Some t"
  shows "r \<in> set roots" "\<exists>V. grown specs edges r V [] t"
  using assms unfolding teams_ok_def by (metis option.distinct(1), blast)

lemma new_team_grown:
  "r \<in> set (map fst specs) \<Longrightarrow> grown specs edges r [] [r] (new_team r (manifest_of specs r))"
  by (simp add: grown_def new_team_def)

lemma build_teams_Some:
  assumes f: "forest specs edges"
  shows "teams_ok specs edges done teams tof \<Longrightarrow> \<forall>r\<in>set (done @ roots). r \<in> set (map fst specs) \<and> (\<forall>q. r \<notin> set (kids edges q)) \<Longrightarrow>
    distinct (done @ roots) \<Longrightarrow>
    \<exists>teams' tof'. build_teams specs edges roots teams tof = Some (Inr (teams', tof')) \<and> teams_ok specs edges (done @ roots) teams' tof'"
proof (induction roots arbitrary: "done" teams tof)
  case (Cons r rs)
  have r: "r \<in> set (map fst specs)" "\<forall>q. r \<notin> set (kids edges q)" "r \<notin> set done" using Cons.prems(2,3) by auto
  obtain s where s: "dict_get specs r = Some s" using r(1) by (metis dict_get_keys option.exhaust)
  from grow_team_Some [OF f r(2) new_team_grown [OF r(1)], of tof] obtain V t where
    g: "grow_team specs edges r [r] (new_team r (manifest_of specs r)) tof = Some (Inr (t, fold (\<lambda>n. dict_set n r) V tof))"
       "grown specs edges r V [] t" by auto
  have V: "set V = {n. below edges r n}" using grown_members(1) [OF g(2)] .
  have "teams_ok specs edges (done @ [r]) (dict_set r t teams) (fold (\<lambda>n. dict_set n r) V tof)"
    unfolding teams_ok_def
  proof (intro conjI allI)
    fix a q
    show "dict_get (fold (\<lambda>n. dict_set n r) V tof) a = Some q \<longleftrightarrow> q \<in> set (done @ [r]) \<and> below edges q a"
      using Cons.prems(1,2) roots_apart [OF f r(2), of q a] r(3) by (auto simp: fold_dict_set V teams_ok_def)
  qed (use Cons.prems(1) g(2) in \<open>auto simp: teams_ok_def\<close>)
  from Cons.IH [OF this] Cons.prems(2,3) obtain teams' tof' where
    "build_teams specs edges rs (dict_set r t teams) (fold (\<lambda>n. dict_set n r) V tof) = Some (Inr (teams', tof'))"
    "teams_ok specs edges ((done @ [r]) @ rs) teams' tof'" by auto
  with s g show ?case by (auto simp: spec_of_def manifest_of_def)
qed auto

lemma walk_below:
  "walk edges rt seen stack owner = Inr owner' \<Longrightarrow> \<forall>n\<in>set stack. below edges rt n \<Longrightarrow> dict_get owner' n \<noteq> None \<Longrightarrow>
   dict_get owner n \<noteq> None \<or> below edges rt n"
proof (induction edges rt seen stack owner rule: walk.induct)
  case (2 edges rt seen m stack owner)
  from "2.prems"(1) have m: "m \<notin> seen" "dict_get owner m = None"
      and w: "walk edges rt (insert m seen) (rev (kids edges m) @ stack) (dict_set m rt owner) = Inr owner'"
    by (auto simp: walk.simps(2) split: if_splits option.splits)
  have "\<forall>n\<in>set (rev (kids edges m) @ stack). below edges rt n"
    using "2.prems"(2) by (auto intro: rtranclp.rtrancl_into_rtrancl)
  from "2.IH" [OF m w this "2.prems"(3)] "2.prems"(2) show ?case by (auto split: if_splits)
qed auto

lemma walk_roots_below:
  "walk_roots edges roots owner = Inr owner' \<Longrightarrow> dict_get owner' n \<noteq> None \<Longrightarrow>
   dict_get owner n \<noteq> None \<or> (\<exists>r\<in>set roots. below edges r n)"
proof (induction roots arbitrary: owner)
  case (Cons r rs)
  from Cons.prems(1) obtain o1 where o1: "walk edges r {} [r] owner = Inr o1" "walk_roots edges rs o1 = Inr owner'"
    by (auto simp: rbind_Inr_iff)
  from Cons.IH [OF o1(2) Cons.prems(2)] walk_below [OF o1(1), of n] show ?case by auto
qed auto

lemma check_roots_Inr:
  "check_roots specs parents roots = Inr () \<Longrightarrow> r \<in> set roots \<Longrightarrow> r \<in> set (map fst specs) \<and> dict_get parents r = None"
  by (induction roots) (auto simp: dict_keys_def split: if_splits option.splits)

lemma build_loaded_cases:
  obtains e where "build_loaded rp fl docs aliases ws out = Some (Inl e)"
  | specs edges roots teams tof where
      "build_loaded rp fl docs aliases ws out = Some (Inr \<lparr>lt_specs = specs, lt_teams = teams, lt_team_of = tof, lt_aliases = aliases\<rparr>)"
      "forest specs edges" "teams_ok specs edges roots teams tof" "\<forall>n\<in>set (map fst specs). \<exists>r\<in>set roots. below edges r n"
      "\<forall>e\<in>set (edge_pairs edges). check_edge rp specs e = Inr ()"
      "\<forall>r\<in>set roots. r \<in> set (map fst specs)" "\<forall>r\<in>set roots. \<forall>q. r \<notin> set (kids edges q)"
proof (cases "docs = [] \<or> isl (parse_agents fl ws out docs [])")
  case True
  then have "\<exists>e. build_loaded rp fl docs aliases ws out = Some (Inl e)" by (auto simp: build_loaded_def isl_def)
  then show ?thesis using that(1) by blast
next
  case False
  then obtain specs where p: "docs \<noteq> []" "parse_agents fl ws out docs [] = Inr specs" by (auto simp: isl_def) (metis sum.exhaust)
  have d: "distinct (map fst specs)" using parse_agents_distinct [OF p(2)] by simp
  show ?thesis
  proof (cases "validate_forest rp specs (declared_roots aliases)")
    case (Inl e)
    with p have "build_loaded rp fl docs aliases ws out = Some (Inl e)" by (simp add: build_loaded_def)
    then show ?thesis by (rule that(1))
  next
    case (Inr edges)
    from validate_forest_Inr [OF Inr d] obtain parents roots owner where v: "forest specs edges"
      "claim_parents (edge_pairs edges) [] = Inr parents" "choose_roots specs parents (declared_roots aliases) = Inr roots"
      "check_roots specs parents roots = Inr ()" "walk_roots edges roots [] = Inr owner"
      "\<forall>n\<in>set (map fst specs). dict_get owner n \<noteq> None" "\<forall>e\<in>set (edge_pairs edges). check_edge rp specs e = Inr ()" .
    have "n \<notin> set (concat (map snd edges)) \<longleftrightarrow> dict_get parents n = None" for n
    proof -
      have "n \<in> set (concat (map snd edges)) \<longleftrightarrow> (\<exists>p. (p, n) \<in> set (edge_pairs edges))"
        by (force simp: edge_pairs_def)
      then show ?thesis using parents_None [OF v(2,1), of n] kids_iff [OF v(1)] by auto
    qed
    then have roots: "(if declared_roots aliases \<noteq> [] then declared_roots aliases
        else filter (\<lambda>n. n \<notin> set (concat (map snd edges))) (dict_keys specs)) = roots"
      using v(3) by (auto simp: choose_roots_def natural_roots_def split: if_splits)
    have "distinct roots"
      using v(3) d by (auto simp: choose_roots_def natural_roots_def declared_roots_def dict_keys_def split: if_splits)
    moreover have r: "\<forall>r\<in>set roots. r \<in> set (map fst specs) \<and> (\<forall>q. r \<notin> set (kids edges q))"
      using check_roots_Inr [OF v(4)] parents_None [OF v(2,1)] by blast
    moreover have "teams_ok specs edges [] [] []" by (simp add: teams_ok_def)
    ultimately obtain teams tof where t: "build_teams specs edges roots [] [] = Some (Inr (teams, tof))" "teams_ok specs edges roots teams tof"
      using build_teams_Some [OF v(1), of "[]" "[]" "[]" roots] by auto
    have "\<forall>n\<in>set (map fst specs). \<exists>r\<in>set roots. below edges r n"
      using walk_roots_below [OF v(5)] v(6) by fastforce
    moreover have "build_loaded rp fl docs aliases ws out = Some (Inr \<lparr>lt_specs = specs, lt_teams = teams, lt_team_of = tof, lt_aliases = aliases\<rparr>)"
      using p Inr t(1) roots by (simp add: build_loaded_def Let_def)
    ultimately show ?thesis using that(2) v(1,7) t(2) r by blast
  qed
qed

lemma dict_get_map_snd: "dict_get (map (\<lambda>(n, t). (n, f t)) d) k = map_option f (dict_get d k)"
  by (induction d) auto

lemma kids_declared: "forest specs edges \<Longrightarrow> dict_get specs a = Some s \<Longrightarrow> kids edges a = as_delegates s"
  unfolding forest_def by (auto simp: kids_def edges_of_def dict_get_map_snd)

text \<open>C10: Loading a team always ends, and what it accepts is a forest. Whatever documents and team names are given,
  loading returns an error or a loaded team. In a loaded team every agent belongs to exactly one team, and each team is a
  tree over the agents that belong to it: its root is the agent the team is named by; the children of a member are the
  delegates its document lists, in that order, and nobody else has children; no agent is listed twice or has two parents,
  the root has none, the members are exactly what the root reaches along the edges, and no agent reaches itself. A member
  has the manifest its document declares.\<close>

theorem loaded_team_is_forest:
  "\<exists>res. build_loaded realpath float_of docs aliases workspace output = Some res \<and>
    (\<forall>l. res = Inr l \<longrightarrow>
      set (dict_keys (lt_team_of l)) = set (dict_keys (lt_specs l)) \<and>
      (\<forall>a. a \<in> set (dict_keys (lt_specs l)) \<longrightarrow> (\<exists>t. team_for l a = Inr t)) \<and>
      (\<forall>r t. dict_get (lt_teams l) r = Some t \<longrightarrow> an_name (tm_root t) = r \<and> tm_revoked t = {} \<and>
         rooted_tree (tm_edges t) r {a. dict_get (lt_team_of l) a = Some r} \<and>
         (\<forall>a s. dict_get (lt_team_of l) a = Some r \<and> dict_get (lt_specs l) a = Some s \<longrightarrow> kids (tm_edges t) a = as_delegates s) \<and>
         (\<forall>a. dict_get (lt_team_of l) a \<noteq> Some r \<longrightarrow> kids (tm_edges t) a = []) \<and>
         (\<forall>a x. team_node t a = Inr x \<longleftrightarrow> dict_get (lt_team_of l) a = Some r \<and>
            (\<exists>s. dict_get (lt_specs l) a = Some s \<and> x = \<lparr>an_name = a, an_manifest = as_manifest s\<rparr>))))"
proof (cases rule: build_loaded_cases [of realpath float_of docs aliases workspace "output"])
  case (2 specs edges roots teams tof)
  have known: "below edges r a \<Longrightarrow> r \<in> set roots \<Longrightarrow> a \<in> set (map fst specs)" for r a
    by (induction rule: rtranclp_induct) (use 2(6) kids_known [OF 2(2)] in auto)
  have tof: "dict_get tof a = Some r \<longleftrightarrow> r \<in> set roots \<and> below edges r a" for a r
    using 2(3) by (auto simp: teams_ok_def)
  have keys: "set (dict_keys tof) = set (dict_keys specs)"
  proof -
    have "a \<in> set (map fst tof) \<longleftrightarrow> a \<in> set (map fst specs)" for a
      unfolding dict_get_keys [symmetric] using tof [of a] 2(4) known dict_get_keys [of specs a] by (auto simp: dict_get_keys)
    then show ?thesis by (auto simp: dict_keys_def)
  qed
  let ?l = "\<lparr>lt_specs = specs, lt_teams = teams, lt_team_of = tof, lt_aliases = aliases\<rparr>"
  have for_: "\<exists>t. team_for ?l a = Inr t"
    if "a \<in> set (map fst specs)" for a
  proof -
    from 2(4) that obtain r where "r \<in> set roots" "below edges r a" by blast
    moreover from this 2(3) obtain t where "dict_get teams r = Some t" unfolding teams_ok_def by (metis option.exhaust)
    moreover have "dict_get tof a = Some r" using tof calculation by simp
    ultimately show ?thesis by (simp add: team_for_def)
  qed
  have trees: "an_name (tm_root t) = r \<and> tm_revoked t = {} \<and> rooted_tree (tm_edges t) r {a. dict_get tof a = Some r} \<and>
      (\<forall>a s. dict_get tof a = Some r \<and> dict_get specs a = Some s \<longrightarrow> kids (tm_edges t) a = as_delegates s) \<and>
      (\<forall>a. dict_get tof a \<noteq> Some r \<longrightarrow> kids (tm_edges t) a = []) \<and>
      (\<forall>a x. team_node t a = Inr x \<longleftrightarrow> dict_get tof a = Some r \<and>
         (\<exists>s. dict_get specs a = Some s \<and> x = \<lparr>an_name = a, an_manifest = as_manifest s\<rparr>))"
    if "dict_get teams r = Some t" for r t
  proof -
    from teams_okD [OF 2(3) that] obtain V where g: "grown specs edges r V [] t" and r: "r \<in> set roots" by blast
    have s: "\<exists>s. dict_get specs a = Some s" if "below edges r a" for a
      using known [OF that r] by (metis dict_get_keys option.exhaust)
    have members: "{a. dict_get tof a = Some r} = {a. below edges r a}" using tof r by auto
    have "\<forall>q. r \<notin> set (kids edges q)" using 2(7) r by blast
    note tree = grown_tree [OF 2(2) g this, folded members]
    have "dict_get tof a = Some r \<Longrightarrow> dict_get specs a = Some s \<Longrightarrow> kids (tm_edges t) a = as_delegates s"
      "dict_get tof a \<noteq> Some r \<Longrightarrow> kids (tm_edges t) a = []" for a s
      using tof [of a r] r kids_declared [OF 2(2), of a] unfolding tree(1) by auto
    moreover have "team_node t a = Inr x \<longleftrightarrow> dict_get tof a = Some r \<and>
        (\<exists>s. dict_get specs a = Some s \<and> x = \<lparr>an_name = a, an_manifest = as_manifest s\<rparr>)" for a x
      unfolding grown_members(2) [OF g] tof manifest_of_def using r s by (metis option.sel)
    moreover have "an_name (tm_root t) = r" "tm_revoked t = {}" using g by (simp_all add: grown_def)
    ultimately show ?thesis using tree(2) by blast
  qed
  from 2(1) keys for_ trees show ?thesis by (simp add: dict_keys_def)
qed simp

definition demo_docs :: "json list" where
  "demo_docs =
     [JObj [(''name'', JStr ''lead''), (''delegates'', JArr [JStr ''dev'']),
            (''capabilities'', JObj [(''tools'', JArr [JStr ''fs_read'', JStr ''fs_list'']), (''fs_read_roots'', JArr [JStr ''/srv''])])],
      JObj [(''name'', JStr ''dev''),
            (''capabilities'', JObj [(''tools'', JArr [JStr ''fs_read'']), (''fs_read_roots'', JArr [JStr ''/srv''])])]]"

lemma demo_loaded:
  "\<exists>l. build_loaded id (\<lambda>_. Inr 0) demo_docs [] ''/w'' None = Some (Inr l) \<and> dict_keys (lt_specs l) = [''lead'', ''dev'']"
proof -
  have "map_option (\<lambda>r. case r of Inr l \<Rightarrow> dict_keys (lt_specs l) | Inl e \<Rightarrow> [exn_msg e]) (build_loaded id (\<lambda>_. Inr 0) demo_docs [] ''/w'' None) = Some [''lead'', ''dev'']"
    by code_simp
  then obtain r where r: "build_loaded id (\<lambda>_. Inr 0) demo_docs [] ''/w'' None = Some r"
      "(case r of Inr l \<Rightarrow> dict_keys (lt_specs l) | Inl e \<Rightarrow> [exn_msg e]) = [''lead'', ''dev'']"
    by auto
  then show ?thesis by (cases r) auto
qed

theorem loaded_team_is_forest_witness:
  "\<exists>l r t. build_loaded id (\<lambda>_. Inr 0) demo_docs [] ''/w'' None = Some (Inr l) \<and> dict_get (lt_team_of l) ''dev'' = Some r \<and>
     dict_get (lt_teams l) r = Some t \<and> rooted_tree (tm_edges t) r {a. dict_get (lt_team_of l) a = Some r} \<and> below (tm_edges t) r ''dev''"
proof -
  obtain l where l: "build_loaded id (\<lambda>_. Inr 0) demo_docs [] ''/w'' None = Some (Inr l)" "dict_keys (lt_specs l) = [''lead'', ''dev'']"
    using demo_loaded by blast
  note forest = loaded_team_is_forest [of id "\<lambda>_. Inr 0" demo_docs "[]" "''/w''" None]
  with l have "\<exists>t. team_for l ''dev'' = Inr t" by auto
  then obtain r t where r: "dict_get (lt_team_of l) ''dev'' = Some r" "dict_get (lt_teams l) r = Some t"
    by (auto simp: team_for_def split: option.splits)
  with forest l(1) have tree: "rooted_tree (tm_edges t) r {a. dict_get (lt_team_of l) a = Some r}" by auto
  then have "''dev'' \<in> {a. below (tm_edges t) r a}" using r(1) unfolding rooted_tree_def by blast
  with l(1) r tree show ?thesis by blast
qed

subsection \<open>Declared and effective authority\<close>

lemma parent_of_Some:
  assumes "dict_get (parent_of es) c = Some p"
  shows "\<exists>ks. (p, ks) \<in> set es \<and> c \<in> set ks"
proof -
  have inner: "dict_get (fold (\<lambda>c d. dict_set c q d) ks d) c = (if c \<in> set ks then Some q else dict_get d c)" for q ks d
    by (induction ks arbitrary: d) auto
  have "dict_get (fold (\<lambda>(parent, children) d. fold (\<lambda>c d. dict_set c parent d) children d) es d) c = Some p \<Longrightarrow>
      dict_get d c = Some p \<or> (\<exists>ks. (p, ks) \<in> set es \<and> c \<in> set ks)" for d
  proof (induction es arbitrary: d)
    case (Cons e es)
    obtain q ks where e: "e = (q, ks)" by (cases e)
    with Cons.prems Cons.IH [of "fold (\<lambda>c d. dict_set c q d) ks d"] show ?case by (auto simp: inner split: if_splits)
  qed simp
  from this [of "[]"] assms show ?thesis by (simp add: parent_of_def)
qed

definition same_grants :: "manifest \<Rightarrow> manifest \<Rightarrow> bool" where
  "same_grants m d \<longleftrightarrow> tools m = tools d \<and> net_hosts m = net_hosts d \<and> fs_read_roots m = fs_read_roots d \<and>
     fs_write_roots m = fs_write_roots d"

lemma roots_contained_all: "set (roots_contained rp cs ps) = set cs \<Longrightarrow> roots_contained rp cs ps = cs"
  by (auto simp: roots_contained_def filter_id_conv)

lemma attenuate_keeps:
  assumes "same_grants m' pm" "reject_widening rp p c pm cm = Inr ()" "attenuate rp m' cm = Inr m"
  shows "same_grants m cm"
proof -
  have "tools cm \<subseteq> tools pm" "net_hosts cm \<subseteq> net_hosts pm"
    "roots_contained rp (fs_read_roots cm) (fs_read_roots pm) = fs_read_roots cm"
    "roots_contained rp (fs_write_roots cm) (fs_write_roots pm) = fs_write_roots cm"
    using assms(2) by (auto simp: reject_widening_def split: if_splits intro: roots_contained_all)
  with assms(1,3) show ?thesis
    by (auto simp: same_grants_def attenuate_def split: sum.splits)
qed

lemma grown_effective:
  assumes g: "grown specs edges r V [] t" and e: "\<forall>e\<in>set (edge_pairs edges). check_edge rp specs e = Inr ()"
    and f: "forest specs edges"
  shows "path_to t n = Inr path \<Longrightarrow> narrow_path rp t (manifest_of specs r) (tl path) = Inr m \<Longrightarrow> same_grants m (manifest_of specs n)"
proof (induction "length path" arbitrary: n path m)
  case 0
  with path_to_Inr [OF 0(2)] show ?case by auto
next
  case (Suc i)
  have root: "tm_root t = \<lparr>an_name = r, an_manifest = manifest_of specs r\<rparr>" using g by (simp add: grown_def)
  show ?case
  proof (cases "n = r")
    case True
    with Suc.prems root have "path = [r]" by (simp add: path_to_def climb.simps)
    with Suc.prems True show ?thesis by (simp add: same_grants_def)
  next
    case False
    from path_to_parent [OF Suc.prems(1)] False root obtain p path' where
      p: "dict_get (parent_of (tm_edges t)) n = Some p" "path_to t p = Inr path'" "path = path' @ [n]" by auto
    from path_to_Inr [OF p(2)] have ne: "path' \<noteq> []" by auto
    with Suc.prems(2) p(3) have "narrow_path rp t (manifest_of specs r) (tl path' @ [n]) = Inr m" by simp
    from narrow_path_append [OF this] obtain m' where
      m': "narrow_path rp t (manifest_of specs r) (tl path') = Inr m'" "narrow_path rp t m' [n] = Inr m" by blast
    have ih: "same_grants m' (manifest_of specs p)" using Suc.hyps(1) [OF _ p(2) m'(1)] Suc.hyps(2) p(3) by simp
    from m'(2) obtain a where a: "team_node t n = Inr a" "attenuate rp m' (an_manifest a) = Inr m" by (auto split: sum.splits)
    then have a': "attenuate rp m' (manifest_of specs n) = Inr m" using grown_members(2) [OF g] by auto
    from parent_of_Some [OF p(1)] obtain ks where ks: "(p, ks) \<in> set (tm_edges t)" "n \<in> set ks" by blast
    have "dict_get (tm_edges t) p = Some ks" using ks(1) g unfolding grown_def dict_get_def by (metis map_of_eq_Some_iff)
    then have "n \<in> set (kids edges p)" using g ks(2) by (auto simp: grown_def split: if_splits)
    then have "check_edge rp specs (p, n) = Inr ()" using e kids_iff [OF f] by blast
    then have "reject_widening rp p n (manifest_of specs p) (manifest_of specs n) = Inr ()"
      by (auto simp: check_edge_def rbind_Inr_iff spec_of_def manifest_of_def split: option.splits)
    from attenuate_keeps [OF ih this a'] show ?thesis .
  qed
qed

lemma loaded_grants:
  assumes l: "build_loaded realpath float_of docs aliases workspace output = Some (Inr l)"
    and s: "dict_get (lt_specs l) a = Some s" and t: "team_for l a = Inr t"
    and m: "effective_manifest realpath (t\<lparr>tm_revoked := gone\<rparr>) a = Inr m"
  shows "same_grants m (as_manifest s)"
proof (cases rule: build_loaded_cases [of realpath float_of docs aliases workspace "output"])
  case (2 specs edges roots teams tof)
  then have l': "l = \<lparr>lt_specs = specs, lt_teams = teams, lt_team_of = tof, lt_aliases = aliases\<rparr>" using l by simp
  from t l' obtain r where "dict_get teams r = Some t" by (auto simp: team_for_def split: option.splits)
  with teams_okD(2) [OF 2(3)] obtain V where g: "grown specs edges r V [] t" by blast
  let ?t = "t\<lparr>tm_revoked := gone\<rparr>"
  have n: "narrow_path realpath ?t eff ns = narrow_path realpath t eff ns" for eff ns
    by (induction ns arbitrary: eff) (auto simp: team_node_def split: sum.splits)
  have p: "path_to ?t a = path_to t a" by (simp add: path_to_def)
  from m obtain path where "path_to t a = Inr path" "narrow_path realpath t (manifest_of specs r) (tl path) = Inr m"
    using g by (auto simp: effective_manifest_Inr n p grown_def)
  from grown_effective [OF g 2(5) 2(2) this] s l' show ?thesis by (simp add: manifest_of_def)
qed (use l in simp)

lemma loaded_member:
  assumes l: "build_loaded realpath float_of docs aliases workspace output = Some (Inr l)" and t: "team_for l a = Inr t"
  shows "\<exists>s. dict_get (lt_specs l) a = Some s \<and> kids (tm_edges t) a = as_delegates s"
proof (cases rule: build_loaded_cases [of realpath float_of docs aliases workspace "output"])
  case (2 specs edges roots teams tof)
  then have l': "l = \<lparr>lt_specs = specs, lt_teams = teams, lt_team_of = tof, lt_aliases = aliases\<rparr>" using l by simp
  from t l' obtain r where r: "dict_get tof a = Some r" "dict_get teams r = Some t" by (auto simp: team_for_def split: option.splits)
  from teams_okD(2) [OF 2(3) r(2)] obtain V where g: "grown specs edges r V [] t" by blast
  from r(1) 2(3) have "below edges r a" by (simp add: teams_ok_def)
  then have V: "a \<in> set V" using grown_members(1) [OF g] by simp
  then have "a \<in> set (map fst specs)" using g by (auto simp: grown_def)
  then obtain s where s: "dict_get specs a = Some s" by (metis dict_get_keys option.exhaust)
  have "kids (tm_edges t) a = kids edges a" using g V by (auto simp: kids_def [of "tm_edges t"] grown_def)
  moreover have "kids (edges_of specs) a = as_delegates s"
    using s unfolding kids_def edges_of_def dict_get_map_snd [of as_delegates specs a] by simp
  moreover have "edges = edges_of specs" using 2(2) by (simp add: forest_def)
  ultimately show ?thesis using s l' by simp
qed (use l in simp)

text \<open>In a loaded team an agent's effective authority is the declared one. Because loading rejects a
  child that widens its parent, attenuation along the whole delegation path, whatever agents have been revoked since,
  takes nothing from the tools, network hosts and file roots an agent's document declares: if the agent
  has an effective manifest at all, it grants exactly those.\<close>

theorem loaded_effective_is_declared:
  assumes l: "build_loaded realpath float_of docs aliases workspace output = Some (Inr l)"
    and s: "dict_get (lt_specs l) a = Some s" and t: "team_for l a = Inr t"
    and m: "effective_manifest realpath (t\<lparr>tm_revoked := gone\<rparr>) a = Inr m"
  shows "tools m = tools (as_manifest s) \<and> net_hosts m = net_hosts (as_manifest s) \<and>
    fs_read_roots m = fs_read_roots (as_manifest s) \<and> fs_write_roots m = fs_write_roots (as_manifest s)"
  using loaded_grants [OF assms] by (simp add: same_grants_def)

theorem loaded_effective_is_declared_witness:
  "\<exists>l t m. build_loaded id (\<lambda>_. Inr 0) demo_docs [] ''/w'' None = Some (Inr l) \<and> team_for l ''dev'' = Inr t \<and>
     effective_manifest id (t\<lparr>tm_revoked := {}\<rparr>) ''dev'' = Inr m \<and> (\<exists>s. dict_get (lt_specs l) ''dev'' = Some s \<and> tools m = tools (as_manifest s))"
proof -
  have "(case build_loaded id (\<lambda>_. Inr 0) demo_docs [] ''/w'' None of Some (Inr l) \<Rightarrow>
       (case team_for l ''dev'' of Inr t \<Rightarrow> \<not> isl (effective_manifest id (t\<lparr>tm_revoked := {}\<rparr>) ''dev'') \<and> dict_get (lt_specs l) ''dev'' \<noteq> None
        | Inl e \<Rightarrow> False) | _ \<Rightarrow> False)"
    by code_simp
  then obtain l t m s where "build_loaded id (\<lambda>_. Inr 0) demo_docs [] ''/w'' None = Some (Inr l)" "team_for l ''dev'' = Inr t"
      "effective_manifest id (t\<lparr>tm_revoked := {}\<rparr>) ''dev'' = Inr m" "dict_get (lt_specs l) ''dev'' = Some s"
    by (auto simp: isl_def split: option.splits sum.splits) (metis sum.exhaust)
  with loaded_effective_is_declared [OF this(1) this(4) this(2) this(3)] show ?thesis by blast
qed

end
