(* ===== verification/Teams.thy ===== *)
theory Teams
  imports Steps Topology Recovery
begin

text \<open>
  Running a team (second half of \<open>scr/team.py\<close>): the runner, the \<open>delegate\<close> tool with its policies, mailbox
  deliveries, the ledger-derived summary, team recovery and the mailbox check. A runner's own mutable state, the
  policy state of every run and the progress messages are a record around the world \<open>'x\<close> of the adapters and
  tools; the policy state of a run is found by the run's session. What other threads do, setting the cancel flag
  and revoking agents, is read from \<open>'x\<close> each time the code reads it. Fresh ids and the clock come from
  \<open>'x\<close> too. Building an adapter and a tool table does not raise.
\<close>

record policy_state =
  ps_count :: "(string \<times> nat) list"
  ps_completed :: "string list"
  ps_denied :: "(string \<times> string) list"

definition new_policy_state :: policy_state where
  "new_policy_state = \<lparr>ps_count = [], ps_completed = [], ps_denied = []\<rparr>"

record 'x team_world =
  tw_sessions :: "(string \<times> string) list"
  tw_last_team :: "string option"
  tw_policy :: "(string \<times> policy_state) list"
  tw_log :: "string list"
  tw_env :: 'x

record 'x team_runner =
  tn_loaded :: loaded_team
  tn_adapter :: "string \<Rightarrow> message list \<Rightarrow> tool_def list \<Rightarrow> 'x \<Rightarrow> (py_exn + model_response) \<times> 'x"
  tn_tools :: "manifest \<Rightarrow> (string \<times> 'x tool_spec) list"
  tn_policy :: "policy option"
  tn_search :: "string \<Rightarrow> string \<Rightarrow> bool"
  tn_max_depth :: nat
  tn_provenance :: dict
  tn_cancelled :: "'x \<Rightarrow> bool \<times> 'x"
  tn_revoked :: "'x \<Rightarrow> string set \<times> 'x"
  tn_uuid :: "'x \<Rightarrow> string \<times> 'x"
  tn_time :: "'x \<Rightarrow> int \<times> 'x"
  tn_monotonic :: "'x \<Rightarrow> int \<times> 'x"
  tn_sleep :: "int \<Rightarrow> 'x \<Rightarrow> 'x"
  tn_realpath :: "string \<Rightarrow> string"

definition on_event :: "string \<Rightarrow> 'x team_world \<Rightarrow> 'x team_world" where
  "on_event msg w = w\<lparr>tw_log := tw_log w @ [msg]\<rparr>"

definition lift_env :: "('x \<Rightarrow> 'a \<times> 'x) \<Rightarrow> 'x team_world \<Rightarrow> 'a \<times> 'x team_world" where
  "lift_env f w = (case f (tw_env w) of (a, x) \<Rightarrow> (a, w\<lparr>tw_env := x\<rparr>))"

definition lift_tool :: "'x tool_spec \<Rightarrow> 'x team_world tool_spec" where
  "lift_tool t = \<lparr>ts_name = ts_name t,
     ts_fn = (\<lambda>args (st, w). case ts_fn t args (st, tw_env w) of (r, st', x) \<Rightarrow> (r, st', w\<lparr>tw_env := x\<rparr>)),
     ts_idempotent = ts_idempotent t, ts_description = ts_description t, ts_parameters = ts_parameters t,
     ts_parallel_safe = ts_parallel_safe t, ts_classification = ts_classification t\<rparr>"

definition policy_state_of :: "'x team_world \<Rightarrow> string \<Rightarrow> policy_state" where
  "policy_state_of w sid = (case dict_get (tw_policy w) sid of None \<Rightarrow> new_policy_state | Some s \<Rightarrow> s)"

definition set_policy_state :: "string \<Rightarrow> policy_state \<Rightarrow> 'x team_world \<Rightarrow> 'x team_world" where
  "set_policy_state sid s w = w\<lparr>tw_policy := dict_set sid s (tw_policy w)\<rparr>"

definition runner_revoke :: "'x team_runner \<Rightarrow> string \<Rightarrow> py_exn + 'x team_runner" where
  "runner_revoke tn agent =
     (case dict_get (lt_team_of (tn_loaded tn)) agent of
        None \<Rightarrow> Inl (team_load_error (py_repr agent @ '' belongs to no loaded team''))
      | Some rt \<Rightarrow>
          (case dict_get (lt_teams (tn_loaded tn)) rt of
             None \<Rightarrow> Inl (mk_exn ''KeyError'' (py_repr rt))
           | Some t \<Rightarrow> Inr (tn\<lparr>tn_loaded := (tn_loaded tn)\<lparr>lt_teams := dict_set rt (revoke t agent) (lt_teams (tn_loaded tn))\<rparr>\<rparr>)))"

subsection \<open>Texts and hashes\<close>

definition str_arr :: "string list \<Rightarrow> json" where
  "str_arr xs = JArr (map JStr xs)"

definition eff_hash :: "manifest \<Rightarrow> string" where
  "eff_hash m =
     sha256_hex (encode (canonical (JObj
       [(''tools'', str_arr (sorted_list_of_set (tools m))), (''read'', str_arr (sorted_strs (fs_read_roots m))),
        (''write'', str_arr (sorted_strs (fs_write_roots m))), (''net'', str_arr (sorted_list_of_set (net_hosts m))),
        (''exec'', JArr (map (\<lambda>r. str_arr [binary r, arg_pattern r]) (sort_key binary (sort_key arg_pattern (exec_rules m))))),
        (''ceiling'', JStr (classification_ceiling m))])))"

definition newline :: string where "newline = [CHR 0x0A]"

definition fmt_items :: "string list \<Rightarrow> string" where
  "fmt_items xs = (if xs \<noteq> [] then join '', '' xs else ''(none)'')"

definition caps_context :: "manifest \<Rightarrow> string" where
  "caps_context m =
     ''[capability grant - authoritative, from your signed manifest]'' @ newline @
     ''tools: '' @ fmt_items (sorted_list_of_set (tools m)) @ newline @
     ''readable roots: '' @ fmt_items (sorted_strs (fs_read_roots m)) @ newline @
     ''writable roots: '' @ fmt_items (sorted_strs (fs_write_roots m)) @ newline @
     ''network hosts: '' @ fmt_items (sorted_list_of_set (net_hosts m)) @ newline @
     ''Anything outside these grants is denied. Use these exact root paths '' @
     ''in fs_list/fs_read - do not guess other paths.''"

subsection \<open>The summary\<close>

record facts =
  fc_delegations :: "string list"
  fc_files :: "string list"
  fc_tools :: "(string \<times> nat) list"
  fc_denials :: "string list"
  fc_policy :: "string list"
  fc_empty :: nat

definition bump :: "string \<Rightarrow> (string \<times> nat) list \<Rightarrow> (string \<times> nat) list" where
  "bump k d = dict_set k (Suc (case dict_get d k of None \<Rightarrow> 0 | Some n \<Rightarrow> n)) d"

definition shown :: "dict \<Rightarrow> string \<Rightarrow> string" where
  "shown e key = py_str (get_or_null e key)"

definition shown_or :: "string \<Rightarrow> dict \<Rightarrow> string \<Rightarrow> string" where
  "shown_or d e key = (case dict_get e key of None \<Rightarrow> d | Some j \<Rightarrow> py_str j)"

definition cut_text :: "nat \<Rightarrow> dict \<Rightarrow> string \<Rightarrow> py_exn + string" where
  "cut_text n e key = (case dict_get e key of None \<Rightarrow> Inr [] | Some (JStr s) \<Rightarrow> Inr (take n s) | Some _ \<Rightarrow> Inl type_error)"

definition fact_event :: "dict \<Rightarrow> facts \<Rightarrow> py_exn + facts" where
  "fact_event e f =
     (let t = get_or_null e ''type'' in
      if t = JStr ''delegate'' then
        Inr (f\<lparr>fc_delegations := fc_delegations f @ [shown e ''parent'' @ '' -> '' @ shown e ''child'']\<rparr>)
      else if t = JStr ''tool_exec'' then
        Inr (f\<lparr>fc_tools := bump (shown_or ''?'' e ''tool'') (fc_tools f),
               fc_files := (if truthy (get_or_null e ''path'') then fc_files f @ [shown e ''path''] else fc_files f)\<rparr>)
      else if t = JStr ''tool_error'' then
        rbind (cut_text 60 e ''detail'') (\<lambda>d.
          Inr (f\<lparr>fc_denials := fc_denials f @ [shown e ''tool'' @ '' ERROR['' @ shown e ''class'' @ '']: '' @ d]\<rparr>))
      else if t = JStr ''cap_denied'' then
        rbind (cut_text 80 e ''reason'') (\<lambda>d.
          Inr (f\<lparr>fc_denials := fc_denials f @ [shown e ''tool'' @ '': '' @ d]\<rparr>))
      else if t = JStr ''policy'' then
        Inr (f\<lparr>fc_empty := (if dict_get e ''decision'' = Some (JStr ''not_counted'') then Suc (fc_empty f) else fc_empty f),
               fc_policy := fc_policy f @ [shown_or ''?'' e ''rule'' @ '': '' @ shown_or ''?'' e ''decision'' @ '' ('' @
                 (if truthy (get_or_null e ''child'') then shown e ''child''
                  else if truthy (get_or_null e ''agent'') then shown e ''agent'' else []) @ '')'']\<rparr>)
      else Inr f)"

fun fact_rows :: "ledger_row list \<Rightarrow> facts \<Rightarrow> py_exn + facts" where
  "fact_rows [] f = Inr f"
| "fact_rows (r # rs) f =
     (case loads (lr_event r) of
        None \<Rightarrow> Inl (mk_exn ''JSONDecodeError'' ''ledger event'')
      | Some (JObj e) \<Rightarrow> rbind (fact_event e f) (fact_rows rs)
      | Some _ \<Rightarrow> Inl (mk_exn ''AttributeError'' ''object has no attribute get''))"

definition team_facts :: "store \<Rightarrow> string \<Rightarrow> py_exn + (string \<times> nat) list \<times> facts" where
  "team_facts st tid =
     (let members = team_members st tid in
      rbind (fact_rows (concat (map (\<lambda>m. ledger_rows st (tm_session m)) members))
               \<lparr>fc_delegations = [], fc_files = [], fc_tools = [], fc_denials = [], fc_policy = [], fc_empty = 0\<rparr>)
        (\<lambda>f. Inr (fold (\<lambda>m. bump (tm_agent m)) members [], f)))"

definition counted :: "(string \<times> nat) list \<Rightarrow> string" where
  "counted d = join '', '' (map (\<lambda>(k, n). k @ '' x'' @ nat_str n) (sort_key fst d))"

definition or_none :: "string \<Rightarrow> string" where
  "or_none s = (if s = [] then ''(none)'' else s)"

definition rule_line :: string where "rule_line = replicate 68 (CHR ''='')"

definition render_facts :: "(string \<times> nat) list \<Rightarrow> facts \<Rightarrow> string" where
  "render_facts agents f =
     (let files = sorted_strs (remdups (fc_files f)) in
      join newline
        ([rule_line, ''RUNTIME EXECUTION SUMMARY (ledger-derived; generated by SCR, not the model)'', rule_line,
          ''agents invoked: '' @ counted agents,
          ''delegations ('' @ nat_str (length (fc_delegations f)) @ ''): '' @ or_none (join ''; '' (fc_delegations f)),
          ''tool executions: '' @ or_none (counted (fc_tools f))] @
         (if files \<noteq> [] then
            (''files touched ('' @ nat_str (length files) @ ''):'' @
              (if length files > 20 then '' (+'' @ nat_str (length files - 20) @ '' more)'' else [])) #
            map (\<lambda>x. ''  '' @ x) (take 20 files)
          else [''files touched: NONE - no filesystem path was actually read'']) @
         [''denials / tool errors ('' @ nat_str (length (fc_denials f)) @ ''): '' @ or_none (join ''; '' (take 10 (fc_denials f)))] @
         (if fc_empty f \<noteq> 0 then [''empty child returns not counted as completed: '' @ nat_str (fc_empty f)] else []) @
         [''policy decisions ('' @ nat_str (length (fc_policy f)) @ ''): '' @ or_none (join ''; '' (take 15 (fc_policy f))),
          ''Any claim in the report above that conflicts with these facts is unsupported by the ledger.'']))"

definition team_execution_summary :: "store \<Rightarrow> string \<Rightarrow> py_exn + string" where
  "team_execution_summary st tid = rbind (team_facts st tid) (\<lambda>(agents, f). Inr (render_facts agents f))"

subsection \<open>The delegate tool\<close>

definition deliver :: "string \<Rightarrow> string \<Rightarrow> string \<Rightarrow> string \<Rightarrow> string \<Rightarrow> string \<Rightarrow> store \<Rightarrow> store" where
  "deliver tid sid frm to body direction st =
     note_event sid [(''type'', JStr ''mailbox''), (''from'', JStr frm), (''to'', JStr to), (''direction'', JStr direction),
       (''body_sha256'', JStr (sha256_hex (encode body)))] (mailbox_send st tid frm to body)"

definition policy_event :: "string \<Rightarrow> string \<Rightarrow> string \<Rightarrow> string \<Rightarrow> string \<Rightarrow> string \<Rightarrow> store \<Rightarrow> store" where
  "policy_event sid parent child rule decision reason st =
     note_event sid [(''type'', JStr ''policy''), (''parent'', JStr parent), (''child'', JStr child), (''rule'', JStr rule),
       (''decision'', JStr decision), (''reason'', JStr reason)] st"

definition denied_event :: "string \<Rightarrow> string \<Rightarrow> string \<Rightarrow> string \<Rightarrow> store \<Rightarrow> store" where
  "denied_event sid parent child reason st =
     note_event sid [(''type'', JStr ''delegate_denied''), (''parent'', JStr parent), (''child'', JStr child), (''reason'', JStr reason)] st"

fun count_calls :: "ledger_row list \<Rightarrow> nat \<Rightarrow> nat \<Rightarrow> py_exn + bool" where
  "count_calls [] d x = Inr (d > 0 \<and> x = 0)"
| "count_calls (r # rs) d x =
     (case loads (lr_event r) of
        None \<Rightarrow> count_calls rs d x
      | Some (JObj e) \<Rightarrow>
          if dict_get e ''type'' = Some (JStr ''cap_denied'') then count_calls rs (Suc d) x
          else if dict_get e ''type'' = Some (JStr ''tool_exec'') then count_calls rs d (Suc x)
          else count_calls rs d x
      | Some _ \<Rightarrow> Inl (mk_exn ''AttributeError'' ''object has no attribute get''))"

definition child_all_denied :: "store \<Rightarrow> string \<Rightarrow> py_exn + bool" where
  "child_all_denied st sid = count_calls (ledger_rows st sid) 0 0"

text \<open>\<open>max_per is not None and count >= int(max_per)\<close>.\<close>

definition over_limit :: "dict \<Rightarrow> nat \<Rightarrow> py_exn + bool" where
  "over_limit pol n =
     (case get_or_null pol ''max_delegations_per_child'' of
        JNull \<Rightarrow> Inr False
      | j \<Rightarrow> rbind (token_int (Some j)) (\<lambda>m. Inr (int n \<ge> m)))"

definition count_of :: "policy_state \<Rightarrow> string \<Rightarrow> nat" where
  "count_of s child = (case dict_get (ps_count s) child of None \<Rightarrow> 0 | Some n \<Rightarrow> n)"

text \<open>What follows once the child's run has returned.\<close>

definition child_text :: "string \<Rightarrow> run_result \<Rightarrow> string" where
  "child_text child r =
     (if rr_final_text r = [] \<and> rr_stopped r \<noteq> ''completed''
      then ''CHILD STOPPED ['' @ rr_stopped r @ '']: '' @ py_repr child @ '' ended without a result'' else rr_final_text r)"

definition child_returned ::
  "string \<Rightarrow> string \<Rightarrow> string \<Rightarrow> dict \<Rightarrow> string \<times> string \<Rightarrow> run_result \<Rightarrow> store \<times> 'x team_world \<Rightarrow>
     (py_exn + string) \<times> store \<times> 'x team_world" where
  "child_returned tid psid parent pol task_key r s =
     (case s of (st, w) \<Rightarrow>
      (let child = fst task_key; msg = child_text child r; s0 = policy_state_of w psid;
           s1 = s0\<lparr>ps_count := bump child (ps_count s0)\<rparr>; w1 = set_policy_state psid s1 w in
       case child_all_denied st (rr_session r) of
         Inl e \<Rightarrow> (Inl e, st, w1)
       | Inr all_denied \<Rightarrow>
           (case (if all_denied then
                    (policy_event psid parent child ''no_redelegate_after_denial'' ''marked_denied''
                       ''child run ended with all tool calls denied'' st,
                     on_event (''  ! '' @ child @ '' run was all-denied (fs/tool access)'')
                       (set_policy_state psid (s1\<lparr>ps_denied := task_key # ps_denied s1\<rparr>) w1))
                  else if truthy (get_or_null pol ''require_nonempty_result'') \<and> strip msg = [] then
                    (policy_event psid parent child ''require_nonempty_result'' ''not_counted''
                       ''child completed but returned an empty result'' st,
                     on_event (''  ! '' @ child @ '' returned empty - not counted as completed'') w1)
                  else
                    (policy_event psid parent child ''required_children'' ''completed'' ''child completed'' st,
                     set_policy_state psid (s1\<lparr>ps_completed := child # ps_completed s1\<rparr>) w1)) of
              (st2, w2) \<Rightarrow>
                (Inr msg, deliver tid psid child parent msg ''result'' st2,
                 on_event (''  <- '' @ child @ '' returned ('' @ nat_str (length msg) @ '' chars)'') w2))))"

type_synonym 'x agent_run =
  "string \<Rightarrow> string \<Rightarrow> string \<Rightarrow> string \<Rightarrow> nat \<Rightarrow> store \<times> 'x team_world \<Rightarrow> (py_exn + run_result) \<times> store \<times> 'x team_world"

text \<open>The delegation itself, after every check has passed.\<close>

definition delegate_now ::
  "'x agent_run \<Rightarrow> string \<Rightarrow> string \<Rightarrow> string \<Rightarrow> nat \<Rightarrow> dict \<Rightarrow> string \<Rightarrow> string \<Rightarrow> manifest \<Rightarrow> store \<times> 'x team_world \<Rightarrow>
     (py_exn + string) \<times> store \<times> 'x team_world" where
  "delegate_now run_child tid psid parent depth pol child subtask eff s =
     (case s of (st, w) \<Rightarrow>
      (let st1 = note_event psid [(''type'', JStr ''delegate''), (''parent'', JStr parent), (''child'', JStr child),
             (''team_id'', JStr tid), (''eff_cap_sha256'', JStr (eff_hash eff)), (''depth'', JInt (int (depth + 1)))] st;
           w1 = on_event (''  -> '' @ parent @ '' delegates to '' @ child @ '': '' @ take 70 subtask) w;
           st2 = deliver tid psid parent child subtask ''task'' st1 in
       case run_child child subtask tid psid (depth + 1) (st2, w1) of
         (Inl e, s3) \<Rightarrow> (Inl e, s3)
       | (Inr r, s3) \<Rightarrow> child_returned tid psid parent pol (child, sha256_hex (encode subtask)) r s3))"

definition delegate_fn ::
  "'x team_runner \<Rightarrow> 'x agent_run \<Rightarrow> string \<Rightarrow> string \<Rightarrow> nat \<Rightarrow> string \<Rightarrow> dict \<Rightarrow> team \<Rightarrow> dict \<Rightarrow> store \<times> 'x team_world \<Rightarrow>
     (py_exn + string) \<times> store \<times> 'x team_world" where
  "delegate_fn tn run_child parent tid depth psid pol team args s =
     (case s of (st, w) \<Rightarrow>
      (case lift_env (tn_cancelled tn) w of (cancelled, w0) \<Rightarrow>
       if cancelled then (Inr ''CANCELLED: team run cancelled; no further delegation'', st, w0)
       else
         (let child = shown_or [] args ''agent''; subtask = shown_or [] args ''task'';
              allowed = kids (tm_edges team) parent; task_key = (child, sha256_hex (encode subtask));
              state = policy_state_of w0 psid in
          if child \<notin> set allowed then
            (Inr (''DENIED: '' @ py_repr child @ '' is not a delegate of '' @ py_repr parent @ ''. Available: '' @ repr_str_list allowed),
             denied_event psid parent child ''not_a_delegate'' st, w0)
          else if depth + 1 > tn_max_depth tn then
            (Inr (''DENIED: delegation depth limit ('' @ nat_str (tn_max_depth tn) @ '') reached''),
             denied_event psid parent child ''depth_limit'' st, w0)
          else if truthy (get_or_null pol ''no_redelegate_after_denial'') \<and> task_key \<in> set (ps_denied state) then
            (Inr (''DENIED by policy: '' @ py_repr child @ '' already ran this task and every tool call was denied; '' @
                  ''retrying will not help. Adjust the task or the capability grant, or proceed without it.''),
             policy_event psid parent child ''no_redelegate_after_denial'' ''denied''
               ''child previously failed this exact task (all tool calls denied)'' st,
             on_event (''  x policy: '' @ child @ '' not re-delegated (prior all-denied)'') w0)
          else
            (case over_limit pol (count_of state child) of
               Inl e \<Rightarrow> (Inl e, st, w0)
             | Inr True \<Rightarrow>
                 (let lim = shown pol ''max_delegations_per_child'' in
                  (Inr (''DENIED by policy: max '' @ lim @ '' delegations to '' @ py_repr child @ '' reached''),
                   policy_event psid parent child ''max_delegations_per_child'' ''denied''
                     (''max '' @ lim @ '' delegations to '' @ child @ '' reached'') st,
                   on_event (''  x policy: max delegations to '' @ child @ '' reached'') w0))
             | Inr False \<Rightarrow>
                 (case lift_env (tn_revoked tn) w0 of (gone, w1) \<Rightarrow>
                    (case effective_manifest (tn_realpath tn) (team\<lparr>tm_revoked := tm_revoked team \<union> gone\<rparr>) child of
                       Inl e \<Rightarrow>
                         if isinstance e ''DelegationError'' then
                           (Inr (''DENIED: delegation to '' @ py_repr child @ '' refused - '' @ exn_msg e),
                            denied_event psid parent child (''severed: '' @ exn_msg e) st, w1)
                         else (Inl e, st, w1)
                     | Inr eff \<Rightarrow> delegate_now run_child tid psid parent depth pol child subtask eff (st, w1)))))))"

definition delegate_tool ::
  "'x team_runner \<Rightarrow> 'x agent_run \<Rightarrow> string \<Rightarrow> string \<Rightarrow> nat \<Rightarrow> string \<Rightarrow> dict \<Rightarrow> team \<Rightarrow> 'x team_world tool_spec" where
  "delegate_tool tn run_child parent tid depth psid pol team =
     \<lparr>ts_name = ''delegate'', ts_fn = delegate_fn tn run_child parent tid depth psid pol team, ts_idempotent = False,
      ts_description = ''Delegate a subtask to a named team member; returns their result.'',
      ts_parameters = [(''type'', JStr ''object''), (''properties'', JObj [(''agent'', JObj [(''type'', JStr ''string'')]),
        (''task'', JObj [(''type'', JStr ''string'')])]), (''required'', JArr [JStr ''agent'', JStr ''task''])],
      ts_parallel_safe = False, ts_classification = ''public''\<rparr>"

subsection \<open>Running an agent\<close>

definition finalize_guard :: "json list \<Rightarrow> string \<Rightarrow> string \<Rightarrow> store \<times> 'x team_world \<Rightarrow> string option" where
  "finalize_guard required psid sid s =
     (let missing = filter (\<lambda>c. c \<notin> JStr ` set (ps_completed (policy_state_of (snd s) psid))) required in
      if missing \<noteq> []
      then Some (''POLICY: cannot finalize yet - required team members have not completed successfully: '' @ py_repr_json (JArr missing) @
             ''. Delegate the task to each of them (use the delegate tool) before finalizing.'')
      else None)"

text \<open>\<open>{..., **extra}\<close>.\<close>

definition merge :: "dict \<Rightarrow> dict \<Rightarrow> dict" where
  "merge d extra = fold (\<lambda>(k, v). dict_set k v) extra d"

definition granted :: "team \<Rightarrow> string \<Rightarrow> manifest \<Rightarrow> manifest" where
  "granted team entry eff =
     (if kids (tm_edges team) entry \<noteq> [] then eff\<lparr>tools := insert ''delegate'' (tools eff)\<rparr> else eff)"

definition agent_prompt :: "agent_spec \<Rightarrow> manifest \<Rightarrow> string" where
  "agent_prompt spec eff' = as_prompt spec @ newline @ newline @ caps_context eff'"

definition agent_kernel ::
  "'x team_runner \<Rightarrow> 'x agent_run \<Rightarrow> string \<Rightarrow> agent_spec \<Rightarrow> team \<Rightarrow> manifest \<Rightarrow> string \<Rightarrow> nat \<Rightarrow> string \<Rightarrow> json list \<Rightarrow>
     'x team_world kernel" where
  "agent_kernel tn run_child entry spec team eff tid depth sid required =
     (let tls = map (\<lambda>(n, t). (n, lift_tool t)) (tn_tools tn eff) in
      \<lparr>k_complete = (\<lambda>msgs tds. lift_env (tn_adapter tn entry msgs tds)),
       k_tools = (if kids (tm_edges team) entry \<noteq> []
                  then dict_set ''delegate'' (delegate_tool tn run_child entry tid depth sid (as_policy spec) team) tls else tls),
       k_manifest = granted team entry eff, k_guards = default_guards,
       k_system_prompt = agent_prompt spec (granted team entry eff),
       k_policy = tn_policy tn, k_search = tn_search tn,
       k_cancel_check = Some (lift_env (tn_cancelled tn)),
       k_finalize_guard = (if required \<noteq> [] then Some (finalize_guard required sid) else None),
       k_monotonic = lift_env (tn_monotonic tn), k_sleep = (\<lambda>d w. w\<lparr>tw_env := tn_sleep tn d (tw_env w)\<rparr>)\<rparr>)"

text \<open>The records a run writes before its first turn.\<close>

definition open_records :: "'x team_runner \<Rightarrow> string \<Rightarrow> agent_spec \<Rightarrow> manifest \<Rightarrow> string \<Rightarrow> nat \<Rightarrow> string \<Rightarrow> store \<Rightarrow> store" where
  "open_records tn entry spec eff' prompt depth sid st =
     (let st1 = (if depth = 0 \<and> tn_provenance tn \<noteq> [] then note_event sid (merge [(''type'', JStr ''provenance'')] (tn_provenance tn)) st else st);
          st2 = (if as_policy spec \<noteq> [] then
                   note_event sid (merge [(''type'', JStr ''policy_declared''), (''agent'', JStr entry)] (as_policy spec)) st1 else st1) in
      note_event sid [(''type'', JStr ''grant_context''), (''agent'', JStr entry), (''eff_cap_sha256'', JStr (eff_hash eff')),
        (''grant_block_sha256'', JStr (sha256_hex (encode (caps_context eff')))),
        (''system_prompt_sha256'', JStr (sha256_hex (encode prompt)))] st2)"

definition finish_run :: "string \<Rightarrow> nat \<Rightarrow> string \<Rightarrow> (py_exn + run_result) \<times> store \<times> 'x team_world \<Rightarrow>
     (py_exn + run_result) \<times> store \<times> 'x team_world" where
  "finish_run tid depth sid x =
     (case x of
        (Inl e, s) \<Rightarrow> (Inl e, s)
      | (Inr r, (st, w)) \<Rightarrow>
          if depth = 0 then
            (case team_execution_summary st tid of
               Inl e \<Rightarrow> (Inl e, st, w)
             | Inr summary \<Rightarrow> (Inr (r\<lparr>rr_session := sid, rr_final_text := rstrip (rr_final_text r) @ newline @ newline @ summary\<rparr>), st, w))
          else (Inr (r\<lparr>rr_session := sid\<rparr>), st, w))"

definition run_agent ::
  "'x team_runner \<Rightarrow> 'x agent_run \<Rightarrow> string \<Rightarrow> string \<Rightarrow> string \<Rightarrow> string option \<Rightarrow> nat \<Rightarrow> store \<times> 'x team_world \<Rightarrow>
     (py_exn + run_result) \<times> store \<times> 'x team_world" where
  "run_agent tn run_child entry_name task tid parent depth s =
     (case s of (st, w) \<Rightarrow>
      (case rbind (entry_for (tn_loaded tn) entry_name) (\<lambda>entry. rbind (team_for (tn_loaded tn) entry) (\<lambda>team. Inr (entry, team))) of
         Inl e \<Rightarrow> (Inl e, st, w)
       | Inr (entry, team) \<Rightarrow>
           (let w1 = (if depth = 0 then on_event (''> team run: '' @ entry_name @ '' (orchestrator '' @ entry @ '')'') (w\<lparr>tw_last_team := Some tid\<rparr>)
                      else w) in
            case lift_env (tn_revoked tn) w1 of (gone, w2) \<Rightarrow>
            (case effective_manifest (tn_realpath tn) (team\<lparr>tm_revoked := tm_revoked team \<union> gone\<rparr>) entry of
               Inl e \<Rightarrow> (Inl e, st, w2)
             | Inr eff \<Rightarrow>
                 (case lift_env (tn_uuid tn) w2 of (fresh, w3) \<Rightarrow>
                  (case create_session st None fresh of
                     Inl e \<Rightarrow> (Inl e, st, w3)
                   | Inr (sid, st1) \<Rightarrow>
                       (case lift_env (tn_time tn) w3 of (now, w4) \<Rightarrow>
                        (let st2 = team_session_add st1 now tid sid entry parent depth;
                             w5 = set_policy_state sid new_policy_state (w4\<lparr>tw_sessions := dict_set entry sid (tw_sessions w4)\<rparr>) in
                         case spec_of (lt_specs (tn_loaded tn)) entry of
                           Inl e \<Rightarrow> (Inl e, st2, w5)
                         | Inr spec \<Rightarrow>
                             (let eff' = granted team entry eff;
                                  st3 = open_records tn entry spec eff' (agent_prompt spec eff') depth sid st2 in
                              case items_in (as_policy spec) ''required_children'' of
                                Inl e \<Rightarrow> (Inl e, st3, w5)
                              | Inr required \<Rightarrow>
                                  finish_run tid depth sid
                                    (kernel_run (agent_kernel tn run_child entry spec team eff tid depth sid required) sid task (st3, w5)))))))))))"

text \<open>
  Nested runs. The first argument counts the levels of delegation that are left; the depth check of the
  \<open>delegate\<close> tool refuses before the last line can be reached, as \<open>levels_enough\<close> shows.
\<close>

fun run_levels :: "'x team_runner \<Rightarrow> nat \<Rightarrow> string \<Rightarrow> string \<Rightarrow> string \<Rightarrow> string option \<Rightarrow> nat \<Rightarrow> store \<times> 'x team_world \<Rightarrow>
     (py_exn + run_result) \<times> store \<times> 'x team_world" where
  "run_levels tn 0 = run_agent tn (\<lambda>child task tid psid depth s. (Inl (mk_exn ''RecursionError'' ''unreachable''), s))"
| "run_levels tn (Suc n) = run_agent tn (\<lambda>child task tid psid depth s. run_levels tn n child task tid (Some psid) depth s)"

definition team_run ::
  "'x team_runner \<Rightarrow> string \<Rightarrow> string \<Rightarrow> string option \<Rightarrow> string option \<Rightarrow> nat \<Rightarrow> store \<times> 'x team_world \<Rightarrow>
     (py_exn + run_result) \<times> store \<times> 'x team_world" where
  "team_run tn entry_name task team_id parent depth s =
     (case team_id of
        Some (c # cs) \<Rightarrow> run_levels tn (tn_max_depth tn - depth) entry_name task (c # cs) parent depth s
      | _ \<Rightarrow>
          (case rbind (entry_for (tn_loaded tn) entry_name) (team_for (tn_loaded tn)) of
             Inl e \<Rightarrow> (Inl e, s)
           | Inr _ \<Rightarrow>
               (case lift_env (tn_uuid tn) (snd s) of (tid, w) \<Rightarrow>
                  run_levels tn (tn_max_depth tn - depth) entry_name task tid parent depth (fst s, w))))"

subsection \<open>Recovery and the mailbox\<close>

record member_recovery =
  rv_agent :: string
  rv_session :: string
  rv_depth :: nat
  rv_status :: string
  rv_detail :: string

fun recover_members :: "team_row list \<Rightarrow> store \<Rightarrow> (py_exn + member_recovery list) \<times> store" where
  "recover_members [] st = (Inr [], st)"
| "recover_members (m # ms) st =
     (case recover (tm_session m) st of
        (Inl e, st1) \<Rightarrow> (Inl e, st1)
      | (Inr rep, st1) \<Rightarrow>
          (case recover_members ms st1 of
             (Inl e, st2) \<Rightarrow> (Inl e, st2)
           | (Inr reps, st2) \<Rightarrow>
               (Inr (\<lparr>rv_agent = tm_agent m, rv_session = tm_session m, rv_depth = tm_depth m, rv_status = rc_status rep,
                      rv_detail = rc_detail rep\<rparr> # reps), st2)))"

definition team_recover :: "store \<Rightarrow> string \<Rightarrow> (py_exn + member_recovery list) \<times> store" where
  "team_recover st tid = recover_members (team_members st tid) st"

fun ledgered_hashes :: "ledger_row list \<Rightarrow> py_exn + json list" where
  "ledgered_hashes [] = Inr []"
| "ledgered_hashes (r # rs) =
     (case loads (lr_event r) of
        None \<Rightarrow> ledgered_hashes rs
      | Some (JObj e) \<Rightarrow>
          if dict_get e ''type'' = Some (JStr ''mailbox'') then
            (case dict_get e ''body_sha256'' of
               None \<Rightarrow> Inl (mk_exn ''KeyError'' (py_repr ''body_sha256''))
             | Some h \<Rightarrow> rbind (ledgered_hashes rs) (\<lambda>hs. Inr (h # hs)))
          else ledgered_hashes rs
      | Some _ \<Rightarrow> Inl (mk_exn ''AttributeError'' ''object has no attribute get''))"

definition mail_hashes :: "store \<Rightarrow> string \<Rightarrow> string list" where
  "mail_hashes st tid = map (\<lambda>r. sha256_hex (encode (ml_body r))) (filter (\<lambda>r. ml_session r = tid) (mailbox st))"

text \<open>Sorting hashes that are not all strings raises.\<close>

definition verify_team_mailbox :: "store \<Rightarrow> string \<Rightarrow> py_exn + bool \<times> string list" where
  "verify_team_mailbox st tid =
     rbind (rbind (ledgered_hashes (concat (map (\<lambda>m. ledger_rows st (tm_session m)) (team_members st tid)))) (traverse as_str))
       (\<lambda>ledgered.
          let problems = (if sorted_strs (mail_hashes st tid) \<noteq> sorted_strs ledgered
                then [''mailbox integrity violation: stored messages do not match ledgered delivery hashes (tamper or loss)''] else [])
          in Inr (problems = [], problems))"

end
