(* ===== verification/TeamRuns.thy ===== *)
theory TeamRuns
  imports Teams "HOL-Library.Multiset"
begin

text \<open>
  Properties of team runs (\<open>scr/team.py\<close>). One relation, \<open>reaches\<close>, says what a part of a team run may do to
  the store and to the policy states: only append, only to the sessions it owns or creates, only justified execution
  intents, and one ledgered hash per delivered message. Every kernel step of an agent keeps it, given that nested
  runs keep it, and so every run does, by induction on the levels of delegation.
\<close>

subsection \<open>What a part of a run may do\<close>

definition ids :: "store \<Rightarrow> string set" where
  "ids st = ses_id ` set (sessions st)"

definition closed :: "store \<Rightarrow> bool" where
  "closed st \<longleftrightarrow> tm_session ` set (team_sessions st) \<subseteq> ids st \<and> lr_session ` set (ledger st) \<subseteq> ids st"

definition may_use :: "'x team_runner \<Rightarrow> string \<Rightarrow> string \<Rightarrow> bool" where
  "may_use tn a tool \<longleftrightarrow> (\<exists>team gone m. team_for (tn_loaded tn) a = Inr team \<and>
     effective_manifest (tn_realpath tn) (team\<lparr>tm_revoked := gone\<rparr>) a = Inr m \<and>
     (tool \<in> tools m \<or> tool = ''delegate'' \<and> kids (tm_edges team) a \<noteq> []))"

definition justified :: "'x team_runner \<Rightarrow> store \<Rightarrow> journal_row \<Rightarrow> bool" where
  "justified tn st r \<longleftrightarrow> (\<exists>row\<in>set (team_sessions st). tm_session row = jr_session r \<and>
     (\<exists>call idem q. jr_payload r = dumps_sorted (JObj (intent_payload (jr_session r) call idem q)) \<and> may_use tn (tm_agent row) (tc_name call)))"

text \<open>The hash a ledger row of type \<open>mailbox\<close> gives for the delivered message, if it has one.\<close>

definition mail_hash :: "ledger_row \<Rightarrow> json option option" where
  "mail_hash r =
     (case loads (lr_event r) of
        Some j \<Rightarrow> if jget j ''type'' = Some (JStr ''mailbox'') then Some (jget j ''body_sha256'') else None
      | None \<Rightarrow> None)"

definition body_hash :: "mail_row \<Rightarrow> json option" where
  "body_hash m = Some (JStr (sha256_hex (encode (ml_body m))))"

definition adds ::
  "'x team_runner \<Rightarrow> string \<Rightarrow> string set \<Rightarrow> store \<Rightarrow> store \<Rightarrow> journal_row list \<Rightarrow> ledger_row list \<Rightarrow> session_row list \<Rightarrow>
     team_row list \<Rightarrow> mail_row list \<Rightarrow> bool" where
  "adds tn tid A st st' J L S T M \<longleftrightarrow>
     journal st' = journal st @ J \<and> ledger st' = ledger st @ L \<and> sessions st' = sessions st @ S \<and>
     team_sessions st' = team_sessions st @ T \<and> mailbox st' = mailbox st @ M \<and> seals st' = seals st \<and>
     (\<forall>r\<in>set J. jr_session r \<in> A \<union> ses_id ` set S \<and> (jr_state r = ''EXEC_INTENT'' \<longrightarrow> justified tn st' r)) \<and>
     (\<forall>r\<in>set L. lr_session r \<in> A \<union> ses_id ` set S) \<and> ses_id ` set S \<inter> ids st = {} \<and>
     (\<forall>t\<in>set T. tm_session t \<in> ses_id ` set S \<and> tm_team t = tid \<and> tm_depth t \<le> tn_max_depth tn) \<and> distinct (map tm_session T) \<and>
     (\<forall>m\<in>set M. ml_session m = tid) \<and> mset (map body_hash M) = mset (List.map_filter mail_hash L) \<and>
     (\<forall>r\<in>set L. mail_hash r \<noteq> None \<longrightarrow> lr_session r \<in> A \<union> tm_session ` set T)"

definition reaches :: "'x team_runner \<Rightarrow> string \<Rightarrow> string set \<Rightarrow> store \<times> 'x team_world \<Rightarrow> store \<times> 'x team_world \<Rightarrow> bool" where
  "reaches tn tid A s s' \<longleftrightarrow> (\<exists>J L S T M. adds tn tid A (fst s) (fst s') J L S T M) \<and>
     (store_ok (fst s) \<longrightarrow> store_ok (fst s')) \<and>
     (\<forall>x\<in>ids (fst s) - A. dict_get (tw_policy (snd s')) x = dict_get (tw_policy (snd s)) x)"

lemma justified_mono:
  "justified tn st r \<Longrightarrow> set (team_sessions st) \<subseteq> set (team_sessions st') \<Longrightarrow> justified tn st' r"
  unfolding justified_def by blast

lemma adds_trans:
  assumes 1: "adds tn tid A st1 st2 J1 L1 S1 T1 M1" and 2: "adds tn tid B st2 st3 J2 L2 S2 T2 M2"
    and sub: "\<forall>b\<in>B. b \<in> A \<or> b \<in> tm_session ` set T1"
  shows "adds tn tid A st1 st3 (J1 @ J2) (L1 @ L2) (S1 @ S2) (T1 @ T2) (M1 @ M2)"
proof -
  note d1 = 1 [unfolded adds_def] and d2 = 2 [unfolded adds_def]
  have ids2: "ids st2 = ids st1 \<union> ses_id ` set S1" using d1 by (auto simp: ids_def)
  have sub': "\<forall>b\<in>B. b \<in> A \<union> ses_id ` set S1" using sub d1 by auto
  have "justified tn st3 r" if "justified tn st2 r" for r
    by (rule justified_mono [OF that]) (use d2 in auto)
  moreover have "distinct (map tm_session (T1 @ T2))"
  proof -
    have "tm_session ` set T1 \<subseteq> ids st2" using d1 ids2 by auto
    moreover have "tm_session ` set T2 \<subseteq> ses_id ` set S2" "ses_id ` set S2 \<inter> ids st2 = {}" using d2 by auto
    moreover have "distinct (map tm_session T1)" "distinct (map tm_session T2)" using d1 d2 by blast+
    ultimately show ?thesis by auto
  qed
  moreover have "ses_id ` set (S1 @ S2) \<inter> ids st1 = {}" using d1 d2 ids2 by auto
  moreover have "mset (map body_hash (M1 @ M2)) = mset (List.map_filter mail_hash (L1 @ L2))"
    using d1 d2 by (simp add: map_filter_def)
  moreover have "\<forall>r\<in>set (L1 @ L2). mail_hash r \<noteq> None \<longrightarrow> lr_session r \<in> A \<union> tm_session ` set (T1 @ T2)"
    using d1 d2 sub by (auto 0 3)
  moreover have "\<forall>r\<in>set (L1 @ L2). lr_session r \<in> A \<union> ses_id ` set (S1 @ S2)"
    using d1 d2 sub' by (auto 0 3)
  moreover have "\<forall>r\<in>set (J1 @ J2). jr_session r \<in> A \<union> ses_id ` set (S1 @ S2)"
    using d1 d2 sub' by (auto 0 3)
  ultimately show ?thesis using d1 d2 unfolding adds_def by auto
qed

lemma reaches_trans:
  assumes "reaches tn tid A s1 s2" "reaches tn tid B s2 s3" "closed (fst s1)"
    and sub: "\<forall>b\<in>B. b \<in> A \<or> b \<notin> ids (fst s1) \<and> b \<in> tm_session ` set (team_sessions (fst s2))"
  shows "reaches tn tid A s1 s3"
proof -
  obtain J1 L1 S1 T1 M1 where 1: "adds tn tid A (fst s1) (fst s2) J1 L1 S1 T1 M1" using assms(1) by (auto simp: reaches_def)
  obtain J2 L2 S2 T2 M2 where 2: "adds tn tid B (fst s2) (fst s3) J2 L2 S2 T2 M2" using assms(2) by (auto simp: reaches_def)
  have "\<forall>b\<in>B. b \<in> A \<or> b \<in> tm_session ` set T1"
    using sub 1 assms(3) unfolding adds_def closed_def by (auto 0 3)
  note t = adds_trans [OF 1 2 this]
  have "ids (fst s1) \<subseteq> ids (fst s2)" using 1 by (auto simp: adds_def ids_def)
  then have "\<forall>x\<in>ids (fst s1) - A. dict_get (tw_policy (snd s3)) x = dict_get (tw_policy (snd s1)) x"
    using assms(1,2) sub unfolding reaches_def by (metis (no_types, lifting) Diff_iff subsetD)
  with t assms(1,2) show ?thesis unfolding reaches_def by blast
qed

lemma reaches_closed:
  assumes "reaches tn tid A s s'" "closed (fst s)" "A \<subseteq> ids (fst s)"
  shows "closed (fst s')" "ids (fst s) \<subseteq> ids (fst s')" "set (team_sessions (fst s)) \<subseteq> set (team_sessions (fst s'))"
    "set (ledger (fst s)) \<subseteq> set (ledger (fst s'))"
proof -
  obtain J L S T M where a: "adds tn tid A (fst s) (fst s') J L S T M" using assms(1) by (auto simp: reaches_def)
  then have i: "ids (fst s') = ids (fst s) \<union> ses_id ` set S" by (auto simp: adds_def ids_def)
  show "ids (fst s) \<subseteq> ids (fst s')" using i by blast
  show "closed (fst s')" using a assms(2,3) i unfolding adds_def closed_def by (auto 0 3)
  show "set (team_sessions (fst s)) \<subseteq> set (team_sessions (fst s'))" "set (ledger (fst s)) \<subseteq> set (ledger (fst s'))"
    using a by (auto simp: adds_def)
qed

subsection \<open>Primitive parts\<close>

lemma reachesI:
  "adds tn tid A st st' J L S T M \<Longrightarrow> (store_ok st \<Longrightarrow> store_ok st') \<Longrightarrow>
   (\<And>x. x \<in> ids st \<Longrightarrow> x \<notin> A \<Longrightarrow> dict_get (tw_policy w') x = dict_get (tw_policy w) x) \<Longrightarrow> reaches tn tid A (st, w) (st', w')"
  unfolding reaches_def fst_conv snd_conv by blast

lemma reaches_world:
  "(\<And>x. x \<in> ids st \<Longrightarrow> x \<notin> A \<Longrightarrow> dict_get (tw_policy w') x = dict_get (tw_policy w) x) \<Longrightarrow> reaches tn tid A (st, w) (st, w')"
  by (rule reachesI [of _ _ _ _ _ "[]" "[]" "[]" "[]" "[]"]) (simp_all add: adds_def map_filter_def)

lemma reaches_refl: "reaches tn tid A s s"
  by (cases s) (simp add: reaches_world)

lemma note_event_row:
  "\<exists>q h. ledger (note_event sid ev st) = ledger st @ [\<lparr>lr_session = sid, lr_seq = q, lr_event = canonical (JObj ev), lr_hash = h\<rparr>]"
  by (simp add: note_event_def ledger_append_def Let_def split: prod.splits)

lemma note_event_frame2 [simp]:
  "mailbox (note_event sid ev st) = mailbox st" "team_sessions (note_event sid ev st) = team_sessions st"
  by (simp_all add: note_event_def ledger_append_def Let_def split: prod.splits)

lemma note_journal_row:
  "\<exists>q. journal (note_journal sid s p st) = journal st @ [\<lparr>jr_session = sid, jr_seq = q, jr_state = s, jr_payload = dumps_sorted (JObj p)\<rparr>]"
  by (simp add: note_journal_def journal_append_def Let_def)

lemma note_journal_frame2 [simp]:
  "mailbox (note_journal sid s p st) = mailbox st" "team_sessions (note_journal sid s p st) = team_sessions st"
  by (simp_all add: note_journal_def)

lemma mail_hash_row:
  assumes "wf_json (JObj ev)"
  shows "mail_hash \<lparr>lr_session = sid, lr_seq = q, lr_event = canonical (JObj ev), lr_hash = h\<rparr> =
    (if dict_get ev ''type'' = Some (JStr ''mailbox'') then Some (map_option sort_json (dict_get ev ''body_sha256'')) else None)"
proof -
  have d: "distinct (map fst ev)" using assms by simp
  have leaf: "sort_json v = JStr x \<longleftrightarrow> v = JStr x" for v x by (cases v) (simp_all add: sort_json.simps)
  show ?thesis by (auto simp: mail_hash_def loads_canonical [OF assms] dict_get_sort_json [OF d] leaf)
qed

lemma reaches_event:
  assumes "event_legal ev" "dict_get ev ''type'' \<noteq> Some (JStr ''mailbox'')" "sid \<in> A"
  shows "reaches tn tid A (st, w) (note_event sid ev st, w)"
proof -
  obtain q h where r: "ledger (note_event sid ev st) = ledger st @ [\<lparr>lr_session = sid, lr_seq = q, lr_event = canonical (JObj ev), lr_hash = h\<rparr>]"
    using note_event_row by blast
  have wf: "wf_json (JObj ev)" using assms(1) by (simp add: event_legal_def)
  have "adds tn tid A st (note_event sid ev st) [] [\<lparr>lr_session = sid, lr_seq = q, lr_event = canonical (JObj ev), lr_hash = h\<rparr>] [] [] []"
    using assms(2,3) r by (simp add: adds_def map_filter_def mail_hash_row [OF wf])
  then show ?thesis by (rule reachesI) (simp_all add: note_event_ok [OF _ assms(1)])
qed

lemma deliver_reaches:
  assumes "sid \<in> A"
  shows "reaches tn tid A (st, w) (deliver tid sid frm to body dir st, w)"
proof -
  let ?ev = "[(''type'', JStr ''mailbox''), (''from'', JStr frm), (''to'', JStr to), (''direction'', JStr dir),
       (''body_sha256'', JStr (sha256_hex (encode body)))]"
  have l: "event_legal ?ev" by (rule event_legalI) simp_all
  then have wf: "wf_json (JObj ?ev)" by (simp add: event_legal_def)
  obtain q h where r: "ledger (deliver tid sid frm to body dir st) = ledger st @ [\<lparr>lr_session = sid, lr_seq = q, lr_event = canonical (JObj ?ev), lr_hash = h\<rparr>]"
    unfolding deliver_def using note_event_row [of sid ?ev "mailbox_send st tid frm to body"] by auto
  have "adds tn tid A st (deliver tid sid frm to body dir st) [] [\<lparr>lr_session = sid, lr_seq = q, lr_event = canonical (JObj ?ev), lr_hash = h\<rparr>]
      [] [] [\<lparr>ml_session = tid, ml_from = frm, ml_to = to, ml_body = body\<rparr>]"
    using assms r unfolding adds_def map_filter_def
    by (simp add: mail_hash_row [OF wf] body_hash_def sort_json.simps del: wf_json.simps) (simp add: deliver_def mailbox_send_def)
  moreover have "store_ok (deliver tid sid frm to body dir st)" if "store_ok st"
  proof -
    have "store_ok (mailbox_send st tid frm to body)"
      using that store_ok_frame [of "mailbox_send st tid frm to body" st] by simp
    then show ?thesis unfolding deliver_def by (rule note_event_ok(1) [OF _ l])
  qed
  ultimately show ?thesis by (rule reachesI) simp_all
qed

lemma reaches_journal:
  assumes "wf_json (JObj p)" "sid \<in> A" and "s = ''EXEC_INTENT'' \<Longrightarrow>
      \<exists>row\<in>set (team_sessions st). tm_session row = sid \<and> (\<exists>call idem q. p = intent_payload sid call idem q \<and> may_use tn (tm_agent row) (tc_name call))"
  shows "reaches tn tid A (st, w) (note_journal sid s p st, w)"
proof -
  obtain q where r: "journal (note_journal sid s p st) = journal st @ [\<lparr>jr_session = sid, jr_seq = q, jr_state = s, jr_payload = dumps_sorted (JObj p)\<rparr>]"
    using note_journal_row by blast
  have "adds tn tid A st (note_journal sid s p st) [\<lparr>jr_session = sid, jr_seq = q, jr_state = s, jr_payload = dumps_sorted (JObj p)\<rparr>] [] [] [] []"
    using assms(2,3) r unfolding adds_def justified_def map_filter_def by auto
  then show ?thesis by (rule reachesI) (simp_all add: grows_ok [OF note_journal_grows [OF _ assms(1)]])
qed

lemma reaches_same_tables:
  assumes "journal st' = journal st" "ledger st' = ledger st" "sessions st' = sessions st" "team_sessions st' = team_sessions st"
    "mailbox st' = mailbox st" "seals st' = seals st"
  shows "reaches tn tid A (st, w) (st', w)"
proof -
  have "adds tn tid A st st' [] [] [] [] []" using assms by (simp add: adds_def map_filter_def)
  moreover have "store_ok st \<Longrightarrow> store_ok st'" using assms store_ok_frame [of st' st] by simp
  ultimately show ?thesis by (rule reachesI) simp_all
qed

subsection \<open>Delegation\<close>

lemma policy_event_reaches:
  "sid \<in> A \<Longrightarrow> reaches tn tid A (st, w) (policy_event sid p c rule dec reason st, w)"
  unfolding policy_event_def by (rule reaches_event) (auto intro!: event_legalI)

lemma denied_event_reaches:
  "sid \<in> A \<Longrightarrow> reaches tn tid A (st, w) (denied_event sid p c reason st, w)"
  unfolding denied_event_def by (rule reaches_event) (auto intro!: event_legalI)

lemma lift_env_policy: "lift_env f w = (a, w') \<Longrightarrow> tw_policy w' = tw_policy w"
  by (auto simp: lift_env_def split: prod.splits)

lemma on_event_policy [simp]: "tw_policy (on_event msg w) = tw_policy w"
  by (simp add: on_event_def)

lemma set_policy_get [simp]:
  "dict_get (tw_policy (set_policy_state sid p w)) x = (if x = sid then Some p else dict_get (tw_policy w) x)"
  by (simp add: set_policy_state_def)

text \<open>Composition inside one owned session.\<close>

lemma reaches_in:
  assumes "reaches tn tid {sid} s1 s2" "closed (fst s1) \<Longrightarrow> sid \<in> ids (fst s1) \<Longrightarrow> closed (fst s2) \<Longrightarrow> sid \<in> ids (fst s2) \<Longrightarrow> reaches tn tid {sid} s2 s3"
    and "closed (fst s1)" "sid \<in> ids (fst s1)"
  shows "reaches tn tid {sid} s1 s3"
proof -
  have "closed (fst s2)" "sid \<in> ids (fst s2)" using reaches_closed [OF assms(1,3)] assms(4) by auto
  with assms show ?thesis by (intro reaches_trans [OF assms(1)]) auto
qed

lemma reaches_mono:
  assumes "reaches tn tid {} s s'" "closed (fst s)"
  shows "reaches tn tid A s s'"
  by (rule reaches_trans [OF reaches_refl assms(1,2)]) simp

lemma child_returned_reaches:
  assumes c: "closed st" and i: "psid \<in> ids st" and r: "child_returned tid psid parent pol tk res (st, w) = (r, s')"
  shows "reaches tn tid {psid} (st, w) s'"
proof -
  have 1: "reaches tn tid {psid} (st, w) (st, w1)" if "\<forall>x. x \<noteq> psid \<longrightarrow> dict_get (tw_policy w1) x = dict_get (tw_policy w) x" for w1
    using that by (intro reaches_world) auto
  have 2: "reaches tn tid {psid} (st, w) (deliver tid psid (fst tk) parent m ''result'' (policy_event psid parent (fst tk) rule dec reason st), w1)"
    if "\<forall>x. x \<noteq> psid \<longrightarrow> dict_get (tw_policy w1) x = dict_get (tw_policy w) x" for w1 m rule dec reason
    by (rule reaches_in [OF 1 [OF that] reaches_in [OF policy_event_reaches deliver_reaches]]) (use c i in auto)
  show ?thesis
    using r unfolding child_returned_def Let_def
    by (auto split: sum.splits if_splits intro!: 1 2)
qed

definition child_ok :: "'x team_runner \<Rightarrow> string \<Rightarrow> nat \<Rightarrow> 'x agent_run \<Rightarrow> bool" where
  "child_ok tn tid depth rc \<longleftrightarrow> (\<forall>child task psid s r s'. depth \<le> tn_max_depth tn \<longrightarrow> closed (fst s) \<longrightarrow>
     rc child task tid psid depth s = (r, s') \<longrightarrow> reaches tn tid {} s s')"

lemma child_okD:
  "child_ok tn tid depth rc \<Longrightarrow> depth \<le> tn_max_depth tn \<Longrightarrow> closed (fst s) \<Longrightarrow> rc child task tid psid depth s = (r, s') \<Longrightarrow>
   reaches tn tid {} s s'"
  unfolding child_ok_def by blast

lemma delegate_now_reaches:
  assumes rc: "child_ok tn tid (Suc depth) rc" "Suc depth \<le> tn_max_depth tn" and c: "closed st" and i: "psid \<in> ids st"
    and d: "delegate_now rc tid psid parent depth pol child subtask eff (st, w) = (r, s')"
  shows "reaches tn tid {psid} (st, w) s'"
proof -
  define st1 where "st1 = note_event psid [(''type'', JStr ''delegate''), (''parent'', JStr parent), (''child'', JStr child),
             (''team_id'', JStr tid), (''eff_cap_sha256'', JStr (eff_hash eff)), (''depth'', JInt (int (Suc depth)))] st"
  define w1 where "w1 = on_event (''  -> '' @ parent @ '' delegates to '' @ child @ '': '' @ take 70 subtask) w"
  define st2 where "st2 = deliver tid psid parent child subtask ''task'' st1"
  have d': "delegate_now rc tid psid parent depth pol child subtask eff (st, w) = (case rc child subtask tid psid (Suc depth) (st2, w1) of
      (Inl e, s3) \<Rightarrow> (Inl e, s3) | (Inr r, s3) \<Rightarrow> child_returned tid psid parent pol (child, sha256_hex (encode subtask)) r s3)"
    unfolding delegate_now_def Let_def prod.case st2_def st1_def w1_def Suc_eq_plus1 by (rule refl)
  obtain x st3 w3 where x: "rc child subtask tid psid (Suc depth) (st2, w1) = (x, st3, w3)"
    by (cases "rc child subtask tid psid (Suc depth) (st2, w1)")
  have 0: "reaches tn tid {psid} (st, w) (st, w1)" unfolding w1_def by (rule reaches_world) simp
  have 1: "reaches tn tid {psid} (st, w1) (st1, w1)" unfolding st1_def by (rule reaches_event) (auto intro!: event_legalI)
  have 2: "reaches tn tid {psid} (st1, w1) (st2, w1)" unfolding st2_def by (rule deliver_reaches) simp
  have 3: "reaches tn tid {psid} (st2, w1) (st3, w3)" if "closed st2"
    by (rule reaches_mono [OF child_okD [OF rc _ x]]) (use that in simp_all)
  have r3: "reaches tn tid {psid} (st, w) (st3, w3)"
    by (rule reaches_in [OF 0 reaches_in [OF 1 reaches_in [OF 2 3]]]) (use c i in auto)
  show ?thesis
  proof (cases x)
    case (Inl e)
    with d d' x r3 show ?thesis by simp
  next
    case (Inr res)
    with d x have cr: "child_returned tid psid parent pol (child, sha256_hex (encode subtask)) res (st3, w3) = (r, s')"
      using d' by simp
    show ?thesis by (rule reaches_in [OF r3 child_returned_reaches [OF _ _ cr]]) (use c i in auto)
  qed
qed

lemma delegate_fn_reaches:
  assumes rc: "child_ok tn tid (Suc depth) rc" and c: "closed st" and i: "psid \<in> ids st"
    and d: "delegate_fn tn rc parent tid depth psid pol team args (st, w) = (r, s')"
  shows "reaches tn tid {psid} (st, w) s'"
proof -
  obtain b w0 where b: "lift_env (tn_cancelled tn) w = (b, w0)" by (cases "lift_env (tn_cancelled tn) w")
  obtain gone w1 where g: "lift_env (tn_revoked tn) w0 = (gone, w1)" by (cases "lift_env (tn_revoked tn) w0")
  have p: "tw_policy w0 = tw_policy w" "tw_policy w1 = tw_policy w" using lift_env_policy [OF b] lift_env_policy [OF g] by simp_all
  have 1: "reaches tn tid {psid} (st, w) (st, v)" if "tw_policy v = tw_policy w" for v
    using that by (intro reaches_world) simp
  have 2: "reaches tn tid {psid} (st, w) (denied_event psid q ch reason st, v)" if "tw_policy v = tw_policy w" for v q ch reason
    by (rule reaches_in [OF 1 [OF that] denied_event_reaches]) (use c i in auto)
  have 3: "reaches tn tid {psid} (st, w) (policy_event psid q ch rule dec reason st, v)" if "tw_policy v = tw_policy w" for v q ch rule dec reason
    by (rule reaches_in [OF 1 [OF that] policy_event_reaches]) (use c i in auto)
  have 4: "reaches tn tid {psid} (st, w) (snd (delegate_now rc tid psid parent depth pol ch sb eff (st, w1)))"
    if "\<not> tn_max_depth tn < depth + 1" for ch sb eff
    by (rule reaches_in [OF 1 [OF p(2)] delegate_now_reaches [OF rc _ _ _ prod.collapse [symmetric]]]) (use c i that in auto)
  have "reaches tn tid {psid} (st, w) (snd (delegate_fn tn rc parent tid depth psid pol team args (st, w)))"
    unfolding delegate_fn_def prod.case b g Let_def
    by (simp only: 1 2 3 4 p on_event_policy snd_conv simp_thms split: if_split sum.split bool.split) (intro allI impI, rule 4)
  with d show ?thesis by simp
qed

subsection \<open>An agent's kernel\<close>

text \<open>
  What a team run expects of its surroundings: the tools of the factory leave the store to the runtime, an adapter's
  calls carry dictionaries as Python has them, and neither the provenance nor a declared policy has a key
  \<open>type\<close> with which it would replace the type of the ledger event it is written into.
\<close>

definition runner_ok :: "'x team_runner \<Rightarrow> bool" where
  "runner_ok tn \<longleftrightarrow>
     (\<forall>m n spec args st x. dict_get (tn_tools tn m) n = Some spec \<longrightarrow> fst (snd (ts_fn spec args (st, x))) = st) \<and>
     (\<forall>a msgs tds x resp x'. tn_adapter tn a msgs tds x = (Inr resp, x') \<longrightarrow> list_all call_ok (mr_tool_calls resp)) \<and>
     wf_json (JObj (tn_provenance tn)) \<and> dict_get (tn_provenance tn) ''type'' = None \<and>
     (\<forall>n s. dict_get (lt_specs (tn_loaded tn)) n = Some s \<longrightarrow> wf_json (JObj (as_policy s)) \<and> dict_get (as_policy s) ''type'' = None)"

lemma agent_adapter_ok:
  assumes "runner_ok tn"
  shows "adapter_ok (agent_kernel tn rc entry spec team eff tid depth sid required)"
proof -
  have "list_all call_ok (mr_tool_calls resp)" if "lift_env (tn_adapter tn entry msgs tds) w = (Inr resp, w')" for msgs tds w resp w'
  proof -
    from that obtain x' where "tn_adapter tn entry msgs tds (tw_env w) = (Inr resp, x')" by (auto simp: lift_env_def split: prod.splits)
    with assms show ?thesis unfolding runner_ok_def by blast
  qed
  then show ?thesis by (simp add: adapter_ok_def agent_kernel_def Let_def)
qed

lemma agent_tool_cases:
  assumes "dict_get (k_tools (agent_kernel tn rc entry spec team eff tid depth sid required)) n = Some t"
  obtains "t = delegate_tool tn rc entry tid depth sid (as_policy spec) team"
  | t0 where "dict_get (tn_tools tn eff) n = Some t0" "t = lift_tool t0"
  using assms by (auto simp: agent_kernel_def Let_def dict_get_map_snd split: if_splits)

lemma lift_tool_reaches:
  assumes "runner_ok tn" "dict_get (tn_tools tn eff) n = Some t0" "ts_fn (lift_tool t0) args (st, w) = (r, s')"
  shows "\<exists>x. s' = (st, w\<lparr>tw_env := x\<rparr>)"
proof -
  have "fst (snd (ts_fn t0 args (st, tw_env w))) = st" using assms(1,2) unfolding runner_ok_def by blast
  then show ?thesis using assms(3) by (auto simp: lift_tool_def split: prod.splits)
qed

definition owned :: "string \<Rightarrow> string \<Rightarrow> string \<Rightarrow> store \<Rightarrow> bool" where
  "owned tid sid entry st \<longleftrightarrow> sid \<in> ids st \<and> (\<exists>row\<in>set (team_sessions st). tm_session row = sid \<and> tm_agent row = entry \<and> tm_team row = tid)"

lemma kernel_event_reaches: "kernel_event ev \<Longrightarrow> sid \<in> A \<Longrightarrow> reaches tn tid A (st, w) (note_event sid ev st, w)"
  by (rule reaches_event) (auto simp: kernel_event_def)

lemma agent_kstep:
  fixes tn :: "'x team_runner"
  assumes tn: "runner_ok tn" and rc: "child_ok tn tid (Suc depth) rc"
    and team: "team_for (tn_loaded tn) entry = Inr team" "effective_manifest (tn_realpath tn) (team\<lparr>tm_revoked := gone\<rparr>) entry = Inr eff"
    and st: "closed (fst s)" "owned tid sid entry (fst s)"
    and k: "kstep (agent_kernel tn rc entry spec team eff tid depth sid required) sid s s'"
  shows "reaches tn tid {sid} s s'"
  using k
proof cases
  case (Intent call st w idem q)
  from Intent(4) obtain ts where "cap_check (agent_kernel tn rc entry spec team eff tid depth sid required) call = Inr ts"
    by (auto simp: authorized_def)
  then have "tc_name call \<in> tools (granted team entry eff)"
    by (auto simp: cap_check_Inr agent_kernel_def Let_def check_tool_def split: if_splits)
  then have "may_use tn entry (tc_name call)"
    unfolding may_use_def using team by (auto simp: granted_def split: if_splits)
  with Intent st show ?thesis
    by (auto simp: owned_def intro!: reaches_journal intent_payload_wf)
next
  case (Tool call spec' st w r)
  from Tool(2) have "dict_get (k_tools (agent_kernel tn rc entry spec team eff tid depth sid required)) (tc_name call) = Some spec'"
    by (simp add: cap_check_Inr)
  then show ?thesis
  proof (cases rule: agent_tool_cases)
    case 1
    with Tool have "delegate_fn tn rc entry tid depth sid (as_policy spec) team (tc_arguments call) (st, w) = (r, s')"
      by (simp add: delegate_tool_def)
    from delegate_fn_reaches [OF rc _ _ this] st Tool(1) show ?thesis by (simp add: owned_def)
  next
    case (2 t0)
    with Tool lift_tool_reaches [OF tn 2(1), of "tc_arguments call" st w r s'] obtain x where "s' = (st, w\<lparr>tw_env := x\<rparr>)" by blast
    then show ?thesis unfolding Tool(1) by (auto intro!: reaches_world)
  qed
next
  case (Model msgs tls w r w' st)
  then show ?thesis by (auto simp: agent_kernel_def Let_def dest!: lift_env_policy intro!: reaches_world)
next
  case (Clock w now w' st)
  then show ?thesis by (auto simp: agent_kernel_def Let_def dest!: lift_env_policy intro!: reaches_world)
next
  case (Poll f w b w' st)
  then show ?thesis by (auto simp: agent_kernel_def Let_def dest!: lift_env_policy intro!: reaches_world)
next
  case (Sleep st d w)
  then show ?thesis by (auto simp: agent_kernel_def Let_def intro!: reaches_world)
next
  case (Message st w rl body)
  then show ?thesis by (auto intro!: reaches_same_tables)
next
  case (Result st w key tool res)
  then show ?thesis by (auto intro!: reaches_same_tables)
qed (auto intro: kernel_event_reaches reaches_journal)

lemma agent_ksteps:
  fixes tn :: "'x team_runner"
  assumes tn: "runner_ok tn" and rc: "child_ok tn tid (Suc depth) rc"
    and team: "team_for (tn_loaded tn) entry = Inr team" "effective_manifest (tn_realpath tn) (team\<lparr>tm_revoked := gone\<rparr>) entry = Inr eff"
    and st: "closed (fst s)" "owned tid sid entry (fst s)"
    and k: "ksteps (agent_kernel tn rc entry spec team eff tid depth sid required) sid s s'"
  shows "reaches tn tid {sid} s s'"
  using k
proof (induction rule: rtranclp_induct)
  case base
  show ?case by (rule reaches_refl)
next
  case (step y z)
  have "sid \<in> ids (fst s)" using st(2) by (simp add: owned_def)
  note y = reaches_closed [OF step.IH st(1)]
  have "closed (fst y)" "owned tid sid entry (fst y)" using y st(2) by (auto simp: owned_def)
  from agent_kstep [OF tn rc team this step.hyps(2)] show ?case
    by (intro reaches_trans [OF step.IH _ st(1)]) auto
qed

subsection \<open>Runs\<close>

lemma merge_get: "dict_get extra k = None \<Longrightarrow> dict_get (merge d extra) k = dict_get d k"
proof (induction extra arbitrary: d)
  case (Cons e es)
  obtain a v where "e = (a, v)" by (cases e)
  with Cons.prems Cons.IH [of "dict_set a v d"] show ?case by (simp add: merge_def split: if_splits)
qed (simp add: merge_def)

lemma merge_wf:
  "wf_json (JObj d) \<Longrightarrow> wf_json (JObj extra) \<Longrightarrow> wf_json (JObj (merge d extra))"
proof (induction extra arbitrary: d)
  case (Cons e es)
  obtain k v where e: "e = (k, v)" by (cases e)
  have vals: "\<forall>p\<in>set (dict_set k v d). wf_json (snd p)"
  proof -
    have "set (dict_set k v d) \<subseteq> insert (k, v) (set d)" by (induction k v d rule: dict_set.induct) auto
    with Cons.prems e show ?thesis by auto
  qed
  have "wf_json (JObj (dict_set k v d))" using Cons.prems(1) vals by (simp add: distinct_dict_set)
  from Cons.IH [OF this] Cons.prems(2) e show ?case by (simp add: merge_def)
qed (simp add: merge_def)

lemma merged_legal:
  assumes "wf_json (JObj d)" "wf_json (JObj extra)" "dict_get extra ''type'' = None" "dict_get d ''type'' = Some (JStr t)"
    "t \<noteq> ''model_call''" "t \<noteq> ''mailbox''"
  shows "event_legal (merge d extra)" "dict_get (merge d extra) ''type'' \<noteq> Some (JStr ''mailbox'')"
proof -
  have "dict_get (merge d extra) ''type'' = Some (JStr t)"
    using assms(3,4) by (simp add: merge_get)
  with assms merge_wf [OF assms(1,2)] show "event_legal (merge d extra)" "dict_get (merge d extra) ''type'' \<noteq> Some (JStr ''mailbox'')"
    by (auto intro!: event_legalI)
qed

lemma open_records_reaches:
  assumes tn: "runner_ok tn" and sp: "dict_get (lt_specs (tn_loaded tn)) entry = Some spec" and c: "closed st" "sid \<in> ids st"
  shows "reaches tn tid {sid} (st, w) (open_records tn entry spec eff prompt depth sid st, w)"
proof -
  have pol: "wf_json (JObj (as_policy spec))" "dict_get (as_policy spec) ''type'' = None"
    and pro: "wf_json (JObj (tn_provenance tn))" "dict_get (tn_provenance tn) ''type'' = None"
    using tn sp unfolding runner_ok_def by blast+
  have d: "wf_json (JObj [(''type'', JStr ''provenance'')])" "wf_json (JObj [(''type'', JStr ''policy_declared''), (''agent'', JStr entry)])"
    by simp_all
  have 1: "reaches tn tid {sid} (st0, w) (note_event sid (merge [(''type'', JStr ''provenance'')] (tn_provenance tn)) st0, w)" for st0
    using merged_legal [OF d(1) pro, of "''provenance''"] by (intro reaches_event) auto
  have 2: "reaches tn tid {sid} (st0, w) (note_event sid (merge [(''type'', JStr ''policy_declared''), (''agent'', JStr entry)] (as_policy spec)) st0, w)" for st0
    using merged_legal [OF d(2) pol, of "''policy_declared''"] by (intro reaches_event) auto
  define st1 where "st1 = (if depth = 0 \<and> tn_provenance tn \<noteq> [] then note_event sid (merge [(''type'', JStr ''provenance'')] (tn_provenance tn)) st else st)"
  define st2 where "st2 = (if as_policy spec \<noteq> [] then
      note_event sid (merge [(''type'', JStr ''policy_declared''), (''agent'', JStr entry)] (as_policy spec)) st1 else st1)"
  have r1: "reaches tn tid {sid} (st, w) (st1, w)" unfolding st1_def by (simp add: 1 reaches_refl)
  have r2: "reaches tn tid {sid} (st1, w) (st2, w)" unfolding st2_def by (simp add: 2 reaches_refl)
  have r3: "reaches tn tid {sid} (st2, w) (open_records tn entry spec eff prompt depth sid st, w)"
    unfolding open_records_def Let_def st1_def [symmetric] st2_def [symmetric]
    by (rule reaches_event) (auto intro!: event_legalI)
  show ?thesis by (rule reaches_in [OF r1 reaches_in [OF r2 r3]]) (use c in auto)
qed

lemma start_reaches:
  assumes c: "closed st" and cs: "create_session st None fresh = Inr (sid, st1)" and d: "depth \<le> tn_max_depth tn"
    and p: "\<forall>x. x \<noteq> sid \<longrightarrow> dict_get (tw_policy w') x = dict_get (tw_policy w) x"
  shows "reaches tn tid {} (st, w) (team_session_add st1 now tid sid entry parent depth, w')"
    "owned tid sid entry (team_session_add st1 now tid sid entry parent depth)" "sid \<notin> ids st"
proof -
  have s: "sid \<notin> ids st" "st1 = st\<lparr>sessions := sessions st @ [\<lparr>ses_id = sid, ses_status = ''open''\<rparr>]\<rparr>"
    using cs by (auto simp: create_session_def Let_def ids_def split: if_splits)
  have "sid \<notin> tm_session ` set (team_sessions st)" using s(1) c by (auto simp: closed_def)
  then have t: "team_session_add st1 now tid sid entry parent depth = st1\<lparr>team_sessions := team_sessions st1 @
      [\<lparr>tm_team = tid, tm_session = sid, tm_agent = entry, tm_parent = parent, tm_depth = depth, tm_created = now\<rparr>]\<rparr>"
    by (simp add: team_session_add_def s(2))
  have "adds tn tid {} st (team_session_add st1 now tid sid entry parent depth) [] [] [\<lparr>ses_id = sid, ses_status = ''open''\<rparr>]
      [\<lparr>tm_team = tid, tm_session = sid, tm_agent = entry, tm_parent = parent, tm_depth = depth, tm_created = now\<rparr>] []"
    unfolding t using s d by (simp add: adds_def map_filter_def)
  then show "reaches tn tid {} (st, w) (team_session_add st1 now tid sid entry parent depth, w')"
    by (rule reachesI) (use s p store_ok_frame [of "team_session_add st1 now tid sid entry parent depth" st] in auto)
  show "owned tid sid entry (team_session_add st1 now tid sid entry parent depth)" "sid \<notin> ids st"
    unfolding t using s by (simp_all add: owned_def ids_def)
qed

lemma finish_run_state: "finish_run tid depth sid x = (r, s') \<Longrightarrow> s' = snd x"
  by (auto simp: finish_run_def split: sum.splits prod.splits if_splits)

lemma run_agent_cases:
  fixes w :: "'x team_world"
  assumes "run_agent tn rc entry_name task tid parent depth (st, w) = (r, s')"
  obtains (early) w' e where "s' = (st, w')" "tw_policy w' = tw_policy w" "r = Inl e"
  | (started) entry team gone eff fresh sid st1 now w5 where
      "entry_for (tn_loaded tn) entry_name = Inr entry" "team_for (tn_loaded tn) entry = Inr team"
      "effective_manifest (tn_realpath tn) (team\<lparr>tm_revoked := gone\<rparr>) entry = Inr eff"
      "create_session st None fresh = Inr (sid, st1)"
      "\<forall>x. dict_get (tw_policy w5) x = (if x = sid then Some new_policy_state else dict_get (tw_policy w) x)"
      "let st2 = team_session_add st1 now tid sid entry parent depth in
        (\<exists>e. r = Inl e \<and> s' = (st2, w5)) \<or>
        (\<exists>spec. dict_get (lt_specs (tn_loaded tn)) entry = Some spec \<and>
          (let st3 = open_records tn entry spec (granted team entry eff) (agent_prompt spec (granted team entry eff)) depth sid st2 in
           (\<exists>e. r = Inl e \<and> s' = (st3, w5)) \<or>
           (\<exists>required. items_in (as_policy spec) ''required_children'' = Inr required \<and>
             finish_run tid depth sid (kernel_run (agent_kernel tn rc entry spec team eff tid depth sid required) sid task (st3, w5)) = (r, s'))))"
proof -
  define w1 where "w1 = (if depth = 0 then on_event (''> team run: '' @ entry_name @ '' (orchestrator '' @ projr (entry_for (tn_loaded tn) entry_name) @ '')'')
      (w\<lparr>tw_last_team := Some tid\<rparr>) else w)"
  have p1: "tw_policy w1 = tw_policy w" by (simp add: w1_def)
  obtain gone w2 where g: "lift_env (tn_revoked tn) w1 = (gone, w2)" by (cases "lift_env (tn_revoked tn) w1")
  obtain fresh w3 where u: "lift_env (tn_uuid tn) w2 = (fresh, w3)" by (cases "lift_env (tn_uuid tn) w2")
  obtain now w4 where t: "lift_env (tn_time tn) w3 = (now, w4)" by (cases "lift_env (tn_time tn) w3")
  have p: "tw_policy w2 = tw_policy w" "tw_policy w3 = tw_policy w" "tw_policy w4 = tw_policy w"
    using p1 lift_env_policy [OF g] lift_env_policy [OF u] lift_env_policy [OF t] by simp_all
  show ?thesis
  proof (cases "rbind (entry_for (tn_loaded tn) entry_name) (\<lambda>entry. rbind (team_for (tn_loaded tn) entry) (\<lambda>team. Inr (entry, team)))")
    case (Inl e)
    with assms show ?thesis by (intro early [of w e]) (simp_all add: run_agent_def)
  next
    case (Inr et)
    then obtain entry team where e: "et = (entry, team)" "entry_for (tn_loaded tn) entry_name = Inr entry" "team_for (tn_loaded tn) entry = Inr team"
      by (auto simp: rbind_Inr_iff)
    let ?team = "team\<lparr>tm_revoked := tm_revoked team \<union> gone\<rparr>"
    show ?thesis
    proof (cases "effective_manifest (tn_realpath tn) ?team entry")
      case (Inl x)
      with assms e g p show ?thesis
        by (intro early [of w2 x]) (simp_all add: run_agent_def Let_def w1_def split: if_splits)
    next
      case (Inr eff)
      note eff = Inr
      have w1: "(if depth = 0 then on_event (''> team run: '' @ entry_name @ '' (orchestrator '' @ entry @ '')'') (w\<lparr>tw_last_team := Some tid\<rparr>) else w) = w1"
        unfolding w1_def e(2) sum.sel by (rule refl)
      have run: "run_agent tn rc entry_name task tid parent depth (st, w) =
        (case create_session st None fresh of
           Inl e \<Rightarrow> (Inl e, st, w3)
         | Inr (sid, st1) \<Rightarrow>
             (let st2 = team_session_add st1 now tid sid entry parent depth;
                  w5 = set_policy_state sid new_policy_state (w4\<lparr>tw_sessions := dict_set entry sid (tw_sessions w4)\<rparr>) in
              case spec_of (lt_specs (tn_loaded tn)) entry of
                Inl e \<Rightarrow> (Inl e, st2, w5)
              | Inr spec \<Rightarrow>
                  (let eff' = granted team entry eff;
                       st3 = open_records tn entry spec eff' (agent_prompt spec eff') depth sid st2 in
                   case items_in (as_policy spec) ''required_children'' of
                     Inl e \<Rightarrow> (Inl e, st3, w5)
                   | Inr required \<Rightarrow>
                       finish_run tid depth sid
                         (kernel_run (agent_kernel tn rc entry spec team eff tid depth sid required) sid task (st3, w5)))))"
        unfolding run_agent_def prod.case e(2,3) rbind_simps sum.case Let_def w1 g eff u t by (rule refl)
      show ?thesis
      proof (cases "create_session st None fresh")
        case (Inl x)
        with assms run p show ?thesis by (intro early [of w3 x]) simp_all
      next
        case (Inr y)
        obtain sid st1 where y: "y = (sid, st1)" by (cases y)
        let ?w5 = "set_policy_state sid new_policy_state (w4\<lparr>tw_sessions := dict_set entry sid (tw_sessions w4)\<rparr>)"
        show ?thesis
        proof (rule started [of entry team "tm_revoked team \<union> gone" eff fresh sid st1 ?w5 now])
          show "create_session st None fresh = Inr (sid, st1)" using Inr y by simp
          show "\<forall>x. dict_get (tw_policy ?w5) x = (if x = sid then Some new_policy_state else dict_get (tw_policy w) x)" by (simp add: p)
        qed (use e(2,3) eff assms Inr y in \<open>auto simp: run Let_def spec_of_def split: option.splits sum.splits\<close>)
      qed
    qed
  qed
qed

lemma run_agent_reaches:
  assumes tn: "runner_ok tn" and rc: "child_ok tn tid (Suc depth) rc" and d: "depth \<le> tn_max_depth tn" and c: "closed st"
    and r: "run_agent tn rc entry_name task tid parent depth (st, w) = (r, s')"
  shows "reaches tn tid {} (st, w) s'"
  using r
proof (cases rule: run_agent_cases)
  case (early w' e)
  then show ?thesis by (auto intro!: reaches_world)
next
  case (started entry team gone eff fresh sid st1 now w5)
  let ?st2 = "team_session_add st1 now tid sid entry parent depth"
  have pw: "\<forall>x. x \<noteq> sid \<longrightarrow> dict_get (tw_policy w5) x = dict_get (tw_policy w) x" using started(5) by simp
  have b: "reaches tn tid {} (st, w) (?st2, w5)" "owned tid sid entry ?st2" "sid \<notin> ids st"
    by (rule start_reaches [OF c started(4) d pw])+
  have c2: "closed ?st2" using reaches_closed(1) [OF b(1)] c by simp
  have i2: "sid \<in> ids ?st2" and row: "sid \<in> tm_session ` set (team_sessions ?st2)" using b(2) by (auto simp: owned_def)
  have fin: "reaches tn tid {} (st, w) s1" if "reaches tn tid {sid} (?st2, w5) s1" for s1
    by (rule reaches_trans [OF b(1) that]) (use b(3) row c in auto)
  from started(6) consider e where "r = Inl e" "s' = (?st2, w5)"
    | spec st3 where "dict_get (lt_specs (tn_loaded tn)) entry = Some spec"
        "st3 = open_records tn entry spec (granted team entry eff) (agent_prompt spec (granted team entry eff)) depth sid ?st2" "s' = (st3, w5)"
    | spec st3 required where "dict_get (lt_specs (tn_loaded tn)) entry = Some spec"
        "st3 = open_records tn entry spec (granted team entry eff) (agent_prompt spec (granted team entry eff)) depth sid ?st2"
        "finish_run tid depth sid (kernel_run (agent_kernel tn rc entry spec team eff tid depth sid required) sid task (st3, w5)) = (r, s')"
    unfolding Let_def by blast
  then show ?thesis
  proof cases
    case 1
    with b(1) show ?thesis by simp
  next
    case 2
    then show ?thesis using open_records_reaches [OF tn 2(1) c2 i2] by (auto intro!: fin)
  next
    case 3
    let ?k = "agent_kernel tn rc entry spec team eff tid depth sid required"
    have r3: "reaches tn tid {sid} (?st2, w5) (st3, w5)" unfolding 3(2) by (rule open_records_reaches [OF tn 3(1) c2 i2])
    obtain x s1 where k: "kernel_run ?k sid task (st3, w5) = (x, s1)" by (cases "kernel_run ?k sid task (st3, w5)")
    have s1: "s' = s1" using finish_run_state [OF 3(3)] k by simp
    have "owned tid sid entry st3" using b(2) reaches_closed(2,3) [OF r3] c2 i2 by (auto simp: owned_def)
    moreover have "closed st3" using reaches_closed(1) [OF r3] c2 i2 by simp
    ultimately have "reaches tn tid {sid} (st3, w5) s1"
      using agent_ksteps [OF tn rc started(2,3), of "(st3, w5)"] kernel_run_steps [OF agent_adapter_ok [OF tn] k] by simp
    then have "reaches tn tid {sid} (?st2, w5) s1" by (intro reaches_in [OF r3]) (use c2 i2 in auto)
    then show ?thesis unfolding s1 by (rule fin)
  qed
qed

lemma run_levels_reaches:
  assumes "runner_ok tn"
  shows "depth \<le> tn_max_depth tn \<Longrightarrow> closed (fst s) \<Longrightarrow> run_levels tn n entry task tid parent depth s = (r, s') \<Longrightarrow> reaches tn tid {} s s'"
proof (induction n arbitrary: entry task parent depth s r s')
  case 0
  have "child_ok tn tid (Suc depth) (\<lambda>child task tid psid depth s. (Inl (mk_exn ''RecursionError'' ''unreachable''), s))"
    by (auto simp: child_ok_def reaches_refl)
  from run_agent_reaches [OF assms this 0(1), of "fst s" entry task parent "snd s"] 0(2,3) show ?case by simp
next
  case (Suc n)
  have "child_ok tn tid (Suc depth) (\<lambda>child task tid psid depth s. run_levels tn n child task tid (Some psid) depth s)"
    unfolding child_ok_def using Suc.IH by blast
  from run_agent_reaches [OF assms this Suc.prems(1), of "fst s" entry task parent "snd s"] Suc.prems(2,3) show ?case by simp
qed

text \<open>The recursion never reaches its base case: more levels do not change a run.\<close>

lemma delegate_now_cong:
  assumes "\<And>child task psid s. rc child task tid psid (depth + 1) s = rc' child task tid psid (depth + 1) s"
  shows "delegate_now rc tid psid parent depth pol child subtask eff s = delegate_now rc' tid psid parent depth pol child subtask eff s"
  unfolding delegate_now_def assms by (rule refl)

lemma delegate_fn_cong:
  assumes "depth < tn_max_depth tn \<Longrightarrow> (\<And>child task psid s. rc child task tid psid (depth + 1) s = rc' child task tid psid (depth + 1) s)"
  shows "delegate_fn tn rc parent tid depth psid pol team args s = delegate_fn tn rc' parent tid depth psid pol team args s"
proof (cases "tn_max_depth tn < depth + 1")
  case True
  show ?thesis unfolding delegate_fn_def Let_def if_P [OF True] by (rule refl)
next
  case False
  then have "depth < tn_max_depth tn" by simp
  then have "delegate_now rc tid psid parent depth = delegate_now rc' tid psid parent depth"
    by (intro ext delegate_now_cong assms)
  then show ?thesis unfolding delegate_fn_def by presburger
qed

lemma run_agent_cong:
  assumes "depth < tn_max_depth tn \<Longrightarrow> (\<And>child task psid s. rc child task tid psid (depth + 1) s = rc' child task tid psid (depth + 1) s)"
  shows "run_agent tn rc entry task tid parent depth s = run_agent tn rc' entry task tid parent depth s"
proof -
  have "delegate_fn tn rc e tid depth sid p t = delegate_fn tn rc' e tid depth sid p t" for e sid p t
    by (intro ext delegate_fn_cong assms)
  then have "agent_kernel tn rc e spec t eff tid depth sid req = agent_kernel tn rc' e spec t eff tid depth sid req" for e spec t eff sid req
    unfolding agent_kernel_def delegate_tool_def by presburger
  then show ?thesis unfolding run_agent_def by presburger
qed

lemma levels_enough:
  "tn_max_depth tn - depth \<le> n \<Longrightarrow> tn_max_depth tn - depth \<le> m \<Longrightarrow>
   run_levels tn n entry task tid parent depth s = run_levels tn m entry task tid parent depth s"
proof (induction n arbitrary: m entry task parent depth s)
  case 0
  then have d: "\<not> depth < tn_max_depth tn" by simp
  show ?case by (cases m) (simp_all only: run_levels.simps, rule run_agent_cong, use d in simp_all)
next
  case (Suc n)
  show ?case
  proof (cases m)
    case 0
    with Suc.prems have d: "\<not> depth < tn_max_depth tn" by simp
    show ?thesis unfolding 0 run_levels.simps by (rule run_agent_cong) (use d in simp_all)
  next
    case (Suc m')
    have "tn_max_depth tn - (depth + 1) \<le> n" "tn_max_depth tn - (depth + 1) \<le> m'" using Suc.prems Suc by simp_all
    then show ?thesis unfolding Suc run_levels.simps by (intro run_agent_cong Suc.IH)
  qed
qed

end
