(* ===== verification/TeamSafety.thy ===== *)
theory TeamSafety
  imports TeamRuns
begin

text \<open>
  What a whole team run guarantees (\<open>scr/team.py\<close>): bounded authority, kept evidence, a mailbox that verifies,
  and required children that ran.
\<close>

subsection \<open>A whole run\<close>

lemma team_run_reaches:
  assumes tn: "runner_ok tn" and c: "closed st" and d: "depth \<le> tn_max_depth tn"
    and run: "team_run tn entry task team_id parent depth (st, w) = (r, s')"
  obtains tid where "reaches tn tid {} (st, w) s'" "team_id = Some tid \<or> team_id = None \<or> team_id = Some []"
proof (cases "\<exists>a b. team_id = Some (a # b)")
  case True
  then obtain a b where i: "team_id = Some (a # b)" by blast
  with run have "run_levels tn (tn_max_depth tn - depth) entry task (a # b) parent depth (st, w) = (r, s')" by (simp add: team_run_def)
  from run_levels_reaches [OF tn d _ this] c i that show ?thesis by simp
next
  case False
  then have n: "team_id = None \<or> team_id = Some []" by (metis list.exhaust option.exhaust)
  obtain tid w1 where u: "lift_env (tn_uuid tn) w = (tid, w1)" by (cases "lift_env (tn_uuid tn) w")
  have w1: "reaches tn tid {} (st, w) (st, w1)" using lift_env_policy [OF u] by (intro reaches_world) simp
  consider "s' = (st, w)" | "run_levels tn (tn_max_depth tn - depth) entry task tid parent depth (st, w1) = (r, s')"
    using run n u by (auto simp: team_run_def split: sum.splits)
  then have "reaches tn tid {} (st, w) s'"
  proof cases
    case 1
    then show ?thesis by (simp add: reaches_refl)
  next
    case 2
    from run_levels_reaches [OF tn d _ this] c show ?thesis by (intro reaches_trans [OF w1]) auto
  qed
  with n that show ?thesis by blast
qed

lemma adds_elsewhere:
  assumes "adds tn tid {} st st' J L S T M" "sid \<in> ids st"
  shows "filter (\<lambda>r. lr_session r = sid) L = []"
proof -
  have "\<forall>x\<in>set L. lr_session x \<in> ses_id ` set S" "ses_id ` set S \<inter> ids st = {}" using assms(1) by (simp_all add: adds_def)
  with assms(2) show ?thesis by (auto simp: filter_empty_conv)
qed

text \<open>
  A small team for the witnesses: a lead whose policy requires its one child, and a model that delegates on its first
  call and answers with a text afterwards.
\<close>

definition pair_docs :: "json list" where
  "pair_docs =
     [JObj [(''name'', JStr ''lead''), (''delegates'', JArr [JStr ''dev'']),
            (''delegation_policy'', JObj [(''required_children'', JArr [JStr ''dev''])])],
      JObj [(''name'', JStr ''dev'')]]"

definition pair_loaded :: loaded_team where
  "pair_loaded = (case build_loaded id (\<lambda>_. Inr 0) pair_docs [] ''/w'' None of Some (Inr l) \<Rightarrow> l
     | _ \<Rightarrow> \<lparr>lt_specs = [], lt_teams = [], lt_team_of = [], lt_aliases = []\<rparr>)"

definition pair_adapter :: "string \<Rightarrow> message list \<Rightarrow> tool_def list \<Rightarrow> nat \<times> nat \<Rightarrow> (py_exn + model_response) \<times> nat \<times> nat" where
  "pair_adapter a msgs tds x =
     (Inr \<lparr>mr_text = ''ok'', mr_tool_calls = (if snd x = 0 then [\<lparr>tc_id = ''c'', tc_name = ''delegate'',
          tc_arguments = [(''agent'', JStr ''dev''), (''task'', JStr ''t'')]\<rparr>] else []),
          mr_input_tokens = 1, mr_output_tokens = 1\<rparr>, fst x, Suc (snd x))"

definition pair_runner :: "(nat \<times> nat) team_runner" where
  "pair_runner = \<lparr>tn_loaded = pair_loaded, tn_adapter = pair_adapter, tn_tools = (\<lambda>_. []), tn_policy = None, tn_search = (\<lambda>_ _. False),
     tn_max_depth = 4, tn_provenance = [], tn_cancelled = (\<lambda>x. (False, x)), tn_revoked = (\<lambda>x. ({}, x)),
     tn_uuid = (\<lambda>x. (''s'' @ nat_str (fst x), Suc (fst x), snd x)), tn_time = (\<lambda>x. (0, x)), tn_monotonic = (\<lambda>x. (0, x)),
     tn_sleep = (\<lambda>_ x. x), tn_realpath = id\<rparr>"

definition fresh_world :: "(nat \<times> nat) team_world" where
  "fresh_world = \<lparr>tw_sessions = [], tw_last_team = None, tw_policy = [], tw_log = [], tw_env = (0, 0)\<rparr>"

lemma pair_load:
  "build_loaded id (\<lambda>_. Inr 0) pair_docs [] ''/w'' None = Some (Inr pair_loaded)"
  "entry_for pair_loaded ''lead'' = Inr ''lead''" "map (\<lambda>(n, s). (n, as_policy s)) (lt_specs pair_loaded) =
    [(''lead'', [(''required_children'', JArr [JStr ''dev''])]), (''dev'', [])]"
proof -
  have "(case build_loaded id (\<lambda>_. Inr 0) pair_docs [] ''/w'' None of Some (Inr l) \<Rightarrow> entry_for l ''lead'' = Inr ''lead'' \<and>
      map (\<lambda>(n, s). (n, as_policy s)) (lt_specs l) = [(''lead'', [(''required_children'', JArr [JStr ''dev''])]), (''dev'', [])] | _ \<Rightarrow> False)"
    by code_simp
  then obtain l where l: "build_loaded id (\<lambda>_. Inr 0) pair_docs [] ''/w'' None = Some (Inr l)" "entry_for l ''lead'' = Inr ''lead''"
      "map (\<lambda>(n, s). (n, as_policy s)) (lt_specs l) = [(''lead'', [(''required_children'', JArr [JStr ''dev''])]), (''dev'', [])]"
    by (auto split: option.splits sum.splits)
  moreover have "pair_loaded = l" using l(1) by (simp add: pair_loaded_def)
  ultimately show "build_loaded id (\<lambda>_. Inr 0) pair_docs [] ''/w'' None = Some (Inr pair_loaded)" "entry_for pair_loaded ''lead'' = Inr ''lead''"
    "map (\<lambda>(n, s). (n, as_policy s)) (lt_specs pair_loaded) = [(''lead'', [(''required_children'', JArr [JStr ''dev''])]), (''dev'', [])]"
    by simp_all
qed

lemma pair_policy:
  assumes "dict_get (lt_specs pair_loaded) n = Some s"
  shows "n = ''lead'' \<and> as_policy s = [(''required_children'', JArr [JStr ''dev''])] \<or> n = ''dev'' \<and> as_policy s = []"
proof -
  have "dict_get (map (\<lambda>(n, s). (n, as_policy s)) (lt_specs pair_loaded)) n = Some (as_policy s)"
    using assms by (simp add: dict_get_map_snd)
  then show ?thesis unfolding pair_load(3) by (auto split: if_splits)
qed

lemma pair_runner_ok: "runner_ok pair_runner"
proof -
  have "wf_json (JObj (as_policy s)) \<and> dict_get (as_policy s) ''type'' = None" if "dict_get (lt_specs pair_loaded) n = Some s" for n s
    using pair_policy [OF that] by auto
  then show ?thesis unfolding runner_ok_def by (simp add: pair_runner_def pair_adapter_def call_ok_def)
qed

lemma pair_runner_sel [simp]: "tn_loaded pair_runner = pair_loaded" "tn_realpath pair_runner = id" "tn_max_depth pair_runner = 4"
  by (simp_all add: pair_runner_def)

lemma empty_store_closed [simp]: "closed empty_store"
  by (simp add: closed_def empty_store_def)

lemma may_use_declared:
  assumes l: "build_loaded (tn_realpath tn) float_of docs aliases workspace out = Some (Inr (tn_loaded tn))"
    and m: "may_use tn a tool"
  obtains spec where "dict_get (lt_specs (tn_loaded tn)) a = Some spec"
    "tool \<in> tools (as_manifest spec) \<or> tool = ''delegate'' \<and> as_delegates spec \<noteq> []"
proof -
  from m obtain team gone e where t: "team_for (tn_loaded tn) a = Inr team"
      "effective_manifest (tn_realpath tn) (team\<lparr>tm_revoked := gone\<rparr>) a = Inr e"
      "tool \<in> tools e \<or> tool = ''delegate'' \<and> kids (tm_edges team) a \<noteq> []"
    unfolding may_use_def by blast
  from loaded_member [OF l t(1)] obtain s where s: "dict_get (lt_specs (tn_loaded tn)) a = Some s" "kids (tm_edges team) a = as_delegates s"
    by blast
  from loaded_grants [OF l s(1) t(1,2)] have "tools e = tools (as_manifest s)" by (simp add: same_grants_def)
  with s t(3) that show ?thesis by simp
qed

text \<open>C2: A team run stays inside the declared authority, at every level of delegation. For a team that was loaded,
  whatever the models answer and whoever is revoked meanwhile, the run only appends to the journal, only in sessions it
  created itself, and every execution intent it writes belongs to a session of a member of the team and is for a tool
  that this member's own document declares, or for \<open>delegate\<close> when the document declares delegates.\<close>

theorem team_run_authority:
  assumes ok: "runner_ok tn" and l: "build_loaded (tn_realpath tn) float_of docs aliases workspace out = Some (Inr (tn_loaded tn))"
    and c: "closed st" and d: "depth \<le> tn_max_depth tn"
    and run: "team_run tn entry task team_id parent depth (st, w) = (r, st', w')"
  shows "\<exists>J. journal st' = journal st @ J \<and> (\<forall>x\<in>set J. jr_session x \<notin> ids st \<and> (jr_state x = ''EXEC_INTENT'' \<longrightarrow>
    (\<exists>row\<in>set (team_sessions st'). \<exists>spec call idem q. tm_session row = jr_session x \<and>
       dict_get (lt_specs (tn_loaded tn)) (tm_agent row) = Some spec \<and>
       jr_payload x = dumps_sorted (JObj (intent_payload (jr_session x) call idem q)) \<and>
       (tc_name call \<in> tools (as_manifest spec) \<or> tc_name call = ''delegate'' \<and> as_delegates spec \<noteq> []))))"
proof -
  obtain tid where "reaches tn tid {} (st, w) (st', w')" using team_run_reaches [OF ok c d run] by blast
  then obtain J L S T M where a: "adds tn tid {} st st' J L S T M" by (auto simp: reaches_def)
  show ?thesis
  proof (intro exI [of _ J] conjI ballI impI)
    show "journal st' = journal st @ J" using a by (simp add: adds_def)
    fix x assume x: "x \<in> set J"
    then show "jr_session x \<notin> ids st" using a by (auto simp: adds_def)
    assume "jr_state x = ''EXEC_INTENT''"
    with x a have "justified tn st' x" by (simp add: adds_def)
    then obtain row call idem q where j: "row \<in> set (team_sessions st')" "tm_session row = jr_session x"
        "jr_payload x = dumps_sorted (JObj (intent_payload (jr_session x) call idem q))" "may_use tn (tm_agent row) (tc_name call)"
      unfolding justified_def by blast
    from may_use_declared [OF l j(4)] obtain spec where "dict_get (lt_specs (tn_loaded tn)) (tm_agent row) = Some spec"
        "tc_name call \<in> tools (as_manifest spec) \<or> tc_name call = ''delegate'' \<and> as_delegates spec \<noteq> []" .
    with j show "\<exists>row\<in>set (team_sessions st'). \<exists>spec call idem q. tm_session row = jr_session x \<and>
       dict_get (lt_specs (tn_loaded tn)) (tm_agent row) = Some spec \<and>
       jr_payload x = dumps_sorted (JObj (intent_payload (jr_session x) call idem q)) \<and>
       (tc_name call \<in> tools (as_manifest spec) \<or> tc_name call = ''delegate'' \<and> as_delegates spec \<noteq> [])"
      by blast
  qed
qed

theorem team_run_authority_witness:
  "\<exists>J. journal (fst (snd (team_run pair_runner ''lead'' ''go'' None None 0 (empty_store, fresh_world)))) = journal empty_store @ J \<and>
    (\<forall>x\<in>set J. jr_session x \<notin> ids empty_store \<and> (jr_state x = ''EXEC_INTENT'' \<longrightarrow>
    (\<exists>row\<in>set (team_sessions (fst (snd (team_run pair_runner ''lead'' ''go'' None None 0 (empty_store, fresh_world))))).
       \<exists>spec call idem q. tm_session row = jr_session x \<and> dict_get (lt_specs (tn_loaded pair_runner)) (tm_agent row) = Some spec \<and>
       jr_payload x = dumps_sorted (JObj (intent_payload (jr_session x) call idem q)) \<and>
       (tc_name call \<in> tools (as_manifest spec) \<or> tc_name call = ''delegate'' \<and> as_delegates spec \<noteq> []))))"
proof -
  obtain r st' w' where run: "team_run pair_runner ''lead'' ''go'' None None 0 (empty_store, fresh_world) = (r, st', w')"
    by (cases "team_run pair_runner ''lead'' ''go'' None None 0 (empty_store, fresh_world)")
  have l: "build_loaded (tn_realpath pair_runner) (\<lambda>_. Inr 0) pair_docs [] ''/w'' None = Some (Inr (tn_loaded pair_runner))"
    and d: "0 \<le> tn_max_depth pair_runner" by (simp_all add: pair_load(1))
  show ?thesis
    unfolding run fst_conv snd_conv by (rule team_run_authority [OF pair_runner_ok l empty_store_closed d run])
qed

text \<open>C16: A team run keeps the evidence. From a consistent store, however the run ends, the store is consistent
  again, the ledgers of all sessions that existed before are unchanged, and every session without a seal, new ones
  included, verifies.\<close>

theorem team_run_keeps_evidence:
  assumes ok: "runner_ok tn" and c: "closed st" and d: "depth \<le> tn_max_depth tn" and st: "store_ok st"
    and run: "team_run tn entry task team_id parent depth (st, w) = (r, st', w')"
  shows "store_ok st' \<and> (\<forall>sid\<in>ids st. ledger_rows st' sid = ledger_rows st sid) \<and>
    (\<forall>sid key. (\<forall>x\<in>set (seals st). sl_session x \<noteq> sid) \<longrightarrow> vr_ok (ledger_verify st' sid key))"
proof -
  obtain tid where r: "reaches tn tid {} (st, w) (st', w')" using team_run_reaches [OF ok c d run] by blast
  then obtain J L S T M where a: "adds tn tid {} st st' J L S T M" by (auto simp: reaches_def)
  have ok': "store_ok st'" using r st by (simp add: reaches_def)
  have "ledger_rows st' sid = ledger_rows st sid" if "sid \<in> ids st" for sid
  proof -
    note adds_elsewhere [OF a that]
    moreover have "ledger_ok st" "ledger_ok st'" "ledger st' = ledger st @ L" using st ok' a by (simp_all add: store_ok_def adds_def)
    ultimately show ?thesis by (simp add: ledger_rows_filter)
  qed
  moreover have "vr_ok (ledger_verify st' sid key)" if "\<forall>x\<in>set (seals st). sl_session x \<noteq> sid" for sid key
  proof -
    have "find (\<lambda>r. sl_session r = sid) (seals st') = None" "ledger_ok st'"
      using that a ok' by (auto simp: adds_def store_ok_def find_None_iff)
    then show ?thesis by (simp add: ledger_verify_unsealed)
  qed
  ultimately show ?thesis using ok' by blast
qed

theorem team_run_keeps_evidence_witness:
  "vr_ok (ledger_verify (fst (snd (team_run pair_runner ''lead'' ''go'' None None 0 (empty_store, fresh_world)))) ''s1'' None)"
proof -
  obtain r st' w' where run: "team_run pair_runner ''lead'' ''go'' None None 0 (empty_store, fresh_world) = (r, st', w')"
    by (cases "team_run pair_runner ''lead'' ''go'' None None 0 (empty_store, fresh_world)")
  have "seals empty_store = []" by (simp add: empty_store_def)
  with team_run_keeps_evidence [OF pair_runner_ok empty_store_closed _ empty_store_ok run] show ?thesis by (simp add: run)
qed

text \<open>C32: Delegation is bounded and every member has its own session. The sessions a team run adds are new,
  pairwise different, belong to one team and lie at most \<open>max_depth\<close> levels deep; and the levels of recursion that
  the depth limit allows are enough: with more of them a run is the same, so the recursion always ends by itself.\<close>

theorem team_run_bounded:
  assumes ok: "runner_ok tn" and c: "closed st" and d: "depth \<le> tn_max_depth tn" and n: "tn_max_depth tn - depth \<le> n"
    and run: "run_levels tn n entry task tid parent depth (st, w) = (r, st', w')"
  shows "team_sessions st' = team_sessions st @ drop (length (team_sessions st)) (team_sessions st') \<and>
    distinct (map tm_session (drop (length (team_sessions st)) (team_sessions st'))) \<and>
    (\<forall>t\<in>set (drop (length (team_sessions st)) (team_sessions st')).
       tm_session t \<notin> ids st \<and> tm_session t \<in> ids st' \<and> tm_team t = tid \<and> tm_depth t \<le> tn_max_depth tn) \<and>
    run_levels tn (tn_max_depth tn - depth) entry task tid parent depth (st, w) = (r, st', w')"
proof -
  from run_levels_reaches [OF ok d _ run] c obtain J L S T M where a: "adds tn tid {} st st' J L S T M"
    by (auto simp: reaches_def)
  then have "drop (length (team_sessions st)) (team_sessions st') = T" "ids st' = ids st \<union> ses_id ` set S"
    by (auto simp: adds_def ids_def)
  moreover have "run_levels tn (tn_max_depth tn - depth) entry task tid parent depth (st, w) = (r, st', w')"
    using levels_enough [OF _ n, of "tn_max_depth tn - depth"] run by simp
  moreover have "tm_session t \<notin> ids st \<and> tm_session t \<in> ses_id ` set S" if "t \<in> set T" for t
    using a that unfolding adds_def by blast
  ultimately show ?thesis using a by (auto simp: adds_def)
qed

theorem team_run_bounded_witness:
  "list_all (\<lambda>t. tm_depth t \<le> 4) (team_sessions (fst (snd (run_levels pair_runner 9 ''lead'' ''go'' ''t'' None 0 (empty_store, fresh_world)))))"
proof -
  obtain r st' w' where run: "run_levels pair_runner 9 ''lead'' ''go'' ''t'' None 0 (empty_store, fresh_world) = (r, st', w')"
    by (cases "run_levels pair_runner 9 ''lead'' ''go'' ''t'' None 0 (empty_store, fresh_world)")
  have "team_sessions empty_store = []" by (simp add: empty_store_def)
  with team_run_bounded [OF pair_runner_ok empty_store_closed _ _ run] show ?thesis by (simp add: run list_all_iff)
qed

subsection \<open>The mailbox\<close>

lemma ledgered_hashes_rows:
  assumes "\<forall>r\<in>set rows. \<exists>e. loads (lr_event r) = Some (JObj e)"
  shows "ledgered_hashes rows = Inr hs \<longleftrightarrow> List.map_filter mail_hash rows = map Some hs"
  using assms
proof (induction rows arbitrary: hs)
  case (Cons r rows)
  then obtain e where e: "loads (lr_event r) = Some (JObj e)" by auto
  have ih: "ledgered_hashes rows = Inr xs \<longleftrightarrow> List.map_filter mail_hash rows = map Some xs" for xs using Cons by simp
  have m: "mail_hash r = (if dict_get e ''type'' = Some (JStr ''mailbox'') then Some (dict_get e ''body_sha256'') else None)"
    by (simp add: mail_hash_def e)
  show ?case
  proof (cases "dict_get e ''type'' = Some (JStr ''mailbox'')")
    case True
    then show ?thesis
      by (cases "dict_get e ''body_sha256''"; cases hs) (auto simp: e m ih rbind_Inr_iff map_filter_simps)
  qed (simp add: e m ih map_filter_simps)
qed (auto simp: map_filter_simps)

lemma traverse_as_str: "traverse as_str js = Inr hs \<longleftrightarrow> js = map JStr hs"
proof (induction js arbitrary: hs)
  case (Cons j js)
  show ?case by (cases j; cases hs) (auto simp: rbind_Inr_iff Cons)
qed auto

text \<open>The multiset of what a team's sessions have ledgered about its mail.\<close>

definition ledgered_mail :: "store \<Rightarrow> string \<Rightarrow> json option multiset" where
  "ledgered_mail st tid =
     (\<Sum>m\<in>#mset (filter (\<lambda>r. tm_team r = tid) (team_sessions st)). mset (List.map_filter mail_hash (ledger_rows st (tm_session m))))"

definition stored_mail :: "store \<Rightarrow> string \<Rightarrow> json option multiset" where
  "stored_mail st tid = mset (map body_hash (filter (\<lambda>r. ml_session r = tid) (mailbox st)))"

lemma map_filter_concat: "List.map_filter f (concat xss) = concat (map (List.map_filter f) xss)"
  by (induction xss) (simp_all add: map_filter_def)

lemma ledgered_mail_rows:
  "mset (List.map_filter mail_hash (concat (map (\<lambda>m. ledger_rows st (tm_session m)) (team_members st tid)))) = ledgered_mail st tid"
proof -
  have "mset (concat (map f xs)) = (\<Sum>m\<in>#mset xs. mset (f m))" for f :: "team_row \<Rightarrow> json option list" and xs
    by (induction xs) simp_all
  then show ?thesis
    unfolding map_filter_concat map_map comp_def by (simp add: team_members_def ledgered_mail_def)
qed

lemma sort_eq_iff: "sort xs = sort ys \<longleftrightarrow> mset xs = mset (ys :: string list)"
  by (metis mset_sort properties_for_sort sorted_sort)

lemma mset_map_rearrange:
  assumes "mset (map f xs) = mset ys"
  shows "\<exists>hs. mset hs = mset xs \<and> map f hs = ys"
  using assms
proof (induction ys arbitrary: xs)
  case (Cons y ys)
  then have "y \<in> set (map f xs)" by (metis list.set_intros(1) set_mset_mset)
  then obtain x where x: "x \<in> set xs" "y = f x" by auto
  with Cons.prems have "mset (map f (remove1 x xs)) = mset ys" by (simp add: image_mset_Diff)
  from Cons.IH [OF this] obtain hs where "mset hs = mset (remove1 x xs)" "map f hs = ys" by blast
  with x show ?case by (intro exI [of _ "x # hs"]) simp
qed simp

lemma mailbox_check:
  assumes st: "store_ok st"
  shows "verify_team_mailbox st tid = Inr (True, []) \<longleftrightarrow> stored_mail st tid = ledgered_mail st tid"
proof -
  let ?rows = "concat (map (\<lambda>m. ledger_rows st (tm_session m)) (team_members st tid))"
  have rows: "\<forall>r\<in>set ?rows. \<exists>e. loads (lr_event r) = Some (JObj e)"
  proof
    fix r assume "r \<in> set ?rows"
    then have "r \<in> set (ledger st)" using st by (auto simp: store_ok_def ledger_rows_filter)
    with st show "\<exists>e. loads (lr_event r) = Some (JObj e)" by (auto simp: store_ok_def tokens_row_ok_def)
  qed
  have body: "map body_hash (filter (\<lambda>r. ml_session r = tid) (mailbox st)) = map (Some \<circ> JStr) (mail_hashes st tid)"
    by (simp add: mail_hashes_def body_hash_def)
  have inj: "inj (Some \<circ> JStr)" by (simp add: inj_def)
  have "verify_team_mailbox st tid = Inr (True, []) \<longleftrightarrow>
      (\<exists>hs. List.map_filter mail_hash ?rows = map Some (map JStr hs) \<and> mset (mail_hashes st tid) = mset hs)"
    unfolding verify_team_mailbox_def Let_def
    by (auto simp: rbind_Inr_iff ledgered_hashes_rows [OF rows] traverse_as_str sort_eq_iff split: if_splits)
  also have "\<dots> \<longleftrightarrow> mset (map (Some \<circ> JStr) (mail_hashes st tid)) = mset (List.map_filter mail_hash ?rows)"
    (is "?l \<longleftrightarrow> ?r")
  proof
    assume ?r
    then obtain hs where "mset hs = mset (mail_hashes st tid)" "map (Some \<circ> JStr) hs = List.map_filter mail_hash ?rows"
      using mset_map_rearrange by blast
    then show ?l by (intro exI [of _ hs]) simp
  qed auto
  finally show ?thesis by (simp only: ledgered_mail_rows body stored_mail_def)
qed

lemma sum_one:
  "distinct (map f T) \<Longrightarrow> x \<in> f ` set T \<Longrightarrow> (\<Sum>t\<in>#mset T. if x = f t then c else {#}) = c"
proof (induction T)
  case (Cons t T)
  have "(\<Sum>t\<in>#mset T. if x = f t then c else {#}) = {#}" if "x \<notin> f ` set T"
    using that by (induction T) auto
  with Cons show ?case by auto
qed simp

lemma sum_sessions:
  assumes "distinct (map tm_session T)"
  shows "\<forall>r\<in>set L. mail_hash r \<noteq> None \<longrightarrow> lr_session r \<in> tm_session ` set T \<Longrightarrow>
    (\<Sum>t\<in>#mset T. mset (List.map_filter mail_hash (filter (\<lambda>r. lr_session r = tm_session t) L))) = mset (List.map_filter mail_hash L)"
proof (induction L)
  case (Cons r L)
  show ?case
  proof (cases "mail_hash r")
    case None
    then have "List.map_filter mail_hash (filter P (r # L)) = List.map_filter mail_hash (filter P L)" for P
      by (simp add: map_filter_simps)
    with Cons None show ?thesis by (simp add: map_filter_simps del: filter.simps)
  next
    case (Some h)
    have "(\<Sum>t\<in>#mset T. mset (List.map_filter mail_hash (filter (\<lambda>r. lr_session r = tm_session t) (r # L)))) =
        (\<Sum>t\<in>#mset T. (if lr_session r = tm_session t then {#h#} else {#}) + mset (List.map_filter mail_hash (filter (\<lambda>r. lr_session r = tm_session t) L)))"
      using Some by (intro arg_cong [of _ _ sum_mset] image_mset_cong) (simp add: map_filter_simps)
    also note sum_mset.distrib
    finally show ?thesis using Cons Some sum_one [OF assms, of "lr_session r" "{#h#}"]
      by (simp add: map_filter_simps del: filter.simps)
  qed
qed (simp add: map_filter_simps)

lemma ledgered_mail_adds:
  assumes a: "adds tn tid {} st st' J L S T M" and c: "closed st" and ok: "store_ok st" "store_ok st'"
  shows "ledgered_mail st' tid = ledgered_mail st tid + mset (List.map_filter mail_hash L)"
proof -
  have l: "ledger_rows st' s = ledger_rows st s @ filter (\<lambda>r. lr_session r = s) L" for s
    using a ok by (simp add: adds_def store_ok_def ledger_rows_filter)
  have old: "ledger_rows st' (tm_session m) = ledger_rows st (tm_session m)" if "m \<in> set (team_sessions st)" for m
  proof -
    have "tm_session m \<in> ids st" using that c by (auto simp: closed_def)
    from adds_elsewhere [OF a this] l show ?thesis by simp
  qed
  have new: "ledger_rows st' (tm_session t) = filter (\<lambda>r. lr_session r = tm_session t) L" if "t \<in> set T" for t
  proof -
    have "tm_session t \<notin> ids st" using that a unfolding adds_def by blast
    then have "ledger_rows st (tm_session t) = []" using c ok(1) by (auto simp: store_ok_def ledger_rows_filter closed_def filter_empty_conv)
    with l show ?thesis by simp
  qed
  have "filter (\<lambda>r. tm_team r = tid) (team_sessions st') = filter (\<lambda>r. tm_team r = tid) (team_sessions st) @ T"
    using a by (auto simp: adds_def filter_id_conv)
  then have "ledgered_mail st' tid = (\<Sum>m\<in>#mset (filter (\<lambda>r. tm_team r = tid) (team_sessions st)). mset (List.map_filter mail_hash (ledger_rows st' (tm_session m)))) +
      (\<Sum>t\<in>#mset T. mset (List.map_filter mail_hash (ledger_rows st' (tm_session t))))"
    by (simp add: ledgered_mail_def)
  also have "\<dots> = ledgered_mail st tid + (\<Sum>t\<in>#mset T. mset (List.map_filter mail_hash (filter (\<lambda>r. lr_session r = tm_session t) L)))"
  proof -
    have "(\<Sum>m\<in>#mset xs. mset (List.map_filter mail_hash (ledger_rows st' (tm_session m)))) = (\<Sum>m\<in>#mset xs. mset (List.map_filter mail_hash (f m)))"
      if "\<forall>m\<in>set xs. ledger_rows st' (tm_session m) = f m" for xs f
      using that by (induction xs) simp_all
    from this [of "filter (\<lambda>r. tm_team r = tid) (team_sessions st)" "\<lambda>m. ledger_rows st (tm_session m)"]
      this [of T "\<lambda>t. filter (\<lambda>r. lr_session r = tm_session t) L"] old new
    show ?thesis by (simp add: ledgered_mail_def)
  qed
  also have "(\<Sum>t\<in>#mset T. mset (List.map_filter mail_hash (filter (\<lambda>r. lr_session r = tm_session t) L))) = mset (List.map_filter mail_hash L)"
    using a by (intro sum_sessions) (auto simp: adds_def)
  finally show ?thesis .
qed

lemma mailbox_kept:
  assumes ok: "runner_ok tn" and c: "closed st" and d: "depth \<le> tn_max_depth tn" and st: "store_ok st"
    and v: "verify_team_mailbox st tid = Inr (True, [])" and t: "tid \<noteq> []"
    and run: "team_run tn entry task (Some tid) parent depth (st, w) = (r, st', w')"
  shows "store_ok st'" "verify_team_mailbox st' tid = Inr (True, [])"
proof -
  from team_run_reaches [OF ok c d run] t have rt: "reaches tn tid {} (st, w) (st', w')" by (metis option.distinct(1) option.inject)
  then obtain J L S T M where a: "adds tn tid {} st st' J L S T M" by (auto simp: reaches_def)
  show ok': "store_ok st'" using rt st by (simp add: reaches_def)
  have "filter (\<lambda>r. ml_session r = tid) M = M" using a by (simp add: adds_def filter_id_conv)
  then have "stored_mail st' tid = stored_mail st tid + mset (map body_hash M)" using a by (simp add: adds_def stored_mail_def)
  moreover have "mset (map body_hash M) = mset (List.map_filter mail_hash L)" using a unfolding adds_def by blast
  ultimately show "verify_team_mailbox st' tid = Inr (True, [])"
    using v ledgered_mail_adds [OF a c st ok'] by (simp add: mailbox_check [OF st] mailbox_check [OF ok'])
qed

text \<open>A team's mailbox verifies after every run. If the check of the team's stored messages passed before a
  run of the team, as it does for a team that has not run, it passes afterwards, however the run ended: each message
  that was stored has a ledgered delivery hash in a session of the team, and there are no others.\<close>

theorem team_mailbox_verifies:
  assumes ok: "runner_ok tn" and c: "closed st" and d: "depth \<le> tn_max_depth tn" and st: "store_ok st"
    and v: "verify_team_mailbox st tid = Inr (True, [])" and t: "tid \<noteq> []"
    and run: "team_run tn entry task (Some tid) parent depth (st, w) = (r, st', w')"
  shows "verify_team_mailbox st' tid = Inr (True, [])"
  using mailbox_kept(2) [OF assms] .

lemma fresh_mailbox: "verify_team_mailbox empty_store tid = Inr (True, [])"
  by (simp add: mailbox_check stored_mail_def ledgered_mail_def) (simp add: empty_store_def)

theorem team_mailbox_verifies_witness:
  "verify_team_mailbox (fst (snd (team_run pair_runner ''lead'' ''go'' (Some ''t'') None 0 (empty_store, fresh_world)))) ''t'' = Inr (True, [])"
proof -
  obtain r st' w' where run: "team_run pair_runner ''lead'' ''go'' (Some ''t'') None 0 (empty_store, fresh_world) = (r, st', w')"
    by (cases "team_run pair_runner ''lead'' ''go'' (Some ''t'') None 0 (empty_store, fresh_world)")
  from team_mailbox_verifies [OF pair_runner_ok empty_store_closed _ empty_store_ok fresh_mailbox _ run] show ?thesis by (simp add: run)
qed

text \<open>What the mailbox check protects, exactly. Starting from stored messages that verify, replacing the
  whole mailbox is accepted exactly when the team's messages have the same bodies up to SHA-256 and order: a changed,
  lost or added body is reported, a changed sender, recipient or order is not, although the ledger records all of them.\<close>

theorem mailbox_check_scope:
  assumes st: "store_ok st" and v: "verify_team_mailbox st tid = Inr (True, [])"
  shows "verify_team_mailbox (st\<lparr>mailbox := ms\<rparr>) tid = Inr (True, []) \<longleftrightarrow>
    mset (map (\<lambda>r. sha256_hex (encode (ml_body r))) (filter (\<lambda>r. ml_session r = tid) ms)) =
    mset (map (\<lambda>r. sha256_hex (encode (ml_body r))) (filter (\<lambda>r. ml_session r = tid) (mailbox st)))"
proof -
  let ?st = "st\<lparr>mailbox := ms\<rparr>" and ?h = "\<lambda>r. sha256_hex (encode (ml_body r))"
  have s: "store_ok ?st" using st store_ok_frame [of ?st st] by simp
  have "ledgered_mail ?st tid = ledgered_mail st tid" using ledger_reads_frame(1) [of ?st st] by (simp add: ledgered_mail_def)
  then have "verify_team_mailbox ?st tid = Inr (True, []) \<longleftrightarrow> stored_mail ?st tid = stored_mail st tid"
    using v by (simp add: mailbox_check [OF s] mailbox_check [OF st])
  also have "\<dots> \<longleftrightarrow> image_mset (Some \<circ> JStr) (mset (map ?h (filter (\<lambda>r. ml_session r = tid) ms))) =
      image_mset (Some \<circ> JStr) (mset (map ?h (filter (\<lambda>r. ml_session r = tid) (mailbox st))))"
    by (simp add: stored_mail_def body_hash_def [abs_def] multiset.map_comp comp_def)
  also have "\<dots> \<longleftrightarrow> mset (map ?h (filter (\<lambda>r. ml_session r = tid) ms)) = mset (map ?h (filter (\<lambda>r. ml_session r = tid) (mailbox st)))"
  proof -
    have "inj (Some \<circ> JStr)" by (simp add: inj_def)
    then show ?thesis using multiset.inj_map by (metis (no_types) injD)
  qed
  finally show ?thesis .
qed

theorem mailbox_check_scope_witness:
  "\<exists>st. st = fst (snd (team_run pair_runner ''lead'' ''go'' (Some ''t'') None 0 (empty_store, fresh_world))) \<and>
    verify_team_mailbox (st\<lparr>mailbox := map (\<lambda>r. r\<lparr>ml_from := ''x'', ml_to := ''y''\<rparr>) (rev (mailbox st))\<rparr>) ''t'' = Inr (True, [])"
proof -
  obtain r st' w' where run: "team_run pair_runner ''lead'' ''go'' (Some ''t'') None 0 (empty_store, fresh_world) = (r, st', w')"
    by (cases "team_run pair_runner ''lead'' ''go'' (Some ''t'') None 0 (empty_store, fresh_world)")
  have d: "0 \<le> tn_max_depth pair_runner" and t: "''t'' \<noteq> []" by simp_all
  note k = mailbox_kept [OF pair_runner_ok empty_store_closed d empty_store_ok fresh_mailbox t run]
  have "map (\<lambda>r. sha256_hex (encode (ml_body r))) (filter (\<lambda>r. ml_session r = ''t'') (map (\<lambda>r. r\<lparr>ml_from := ''x'', ml_to := ''y''\<rparr>) (rev ms))) =
      rev (map (\<lambda>r. sha256_hex (encode (ml_body r))) (filter (\<lambda>r. ml_session r = ''t'') ms))" for ms :: "mail_row list"
    by (simp add: filter_map comp_def rev_filter [symmetric] rev_map [symmetric])
  then have "verify_team_mailbox (st'\<lparr>mailbox := map (\<lambda>r. r\<lparr>ml_from := ''x'', ml_to := ''y''\<rparr>) (rev (mailbox st'))\<rparr>) ''t'' = Inr (True, [])"
    unfolding mailbox_check_scope [OF k] by (simp only: mset_rev)
  then show ?thesis unfolding run fst_conv snd_conv by blast
qed

subsection \<open>Required children\<close>

text \<open>The evidence that a child completed for the run in session \<open>sid\<close>: the policy record in that session's ledger,
  and a session of the agent that the child's name stands for, started from that session.\<close>

definition says_completed :: "ledger_row \<Rightarrow> string \<Rightarrow> bool" where
  "says_completed r c \<longleftrightarrow> (\<exists>e. loads (lr_event r) = Some (JObj e) \<and> dict_get e ''type'' = Some (JStr ''policy'') \<and>
     dict_get e ''rule'' = Some (JStr ''required_children'') \<and> dict_get e ''decision'' = Some (JStr ''completed'') \<and>
     dict_get e ''child'' = Some (JStr c))"

definition ran :: "'x team_runner \<Rightarrow> store \<Rightarrow> string \<Rightarrow> string \<Rightarrow> bool" where
  "ran tn st sid c \<longleftrightarrow> (\<exists>r\<in>set (ledger st). lr_session r = sid \<and> says_completed r c) \<and>
     (\<exists>row\<in>set (team_sessions st). tm_parent row = Some sid \<and> entry_for (tn_loaded tn) c = Inr (tm_agent row))"

definition completions_backed :: "'x team_runner \<Rightarrow> string \<Rightarrow> store \<times> 'x team_world \<Rightarrow> bool" where
  "completions_backed tn sid s \<longleftrightarrow> (\<forall>c\<in>set (ps_completed (policy_state_of (snd s) sid)). ran tn (fst s) sid c)"

lemma ran_mono:
  "ran tn st sid c \<Longrightarrow> set (ledger st) \<subseteq> set (ledger st') \<Longrightarrow> set (team_sessions st) \<subseteq> set (team_sessions st') \<Longrightarrow> ran tn st' sid c"
  unfolding ran_def by blast

lemma backed_mono:
  assumes "completions_backed tn sid s" "policy_state_of (snd s') sid = policy_state_of (snd s) sid"
    "set (ledger (fst s)) \<subseteq> set (ledger (fst s'))" "set (team_sessions (fst s)) \<subseteq> set (team_sessions (fst s'))"
  shows "completions_backed tn sid s'"
  using assms(1,2) ran_mono [OF _ assms(3,4)] unfolding completions_backed_def by auto

lemma says_completed_row:
  "says_completed \<lparr>lr_session = sid, lr_seq = q, lr_event = canonical (JObj [(''type'', JStr ''policy''), (''parent'', JStr p), (''child'', JStr c),
     (''rule'', JStr ''required_children''), (''decision'', JStr ''completed''), (''reason'', JStr reason)]), lr_hash = h\<rparr> c"
proof -
  let ?ev = "[(''type'', JStr ''policy''), (''parent'', JStr p), (''child'', JStr c), (''rule'', JStr ''required_children''),
    (''decision'', JStr ''completed''), (''reason'', JStr reason)]"
  have wf: "wf_json (JObj ?ev)" by simp
  then have d: "distinct (map fst ?ev)" by simp
  obtain e where e: "sort_json (JObj ?ev) = JObj e" by (simp add: sort_json.simps)
  have "jget (sort_json (JObj ?ev)) k = map_option sort_json (dict_get ?ev k)" for k by (rule dict_get_sort_json [OF d])
  then have "dict_get e k = map_option sort_json (dict_get ?ev k)" for k unfolding e by simp
  then show ?thesis unfolding says_completed_def using loads_canonical [OF wf] e
    by (intro exI [of _ e]) (simp add: sort_json.simps)
qed

lemma policy_event_rows:
  "set (ledger st) \<subseteq> set (ledger (policy_event sid p c rule dec reason st))"
  "team_sessions (policy_event sid p c rule dec reason st) = team_sessions st"
  "\<exists>r\<in>set (ledger (policy_event sid p c ''required_children'' ''completed'' reason st)). lr_session r = sid \<and> says_completed r c"
proof -
  show "set (ledger st) \<subseteq> set (ledger (policy_event sid p c rule dec reason st))"
    unfolding policy_event_def using note_event_row [of sid _ st] by (metis Un_upper1 set_append)
  show "team_sessions (policy_event sid p c rule dec reason st) = team_sessions st" by (simp add: policy_event_def)
  obtain q h where "ledger (policy_event sid p c ''required_children'' ''completed'' reason st) = ledger st @ [\<lparr>lr_session = sid, lr_seq = q,
      lr_event = canonical (JObj [(''type'', JStr ''policy''), (''parent'', JStr p), (''child'', JStr c), (''rule'', JStr ''required_children''),
       (''decision'', JStr ''completed''), (''reason'', JStr reason)]), lr_hash = h\<rparr>]"
    unfolding policy_event_def using note_event_row by blast
  then show "\<exists>r\<in>set (ledger (policy_event sid p c ''required_children'' ''completed'' reason st)). lr_session r = sid \<and> says_completed r c"
    using says_completed_row by auto
qed

lemma deliver_rows:
  "set (ledger st) \<subseteq> set (ledger (deliver tid sid a b body dir st))" "team_sessions (deliver tid sid a b body dir st) = team_sessions st"
proof -
  show "team_sessions (deliver tid sid a b body dir st) = team_sessions st" by (simp add: deliver_def mailbox_send_def)
  have "ledger (mailbox_send st tid a b body) = ledger st" by (simp add: mailbox_send_def)
  then show "set (ledger st) \<subseteq> set (ledger (deliver tid sid a b body dir st))"
    unfolding deliver_def using note_event_row [of sid _ "mailbox_send st tid a b body"] by (metis Un_upper1 set_append)
qed

lemma policy_state_set [simp]:
  "policy_state_of (set_policy_state sid p w) sid' = (if sid' = sid then p else policy_state_of w sid')"
  "policy_state_of (on_event msg w) sid' = policy_state_of w sid'"
  by (simp_all add: policy_state_of_def)

lemma child_returned_backed:
  assumes b: "completions_backed tn psid (st, w)" and row: "\<exists>row\<in>set (team_sessions st). tm_parent row = Some psid \<and> entry_for (tn_loaded tn) (fst tk) = Inr (tm_agent row)"
    and r: "child_returned tid psid parent pol tk res (st, w) = (r, s')"
  shows "completions_backed tn psid s'"
proof -
  define s1 where "s1 = (policy_state_of w psid)\<lparr>ps_count := bump (fst tk) (ps_count (policy_state_of w psid))\<rparr>"
  have same: "completions_backed tn psid (st1, w1)"
    if "ps_completed (policy_state_of w1 psid) = ps_completed (policy_state_of w psid)" "set (ledger st) \<subseteq> set (ledger st1)" "team_sessions st1 = team_sessions st" for st1 w1
    using b that ran_mono [of tn st psid _ st1] unfolding completions_backed_def by auto
  have ev: "set (ledger st) \<subseteq> set (ledger (deliver tid psid (fst tk) parent m ''result'' (policy_event psid parent (fst tk) rule dec reason st)))" for m rule dec reason
    using policy_event_rows(1) deliver_rows(1) by (rule subset_trans)
  have new: "completions_backed tn psid (deliver tid psid (fst tk) parent m ''result'' (policy_event psid parent (fst tk) ''required_children'' ''completed'' reason st), w1)"
    if "ps_completed (policy_state_of w1 psid) = fst tk # ps_completed (policy_state_of w psid)" for w1 m reason
  proof -
    let ?st = "deliver tid psid (fst tk) parent m ''result'' (policy_event psid parent (fst tk) ''required_children'' ''completed'' reason st)"
    have t: "team_sessions ?st = team_sessions st" by (simp only: deliver_rows(2) policy_event_rows(2))
    have "\<exists>r\<in>set (ledger ?st). lr_session r = psid \<and> says_completed r (fst tk)"
      using policy_event_rows(3) [of psid parent "fst tk" reason st] deliver_rows(1) by blast
    then have "ran tn ?st psid (fst tk)" unfolding ran_def t using row by blast
    moreover have "ran tn ?st psid c" if "ran tn st psid c" for c by (rule ran_mono [OF that ev]) (simp only: t)
    ultimately show ?thesis using b that unfolding completions_backed_def by simp
  qed
  show ?thesis
    using r unfolding child_returned_def Let_def
    by (auto split: sum.splits if_splits simp del: set_append intro!: same new ev simp: deliver_rows(2) policy_event_rows(2))
qed

text \<open>A nested run that returns has started a session below its caller's.\<close>

definition child_ran :: "'x team_runner \<Rightarrow> string \<Rightarrow> nat \<Rightarrow> 'x agent_run \<Rightarrow> bool" where
  "child_ran tn tid depth rc \<longleftrightarrow> (\<forall>child task psid s r s'. depth \<le> tn_max_depth tn \<longrightarrow> closed (fst s) \<longrightarrow>
     rc child task tid psid depth s = (Inr r, s') \<longrightarrow>
     (\<exists>row\<in>set (team_sessions (fst s')). tm_parent row = Some psid \<and> entry_for (tn_loaded tn) child = Inr (tm_agent row)))"

lemma delegate_now_backed:
  assumes rc: "child_ok tn tid (Suc depth) rc" "child_ran tn tid (Suc depth) rc" "Suc depth \<le> tn_max_depth tn" and c: "closed st" and i: "psid \<in> ids st"
    and b: "completions_backed tn psid (st, w)" and d: "delegate_now rc tid psid parent depth pol child subtask eff (st, w) = (r, s')"
  shows "completions_backed tn psid s'"
proof -
  define st1 where "st1 = note_event psid [(''type'', JStr ''delegate''), (''parent'', JStr parent), (''child'', JStr child),
             (''team_id'', JStr tid), (''eff_cap_sha256'', JStr (eff_hash eff)), (''depth'', JInt (int (Suc depth)))] st"
  define w1 where "w1 = on_event (''  -> '' @ parent @ '' delegates to '' @ child @ '': '' @ take 70 subtask) w"
  define st2 where "st2 = deliver tid psid parent child subtask ''task'' st1"
  have d': "delegate_now rc tid psid parent depth pol child subtask eff (st, w) = (case rc child subtask tid psid (Suc depth) (st2, w1) of
      (Inl e, s3) \<Rightarrow> (Inl e, s3) | (Inr r, s3) \<Rightarrow> child_returned tid psid parent pol (child, sha256_hex (encode subtask)) r s3)"
    unfolding delegate_now_def Let_def prod.case st2_def st1_def w1_def Suc_eq_plus1 by (rule refl)
  obtain x st3 w3 where x: "rc child subtask tid psid (Suc depth) (st2, w1) = (x, st3, w3)"
    by (cases "rc child subtask tid psid (Suc depth) (st2, w1)")
  have "set (ledger st) \<subseteq> set (ledger st1)" "team_sessions st1 = team_sessions st"
    unfolding st1_def using note_event_row [of psid _ st] by (metis Un_upper1 set_append) simp
  moreover have "set (ledger st1) \<subseteq> set (ledger st2)" "team_sessions st2 = team_sessions st1" unfolding st2_def by (rule deliver_rows)+
  ultimately have b2: "completions_backed tn psid (st2, w1)" by (intro backed_mono [OF b]) (auto simp: w1_def)
  have "reaches tn tid {psid} (st, w1) (st1, w1)" unfolding st1_def by (rule reaches_event) (auto intro!: event_legalI)
  from reaches_in [OF this, of "(st2, w1)"] have "reaches tn tid {psid} (st, w1) (st2, w1)"
    unfolding st2_def using c i by (simp add: deliver_reaches)
  then have c2: "closed st2" "psid \<in> ids st2" using reaches_closed [of tn tid "{psid}" "(st, w1)" "(st2, w1)"] c i by auto
  have r3: "reaches tn tid {} (st2, w1) (st3, w3)" by (rule child_okD [OF rc(1,3) _ x]) (use c2 in simp)
  have "dict_get (tw_policy w3) psid = dict_get (tw_policy w1) psid" using r3 c2(2) by (simp add: reaches_def)
  then have b3: "completions_backed tn psid (st3, w3)"
    using reaches_closed(3,4) [OF r3] c2 by (intro backed_mono [OF b2]) (auto simp: policy_state_of_def)
  show ?thesis
  proof (cases x)
    case (Inl e)
    with d d' x b3 show ?thesis by simp
  next
    case (Inr res)
    with rc(2,3) c2(1) x have "\<exists>row\<in>set (team_sessions st3). tm_parent row = Some psid \<and> entry_for (tn_loaded tn) child = Inr (tm_agent row)"
      unfolding child_ran_def by (metis fst_conv)
    from child_returned_backed [OF b3, of "(child, sha256_hex (encode subtask))"] this Inr d d' x show ?thesis by simp
  qed
qed

lemma delegate_fn_backed:
  assumes rc: "child_ok tn tid (Suc depth) rc" "child_ran tn tid (Suc depth) rc" and c: "closed st" and i: "psid \<in> ids st"
    and bk: "completions_backed tn psid (st, w)" and d: "delegate_fn tn rc parent tid depth psid pol team args (st, w) = (r, s')"
  shows "completions_backed tn psid s'"
proof -
  obtain b w0 where b: "lift_env (tn_cancelled tn) w = (b, w0)" by (cases "lift_env (tn_cancelled tn) w")
  obtain gone w1 where g: "lift_env (tn_revoked tn) w0 = (gone, w1)" by (cases "lift_env (tn_revoked tn) w0")
  have p: "policy_state_of w0 x = policy_state_of w x" "policy_state_of w1 x = policy_state_of w x" for x
    using lift_env_policy [OF b] lift_env_policy [OF g] by (simp_all add: policy_state_of_def)
  have 1: "completions_backed tn psid (st, v)" if "policy_state_of v psid = policy_state_of w psid" for v
    by (rule backed_mono [OF bk]) (simp_all add: that)
  have 2: "completions_backed tn psid (denied_event psid q ch reason st, v)" if "policy_state_of v psid = policy_state_of w psid" for v q ch reason
  proof (rule backed_mono [OF bk])
    show "set (ledger (fst (st, w))) \<subseteq> set (ledger (fst (denied_event psid q ch reason st, v)))"
      unfolding denied_event_def fst_conv using note_event_row [of psid _ st] by (metis Un_upper1 set_append)
  qed (simp_all add: that denied_event_def)
  have 3: "completions_backed tn psid (policy_event psid q ch rule dec reason st, v)" if "policy_state_of v psid = policy_state_of w psid" for v q ch rule dec reason
    by (rule backed_mono [OF bk]) (simp_all add: that policy_event_rows)
  have 4: "completions_backed tn psid (snd (delegate_now rc tid psid parent depth pol ch sb eff (st, w1)))"
    if "\<not> tn_max_depth tn < depth + 1" for ch sb eff
    by (rule delegate_now_backed [OF rc _ c i 1 prod.collapse [symmetric]]) (use that p in auto)
  have "completions_backed tn psid (snd (delegate_fn tn rc parent tid depth psid pol team args (st, w)))"
    unfolding delegate_fn_def prod.case b g Let_def
    by (simp only: 1 2 3 4 p policy_state_set snd_conv simp_thms split: if_split sum.split bool.split) (intro allI impI, rule 4)
  with d show ?thesis by simp
qed

lemma agent_kstep_backed:
  fixes tn :: "'x team_runner"
  assumes tn: "runner_ok tn" and rc: "child_ok tn tid (Suc depth) rc" "child_ran tn tid (Suc depth) rc"
    and st: "closed (fst s)" "sid \<in> ids (fst s)" and b: "completions_backed tn sid s"
    and k: "kstep (agent_kernel tn rc entry spec team eff tid depth sid required) sid s s'"
  shows "completions_backed tn sid s'"
  using k
proof cases
  case (Tool call spec' st w r)
  from Tool(2) have "dict_get (k_tools (agent_kernel tn rc entry spec team eff tid depth sid required)) (tc_name call) = Some spec'"
    by (simp add: cap_check_Inr)
  then show ?thesis
  proof (cases rule: agent_tool_cases)
    case 1
    with Tool have "delegate_fn tn rc entry tid depth sid (as_policy spec) team (tc_arguments call) (st, w) = (r, s')"
      by (simp add: delegate_tool_def)
    from delegate_fn_backed [OF rc _ _ _ this] assms(4-6) Tool(1) show ?thesis by simp
  next
    case (2 t0)
    with Tool lift_tool_reaches [OF tn 2(1), of "tc_arguments call" st w r s'] obtain x where "s' = (st, w\<lparr>tw_env := x\<rparr>)" by blast
    then show ?thesis using b unfolding Tool(1) by (auto intro!: backed_mono [OF b] simp: Tool(1) policy_state_of_def)
  qed
next
  case (Event ev st w)
  have "set (ledger st) \<subseteq> set (ledger (note_event sid ev st))" using note_event_row [of sid ev st] by auto
  then show ?thesis using Event by (intro backed_mono [OF b]) simp_all
next
  case (Model msgs tls w r w' st)
  then show ?thesis by (auto simp: agent_kernel_def Let_def policy_state_of_def dest!: lift_env_policy intro!: backed_mono [OF b])
next
  case (Clock w now w' st)
  then show ?thesis by (auto simp: agent_kernel_def Let_def policy_state_of_def dest!: lift_env_policy intro!: backed_mono [OF b])
next
  case (Poll f w r w' st)
  then show ?thesis by (auto simp: agent_kernel_def Let_def policy_state_of_def dest!: lift_env_policy intro!: backed_mono [OF b])
next
  case (Sleep st d w)
  then show ?thesis by (auto simp: agent_kernel_def Let_def policy_state_of_def intro!: backed_mono [OF b])
qed (auto intro!: backed_mono [OF b])

lemma agent_ksteps_backed:
  fixes tn :: "'x team_runner"
  assumes tn: "runner_ok tn" and rc: "child_ok tn tid (Suc depth) rc" "child_ran tn tid (Suc depth) rc"
    and team: "team_for (tn_loaded tn) entry = Inr team" "effective_manifest (tn_realpath tn) (team\<lparr>tm_revoked := gone\<rparr>) entry = Inr eff"
    and st: "closed (fst s)" "owned tid sid entry (fst s)" and b: "completions_backed tn sid s"
    and k: "ksteps (agent_kernel tn rc entry spec team eff tid depth sid required) sid s s'"
  shows "completions_backed tn sid s'"
  using k
proof (induction rule: rtranclp_induct)
  case base
  show ?case by (rule b)
next
  case (step y z)
  note r = agent_ksteps [OF tn rc(1) team st step.hyps(1)]
  have "sid \<in> ids (fst s)" using st(2) by (simp add: owned_def)
  then have "closed (fst y)" "sid \<in> ids (fst y)" using reaches_closed [OF r st(1)] by auto
  from agent_kstep_backed [OF tn rc this step.IH step.hyps(2)] show ?case .
qed

lemma run_agent_required:
  assumes tn: "runner_ok tn" and rc: "child_ok tn tid (Suc depth) rc" "child_ran tn tid (Suc depth) rc" and d: "depth \<le> tn_max_depth tn" and c: "closed st"
    and r: "run_agent tn rc entry_name task tid parent depth (st, w) = (Inr res, s')"
  shows "\<exists>row\<in>set (team_sessions (fst s')). tm_parent row = parent \<and> tm_session row = rr_session res \<and> entry_for (tn_loaded tn) entry_name = Inr (tm_agent row) \<and>
    (\<exists>spec required. dict_get (lt_specs (tn_loaded tn)) (tm_agent row) = Some spec \<and> items_in (as_policy spec) ''required_children'' = Inr required \<and>
      (rr_stopped res = ''completed'' \<longrightarrow> (\<forall>j\<in>set required. \<exists>c. j = JStr c \<and> ran tn (fst s') (rr_session res) c)))"
  using r
proof (cases rule: run_agent_cases)
  case (started entry team gone eff fresh sid st1 now w5)
  let ?st2 = "team_session_add st1 now tid sid entry parent depth"
  have pw: "\<forall>x. x \<noteq> sid \<longrightarrow> dict_get (tw_policy w5) x = dict_get (tw_policy w) x" using started(5) by simp
  have b: "reaches tn tid {} (st, w) (?st2, w5)" "owned tid sid entry ?st2" "sid \<notin> ids st"
    by (rule start_reaches [OF c started(4) d pw])+
  have c2: "closed ?st2" using reaches_closed(1) [OF b(1)] c by simp
  have i2: "sid \<in> ids ?st2" using b(2) by (auto simp: owned_def)
  from started(6) obtain spec required st3 where sp: "dict_get (lt_specs (tn_loaded tn)) entry = Some spec"
      and st3: "st3 = open_records tn entry spec (granted team entry eff) (agent_prompt spec (granted team entry eff)) depth sid ?st2"
      and req: "items_in (as_policy spec) ''required_children'' = Inr required"
      and fin: "finish_run tid depth sid (kernel_run (agent_kernel tn rc entry spec team eff tid depth sid required) sid task (st3, w5)) = (Inr res, s')"
    unfolding Let_def by blast
  let ?k = "agent_kernel tn rc entry spec team eff tid depth sid required"
  have r3: "reaches tn tid {sid} (?st2, w5) (st3, w5)" unfolding st3 by (rule open_records_reaches [OF tn sp c2 i2])
  have c3: "closed st3" using reaches_closed(1) [OF r3] c2 i2 by simp
  have o3: "owned tid sid entry st3" using b(2) reaches_closed(2,3) [OF r3] c2 i2 by (auto simp: owned_def)
  from fin obtain res0 s1 where k: "kernel_run ?k sid task (st3, w5) = (Inr res0, s1)" and s1: "s' = s1"
      and res: "rr_session res = sid" "rr_stopped res = rr_stopped res0"
    by (auto simp: finish_run_def split: sum.splits prod.splits if_splits)
  note ok = agent_adapter_ok [OF tn]
  note steps = kernel_run_steps [OF ok k]
  have r1: "reaches tn tid {sid} (st3, w5) s1" using agent_ksteps [OF tn rc(1) started(2,3) _ _ steps] c3 o3 by simp
  obtain row where row: "row \<in> set (team_sessions ?st2)" "tm_session row = sid" "tm_agent row = entry" "tm_parent row = parent"
  proof -
    have s: "sid \<notin> tm_session ` set (team_sessions st)" "team_sessions st1 = team_sessions st"
      using started(4) c by (auto simp: create_session_def closed_def ids_def Let_def split: if_splits)
    then show thesis by (intro that [of "\<lparr>tm_team = tid, tm_session = sid, tm_agent = entry, tm_parent = parent, tm_depth = depth, tm_created = now\<rparr>"])
      (simp_all add: team_session_add_def)
  qed
  have "row \<in> set (team_sessions (fst s'))"
    using row(1) reaches_closed(3) [OF r3] reaches_closed(3) [OF r1] c2 i2 c3 o3 s1 by (auto simp: owned_def)
  moreover have "\<exists>c. j = JStr c \<and> ran tn (fst s') sid c" if j: "j \<in> set required" and comp: "rr_stopped res = ''completed''" for j
  proof -
    have ne: "required \<noteq> []" using j by auto
    then have g: "k_finalize_guard ?k = Some (finalize_guard required sid)" by (simp add: agent_kernel_def Let_def)
    from kernel_run_passed [OF ok k] comp res g obtain s2 where s2: "ksteps ?k sid (st3, w5) s2" "ksteps ?k sid s2 s1"
        "finalize_guard required sid sid s2 = None \<or> finalize_guard required sid sid s2 = Some []"
      unfolding passed_def by auto
    from s2(3) j obtain c where jc: "j = JStr c" "c \<in> set (ps_completed (policy_state_of (snd s2) sid))"
      by (auto simp: finalize_guard_def Let_def filter_empty_conv split: if_splits)
    have "completions_backed tn sid (st3, w5)" using started(5) by (simp add: completions_backed_def policy_state_of_def new_policy_state_def)
    with agent_ksteps_backed [OF tn rc started(2,3) _ _ _ s2(1)] c3 o3 have "completions_backed tn sid s2" by simp
    with jc have rn: "ran tn (fst s2) sid c" by (simp add: completions_backed_def)
    have q: "reaches tn tid {sid} (st3, w5) s2" using agent_ksteps [OF tn rc(1) started(2,3) _ _ s2(1)] c3 o3 by simp
    have i3: "{sid} \<subseteq> ids st3" using o3 by (simp add: owned_def)
    have q2: "closed (fst s2)" "owned tid sid entry (fst s2)" using reaches_closed [OF q] c3 i3 o3 by (auto simp: owned_def)
    have "reaches tn tid {sid} s2 s1" by (rule agent_ksteps [OF tn rc(1) started(2,3) q2 s2(2)])
    with rn q2 s1 have "ran tn (fst s') sid c"
      using reaches_closed(3,4) [of tn tid "{sid}" s2 s1] by (intro ran_mono [OF rn]) (auto simp: owned_def)
    with jc show ?thesis by blast
  qed
  ultimately show ?thesis using row res sp req started(1) by auto
qed simp

lemma run_levels_nested:
  assumes tn: "runner_ok tn"
  obtains rc where "child_ok tn tid (Suc depth) rc" "child_ran tn tid (Suc depth) rc" "run_levels tn n = run_agent tn rc"
proof (induction n arbitrary: depth thesis)
  case 0
  show ?case
    by (rule 0 [of "\<lambda>child task tid psid depth s. (Inl (mk_exn ''RecursionError'' ''unreachable''), s)"])
      (auto simp: child_ok_def child_ran_def reaches_refl)
next
  case (Suc n)
  obtain rc where rc: "child_ok tn tid (Suc (Suc depth)) rc" "child_ran tn tid (Suc (Suc depth)) rc" "run_levels tn n = run_agent tn rc"
    by (rule Suc.IH)
  let ?rc = "\<lambda>child task tid psid depth s. run_levels tn n child task tid (Some psid) depth s"
  show ?case
  proof (rule Suc.prems [of ?rc])
    show "child_ok tn tid (Suc depth) ?rc" unfolding child_ok_def using run_levels_reaches [OF tn] by blast
    show "child_ran tn tid (Suc depth) ?rc"
      unfolding child_ran_def rc(3)
    proof (intro allI impI)
      fix child task psid s r s'
      assume "Suc depth \<le> tn_max_depth tn" "closed (fst s)" "run_agent tn rc child task tid (Some psid) (Suc depth) s = (Inr r, s')"
      with run_agent_required [OF tn rc(1,2), of "fst s" child task "Some psid" "snd s" r s']
      show "\<exists>row\<in>set (team_sessions (fst s')). tm_parent row = Some psid \<and> entry_for (tn_loaded tn) child = Inr (tm_agent row)" by auto
    qed
  qed simp
qed

text \<open>C17: Required children really ran. When a team run, at any level, ends as completed, then for every child that
  its agent's policy requires there is a record in the hash chain of the run's own session that the child completed, and
  a session of the agent that the child's name stands for, whose parent is this session.\<close>

theorem required_children_ran:
  assumes tn: "runner_ok tn" and c: "closed st" and d: "depth \<le> tn_max_depth tn"
    and run: "run_levels tn n entry_name task tid parent depth (st, w) = (x, st', w')"
    and e: "entry_for (tn_loaded tn) entry_name = Inr entry" "dict_get (lt_specs (tn_loaded tn)) entry = Some spec"
    and req: "items_in (as_policy spec) ''required_children'' = Inr required"
  shows "\<forall>res j. x = Inr res \<longrightarrow> rr_stopped res = ''completed'' \<longrightarrow> j \<in> set required \<longrightarrow> (\<exists>child. j = JStr child \<and>
    (\<exists>r\<in>set (ledger st'). lr_session r = rr_session res \<and>
      (\<exists>ev. loads (lr_event r) = Some (JObj ev) \<and> dict_get ev ''type'' = Some (JStr ''policy'') \<and>
         dict_get ev ''rule'' = Some (JStr ''required_children'') \<and> dict_get ev ''decision'' = Some (JStr ''completed'') \<and>
         dict_get ev ''child'' = Some (JStr child))) \<and>
    (\<exists>row\<in>set (team_sessions st'). tm_parent row = Some (rr_session res) \<and> entry_for (tn_loaded tn) child = Inr (tm_agent row)))"
proof (intro allI impI)
  fix res j assume x: "x = Inr res" "rr_stopped res = ''completed''" "j \<in> set required"
  obtain rc where rc: "child_ok tn tid (Suc depth) rc" "child_ran tn tid (Suc depth) rc" "run_levels tn n = run_agent tn rc"
    by (rule run_levels_nested [OF tn])
  from run_agent_required [OF tn rc(1,2) d c run [unfolded rc(3) x(1)]] e req x(2)
  have "\<forall>j\<in>set required. \<exists>c. j = JStr c \<and> ran tn st' (rr_session res) c" by auto
  with x(3) obtain child where "j = JStr child" "ran tn st' (rr_session res) child" by blast
  then show "\<exists>child. j = JStr child \<and>
    (\<exists>r\<in>set (ledger st'). lr_session r = rr_session res \<and>
      (\<exists>ev. loads (lr_event r) = Some (JObj ev) \<and> dict_get ev ''type'' = Some (JStr ''policy'') \<and>
         dict_get ev ''rule'' = Some (JStr ''required_children'') \<and> dict_get ev ''decision'' = Some (JStr ''completed'') \<and>
         dict_get ev ''child'' = Some (JStr child))) \<and>
    (\<exists>row\<in>set (team_sessions st'). tm_parent row = Some (rr_session res) \<and> entry_for (tn_loaded tn) child = Inr (tm_agent row))"
    unfolding ran_def says_completed_def by blast
qed

theorem required_children_ran_witness:
  "case run_levels pair_runner 4 ''lead'' ''go'' ''t'' None 0 (empty_store, fresh_world) of
     (Inr res, st', w') \<Rightarrow> rr_stopped res = ''completed'' \<longrightarrow> (\<exists>row\<in>set (team_sessions st'). tm_parent row = Some (rr_session res))
   | (Inl e, st', w') \<Rightarrow> True"
proof -
  obtain x st' w' where run: "run_levels pair_runner 4 ''lead'' ''go'' ''t'' None 0 (empty_store, fresh_world) = (x, st', w')"
    by (cases "run_levels pair_runner 4 ''lead'' ''go'' ''t'' None 0 (empty_store, fresh_world)")
  have "dict_get (map (\<lambda>(n, s). (n, as_policy s)) (lt_specs pair_loaded)) ''lead'' = Some [(''required_children'', JArr [JStr ''dev''])]"
    unfolding pair_load(3) by simp
  then obtain spec where s: "dict_get (lt_specs pair_loaded) ''lead'' = Some spec" "as_policy spec = [(''required_children'', JArr [JStr ''dev''])]"
    by (auto simp: dict_get_map_snd)
  then have req: "items_in (as_policy spec) ''required_children'' = Inr [JStr ''dev'']" by (simp add: items_in_def truthy_def)
  from required_children_ran [OF pair_runner_ok empty_store_closed _ run, of "''lead''" spec "[JStr ''dev'']"] s(1) req pair_load(2)
  show ?thesis unfolding run pair_runner_sel by (auto split: sum.splits)
qed

subsection \<open>What the delegate tool does not check\<close>

text \<open>A child that stopped without a result still counts as completed. When a child's run ends abnormally with no
  text, as after model errors, the message that says so is not empty, and so the child is recorded as completed even
  under a policy that requires non-empty results.\<close>

theorem stopped_child_counts:
  assumes "rr_final_text r = []" and "rr_stopped r \<noteq> ''completed''" and "child_all_denied st (rr_session r) = Inr False"
    and run: "child_returned tid psid parent pol (child, h) r (st, w) = (x, st', w')"
  shows "x = Inr (''CHILD STOPPED ['' @ rr_stopped r @ '']: '' @ py_repr child @ '' ended without a result'') \<and>
    child \<in> set (ps_completed (policy_state_of w' psid))"
proof -
  let ?m = "''CHILD STOPPED ['' @ rr_stopped r @ '']: '' @ py_repr child @ '' ended without a result''"
  have t: "child_text child r = ?m" using assms(1,2) by (simp add: child_text_def)
  have "strip ?m = ?m" by (rule strip_id) (simp_all add: is_space_def)
  then have "strip ?m \<noteq> []" by simp
  then show ?thesis using run assms(3) unfolding child_returned_def Let_def prod.case fst_conv t by auto
qed

definition stopped_result :: run_result where
  "stopped_result = \<lparr>rr_session = ''s1'', rr_final_text = [], rr_iterations = 1, rr_stopped = ''model_error'', rr_pending = None\<rparr>"

theorem stopped_child_counts_witness:
  "\<exists>x st' w'. child_returned ''t'' ''s0'' ''lead'' [(''require_nonempty_result'', JBool True)] (''dev'', ''h'') stopped_result (empty_store, fresh_world) = (x, st', w') \<and>
    ''dev'' \<in> set (ps_completed (policy_state_of w' ''s0''))"
proof -
  obtain x st' w' where run: "child_returned ''t'' ''s0'' ''lead'' [(''require_nonempty_result'', JBool True)] (''dev'', ''h'') stopped_result
      (empty_store, fresh_world) = (x, st', w')"
    by (cases "child_returned ''t'' ''s0'' ''lead'' [(''require_nonempty_result'', JBool True)] (''dev'', ''h'') stopped_result (empty_store, fresh_world)")
  have "child_all_denied empty_store (rr_session stopped_result) = Inr False"
    by (simp add: child_all_denied_def)
  from stopped_child_counts [OF _ _ this run] run show ?thesis by (simp add: stopped_result_def)
qed

definition shadow_docs :: "json list" where
  "shadow_docs =
     [JObj [(''name'', JStr ''lead''), (''delegates'', JArr [JStr ''dev''])], JObj [(''name'', JStr ''dev'')],
      JObj [(''name'', JStr ''ops''), (''capabilities'', JObj [(''tools'', JArr [JStr ''exec''])])]]"

text \<open>A team's alias may take the place of a child. Loading accepts a package whose \<open>teams\<close> map names one team
  like an agent of another; delegating to that agent then runs the root of the named team, with tools that the
  delegating agent does not have.\<close>

theorem alias_shadows_delegate:
  "\<exists>l t ot m om. build_loaded id (\<lambda>_. Inr 0) shadow_docs [(''main'', ''lead''), (''dev'', ''ops'')] ''/w'' None = Some (Inr l) \<and>
     team_for l ''lead'' = Inr t \<and> ''dev'' \<in> set (kids (tm_edges t) ''lead'') \<and> entry_for l ''dev'' = Inr ''ops'' \<and>
     team_for l ''ops'' = Inr ot \<and> effective_manifest id t ''lead'' = Inr m \<and> effective_manifest id ot ''ops'' = Inr om \<and>
     ''exec'' \<in> tools om \<and> ''exec'' \<notin> tools m"
proof -
  have "(case build_loaded id (\<lambda>_. Inr 0) shadow_docs [(''main'', ''lead''), (''dev'', ''ops'')] ''/w'' None of
      Some (Inr l) \<Rightarrow> (case (team_for l ''lead'', team_for l ''ops'') of (Inr t, Inr ot) \<Rightarrow>
         ''dev'' \<in> set (kids (tm_edges t) ''lead'') \<and> entry_for l ''dev'' = Inr ''ops'' \<and>
         (case (effective_manifest id t ''lead'', effective_manifest id ot ''ops'') of (Inr m, Inr om) \<Rightarrow> ''exec'' \<in> tools om \<and> ''exec'' \<notin> tools m
          | _ \<Rightarrow> False) | _ \<Rightarrow> False) | _ \<Rightarrow> False)"
    by code_simp
  then show ?thesis by (auto split: option.splits sum.splits prod.splits)
qed

end
