(* ===== verification/Semver.thy ===== *)
theory Semver
  imports Json
begin

text \<open>
  Semantic versions (\<open>scr/semver.py\<close>): reading \<open>major.minor.patch\<close> from the front of a
  string and checking a constraint with one of the operators \<open>>= <= == > <\<close>.
\<close>

type_synonym version = "nat \<times> nat \<times> nat"

definition semver_error :: "string \<Rightarrow> py_exn" where
  "semver_error v = mk_exn ''SemverError'' (''not a semantic version: '' @ py_repr v)"

text \<open>One group \<open>(\d+)\<close> of the pattern, which takes as many digits as there are.\<close>

definition scan_digits :: "string \<Rightarrow> (nat \<times> string) option" where
  "scan_digits s = (let ds = takeWhile is_digit s in
     if ds = [] then None else Some (digits_val ds, dropWhile is_digit s))"

definition scan_dot :: "string \<Rightarrow> string option" where
  "scan_dot s = (case s of c # r \<Rightarrow> if c = CHR ''.'' then Some r else None | [] \<Rightarrow> None)"

definition parse_version :: "string \<Rightarrow> py_exn + version" where
  "parse_version s =
     (case scan_digits (lstrip s) of
        None \<Rightarrow> Inl (semver_error s)
      | Some (a, r1) \<Rightarrow>
          (case Option.bind (scan_dot r1) scan_digits of
             None \<Rightarrow> Inl (semver_error s)
           | Some (b, r2) \<Rightarrow>
               (case Option.bind (scan_dot r2) scan_digits of
                  None \<Rightarrow> Inl (semver_error s)
                | Some (c, _) \<Rightarrow> Inr (a, b, c))))"

definition OPS :: "string list" where
  "OPS = [''>='', ''<='', ''=='', ''>'', ''<'']"

definition split_op :: "string \<Rightarrow> string \<times> string" where
  "split_op constraint =
     (case find (startswith constraint) OPS of
        Some op \<Rightarrow> (op, drop (length op) constraint)
      | None \<Rightarrow> (''=='', constraint))"

text \<open>Python compares the triples component by component.\<close>

fun version_less :: "version \<Rightarrow> version \<Rightarrow> bool" where
  "version_less (a, b, c) (a', b', c') \<longleftrightarrow> a < a' \<or> a = a' \<and> (b < b' \<or> b = b' \<and> c < c')"

definition compare_op :: "string \<Rightarrow> version \<Rightarrow> version \<Rightarrow> bool" where
  "compare_op op v t =
     (if op = ''>='' then \<not> version_less v t
      else if op = ''<='' then \<not> version_less t v
      else if op = ''>'' then version_less t v
      else if op = ''<'' then version_less v t
      else v = t)"

definition satisfies :: "string \<Rightarrow> string \<Rightarrow> py_exn + bool" where
  "satisfies version constraint =
     (case split_op (strip constraint) of
        (op, rest) \<Rightarrow>
          (case parse_version version of
             Inl e \<Rightarrow> Inl e
           | Inr v \<Rightarrow> (case parse_version rest of
                         Inl e \<Rightarrow> Inl e
                       | Inr t \<Rightarrow> Inr (compare_op op v t))))"

subsection \<open>Reading back a printed version\<close>

fun show_version :: "version \<Rightarrow> string" where
  "show_version (a, b, c) = nat_str a @ ''.'' @ nat_str b @ ''.'' @ nat_str c"

definition no_digit :: "string \<Rightarrow> bool" where
  "no_digit r \<longleftrightarrow> (\<forall>c s. r = c # s \<longrightarrow> \<not> is_digit c)"

lemma scan_digits_nat_str: "no_digit r \<Longrightarrow> scan_digits (nat_str n @ r) = Some (n, r)"
proof -
  assume r: "no_digit r"
  have d: "\<forall>c\<in>set (nat_str n). is_digit c" using nat_str_digits by blast
  have "takeWhile is_digit (nat_str n @ r) = nat_str n" "dropWhile is_digit (nat_str n @ r) = r"
    using d r by (cases r; simp add: no_digit_def takeWhile_append2 dropWhile_append2)+
  then show ?thesis by (simp add: scan_digits_def digits_val_nat_str)
qed

lemma digit_not_space: "is_digit c \<Longrightarrow> \<not> is_space c"
  by (auto simp: is_digit_def is_space_def)

lemma lstrip_nat_str: "lstrip (nat_str n @ r) = nat_str n @ r"
proof -
  obtain c s where "nat_str n = c # s" by (cases "nat_str n") auto
  moreover have "is_digit c" using calculation nat_str_digits [of c n] by simp
  ultimately show ?thesis by (simp add: lstrip_def digit_not_space)
qed

lemma dot_no_digit [simp]: "no_digit (CHR ''.'' # s)"
  by (simp add: no_digit_def is_digit_def)

text \<open>A printed version reads back as itself, whatever non-digit suffix (a pre-release or build
  tag) follows and whatever whitespace precedes it.\<close>

theorem parse_show_version:
  assumes "no_digit suffix" and "\<forall>c\<in>set blanks. is_space c"
  shows "parse_version (blanks @ show_version v @ suffix) = Inr v"
proof -
  obtain a b c where v: "v = (a, b, c)" by (cases v)
  have l: "lstrip (blanks @ show_version v @ suffix) = show_version v @ suffix"
    using assms(2) lstrip_nat_str [of a] by (simp add: lstrip_def dropWhile_append2 v)
  show ?thesis
    unfolding parse_version_def l using assms(1) by (simp add: v scan_digits_nat_str scan_dot_def)
qed

theorem parse_show_version_witness: "parse_version ''  1.20.3-rc1'' = Inr (1, 20, 3)"
proof -
  have "show_version (1, 20, 3) = ''1.20.3''" by code_simp
  then show ?thesis
    using parse_show_version [of "''-rc1''" "''  ''" "(1, 20, 3)"] by (simp add: no_digit_def is_digit_def is_space_def)
qed

subsection \<open>Constraints\<close>

lemma show_version_ends:
  "\<exists>c s. show_version v = c # s \<and> is_digit c" "is_digit (last (show_version v))" "show_version v \<noteq> []"
proof -
  obtain a b c where v: "v = (a, b, c)" by (cases v)
  obtain d s where d: "nat_str a = d # s" by (cases "nat_str a") auto
  then have "is_digit d" using nat_str_digits [of d a] by simp
  with d v show "\<exists>c s. show_version v = c # s \<and> is_digit c" by simp
  have "last (nat_str c) \<in> set (nat_str c)" by simp
  then have "is_digit (last (nat_str c))" by (rule nat_str_digits)
  then show "is_digit (last (show_version v))" by (simp add: v)
  show "show_version v \<noteq> []" by (simp add: v)
qed

lemma op_digit: "is_digit c \<Longrightarrow> c \<noteq> CHR ''='' \<and> c \<noteq> CHR ''<'' \<and> c \<noteq> CHR ''>''"
  by (auto simp: is_digit_def)

lemma split_op_shown:
  assumes "op \<in> set OPS"
  shows "split_op (strip (op @ show_version t)) = (op, show_version t)"
    and "split_op (strip (show_version t)) = (''=='', show_version t)"
proof -
  obtain c s where c: "show_version t = c # s" "is_digit c" using show_version_ends(1) by blast
  have l: "\<not> is_space (last (show_version t))" using show_version_ends(2) digit_not_space by blast
  have "op \<noteq> [] \<and> \<not> is_space (hd op)" using assms by (auto simp: OPS_def is_space_def)
  then have "strip (op @ show_version t) = op @ show_version t"
    using l show_version_ends(3) by (intro strip_id) auto
  moreover have "strip (show_version t) = show_version t"
    using l show_version_ends(3) c digit_not_space by (intro strip_id) auto
  ultimately show "split_op (strip (op @ show_version t)) = (op, show_version t)"
    and "split_op (strip (show_version t)) = (''=='', show_version t)"
    using assms c op_digit [OF c(2)] by (auto simp: split_op_def OPS_def startswith_def)
qed

lemma version_order: "v = t \<or> version_less v t \<or> version_less t v" "\<not> version_less v v"
  "version_less v t \<Longrightarrow> \<not> version_less t v"
  by (cases v; cases t; auto)+

lemma parse_shown: "parse_version (show_version v) = Inr v"
proof -
  obtain a b c where v: "v = (a, b, c)" by (cases v)
  have "no_digit []" by (simp add: no_digit_def)
  from scan_digits_nat_str [OF this, of c] show ?thesis
    using lstrip_nat_str [of a "''.'' @ nat_str b @ ''.'' @ nat_str c"]
    by (simp add: parse_version_def v scan_digits_nat_str scan_dot_def)
qed

text \<open>A constraint means what it says: for an operator in front of a version, or a bare
  version, the answer is the comparison of the two triples, in which exactly one of
  less, equal and greater holds.\<close>

theorem satisfies_shown:
  assumes "op \<in> set OPS"
  shows "satisfies (show_version v) (op @ show_version t) = Inr (compare_op op v t) \<and>
    satisfies (show_version v) (show_version t) = Inr (v = t) \<and>
    (compare_op ''>='' v t \<longleftrightarrow> compare_op ''>'' v t \<or> compare_op ''=='' v t) \<and>
    (compare_op ''<='' v t \<longleftrightarrow> compare_op ''<'' v t \<or> compare_op ''=='' v t) \<and>
    (compare_op ''>'' v t \<longleftrightarrow> \<not> compare_op ''<='' v t) \<and> (compare_op ''<'' v t \<longleftrightarrow> compare_op ''>'' t v)"
proof -
  have "satisfies (show_version v) (op @ show_version t) = Inr (compare_op op v t)"
    "satisfies (show_version v) (show_version t) = Inr (compare_op ''=='' v t)"
    by (simp_all add: satisfies_def split_op_shown [OF assms] parse_shown del: show_version.simps)
  then show ?thesis
    using version_order(1,3) [of v t] version_order(3) [of t v] version_order(2) [of v]
    by (auto simp: compare_op_def)
qed

theorem satisfies_shown_witness:
  "satisfies (show_version (1, 10, 0)) (''>='' @ show_version (1, 9, 5)) = Inr True"
  using satisfies_shown [of "''>=''" "(1, 10, 0)" "(1, 9, 5)"] by (simp add: OPS_def compare_op_def)

end
