(* ===== verification/Registry.thy ===== *)
theory Registry
  imports Packages Semver
begin

text \<open>
  The registry of installed packages (\<open>scr/registry.py\<close>) with the package self-tests
  (\<open>run_selftests\<close> in \<open>scr/loader.py\<close>). The registry's directory is a map from paths to files; a
  file is what opening it as a zip yields. Copying, renaming and removing files succeed. The index is the
  decoded content of \<open>installed.json\<close>. The YAML reader is a parameter, and so is the text a scenario's
  run ends with.
\<close>

subsection \<open>Compatibility declarations\<close>

definition py_int :: "json \<Rightarrow> py_exn + int" where
  "py_int j = (case j of
     JInt i \<Rightarrow> Inr i
   | JBool b \<Rightarrow> Inr (if b then 1 else 0)
   | JStr s \<Rightarrow> (case int_of_str s of Some i \<Rightarrow> Inr i
                | None \<Rightarrow> Inl (mk_exn ''ValueError'' ''invalid literal for int()''))
   | _ \<Rightarrow> Inl (mk_exn ''TypeError'' ''int() argument''))"

text \<open>\<open>manifest.get(k) or {}\<close>, used as a dictionary.\<close>

definition dict_or_empty :: "dict \<Rightarrow> string \<Rightarrow> py_exn + dict" where
  "dict_or_empty d k =
     (let j = get_or_null d k in
      if \<not> truthy j then Inr []
      else (case j of JObj x \<Rightarrow> Inr x | _ \<Rightarrow> Inl (mk_exn ''AttributeError'' ''object has no attribute get'')))"

definition is_semver_error :: "py_exn \<Rightarrow> bool" where
  "is_semver_error e \<longleftrightarrow> exn_class e = ''SemverError''"

definition runtime_problems :: "dict \<Rightarrow> string \<Rightarrow> py_exn + string list" where
  "runtime_problems runtime runtime_version =
     (let rt = get_or_null runtime ''min'' in
      if \<not> truthy rt then Inr []
      else (case satisfies runtime_version (''>='' @ py_str rt) of
              Inr ok \<Rightarrow> Inr (if ok then [] else [''requires runtime >= '' @ py_str rt @ '', have '' @ runtime_version])
            | Inl e \<Rightarrow> if is_semver_error e then Inr [''bad runtime constraint: '' @ exn_msg e] else Inl e))"

definition dep_problem :: "(string \<times> string) list \<Rightarrow> string \<times> json \<Rightarrow> py_exn + string list" where
  "dep_problem installed p =
     (case p of (dep, constraint) \<Rightarrow>
        (case dict_get installed dep of
           None \<Rightarrow> Inr [''missing dependency '' @ py_repr dep @ '' ('' @ py_str constraint @ '')'']
         | Some have \<Rightarrow>
             (case constraint of
                JStr c \<Rightarrow>
                  (case satisfies have c of
                     Inr ok \<Rightarrow> Inr (if ok then [] else [''dependency '' @ dep @ '' '' @ have @ '' does not satisfy '' @ c])
                   | Inl e \<Rightarrow> if is_semver_error e
                               then Inr [''bad dependency constraint for '' @ dep @ '': '' @ exn_msg e] else Inl e)
              | _ \<Rightarrow> Inl (mk_exn ''AttributeError'' ''object has no attribute strip''))))"

fun dep_problems :: "(string \<times> string) list \<Rightarrow> dict \<Rightarrow> py_exn + string list" where
  "dep_problems installed [] = Inr []"
| "dep_problems installed (p # ps) =
     (case dep_problem installed p of
        Inl e \<Rightarrow> Inl e
      | Inr xs \<Rightarrow> (case dep_problems installed ps of Inl e \<Rightarrow> Inl e | Inr ys \<Rightarrow> Inr (xs @ ys)))"

definition context_problems :: "dict \<Rightarrow> dict \<Rightarrow> py_exn + string list" where
  "context_problems reqs caps =
     (case dict_get reqs ''min_context'' of
        None \<Rightarrow> Inr []
      | Some need \<Rightarrow>
          (let ctx = (case dict_get caps ''context'' of None \<Rightarrow> JInt 0 | Some c \<Rightarrow> c) in
           case py_int ctx of
             Inl e \<Rightarrow> Inl e
           | Inr have \<Rightarrow>
               (case py_int need of
                  Inl e \<Rightarrow> Inl e
                | Inr n \<Rightarrow> Inr (if have < n then [''model context '' @ py_str ctx @ '' < required '' @ py_str need] else []))))"

definition tool_call_problems :: "dict \<Rightarrow> dict \<Rightarrow> string list" where
  "tool_call_problems reqs caps =
     (if truthy (get_or_null reqs ''tool_calls'') \<and> \<not> truthy (get_or_null caps ''tool_calls'')
      then [''model does not support tool calls''] else [])"

definition check_requirements ::
  "dict \<Rightarrow> string \<Rightarrow> (string \<times> string) list \<Rightarrow> dict option \<Rightarrow> py_exn + string list" where
  "check_requirements manifest runtime_version installed model_caps =
     (case dict_or_empty manifest ''runtime'' of Inl e \<Rightarrow> Inl e | Inr runtime \<Rightarrow>
     (case runtime_problems runtime runtime_version of Inl e \<Rightarrow> Inl e | Inr ps1 \<Rightarrow>
     (case dict_or_empty manifest ''requires'' of Inl e \<Rightarrow> Inl e | Inr requires \<Rightarrow>
     (case dep_problems installed requires of Inl e \<Rightarrow> Inl e | Inr ps2 \<Rightarrow>
     (case dict_or_empty manifest ''model_requirements'' of Inl e \<Rightarrow> Inl e | Inr reqs \<Rightarrow>
     (let caps = (case model_caps of None \<Rightarrow> [] | Some c \<Rightarrow> c) in
      case context_problems reqs caps of Inl e \<Rightarrow> Inl e | Inr ps3 \<Rightarrow>
      Inr (ps1 @ ps2 @ ps3 @ tool_call_problems reqs caps)))))))"

subsection \<open>Self-tests\<close>

record test_result =
  tr_name :: json
  tr_passed :: bool
  tr_team :: bool
  tr_detail :: string

record selftests =
  st_ok :: bool
  st_verified :: bool
  st_error :: "string option"
  st_results :: "test_result list"

fun infix_of :: "string \<Rightarrow> string \<Rightarrow> bool" where
  "infix_of w [] = (w = [])"
| "infix_of w (c # s) = (startswith (c # s) w \<or> infix_of w s)"

definition run_scenario ::
  "(byte list \<Rightarrow> py_exn + json) \<Rightarrow> (dict \<Rightarrow> py_exn + string) \<Rightarrow> package \<Rightarrow> string \<Rightarrow> py_exn + test_result" where
  "run_scenario yaml final_text pkg member =
     (case read_member pkg member of
        None \<Rightarrow> Inl (mk_exn ''KeyError'' member)
      | Some b \<Rightarrow>
          (case yaml b of
             Inl e \<Rightarrow> Inl e
           | Inr j \<Rightarrow>
               (case (if truthy j then j else JObj []) of
                  JObj spec \<Rightarrow>
                    (case final_text spec of
                       Inl e \<Rightarrow> Inl e
                     | Inr out \<Rightarrow>
                         (case dict_get spec ''expect_contains'' of
                            Some (JStr want) \<Rightarrow>
                              Inr \<lparr>tr_name = (case dict_get spec ''name'' of Some n \<Rightarrow> n | None \<Rightarrow> JStr member),
                                tr_passed = infix_of want out, tr_team = truthy (get_or_null spec ''team''),
                                tr_detail = (if infix_of want out then [] else ''missing '' @ py_repr want @ '' in output'')\<rparr>
                          | None \<Rightarrow>
                              Inr \<lparr>tr_name = (case dict_get spec ''name'' of Some n \<Rightarrow> n | None \<Rightarrow> JStr member),
                                tr_passed = True, tr_team = truthy (get_or_null spec ''team''), tr_detail = []\<rparr>
                          | Some _ \<Rightarrow> Inl type_error))
                | _ \<Rightarrow> Inl (mk_exn ''AttributeError'' ''object has no attribute get''))))"

fun run_scenarios ::
  "(byte list \<Rightarrow> py_exn + json) \<Rightarrow> (dict \<Rightarrow> py_exn + string) \<Rightarrow> package \<Rightarrow> string list \<Rightarrow> py_exn + test_result list" where
  "run_scenarios yaml final_text pkg [] = Inr []"
| "run_scenarios yaml final_text pkg (m # ms) =
     (case run_scenario yaml final_text pkg m of
        Inl e \<Rightarrow> Inl e
      | Inr r \<Rightarrow> (case run_scenarios yaml final_text pkg ms of Inl e \<Rightarrow> Inl e | Inr rs \<Rightarrow> Inr (r # rs)))"

record registry_env =
  re_ed :: ed25519
  re_keystore :: keystore
  re_revocations :: "revocation_list option"
  re_yaml :: "byte list \<Rightarrow> py_exn + json"
  re_final_text :: "dict \<Rightarrow> py_exn + string"

definition accept_check :: "registry_env \<Rightarrow> py_exn + zip_file \<Rightarrow> py_exn + load_result" where
  "accept_check env file = verify_package (re_ed env) file (re_keystore env) (re_revocations env)"

definition run_selftests :: "registry_env \<Rightarrow> py_exn + zip_file \<Rightarrow> py_exn + selftests" where
  "run_selftests env file =
     (case accept_check env file of
        Inl e \<Rightarrow> Inl e
      | Inr v \<Rightarrow>
          if \<not> ld_ok v then Inr \<lparr>st_ok = False, st_verified = False, st_error = ld_error v, st_results = []\<rparr>
          else
            (case open_package file of
               Inl e \<Rightarrow> Inl e
             | Inr pkg \<Rightarrow>
                 (case run_scenarios (re_yaml env) (re_final_text env) pkg
                     (sorted_strs (filter (\<lambda>n. startswith n ''tests/'' \<and> endswith n ''.yaml'') (member_names pkg))) of
                    Inl e \<Rightarrow> Inl e
                  | Inr rs \<Rightarrow> Inr \<lparr>st_ok = (\<forall>r\<in>set rs. tr_passed r), st_verified = True, st_error = None, st_results = rs\<rparr>)))"

subsection \<open>The registry\<close>

record index_entry =
  ie_version :: json
  ie_path :: string
  ie_key_id :: json

record registry =
  rg_dir :: string
  rg_files :: "string \<Rightarrow> (py_exn + zip_file) option"
  rg_index :: "(string \<times> index_entry) list"

record update_outcome =
  uo_promoted :: bool
  uo_version :: json
  uo_reason :: string
  uo_selftests :: "selftests option"

definition open_file :: "registry \<Rightarrow> string \<Rightarrow> py_exn + zip_file" where
  "open_file rg path =
     (case rg_files rg path of
        Some f \<Rightarrow> f
      | None \<Rightarrow> Inl (mk_exn ''FileNotFoundError'' (''[Errno 2] No such file or directory: '' @ py_repr path)))"

definition path_join :: "string \<Rightarrow> string \<Rightarrow> string" where
  "path_join d n =
     (if startswith n ''/'' then n else if d = [] \<or> last d = CHR ''/'' then d @ n else d @ ''/'' @ n)"

definition package_path :: "registry \<Rightarrow> json \<Rightarrow> json \<Rightarrow> string" where
  "package_path rg name version = path_join (rg_dir rg) (py_str name @ ''-'' @ py_str version @ ''.scpkg'')"

definition shadow_path :: "registry \<Rightarrow> json \<Rightarrow> json \<Rightarrow> string" where
  "shadow_path rg name version = path_join (rg_dir rg) (py_str name @ ''-'' @ py_str version @ ''.scpkg.shadow'')"

text \<open>\<open>idx[res.package] = entry\<close> and saving the index with sorted keys: a list or object cannot be
  a key, and a key that is not a string cannot be sorted among strings.\<close>

definition index_put :: "registry \<Rightarrow> json \<Rightarrow> index_entry \<Rightarrow> py_exn + registry" where
  "index_put rg name ent =
     (case name of
        JStr s \<Rightarrow> Inr (rg\<lparr>rg_index := sort_key fst (dict_set s ent (rg_index rg))\<rparr>)
      | _ \<Rightarrow> if hashable name \<and> rg_index rg = []
             then Inr (rg\<lparr>rg_index := [(dumps name, ent)]\<rparr>) else Inl type_error)"

definition signature_key_id :: "package \<Rightarrow> py_exn + json" where
  "signature_key_id pkg =
     (case (case pk_signature pkg of Some j \<Rightarrow> if truthy j then j else JObj [] | None \<Rightarrow> JObj []) of
        JObj sg \<Rightarrow> Inr (case dict_get sg ''key_id'' of Some v \<Rightarrow> v | None \<Rightarrow> JStr [])
      | _ \<Rightarrow> Inl (mk_exn ''AttributeError'' ''object has no attribute get''))"

text \<open>What follows the copy in both install and promotion: read the key id, write the index.\<close>

definition record_installed :: "registry \<Rightarrow> load_result \<Rightarrow> string \<Rightarrow> py_exn + registry" where
  "record_installed rg res dest =
     (case open_package (open_file rg dest) of
        Inl e \<Rightarrow> Inl e
      | Inr pkg \<Rightarrow>
          (case signature_key_id pkg of
             Inl e \<Rightarrow> Inl e
           | Inr kid \<Rightarrow> index_put rg (ld_package res) \<lparr>ie_version = ld_version res, ie_path = dest, ie_key_id = kid\<rparr>))"

definition reg_install :: "registry_env \<Rightarrow> string \<Rightarrow> registry \<Rightarrow> (py_exn + load_result) \<times> registry" where
  "reg_install env scpkg_path rg =
     (case accept_check env (open_file rg scpkg_path) of
        Inl e \<Rightarrow> (Inl e, rg)
      | Inr res \<Rightarrow>
          if \<not> ld_ok res then (Inr res, rg)
          else
            (let dest = package_path rg (ld_package res) (ld_version res) in
             if dest = scpkg_path then (Inl (mk_exn ''SameFileError'' ''are the same file''), rg)
             else
               (let rg1 = rg\<lparr>rg_files := (rg_files rg)(dest := rg_files rg scpkg_path)\<rparr> in
                case record_installed rg1 res dest of
                  Inl e \<Rightarrow> (Inl e, rg1)
                | Inr rg2 \<Rightarrow> (Inr res, rg2))))"

record installed_package =
  ip_name :: string
  ip_entry :: index_entry

definition list_installed :: "registry \<Rightarrow> installed_package list" where
  "list_installed rg = map (\<lambda>(n, m). \<lparr>ip_name = n, ip_entry = m\<rparr>) (sort_key fst (rg_index rg))"

definition reg_get :: "registry \<Rightarrow> string \<Rightarrow> installed_package option" where
  "reg_get rg name =
     (case dict_get (rg_index rg) name of None \<Rightarrow> None | Some m \<Rightarrow> Some \<lparr>ip_name = name, ip_entry = m\<rparr>)"

definition refused :: "string \<Rightarrow> string \<Rightarrow> load_result" where
  "refused err detail = \<lparr>ld_ok = False, ld_error = Some err, ld_detail = detail, ld_package = JNull, ld_version = JNull\<rparr>"

definition verify_installed :: "registry_env \<Rightarrow> registry \<Rightarrow> string \<Rightarrow> py_exn + load_result" where
  "verify_installed env rg name =
     (case reg_get rg name of
        None \<Rightarrow> Inr (refused ''not_installed'' (''no installed package '' @ py_repr name))
      | Some inst \<Rightarrow>
          if rg_files rg (ie_path (ip_entry inst)) = None
          then Inr (refused ''missing_on_disk'' (''installed package file gone: '' @ ie_path (ip_entry inst)))
          else accept_check env (open_file rg (ie_path (ip_entry inst))))"

definition shadow_update :: "registry_env \<Rightarrow> string \<Rightarrow> registry \<Rightarrow> (py_exn + update_outcome) \<times> registry" where
  "shadow_update env scpkg_path rg =
     (case accept_check env (open_file rg scpkg_path) of
        Inl e \<Rightarrow> (Inl e, rg)
      | Inr res \<Rightarrow>
          if \<not> ld_ok res
          then (Inr \<lparr>uo_promoted = False, uo_version = JNull,
                  uo_reason = ''verify failed: '' @ (case ld_error res of Some x \<Rightarrow> x | None \<Rightarrow> ''None''), uo_selftests = None\<rparr>, rg)
          else
            (let shadow = shadow_path rg (ld_package res) (ld_version res) in
             if shadow = scpkg_path then (Inl (mk_exn ''SameFileError'' ''are the same file''), rg)
             else
               (let rg1 = rg\<lparr>rg_files := (rg_files rg)(shadow := rg_files rg scpkg_path)\<rparr>;
                    rg0 = rg\<lparr>rg_files := (rg_files rg)(shadow := None)\<rparr> in
                case run_selftests env (open_file rg1 shadow) of
                  Inl e \<Rightarrow>
                    if isinstance e ''Exception''
                    then (Inr \<lparr>uo_promoted = False, uo_version = JNull, uo_reason = ''self-test error: '' @ exn_msg e, uo_selftests = None\<rparr>, rg0)
                    else (Inl e, rg1)
                | Inr st \<Rightarrow>
                    if \<not> st_ok st
                    then (Inr \<lparr>uo_promoted = False, uo_version = ld_version res, uo_reason = ''self-tests failed'', uo_selftests = Some st\<rparr>, rg0)
                    else
                      (let dest = package_path rg (ld_package res) (ld_version res);
                           rg2 = rg1\<lparr>rg_files := (rg_files rg1)(dest := rg_files rg1 shadow, shadow := None)\<rparr> in
                       case record_installed rg2 res dest of
                         Inl e \<Rightarrow> (Inl e, rg2)
                       | Inr rg3 \<Rightarrow>
                           (Inr \<lparr>uo_promoted = True, uo_version = ld_version res, uo_reason = ''promoted'', uo_selftests = Some st\<rparr>, rg3)))))"

definition reg_reload :: "registry_env \<Rightarrow> registry \<Rightarrow> string \<Rightarrow> py_exn + (bool \<times> dict option)" where
  "reg_reload env rg name =
     (case verify_installed env rg name of
        Inl e \<Rightarrow> Inl e
      | Inr res \<Rightarrow>
          if \<not> ld_ok res then Inr (False, None)
          else
            (case reg_get rg name of
               None \<Rightarrow> Inr (False, None)
             | Some inst \<Rightarrow>
                 (case open_package (open_file rg (ie_path (ip_entry inst))) of
                    Inl e \<Rightarrow> Inl e
                  | Inr pkg \<Rightarrow> (case pk_manifest pkg of JObj m \<Rightarrow> Inr (True, Some m) | _ \<Rightarrow> Inl type_error))))"

subsection \<open>The registry's invariant\<close>

definition reg_ok :: "registry \<Rightarrow> bool" where
  "reg_ok rg \<longleftrightarrow> distinct (map fst (rg_index rg)) \<and> (\<forall>p\<in>set (rg_index rg). endswith (ie_path (snd p)) ''.scpkg'')"

lemma endswith_append: "endswith (s @ t) t"
  by (simp add: endswith_def)

lemma package_path_ends: "endswith (package_path rg n v) ''.scpkg''"
proof -
  have "\<exists>pre. package_path rg n v = pre @ ''.scpkg''"
    unfolding package_path_def path_join_def by (metis append.assoc)
  then show ?thesis by (metis endswith_append)
qed

lemma shadow_path_not: "\<not> endswith (shadow_path rg n v) ''.scpkg''"
proof -
  have "\<exists>pre. shadow_path rg n v = pre @ ''.shadow''"
    unfolding shadow_path_def path_join_def
    by (rule exI [of _ "path_join (rg_dir rg) (py_str n @ ''-'' @ py_str v @ ''.scpkg'')"])
       (simp add: path_join_def startswith_def, cases "py_str n", auto)
  then show ?thesis by (auto simp: endswith_def)
qed

lemma dict_get_sorted: "distinct (map fst d) \<Longrightarrow> dict_get (sort_key fst d) k = dict_get d k"
proof (rule option_eqI)
  fix v assume d: "distinct (map fst d)"
  then have "distinct (map fst (sort_key fst d))" by (simp add: distinct_map)
  with d show "dict_get (sort_key fst d) k = Some v \<longleftrightarrow> dict_get d k = Some v"
    by (simp add: dict_get_def map_of_eq_Some_iff)
qed

lemma index_put_ok:
  assumes "reg_ok rg" and "endswith (ie_path e) ''.scpkg''" and "index_put rg n e = Inr rg'"
  shows "reg_ok rg'"
  using assms distinct_dict_set [of "rg_index rg"]
  by (auto simp: reg_ok_def index_put_def distinct_map dest!: set_dict_set split: json.splits if_splits)

lemma index_put_str:
  assumes "reg_ok rg" and "index_put rg (JStr s) e = Inr rg'"
  shows "rg_files rg' = rg_files rg" "dict_get (rg_index rg') k = (if k = s then Some e else dict_get (rg_index rg) k)"
  using assms dict_get_sorted [of "dict_set s e (rg_index rg)"] distinct_dict_set [of "rg_index rg"]
  by (auto simp: reg_ok_def index_put_def)

lemma record_installed_put:
  "record_installed rg res dest = Inr rg' \<Longrightarrow>
   \<exists>kid. index_put rg (ld_package res) \<lparr>ie_version = ld_version res, ie_path = dest, ie_key_id = kid\<rparr> = Inr rg'"
  by (auto simp: record_installed_def split: sum.splits)

lemma record_installed_keeps: "reg_ok rg \<Longrightarrow> endswith dest ''.scpkg'' \<Longrightarrow> record_installed rg res dest = Inr rg' \<Longrightarrow> reg_ok rg'"
proof -
  assume a: "reg_ok rg" "endswith dest ''.scpkg''" "record_installed rg res dest = Inr rg'"
  from record_installed_put [OF a(3)] obtain kid where
    "index_put rg (ld_package res) \<lparr>ie_version = ld_version res, ie_path = dest, ie_key_id = kid\<rparr> = Inr rg'" by blast
  from index_put_ok [OF a(1) _ this] a(2) show ?thesis by simp
qed

lemma reg_ok_files [simp]: "reg_ok (rg\<lparr>rg_files := f\<rparr>) = reg_ok rg"
  by (simp add: reg_ok_def)

lemma install_keeps: "reg_ok rg \<Longrightarrow> reg_ok (snd (reg_install env p rg))"
  by (auto simp: reg_install_def Let_def package_path_ends split: sum.splits intro: record_installed_keeps [rotated 2])

lemma shadow_update_keeps: "reg_ok rg \<Longrightarrow> reg_ok (snd (shadow_update env p rg))"
  by (auto simp: shadow_update_def Let_def package_path_ends split: sum.splits intro: record_installed_keeps [rotated 2])

lemma verify_recorded:
  assumes "reg_ok rg" and "record_installed rg res dest = Inr rg'" and "ld_package res = JStr n"
    and "rg_files rg dest = Some f"
  shows "verify_installed env rg' n = accept_check env f"
proof -
  obtain kid where "index_put rg (JStr n) \<lparr>ie_version = ld_version res, ie_path = dest, ie_key_id = kid\<rparr> = Inr rg'"
    using record_installed_put [OF assms(2)] assms(3) by auto
  from index_put_str [OF assms(1) this] assms(4) show ?thesis
    by (simp add: verify_installed_def reg_get_def open_file_def)
qed

lemma accepted_exists: "accept_check env (open_file rg p) = Inr res \<Longrightarrow> ld_ok res \<Longrightarrow> \<exists>f. rg_files rg p = Some f"
  by (auto simp: accept_check_def open_file_def verify_package_def open_package_def malformed_def split: option.splits if_splits)

lemma accepted_opens:
  assumes "accept_check env f = Inr res" "ld_ok res"
  shows "\<exists>pkg m sg. open_package f = Inr pkg \<and> pk_manifest pkg = JObj m \<and> pk_signature pkg = Some (JObj sg) \<and>
    ld_package res = get_or_null m ''name'' \<and> ld_version res = get_or_null m ''version''"
proof -
  have "\<exists>r. verify_package (re_ed env) f (re_keystore env) (re_revocations env) = Inr r \<and> ld_ok r"
    using assms by (auto simp: accept_check_def)
  then show ?thesis
    using verify_package_label [of "re_ed env" f "re_keystore env" "re_revocations env" res] assms
    unfolding verify_package_ok check_signature_ok accept_check_def by auto
qed

text \<open>A package with a string name that has just been accepted is always recorded.\<close>

lemma record_succeeds:
  assumes "accept_check env (open_file rg dest) = Inr res" "ld_ok res" "ld_package res = JStr n"
  shows "\<exists>rg'. record_installed rg res dest = Inr rg'"
proof -
  from accepted_opens [OF assms(1,2)] obtain pkg sg where "open_package (open_file rg dest) = Inr pkg"
    "pk_signature pkg = Some (JObj sg)" by blast
  with assms(3) show ?thesis
    by (auto simp: record_installed_def signature_key_id_def index_put_def)
qed

subsection \<open>Properties\<close>

text \<open>What is installed is what runs. When installing a package succeeds, the invariant of the
  registry is kept and the session-start check of that package answers exactly as the check at
  install did; later it answers what verifying the file stored now answers.\<close>

theorem install_then_verify:
  assumes ok: "reg_ok rg" and i: "reg_install env p rg = (Inr res, rg')" and r: "ld_ok res" "ld_package res = JStr n"
  shows "reg_ok rg' \<and> verify_installed env rg' n = Inr res \<and>
    (\<forall>f. verify_installed env (rg'\<lparr>rg_files := (rg_files rg')(package_path rg (ld_package res) (ld_version res) := Some f)\<rparr>) n
         = accept_check env f)"
proof -
  let ?dest = "package_path rg (ld_package res) (ld_version res)"
  let ?rg1 = "rg\<lparr>rg_files := (rg_files rg)(?dest := rg_files rg p)\<rparr>"
  from i r have a: "accept_check env (open_file rg p) = Inr res" and rec: "record_installed ?rg1 res ?dest = Inr rg'"
    by (auto simp: reg_install_def Let_def split: sum.splits if_splits)
  obtain f where f: "rg_files rg p = Some f" using accepted_exists [OF a r(1)] by blast
  have ok1: "reg_ok ?rg1" using ok by simp
  have "verify_installed env rg' n = accept_check env f"
    by (rule verify_recorded [OF ok1 rec r(2)]) (simp add: f)
  moreover have "accept_check env f = Inr res" using a f by (simp add: open_file_def)
  moreover obtain kid where
    "index_put ?rg1 (JStr n) \<lparr>ie_version = ld_version res, ie_path = ?dest, ie_key_id = kid\<rparr> = Inr rg'"
    using record_installed_put [OF rec] r(2) by auto
  note ix = index_put_str [OF ok1 this]
  moreover have "reg_ok rg'" using install_keeps [OF ok, of env p] i by simp
  ultimately show ?thesis by (simp add: verify_installed_def reg_get_def open_file_def)
qed

definition demo_env :: registry_env where
  "demo_env = \<lparr>re_ed = lax_ed, re_keystore = demo_ks, re_revocations = None,
     re_yaml = (\<lambda>_. Inr JNull), re_final_text = (\<lambda>_. Inr [])\<rparr>"

definition demo_registry :: "zip_file \<Rightarrow> registry" where
  "demo_registry z = \<lparr>rg_dir = ''packages'', rg_files = Map.empty(''in.scpkg'' := Some (Inr z)), rg_index = []\<rparr>"

lemma demo_accepts:
  "\<exists>z res. accept_check demo_env (Inr z) = Inr res \<and> ld_ok res \<and> ld_package res = JStr name \<and> ld_version res = JStr version"
proof -
  from demo_signs obtain sg z where s: "sign_package lax_ed demo_src name version demo_key = Inr (sg, z)"
    "text_field sg ''public_key'' = Inr demo_key" by blast
  have "distinct (map fst demo_src)" by (simp add: demo_src_def)
  from written_verifies [OF lax_ed_correct this s demo_trusts, of None name version z] sign_package_shape [OF s(1)]
  show ?thesis by (auto simp: accept_check_def demo_env_def not_revoked_def)
qed

lemma demo_registry_ok: "reg_ok (demo_registry z)"
  by (simp add: reg_ok_def demo_registry_def)

lemma demo_install:
  assumes "accept_check demo_env (Inr z) = Inr res" "ld_ok res" "ld_package res = JStr ''p''" "ld_version res = JStr ''1''"
  shows "\<exists>rg'. reg_install demo_env ''in.scpkg'' (demo_registry z) = (Inr res, rg')"
proof -
  let ?rg = "demo_registry z" and ?dest = "package_path (demo_registry z) (JStr ''p'') (JStr ''1'')"
  have d: "?dest = ''packages/p-1.scpkg''"
    by (simp add: package_path_def path_join_def demo_registry_def startswith_def py_str_def)
  define rg1 where "rg1 = ?rg\<lparr>rg_files := (rg_files ?rg)(?dest := rg_files ?rg ''in.scpkg'')\<rparr>"
  have o: "open_file ?rg ''in.scpkg'' = Inr z" "open_file rg1 ?dest = Inr z"
    by (simp_all add: open_file_def demo_registry_def rg1_def)
  obtain rg' where "record_installed rg1 res ?dest = Inr rg'" using record_succeeds [of demo_env rg1 ?dest res "''p''"] assms o by auto
  moreover have "?dest \<noteq> ''in.scpkg''" unfolding d by simp
  ultimately show ?thesis using assms o(1) by (simp add: reg_install_def Let_def rg1_def)
qed

theorem install_then_verify_witness:
  "\<exists>z res rg'. reg_install demo_env ''in.scpkg'' (demo_registry z) = (Inr res, rg') \<and> ld_ok res \<and>
     verify_installed demo_env rg' ''p'' = Inr res"
proof -
  obtain z res where r: "accept_check demo_env (Inr z) = Inr res" "ld_ok res" "ld_package res = JStr ''p''" "ld_version res = JStr ''1''"
    using demo_accepts by blast
  then obtain rg' where "reg_install demo_env ''in.scpkg'' (demo_registry z) = (Inr res, rg')" using demo_install by blast
  with install_then_verify [OF demo_registry_ok this r(2,3)] r(2) show ?thesis by blast
qed

lemma selftests_passed: "run_selftests env file = Inr st \<Longrightarrow> st_ok st \<Longrightarrow> \<forall>x\<in>set (st_results st). tr_passed x"
  by (auto simp: run_selftests_def split: sum.splits if_splits)

text \<open>C22: An update is promoted or leaves no trace. If an update is not promoted, the index is the one
  before and every installed package's session-start check answers as before. If it is promoted, the new package was
  accepted, the self-tests of that package itself were run and every one of its scenarios passed, and the package's
  session-start check now answers with the version just installed.\<close>

theorem shadow_update_all_or_nothing:
  assumes ok: "reg_ok rg" and u: "shadow_update env p rg = (Inr out, rg')"
  shows "if uo_promoted out
    then \<exists>st. uo_selftests out = Some st \<and> run_selftests env (open_file rg p) = Inr st \<and> st_ok st \<and> (\<forall>x\<in>set (st_results st). tr_passed x) \<and>
           (\<exists>res. accept_check env (open_file rg p) = Inr res \<and> uo_version out = ld_version res \<and>
              (\<forall>n. ld_package res = JStr n \<longrightarrow> verify_installed env rg' n = Inr res))
    else rg_index rg' = rg_index rg \<and> (\<forall>n. verify_installed env rg' n = verify_installed env rg n)"
proof (cases "uo_promoted out")
  case True
  with u obtain res st where a: "accept_check env (open_file rg p) = Inr res" "ld_ok res"
    and sh: "shadow_path rg (ld_package res) (ld_version res) \<noteq> p"
    and st: "st_ok st" "uo_selftests out = Some st" "uo_version out = ld_version res"
      "run_selftests env (open_file (rg\<lparr>rg_files := (rg_files rg)(shadow_path rg (ld_package res) (ld_version res) := rg_files rg p)\<rparr>)
         (shadow_path rg (ld_package res) (ld_version res))) = Inr st"
    and rec: "record_installed (rg\<lparr>rg_files := (rg_files rg)(shadow_path rg (ld_package res) (ld_version res) := rg_files rg p,
        package_path rg (ld_package res) (ld_version res) := rg_files rg p,
        shadow_path rg (ld_package res) (ld_version res) := None)\<rparr>) res (package_path rg (ld_package res) (ld_version res)) = Inr rg'"
    by (auto simp: shadow_update_def Let_def split: sum.splits if_splits)
  obtain f where f: "rg_files rg p = Some f" using accepted_exists [OF a] by blast
  have "package_path rg (ld_package res) (ld_version res) \<noteq> shadow_path rg (ld_package res) (ld_version res)"
    using package_path_ends shadow_path_not by metis
  then have "verify_installed env rg' n = Inr res" if "ld_package res = JStr n" for n
    using verify_recorded [OF _ rec that, of f env] ok f a by (simp add: open_file_def)
  moreover have "run_selftests env (open_file rg p) = Inr st" using st(4) f by (simp add: open_file_def)
  moreover from this have "\<forall>x\<in>set (st_results st). tr_passed x" using st(1) by (rule selftests_passed)
  ultimately show ?thesis using True a st(1-3) by auto
next
  case False
  with u have "rg' = rg \<or> (\<exists>n v. rg' = rg\<lparr>rg_files := (rg_files rg)(shadow_path rg n v := None)\<rparr>)"
    by (auto simp: shadow_update_def Let_def split: sum.splits if_splits)
  then obtain sh where s: "rg' = rg \<or> (rg' = rg\<lparr>rg_files := (rg_files rg)(sh := None)\<rparr> \<and> \<not> endswith sh ''.scpkg'')"
    using shadow_path_not by metis
  have "ie_path e \<noteq> sh" if "\<not> endswith sh ''.scpkg''" "dict_get (rg_index rg) n = Some e" for n e
    using ok that by (auto simp: reg_ok_def dict_get_def dest!: map_of_SomeD)
  with s have "verify_installed env rg' n = verify_installed env rg n" for n
    by (auto simp: verify_installed_def reg_get_def open_file_def split: option.splits)
  with s False show ?thesis by auto
qed

theorem shadow_update_all_or_nothing_witness:
  "\<exists>z out rg'. shadow_update demo_env ''in.scpkg'' (demo_registry z) = (Inr out, rg') \<and> uo_promoted out \<and>
     (\<exists>r. verify_installed demo_env rg' ''p'' = Inr r)"
proof -
  obtain z res where r: "accept_check demo_env (Inr z) = Inr res" "ld_ok res" "ld_package res = JStr ''p''" "ld_version res = JStr ''1''"
    using demo_accepts by blast
  let ?rg = "demo_registry z"
  have d: "package_path ?rg (JStr ''p'') (JStr ''1'') = ''packages/p-1.scpkg''"
    "shadow_path ?rg (JStr ''p'') (JStr ''1'') = ''packages/p-1.scpkg.shadow''"
    by (simp_all add: package_path_def shadow_path_def path_join_def demo_registry_def startswith_def py_str_def)
  obtain pkg where pkg: "open_package (Inr z) = Inr pkg" using accepted_opens [OF r(1,2)] by blast
  have run: "\<exists>rs. run_scenarios (re_yaml demo_env) (re_final_text demo_env) pkg ms = Inr rs \<and> (\<forall>x\<in>set rs. tr_passed x)"
    if "set ms \<subseteq> set (member_names pkg)" for ms
    using that
  proof (induction ms)
    case (Cons m ms)
    then obtain b where "read_member pkg m = Some b" using read_member_Some [of m pkg] by auto
    with Cons show ?case by (auto simp: run_scenario_def demo_env_def truthy_def)
  qed simp
  let ?ms = "sorted_strs (filter (\<lambda>n. startswith n ''tests/'' \<and> endswith n ''.yaml'') (member_names pkg))"
  have "set ?ms \<subseteq> set (member_names pkg)" by auto
  from run [OF this] obtain rs where rs: "run_scenarios (re_yaml demo_env) (re_final_text demo_env) pkg ?ms = Inr rs"
    "\<forall>x\<in>set rs. tr_passed x" by blast
  have st: "run_selftests demo_env (Inr z) = Inr \<lparr>st_ok = True, st_verified = True, st_error = None, st_results = rs\<rparr>"
    using r(1,2) pkg rs by (simp add: run_selftests_def)
  define rg2 where "rg2 = ?rg\<lparr>rg_files := (rg_files ?rg)(''packages/p-1.scpkg.shadow'' := rg_files ?rg ''in.scpkg'',
      ''packages/p-1.scpkg'' := rg_files ?rg ''in.scpkg'', ''packages/p-1.scpkg.shadow'' := None)\<rparr>"
  have o: "open_file ?rg ''in.scpkg'' = Inr z" "open_file rg2 ''packages/p-1.scpkg'' = Inr z"
    by (simp_all add: open_file_def demo_registry_def rg2_def)
  obtain rg' where rec: "record_installed rg2 res ''packages/p-1.scpkg'' = Inr rg'"
    using record_succeeds [of demo_env rg2 "''packages/p-1.scpkg''" res "''p''"] r o by auto
  have o1: "open_file (?rg\<lparr>rg_files := (rg_files ?rg)(''packages/p-1.scpkg.shadow'' := rg_files ?rg ''in.scpkg'')\<rparr>)
      ''packages/p-1.scpkg.shadow'' = Inr z" by (simp add: open_file_def demo_registry_def)
  have "\<exists>out. shadow_update demo_env ''in.scpkg'' ?rg = (Inr out, rg') \<and> uo_promoted out"
    using r o o1 d st rec unfolding shadow_update_def rg2_def by (simp add: Let_def)
  then obtain out where out: "shadow_update demo_env ''in.scpkg'' ?rg = (Inr out, rg')" "uo_promoted out" by blast
  from shadow_update_all_or_nothing [OF demo_registry_ok out(1)] out(2) o(1) r
  have "verify_installed demo_env rg' ''p'' = Inr res" by auto
  with out show ?thesis by blast
qed

text \<open>The session-start check does not tie the stored file to the entry. After any install, replacing
  the stored file by any other package that verifies, whatever its name, version, key or root, still
  passes the check, which then reports the other package's label.\<close>

theorem swapped_package_passes:
  assumes "reg_ok rg" and "reg_install env p rg = (Inr res, rg')" and "ld_ok res" and "ld_package res = JStr n"
    and "accept_check env f = Inr other" and "ld_ok other"
  shows "\<exists>e. dict_get (rg_index rg') n = Some e \<and> ie_version e = ld_version res \<and>
    verify_installed env (rg'\<lparr>rg_files := (rg_files rg')(ie_path e := Some f)\<rparr>) n = Inr other"
proof -
  let ?dest = "package_path rg (ld_package res) (ld_version res)"
  from assms(2,3) have rec: "record_installed (rg\<lparr>rg_files := (rg_files rg)(?dest := rg_files rg p)\<rparr>) res ?dest = Inr rg'"
    by (auto simp: reg_install_def Let_def split: sum.splits if_splits)
  have ok1: "reg_ok (rg\<lparr>rg_files := (rg_files rg)(?dest := rg_files rg p)\<rparr>)" using assms(1) by simp
  obtain kid where "index_put (rg\<lparr>rg_files := (rg_files rg)(?dest := rg_files rg p)\<rparr>) (JStr n)
      \<lparr>ie_version = ld_version res, ie_path = ?dest, ie_key_id = kid\<rparr> = Inr rg'"
    using record_installed_put [OF rec] assms(4) by auto
  from index_put_str(2) [OF ok1 this] assms(5) show ?thesis
    by (simp add: verify_installed_def reg_get_def open_file_def)
qed

theorem swapped_package_passes_witness:
  "\<exists>z rg' e f other. reg_install demo_env ''in.scpkg'' (demo_registry z) = (Inr other, rg') \<and> dict_get (rg_index rg') ''p'' = Some e \<and>
     (\<exists>r. verify_installed demo_env (rg'\<lparr>rg_files := (rg_files rg')(ie_path e := Some f)\<rparr>) ''p'' = Inr r \<and>
        ld_ok r \<and> ld_package r = JStr ''q'')"
proof -
  obtain z res where r: "accept_check demo_env (Inr z) = Inr res" "ld_ok res" "ld_package res = JStr ''p''" "ld_version res = JStr ''1''"
    using demo_accepts by blast
  obtain z' other where o: "accept_check demo_env (Inr z') = Inr other" "ld_ok other" "ld_package other = JStr ''q''"
    using demo_accepts by blast
  obtain rg' where i: "reg_install demo_env ''in.scpkg'' (demo_registry z) = (Inr res, rg')" using demo_install r by blast
  from swapped_package_passes [OF demo_registry_ok i r(2,3) o(1,2)] obtain e where
    "dict_get (rg_index rg') ''p'' = Some e"
    "verify_installed demo_env (rg'\<lparr>rg_files := (rg_files rg')(ie_path e := Some (Inr z'))\<rparr>) ''p'' = Inr other" by blast
  with i o show ?thesis by blast
qed

text \<open>Requirements are denied by default. The list of problems is empty exactly when the runtime
  meets the declared minimum, every declared dependency is installed in a version that satisfies its
  constraint, the model's context is large enough and tool calls are supported where they are
  required; a missing dependency or a constraint that cannot be read is a problem.\<close>

theorem requirements_met_iff:
  "check_requirements manifest runtime_version installed caps = Inr [] \<longleftrightarrow>
     (\<exists>runtime requires reqs. dict_or_empty manifest ''runtime'' = Inr runtime \<and>
        dict_or_empty manifest ''requires'' = Inr requires \<and> dict_or_empty manifest ''model_requirements'' = Inr reqs \<and>
        (truthy (get_or_null runtime ''min'') \<longrightarrow>
           satisfies runtime_version (''>='' @ py_str (get_or_null runtime ''min'')) = Inr True) \<and>
        (\<forall>(dep, c)\<in>set requires. \<exists>have cs. dict_get installed dep = Some have \<and> c = JStr cs \<and> satisfies have cs = Inr True) \<and>
        context_problems reqs (case caps of None \<Rightarrow> [] | Some d \<Rightarrow> d) = Inr [] \<and>
        (truthy (get_or_null reqs ''tool_calls'') \<longrightarrow>
           truthy (get_or_null (case caps of None \<Rightarrow> [] | Some d \<Rightarrow> d) ''tool_calls'')))"
proof -
  have rp: "runtime_problems runtime runtime_version = Inr [] \<longleftrightarrow>
      (truthy (get_or_null runtime ''min'') \<longrightarrow>
         satisfies runtime_version (''>='' @ py_str (get_or_null runtime ''min'')) = Inr True)" for runtime
    by (auto simp: runtime_problems_def Let_def split: sum.splits if_splits)
  have dp: "dep_problem installed p = Inr [] \<longleftrightarrow>
      (\<exists>have cs. dict_get installed (fst p) = Some have \<and> snd p = JStr cs \<and> satisfies have cs = Inr True)" for p
    by (cases p) (auto simp: dep_problem_def split: option.splits json.splits sum.splits if_splits)
  have dps: "dep_problems installed ps = Inr [] \<longleftrightarrow> (\<forall>p\<in>set ps. dep_problem installed p = Inr [])" for ps
    by (induction ps) (auto split: sum.splits)
  have tp: "tool_call_problems reqs c = [] \<longleftrightarrow>
      (truthy (get_or_null reqs ''tool_calls'') \<longrightarrow> truthy (get_or_null c ''tool_calls''))" for reqs c
    by (simp add: tool_call_problems_def)
  have "check_requirements manifest runtime_version installed caps = Inr [] \<longleftrightarrow>
     (\<exists>runtime requires reqs. dict_or_empty manifest ''runtime'' = Inr runtime \<and>
        dict_or_empty manifest ''requires'' = Inr requires \<and> dict_or_empty manifest ''model_requirements'' = Inr reqs \<and>
        runtime_problems runtime runtime_version = Inr [] \<and> dep_problems installed requires = Inr [] \<and>
        context_problems reqs (case caps of None \<Rightarrow> [] | Some d \<Rightarrow> d) = Inr [] \<and>
        tool_call_problems reqs (case caps of None \<Rightarrow> [] | Some d \<Rightarrow> d) = [])"
    by (auto simp: check_requirements_def Let_def split: sum.splits)
  then show ?thesis unfolding rp dps dp tp by (simp add: split_beta)
qed

theorem requirements_met_iff_witness:
  "check_requirements [(''requires'', JObj [(''p'', JStr ''>=1.0.0'')])] ''0.9.0'' [(''p'', ''1.2.0'')] None = Inr []"
proof -
  have d: "dict_or_empty [(''requires'', JObj [(''p'', JStr ''>=1.0.0'')])] ''runtime'' = Inr []"
    "dict_or_empty [(''requires'', JObj [(''p'', JStr ''>=1.0.0'')])] ''requires'' = Inr [(''p'', JStr ''>=1.0.0'')]"
    "dict_or_empty [(''requires'', JObj [(''p'', JStr ''>=1.0.0'')])] ''model_requirements'' = Inr []"
    by (simp_all add: dict_or_empty_def get_or_null_def truthy_def)
  have "satisfies ''1.2.0'' ''>=1.0.0'' = Inr True" by code_simp
  then show ?thesis unfolding requirements_met_iff d
    by (simp add: get_or_null_def truthy_def context_problems_def)
qed

end
