(* ===== verification/Evidence.thy ===== *)
theory Evidence
  imports Ledger Packages
begin

text \<open>
  Evidence bundles (\<open>scr/evidence.py\<close>) and the standalone verifier that every bundle carries
  (\<open>scr/_evidence_verifier.py\<close>). The verifier works on decoded JSON and on the stored event
  texts, so every type error of its subscripts and comparisons is an outcome. A bundle file is a zip, as in
  the theory of packages; the source text of the embedded verifier is a parameter.
\<close>

subsection \<open>The standalone verifier\<close>

definition text_hash :: "string \<Rightarrow> string \<Rightarrow> string" where
  "text_hash prev_hash event_canonical = sha256_hex (encode prev_hash @ encode event_canonical)"

definition no_attribute :: py_exn where
  "no_attribute = mk_exn ''AttributeError'' ''object has no such attribute''"

text \<open>Python equality of a decoded value with an integer, and with a string.\<close>

definition eq_int :: "json \<Rightarrow> int \<Rightarrow> bool" where
  "eq_int j n = (case j of JInt i \<Rightarrow> i = n | JBool b \<Rightarrow> (if b then 1 else 0) = n | _ \<Rightarrow> False)"

definition as_dict :: "json \<Rightarrow> py_exn + dict" where
  "as_dict j = (case j of JObj d \<Rightarrow> Inr d | _ \<Rightarrow> Inl no_attribute)"

definition json_iter :: "json \<Rightarrow> py_exn + json list" where
  "json_iter j = (case j of
     JArr xs \<Rightarrow> Inr xs | JObj d \<Rightarrow> Inr (map JStr (dict_keys d))
   | JStr s \<Rightarrow> Inr (map (\<lambda>c. JStr [c]) s) | _ \<Rightarrow> Inl type_error)"

record chain_report =
  cr_ok :: bool
  cr_head :: string
  cr_count :: nat
  cr_error :: "string option"

definition row_event :: "dict \<Rightarrow> py_exn + string" where
  "row_event row = (case dict_get row ''event'' of
     None \<Rightarrow> Inl (mk_exn ''KeyError'' ''event'') | Some (JStr s) \<Rightarrow> Inr s | Some _ \<Rightarrow> Inl no_attribute)"

fun recompute_from :: "nat \<Rightarrow> nat \<Rightarrow> string \<Rightarrow> json list \<Rightarrow> py_exn + chain_report" where
  "recompute_from tot expected prev [] = Inr \<lparr>cr_ok = True, cr_head = prev, cr_count = tot, cr_error = None\<rparr>"
| "recompute_from tot expected prev (j # js) =
     rbind (as_dict j) (\<lambda>row.
       if \<not> eq_int (get_or_null row ''seq'') (int expected)
       then Inr \<lparr>cr_ok = False, cr_head = prev, cr_count = expected - 1,
              cr_error = Some (''sequence gap: expected '' @ nat_str expected @ '', found '' @ py_str (get_or_null row ''seq''))\<rparr>
       else rbind (row_event row) (\<lambda>ev.
         if JStr (text_hash prev ev) \<noteq> get_or_null row ''hash''
         then Inr \<lparr>cr_ok = False, cr_head = prev, cr_count = expected - 1,
                cr_error = Some (''chain break at seq '' @ py_str (get_or_null row ''seq''))\<rparr>
         else recompute_from tot (Suc expected) (text_hash prev ev) js))"

definition recompute_chain :: "json \<Rightarrow> py_exn + chain_report" where
  "recompute_chain events = rbind (json_iter events) (\<lambda>js. recompute_from (length js) 1 GENESIS js)"

definition compare_digest :: "string \<Rightarrow> json \<Rightarrow> py_exn + bool" where
  "compare_digest expect j =
     (case j of
        JStr s \<Rightarrow> if \<forall>c\<in>set s. (of_char c :: nat) < 128 then Inr (expect = s) else Inl type_error
      | _ \<Rightarrow> Inl type_error)"

text \<open>The session seal: \<^const>\<open>None\<close> for an unsealed session.\<close>

definition check_seal :: "json \<Rightarrow> chain_report \<Rightarrow> byte list \<Rightarrow> py_exn + bool option" where
  "check_seal seal chain key =
     (if \<not> truthy seal then Inr None
      else rbind (as_dict seal) (\<lambda>sl.
        if get_or_null sl ''head'' = JStr (cr_head chain) \<and> eq_int (get_or_null sl ''count'') (int (cr_count chain))
        then rbind (compare_digest (seal_mac key (cr_head chain) (cr_count chain))
                      (case dict_get sl ''hmac'' of None \<Rightarrow> JStr [] | Some v \<Rightarrow> v))
               (\<lambda>b. Inr (Some b))
        else Inr (Some False)))"

record session_report =
  sr_chain_ok :: bool
  sr_chain_error :: "string option"
  sr_count :: nat
  sr_head :: string
  sr_seal_ok :: "bool option"
  sr_bundle_ok :: bool
  sr_session :: json
  sr_runtime :: json
  sr_package :: json
  sr_ok :: bool

record member_report =
  mr_agent :: json
  mr_session :: json
  mr_chain_ok :: bool
  mr_seal_ok :: "bool option"
  mr_count :: nat
  mr_error :: "string option"

record team_report =
  tp_team :: json
  tp_runtime :: json
  tp_package :: json
  tp_tree :: json
  tp_sessions :: "member_report list"
  tp_bundle_ok :: bool
  tp_ok :: bool

datatype evidence_report = SessionReport session_report | TeamReport team_report

fun report_ok :: "evidence_report \<Rightarrow> bool" where
  "report_ok (SessionReport r) = sr_ok r"
| "report_ok (TeamReport r) = tp_ok r"

definition bundle_mac :: "byte list \<Rightarrow> json \<Rightarrow> string" where
  "bundle_mac key bundle = hmac_hex key (encode (canonical bundle))"

definition seal_fine :: "bool option \<Rightarrow> bool" where
  "seal_fine s \<longleftrightarrow> s \<noteq> Some False"

definition get_default :: "dict \<Rightarrow> string \<Rightarrow> json \<Rightarrow> json" where
  "get_default d k v = (case dict_get d k of None \<Rightarrow> v | Some x \<Rightarrow> x)"

definition verify_member :: "byte list \<Rightarrow> json \<Rightarrow> py_exn + member_report" where
  "verify_member key j =
     rbind (as_dict j) (\<lambda>s.
     rbind (recompute_chain (get_default s ''events'' (JArr []))) (\<lambda>chain.
     rbind (check_seal (get_or_null s ''seal'') chain key) (\<lambda>seal_ok.
       Inr \<lparr>mr_agent = get_or_null s ''agent'', mr_session = get_or_null s ''session_id'',
            mr_chain_ok = cr_ok chain, mr_seal_ok = seal_ok, mr_count = cr_count chain, mr_error = cr_error chain\<rparr>)))"

definition member_fine :: "member_report \<Rightarrow> bool" where
  "member_fine m \<longleftrightarrow> mr_chain_ok m \<and> seal_fine (mr_seal_ok m)"

definition verify_team_bundle :: "dict \<Rightarrow> string \<Rightarrow> byte list \<Rightarrow> py_exn + team_report" where
  "verify_team_bundle bundle bundle_hmac_hex key =
     rbind (json_iter (get_default bundle ''sessions'' (JArr []))) (\<lambda>ss.
     rbind (traverse (verify_member key) ss) (\<lambda>per.
     rbind (compare_digest (bundle_mac key (JObj bundle)) (JStr bundle_hmac_hex)) (\<lambda>seal.
       Inr \<lparr>tp_team = get_or_null bundle ''team_id'', tp_runtime = get_or_null bundle ''runtime_version'',
            tp_package = get_or_null bundle ''package'', tp_tree = get_default bundle ''delegation_tree'' (JArr []),
            tp_sessions = per, tp_bundle_ok = seal, tp_ok = (list_all member_fine per \<and> seal)\<rparr>)))"

definition verify_session_bundle :: "dict \<Rightarrow> string \<Rightarrow> byte list \<Rightarrow> py_exn + session_report" where
  "verify_session_bundle bundle bundle_hmac_hex key =
     rbind (recompute_chain (get_default bundle ''events'' (JArr []))) (\<lambda>chain.
       let report = \<lparr>sr_chain_ok = cr_ok chain, sr_chain_error = cr_error chain, sr_count = cr_count chain,
             sr_head = cr_head chain, sr_seal_ok = Some False, sr_bundle_ok = False,
             sr_session = get_or_null bundle ''session_id'', sr_runtime = get_or_null bundle ''runtime_version'',
             sr_package = get_or_null bundle ''package'', sr_ok = False\<rparr> in
       if \<not> cr_ok chain then Inr report
       else rbind (check_seal (get_or_null bundle ''seal'') chain key) (\<lambda>seal_ok.
            rbind (compare_digest (bundle_mac key (JObj bundle)) (JStr bundle_hmac_hex)) (\<lambda>b.
              Inr (report\<lparr>sr_seal_ok := seal_ok, sr_bundle_ok := b, sr_ok := (cr_ok chain \<and> b \<and> seal_fine seal_ok)\<rparr>))))"

definition verify_bundle_obj :: "json \<Rightarrow> string \<Rightarrow> byte list \<Rightarrow> py_exn + evidence_report" where
  "verify_bundle_obj bundle bundle_hmac_hex key =
     rbind (as_dict bundle) (\<lambda>d.
       if dict_get d ''sessions'' \<noteq> None
       then rbind (verify_team_bundle d bundle_hmac_hex key) (\<lambda>r. Inr (TeamReport r))
       else rbind (verify_session_bundle d bundle_hmac_hex key) (\<lambda>r. Inr (SessionReport r)))"

subsection \<open>Export\<close>

definition VERSION :: string where "VERSION = ''0.2.0''"

definition event_json :: "ledger_row \<Rightarrow> json" where
  "event_json r = JObj [(''seq'', JInt (int (lr_seq r))), (''event'', JStr (lr_event r)), (''hash'', JStr (lr_hash r))]"

definition read_session_events :: "store \<Rightarrow> string \<Rightarrow> json list" where
  "read_session_events st sid = map event_json (ledger_rows st sid)"

definition seal_json :: "seal_row \<Rightarrow> json" where
  "seal_json r = JObj [(''head'', JStr (sl_head r)), (''count'', JInt (int (sl_count r))), (''hmac'', JStr (sl_hmac r))]"

definition read_seal :: "store \<Rightarrow> string \<Rightarrow> json option" where
  "read_seal st sid = map_option seal_json (find (\<lambda>r. sl_session r = sid) (seals st))"

definition seal_or_empty :: "store \<Rightarrow> string \<Rightarrow> json" where
  "seal_or_empty st sid = (case read_seal st sid of None \<Rightarrow> JObj [] | Some s \<Rightarrow> s)"

definition seal_on_close :: "store \<Rightarrow> string \<Rightarrow> byte list \<Rightarrow> string \<times> store" where
  "seal_on_close st sid key = ledger_seal st sid key"

definition build_bundle :: "store \<Rightarrow> string \<Rightarrow> dict option \<Rightarrow> dict" where
  "build_bundle st sid package =
     [(''runtime_version'', JStr VERSION), (''package'', JObj (case package of None \<Rightarrow> [] | Some p \<Rightarrow> p)),
      (''session_id'', JStr sid), (''events'', JArr (read_session_events st sid)), (''seal'', seal_or_empty st sid)]"

definition README :: string where
  "README = ''Verify offline with only Python stdlib:'' @ [char_of (10::nat)] @
     ''  python verify.py bundle.json --key <hex>'' @ [char_of (10::nat)] @
     ''Exit 0 = VERIFIED, 1 = TAMPERED/INVALID.'' @ [char_of (10::nat)]"

definition TEAM_README :: string where
  "TEAM_README = ''Team evidence bundle. Verify offline with only Python stdlib:'' @ [char_of (10::nat)] @
     ''  python verify.py bundle.json --key <hex>'' @ [char_of (10::nat)]"

definition bundle_zip :: "string \<Rightarrow> string \<Rightarrow> byte list \<Rightarrow> json \<Rightarrow> zip_file" where
  "bundle_zip verifier_src readme key bundle =
     [(''bundle.json'', encode (canonical bundle)), (''bundle.hmac'', encode (bundle_mac key bundle)),
      (''verify.py'', encode verifier_src), (''README.txt'', encode readme)]"

definition export_bundle :: "string \<Rightarrow> store \<Rightarrow> string \<Rightarrow> byte list \<Rightarrow> dict option \<Rightarrow> string \<times> zip_file" where
  "export_bundle verifier_src st sid key package =
     (let bundle = JObj (build_bundle st sid package) in (bundle_mac key bundle, bundle_zip verifier_src README key bundle))"

text \<open>The provenance event of the first session at depth 0, without its type.\<close>

fun find_provenance :: "ledger_row list \<Rightarrow> py_exn + dict option" where
  "find_provenance [] = Inr None"
| "find_provenance (r # rs) =
     (case loads (lr_event r) of
        None \<Rightarrow> Inl (mk_exn ''JSONDecodeError'' ''invalid JSON'')
      | Some j \<Rightarrow> rbind (as_dict j) (\<lambda>ev.
          if get_or_null ev ''type'' = JStr ''provenance'' then Inr (Some (filter (\<lambda>p. fst p \<noteq> ''type'') ev))
          else find_provenance rs))"

definition member_json :: "store \<Rightarrow> team_row \<Rightarrow> json" where
  "member_json st m = JObj
     [(''session_id'', JStr (tm_session m)), (''agent'', JStr (tm_agent m)),
      (''events'', JArr (read_session_events st (tm_session m))), (''seal'', seal_or_empty st (tm_session m))]"

definition tree_json :: "team_row \<Rightarrow> json" where
  "tree_json m = JObj
     [(''agent'', JStr (tm_agent m)), (''session_id'', JStr (tm_session m)),
      (''parent_session'', case tm_parent m of None \<Rightarrow> JNull | Some p \<Rightarrow> JStr p), (''depth'', JInt (int (tm_depth m)))]"

definition build_team_bundle :: "store \<Rightarrow> string \<Rightarrow> dict option \<Rightarrow> py_exn + dict" where
  "build_team_bundle st tid package =
     (let members = team_members st tid in
      rbind (case package of
               Some p \<Rightarrow> Inr p
             | None \<Rightarrow>
                 (case find (\<lambda>m. tm_depth m = 0) members of
                    None \<Rightarrow> Inr []
                  | Some m \<Rightarrow> rbind (find_provenance (ledger_rows st (tm_session m)))
                                (\<lambda>p. Inr (case p of None \<Rightarrow> [] | Some d \<Rightarrow> d))))
        (\<lambda>pkg. Inr
          [(''runtime_version'', JStr VERSION), (''package'', JObj pkg), (''team_id'', JStr tid),
           (''delegation_tree'', JArr (map tree_json members)), (''sessions'', JArr (map (member_json st) members))]))"

definition seal_members :: "byte list \<Rightarrow> team_row list \<Rightarrow> store \<Rightarrow> store" where
  "seal_members key members st = foldl (\<lambda>st m. snd (seal_on_close st (tm_session m) key)) st members"

definition export_team_bundle ::
  "string \<Rightarrow> store \<Rightarrow> string \<Rightarrow> byte list \<Rightarrow> dict option \<Rightarrow> (py_exn + (string \<times> zip_file)) \<times> store" where
  "export_team_bundle verifier_src st tid key package =
     (let st' = seal_members key (team_members st tid) st in
      (rbind (build_team_bundle st' tid package) (\<lambda>b. Inr (bundle_mac key (JObj b), bundle_zip verifier_src TEAM_README key (JObj b))),
       st'))"

definition verify_bundle :: "py_exn + zip_file \<Rightarrow> byte list \<Rightarrow> py_exn + evidence_report" where
  "verify_bundle file key =
     rbind file (\<lambda>z.
     rbind (rbind (zip_read z ''bundle.json'') loads_bytes) (\<lambda>bundle.
     rbind (zip_read z ''bundle.hmac'') (\<lambda>hb.
     (case decode hb of
        Some s \<Rightarrow> if \<forall>c\<in>set s. (of_char c :: nat) < 128 then verify_bundle_obj bundle (strip s) key
                  else Inl (mk_exn ''UnicodeDecodeError'' ''ordinal not in range(128)'')
      | None \<Rightarrow> Inl (mk_exn ''UnicodeDecodeError'' ''ordinal not in range(128)'')))))"

subsection \<open>Rows read back from a bundle\<close>

definition row_like :: "json \<Rightarrow> ledger_row \<Rightarrow> bool" where
  "row_like j r \<longleftrightarrow> (\<exists>d. j = JObj d \<and> dict_get d ''seq'' = Some (JInt (int (lr_seq r))) \<and>
     dict_get d ''event'' = Some (JStr (lr_event r)) \<and> dict_get d ''hash'' = Some (JStr (lr_hash r)))"

definition text_head :: "string list \<Rightarrow> string" where
  "text_head ts = foldl text_hash GENESIS ts"

lemma row_like_event: "row_like (event_json r) r" "row_like (sort_json (event_json r)) r"
proof -
  show "row_like (event_json r) r" by (simp add: row_like_def event_json_def)
  show "row_like (sort_json (event_json r)) r"
    using sort_json_obj [of "[(''seq'', JInt (int (lr_seq r))), (''event'', JStr (lr_event r)), (''hash'', JStr (lr_hash r))]"]
    by (auto simp: row_like_def event_json_def) (auto simp: sort_json.simps)
qed

lemma recompute_step:
  assumes "row_like j r"
  shows "recompute_from t n p (j # js) =
    (if lr_seq r \<noteq> n
     then Inr \<lparr>cr_ok = False, cr_head = p, cr_count = n - 1,
            cr_error = Some (''sequence gap: expected '' @ nat_str n @ '', found '' @ nat_str (lr_seq r))\<rparr>
     else if text_hash p (lr_event r) \<noteq> lr_hash r
     then Inr \<lparr>cr_ok = False, cr_head = p, cr_count = n - 1, cr_error = Some (''chain break at seq '' @ nat_str (lr_seq r))\<rparr>
     else recompute_from t (Suc n) (text_hash p (lr_event r)) js)"
  using assms
  by (auto simp: row_like_def as_dict_def get_or_null_def row_event_def eq_int_def py_str_def int_str_def)

text \<open>On rows the store can hold the verifier never raises, and it accepts exactly the chains.\<close>

lemma recompute_rows_iff:
  "list_all2 row_like js rows \<Longrightarrow>
   \<exists>c. recompute_from t n p js = Inr c \<and> (cr_ok c \<longleftrightarrow> chain_from n p rows) \<and>
     (cr_ok c \<longrightarrow> c = \<lparr>cr_ok = True, cr_head = foldl text_hash p (map lr_event rows), cr_count = t, cr_error = None\<rparr>)"
proof (induction rows arbitrary: js n p)
  case (Cons r rows)
  then obtain j js' where js: "js = j # js'" "row_like j r" "list_all2 row_like js' rows"
    by (auto simp: list_all2_Cons2)
  from Cons.IH [OF js(3), of "Suc n" "text_hash p (lr_event r)"] show ?case
    unfolding js(1) recompute_step [OF js(2)] by (auto simp: text_hash_def)
qed simp

lemma recompute_rows:
  assumes "list_all2 row_like js rows" and "chain_from 1 GENESIS rows"
  shows "recompute_chain (JArr js) = Inr \<lparr>cr_ok = True, cr_head = text_head (map lr_event rows), cr_count = length rows, cr_error = None\<rparr>"
proof -
  from recompute_rows_iff [OF assms(1), of "length js" 1 GENESIS] assms(2) obtain c where
    "recompute_from (length js) 1 GENESIS js = Inr c"
    "c = \<lparr>cr_ok = True, cr_head = foldl text_hash GENESIS (map lr_event rows), cr_count = length js, cr_error = None\<rparr>" by blast
  with list_all2_lengthD [OF assms(1)] show ?thesis
    by (simp add: recompute_chain_def json_iter_def text_head_def)
qed

lemma text_head_chain: "(\<forall>r\<in>set rows. event_ok r) \<Longrightarrow> text_head (map lr_event rows) = chain_head (events_of rows)"
proof -
  have "(\<forall>r\<in>set rows. event_ok r) \<Longrightarrow> foldl text_hash p (map lr_event rows) = foldl chain_hash p (events_of rows)" for p
  proof (induction rows arbitrary: p)
    case (Cons r rows)
    then obtain e where "canonical e = lr_event r" "events_of (r # rows) = e # events_of rows"
      by (metis event_okE list.set_intros(1))
    with Cons show ?case by (simp add: text_hash_def chain_hash_def)
  qed (simp add: events_of_def)
  then show "(\<forall>r\<in>set rows. event_ok r) \<Longrightarrow> text_head (map lr_event rows) = chain_head (events_of rows)"
    by (simp add: text_head_def chain_head_def)
qed

subsection \<open>The chain of event texts\<close>

definition text_clash :: "string \<Rightarrow> string \<Rightarrow> string \<Rightarrow> string \<Rightarrow> bool" where
  "text_clash p e p' e' \<longleftrightarrow> collision (encode p @ encode e) (encode p' @ encode e')"

interpretation text_chain: hash_chain text_hash GENESIS "\<lambda>h. length (encode h) = 64" "(=)" text_clash
proof unfold_locales
  fix p p' e e'
  assume len: "length (encode p) = 64" "length (encode p') = 64" and eq: "text_hash p e = text_hash p' e'"
  then have "sha256 (encode p @ encode e) = sha256 (encode p' @ encode e')" by (simp add: text_hash_def)
  then show "p = p' \<and> e = e' \<or> text_clash p e p' e'"
    using len by (auto simp: text_clash_def dest!: sha256_eq_or_collision)
qed (simp_all add: GENESIS_digest text_hash_def)

subsection \<open>Message authentication binds the message\<close>

definition mac_key :: "byte list \<Rightarrow> byte list" where
  "mac_key key = (let k = (if 64 < length key then sha256 key else key) in k @ replicate (64 - length k) 0)"

definition mac_inner :: "byte list \<Rightarrow> byte list \<Rightarrow> byte list" where
  "mac_inner key m = map (\<lambda>b. b XOR 0x36) (mac_key key) @ m"

definition mac_outer :: "byte list \<Rightarrow> byte list \<Rightarrow> byte list" where
  "mac_outer key m = map (\<lambda>b. b XOR 0x5c) (mac_key key) @ sha256 (mac_inner key m)"

lemma hmac_parts: "hmac_sha256 key m = sha256 (mac_outer key m)"
  by (simp add: hmac_sha256_def mac_outer_def mac_inner_def mac_key_def Let_def)

lemma hmac_binds:
  assumes "hmac_hex key m = hmac_hex key m'"
  shows "m = m' \<or> collision (mac_inner key m) (mac_inner key m') \<or> collision (mac_outer key m) (mac_outer key m')"
proof -
  have "sha256 (mac_outer key m) = sha256 (mac_outer key m')" using assms by (simp add: hmac_hex_def hmac_parts)
  then consider "mac_outer key m = mac_outer key m'" | "collision (mac_outer key m) (mac_outer key m')"
    using sha256_eq_or_collision by blast
  then show ?thesis
  proof cases
    case 1
    then have "sha256 (mac_inner key m) = sha256 (mac_inner key m')" by (simp add: mac_outer_def)
    then show ?thesis using sha256_eq_or_collision by (fastforce simp: mac_inner_def)
  qed blast
qed

lemma hex_not_space: "c \<in> set (hex bs) \<Longrightarrow> \<not> is_space c"
  by (induction bs) (auto simp: hex_def hex_byte_def not_space_hex_char)

lemma strip_no_space: "\<forall>c\<in>set s. \<not> is_space c \<Longrightarrow> strip s = s"
proof -
  have d: "\<forall>c\<in>set t. \<not> is_space c \<Longrightarrow> dropWhile is_space t = t" for t by (cases t) auto
  assume s: "\<forall>c\<in>set s. \<not> is_space c"
  then have "dropWhile is_space (rev s) = rev s" by (intro d) simp
  with s d show "strip s = s" by (simp add: strip_def rstrip_def lstrip_def)
qed

lemma compare_digest_self: "compare_digest (hmac_hex k m) (JStr (hmac_hex k m)) = Inr True"
  by (simp add: compare_digest_def hmac_hex_def hex_ascii)

lemma compare_digest_true: "compare_digest x (JStr y) = Inr True \<Longrightarrow> x = y"
  by (auto simp: compare_digest_def split: if_splits)

subsection \<open>Export and verification\<close>

definition seal_current :: "byte list \<Rightarrow> store \<Rightarrow> string \<Rightarrow> bool" where
  "seal_current key st sid \<longleftrightarrow>
     (case find (\<lambda>r. sl_session r = sid) (seals st) of
        None \<Rightarrow> True
      | Some sl \<Rightarrow> (let h = chain_head (events_of (ledger_rows st sid)); n = length (ledger_rows st sid) in
                     sl_head sl = h \<and> sl_count sl = n \<and> sl_hmac sl = seal_mac key h n))"

definition is_sealed :: "store \<Rightarrow> string \<Rightarrow> bool" where
  "is_sealed st sid \<longleftrightarrow> find (\<lambda>r. sl_session r = sid) (seals st) \<noteq> None"

lemma bundle_rows: "list_all2 row_like (map sort_json (read_session_events st sid)) (ledger_rows st sid)"
  "list_all2 row_like (read_session_events st sid) (ledger_rows st sid)"
  by (simp_all add: read_session_events_def list_all2_conv_all_nth row_like_event)

lemma check_seal_current:
  assumes ok: "ledger_ok st" and cur: "seal_current key st sid"
    and c: "cr_head c = chain_head (events_of (ledger_rows st sid))" "cr_count c = length (ledger_rows st sid)"
  shows "check_seal (sort_json (seal_or_empty st sid)) c key = Inr (if is_sealed st sid then Some True else None)"
proof (cases "find (\<lambda>r. sl_session r = sid) (seals st)")
  case None
  then show ?thesis by (simp add: seal_or_empty_def read_seal_def check_seal_def is_sealed_def truthy_def sort_json.simps)
next
  case (Some sl)
  let ?ps = "[(''head'', JStr (sl_head sl)), (''count'', JInt (int (sl_count sl))), (''hmac'', JStr (sl_hmac sl))]"
  have "\<exists>m. sort_json (JObj ?ps) = JObj m \<and> (\<forall>k. dict_get m k = map_option sort_json (dict_get ?ps k))"
    by (rule sort_json_obj) simp
  then obtain m where m: "sort_json (JObj ?ps) = JObj m" "\<And>k. dict_get m k = map_option sort_json (dict_get ?ps k)" by blast
  have "m \<noteq> []" using m(2) [of "''head''"] by auto
  then show ?thesis using Some cur c m(1)
    by (simp add: seal_or_empty_def read_seal_def seal_json_def check_seal_def is_sealed_def truthy_def as_dict_def
        get_or_null_def m(2) eq_int_def seal_current_def Let_def)
       (simp add: sort_json.simps seal_mac_def compare_digest_self)
qed

lemma chain_of_session:
  assumes "ledger_ok st"
  shows "recompute_chain (JArr (map sort_json (read_session_events st sid))) =
    Inr \<lparr>cr_ok = True, cr_head = chain_head (events_of (ledger_rows st sid)), cr_count = length (ledger_rows st sid), cr_error = None\<rparr>"
  using recompute_rows [OF bundle_rows(1)] text_head_chain [OF ledger_rows_ok [OF assms]] assms
  by (simp add: ledger_ok_def)

lemma read_bundle_zip:
  assumes "wf_json b"
  shows "verify_bundle (Inr (bundle_zip src readme key b)) k = verify_bundle_obj (sort_json b) (bundle_mac key b) k"
proof -
  have "\<forall>c\<in>set (bundle_mac key b). (of_char c :: nat) < 128 \<and> \<not> is_space c"
    by (auto simp: bundle_mac_def hmac_hex_def dest: hex_ascii hex_not_space)
  then show ?thesis
    using assms by (simp add: verify_bundle_def bundle_zip_def zip_read_def loads_bytes_def loads_canonical strip_no_space)
qed

lemma wf_seal: "wf_json (seal_or_empty st sid)"
  by (simp add: seal_or_empty_def read_seal_def seal_json_def split: option.splits)

lemma wf_events: "\<forall>j\<in>set (read_session_events st sid). wf_json j"
  by (simp add: read_session_events_def event_json_def)

lemma wf_bundle: "(\<And>p. package = Some p \<Longrightarrow> wf_json (JObj p)) \<Longrightarrow> wf_json (JObj (build_bundle st sid package))"
  using wf_seal [of st sid] wf_events [of st sid] by (cases package) (simp_all add: build_bundle_def)

lemma bundle_mac_sort [simp]: "bundle_mac key (sort_json b) = bundle_mac key b"
  by (simp add: bundle_mac_def)

lemma verify_session_of_store:
  assumes ok: "ledger_ok st" and cur: "seal_current key st sid"
    and b: "dict_get m ''sessions'' = None" "dict_get m ''events'' = Some (JArr (map sort_json (read_session_events st sid)))"
      "dict_get m ''seal'' = Some (sort_json (seal_or_empty st sid))"
  shows "\<exists>r. verify_bundle_obj (JObj m) (bundle_mac key (JObj m)) key = Inr (SessionReport r) \<and> sr_ok r \<and>
    sr_head r = chain_head (events_of (ledger_rows st sid)) \<and> sr_count r = length (ledger_rows st sid) \<and>
    sr_seal_ok r = (if is_sealed st sid then Some True else None) \<and> sr_package r = get_or_null m ''package''"
  using chain_of_session [OF ok, of sid] b check_seal_current [OF ok cur, of "\<lparr>cr_ok = True,
      cr_head = chain_head (events_of (ledger_rows st sid)), cr_count = length (ledger_rows st sid), cr_error = None\<rparr>"]
  by (simp add: verify_bundle_obj_def as_dict_def verify_session_bundle_def get_default_def get_or_null_def Let_def
      compare_digest_self bundle_mac_def seal_fine_def)

subsection \<open>Properties\<close>

lemma export_verifies:
  assumes ok: "ledger_ok st" and cur: "seal_current key st sid" and p: "wf_json (JObj package)"
  shows "\<exists>r. verify_bundle (Inr (snd (export_bundle src st sid key (Some package)))) key = Inr (SessionReport r) \<and> sr_ok r \<and>
    sr_head r = chain_head (events_of (ledger_rows st sid)) \<and> sr_count r = length (ledger_rows st sid) \<and>
    sr_seal_ok r = (if is_sealed st sid then Some True else None) \<and> canonical (sr_package r) = canonical (JObj package)"
proof -
  let ?b = "build_bundle st sid (Some package)"
  have wf: "wf_json (JObj ?b)" by (rule wf_bundle) (use p in simp)
  then have "distinct (map fst ?b)" by simp
  from sort_json_obj [OF this] obtain m where m: "sort_json (JObj ?b) = JObj m"
    "\<And>k. dict_get m k = map_option sort_json (dict_get ?b k)" by blast
  have mac: "bundle_mac key (JObj ?b) = bundle_mac key (JObj m)" using m(1) bundle_mac_sort by metis
  have "verify_bundle (Inr (snd (export_bundle src st sid key (Some package)))) key =
      verify_bundle_obj (JObj m) (bundle_mac key (JObj m)) key"
    using read_bundle_zip [OF wf] m(1) mac by (simp add: export_bundle_def Let_def)
  moreover have "get_or_null m ''package'' = sort_json (JObj package)" by (simp add: get_or_null_def m(2) build_bundle_def)
  moreover have "dict_get m ''sessions'' = None"
    "dict_get m ''events'' = Some (JArr (map sort_json (read_session_events st sid)))"
    "dict_get m ''seal'' = Some (sort_json (seal_or_empty st sid))"
    by (simp_all add: m(2) build_bundle_def) (simp add: sort_json.simps)
  from verify_session_of_store [OF ok cur this] show ?thesis using calculation by auto
qed

text \<open>C12: Export and offline verification. The bundle written for a session of a well-formed ledger, read
  back from the zip and its JSON text, is verified under the sealing key: the report is positive, with
  the runtime's head and count and the given package, and the session seal is reported as valid
  where the session is sealed.\<close>

theorem export_then_verify:
  assumes ok: "ledger_ok st" and cur: "seal_current key st sid" and p: "wf_json (JObj package)"
  shows "\<exists>r. verify_bundle (Inr (snd (export_bundle src st sid key (Some package)))) key = Inr (SessionReport r) \<and> sr_ok r \<and>
    sr_head r = chain_head (events_of (ledger_rows st sid)) \<and> sr_count r = length (ledger_rows st sid) \<and>
    sr_seal_ok r = (if is_sealed st sid then Some True else None) \<and> canonical (sr_package r) = canonical (JObj package)"
  using assms by (rule export_verifies)

lemma seal_makes_current: "ledger_ok st \<Longrightarrow> seal_current key (snd (ledger_seal st sid key)) sid"
  "ledger_ok st \<Longrightarrow> is_sealed (snd (ledger_seal st sid key)) sid"
  using seal_row_after_seal [of st sid key] by (simp_all add: seal_current_def is_sealed_def Let_def)

theorem export_then_verify_witness:
  "\<exists>r. verify_bundle (Inr (snd (export_bundle [] (snd (ledger_seal (append_all [(''a'', [(''n'', JInt 1)])] empty_store) ''a'' [1, 2]))
      ''a'' [1, 2] (Some [])))) [1, 2] = Inr (SessionReport r) \<and> sr_ok r \<and> sr_count r = 1 \<and> sr_seal_ok r = Some True"
proof -
  let ?st = "append_all [(''a'', [(''n'', JInt 1)])] empty_store"
  have ok: "ledger_ok ?st" by (rule append_all_ok) simp_all
  have "events_of (ledger_rows ?st ''a'') = [sort_json (JObj [(''n'', JInt 1)])]"
    by (subst append_all_events) (simp_all add: events_of_def)
  then have "length (ledger_rows ?st ''a'') = 1" by (metis length_events_of One_nat_def length_0_conv length_Suc_conv)
  with export_then_verify [of "snd (ledger_seal ?st ''a'' [1, 2])" "[1, 2]" "''a''" "[]" "[]"] ok seal_makes_current [OF ok]
  show ?thesis by auto
qed

text \<open>A bundle cannot be edited without the key. If the verifier accepts two bundles with the same
  bundle HMAC under the same key, their contents have the same canonical text, or two byte strings
  hashed inside the HMAC are a collision of SHA-256.\<close>

theorem bundle_seal_binds:
  assumes "verify_bundle_obj b mac key = Inr r" and "report_ok r"
    and "verify_bundle_obj b' mac key = Inr r'" and "report_ok r'"
  shows "canonical b = canonical b' \<or>
    collision (mac_inner key (encode (canonical b))) (mac_inner key (encode (canonical b'))) \<or>
    collision (mac_outer key (encode (canonical b))) (mac_outer key (encode (canonical b')))"
proof -
  have "bundle_mac key x = mac" if "verify_bundle_obj x mac key = Inr q" "report_ok q" for x q
    using that
    by (cases x)
       (auto simp: verify_bundle_obj_def as_dict_def verify_team_bundle_def verify_session_bundle_def rbind_Inr_iff Let_def
        split: if_splits dest!: compare_digest_true)
  then have "hmac_hex key (encode (canonical b)) = hmac_hex key (encode (canonical b'))"
    using assms unfolding bundle_mac_def by metis
  from hmac_binds [OF this] show ?thesis by simp
qed

theorem bundle_seal_binds_witness:
  "let b = JObj [(''events'', JArr []), (''a'', JNull)]; b' = JObj [(''a'', JNull), (''events'', JArr [])] in
   (\<exists>r. verify_bundle_obj b (bundle_mac [] b) [] = Inr r \<and> report_ok r) \<and>
   (canonical b = canonical b' \<or>
    collision (mac_inner [] (encode (canonical b))) (mac_inner [] (encode (canonical b'))) \<or>
    collision (mac_outer [] (encode (canonical b))) (mac_outer [] (encode (canonical b'))))"
proof -
  let ?b = "JObj [(''events'', JArr []), (''a'', JNull)]" and ?b' = "JObj [(''a'', JNull), (''events'', JArr [])]"
  have c: "canonical ?b = canonical ?b'" by (simp add: canonical_def sort_json.simps)
  have a: "\<exists>r. verify_bundle_obj (JObj d) (bundle_mac [] (JObj d)) [] = Inr r \<and> report_ok r"
    if "d = [(''events'', JArr []), (''a'', JNull)] \<or> d = [(''a'', JNull), (''events'', JArr [])]" for d
    using that
    by (auto simp: verify_bundle_obj_def as_dict_def verify_session_bundle_def recompute_chain_def json_iter_def
        get_default_def get_or_null_def Let_def check_seal_def truthy_def seal_fine_def compare_digest_self bundle_mac_def)
  then obtain r r' where r: "verify_bundle_obj ?b (bundle_mac [] ?b) [] = Inr r" "report_ok r"
    "verify_bundle_obj ?b' (bundle_mac [] ?b') [] = Inr r'" "report_ok r'" by metis
  have "bundle_mac [] ?b' = bundle_mac [] ?b" using c by (simp add: bundle_mac_def)
  from bundle_seal_binds [OF r(1,2) r(3) [unfolded this] r(4)] r(1,2) show ?thesis unfolding Let_def by blast
qed

lemma verify_rows_chain:
  "verify_rows t n p rows = Inr h \<Longrightarrow> (\<forall>r\<in>set rows. event_ok r) \<Longrightarrow> chain_from n p rows"
proof (induction rows arbitrary: n p)
  case (Cons r rows)
  then obtain e where e: "loads (lr_event r) = Some e" "canonical e = lr_event r"
    by (metis event_okE list.set_intros(1))
  with Cons show ?case by (auto simp: Let_def chain_hash_def split: if_splits)
qed simp

text \<open>C37: The two verifiers agree on canonical rows. For any ledger table whose events of a session are
  canonical texts, whatever their numbers and hashes, the standalone verifier returns without an
  exception, accepts exactly when the runtime's check of the chain accepts, and with the same
  head and count.\<close>

theorem standalone_agrees:
  assumes "\<forall>r\<in>set (ledger_rows st sid). event_ok r"
  shows "\<exists>c. recompute_chain (JArr (read_session_events st sid)) = Inr c \<and>
    (cr_ok c \<longleftrightarrow> (\<exists>h. verify_rows (length (ledger_rows st sid)) 1 GENESIS (ledger_rows st sid) = Inr h)) \<and>
    (cr_ok c \<longrightarrow> verify_rows (length (ledger_rows st sid)) 1 GENESIS (ledger_rows st sid) = Inr (cr_head c) \<and>
       cr_count c = length (ledger_rows st sid))"
proof -
  let ?rows = "ledger_rows st sid"
  have len: "length (read_session_events st sid) = length ?rows" by (simp add: read_session_events_def)
  from recompute_rows_iff [OF bundle_rows(2), of "length ?rows" 1 GENESIS] obtain c where
    c: "recompute_from (length ?rows) 1 GENESIS (read_session_events st sid) = Inr c"
    "cr_ok c \<longleftrightarrow> chain_from 1 GENESIS ?rows"
    "cr_ok c \<Longrightarrow> c = \<lparr>cr_ok = True, cr_head = text_head (map lr_event ?rows), cr_count = length ?rows, cr_error = None\<rparr>"
    unfolding text_head_def by metis
  have "recompute_chain (JArr (read_session_events st sid)) = Inr c"
    using c(1) len by (simp add: recompute_chain_def json_iter_def)
  moreover have "cr_ok c \<longleftrightarrow> (\<exists>h. verify_rows (length ?rows) 1 GENESIS ?rows = Inr h)"
    using c(2) verify_rows_chain [OF _ assms] verify_rows_complete [OF _ assms] by blast
  moreover have "cr_ok c \<Longrightarrow> verify_rows (length ?rows) 1 GENESIS ?rows = Inr (cr_head c) \<and> cr_count c = length ?rows"
    using c(2,3) verify_rows_complete [OF _ assms, of 1 GENESIS] text_head_chain [OF assms]
    by (simp add: chain_head_def)
  ultimately show ?thesis by blast
qed

theorem standalone_agrees_witness:
  "\<exists>c. recompute_chain (JArr (read_session_events (append_all [(''a'', [])] empty_store) ''a'')) = Inr c \<and> cr_ok c"
proof -
  let ?st = "append_all [(''a'', [])] empty_store"
  have ok: "ledger_ok ?st" by (rule append_all_ok) simp_all
  have "verify_rows (length (ledger_rows ?st ''a'')) 1 GENESIS (ledger_rows ?st ''a'') =
      Inr (foldl chain_hash GENESIS (events_of (ledger_rows ?st ''a'')))"
    using ok by (intro verify_rows_complete ledger_rows_ok) (simp_all add: ledger_ok_def)
  with standalone_agrees [OF ledger_rows_ok [OF ok], of "''a''"] show ?thesis by blast
qed

text \<open>A chain both verifiers accept: at each row the two hashed texts have the same hash.\<close>

lemma both_accept:
  "verify_rows t n p rows = Inr h \<Longrightarrow> chain_from n p rows \<Longrightarrow> i < length rows \<Longrightarrow>
   \<exists>q e. loads (lr_event (rows ! i)) = Some e \<and> q = (if i = 0 then p else lr_hash (rows ! (i - 1))) \<and>
     text_hash q (lr_event (rows ! i)) = text_hash q (canonical e)"
proof (induction rows arbitrary: n p i)
  case (Cons r rows)
  obtain e where e: "loads (lr_event r) = Some e" "chain_hash p e = lr_hash r" "verify_rows t (Suc n) (lr_hash r) rows = Inr h"
    using Cons.prems(1) by (auto simp: Let_def split: if_splits option.splits)
  have c: "lr_hash r = text_hash p (lr_event r)" "chain_from (Suc n) (lr_hash r) rows"
    using Cons.prems(2) by (auto simp: text_hash_def)
  show ?case
  proof (cases i)
    case 0
    with e c show ?thesis by (simp add: text_hash_def chain_hash_def)
  next
    case (Suc j)
    with Cons.IH [OF e(3) c(2), of j] Cons.prems(3) show ?thesis
      by (cases j) auto
  qed
qed simp

text \<open>The two verifiers differ on other texts. The runtime's check re-encodes the decoded event, the
  standalone one hashes the stored text: a row whose text decodes to the right event but is not its
  canonical text passes the runtime's check, and the standalone verifier rejects the session, or the
  two texts are a collision of SHA-256.\<close>

theorem reformatted_row_differs:
  assumes acc: "verify_rows (length (ledger_rows st sid)) 1 GENESIS (ledger_rows st sid) = Inr h"
    and i: "i < length (ledger_rows st sid)" and e: "loads (lr_event (ledger_rows st sid ! i)) = Some e"
    and ne: "canonical e \<noteq> lr_event (ledger_rows st sid ! i)"
  shows "(\<exists>c. recompute_chain (JArr (read_session_events st sid)) = Inr c \<and> \<not> cr_ok c) \<or>
    (let q = (if i = 0 then GENESIS else lr_hash (ledger_rows st sid ! (i - 1))) in
     collision (encode q @ encode (lr_event (ledger_rows st sid ! i))) (encode q @ encode (canonical e)))"
proof -
  let ?q = "if i = 0 then GENESIS else lr_hash (ledger_rows st sid ! (i - 1))"
  let ?rows = "ledger_rows st sid"
  have len: "length (read_session_events st sid) = length ?rows" by (simp add: read_session_events_def)
  from recompute_rows_iff [OF bundle_rows(2), of "length ?rows" 1 GENESIS] obtain c where
    c: "recompute_from (length ?rows) 1 GENESIS (read_session_events st sid) = Inr c"
    "cr_ok c \<longleftrightarrow> chain_from 1 GENESIS ?rows" by blast
  have rc: "recompute_chain (JArr (read_session_events st sid)) = Inr c"
    using c(1) len by (simp add: recompute_chain_def json_iter_def)
  show ?thesis
  proof (cases "cr_ok c")
    case True
    with both_accept [OF acc _ i] c(2) e have "text_hash ?q (lr_event (?rows ! i)) = text_hash ?q (canonical e)" by auto
    then have "sha256 (encode ?q @ encode (lr_event (?rows ! i))) = sha256 (encode ?q @ encode (canonical e))"
      by (simp add: text_hash_def)
    from sha256_eq_or_collision [OF this] ne show ?thesis by (auto simp: Let_def)
  qed (use rc in blast)
qed

theorem reformatted_row_differs_witness:
  "let st = empty_store\<lparr>ledger := [\<lparr>lr_session = ''s'', lr_seq = 1, lr_event = ''{ }'', lr_hash = chain_hash GENESIS (JObj [])\<rparr>]\<rparr> in
   vr_ok (ledger_verify st ''s'' None) \<and>
   ((\<exists>c. recompute_chain (JArr (read_session_events st ''s'')) = Inr c \<and> \<not> cr_ok c) \<or>
    collision (encode GENESIS @ encode ''{ }'') (encode GENESIS @ encode ''{}''))"
proof -
  define st where "st = empty_store\<lparr>ledger := [\<lparr>lr_session = ''s'', lr_seq = 1, lr_event = ''{ }'', lr_hash = chain_hash GENESIS (JObj [])\<rparr>]\<rparr>"
  have rows: "ledger_rows st ''s'' = [\<lparr>lr_session = ''s'', lr_seq = 1, lr_event = ''{ }'', lr_hash = chain_hash GENESIS (JObj [])\<rparr>]"
    by (simp add: ledger_rows_def select_seq_def st_def)
  have l: "loads ''{ }'' = Some (JObj [])" by code_simp
  have c: "canonical (JObj []) = ''{}''" by code_simp
  have acc: "verify_rows (length (ledger_rows st ''s'')) 1 GENESIS (ledger_rows st ''s'') = Inr (chain_hash GENESIS (JObj []))"
    by (simp add: rows l Let_def)
  have "seals st = []" by (simp add: st_def empty_store_def)
  then have "vr_ok (ledger_verify st ''s'' None)" using acc by (simp add: ledger_verify_ok_iff)
  with reformatted_row_differs [OF acc, of 0 "JObj []"] rows l c show ?thesis unfolding Let_def st_def [symmetric] by simp
qed

subsection \<open>Team bundles\<close>

lemma seal_members_frame:
  "ledger_rows (seal_members key ms st) k = ledger_rows st k" "ledger_ok (seal_members key ms st) = ledger_ok st"
  "team_members (seal_members key ms st) tid = team_members st tid"
proof -
  have t: "team_members (snd (ledger_seal s k key)) tid = team_members s tid" for s k
    by (simp add: team_members_def ledger_seal_def Let_def split: prod.splits)
  show "ledger_rows (seal_members key ms st) k = ledger_rows st k" "ledger_ok (seal_members key ms st) = ledger_ok st"
    "team_members (seal_members key ms st) tid = team_members st tid"
    by (induction ms rule: rev_induct) (simp_all add: seal_members_def seal_on_close_def t)
qed

lemma find_seal_other:
  "k \<noteq> sid \<Longrightarrow> find (\<lambda>r. sl_session r = k) (seals (snd (ledger_seal st sid key))) = find (\<lambda>r. sl_session r = k) (seals st)"
proof -
  assume "k \<noteq> sid"
  then have f: "find (\<lambda>r. sl_session r = k) (filter (\<lambda>r. sl_session r \<noteq> sid) xs) = find (\<lambda>r. sl_session r = k) xs" for xs
    by (induction xs) auto
  show ?thesis unfolding ledger_seal_def Let_def
    using \<open>k \<noteq> sid\<close> by (simp add: find_append f split: prod.splits) (simp split: option.splits)
qed

lemma seal_members_current:
  assumes "ledger_ok st" and "sid \<in> tm_session ` set ms"
  shows "seal_current key (seal_members key ms st) sid" "is_sealed (seal_members key ms st) sid"
proof -
  have "sid \<in> tm_session ` set ms \<Longrightarrow> seal_current key (seal_members key ms st) sid \<and> is_sealed (seal_members key ms st) sid"
  proof (induction ms rule: rev_induct)
    case (snoc m ms)
    let ?s = "seal_members key ms st"
    have ok: "ledger_ok ?s" using assms(1) by (simp add: seal_members_frame)
    have step: "seal_members key (ms @ [m]) st = snd (ledger_seal ?s (tm_session m) key)"
      by (simp add: seal_members_def seal_on_close_def)
    show ?case
    proof (cases "sid = tm_session m")
      case True
      then show ?thesis unfolding step using seal_makes_current [OF ok] by simp
    next
      case False
      with snoc have "seal_current key ?s sid \<and> is_sealed ?s sid" by auto
      then show ?thesis unfolding step
        unfolding seal_current_def is_sealed_def find_seal_other [OF False] ledger_seal_frame by blast
    qed
  qed simp
  with assms(2) show "seal_current key (seal_members key ms st) sid" "is_sealed (seal_members key ms st) sid" by auto
qed

lemma find_provenance_ok:
  "\<forall>r\<in>set rows. event_ok r \<Longrightarrow> \<exists>p. find_provenance rows = Inr p \<and> (\<forall>d. p = Some d \<longrightarrow> wf_json (JObj d))"
proof (induction rows)
  case (Cons r rows)
  then obtain d where d: "wf_json (JObj d)" "lr_event r = canonical (JObj d)" by (auto simp: event_ok_def)
  obtain m where m: "sort_json (JObj d) = JObj m" by (simp add: sort_json.simps)
  have "wf_json (JObj m)" using wf_sort_json [OF d(1)] m by simp
  then have "wf_json (JObj (filter (\<lambda>p. fst p \<noteq> ''type'') m))" by (auto simp: distinct_map_filter)
  with Cons d m show ?case by (auto simp: loads_canonical as_dict_def)
qed simp

lemma build_team_ok:
  assumes ok: "ledger_ok st" and p: "\<And>d. package = Some d \<Longrightarrow> wf_json (JObj d)"
  shows "\<exists>pkg. wf_json (JObj pkg) \<and> build_team_bundle st tid package = Inr
     [(''runtime_version'', JStr VERSION), (''package'', JObj pkg), (''team_id'', JStr tid),
      (''delegation_tree'', JArr (map tree_json (team_members st tid))),
      (''sessions'', JArr (map (member_json st) (team_members st tid)))]"
proof -
  have "\<exists>pkg. wf_json (JObj pkg) \<and> (case find (\<lambda>m. tm_depth m = 0) (team_members st tid) of
      None \<Rightarrow> Inr [] | Some m \<Rightarrow> rbind (find_provenance (ledger_rows st (tm_session m)))
        (\<lambda>p. Inr (case p of None \<Rightarrow> [] | Some d \<Rightarrow> d))) = (Inr pkg :: py_exn + dict)"
  proof (cases "find (\<lambda>m. tm_depth m = 0) (team_members st tid)")
    case (Some m)
    from find_provenance_ok [OF ledger_rows_ok [OF ok], of "tm_session m"] obtain p where
      "find_provenance (ledger_rows st (tm_session m)) = Inr p" "\<forall>d. p = Some d \<longrightarrow> wf_json (JObj d)" by blast
    with Some show ?thesis by (cases p) auto
  qed simp
  then obtain pkg where pkg: "wf_json (JObj pkg)" "(case find (\<lambda>m. tm_depth m = 0) (team_members st tid) of
      None \<Rightarrow> Inr [] | Some m \<Rightarrow> rbind (find_provenance (ledger_rows st (tm_session m)))
        (\<lambda>p. Inr (case p of None \<Rightarrow> [] | Some d \<Rightarrow> d))) = (Inr pkg :: py_exn + dict)" by blast
  show ?thesis
  proof (cases package)
    case None
    with pkg show ?thesis by (intro exI [of _ pkg]) (simp only: build_team_bundle_def Let_def option.case rbind_simps simp_thms)
  next
    case (Some d)
    with p show ?thesis by (intro exI [of _ d]) (simp add: build_team_bundle_def Let_def)
  qed
qed

lemma verify_member_of_store:
  assumes ok: "ledger_ok st" and cur: "seal_current key st (tm_session m)" "is_sealed st (tm_session m)"
  shows "verify_member key (sort_json (member_json st m)) = Inr
    \<lparr>mr_agent = JStr (tm_agent m), mr_session = JStr (tm_session m), mr_chain_ok = True, mr_seal_ok = Some True,
     mr_count = length (ledger_rows st (tm_session m)), mr_error = None\<rparr>"
proof -
  let ?ps = "[(''session_id'', JStr (tm_session m)), (''agent'', JStr (tm_agent m)),
      (''events'', JArr (read_session_events st (tm_session m))), (''seal'', seal_or_empty st (tm_session m))]"
  have "\<exists>d. sort_json (JObj ?ps) = JObj d \<and> (\<forall>k. dict_get d k = map_option sort_json (dict_get ?ps k))"
    by (rule sort_json_obj) simp
  then obtain d where d: "sort_json (JObj ?ps) = JObj d" "\<And>k. dict_get d k = map_option sort_json (dict_get ?ps k)" by blast
  have g: "dict_get d ''session_id'' = Some (JStr (tm_session m))" "dict_get d ''agent'' = Some (JStr (tm_agent m))"
    "dict_get d ''events'' = Some (JArr (map sort_json (read_session_events st (tm_session m))))"
    "dict_get d ''seal'' = Some (sort_json (seal_or_empty st (tm_session m)))"
    by (simp_all add: d(2)) (simp_all add: sort_json.simps)
  show ?thesis
    using check_seal_current [OF ok cur(1), of "\<lparr>cr_ok = True, cr_head = chain_head (events_of (ledger_rows st (tm_session m))),
        cr_count = length (ledger_rows st (tm_session m)), cr_error = None\<rparr>"] cur(2)
      chain_of_session [OF ok, of "tm_session m"]
    by (simp add: verify_member_def member_json_def d(1) as_dict_def get_default_def get_or_null_def g)
qed

lemma export_team_shape:
  assumes ok: "ledger_ok st" and p: "\<forall>d. package = Some d \<longrightarrow> wf_json (JObj d)"
    and ex: "export_team_bundle src st tid key package = (res, st')"
  obtains b m pkg where "res = Inr (bundle_mac key (JObj m), bundle_zip src TEAM_README key (JObj b))" "wf_json (JObj b)"
    "bundle_mac key (JObj b) = bundle_mac key (JObj m)"
    "sort_json (JObj b) = JObj m" "wf_json (JObj pkg)" "dict_get m ''package'' = Some (sort_json (JObj pkg))"
    "dict_get m ''sessions'' = Some (JArr (map (\<lambda>x. sort_json (member_json (seal_members key (team_members st tid) st) x)) (team_members st tid)))"
proof -
  let ?s = "seal_members key (team_members st tid) st" and ?ms = "team_members st tid"
  have oks: "ledger_ok ?s" using ok by (simp add: seal_members_frame)
  have "\<And>d. package = Some d \<Longrightarrow> wf_json (JObj d)" using p by simp
  from build_team_ok [OF oks this, of package tid] obtain pkg where pkg: "wf_json (JObj pkg)"
    "build_team_bundle ?s tid package = Inr
     [(''runtime_version'', JStr VERSION), (''package'', JObj pkg), (''team_id'', JStr tid),
      (''delegation_tree'', JArr (map tree_json ?ms)), (''sessions'', JArr (map (member_json ?s) ?ms))]"
    by (auto simp: seal_members_frame)
  define b where "b = [(''runtime_version'', JStr VERSION), (''package'', JObj pkg), (''team_id'', JStr tid),
      (''delegation_tree'', JArr (map tree_json ?ms)), (''sessions'', JArr (map (member_json ?s) ?ms))]"
  have wfm: "wf_json (member_json ?s m)" "wf_json (tree_json m)" for m
    using wf_seal [of ?s "tm_session m"] wf_events [of ?s "tm_session m"]
    by (simp_all add: member_json_def tree_json_def split: option.splits)
  have wf: "wf_json (JObj b)" using pkg(1) wfm by (simp add: b_def)
  then have "distinct (map fst b)" by simp
  from sort_json_obj [OF this] obtain m where m: "sort_json (JObj b) = JObj m"
    "\<And>k. dict_get m k = map_option sort_json (dict_get b k)" by blast
  have mac: "bundle_mac key (JObj b) = bundle_mac key (JObj m)" using m(1) bundle_mac_sort by metis
  have ss: "dict_get m ''sessions'' = Some (JArr (map (\<lambda>x. sort_json (member_json ?s x)) ?ms))"
    "dict_get m ''package'' = Some (sort_json (JObj pkg))"
    by (simp_all add: m(2) b_def) (simp_all add: sort_json.simps)
  have "res = Inr (bundle_mac key (JObj m), bundle_zip src TEAM_README key (JObj b))"
    using ex mac unfolding export_team_bundle_def Let_def pkg(2) b_def [symmetric] by auto
  from that [OF this wf mac m(1) pkg(1) ss(2,1)] show thesis .
qed

text \<open>A team's run exports and verifies. Exporting a team over a well-formed ledger seals every
  member session and succeeds, and the bundle, read back from the zip, is verified under the key: the
  report is positive and lists every member in order with a valid chain, a valid seal and its number
  of events.\<close>

theorem team_export_then_verify:
  assumes ok: "ledger_ok st" and p: "\<forall>d. package = Some d \<longrightarrow> wf_json (JObj d)"
    and ex: "export_team_bundle src st tid key package = (res, st')"
  shows "\<exists>mac z r. res = Inr (mac, z) \<and> verify_bundle (Inr z) key = Inr (TeamReport r) \<and> tp_ok r \<and>
    tp_sessions r = map (\<lambda>m. \<lparr>mr_agent = JStr (tm_agent m), mr_session = JStr (tm_session m), mr_chain_ok = True,
      mr_seal_ok = Some True, mr_count = length (ledger_rows st (tm_session m)), mr_error = None\<rparr>) (team_members st tid)"
proof -
  let ?s = "seal_members key (team_members st tid) st" and ?ms = "team_members st tid"
  have oks: "ledger_ok ?s" using ok by (simp add: seal_members_frame)
  obtain b m pkg where res: "res = Inr (bundle_mac key (JObj m), bundle_zip src TEAM_README key (JObj b))" and wf: "wf_json (JObj b)"
    and mac: "bundle_mac key (JObj b) = bundle_mac key (JObj m)" and m: "sort_json (JObj b) = JObj m"
    and ss: "dict_get m ''sessions'' = Some (JArr (map (\<lambda>x. sort_json (member_json ?s x)) ?ms))"
    by (rule export_team_shape [OF ok p ex]) blast
  let ?rep = "\<lambda>m. \<lparr>mr_agent = JStr (tm_agent m), mr_session = JStr (tm_session m), mr_chain_ok = True,
      mr_seal_ok = Some True, mr_count = length (ledger_rows st (tm_session m)), mr_error = None\<rparr>"
  have "verify_member key (sort_json (member_json ?s x)) = Inr (?rep x)" if "x \<in> set ?ms" for x
  proof -
    have "tm_session x \<in> tm_session ` set ?ms" using that by simp
    from verify_member_of_store [OF oks seal_members_current [OF ok this]] show ?thesis
      by (simp add: seal_members_frame)
  qed
  then have t: "traverse (verify_member key) (map (\<lambda>x. sort_json (member_json ?s x)) ?ms) = Inr (map ?rep ?ms)"
    by (rule traverse_map)
  have "verify_bundle (Inr (bundle_zip src TEAM_README key (JObj b))) key = verify_bundle_obj (JObj m) (bundle_mac key (JObj m)) key"
    using read_bundle_zip [OF wf] m mac by simp
  moreover have "\<exists>r. verify_bundle_obj (JObj m) (bundle_mac key (JObj m)) key = Inr (TeamReport r) \<and> tp_ok r \<and> tp_sessions r = map ?rep ?ms"
    using t by (simp add: verify_bundle_obj_def as_dict_def ss verify_team_bundle_def get_default_def json_iter_def
        bundle_mac_def compare_digest_self list_all_iff member_fine_def seal_fine_def)
  ultimately show ?thesis using res by auto
qed

definition demo_team :: store where
  "demo_team = (append_all [(''a'', [(''type'', JStr ''provenance''), (''n'', JInt 1)]), (''b'', [])] empty_store)
     \<lparr>team_sessions := [\<lparr>tm_team = ''t'', tm_session = ''a'', tm_agent = ''lead'', tm_parent = None, tm_depth = 0, tm_created = 1\<rparr>,
       \<lparr>tm_team = ''t'', tm_session = ''b'', tm_agent = ''helper'', tm_parent = Some ''a'', tm_depth = 1, tm_created = 2\<rparr>]\<rparr>"

lemma demo_team_ok: "ledger_ok demo_team"
proof -
  have "ledger_ok (append_all [(''a'', [(''type'', JStr ''provenance''), (''n'', JInt 1)]), (''b'', [])] empty_store)"
    by (rule append_all_ok) simp_all
  then show ?thesis by (simp add: demo_team_def ledger_ok_def ledger_rows_def del: append_all.simps)
qed

theorem team_export_then_verify_witness:
  "\<exists>mac z r st'. export_team_bundle [] demo_team ''t'' [7] None = (Inr (mac, z), st') \<and>
     verify_bundle (Inr z) [7] = Inr (TeamReport r) \<and> tp_ok r \<and> length (tp_sessions r) = 2"
proof -
  note ok = demo_team_ok
  obtain res st' where ex: "export_team_bundle [] demo_team ''t'' [7] None = (res, st')" by (cases "export_team_bundle [] demo_team ''t'' [7] None")
  have "length (team_members demo_team ''t'') = 2" by (simp add: team_members_def demo_team_def)
  with team_export_then_verify [OF ok _ ex] ex show ?thesis by auto
qed

end
