(* ===== verification/Compliance.thy ===== *)
theory Compliance
  imports Evidence
begin

text \<open>
  Mapping an evidence bundle to compliance controls (\<open>scr/compliance.py\<close>): the snapshot of a bundle, the
  assertion for each evidence source, the evaluation of all catalogs and the report. The catalogs are data files and an
  argument. A policy decision that is not a string raises here at once; Python raises only when it cannot hash or sort
  it. In the report, the tick, the cross and the long dash are written \<open>+\<close>, \<open>x\<close> and \<open>-\<close>.
\<close>

subsection \<open>Snapshots\<close>

record snapshot =
  sn_events :: "dict list"
  sn_package :: json
  sn_sealed :: nat
  sn_total :: nat
  sn_bundle_seal :: bool
  sn_frameworks :: nat

text \<open>A row whose event cannot be read is skipped; an event that is not an object raises.\<close>

definition row_to_event :: "json \<Rightarrow> py_exn + dict option" where
  "row_to_event row =
     (case row of
        JObj r \<Rightarrow>
          (case dict_get r ''event'' of
             Some (JStr s) \<Rightarrow>
               (case loads s of
                  None \<Rightarrow> Inr None
                | Some (JObj e) \<Rightarrow> Inr (Some (dict_set ''_hash'' (get_or_null r ''hash'') e))
                | Some _ \<Rightarrow> Inl type_error)
           | _ \<Rightarrow> Inr None)
      | _ \<Rightarrow> Inr None)"

definition session_events :: "json \<Rightarrow> py_exn + bool \<times> dict list" where
  "session_events j =
     rbind (as_dict j) (\<lambda>s.
     rbind (let seal = get_or_null s ''seal'' in if truthy seal then as_dict seal else Inr []) (\<lambda>sl.
     rbind (json_iter (get_default s ''events'' (JArr []))) (\<lambda>rows.
     rbind (traverse row_to_event rows) (\<lambda>es.
     Inr (truthy (get_or_null sl ''hmac''), List.map_filter id es)))))"

definition snapshot_from_bundle :: "nat \<Rightarrow> json \<Rightarrow> py_exn + snapshot" where
  "snapshot_from_bundle n_frameworks j =
     rbind (as_dict j) (\<lambda>bundle.
     rbind (json_iter (get_default bundle ''sessions'' (JArr []))) (\<lambda>ss.
     rbind (traverse session_events ss) (\<lambda>xs.
     Inr \<lparr>sn_events = concat (map snd xs),
          sn_package = (let p = get_or_null bundle ''package'' in if truthy p then p else JObj []),
          sn_sealed = length (filter fst xs), sn_total = length xs, sn_bundle_seal = True,
          sn_frameworks = n_frameworks\<rparr>)))"

subsection \<open>Signals\<close>

definition lower_char :: "char \<Rightarrow> char" where
  "lower_char c = (let n = (of_char c :: nat) in
     if 65 \<le> n \<and> n \<le> 90 \<or> 192 \<le> n \<and> n \<le> 214 \<or> 216 \<le> n \<and> n \<le> 222 then char_of (n + 32) else c)"

definition count_events :: "(dict \<Rightarrow> bool) \<Rightarrow> snapshot \<Rightarrow> nat" where
  "count_events p snap = length (filter p (sn_events snap))"

definition of_type :: "string \<Rightarrow> dict \<Rightarrow> bool" where
  "of_type t e \<longleftrightarrow> dict_get e ''type'' = Some (JStr t)"

definition has :: "string \<Rightarrow> dict \<Rightarrow> bool" where
  "has key e \<longleftrightarrow> truthy (get_or_null e key)"

fun decision_name :: "json \<Rightarrow> py_exn + string" where
  "decision_name (JStr s) = Inr s"
| "decision_name _ = Inl type_error"

definition decisions :: "snapshot \<Rightarrow> py_exn + string list" where
  "decisions snap =
     rbind (traverse decision_name (filter truthy (map (\<lambda>e. get_or_null e ''decision'') (filter (of_type ''policy'') (sn_events snap)))))
       (\<lambda>ds. Inr (sorted_strs (remdups ds)))"

definition some_events :: "nat \<Rightarrow> string \<Rightarrow> py_exn + bool \<times> string" where
  "some_events n detail = Inr (n > 0, nat_str n @ detail)"

definition passed_and_detail :: "snapshot \<Rightarrow> string \<Rightarrow> py_exn + bool \<times> string" where
  "passed_and_detail snap source =
     (let src = map lower_char source; n = length (sn_events snap) in
      if src \<in> set [''ledger.entries'', ''ledger.segments'', ''ledger.entry''] then some_events n '' ledger events present''
      else if src = ''ledger.entry.entry_hash'' then
        (let h = count_events (has ''_hash'') snap in
         Inr (n > 0 \<and> h = n, nat_str h @ ''/'' @ nat_str n @ '' events carry an entry hash''))
      else if src \<in> set [''ledger.entry_hash chain'', ''ledger.segment.signature''] then
        Inr (sn_total snap > 0 \<and> sn_sealed snap = sn_total snap,
             nat_str (sn_sealed snap) @ ''/'' @ nat_str (sn_total snap) @ '' sessions HMAC-sealed (chain verified by ledger verify)'')
      else if src = ''ledger.args_hash'' then some_events (count_events (has ''args_sha256'') snap) '' tool_exec events carry args_sha256''
      else if src = ''ledger.policy_decision'' then
        rbind (decisions snap) (\<lambda>ds. Inr (ds \<noteq> [], ''policy decisions seen: '' @ repr_str_list ds))
      else if src = ''ledger.policy_decision=deny'' then
        some_events (count_events (of_type ''cap_denied'') snap +
            count_events (\<lambda>e. of_type ''policy'' e \<and> dict_get e ''decision'' = Some (JStr ''denied'')) snap)
          '' deny/cap_denied decisions (default-deny posture)''
      else if src = ''ledger.action=spawn'' then some_events (count_events (of_type ''delegate'') snap) '' delegate (spawn) events logged''
      else if src = ''ledger.action=kill'' then Inr (False, ''not evidenced on SCR (no kill events in a normal run)'')
      else if src = ''ledger.classification'' then
        some_events (count_events (of_type ''grant_context'') snap) '' grant_context events record the effective capability envelope''
      else if src = ''ledger.caveats'' then
        some_events (count_events (\<lambda>e. of_type ''delegate'' e \<and> has ''eff_cap_sha256'' e) snap)
          '' delegation edges carry an attenuated-capability hash (caveats)''
      else if src = ''ledger.entry.decision_reason'' then some_events (count_events (has ''reason'') snap) '' events carry a decision reason''
      else if src = ''ledger.entry.agent_identity_pubkey_sha384'' then
        Inr (False, ''not evidenced on SCR (per-entry agent pubkey not recorded)'')
      else if src = ''ledger.ingest_lag_ms'' then Inr (False, ''not evidenced on SCR (no ingest-lag metric persisted)'')
      else if src \<in> set [''policy.bundle.current'', ''policy.bundles''] then
        rbind (as_dict (sn_package snap)) (\<lambda>pkg.
          Inr (has ''package'' pkg, if has ''package'' pkg
               then ''signed package governs run: '' @ py_str (get_or_null pkg ''package'') @ '' '' @ py_str (get_or_null pkg ''version'')
               else ''no package provenance in bundle''))
      else if src = ''policy.bundle.signature'' then Inr (sn_bundle_seal snap, ''bundle is HMAC-sealed'')
      else if src \<in> set [''policy.caveat_allowlist'', ''policy.classification_envelope'', ''policy.rule_count''] then
        Inr (False, ''not evidenced in the bundle ('' @ source @ '' lives in the installed manifest)'')
      else if src \<in> set [''operator_queue'', ''operator_queue.resolved''] then
        (let m = count_events (\<lambda>e. of_type ''approval'' e \<or> of_type ''approval_required'' e) snap; r = count_events (of_type ''approval'') snap in
         if src = ''operator_queue.resolved''
         then Inr (r > 0, if r \<noteq> 0 then nat_str r @ '' resolved approvals'' else ''no approvals resolved this run'')
         else Inr (m > 0, if m \<noteq> 0 then nat_str m @ '' approval events'' else ''no operator approvals this run''))
      else if src \<in> set [''identity.public_key_pem'', ''identity.key_algorithm''] then
        rbind (as_dict (sn_package snap)) (\<lambda>pkg.
          Inr (has ''key_id'' pkg, if \<not> has ''key_id'' pkg then ''no key''
               else if src = ''identity.key_algorithm'' then ''key_algorithm=Ed25519 (SCR package signing)''
               else ''signing key pinned (key_id='' @ py_str (get_or_null pkg ''key_id'') @ '')''))
      else if src = ''identity.hash_algorithm'' then Inr (False, ''SCR uses SHA-256 (Merkle/ledger); control expects SHA-384'')
      else if src = ''exporter.bundle'' then Inr (sn_bundle_seal snap, ''a signed evidence bundle was produced'')
      else if src = ''framework.coverage'' then Inr (sn_frameworks snap \<ge> 4, nat_str (sn_frameworks snap) @ '' frameworks loaded'')
      else if src \<in> set [''monitors.drift_alerts'', ''red_team.runs'', ''control_plane.state'', ''control_plane.last_operator_action'', ''transport.mtls'']
      then Inr (False, ''not evidenced on SCR ('' @ source @ '' is a Sentinel-era source)'')
      else Inr (False, ''source '' @ [CHR 0x27] @ source @ [CHR 0x27] @ '' has no SCR assertion''))"

subsection \<open>Evaluation\<close>

record signal =
  sg_source :: string
  sg_passed :: bool
  sg_detail :: string

record control_row =
  cl_id :: json
  cl_name :: json
  cl_satisfied :: bool
  cl_signals :: "signal list"

record framework_row =
  fw_id :: json
  fw_name :: json
  fw_total :: nat
  fw_satisfied :: nat
  fw_controls :: "control_row list"

record evaluation =
  ev_frameworks :: "framework_row list"
  ev_total :: nat
  ev_satisfied :: nat

definition eval_source :: "snapshot \<Rightarrow> json \<Rightarrow> py_exn + signal" where
  "eval_source snap j =
     (case j of
        JStr s \<Rightarrow> rbind (passed_and_detail snap s) (\<lambda>(p, d). Inr \<lparr>sg_source = s, sg_passed = p, sg_detail = d\<rparr>)
      | _ \<Rightarrow> Inl no_attribute)"

definition required_key :: "dict \<Rightarrow> string \<Rightarrow> py_exn + json" where
  "required_key d k = (case dict_get d k of None \<Rightarrow> Inl (mk_exn ''KeyError'' (py_repr k)) | Some v \<Rightarrow> Inr v)"

definition control_sources :: "dict \<Rightarrow> py_exn + json list" where
  "control_sources c =
     rbind (as_dict (get_default c ''provenance_mapping'' (JObj []))) (\<lambda>m. json_iter (get_default m ''evidence_sources'' (JArr [])))"

definition eval_control :: "snapshot \<Rightarrow> json \<Rightarrow> py_exn + control_row" where
  "eval_control snap j =
     rbind (as_dict j) (\<lambda>c.
     rbind (control_sources c) (\<lambda>sources.
     rbind (traverse (eval_source snap) sources) (\<lambda>rows.
     rbind (required_key c ''id'') (\<lambda>cid.
     Inr \<lparr>cl_id = cid, cl_name = get_default c ''name'' (JStr []), cl_satisfied = (rows \<noteq> [] \<and> list_all sg_passed rows), cl_signals = rows\<rparr>))))"

definition eval_framework :: "snapshot \<Rightarrow> json \<Rightarrow> py_exn + framework_row" where
  "eval_framework snap j =
     rbind (as_dict j) (\<lambda>fw.
     rbind (json_iter (get_default fw ''controls'' (JArr []))) (\<lambda>cs.
     rbind (traverse (eval_control snap) cs) (\<lambda>rows.
     rbind (required_key fw ''framework_id'') (\<lambda>fid.
     Inr \<lparr>fw_id = fid, fw_name = get_default fw ''name'' (JStr []), fw_total = length rows,
          fw_satisfied = length (filter cl_satisfied rows), fw_controls = rows\<rparr>))))"

definition evaluate :: "json list \<Rightarrow> snapshot \<Rightarrow> py_exn + evaluation" where
  "evaluate fws snap =
     rbind (traverse (eval_framework snap) fws) (\<lambda>rows.
     Inr \<lparr>ev_frameworks = rows, ev_total = sum_list (map fw_total rows), ev_satisfied = sum_list (map fw_satisfied rows)\<rparr>)"

record bundle_mapping =
  bm_result :: evaluation
  bm_source :: string
  bm_package :: json
  bm_events :: nat

definition map_bundle :: "json list \<Rightarrow> string \<Rightarrow> py_exn + zip_file \<Rightarrow> py_exn + bundle_mapping" where
  "map_bundle fws bundle_path file =
     rbind file (\<lambda>z.
     rbind (rbind (zip_read z ''bundle.json'') loads_bytes) (\<lambda>bundle.
     rbind (snapshot_from_bundle (length fws) bundle) (\<lambda>snap.
     rbind (evaluate fws snap) (\<lambda>res.
     Inr \<lparr>bm_result = res, bm_source = bundle_path, bm_package = sn_package snap, bm_events = length (sn_events snap)\<rparr>))))"

subsection \<open>The report\<close>

definition signal_text :: "signal \<Rightarrow> string" where
  "signal_text r = (if sg_passed r then ''+ '' else ''x '') @ sg_source r @ '': '' @ sg_detail r"

definition control_line :: "control_row \<Rightarrow> string" where
  "control_line c =
     (let sig = join ''; '' (map signal_text (cl_signals c)) in
      ''| '' @ py_str (cl_id c) @ '' '' @ py_str (cl_name c) @ '' | '' @ (if cl_satisfied c then ''YES'' else ''no'') @ '' | '' @
      (if sig = [] then ''(no sources)'' else sig) @ '' |'')"

definition framework_lines :: "framework_row \<Rightarrow> string list" where
  "framework_lines fw =
     [''## '' @ py_str (fw_name fw) @ '' - '' @ nat_str (fw_satisfied fw) @ ''/'' @ nat_str (fw_total fw),
      ''| Control | Satisfied | Signals |'', ''|---|---|---|''] @ map control_line (fw_controls fw) @ [[]]"

definition render_markdown :: "bundle_mapping \<Rightarrow> py_exn + string" where
  "render_markdown res =
     rbind (if truthy (bm_package res) then as_dict (bm_package res) else Inr []) (\<lambda>pkg.
     Inr (join [CHR 0x0A]
       ([''# SelfConnect Runtime - Compliance Control Mapping'', [], ''compliance mapping complete'', [],
         ''Source bundle: `'' @ bm_source res @ ''`  ('' @ nat_str (bm_events res) @ '' ledger events)'',
         ''Governing package: '' @ py_str (get_default pkg ''package'' (JStr ''(none)'')) @ '' '' @ py_str (get_default pkg ''version'' (JStr [])) @
           '' (key_id '' @ py_str (get_default pkg ''key_id'' (JStr ''-'')) @ '')'',
         ''**Overall: '' @ nat_str (ev_satisfied (bm_result res)) @ '' / '' @ nat_str (ev_total (bm_result res)) @
           '' controls satisfied by this run's ledger.**'', [],
         ''Generated deterministically by SCR from the hash chain - not the '' @
           ''model. Signals marked not-evidenced are honest gaps, not failures.'', []] @
        concat (map framework_lines (ev_frameworks (bm_result res))))))"

subsection \<open>Evaluation is what the signals say\<close>

lemma traverse_items: "traverse f xs = Inr ys \<Longrightarrow> list_all2 (\<lambda>x y. f x = Inr y) xs ys"
  by (induction xs arbitrary: ys) (auto simp: rbind_Inr_iff)

lemma list_all2_right: "list_all2 P xs ys \<Longrightarrow> y \<in> set ys \<Longrightarrow> \<exists>x\<in>set xs. P x y"
  by (induction rule: list_all2_induct) auto

definition control_honest :: "snapshot \<Rightarrow> control_row \<Rightarrow> bool" where
  "control_honest snap c \<longleftrightarrow> (cl_satisfied c \<longleftrightarrow> cl_signals c \<noteq> [] \<and>
     (\<forall>s\<in>set (cl_signals c). passed_and_detail snap (sg_source s) = Inr (True, sg_detail s)))"

lemma eval_control_honest:
  assumes "eval_control snap j = Inr c"
  shows "control_honest snap c"
proof -
  from assms obtain sources where s: "list_all2 (\<lambda>x y. eval_source snap x = Inr y) sources (cl_signals c)"
      and c: "cl_satisfied c \<longleftrightarrow> cl_signals c \<noteq> [] \<and> list_all sg_passed (cl_signals c)"
    by (auto simp: eval_control_def rbind_Inr_iff dest!: traverse_items)
  have "passed_and_detail snap (sg_source y) = Inr (sg_passed y, sg_detail y)" if "y \<in> set (cl_signals c)" for y
  proof -
    from list_all2_right [OF s that] obtain x where "eval_source snap x = Inr y" by blast
    then show ?thesis by (cases x) (auto simp: eval_source_def rbind_Inr_iff)
  qed
  with c show ?thesis by (auto simp: control_honest_def list_all_iff)
qed

text \<open>The compliance report says what the signals say. In every evaluation that returns, the totals are the numbers
  of controls and of satisfied controls, so never more satisfied than there are, and a control is reported satisfied
  exactly when it has a source and the assertion for each of its sources, evaluated against the snapshot, passes.\<close>

theorem evaluation_counts:
  assumes "evaluate fws snap = Inr res"
  shows "length (ev_frameworks res) = length fws \<and> ev_total res = sum_list (map (\<lambda>f. length (fw_controls f)) (ev_frameworks res)) \<and>
    ev_satisfied res = sum_list (map (\<lambda>f. length (filter cl_satisfied (fw_controls f))) (ev_frameworks res)) \<and> ev_satisfied res \<le> ev_total res \<and>
    (\<forall>f\<in>set (ev_frameworks res). \<forall>c\<in>set (fw_controls f). cl_satisfied c \<longleftrightarrow> cl_signals c \<noteq> [] \<and>
       (\<forall>s\<in>set (cl_signals c). passed_and_detail snap (sg_source s) = Inr (True, sg_detail s)))"
proof -
  from assms have t: "list_all2 (\<lambda>j f. eval_framework snap j = Inr f) fws (ev_frameworks res)"
      and sums: "ev_total res = sum_list (map fw_total (ev_frameworks res))" "ev_satisfied res = sum_list (map fw_satisfied (ev_frameworks res))"
    by (auto simp: evaluate_def rbind_Inr_iff dest!: traverse_items)
  have f: "fw_total f = length (fw_controls f) \<and> fw_satisfied f = length (filter cl_satisfied (fw_controls f)) \<and>
      (\<forall>c\<in>set (fw_controls f). control_honest snap c)" if "f \<in> set (ev_frameworks res)" for f
  proof -
    from list_all2_right [OF t that] obtain j where "eval_framework snap j = Inr f" by blast
    then obtain cs where cs: "list_all2 (\<lambda>j c. eval_control snap j = Inr c) cs (fw_controls f)"
        and n: "fw_total f = length (fw_controls f)" "fw_satisfied f = length (filter cl_satisfied (fw_controls f))"
      by (auto simp: eval_framework_def rbind_Inr_iff dest!: traverse_items)
    have "control_honest snap c" if "c \<in> set (fw_controls f)" for c
      using list_all2_right [OF cs that] eval_control_honest by blast
    with n show ?thesis by blast
  qed
  have "map fw_total (ev_frameworks res) = map (\<lambda>f. length (fw_controls f)) (ev_frameworks res)"
    "map fw_satisfied (ev_frameworks res) = map (\<lambda>f. length (filter cl_satisfied (fw_controls f))) (ev_frameworks res)"
    using f by simp_all
  note sums' = sums [unfolded this]
  moreover have "sum_list (map (\<lambda>f. length (filter cl_satisfied (fw_controls f))) xs) \<le> sum_list (map (\<lambda>f. length (fw_controls f)) xs)" for xs
    by (rule sum_list_mono) simp
  moreover have "\<forall>f\<in>set (ev_frameworks res). \<forall>c\<in>set (fw_controls f). control_honest snap c" using f by blast
  ultimately show ?thesis using list_all2_lengthD [OF t] by (simp add: control_honest_def)
qed

definition demo_catalog :: json where
  "demo_catalog = JObj [(''framework_id'', JStr ''F''), (''controls'', JArr
     [JObj [(''id'', JStr ''A''), (''provenance_mapping'', JObj [(''evidence_sources'', JArr [JStr ''ledger.entries''])])],
      JObj [(''id'', JStr ''B'')]])]"

definition demo_snapshot :: snapshot where
  "demo_snapshot = \<lparr>sn_events = [[(''type'', JStr ''delegate'')]], sn_package = JObj [], sn_sealed = 0, sn_total = 1,
     sn_bundle_seal = True, sn_frameworks = 1\<rparr>"

theorem evaluation_counts_witness:
  "\<exists>res. evaluate [demo_catalog] demo_snapshot = Inr res \<and> ev_satisfied res \<le> ev_total res \<and> ev_total res = 2"
proof -
  have "(case evaluate [demo_catalog] demo_snapshot of Inr res \<Rightarrow> ev_total res = 2 | Inl e \<Rightarrow> False)" by code_simp
  then obtain res where "evaluate [demo_catalog] demo_snapshot = Inr res" "ev_total res = 2" by (auto split: sum.splits)
  with evaluation_counts [OF this(1)] show ?thesis by auto
qed

subsection \<open>Signals need evidence\<close>

text \<open>No signal passes without evidence, except three that pass for every bundle. A source passes only if the
  snapshot has ledger events, a sealed session or the package entry that the source asks for; the exceptions are the
  two assertions about the bundle's own seal and the count of catalogs.\<close>

theorem passing_needs_evidence:
  assumes "passed_and_detail snap source = Inr (True, detail)"
  shows "sn_events snap \<noteq> [] \<or> sn_sealed snap > 0 \<or>
    (\<exists>pkg. sn_package snap = JObj pkg \<and> (truthy (get_or_null pkg ''package'') \<or> truthy (get_or_null pkg ''key_id''))) \<or>
    map lower_char source \<in> {''policy.bundle.signature'', ''exporter.bundle'', ''framework.coverage''}"
proof (rule ccontr)
  assume n: "\<not> ?thesis"
  then have e: "sn_events snap = []" and s: "sn_sealed snap = 0"
    and p: "\<And>pkg. sn_package snap = JObj pkg \<Longrightarrow> \<not> has ''package'' pkg \<and> \<not> has ''key_id'' pkg"
    and x: "map lower_char source \<noteq> ''policy.bundle.signature''" "map lower_char source \<noteq> ''exporter.bundle''" "map lower_char source \<noteq> ''framework.coverage''"
    by (auto simp: has_def)
  have c: "count_events q snap = 0" for q by (simp add: count_events_def e)
  have d: "decisions snap = Inr []" by (simp add: decisions_def e)
  have pk: "rbind (as_dict (sn_package snap)) (\<lambda>pkg. Inr (has ''package'' pkg, f pkg)) \<noteq> Inr (True, detail)"
      "rbind (as_dict (sn_package snap)) (\<lambda>pkg. Inr (has ''key_id'' pkg, f pkg)) \<noteq> Inr (True, detail)" for f
    using p by (auto simp: rbind_Inr_iff as_dict_def split: json.splits)
  define src where "src = map lower_char source"
  have i: "(if b then y else z) \<noteq> r" if "y \<noteq> r" "z \<noteq> r" for b :: bool and y z r :: "py_exn + bool \<times> string"
    using that by simp
  have u: "passed_and_detail snap source \<noteq> Inr (True, detail)"
    unfolding passed_and_detail_def Let_def src_def [symmetric] some_events_def c d rbind_simps e s list.size if_not_P [OF x(1) [folded src_def]]
      if_not_P [OF x(2) [folded src_def]] if_not_P [OF x(3) [folded src_def]]
    by (intro i pk) (simp_all, auto)
  with assms show False by contradiction
qed

theorem passing_needs_evidence_witness:
  "passed_and_detail demo_snapshot ''Ledger.Entries'' = Inr (True, ''1 ledger events present'') \<and> sn_events demo_snapshot \<noteq> []"
proof -
  have p: "passed_and_detail demo_snapshot ''Ledger.Entries'' = Inr (True, ''1 ledger events present'')"
    and n: "sn_sealed demo_snapshot = 0" "sn_package demo_snapshot = JObj []"
      "map lower_char ''Ledger.Entries'' \<notin> {''policy.bundle.signature'', ''exporter.bundle'', ''framework.coverage''}"
    by code_simp+
  from passing_needs_evidence [OF p] n p show ?thesis by (auto simp: get_or_null_def truthy_def)
qed

subsection \<open>What the mapper reads\<close>

text \<open>The event of a ledger row as the mapper sees it.\<close>

definition seen_event :: "ledger_row \<Rightarrow> dict option" where
  "seen_event r = (case loads (lr_event r) of Some (JObj e) \<Rightarrow> Some (dict_set ''_hash'' (JStr (lr_hash r)) e) | _ \<Rightarrow> None)"

lemma event_ok_loads: "event_ok r \<Longrightarrow> \<exists>e. loads (lr_event r) = Some (JObj e)"
proof -
  assume "event_ok r"
  then obtain d where "wf_json (JObj d)" "lr_event r = canonical (JObj d)" by (auto simp: event_ok_def)
  then show ?thesis by (simp add: loads_canonical sort_json.simps)
qed

lemma row_to_event_row: "row_like j r \<Longrightarrow> event_ok r \<Longrightarrow> row_to_event j = Inr (seen_event r)"
  using event_ok_loads [of r] by (auto simp: row_like_def row_to_event_def seen_event_def get_or_null_def)

lemma traverse_list_all2:
  "list_all2 R xs ys \<Longrightarrow> (\<And>x y. R x y \<Longrightarrow> y \<in> set ys \<Longrightarrow> f x = Inr (g y)) \<Longrightarrow> traverse f xs = Inr (map g ys)"
  by (induction rule: list_all2_induct) auto

lemma session_events_of_store:
  assumes ok: "ledger_ok st"
  shows "\<exists>sealed. session_events (sort_json (member_json st m)) = Inr (sealed, List.map_filter seen_event (ledger_rows st (tm_session m)))"
proof -
  let ?ps = "[(''session_id'', JStr (tm_session m)), (''agent'', JStr (tm_agent m)),
      (''events'', JArr (read_session_events st (tm_session m))), (''seal'', seal_or_empty st (tm_session m))]"
  have "\<exists>d. sort_json (JObj ?ps) = JObj d \<and> (\<forall>k. dict_get d k = map_option sort_json (dict_get ?ps k))"
    by (rule sort_json_obj) simp
  then obtain d where d: "sort_json (JObj ?ps) = JObj d" "\<And>k. dict_get d k = map_option sort_json (dict_get ?ps k)" by blast
  have g: "dict_get d ''events'' = Some (JArr (map sort_json (read_session_events st (tm_session m))))"
    "dict_get d ''seal'' = Some (sort_json (seal_or_empty st (tm_session m)))"
    by (simp_all add: d(2)) (simp_all add: sort_json.simps)
  have "\<exists>x. sort_json (seal_or_empty st (tm_session m)) = JObj x"
    by (simp add: seal_or_empty_def read_seal_def seal_json_def sort_json.simps split: option.splits)
  then obtain x where x: "sort_json (seal_or_empty st (tm_session m)) = JObj x" by blast
  have "traverse row_to_event (map sort_json (read_session_events st (tm_session m))) = Inr (map seen_event (ledger_rows st (tm_session m)))"
    using ledger_rows_ok [OF ok] by (intro traverse_list_all2 [OF bundle_rows(1)] row_to_event_row) auto
  moreover have "List.map_filter id (map f ys) = List.map_filter f ys" for f :: "ledger_row \<Rightarrow> dict option" and ys
    by (simp add: map_filter_def filter_map comp_def)
  ultimately show ?thesis
    by (simp add: session_events_def member_json_def d(1) as_dict_def get_default_def get_or_null_def g x Let_def json_iter_def)
qed

text \<open>The mapping of an exported team bundle sees the ledger. For every team over a well-formed ledger, the bundle that
  the export writes is read back by the mapper into a snapshot whose events are exactly the events of the
  members' hash chains, in order, each with its entry hash, and whose number of sessions is the number of members.\<close>

theorem mapping_sees_ledger:
  assumes ok: "ledger_ok st" and p: "\<forall>d. package = Some d \<longrightarrow> wf_json (JObj d)"
    and ex: "export_team_bundle src st tid key package = (Inr (mac, z), st')"
  shows "\<exists>bundle snap. rbind (zip_read z ''bundle.json'') loads_bytes = Inr bundle \<and> snapshot_from_bundle n bundle = Inr snap \<and>
    sn_events snap = concat (map (\<lambda>m. List.map_filter seen_event (ledger_rows st (tm_session m))) (team_members st tid)) \<and>
    sn_total snap = length (team_members st tid)"
proof -
  let ?s = "seal_members key (team_members st tid) st" and ?ms = "team_members st tid"
  obtain b m pkg where res: "Inr (mac, z) = Inr (bundle_mac key (JObj m), bundle_zip src TEAM_README key (JObj b))" and wf: "wf_json (JObj b)"
    and m: "sort_json (JObj b) = JObj m"
    and ss: "dict_get m ''sessions'' = Some (JArr (map (\<lambda>x. sort_json (member_json ?s x)) ?ms))"
    by (rule export_team_shape [OF ok p ex]) blast
  have "zip_read z ''bundle.json'' = Inr (encode (canonical (JObj b)))" using res by (simp add: bundle_zip_def zip_read_def)
  then have rd: "rbind (zip_read z ''bundle.json'') loads_bytes = Inr (JObj m)"
    using m by (simp add: loads_bytes_def loads_canonical [OF wf])
  have oks: "ledger_ok ?s" using ok by (simp add: seal_members_frame)
  from session_events_of_store [OF oks] obtain f where
    f: "\<And>x. session_events (sort_json (member_json ?s x)) = Inr (f x, List.map_filter seen_event (ledger_rows st (tm_session x)))"
    unfolding seal_members_frame by metis
  have "traverse session_events (map (\<lambda>x. sort_json (member_json ?s x)) ?ms) =
      Inr (map (\<lambda>x. (f x, List.map_filter seen_event (ledger_rows st (tm_session x)))) ?ms)"
    by (rule traverse_map) (rule f)
  then have "snapshot_from_bundle n (JObj m) = Inr \<lparr>sn_events = concat (map (\<lambda>x. List.map_filter seen_event (ledger_rows st (tm_session x))) ?ms),
      sn_package = (let p = get_or_null m ''package'' in if truthy p then p else JObj []),
      sn_sealed = length (filter fst (map (\<lambda>x. (f x, List.map_filter seen_event (ledger_rows st (tm_session x)))) ?ms)), sn_total = length ?ms,
      sn_bundle_seal = True, sn_frameworks = n\<rparr>"
    by (simp add: snapshot_from_bundle_def as_dict_def get_default_def ss json_iter_def comp_def)
  with rd show ?thesis by auto
qed

theorem mapping_sees_ledger_witness:
  "\<exists>mac z st' bundle snap. export_team_bundle [] demo_team ''t'' [7] None = (Inr (mac, z), st') \<and>
     rbind (zip_read z ''bundle.json'') loads_bytes = Inr bundle \<and> snapshot_from_bundle 4 bundle = Inr snap \<and> sn_total snap = 2"
proof -
  have ok: "ledger_ok demo_team" by (rule demo_team_ok)
  obtain res st' where ex: "export_team_bundle [] demo_team ''t'' [7] None = (res, st')" by (cases "export_team_bundle [] demo_team ''t'' [7] None")
  obtain mac z where r: "res = Inr (mac, z)" by (rule export_team_shape [OF ok _ ex]) auto
  have "length (team_members demo_team ''t'') = 2" by (simp add: team_members_def demo_team_def)
  with mapping_sees_ledger [OF ok _ ex [unfolded r], of 4] ex r show ?thesis by auto
qed

text \<open>A bundle of a single session maps to no events. The mapper reads the key \<open>sessions\<close> only, which a bundle of
  one session does not have, so every such bundle is evaluated as if nothing had happened, and still counts as sealed.\<close>

theorem session_bundle_unmapped:
  "snapshot_from_bundle n (JObj (build_bundle st sid package)) = Inr snap \<longleftrightarrow>
     snap = \<lparr>sn_events = [], sn_package = JObj (case package of None \<Rightarrow> [] | Some p \<Rightarrow> p), sn_sealed = 0, sn_total = 0,
       sn_bundle_seal = True, sn_frameworks = n\<rparr>"
  by (cases package) (auto simp: snapshot_from_bundle_def build_bundle_def as_dict_def get_default_def get_or_null_def json_iter_def
      truthy_def Let_def)

end
