(* ===== verification/Tools.thy ===== *)
theory Tools
  imports Steps Compliance
begin

text \<open>
  Native tools (\<open>scr/tools_native.py\<close>), the sandbox's contract with its worker (\<open>scr/sandbox.py\<close>) and the worker
  (\<open>scr/worker.py\<close>). The operating system is a record of primitives over a world \<open>'x\<close>; what becomes of a worker
  process, and whether it had done its work by then, is decided by the world. One HTTP exchange is a primitive; the
  redirects that \<open>urlopen\<close> follows are modelled over it. The host of a URL and the regular-expression engine are
  arguments. A path, root or host that is not a string raises here at once. The long
  dash in messages is written \<open>-\<close>.
\<close>

subsection \<open>The operating system\<close>

text \<open>The answer to one request: the status and the bytes read, or the target of a redirect of a scheme that
  \<open>urllib\<close> follows.\<close>

datatype http_reply = Answer int string | Redirect string

text \<open>\<open>os_mkstemp\<close> makes a new file in a directory and answers its path, \<open>os_fill\<close> writes and flushes one,
  \<open>os_syncdir\<close> flushes a directory, \<open>os_makedirs\<close> makes a directory with those above it that are missing.\<close>

record 'x os =
  os_real :: "'x \<Rightarrow> string \<Rightarrow> string"
  os_read :: "string \<Rightarrow> json \<Rightarrow> 'x \<Rightarrow> (py_exn + string) \<times> 'x"
  os_makedirs :: "string \<Rightarrow> 'x \<Rightarrow> (py_exn + unit) \<times> 'x"
  os_mkstemp :: "string \<Rightarrow> 'x \<Rightarrow> (py_exn + string) \<times> 'x"
  os_fill :: "string \<Rightarrow> byte list \<Rightarrow> 'x \<Rightarrow> (py_exn + unit) \<times> 'x"
  os_replace :: "string \<Rightarrow> string \<Rightarrow> 'x \<Rightarrow> (py_exn + unit) \<times> 'x"
  os_syncdir :: "string \<Rightarrow> 'x \<Rightarrow> (py_exn + unit) \<times> 'x"
  os_unlink :: "string \<Rightarrow> 'x \<Rightarrow> (py_exn + unit) \<times> 'x"
  os_list :: "string \<Rightarrow> 'x \<Rightarrow> (py_exn + (string \<times> bool \<times> nat) list) \<times> 'x"
  os_get :: "string \<Rightarrow> json \<Rightarrow> json \<Rightarrow> 'x \<Rightarrow> (py_exn + http_reply) \<times> 'x"
  os_exec :: "string \<Rightarrow> string list \<Rightarrow> string \<Rightarrow> json \<Rightarrow> 'x \<Rightarrow> (py_exn + int \<times> string \<times> string) \<times> 'x"
  os_zip :: "string \<Rightarrow> 'x \<Rightarrow> (py_exn + zip_file) \<times> 'x"
  os_put :: "string \<Rightarrow> string \<Rightarrow> 'x \<Rightarrow> (py_exn + unit) \<times> 'x"
  os_windows :: bool
  os_host :: "string \<Rightarrow> string option"

subsection \<open>The worker\<close>

definition str_at :: "dict \<Rightarrow> string \<Rightarrow> py_exn + string" where
  "str_at d k = rbind (required_key d k) (\<lambda>j. case j of JStr s \<Rightarrow> Inr s | _ \<Rightarrow> Inl type_error)"

fun as_string :: "json \<Rightarrow> py_exn + string" where
  "as_string (JStr s) = Inr s"
| "as_string _ = Inl type_error"

definition strs_at :: "dict \<Rightarrow> string \<Rightarrow> py_exn + string list" where
  "strs_at d k = rbind (rbind (required_key d k) json_iter) (traverse as_string)"

definition resolved_at :: "'x os \<Rightarrow> dict \<Rightarrow> string \<Rightarrow> 'x \<Rightarrow> py_exn + string" where
  "resolved_at os job roots x =
     rbind (str_at job ''path'') (\<lambda>p. rbind (strs_at job roots) (\<lambda>rs. resolve_within (os_real os x) p rs (os_windows os)))"

definition run_with :: "(py_exn + 'a) \<Rightarrow> ('a \<Rightarrow> 'x \<Rightarrow> (py_exn + 'b) \<times> 'x) \<Rightarrow> 'x \<Rightarrow> (py_exn + 'b) \<times> 'x" where
  "run_with r f x = (case r of Inl e \<Rightarrow> (Inl e, x) | Inr a \<Rightarrow> f a x)"

definition then_ok :: "(py_exn + 'a) \<times> 'x \<Rightarrow> ('a \<Rightarrow> dict) \<Rightarrow> (py_exn + dict) \<times> 'x" where
  "then_ok p f = (rbind (fst p) (\<lambda>a. Inr ((''ok'', JBool True) # f a)), snd p)"

definition w_fs_read :: "'x os \<Rightarrow> dict \<Rightarrow> 'x \<Rightarrow> (py_exn + dict) \<times> 'x" where
  "w_fs_read os job x =
     run_with (resolved_at os job ''read_roots'' x) (\<lambda>path x.
       then_ok (os_read os path (get_default job ''max_bytes'' (JInt 1000000)) x) (\<lambda>c. [(''content'', JStr c)])) x"

definition then_do :: "(py_exn + 'a) \<times> 'x \<Rightarrow> ('a \<Rightarrow> 'x \<Rightarrow> (py_exn + 'b) \<times> 'x) \<Rightarrow> (py_exn + 'b) \<times> 'x" where
  "then_do p f = (case p of (r, x) \<Rightarrow> run_with r f x)"

text \<open>\<open>os.path.dirname\<close>, and the directory in which a file at a path is replaced: the path has been resolved, so it is
  absolute already.\<close>

definition dirname :: "string \<Rightarrow> string" where
  "dirname p =
     (let head = rev (dropWhile (\<lambda>c. c \<noteq> CHR ''/'') (rev p)) in
      if set head \<subseteq> {CHR ''/''} then head else rev (dropWhile (\<lambda>c. c = CHR ''/'') (rev head)))"

definition parent_dir :: "string \<Rightarrow> string" where
  "parent_dir p = (if dirname p = [] then ''.'' else dirname p)"

text \<open>The atomic write: a temporary file in the same directory is filled, flushed and renamed; after any exception it is
  unlinked, and the exception is raised again.\<close>

definition write_and_rename :: "'x os \<Rightarrow> string \<Rightarrow> string \<Rightarrow> byte list \<Rightarrow> 'x \<Rightarrow> (py_exn + unit) \<times> 'x" where
  "write_and_rename os tmp path data x =
     then_do (os_fill os tmp data x) (\<lambda>_ x.
     then_do (os_replace os tmp path x) (\<lambda>_ x.
     if os_windows os then (Inr (), x) else os_syncdir os (parent_dir path) x))"

definition drop_temp :: "'x os \<Rightarrow> string \<Rightarrow> py_exn \<Rightarrow> 'x \<Rightarrow> (py_exn + unit) \<times> 'x" where
  "drop_temp os tmp e x =
     (case os_unlink os tmp x of (r, x') \<Rightarrow>
       (case r of Inl e' \<Rightarrow> if isinstance e' ''OSError'' then Inl e else Inl e' | Inr _ \<Rightarrow> Inl e, x'))"

definition atomic_write :: "'x os \<Rightarrow> string \<Rightarrow> byte list \<Rightarrow> 'x \<Rightarrow> (py_exn + unit) \<times> 'x" where
  "atomic_write os path data x =
     then_do (os_mkstemp os (parent_dir path) x) (\<lambda>tmp x.
       case write_and_rename os tmp path data x of
         (Inr u, x') \<Rightarrow> (Inr u, x')
       | (Inl e, x') \<Rightarrow> drop_temp os tmp e x')"

definition w_fs_write :: "'x os \<Rightarrow> dict \<Rightarrow> 'x \<Rightarrow> (py_exn + dict) \<times> 'x" where
  "w_fs_write os job x =
     run_with (resolved_at os job ''write_roots'' x) (\<lambda>path x.
       then_do (os_makedirs os (dirname path) x) (\<lambda>_ x.
       run_with (str_at job ''content'') (\<lambda>c x.
         then_ok (atomic_write os path (encode c) x) (\<lambda>_. [(''bytes'', JInt (int (length (encode c))))])) x)) x"

definition w_fs_list :: "'x os \<Rightarrow> dict \<Rightarrow> 'x \<Rightarrow> (py_exn + dict) \<times> 'x" where
  "w_fs_list os job x =
     run_with (resolved_at os job ''read_roots'' x) (\<lambda>path x.
       then_ok (os_list os path x) (\<lambda>es. [(''entries'', JArr (map (\<lambda>(n, d, s).
         JObj [(''name'', JStr n), (''dir'', JBool d), (''size'', JInt (int s))]) es))])) x"

text \<open>\<open>urllib.request.urlopen\<close>: a redirect is followed wherever it leads, at most four times to one URL and to at most ten
  URLs; \<open>seen\<close> lists the redirects followed so far.\<close>

function urlopen :: "'x os \<Rightarrow> json \<Rightarrow> json \<Rightarrow> string list \<Rightarrow> string \<Rightarrow> 'x \<Rightarrow> (py_exn + int \<times> string) \<times> 'x" where
  "urlopen os t n seen url x =
     (case os_get os url t n x of
        (Inl e, x') \<Rightarrow> (Inl e, x')
      | (Inr (Answer status body), x') \<Rightarrow> (Inr (status, body), x')
      | (Inr (Redirect u), x') \<Rightarrow>
          if 4 \<le> count_list seen u \<or> 10 \<le> length (remdups seen)
          then (Inl (mk_exn ''HTTPError'' ''the server redirected too often''), x')
          else urlopen os t n (u # seen) u x')"
  by pat_completeness auto

lemma fewer_repeats:
  "count_list seen u < 4 \<Longrightarrow> u \<in> set seen \<Longrightarrow>
     (\<Sum>v\<in>set seen. 4 - count_list (u # seen) v) < (\<Sum>v\<in>set seen. 4 - count_list seen v)"
  by (rule sum_strict_mono_ex1) (auto intro!: bexI [of _ u])

termination urlopen
proof (relation "measures [\<lambda>(os, t, n, seen, url, x). 10 - card (set seen), \<lambda>(os, t, n, seen, url, x). \<Sum>v\<in>set seen. 4 - count_list seen v]")
  fix os :: "'x os" and t n seen url and x x' :: 'x and r u q
  assume "\<not> (4 \<le> count_list seen u \<or> 10 \<le> length (remdups seen))"
  then show "((os, t, n, u # seen, u, x'), os, t, n, seen, url, x) \<in> measures
      [\<lambda>(os, t, n, seen, url, x). 10 - card (set seen), \<lambda>(os, t, n, seen, url, x). \<Sum>v\<in>set seen. 4 - count_list seen v]"
    using fewer_repeats [of seen u] by (cases "u \<in> set seen") (auto simp: length_remdups_card_conv insert_absorb simp del: count_list.simps)
qed simp

declare urlopen.simps [simp del]

definition w_http_get :: "'x os \<Rightarrow> dict \<Rightarrow> 'x \<Rightarrow> (py_exn + dict) \<times> 'x" where
  "w_http_get os job x =
     run_with (rbind (str_at job ''url'') (\<lambda>url.
         let host = (case os_host os url of None \<Rightarrow> [] | Some h \<Rightarrow> h) in
         rbind (strs_at job ''net_hosts'') (\<lambda>hosts.
         if host \<notin> set hosts then Inl (denied (''network host not permitted: '' @ py_repr host)) else Inr url))) (\<lambda>url x.
       then_ok (urlopen os (get_default job ''timeout'' (JInt 30)) (get_default job ''max_bytes'' (JInt 1000000)) [] url x)
         (\<lambda>(status, c). [(''status'', JInt status), (''content'', JStr c)])) x"

definition last_chars :: "nat \<Rightarrow> string \<Rightarrow> string" where
  "last_chars n s = drop (length s - n) s"

definition w_proc_exec :: "'x os \<Rightarrow> dict \<Rightarrow> 'x \<Rightarrow> (py_exn + dict) \<times> 'x" where
  "w_proc_exec os job x =
     run_with (rbind (str_at job ''binary'') (\<lambda>b. rbind (strs_at job ''args'') (\<lambda>args. rbind (str_at job ''cwd'') (\<lambda>cwd. Inr (b, args, cwd)))))
       (\<lambda>(b, args, cwd) x.
       then_ok (os_exec os b args cwd (get_default job ''timeout'' (JInt 55)) x)
         (\<lambda>(rc, out, err). [(''returncode'', JInt rc), (''stdout'', JStr (last_chars 100000 out)), (''stderr'', JStr (last_chars 100000 err))])) x"

definition worker_op :: "'x os \<Rightarrow> string \<Rightarrow> (dict \<Rightarrow> 'x \<Rightarrow> (py_exn + dict) \<times> 'x) option" where
  "worker_op os op =
     dict_get [(''fs_read'', w_fs_read os), (''fs_write'', w_fs_write os), (''fs_list'', w_fs_list os),
       (''http_get'', w_http_get os), (''proc_exec'', w_proc_exec os)] op"

definition unknown_op :: "dict \<Rightarrow> dict" where
  "unknown_op job = [(''ok'', JBool False), (''error'', JStr ''unknown_op''), (''detail'', JStr (py_str (get_or_null job ''op'')))]"

definition worker_job :: "'x os \<Rightarrow> string \<Rightarrow> 'x \<Rightarrow> (py_exn + dict) \<times> 'x" where
  "worker_job os stdin x =
     (case loads stdin of
        None \<Rightarrow> (Inl (mk_exn ''JSONDecodeError'' ''invalid JSON''), x)
      | Some j \<Rightarrow>
          run_with (as_dict j) (\<lambda>job x.
            case get_default job ''op'' (JStr []) of
              JStr op \<Rightarrow> (case worker_op os op of None \<Rightarrow> (Inr (unknown_op job), x) | Some f \<Rightarrow> f job x)
            | JArr _ \<Rightarrow> (Inl type_error, x)
            | JObj _ \<Rightarrow> (Inl type_error, x)
            | _ \<Rightarrow> (Inr (unknown_op job), x)) x)"

definition worker_main :: "'x os \<Rightarrow> string \<Rightarrow> 'x \<Rightarrow> (py_exn + string) \<times> 'x" where
  "worker_main os stdin x =
     (case worker_job os stdin x of (r, x') \<Rightarrow>
       (case r of
          Inr d \<Rightarrow> (Inr (dumps (JObj d)), x')
        | Inl e \<Rightarrow>
            if isinstance e ''CapabilityDenied''
            then (Inr (dumps (JObj [(''ok'', JBool False), (''error'', JStr ''denied''), (''detail'', JStr (exn_msg e))])), x')
            else if isinstance e ''Exception''
            then (Inr (dumps (JObj [(''ok'', JBool False), (''error'', JStr (exn_class e)), (''detail'', JStr (take 500 (exn_msg e)))])), x')
            else (Inl e, x')))"

subsection \<open>The sandbox\<close>

definition POSIX_ENV_ALLOWLIST :: "string list" where
  "POSIX_ENV_ALLOWLIST = [''LANG'', ''LC_ALL'', ''TZ'']"

definition WINDOWS_ENV_ALLOWLIST :: "string list" where
  "WINDOWS_ENV_ALLOWLIST = [''SYSTEMROOT'', ''SYSTEMDRIVE'', ''WINDIR'', ''COMSPEC'', ''PATHEXT'', ''NUMBER_OF_PROCESSORS'', ''PROCESSOR_ARCHITECTURE'']"

type_synonym env = "(string \<times> string) list"

definition restricted_env :: "bool \<Rightarrow> string \<Rightarrow> env \<Rightarrow> env option \<Rightarrow> string option \<Rightarrow> env" where
  "restricted_env windows package_dir environ extra tmp_dir =
     (let allow = (if windows then WINDOWS_ENV_ALLOWLIST else POSIX_ENV_ALLOWLIST);
          e0 = fold (\<lambda>k d. case dict_get environ k of None \<Rightarrow> d | Some v \<Rightarrow> dict_set k v d) allow [];
          e1 = dict_set ''PYTHONIOENCODING'' ''utf-8'' (dict_set ''PYTHONPATH'' package_dir e0);
          e2 = (case tmp_dir of Some (c # cs) \<Rightarrow> dict_set ''TMPDIR'' (c # cs) (dict_set ''TMP'' (c # cs) (dict_set ''TEMP'' (c # cs) e1)) | _ \<Rightarrow> e1)
      in case extra of None \<Rightarrow> e2 | Some d \<Rightarrow> fold (\<lambda>(k, v). dict_set k v) d e2)"

definition worker_cmd :: "bool \<Rightarrow> string \<Rightarrow> string list" where
  "worker_cmd frozen executable = (if frozen then [executable, ''__scr_worker__''] else [executable, ''-s'', ''-m'', ''scr.worker''])"

text \<open>What becomes of a process; the flag says whether the worker's job had been done by then.\<close>

datatype proc_end = NotStarted py_exn | Finished | TimedOut bool | Killed bool | Crashed bool int string

record 'x sandbox =
  sb_fate :: "'x \<Rightarrow> proc_end \<times> 'x"
  sb_timeout :: string

definition worker_error :: "string \<Rightarrow> string \<Rightarrow> dict" where
  "worker_error error detail = [(''ok'', JBool False), (''error'', JStr error), (''detail'', JStr detail)]"

definition parse_output :: "string \<Rightarrow> dict" where
  "parse_output out = (case loads out of Some (JObj d) \<Rightarrow> d | _ \<Rightarrow> worker_error ''bad_worker_output'' (last_chars 500 out))"

definition run_worker :: "'x os \<Rightarrow> 'x sandbox \<Rightarrow> dict \<Rightarrow> string \<Rightarrow> 'x \<Rightarrow> (py_exn + dict) \<times> 'x" where
  "run_worker os sb payload cwd x =
     (case sb_fate sb x of (fate, x1) \<Rightarrow>
      (let stdin = dumps (JObj payload); after = (\<lambda>did. if did then snd (worker_main os stdin x1) else x1) in
       case fate of
         NotStarted e \<Rightarrow> (Inl e, x1)
       | TimedOut did \<Rightarrow> (Inr (worker_error ''timeout'' (''exceeded '' @ sb_timeout sb @ ''s; tree killed'')), after did)
       | Killed did \<Rightarrow> (Inr (worker_error ''cancelled'' ''worker tree killed by session cancel''), after did)
       | Crashed did rc err \<Rightarrow> (Inr (worker_error ''worker_crash'' (''rc='' @ int_str rc @ '' stderr='' @ last_chars 500 err)), after did)
       | Finished \<Rightarrow>
           (case worker_main os stdin x1 of
              (Inr out, x2) \<Rightarrow> (Inr (parse_output out), x2)
            | (Inl e, x2) \<Rightarrow> (Inr (worker_error ''worker_crash'' (''rc=1 stderr='' @ last_chars 500 (exn_msg e))), x2))))"

subsection \<open>The tools\<close>

definition work_dir :: "manifest \<Rightarrow> py_exn + string" where
  "work_dir m =
     (case (if fs_write_roots m \<noteq> [] then fs_write_roots m else fs_read_roots m) of
        [] \<Rightarrow> Inl (denied ''no filesystem roots to anchor a worker jail'')
      | r # _ \<Rightarrow> Inr r)"

definition denied_text :: "py_exn \<Rightarrow> string" where
  "denied_text e = ''DENIED by capability kernel: '' @ exn_msg e"

definition fold_result :: "dict \<Rightarrow> string" where
  "fold_result result =
     (if truthy (get_or_null result ''ok'') then dumps (JObj result)
      else ''TOOL ERROR ['' @ py_str (get_or_null result ''error'') @ '']: '' @ py_str (get_default result ''detail'' (JStr [])))"

definition is_str :: "json \<Rightarrow> bool" where
  "is_str j \<longleftrightarrow> (case j of JStr _ \<Rightarrow> True | _ \<Rightarrow> False)"

definition missing :: "dict \<Rightarrow> string list \<Rightarrow> string option" where
  "missing args keys =
     (let bad = filter (\<lambda>k. \<not> is_str (get_or_null args k)) keys in
      if bad \<noteq> [] then Some (''TOOL ERROR [bad_args]: missing or non-string argument(s) '' @ repr_str_list bad @ '' - supply them and retry'')
      else None)"

definition arg :: "dict \<Rightarrow> string \<Rightarrow> string" where
  "arg args k = (case dict_get args k of Some (JStr s) \<Rightarrow> s | _ \<Rightarrow> [])"

text \<open>\<open>CapabilityDenied\<close> is folded back to the model, anything else is raised.\<close>

definition guarded :: "py_exn + 'a \<Rightarrow> ('a \<Rightarrow> 'x \<Rightarrow> (py_exn + string) \<times> 'x) \<Rightarrow> 'x \<Rightarrow> (py_exn + string) \<times> 'x" where
  "guarded check f x =
     (case check of
        Inl e \<Rightarrow> (if isinstance e ''CapabilityDenied'' then Inr (denied_text e) else Inl e, x)
      | Inr a \<Rightarrow> f a x)"

definition with_args :: "dict \<Rightarrow> string list \<Rightarrow> ('x \<Rightarrow> (py_exn + string) \<times> 'x) \<Rightarrow> 'x \<Rightarrow> (py_exn + string) \<times> 'x" where
  "with_args args keys f x = (case missing args keys of Some err \<Rightarrow> (Inr err, x) | None \<Rightarrow> f x)"

definition in_worker :: "'x os \<Rightarrow> 'x sandbox \<Rightarrow> dict \<Rightarrow> py_exn + string \<Rightarrow> 'x \<Rightarrow> (py_exn + string) \<times> 'x" where
  "in_worker os sb payload cwd x =
     run_with cwd (\<lambda>c x. case run_worker os sb payload c x of (r, x') \<Rightarrow> (rbind r (\<lambda>d. Inr (fold_result d)), x')) x"

definition str_list :: "string list \<Rightarrow> json" where
  "str_list xs = JArr (map JStr xs)"

definition fs_read :: "'x os \<Rightarrow> 'x sandbox \<Rightarrow> manifest \<Rightarrow> dict \<Rightarrow> 'x \<Rightarrow> (py_exn + string) \<times> 'x" where
  "fs_read os sb m args x =
     with_args args [''path''] (\<lambda>x.
       guarded (check_read (os_real os x) m (arg args ''path'') (os_windows os)) (\<lambda>resolved.
         in_worker os sb [(''op'', JStr ''fs_read''), (''path'', JStr resolved), (''read_roots'', str_list (fs_read_roots m))] (work_dir m)) x) x"

definition fs_write :: "'x os \<Rightarrow> 'x sandbox \<Rightarrow> manifest \<Rightarrow> dict \<Rightarrow> 'x \<Rightarrow> (py_exn + string) \<times> 'x" where
  "fs_write os sb m args x =
     with_args args [''path'', ''content''] (\<lambda>x.
       guarded (check_write (os_real os x) m (arg args ''path'') (os_windows os)) (\<lambda>resolved.
         in_worker os sb [(''op'', JStr ''fs_write''), (''path'', JStr resolved), (''content'', JStr (arg args ''content'')),
           (''write_roots'', str_list (fs_write_roots m))] (work_dir m)) x) x"

definition fs_list :: "'x os \<Rightarrow> 'x sandbox \<Rightarrow> manifest \<Rightarrow> dict \<Rightarrow> 'x \<Rightarrow> (py_exn + string) \<times> 'x" where
  "fs_list os sb m args x =
     with_args args [''path''] (\<lambda>x.
       guarded (check_read (os_real os x) m (arg args ''path'') (os_windows os)) (\<lambda>resolved.
         in_worker os sb [(''op'', JStr ''fs_list''), (''path'', JStr resolved), (''read_roots'', str_list (fs_read_roots m))] (work_dir m)) x) x"

definition http_get :: "'x os \<Rightarrow> 'x sandbox \<Rightarrow> manifest \<Rightarrow> dict \<Rightarrow> 'x \<Rightarrow> (py_exn + string) \<times> 'x" where
  "http_get os sb m args x =
     with_args args [''url''] (\<lambda>x.
       guarded (check_net m (case os_host os (arg args ''url'') of None \<Rightarrow> [] | Some h \<Rightarrow> h)) (\<lambda>_.
         in_worker os sb [(''op'', JStr ''http_get''), (''url'', JStr (arg args ''url'')),
           (''net_hosts'', str_list (sorted_list_of_set (net_hosts m)))] (work_dir m)) x) x"

definition proc_exec :: "(string \<Rightarrow> string \<Rightarrow> bool) \<Rightarrow> 'x os \<Rightarrow> 'x sandbox \<Rightarrow> manifest \<Rightarrow> dict \<Rightarrow> 'x \<Rightarrow> (py_exn + string) \<times> 'x" where
  "proc_exec fullmatch os sb m args x =
     with_args args [''binary''] (\<lambda>x.
       run_with (rbind (json_iter (get_default args ''args'' (JArr []))) (traverse as_string)) (\<lambda>argv.
         guarded (rbind (check_exec fullmatch m (arg args ''binary'') argv) (\<lambda>_. work_dir m)) (\<lambda>cwd.
           in_worker os sb [(''op'', JStr ''proc_exec''), (''binary'', JStr (arg args ''binary'')), (''args'', str_list argv), (''cwd'', JStr cwd)]
             (Inr cwd))) x) x"

definition is_value_error :: "py_exn \<Rightarrow> bool" where
  "is_value_error e \<longleftrightarrow> isinstance e ''ValueError'' \<or> isinstance e ''JSONDecodeError'' \<or> isinstance e ''UnicodeDecodeError''"

definition compliance_map :: "json list \<Rightarrow> 'x os \<Rightarrow> manifest \<Rightarrow> dict \<Rightarrow> 'x \<Rightarrow> (py_exn + string) \<times> 'x" where
  "compliance_map fws os m args x =
     with_args args [''bundle'', ''out''] (\<lambda>x.
       guarded (rbind (check_read (os_real os x) m (arg args ''bundle'') (os_windows os)) (\<lambda>b.
                rbind (check_write (os_real os x) m (arg args ''out'') (os_windows os)) (\<lambda>o'. Inr (b, o')))) (\<lambda>(bundle, out) x.
         case os_zip os bundle x of (z, x1) \<Rightarrow>
         (case map_bundle fws bundle z of
            Inl e \<Rightarrow>
              (if isinstance e ''OSError'' \<or> isinstance e ''KeyError'' \<or> is_value_error e \<or> isinstance e ''BadZipFile''
               then Inr (''TOOL ERROR [compliance_map]: '' @ exn_class e @ '': '' @ exn_msg e) else Inl e, x1)
          | Inr res \<Rightarrow>
              run_with (render_markdown res) (\<lambda>txt x.
                case os_put os out txt x of (r, x') \<Rightarrow>
                  (rbind r (\<lambda>_. Inr (''compliance mapping complete: '' @ nat_str (ev_satisfied (bm_result res)) @ ''/'' @
                     nat_str (ev_total (bm_result res)) @ '' controls satisfied across '' @
                     nat_str (length (ev_frameworks (bm_result res))) @ '' frameworks; report written to '' @ out)), x')) x1)) x) x"

definition obj_schema :: "(string \<times> json) list \<Rightarrow> string list \<Rightarrow> dict" where
  "obj_schema props required = [(''type'', JStr ''object''), (''properties'', JObj props), (''required'', str_list required)]"

definition native_tool ::
  "string \<Rightarrow> (dict \<Rightarrow> 'x \<Rightarrow> (py_exn + string) \<times> 'x) \<Rightarrow> bool \<Rightarrow> bool \<Rightarrow> string \<Rightarrow> dict \<Rightarrow> string \<times> 'x tool_spec" where
  "native_tool name f idem par description parameters =
     (name, \<lparr>ts_name = name, ts_fn = (\<lambda>args (st, x). case f args x of (r, x') \<Rightarrow> (r, st, x')), ts_idempotent = idem,
        ts_description = description, ts_parameters = parameters, ts_parallel_safe = par, ts_classification = ''public''\<rparr>)"

definition string_type :: json where "string_type = JObj [(''type'', JStr ''string'')]"

definition build_native_tools ::
  "(string \<Rightarrow> string \<Rightarrow> bool) \<Rightarrow> json list \<Rightarrow> 'x os \<Rightarrow> 'x sandbox \<Rightarrow> manifest \<Rightarrow> (string \<times> 'x tool_spec) list" where
  "build_native_tools fullmatch fws os sb m =
     [native_tool ''fs_read'' (fs_read os sb m) True True ''Read a file inside the workspace.'' (obj_schema [(''path'', string_type)] [''path'']),
      native_tool ''fs_write'' (fs_write os sb m) False False ''Atomically write a file inside the workspace.''
        (obj_schema [(''path'', string_type), (''content'', string_type)] [''path'', ''content'']),
      native_tool ''fs_list'' (fs_list os sb m) True True ''List a directory inside the workspace.'' (obj_schema [(''path'', string_type)] [''path'']),
      native_tool ''http_get'' (http_get os sb m) True True ''HTTP GET an allowlisted host.'' (obj_schema [(''url'', string_type)] [''url'']),
      native_tool ''proc_exec'' (proc_exec fullmatch os sb m) False False ''Run an allowlisted binary in the workspace.''
        (obj_schema [(''binary'', string_type), (''args'', JObj [(''type'', JStr ''array''), (''items'', string_type)])] [''binary'']),
      native_tool ''compliance_map'' (compliance_map fws os m) True False
        (''Map an SCR evidence bundle's ledger to NIST/ISO/EU-AI-Act '' @ ''compliance controls and write a report.'')
        (obj_schema [(''bundle'', string_type), (''out'', string_type)] [''bundle'', ''out''])]"

subsection \<open>What the tools may do to the world\<close>

text \<open>
  The steps that a manifest allows: what becomes of a process, and each primitive within its grant. Paths are judged
  with the file system of the moment at which they are used. A file is replaced by steps that make its directory and a
  temporary file there, fill, rename or unlink that temporary file and flush the directory; when the path is not the
  granted root itself, that directory is inside the root too. A fetch starts at a URL whose host is granted and goes on
  only to where the last answer redirects.
\<close>

inductive file_step :: "'x os \<Rightarrow> string \<Rightarrow> 'x \<Rightarrow> 'x \<Rightarrow> bool" for os p where
  Dirs: "file_step os p x (snd (os_makedirs os (dirname p) x))"
| Temp: "file_step os p x (snd (os_mkstemp os (parent_dir p) x))"
| Fill: "fst (os_mkstemp os (parent_dir p) y) = Inr tmp \<Longrightarrow> file_step os p x (snd (os_fill os tmp b x))"
| Rename: "fst (os_mkstemp os (parent_dir p) y) = Inr tmp \<Longrightarrow> file_step os p x (snd (os_replace os tmp p x))"
| Sync: "file_step os p x (snd (os_syncdir os (parent_dir p) x))"
| Unlink: "fst (os_mkstemp os (parent_dir p) y) = Inr tmp \<Longrightarrow> file_step os p x (snd (os_unlink os tmp x))"

inductive web_steps :: "'x os \<Rightarrow> json \<Rightarrow> json \<Rightarrow> string \<Rightarrow> 'x \<Rightarrow> 'x \<Rightarrow> bool" for os t n where
  Get: "web_steps os t n url x (snd (os_get os url t n x))"
| Follow: "os_get os url t n x = (Inr (Redirect u), x') \<Longrightarrow> web_steps os t n u x' x'' \<Longrightarrow> web_steps os t n url x x''"

inductive os_step :: "(string \<Rightarrow> string \<Rightarrow> bool) \<Rightarrow> 'x os \<Rightarrow> 'x sandbox \<Rightarrow> manifest \<Rightarrow> 'x \<Rightarrow> 'x \<Rightarrow> bool" for fm os sb m where
  Fate: "os_step fm os sb m x (snd (sb_fate sb x))"
| Read: "r \<in> set (fs_read_roots m) \<Longrightarrow> inside p (os_real os x r) \<Longrightarrow> os_step fm os sb m x (snd (os_read os p n x))"
| List: "r \<in> set (fs_read_roots m) \<Longrightarrow> inside p (os_real os x r) \<Longrightarrow> os_step fm os sb m x (snd (os_list os p x))"
| Write: "r \<in> set (fs_write_roots m) \<Longrightarrow> inside p (os_real os x r) \<Longrightarrow>
    inside (parent_dir p) (os_real os x r) \<or> components p = components (os_real os x r) \<Longrightarrow>
    (file_step os p)\<^sup>*\<^sup>* x x' \<Longrightarrow> os_step fm os sb m x x'"
| Fetch: "(case os_host os url of None \<Rightarrow> [] | Some h \<Rightarrow> h) \<in> net_hosts m \<Longrightarrow> web_steps os t n url x x' \<Longrightarrow> os_step fm os sb m x x'"
| Exec: "check_exec fm m b args = Inr () \<Longrightarrow> work_dir m = Inr cwd \<Longrightarrow> os_step fm os sb m x (snd (os_exec os b args cwd t x))"
| Bundle: "r \<in> set (fs_read_roots m) \<Longrightarrow> inside p (os_real os x r) \<Longrightarrow> os_step fm os sb m x (snd (os_zip os p x))"
| Report: "r \<in> set (fs_read_roots m) \<Longrightarrow> inside p (os_real os x r) \<Longrightarrow> r' \<in> set (fs_write_roots m) \<Longrightarrow> inside q (os_real os x r') \<Longrightarrow>
    os_step fm os sb m x (snd (os_put os q c (snd (os_zip os p x))))"

abbreviation os_steps :: "(string \<Rightarrow> string \<Rightarrow> bool) \<Rightarrow> 'x os \<Rightarrow> 'x sandbox \<Rightarrow> manifest \<Rightarrow> 'x \<Rightarrow> 'x \<Rightarrow> bool" where
  "os_steps fm os sb m \<equiv> (os_step fm os sb m)\<^sup>*\<^sup>*"

lemma required_key_get: "required_key d k = Inr v \<longleftrightarrow> dict_get d k = Some v"
  by (auto simp: required_key_def split: option.splits)

lemma strings_iter: "rbind (json_iter (str_list xs)) (traverse as_string) = Inr xs"
proof -
  have "traverse as_string (map JStr xs) = Inr (map id xs)" by (rule traverse_map) simp
  then show ?thesis by (simp add: str_list_def json_iter_def)
qed

lemma run_with_state: "snd (run_with r f x) = (case r of Inl e \<Rightarrow> x | Inr a \<Rightarrow> snd (f a x))"
  by (simp add: run_with_def split: sum.splits)

lemma then_ok_state [simp]: "snd (then_ok p f) = snd p"
  by (simp add: then_ok_def)

lemma worker_main_state: "snd (worker_main os stdin x) = snd (worker_job os stdin x)"
  by (auto simp: worker_main_def split: prod.splits sum.splits)

lemma worker_job_op:
  assumes "wf_json (JObj job)" "dict_get job ''op'' = Some (JStr op)" "worker_op os op = Some f"
  shows "worker_job os (dumps (JObj job)) x = f job x"
  using assms by (simp add: worker_job_def loads_dumps as_dict_def run_with_def get_default_def)

lemma worker_ops [simp]:
  "worker_op os ''fs_read'' = Some (w_fs_read os)" "worker_op os ''fs_list'' = Some (w_fs_list os)"
  "worker_op os ''fs_write'' = Some (w_fs_write os)" "worker_op os ''http_get'' = Some (w_http_get os)"
  "worker_op os ''proc_exec'' = Some (w_proc_exec os)"
  by (simp_all add: worker_op_def)

lemma run_worker_steps:
  assumes "\<And>x. os_steps fm os sb m x (snd (worker_job os (dumps (JObj payload)) x))"
  shows "os_steps fm os sb m x (snd (run_worker os sb payload cwd x))"
proof -
  obtain fate x1 where f: "sb_fate sb x = (fate, x1)" by (cases "sb_fate sb x")
  have s: "os_steps fm os sb m x x1" using os_step.Fate [of fm os sb m x] f by auto
  have w: "os_steps fm os sb m x (snd (worker_main os (dumps (JObj payload)) x1))"
    unfolding worker_main_state using s assms by (rule rtranclp_trans)
  then have "os_steps fm os sb m x y" if "worker_main os (dumps (JObj payload)) x1 = (r, y)" for r y using that by simp
  then show ?thesis using s w f by (auto simp: run_worker_def Let_def split: proc_end.splits prod.splits sum.splits)
qed

lemma in_worker_steps:
  assumes "\<And>x. os_steps fm os sb m x (snd (worker_job os (dumps (JObj payload)) x))"
  shows "os_steps fm os sb m x (snd (in_worker os sb payload cwd x))"
proof -
  have "snd (case run_worker os sb payload c x of (r, x') \<Rightarrow> (rbind r (\<lambda>d. Inr (fold_result d)), x')) = snd (run_worker os sb payload c x)" for c
    by (simp split: prod.splits)
  then show ?thesis using run_worker_steps [OF assms] by (simp add: in_worker_def run_with_state split: sum.splits)
qed

lemma guarded_steps:
  "(\<And>a. check = Inr a \<Longrightarrow> os_steps fm os sb m x (snd (f a x))) \<Longrightarrow> os_steps fm os sb m x (snd (guarded check f x))"
  by (auto simp: guarded_def split: sum.splits)

lemma with_args_steps: "os_steps fm os sb m x (snd (f x)) \<Longrightarrow> os_steps fm os sb m x (snd (with_args args keys f x))"
  by (simp add: with_args_def split: option.splits)

lemma payload_strs:
  "dict_get job k = Some (str_list xs) \<Longrightarrow> strs_at job k = Inr xs"
  using strings_iter [of xs] by (simp add: strs_at_def required_key_get rbind_Inr_iff)

lemma payload_str: "dict_get job k = Some (JStr s) \<Longrightarrow> str_at job k = Inr s"
  by (simp add: str_at_def required_key_def)

lemma resolved_at_Inr:
  assumes "dict_get job ''path'' = Some (JStr p)" "dict_get job k = Some (str_list rs)" "resolved_at os job k x = Inr q"
  shows "\<exists>r\<in>set rs. inside q (os_real os x r)"
  using assms by (auto simp: resolved_at_def payload_str payload_strs resolve_within_Inr)

lemma wf_str_list [simp]: "wf_json (str_list xs)"
  by (simp add: str_list_def)

lemma read_job_steps:
  assumes f: "worker_op os op = Some f" "op = ''fs_read'' \<or> op = ''fs_list''"
  shows "os_steps fm os sb m x (snd (worker_job os (dumps (JObj [(''op'', JStr op), (''path'', JStr p), (''read_roots'', str_list (fs_read_roots m))])) x))"
proof -
  let ?job = "[(''op'', JStr op), (''path'', JStr p), (''read_roots'', str_list (fs_read_roots m))]"
  have r: "\<exists>r\<in>set (fs_read_roots m). inside q (os_real os x r)" if "resolved_at os ?job ''read_roots'' x = Inr q" for q
    by (rule resolved_at_Inr [OF _ _ that]) simp_all
  have "worker_job os (dumps (JObj ?job)) x = f ?job x" by (rule worker_job_op [OF _ _ f(1)]) simp_all
  moreover have "os_steps fm os sb m x (snd (w_fs_read os ?job x))" "os_steps fm os sb m x (snd (w_fs_list os ?job x))"
    unfolding w_fs_read_def w_fs_list_def run_with_state
    by (auto simp del: dict_get_Cons split: sum.splits dest!: r intro: os_step.Read os_step.List)
  ultimately show ?thesis using f by auto
qed

lemma then_do_state: "snd (then_do p f) = (case fst p of Inl e \<Rightarrow> snd p | Inr a \<Rightarrow> snd (f a (snd p)))"
  by (cases p; cases "fst p") (simp_all add: then_do_def run_with_state)

lemma write_and_rename_steps:
  assumes "fst (os_mkstemp os (parent_dir p) y) = Inr tmp"
  shows "(file_step os p)\<^sup>*\<^sup>* x (snd (write_and_rename os tmp p data x))"
proof -
  have f: "(file_step os p)\<^sup>*\<^sup>* x (snd (os_fill os tmp data x))" for x using assms by (blast intro: file_step.Fill)
  have r: "(file_step os p)\<^sup>*\<^sup>* x (snd (os_replace os tmp p x))" for x using assms by (blast intro: file_step.Rename)
  have s: "(file_step os p)\<^sup>*\<^sup>* x (snd (os_syncdir os (parent_dir p) x))" for x by (blast intro: file_step.Sync)
  have "(file_step os p)\<^sup>*\<^sup>* x (snd (then_do (os_replace os tmp p x) (\<lambda>_ x. if os_windows os then (Inr (), x) else os_syncdir os (parent_dir p) x)))" for x
    unfolding then_do_state using r s by (auto split: sum.splits intro: rtranclp_trans)
  then show ?thesis unfolding write_and_rename_def then_do_state [of "os_fill os tmp data x"]
    using f by (auto split: sum.splits intro: rtranclp_trans)
qed

lemma drop_temp_state [simp]: "snd (drop_temp os tmp e x) = snd (os_unlink os tmp x)"
  by (simp add: drop_temp_def split: prod.splits)

lemma atomic_write_steps: "(file_step os p)\<^sup>*\<^sup>* x (snd (atomic_write os p data x))"
proof (cases "os_mkstemp os (parent_dir p) x")
  case (Pair r x1)
  have t: "file_step os p x x1" using file_step.Temp [of os p x] Pair by simp
  show ?thesis
  proof (cases r)
    case (Inr tmp)
    with Pair have m: "fst (os_mkstemp os (parent_dir p) x) = Inr tmp" by simp
    obtain q x2 where w: "write_and_rename os tmp p data x1 = (q, x2)" by (cases "write_and_rename os tmp p data x1")
    have "(file_step os p)\<^sup>*\<^sup>* x1 x2" using write_and_rename_steps [OF m, of x1 data] w by simp
    moreover have "file_step os p x2 (snd (os_unlink os tmp x2))" using m by (rule file_step.Unlink)
    ultimately show ?thesis using t w Pair Inr
      by (cases q) (auto simp: atomic_write_def then_do_def run_with_def intro: converse_rtranclp_into_rtranclp rtranclp.rtrancl_into_rtrancl)
  qed (use t Pair in \<open>auto simp: atomic_write_def then_do_def run_with_def\<close>)
qed

lemma urlopen_steps: "web_steps os t n url x (snd (urlopen os t n seen url x))"
proof (induction os t n seen url x rule: urlopen.induct)
  case (1 os t n seen url x)
  obtain r x' where g: "os_get os url t n x = (r, x')" by (cases "os_get os url t n x")
  have "web_steps os t n url x x'" using web_steps.Get [of os t n url x] g by simp
  then show ?case using 1 g web_steps.Follow [of os url t n x]
    by (subst urlopen.simps) (auto split: sum.splits http_reply.splits)
qed

subsection \<open>The directory of a path\<close>

lemma split_on_append: "split_on c (h @ c # s) = split_on c h @ split_on c s"
  by (induction h) (auto split: list.splits)

lemma components_append: "components (h @ CHR ''/'' # s) = components h @ components s"
  by (simp add: components_def split_on_append)

lemma components_slashes: "set s \<subseteq> {CHR ''/''} \<Longrightarrow> components (d @ s) = components d"
proof (induction s arbitrary: d)
  case (Cons c s)
  then have "components (d @ c # s) = components d @ components s" using components_append [of d s] by auto
  moreover have "components s = components []" using Cons.IH [of "[]"] Cons.prems by simp
  ultimately show ?case by (simp add: components_def)
qed simp

lemma components_one: "CHR ''/'' \<notin> set s \<Longrightarrow> length (components s) \<le> 1"
  by (simp add: components_def split_on_no_sep)

text \<open>A path is its directory, slashes and a last component without slashes.\<close>

lemma path_split:
  obtains d s l where "p = d @ s @ l" "set s \<subseteq> {CHR ''/''}" "CHR ''/'' \<notin> set l" "dirname p = d" "d = [] \<longrightarrow> s = []" "s = [] \<longrightarrow> d = [] \<or> set d \<subseteq> {CHR ''/''}"
proof -
  let ?head = "rev (dropWhile (\<lambda>c. c \<noteq> CHR ''/'') (rev p))" and ?l = "rev (takeWhile (\<lambda>c. c \<noteq> CHR ''/'') (rev p))"
  let ?d = "rev (dropWhile (\<lambda>c. c = CHR ''/'') (rev ?head))" and ?s = "rev (takeWhile (\<lambda>c. c = CHR ''/'') (rev ?head))"
  have p: "p = ?head @ ?l" by (metis rev_append rev_rev_ident takeWhile_dropWhile_id)
  have h: "?head = ?d @ ?s" by (metis rev_append rev_rev_ident takeWhile_dropWhile_id)
  have l: "CHR ''/'' \<notin> set ?l" by (auto dest: set_takeWhileD)
  have s: "set ?s \<subseteq> {CHR ''/''}" by (auto dest: set_takeWhileD)
  show ?thesis
  proof (cases "set ?head \<subseteq> {CHR ''/''}")
    case True
    then show ?thesis using that [of ?head "[]" ?l] p l by (simp add: dirname_def Let_def)
  next
    case False
    then have n: "dropWhile (\<lambda>c. c \<noteq> CHR ''/'') (rev p) \<noteq> []" by (intro notI) simp
    then have "hd (dropWhile (\<lambda>c. c \<noteq> CHR ''/'') (rev p)) = CHR ''/''" using hd_dropWhile [OF n] by simp
    with n have s': "?s \<noteq> []" by (cases "dropWhile (\<lambda>c. c \<noteq> CHR ''/'') (rev p)") simp_all
    have d: "?d \<noteq> []" using False by (auto simp: dropWhile_eq_Nil_conv)
    have "dirname p = ?d" using False by (simp add: dirname_def Let_def)
    moreover have "p = ?d @ ?s @ ?l" using p h by (metis append.assoc)
    ultimately show ?thesis using d s' by (intro that [OF _ s l]) blast+
  qed
qed

lemma inside_parent:
  assumes "inside p r"
  shows "inside (parent_dir p) r \<or> components p = components r"
proof -
  obtain d s l where p: "p = d @ s @ l" "set s \<subseteq> {CHR ''/''}" "CHR ''/'' \<notin> set l" "dirname p = d" "d = [] \<longrightarrow> s = []"
    "s = [] \<longrightarrow> d = [] \<or> set d \<subseteq> {CHR ''/''}" by (rule path_split)
  have c: "components (parent_dir p) = components d" using p(4) by (auto simp: parent_dir_def components_def)
  have a: "startswith (parent_dir p) ''/'' = startswith p ''/''"
  proof (cases d)
    case Nil
    then have "p = l" using p(1,5) by simp
    then show ?thesis using p(3,4) Nil by (cases l) (auto simp: parent_dir_def startswith_def)
  qed (use p(1,4) in \<open>auto simp: parent_dir_def startswith_def\<close>)
  have "components p = components d @ components l"
  proof (cases s rule: rev_cases)
    case Nil
    show ?thesis
    proof (cases d rule: rev_cases)
      case (snoc d' c)
      then have "d = d' @ ''/''" using p(6) Nil by auto
      then show ?thesis using p(1) Nil components_append [of d' l] components_slashes [of "''/''" d'] by simp
    qed (use p(1) Nil in \<open>simp add: components_def\<close>)
  next
    case (snoc s' c)
    then have "p = (d @ s') @ CHR ''/'' # l" "set s' \<subseteq> {CHR ''/''}" using p(1,2) by auto
    then show ?thesis using components_append [of "d @ s'" l] components_slashes [of s' d] by simp
  qed
  with components_one [OF p(3)] have "prefix (components r) (components d) \<or> components p = components r" if "prefix (components r) (components p)"
    using that by (cases "components l") (auto simp: prefix_snoc)
  then show ?thesis using assms a c by (auto simp: inside_iff)
qed

lemma write_job_steps:
  "os_steps fm os sb m x (snd (worker_job os (dumps (JObj [(''op'', JStr ''fs_write''), (''path'', JStr p), (''content'', JStr c),
     (''write_roots'', str_list (fs_write_roots m))])) x))"
proof -
  let ?job = "[(''op'', JStr ''fs_write''), (''path'', JStr p), (''content'', JStr c), (''write_roots'', str_list (fs_write_roots m))]"
  have j: "str_at ?job ''content'' = Inr c" by (rule payload_str) simp
  have "os_steps fm os sb m x (snd (w_fs_write os ?job x))"
  proof (cases "resolved_at os ?job ''write_roots'' x")
    case (Inr q)
    then obtain r where r: "r \<in> set (fs_write_roots m)" "inside q (os_real os x r)"
      using resolved_at_Inr [OF _ _ Inr, where p = p and rs = "fs_write_roots m"] by auto
    have "(file_step os q)\<^sup>*\<^sup>* x (snd (w_fs_write os ?job x))"
      unfolding w_fs_write_def run_with_state then_do_state Inr j using file_step.Dirs [of os q x] atomic_write_steps [of os q]
      by (auto split: sum.splits intro: converse_rtranclp_into_rtranclp)
    then show ?thesis using os_step.Write [OF r inside_parent [OF r(2)]] by blast
  qed (simp add: w_fs_write_def run_with_state)
  moreover have "worker_job os (dumps (JObj ?job)) x = w_fs_write os ?job x" by (rule worker_job_op [where op = "''fs_write''"]) simp_all
  ultimately show ?thesis by simp
qed

lemma fetch_job_steps:
  "os_steps fm os sb m x (snd (worker_job os (dumps (JObj [(''op'', JStr ''http_get''), (''url'', JStr url),
     (''net_hosts'', str_list (sorted_list_of_set (net_hosts m)))])) x))"
proof -
  let ?hosts = "sorted_list_of_set (net_hosts m)"
  let ?job = "[(''op'', JStr ''http_get''), (''url'', JStr url), (''net_hosts'', str_list ?hosts)]"
  have h: "set ?hosts \<subseteq> net_hosts m" by (cases "finite (net_hosts m)") simp_all
  have j: "str_at ?job ''url'' = Inr url" "strs_at ?job ''net_hosts'' = Inr ?hosts"
    by (rule payload_str payload_strs, simp)+
  have "worker_job os (dumps (JObj ?job)) x = w_http_get os ?job x" by (rule worker_job_op [where op = "''http_get''"]) simp_all
  moreover have "os_steps fm os sb m x (snd (w_http_get os ?job x))"
    unfolding w_http_get_def run_with_state j using h
    by (auto simp: Let_def split: sum.splits if_splits option.splits intro!: r_into_rtranclp os_step.Fetch urlopen_steps)
  ultimately show ?thesis by simp
qed

lemma exec_job_steps:
  assumes "check_exec fm m b args = Inr ()" "work_dir m = Inr cwd"
  shows "os_steps fm os sb m x (snd (worker_job os (dumps (JObj [(''op'', JStr ''proc_exec''), (''binary'', JStr b), (''args'', str_list args),
     (''cwd'', JStr cwd)])) x))"
proof -
  let ?job = "[(''op'', JStr ''proc_exec''), (''binary'', JStr b), (''args'', str_list args), (''cwd'', JStr cwd)]"
  have j: "str_at ?job ''binary'' = Inr b" "strs_at ?job ''args'' = Inr args" "str_at ?job ''cwd'' = Inr cwd"
    by (rule payload_str payload_strs, simp)+
  have "worker_job os (dumps (JObj ?job)) x = w_proc_exec os ?job x" by (rule worker_job_op [where op = "''proc_exec''"]) simp_all
  moreover have "os_steps fm os sb m x (snd (w_proc_exec os ?job x))"
    unfolding w_proc_exec_def run_with_state j using assms by (auto intro!: r_into_rtranclp os_step.Exec)
  ultimately show ?thesis by simp
qed

lemma report_steps:
  assumes "r \<in> set (fs_read_roots m)" "inside p (os_real os x r)" "r' \<in> set (fs_write_roots m)" "inside q (os_real os x r')"
  shows "os_steps fm os sb m x (snd (case os_zip os p x of (z, x1) \<Rightarrow>
     (case map_bundle fws p z of
        Inl e \<Rightarrow> (f e, x1)
      | Inr res \<Rightarrow> run_with (render_markdown res) (\<lambda>txt x. case os_put os q txt x of (r, x') \<Rightarrow> (g res r, x')) x1)))"
proof -
  have z: "os_steps fm os sb m x x1" if "os_zip os p x = (z, x1)" for z x1
    using os_step.Bundle [where fm = fm and os = os and sb = sb, OF assms(1,2)] that by auto
  have p: "os_steps fm os sb m x x2" if "os_zip os p x = (z, x1)" "os_put os q c x1 = (y, x2)" for z x1 c y x2
    using os_step.Report [where fm = fm and os = os and sb = sb and c = c, OF assms] that by auto
  show ?thesis by (auto simp: run_with_state split: prod.splits sum.splits intro: z p)
qed

lemmas tool_steps = with_args_steps guarded_steps in_worker_steps read_job_steps write_job_steps fetch_job_steps exec_job_steps

lemma native_fn_steps:
  "os_steps fm os sb m x (snd (fs_read os sb m args x))" "os_steps fm os sb m x (snd (fs_list os sb m args x))"
  "os_steps fm os sb m x (snd (fs_write os sb m args x))" "os_steps fm os sb m x (snd (http_get os sb m args x))"
  "os_steps fm os sb m x (snd (proc_exec fm os sb m args x))" "os_steps fm os sb m x (snd (compliance_map fws os m args x))"
proof -
  show "os_steps fm os sb m x (snd (fs_read os sb m args x))" "os_steps fm os sb m x (snd (fs_list os sb m args x))"
    unfolding fs_read_def fs_list_def by (intro tool_steps; simp)+
  show "os_steps fm os sb m x (snd (fs_write os sb m args x))" "os_steps fm os sb m x (snd (http_get os sb m args x))"
    unfolding fs_write_def http_get_def by (intro tool_steps)+
  show "os_steps fm os sb m x (snd (proc_exec fm os sb m args x))"
    unfolding proc_exec_def
    by (intro with_args_steps) (auto simp: run_with_state rbind_Inr_iff split: sum.splits intro!: guarded_steps in_worker_steps exec_job_steps)
  show "os_steps fm os sb m x (snd (compliance_map fws os m args x))"
    unfolding compliance_map_def
    by (intro with_args_steps guarded_steps) (auto simp: rbind_Inr_iff cap_simps intro!: report_steps)
qed

lemma dict_get_mem: "dict_get d k = Some v \<Longrightarrow> (k, v) \<in> set d"
  unfolding dict_get_def by (rule map_of_SomeD)

lemma native_toolD:
  "(n, spec) = native_tool name f i p d ps \<Longrightarrow> n = name \<and> ts_fn spec = (\<lambda>args (st, x). case f args x of (r, x') \<Rightarrow> (r, st, x'))"
  by (simp add: native_tool_def)

lemma native_tool_cases:
  assumes "dict_get (build_native_tools fm fws os sb m) n = Some spec"
  obtains (fs_read) "n = ''fs_read''" "ts_fn spec = (\<lambda>args (st, x). case fs_read os sb m args x of (r, x') \<Rightarrow> (r, st, x'))"
  | (fs_write) "n = ''fs_write''" "ts_fn spec = (\<lambda>args (st, x). case fs_write os sb m args x of (r, x') \<Rightarrow> (r, st, x'))"
  | (fs_list) "n = ''fs_list''" "ts_fn spec = (\<lambda>args (st, x). case fs_list os sb m args x of (r, x') \<Rightarrow> (r, st, x'))"
  | (http_get) "n = ''http_get''" "ts_fn spec = (\<lambda>args (st, x). case http_get os sb m args x of (r, x') \<Rightarrow> (r, st, x'))"
  | (proc_exec) "n = ''proc_exec''" "ts_fn spec = (\<lambda>args (st, x). case proc_exec fm os sb m args x of (r, x') \<Rightarrow> (r, st, x'))"
  | (compliance_map) "n = ''compliance_map''" "ts_fn spec = (\<lambda>args (st, x). case compliance_map fws os m args x of (r, x') \<Rightarrow> (r, st, x'))"
proof -
  have "(n, spec) \<in> set (build_native_tools fm fws os sb m)" using assms by (rule dict_get_mem)
  then show ?thesis
    unfolding build_native_tools_def list.set insert_iff empty_iff by (elim disjE) (blast dest: native_toolD intro: that)+
qed

lemma native_tool_steps:
  assumes "dict_get (build_native_tools fm fws os sb m) n = Some spec" "ts_fn spec args (st, x) = (r, st', x')"
  shows "st' = st \<and> os_steps fm os sb m x x'"
  using assms(1)
proof (cases rule: native_tool_cases)
  case fs_read then show ?thesis using assms(2) native_fn_steps(1) [of fm os sb m x args] by (auto split: prod.splits)
next
  case fs_write then show ?thesis using assms(2) native_fn_steps(3) [of fm os sb m x args] by (auto split: prod.splits)
next
  case fs_list then show ?thesis using assms(2) native_fn_steps(2) [of fm os sb m x args] by (auto split: prod.splits)
next
  case http_get then show ?thesis using assms(2) native_fn_steps(4) [of fm os sb m x args] by (auto split: prod.splits)
next
  case proc_exec then show ?thesis using assms(2) native_fn_steps(5) [of fm os sb m x args] by (auto split: prod.splits)
next
  case compliance_map then show ?thesis using assms(2) native_fn_steps(6) [of fm os sb m x fws args] by (auto split: prod.splits)
qed

lemma native_tools_ok: "dict_get (build_native_tools fm fws os sb m) n = Some spec \<Longrightarrow> tool_ok sid spec"
  using native_tool_steps [of fm fws os sb m n spec] unfolding tool_ok_def by (metis grows_refl)





subsection \<open>Refused calls\<close>

text \<open>What a call of a native tool asks of the manifest.\<close>

definition demands :: "'x os \<Rightarrow> string \<Rightarrow> dict \<Rightarrow> request list" where
  "demands os n args =
     (if n = ''fs_read'' \<or> n = ''fs_list'' then [ReadPath (arg args ''path'') (os_windows os)]
      else if n = ''fs_write'' then [WritePath (arg args ''path'') (os_windows os)]
      else if n = ''http_get'' then [NetHost (case os_host os (arg args ''url'') of None \<Rightarrow> [] | Some h \<Rightarrow> h)]
      else if n = ''proc_exec''
      then (case rbind (json_iter (get_default args ''args'' (JArr []))) (traverse as_string) of
              Inl _ \<Rightarrow> [] | Inr argv \<Rightarrow> [Exec (arg args ''binary'') argv])
      else if n = ''compliance_map''
      then [ReadPath (arg args ''bundle'') (os_windows os), WritePath (arg args ''out'') (os_windows os)]
      else [])"

definition refusal :: "string \<Rightarrow> bool" where
  "refusal t \<longleftrightarrow> startswith t ''DENIED by capability kernel: '' \<or> startswith t ''TOOL ERROR [bad_args]: ''"

lemma ads_denied: "ads_parts i ps = Inl e \<Longrightarrow> isinstance e ''CapabilityDenied''"
  by (induction i ps rule: ads_parts.induct) (auto simp: denied_def mk_exn_def isinstance_def split: if_splits)

lemma checks_deny:
  "check_read rp m p w = Inl e \<Longrightarrow> isinstance e ''CapabilityDenied''"
  "check_write rp m p w = Inl e \<Longrightarrow> isinstance e ''CapabilityDenied''"
  "check_net m h = Inl e \<Longrightarrow> isinstance e ''CapabilityDenied''"
  "check_exec fm m b args = Inl e \<Longrightarrow> isinstance e ''CapabilityDenied''"
  by (auto simp: check_read_def check_write_def check_net_def check_exec_def resolve_within_def reject_ads_def Let_def
      denied_def mk_exn_def isinstance_def split: if_splits sum.splits dest!: ads_denied)

lemma guarded_refuses:
  "check = Inl e \<Longrightarrow> isinstance e ''CapabilityDenied'' \<Longrightarrow> \<exists>t. guarded check f x = (Inr t, x) \<and> refusal t"
  by (simp add: guarded_def denied_text_def refusal_def startswith_def)

lemma with_args_refuses:
  "\<exists>t. f x = (Inr t, x) \<and> refusal t \<Longrightarrow> \<exists>t. with_args args keys f x = (Inr t, x) \<and> refusal t"
  by (auto simp: with_args_def missing_def Let_def refusal_def startswith_def split: option.splits if_splits)

lemma unpermitted_check:
  "\<not> permits rp fm m (ReadPath p w) \<Longrightarrow> \<exists>e. check_read rp m p w = Inl e \<and> isinstance e ''CapabilityDenied''"
  "\<not> permits rp fm m (WritePath p w) \<Longrightarrow> \<exists>e. check_write rp m p w = Inl e \<and> isinstance e ''CapabilityDenied''"
  "\<not> permits rp fm m (NetHost h) \<Longrightarrow> \<exists>e. check_net m h = Inl e \<and> isinstance e ''CapabilityDenied''"
  "\<not> permits rp fm m (Exec b args) \<Longrightarrow> \<exists>e. check_exec fm m b args = Inl e \<and> isinstance e ''CapabilityDenied''"
proof -
  show "\<not> permits rp fm m (ReadPath p w) \<Longrightarrow> \<exists>e. check_read rp m p w = Inl e \<and> isinstance e ''CapabilityDenied''"
    by (cases "check_read rp m p w") (auto intro: checks_deny simp: cap_simps)
  show "\<not> permits rp fm m (WritePath p w) \<Longrightarrow> \<exists>e. check_write rp m p w = Inl e \<and> isinstance e ''CapabilityDenied''"
    by (cases "check_write rp m p w") (auto intro: checks_deny simp: cap_simps)
  show "\<not> permits rp fm m (NetHost h) \<Longrightarrow> \<exists>e. check_net m h = Inl e \<and> isinstance e ''CapabilityDenied''"
    by (cases "check_net m h") (auto intro: checks_deny simp: cap_simps)
  show "\<not> permits rp fm m (Exec b args) \<Longrightarrow> \<exists>e. check_exec fm m b args = Inl e \<and> isinstance e ''CapabilityDenied''"
    by (cases "check_exec fm m b args") (auto intro: checks_deny)
qed

lemma unpermitted_read:
  assumes "\<not> permits (os_real os x) fm m (ReadPath (arg args ''path'') (os_windows os))"
  shows "\<exists>t. fs_read os sb m args x = (Inr t, x) \<and> refusal t" "\<exists>t. fs_list os sb m args x = (Inr t, x) \<and> refusal t"
  using unpermitted_check(1) [OF assms] unfolding fs_read_def fs_list_def
  by (auto intro!: with_args_refuses guarded_refuses)

lemma unpermitted_write:
  assumes "\<not> permits (os_real os x) fm m (WritePath (arg args ''path'') (os_windows os))"
  shows "\<exists>t. fs_write os sb m args x = (Inr t, x) \<and> refusal t"
  using unpermitted_check(2) [OF assms] unfolding fs_write_def by (auto intro!: with_args_refuses guarded_refuses)

lemma unpermitted_host:
  assumes "\<not> permits (os_real os x) fm m (NetHost (case os_host os (arg args ''url'') of None \<Rightarrow> [] | Some h \<Rightarrow> h))"
  shows "\<exists>t. http_get os sb m args x = (Inr t, x) \<and> refusal t"
  using unpermitted_check(3) [OF assms] unfolding http_get_def by (auto intro!: with_args_refuses guarded_refuses)

lemma unpermitted_exec:
  assumes "rbind (json_iter (get_default args ''args'' (JArr []))) (traverse as_string) = Inr argv"
    "\<not> permits (os_real os x) fm m (Exec (arg args ''binary'') argv)"
  shows "\<exists>t. proc_exec fm os sb m args x = (Inr t, x) \<and> refusal t"
  using unpermitted_check(4) [OF assms(2)] assms(1) unfolding proc_exec_def
  by (auto simp: run_with_def intro!: with_args_refuses guarded_refuses)

lemma unpermitted_report:
  assumes "\<not> permits (os_real os x) fm m (ReadPath (arg args ''bundle'') (os_windows os)) \<or>
     \<not> permits (os_real os x) fm m (WritePath (arg args ''out'') (os_windows os))"
  shows "\<exists>t. compliance_map fws os m args x = (Inr t, x) \<and> refusal t"
proof -
  let ?r = "check_read (os_real os x) m (arg args ''bundle'') (os_windows os)"
  let ?w = "check_write (os_real os x) m (arg args ''out'') (os_windows os)"
  have "\<exists>e. rbind ?r (\<lambda>b. rbind ?w (\<lambda>o'. Inr (b, o'))) = Inl e \<and> isinstance e ''CapabilityDenied''"
  proof (cases ?r)
    case (Inr b)
    then have "\<not> permits (os_real os x) fm m (WritePath (arg args ''out'') (os_windows os))" using assms by (auto simp: cap_simps)
    from unpermitted_check(2) [OF this] show ?thesis by (auto simp: Inr)
  qed (auto intro: checks_deny)
  then show ?thesis unfolding compliance_map_def by (auto intro!: with_args_refuses guarded_refuses)
qed

lemma refused_call:
  assumes "\<exists>t. f args x = (Inr t, x) \<and> refusal t" "ts_fn spec = (\<lambda>args (st, x). case f args x of (r, x') \<Rightarrow> (r, st, x'))"
  shows "\<exists>t. ts_fn spec args (st, x) = (Inr t, st, x) \<and> refusal t"
  using assms by auto

subsection \<open>The worker's environment\<close>

lemma allowed_env:
  "dict_get (fold (\<lambda>k d. case dict_get environ k of None \<Rightarrow> d | Some v \<Rightarrow> dict_set k v d) ks d) k =
     (if k \<in> set ks \<and> dict_get environ k \<noteq> None then dict_get environ k else dict_get d k)"
  by (induction ks arbitrary: d) (auto split: option.splits)

definition computed_vars :: "string list" where
  "computed_vars = [''PYTHONPATH'', ''PYTHONIOENCODING'', ''TEMP'', ''TMP'', ''TMPDIR'']"

lemma restricted_env_keys:
  assumes "dict_get (restricted_env windows dir environ None tmp) k = Some v" "k \<notin> set computed_vars"
  shows "k \<in> set (if windows then WINDOWS_ENV_ALLOWLIST else POSIX_ENV_ALLOWLIST) \<and> dict_get environ k = Some v"
  using assms unfolding restricted_env_def Let_def computed_vars_def
  by (auto simp: allowed_env split: option.splits list.splits if_splits)

subsection \<open>Properties\<close>


text \<open>A machine for the witnesses: its world is the list of what was done to it.\<close>

definition demo_os :: "string list os" where
  "demo_os = \<lparr>os_real = (\<lambda>_ p. p), os_read = (\<lambda>p n x. (Inr ''data'', x @ [''read '' @ p])), 
     os_makedirs = (\<lambda>d x. (Inr (), x @ [''makedirs '' @ d])), os_mkstemp = (\<lambda>d x. (Inr (d @ ''/.scr-tmp-1''), x @ [''mkstemp '' @ d])),
     os_fill = (\<lambda>p b x. (Inr (), x @ [''fill '' @ p])), os_replace = (\<lambda>p q x. (Inr (), x @ [''replace '' @ q])),
     os_syncdir = (\<lambda>d x. (Inr (), x @ [''sync '' @ d])), os_unlink = (\<lambda>p x. (Inr (), x @ [''unlink '' @ p])),
     os_list = (\<lambda>p x. (Inr [], x @ [''list '' @ p])),
     os_get = (\<lambda>u t n x. (Inr (if u = ''https://a.org/'' then Redirect ''http://10.0.0.1/'' else Answer 200 ''x''), x @ [''get '' @ u])),
     os_exec = (\<lambda>b a c t x. (Inr (0, [], []), x @ [''exec '' @ b])), os_zip = (\<lambda>p x. (Inl (mk_exn ''FileNotFoundError'' p), x)),
     os_put = (\<lambda>p c x. (Inr (), x @ [''put '' @ p])), os_windows = False, os_host = (\<lambda>_. None)\<rparr>"

definition demo_sandbox :: "string list sandbox" where
  "demo_sandbox = \<lparr>sb_fate = (\<lambda>x. (Finished, x @ [''spawn''])), sb_timeout = ''60.0''\<rparr>"

definition native_kernel :: "string list kernel" where
  "native_kernel = \<lparr>k_complete = (\<lambda>_ _ x. (Inr \<lparr>mr_text = ''done'', mr_tool_calls = (if x = [] then
       [\<lparr>tc_id = ''c1'', tc_name = ''fs_read'', tc_arguments = [(''path'', JStr ''/srv/x'')]\<rparr>] else []),
       mr_input_tokens = 1, mr_output_tokens = 1\<rparr>, x @ [''model''])),
     k_tools = build_native_tools (\<lambda>_ _. False) [] demo_os demo_sandbox demo_parent, k_manifest = demo_parent, k_guards = default_guards,
     k_system_prompt = ''agent'', k_policy = None, k_search = (\<lambda>_ _. False), k_cancel_check = None,
     k_finalize_guard = None, k_monotonic = (\<lambda>x. (0, x)), k_sleep = (\<lambda>_ x. x)\<rparr>"


text \<open>C19: A call that asks for something its manifest does not grant does nothing: no worker is spawned and the world and
  the store stay as they were, and the model is given a refusal as the tool's result, never an exception.\<close>

theorem refused_call_does_nothing:
  assumes "dict_get (build_native_tools fm fws os sb m) n = Some spec" and "q \<in> set (demands os n args)"
    and "\<not> permits (os_real os x) fm m q"
  shows "\<exists>t. ts_fn spec args (st, x) = (Inr t, st, x) \<and> refusal t"
  using assms(1)
proof (cases rule: native_tool_cases)
  case proc_exec
  with assms(2) obtain argv where a: "rbind (json_iter (get_default args ''args'' (JArr []))) (traverse as_string) = Inr argv"
    "q = Exec (arg args ''binary'') argv"
    by (cases "rbind (json_iter (get_default args ''args'' (JArr []))) (traverse as_string)") (auto simp: demands_def)
  then have "\<exists>t. proc_exec fm os sb m args x = (Inr t, x) \<and> refusal t"
    using unpermitted_exec [OF a(1), of os x fm m sb] assms(3) by blast
  from refused_call [OF this proc_exec(2)] show ?thesis .
next
  case compliance_map
  with assms(2,3) unpermitted_report [of os x fm m args fws] show ?thesis by (intro refused_call) (auto simp: demands_def)
next
  case fs_read
  with assms(2,3) unpermitted_read(1) [of os x fm m args sb] show ?thesis by (intro refused_call) (auto simp: demands_def)
next
  case fs_write
  with assms(2,3) unpermitted_write [of os x fm m args sb] show ?thesis by (intro refused_call) (auto simp: demands_def)
next
  case fs_list
  with assms(2,3) unpermitted_read(2) [of os x fm m args sb] show ?thesis by (intro refused_call) (auto simp: demands_def)
next
  case http_get
  with assms(2,3) unpermitted_host [of os x fm m args sb] show ?thesis by (intro refused_call) (auto simp: demands_def)
qed

theorem refused_call_does_nothing_witness:
  "\<exists>spec t. dict_get (k_tools native_kernel) ''fs_read'' = Some spec \<and>
     ts_fn spec [(''path'', JStr ''/etc/passwd'')] (empty_store, []) = (Inr t, empty_store, []) \<and> refusal t"
proof -
  obtain spec where s: "dict_get (k_tools native_kernel) ''fs_read'' = Some spec"
    unfolding native_kernel_def build_native_tools_def native_tool_def by simp
  then have "dict_get (build_native_tools (\<lambda>_ _. False) [] demo_os demo_sandbox demo_parent) ''fs_read'' = Some spec"
    by (simp add: native_kernel_def)
  moreover have "ReadPath ''/etc/passwd'' False \<in> set (demands demo_os ''fs_read'' [(''path'', JStr ''/etc/passwd'')])"
    by (simp add: demands_def arg_def demo_os_def)
  moreover have "\<not> permits (os_real demo_os []) (\<lambda>_ _. False) demo_parent (ReadPath ''/etc/passwd'' False)"
    by (simp add: demo_os_def demo_parent_def empty_manifest_def) code_simp
  ultimately have "\<exists>t. ts_fn spec [(''path'', JStr ''/etc/passwd'')] (empty_store, []) = (Inr t, empty_store, []) \<and> refusal t"
    by (rule refused_call_does_nothing)
  with s show ?thesis by blast
qed

text \<open>A worker's environment is built from scratch: a variable that is not computed by the sandbox comes from the
  fixed list of the platform, so no other variable of the service reaches a worker.\<close>

theorem worker_env_allowlisted:
  assumes "dict_get (restricted_env windows dir environ None tmp) k = Some v" and "k \<notin> set computed_vars"
  shows "k \<in> set (if windows then WINDOWS_ENV_ALLOWLIST else POSIX_ENV_ALLOWLIST) \<and> dict_get environ k = Some v"
  using assms by (rule restricted_env_keys)

theorem worker_env_allowlisted_witness:
  "dict_get (restricted_env False ''/opt'' [(''TZ'', ''UTC''), (''API_KEY'', ''s'')] None None) ''TZ'' = Some ''UTC'' \<and> ''TZ'' \<in> set POSIX_ENV_ALLOWLIST"
proof -
  have "dict_get (restricted_env False ''/opt'' [(''TZ'', ''UTC''), (''API_KEY'', ''s'')] None None) ''TZ'' = Some ''UTC''"
    by (simp add: restricted_env_def allowed_env POSIX_ENV_ALLOWLIST_def)
  moreover have "''TZ'' \<notin> set computed_vars" by (simp add: computed_vars_def)
  ultimately show ?thesis using worker_env_allowlisted [of False "''/opt''" "[(''TZ'', ''UTC''), (''API_KEY'', ''s'')]" None "''TZ''" "''UTC''"] by presburger
qed

text \<open>A tool that fetches needs a file system root as well: with a host in the allowlist and no root to anchor the worker
  in, the call ends in an exception, where every other denial is returned to the model as text.\<close>

theorem fetch_without_root_raises:
  assumes "arg args ''url'' = url" and "missing args [''url''] = None" and "os_host os url = Some h" and "h \<in> net_hosts m"
    and "fs_read_roots m = []" and "fs_write_roots m = []"
  shows "http_get os sb m args x = (Inl (denied ''no filesystem roots to anchor a worker jail''), x)"
  using assms by (simp add: http_get_def with_args_def guarded_def check_net_def in_worker_def run_with_def work_dir_def)

theorem fetch_without_root_raises_witness:
  "http_get (demo_os\<lparr>os_host := \<lambda>_. Some ''a.org''\<rparr>) demo_sandbox (empty_manifest\<lparr>net_hosts := {''a.org''}\<rparr>) [(''url'', JStr ''https://a.org/'')] [] =
     (Inl (denied ''no filesystem roots to anchor a worker jail''), [])"
proof (rule fetch_without_root_raises)
  show "missing [(''url'', JStr ''https://a.org/'')] [''url''] = None" by (simp add: missing_def is_str_def get_or_null_def)
qed (simp_all add: empty_manifest_def)

text \<open>Two ways out of the grant that the checks leave open. A write to a granted root itself puts its temporary file
  into the directory above the root, and a host of the allowlist can send the worker to any other.\<close>

theorem root_write_leaves_root:
  "w_fs_write demo_os [(''path'', JStr ''/srv/ws''), (''write_roots'', str_list [''/srv/ws'']), (''content'', JStr ''x'')] [] =
     (Inr [(''ok'', JBool True), (''bytes'', JInt 1)],
      [''makedirs /srv'', ''mkstemp /srv'', ''fill /srv/.scr-tmp-1'', ''replace /srv/ws'', ''sync /srv''])"
  by code_simp

theorem redirect_leaves_allowlist:
  assumes "os_get os url t n x = (Inr (Redirect u), x1)" and "os_get os u t n x1 = (Inr (Answer status body), x2)"
  shows "urlopen os t n [] url x = (Inr (status, body), x2)"
  using assms by (simp add: urlopen.simps [of _ _ _ _ url] urlopen.simps [of _ _ _ _ u])

theorem redirect_leaves_allowlist_witness:
  "urlopen demo_os JNull JNull [] ''https://a.org/'' [] = (Inr (200, ''x''), [''get https://a.org/'', ''get http://10.0.0.1/''])"
  by (rule redirect_leaves_allowlist [where u = "''http://10.0.0.1/''" and ?x1.0 = "[''get https://a.org/'']"]) (simp_all add: demo_os_def)

end
