(* ===== verification/McpHost.thy ===== *)
theory McpHost
  imports Tools
begin

text \<open>
  The host of tool servers (\<open>scr/mcp_host.py\<close>). A server's process and pipes, its HTTP endpoint and the clock are
  primitives over a world \<open>'x\<close>; while a client waits for an answer, the world says which lines the reader thread puts
  into the queue until the client has its answer or the deadline passes, \<open>None\<close> being the end of the stream. The backoff
  is counted in units of ten milliseconds. A tool's description or schema of another type than declared raises here at once.
\<close>

subsection \<open>Configuration and wire\<close>

record mcp_config =
  mc_name :: string
  mc_transport :: string
  mc_command :: "string list"
  mc_url :: string
  mc_env :: env
  mc_idempotent :: "string list"
  mc_max_restarts :: nat

record 'x wire =
  wr_environ :: "bool \<times> string \<times> env"
  wr_spawn :: "string \<Rightarrow> string list \<Rightarrow> env \<Rightarrow> 'x \<Rightarrow> (py_exn + unit) \<times> 'x"
  wr_write :: "string \<Rightarrow> string \<Rightarrow> 'x \<Rightarrow> (py_exn + unit) \<times> 'x"
  wr_lines :: "string \<Rightarrow> 'x \<Rightarrow> string option list \<times> 'x"
  wr_kill :: "string \<Rightarrow> 'x \<Rightarrow> 'x"
  wr_sleep :: "nat \<Rightarrow> 'x \<Rightarrow> 'x"
  wr_post :: "string \<Rightarrow> string \<Rightarrow> 'x \<Rightarrow> (py_exn + string) \<times> 'x"

record stdio_client =
  sc_running :: bool
  sc_queue :: "string option list"
  sc_next_id :: nat
  sc_restarts :: nat

definition new_stdio :: stdio_client where
  "new_stdio = \<lparr>sc_running = False, sc_queue = [], sc_next_id = 0, sc_restarts = 0\<rparr>"

definition mcp_error :: "string \<Rightarrow> py_exn" where
  "mcp_error msg = mk_exn ''MCPError'' msg"

definition transport_error :: "string \<Rightarrow> py_exn" where
  "transport_error msg = \<lparr>exn_class = ''_TransportError'', exn_bases = [''MCPError'', ''Exception''], exn_msg = msg, exn_winerror = None\<rparr>"

definition and_then :: "('e + 'a) \<times> 's \<Rightarrow> ('a \<Rightarrow> 's \<Rightarrow> ('e + 'b) \<times> 's) \<Rightarrow> ('e + 'b) \<times> 's" where
  "and_then p f = (case p of (Inl e, s) \<Rightarrow> (Inl e, s) | (Inr a, s) \<Rightarrow> f a s)"

subsection \<open>The client over pipes\<close>

text \<open>\<open>key in msg\<close> for a decoded value.\<close>

definition contains_key :: "json \<Rightarrow> string \<Rightarrow> py_exn + bool" where
  "contains_key msg k =
     (case msg of JObj d \<Rightarrow> Inr (dict_get d k \<noteq> None) | JArr xs \<Rightarrow> Inr (JStr k \<in> set xs)
      | JStr s \<Rightarrow> Inr (sublist k s) | _ \<Rightarrow> Inl type_error)"

definition send :: "'x wire \<Rightarrow> mcp_config \<Rightarrow> dict \<Rightarrow> stdio_client \<times> 'x \<Rightarrow> (py_exn + unit) \<times> stdio_client \<times> 'x" where
  "send wr cfg obj s =
     (let (c, x) = s in
      if \<not> sc_running c then (Inl (mcp_error ''server not running''), c, x)
      else case wr_write wr (mc_name cfg) (dumps (JObj obj) @ [CHR 10]) x of (r, x') \<Rightarrow> (r, c, x'))"

fun scan_queue :: "string option list \<Rightarrow> (py_exn + json) \<times> string option list" where
  "scan_queue [] = (Inl (transport_error ''timeout awaiting server response''), [])"
| "scan_queue (None # q) = (Inl (transport_error ''server closed stream''), q)"
| "scan_queue (Some line # q) =
     (if line = [] then scan_queue q
      else case loads line of
             None \<Rightarrow> scan_queue q
           | Some msg \<Rightarrow>
               (case rbind (contains_key msg ''id'') (\<lambda>b. if b then Inr True else contains_key msg ''error'') of
                  Inl e \<Rightarrow> (Inl e, q)
                | Inr b \<Rightarrow> if b then (Inr msg, q) else scan_queue q))"

definition recv :: "'x wire \<Rightarrow> mcp_config \<Rightarrow> stdio_client \<times> 'x \<Rightarrow> (py_exn + json) \<times> stdio_client \<times> 'x" where
  "recv wr cfg s =
     (let (c, x) = s; (items, x1) = wr_lines wr (mc_name cfg) x; (r, q) = scan_queue (sc_queue c @ items) in
      (r, c\<lparr>sc_queue := q\<rparr>, x1))"

definition rpc_result :: "string \<Rightarrow> json \<Rightarrow> py_exn + json" where
  "rpc_result method msg =
     rbind (contains_key msg ''error'') (\<lambda>b.
       if b then (case msg of JObj d \<Rightarrow> Inl (mcp_error (method @ '': '' @ py_str (get_or_null d ''error''))) | _ \<Rightarrow> Inl type_error)
       else rbind (as_dict msg) (\<lambda>d. Inr (get_or_null d ''result'')))"

definition rpc_request :: "nat \<Rightarrow> string \<Rightarrow> dict \<Rightarrow> dict" where
  "rpc_request rid method params =
     [(''jsonrpc'', JStr ''2.0''), (''id'', JInt (int rid)), (''method'', JStr method), (''params'', JObj params)]"

definition rpc :: "'x wire \<Rightarrow> mcp_config \<Rightarrow> string \<Rightarrow> dict \<Rightarrow> stdio_client \<times> 'x \<Rightarrow> (py_exn + json) \<times> stdio_client \<times> 'x" where
  "rpc wr cfg method params s =
     (let (c, x) = s; rid = Suc (sc_next_id c) in
      and_then (send wr cfg (rpc_request rid method params) (c\<lparr>sc_next_id := rid\<rparr>, x)) (\<lambda>_ s1.
      and_then (recv wr cfg s1) (\<lambda>msg s2. (rpc_result method msg, s2))))"

definition handshake :: "'x wire \<Rightarrow> mcp_config \<Rightarrow> stdio_client \<times> 'x \<Rightarrow> (py_exn + unit) \<times> stdio_client \<times> 'x" where
  "handshake wr cfg s =
     and_then (rpc wr cfg ''initialize'' [(''protocolVersion'', JStr ''2024-11-05''), (''capabilities'', JObj []),
        (''clientInfo'', JObj [(''name'', JStr ''scr''), (''version'', JStr ''0.2.0'')])] s) (\<lambda>_ s1.
       send wr cfg [(''jsonrpc'', JStr ''2.0''), (''method'', JStr ''notifications/initialized''), (''params'', JObj [])] s1)"

definition server_env :: "'x wire \<Rightarrow> mcp_config \<Rightarrow> env" where
  "server_env wr cfg = (case wr_environ wr of (windows, dir, environ) \<Rightarrow> restricted_env windows dir environ (Some (mc_env cfg)) None)"

definition start :: "'x wire \<Rightarrow> mcp_config \<Rightarrow> stdio_client \<times> 'x \<Rightarrow> (py_exn + unit) \<times> stdio_client \<times> 'x" where
  "start wr cfg s =
     (let (c, x) = s in
      case wr_spawn wr (mc_name cfg) (mc_command cfg) (server_env wr cfg) x of
        (Inl e, x1) \<Rightarrow> (Inl e, c, x1)
      | (Inr _, x1) \<Rightarrow> handshake wr cfg (c\<lparr>sc_running := True, sc_queue := []\<rparr>, x1))"

definition stop :: "'x wire \<Rightarrow> mcp_config \<Rightarrow> stdio_client \<times> 'x \<Rightarrow> stdio_client \<times> 'x" where
  "stop wr cfg s = (let (c, x) = s in if sc_running c then (c\<lparr>sc_running := False\<rparr>, wr_kill wr (mc_name cfg) x) else s)"

definition backoff :: "nat \<Rightarrow> nat" where
  "backoff restarts = min (2 ^ restarts) 30"

definition restart :: "'x wire \<Rightarrow> mcp_config \<Rightarrow> stdio_client \<times> 'x \<Rightarrow> (py_exn + unit) \<times> stdio_client \<times> 'x" where
  "restart wr cfg s =
     (let (c, x) = s in
      if sc_restarts c \<ge> mc_max_restarts cfg then (Inl (mcp_error (''server '' @ mc_name cfg @ '' exceeded max restarts'')), s)
      else start wr cfg (stop wr cfg (c\<lparr>sc_restarts := Suc (sc_restarts c)\<rparr>, wr_sleep wr (backoff (sc_restarts c)) x)))"

definition tool_list :: "json \<Rightarrow> json" where
  "tool_list r = (case r of JObj d \<Rightarrow> get_default d ''tools'' (JArr []) | _ \<Rightarrow> JArr [])"

definition list_tools :: "'x wire \<Rightarrow> mcp_config \<Rightarrow> stdio_client \<times> 'x \<Rightarrow> (py_exn + json) \<times> stdio_client \<times> 'x" where
  "list_tools wr cfg s = and_then (rpc wr cfg ''tools/list'' [] s) (\<lambda>r s1. (Inr (tool_list r), s1))"

definition text_part :: "json \<Rightarrow> py_exn + json list" where
  "text_part c = rbind (as_dict c) (\<lambda>d. if get_or_null d ''type'' = JStr ''text'' then Inr [get_default d ''text'' (JStr [])] else Inr [])"

definition call_text :: "json \<Rightarrow> py_exn + string" where
  "call_text result =
     (case result of
        JObj d \<Rightarrow>
          rbind (json_iter (get_default d ''content'' (JArr []))) (\<lambda>cs.
          rbind (traverse text_part cs) (\<lambda>ps.
            if concat ps \<noteq> [] then rbind (traverse as_string (concat ps)) (\<lambda>ts. Inr (concat ts)) else Inr (dumps result)))
      | _ \<Rightarrow> Inr (dumps result))"

definition call_params :: "json \<Rightarrow> dict \<Rightarrow> dict" where
  "call_params name arguments = [(''name'', name), (''arguments'', JObj arguments)]"

definition call_tool ::
  "'x wire \<Rightarrow> mcp_config \<Rightarrow> json \<Rightarrow> dict \<Rightarrow> stdio_client \<times> 'x \<Rightarrow> (py_exn + string) \<times> stdio_client \<times> 'x" where
  "call_tool wr cfg name arguments s =
     and_then
       (case rpc wr cfg ''tools/call'' (call_params name arguments) s of
          (Inr r, s1) \<Rightarrow> (Inr r, s1)
        | (Inl e, s1) \<Rightarrow>
            if isinstance e ''_TransportError''
            then and_then (restart wr cfg s1) (\<lambda>_ s2. rpc wr cfg ''tools/call'' (call_params name arguments) s2)
            else (Inl e, s1))
       (\<lambda>result s1. (call_text result, s1))"

subsection \<open>The client over HTTP\<close>

definition http_rpc :: "'x wire \<Rightarrow> mcp_config \<Rightarrow> string \<Rightarrow> dict \<Rightarrow> nat \<times> 'x \<Rightarrow> (py_exn + json) \<times> nat \<times> 'x" where
  "http_rpc wr cfg method params s =
     (let (n, x) = s in
      case wr_post wr (mc_url cfg) (dumps (JObj (rpc_request (Suc n) method params))) x of
        (Inl e, x1) \<Rightarrow> (Inl e, Suc n, x1)
      | (Inr body, x1) \<Rightarrow>
          (case loads body of
             None \<Rightarrow> (Inl (mk_exn ''JSONDecodeError'' ''invalid JSON''), Suc n, x1)
           | Some msg \<Rightarrow> (rpc_result method msg, Suc n, x1)))"

definition http_list_tools :: "'x wire \<Rightarrow> mcp_config \<Rightarrow> nat \<times> 'x \<Rightarrow> (py_exn + json) \<times> nat \<times> 'x" where
  "http_list_tools wr cfg s = and_then (http_rpc wr cfg ''tools/list'' [] s) (\<lambda>r s1. (Inr (tool_list r), s1))"

definition http_call_tool :: "'x wire \<Rightarrow> mcp_config \<Rightarrow> json \<Rightarrow> dict \<Rightarrow> nat \<times> 'x \<Rightarrow> (py_exn + string) \<times> nat \<times> 'x" where
  "http_call_tool wr cfg name arguments s =
     and_then (http_rpc wr cfg ''tools/call'' (call_params name arguments) s) (\<lambda>r s1. (call_text r, s1))"

subsection \<open>The host\<close>

datatype client = Stdio stdio_client | Http nat

text \<open>Clients are objects: the host's table gives the one a name stands for now, and a projected tool keeps the one it was made
  with. An object is its position in the list of all clients that were added.\<close>

record 'x mcp_world =
  mw_objects :: "(mcp_config \<times> client) list"
  mw_clients :: "(string \<times> nat) list"
  mw_env :: 'x

definition client_start :: "'x wire \<Rightarrow> mcp_config \<Rightarrow> 'x \<Rightarrow> (py_exn + client) \<times> 'x" where
  "client_start wr cfg x =
     (if mc_transport cfg = ''stdio''
      then (case start wr cfg (new_stdio, x) of (r, c, x1) \<Rightarrow> (rbind r (\<lambda>_. Inr (Stdio c)), x1))
      else (case http_list_tools wr cfg (0, x) of (r, n, x1) \<Rightarrow> (rbind r (\<lambda>_. Inr (Http n)), x1)))"

definition add_server :: "'x wire \<Rightarrow> mcp_config \<Rightarrow> 'x mcp_world \<Rightarrow> (py_exn + unit) \<times> 'x mcp_world" where
  "add_server wr cfg w =
     (case client_start wr cfg (mw_env w) of
        (Inl e, x) \<Rightarrow> (Inl e, w\<lparr>mw_env := x\<rparr>)
      | (Inr c, x) \<Rightarrow> (Inr (), w\<lparr>mw_objects := mw_objects w @ [(cfg, c)],
          mw_clients := dict_set (mc_name cfg) (length (mw_objects w)) (mw_clients w), mw_env := x\<rparr>))"

definition client_stop :: "'x wire \<Rightarrow> mcp_config \<times> client \<Rightarrow> 'x \<Rightarrow> client \<times> 'x" where
  "client_stop wr p x = (case p of (cfg, Stdio c) \<Rightarrow> (case stop wr cfg (c, x) of (c', x') \<Rightarrow> (Stdio c', x')) | (cfg, Http n) \<Rightarrow> (Http n, x))"

text \<open>A method of the client at a position; every position in use is one of the list.\<close>

definition on_client ::
  "nat \<Rightarrow> (mcp_config \<times> client \<Rightarrow> 'x \<Rightarrow> (py_exn + 'a) \<times> client \<times> 'x) \<Rightarrow> 'x mcp_world \<Rightarrow> (py_exn + 'a) \<times> 'x mcp_world" where
  "on_client i f w =
     (if i < length (mw_objects w)
      then (case f (mw_objects w ! i) (mw_env w) of
              (r, c', x') \<Rightarrow> (r, w\<lparr>mw_objects := (mw_objects w)[i := (fst (mw_objects w ! i), c')], mw_env := x'\<rparr>))
      else (Inl type_error, w))"

definition stop_all :: "'x wire \<Rightarrow> 'x mcp_world \<Rightarrow> 'x mcp_world" where
  "stop_all wr w =
     fold (\<lambda>(n, i) w. snd (on_client i (\<lambda>p x. case client_stop wr p x of (c', x') \<Rightarrow> (Inr (), c', x')) w)) (mw_clients w) w"

definition client_list :: "'x wire \<Rightarrow> mcp_config \<times> client \<Rightarrow> 'x \<Rightarrow> (py_exn + json) \<times> client \<times> 'x" where
  "client_list wr p x =
     (case p of
        (cfg, Stdio c) \<Rightarrow> (case list_tools wr cfg (c, x) of (r, c', x') \<Rightarrow> (r, Stdio c', x'))
      | (cfg, Http n) \<Rightarrow> (case http_list_tools wr cfg (n, x) of (r, n', x') \<Rightarrow> (r, Http n', x')))"

definition client_call :: "'x wire \<Rightarrow> mcp_config \<times> client \<Rightarrow> json \<Rightarrow> dict \<Rightarrow> 'x \<Rightarrow> (py_exn + string) \<times> client \<times> 'x" where
  "client_call wr p name arguments x =
     (case p of
        (cfg, Stdio c) \<Rightarrow> (case call_tool wr cfg name arguments (c, x) of (r, c', x') \<Rightarrow> (r, Stdio c', x'))
      | (cfg, Http n) \<Rightarrow> (case http_call_tool wr cfg name arguments (n, x) of (r, n', x') \<Rightarrow> (r, Http n', x')))"

text \<open>The function of a projected tool.\<close>

definition projected_fn :: "'x wire \<Rightarrow> nat \<Rightarrow> string \<Rightarrow> json \<Rightarrow> dict \<Rightarrow> 'x mcp_world \<Rightarrow> (py_exn + string) \<times> 'x mcp_world" where
  "projected_fn wr i projected remote args w =
     (case on_client i (\<lambda>p. client_call wr p remote args) w of
        (Inl e, w') \<Rightarrow> (if isinstance e ''MCPError'' then Inr (''MCP ERROR ['' @ projected @ '']: '' @ exn_msg e) else Inl e, w')
      | (Inr t, w') \<Rightarrow> (Inr t, w'))"

definition make_spec :: "'x wire \<Rightarrow> nat \<Rightarrow> string \<Rightarrow> json \<Rightarrow> string \<Rightarrow> dict \<Rightarrow> bool \<Rightarrow> 'x mcp_world tool_spec" where
  "make_spec wr i projected remote desc schema idem =
     \<lparr>ts_name = projected, ts_fn = (\<lambda>args (st, w). case projected_fn wr i projected remote args w of (r, w') \<Rightarrow> (r, st, w')),
      ts_idempotent = idem, ts_description = desc, ts_parameters = schema, ts_parallel_safe = False, ts_classification = ''public''\<rparr>"

definition member_of :: "json \<Rightarrow> string list \<Rightarrow> py_exn + bool" where
  "member_of j names = (case j of JStr s \<Rightarrow> Inr (s \<in> set names) | JArr _ \<Rightarrow> Inl type_error | JObj _ \<Rightarrow> Inl type_error | _ \<Rightarrow> Inr False)"

definition projected_name :: "string \<Rightarrow> json \<Rightarrow> string" where
  "projected_name server remote = ''mcp__'' @ server @ ''__'' @ py_str remote"

definition project_tool :: "'x wire \<Rightarrow> string \<Rightarrow> nat \<Rightarrow> mcp_config \<Rightarrow> json \<Rightarrow> py_exn + string \<times> 'x mcp_world tool_spec" where
  "project_tool wr server i cfg tool =
     rbind (as_dict tool) (\<lambda>d.
     let tname = get_default d ''name'' (JStr []); projected = projected_name server tname;
         schema = get_or_null d ''inputSchema'' in
     rbind (member_of tname (mc_idempotent cfg)) (\<lambda>idem.
     rbind (as_string (get_default d ''description'' (JStr []))) (\<lambda>desc.
     rbind (if truthy schema then as_dict schema else Inr [(''type'', JStr ''object''), (''properties'', JObj [])]) (\<lambda>sc.
     Inr (projected, make_spec wr i projected tname desc sc idem)))))"

fun tool_specs_of ::
  "'x wire \<Rightarrow> (string \<times> nat) list \<Rightarrow> (string \<times> 'x mcp_world tool_spec) list \<Rightarrow> 'x mcp_world \<Rightarrow>
   (py_exn + (string \<times> 'x mcp_world tool_spec) list) \<times> 'x mcp_world" where
  "tool_specs_of wr [] specs w = (Inr specs, w)"
| "tool_specs_of wr ((server, i) # cs) specs w =
     (case on_client i (client_list wr) w of
        (r, w') \<Rightarrow>
          (case rbind (rbind r json_iter) (traverse (project_tool wr server i (fst (mw_objects w ! i)))) of
             Inl e \<Rightarrow> (Inl e, w')
           | Inr new \<Rightarrow> tool_specs_of wr cs (fold (\<lambda>(n, s). dict_set n s) new specs) w'))"

definition tool_specs :: "'x wire \<Rightarrow> 'x mcp_world \<Rightarrow> (py_exn + (string \<times> 'x mcp_world tool_spec) list) \<times> 'x mcp_world" where
  "tool_specs wr w = tool_specs_of wr (mw_clients w) [] w"

subsection \<open>Restarts\<close>

text \<open>A count of the processes started so far, which no other primitive changes.\<close>

definition counts_spawns :: "'x wire \<Rightarrow> ('x \<Rightarrow> nat) \<Rightarrow> bool" where
  "counts_spawns wr sp \<longleftrightarrow>
     (\<forall>n cmd e x. sp (snd (wr_spawn wr n cmd e x)) = Suc (sp x)) \<and> (\<forall>n l x. sp (snd (wr_write wr n l x)) = sp x) \<and>
     (\<forall>n x. sp (snd (wr_lines wr n x)) = sp x) \<and> (\<forall>n x. sp (wr_kill wr n x) = sp x) \<and> (\<forall>t x. sp (wr_sleep wr t x) = sp x)"

text \<open>What an operation of a client does to its restart counter and to the count of processes.\<close>

definition same_count :: "('x \<Rightarrow> nat) \<Rightarrow> stdio_client \<times> 'x \<Rightarrow> stdio_client \<times> 'x \<Rightarrow> bool" where
  "same_count sp s s' \<longleftrightarrow> sc_restarts (fst s') = sc_restarts (fst s) \<and> sp (snd s') = sp (snd s)"

lemma same_count_trans: "same_count sp a b \<Longrightarrow> same_count sp b c \<Longrightarrow> same_count sp a c"
  by (simp add: same_count_def)

lemma and_then_state: "snd (and_then p f) = (case fst p of Inl e \<Rightarrow> snd p | Inr a \<Rightarrow> snd (f a (snd p)))"
  by (cases p) (auto simp: and_then_def split: sum.splits)

lemma and_then_same:
  "same_count sp s (snd p) \<Longrightarrow> (\<And>a s1. same_count sp s1 (snd (f a s1))) \<Longrightarrow> same_count sp s (snd (and_then p f))"
  unfolding and_then_state by (cases "fst p") (simp_all, rule same_count_trans)

lemma send_same: "counts_spawns wr sp \<Longrightarrow> same_count sp s (snd (send wr cfg obj s))"
proof -
  assume c: "counts_spawns wr sp"
  obtain cl x where s: "s = (cl, x)" by (cases s)
  let ?p = "wr_write wr (mc_name cfg) (dumps (JObj obj) @ [CHR 10]) x"
  have "sp (snd ?p) = sp x" using c by (simp add: counts_spawns_def)
  then show ?thesis by (cases ?p) (simp add: s send_def same_count_def)
qed

lemma recv_same: "counts_spawns wr sp \<Longrightarrow> same_count sp s (snd (recv wr cfg s))"
proof -
  assume c: "counts_spawns wr sp"
  obtain cl x where s: "s = (cl, x)" by (cases s)
  have "sp (snd (wr_lines wr (mc_name cfg) x)) = sp x" using c by (simp add: counts_spawns_def)
  then show ?thesis by (cases "wr_lines wr (mc_name cfg) x") (simp add: s recv_def same_count_def Let_def split: prod.splits)
qed

lemma rpc_same: "counts_spawns wr sp \<Longrightarrow> same_count sp s (snd (rpc wr cfg m ps s))"
proof -
  assume c: "counts_spawns wr sp"
  obtain cl x where s: "s = (cl, x)" by (cases s)
  let ?cl = "cl\<lparr>sc_next_id := Suc (sc_next_id cl)\<rparr>"
  have "same_count sp (?cl, x) (snd (send wr cfg obj (?cl, x)))" for obj by (rule send_same [OF c])
  then have 1: "same_count sp s (snd (send wr cfg obj (?cl, x)))" for obj by (simp add: s same_count_def)
  have 2: "same_count sp s1 (snd (and_then (recv wr cfg s1) (\<lambda>msg s2. (rpc_result m msg, s2))))" for s1
    by (rule and_then_same [OF recv_same [OF c]]) (simp add: same_count_def)
  show ?thesis unfolding rpc_def s Let_def prod.case using and_then_same [OF 1 2] by (simp add: s)
qed

lemma handshake_same: "counts_spawns wr sp \<Longrightarrow> same_count sp s (snd (handshake wr cfg s))"
  unfolding handshake_def by (intro and_then_same rpc_same send_same)

definition restart_count :: "('x \<Rightarrow> nat) \<Rightarrow> mcp_config \<Rightarrow> stdio_client \<times> 'x \<Rightarrow> stdio_client \<times> 'x \<Rightarrow> bool" where
  "restart_count sp cfg s s' \<longleftrightarrow> sp (snd s') + sc_restarts (fst s) = sp (snd s) + sc_restarts (fst s') \<and>
     sc_restarts (fst s') \<le> max (sc_restarts (fst s)) (mc_max_restarts cfg)"

lemma restart_count_trans: "restart_count sp cfg a b \<Longrightarrow> restart_count sp cfg b c \<Longrightarrow> restart_count sp cfg a c"
  by (auto simp: restart_count_def)

lemma restart_count_same: "same_count sp a b \<Longrightarrow> restart_count sp cfg a b"
  by (simp add: restart_count_def same_count_def)

lemma start_count:
  assumes c: "counts_spawns wr sp"
  shows "sc_restarts (fst (snd (start wr cfg (cl, x)))) = sc_restarts cl \<and> sp (snd (snd (start wr cfg (cl, x)))) = Suc (sp x)"
proof -
  let ?p = "wr_spawn wr (mc_name cfg) (mc_command cfg) (server_env wr cfg) x"
  obtain r x1 where p: "?p = (r, x1)" by (cases ?p)
  have "sp (snd ?p) = Suc (sp x)" using c unfolding counts_spawns_def by blast
  then have "sp x1 = Suc (sp x)" by (simp add: p)
  with handshake_same [OF c, of "(cl\<lparr>sc_running := True, sc_queue := []\<rparr>, x1)" cfg] show ?thesis
    by (auto simp: start_def p same_count_def split: sum.splits)
qed

lemma restart_count_ok:
  assumes c: "counts_spawns wr sp"
  shows "restart_count sp cfg s (snd (restart wr cfg s))"
proof -
  obtain cl x where s: "s = (cl, x)" by (cases s)
  let ?t = "stop wr cfg (cl\<lparr>sc_restarts := Suc (sc_restarts cl)\<rparr>, wr_sleep wr (backoff (sc_restarts cl)) x)"
  obtain cl2 x2 where t: "?t = (cl2, x2)" by (cases ?t)
  have "sc_restarts cl2 = Suc (sc_restarts cl) \<and> sp x2 = sp x"
    using t c by (auto simp: stop_def counts_spawns_def split: if_splits)
  with start_count [OF c, of cfg cl2 x2] t show ?thesis
    by (auto simp: restart_def s restart_count_def)
qed

lemma call_tool_count_ok:
  assumes c: "counts_spawns wr sp"
  shows "restart_count sp cfg s (snd (call_tool wr cfg name args s))"
proof -
  obtain r s1 where p: "rpc wr cfg ''tools/call'' (call_params name args) s = (r, s1)"
    by (cases "rpc wr cfg ''tools/call'' (call_params name args) s")
  have 1: "restart_count sp cfg s s1" using rpc_same [OF c, of s cfg "''tools/call''" "call_params name args"] p by (simp add: restart_count_same)
  obtain r2 s2 where q: "restart wr cfg s1 = (r2, s2)" by (cases "restart wr cfg s1")
  have 2: "restart_count sp cfg s s2" using restart_count_trans [OF 1 restart_count_ok [OF c, of cfg s1]] q by simp
  have 3: "restart_count sp cfg s (snd (rpc wr cfg ''tools/call'' (call_params name args) s2))"
    by (rule restart_count_trans [OF 2 restart_count_same [OF rpc_same [OF c]]])
  show ?thesis using 1 2 3 p q by (auto simp: call_tool_def and_then_state split: sum.splits)
qed

datatype client_op = ListTools | CallTool json dict

fun client_step :: "'x wire \<Rightarrow> mcp_config \<Rightarrow> client_op \<Rightarrow> stdio_client \<times> 'x \<Rightarrow> stdio_client \<times> 'x" where
  "client_step wr cfg ListTools s = snd (list_tools wr cfg s)"
| "client_step wr cfg (CallTool name args) s = snd (call_tool wr cfg name args s)"

lemma client_step_count_ok: "counts_spawns wr sp \<Longrightarrow> restart_count sp cfg s (client_step wr cfg op s)"
proof (cases op)
  case ListTools
  moreover assume "counts_spawns wr sp"
  ultimately show ?thesis
    unfolding list_tools_def client_step.simps by (auto simp: list_tools_def same_count_def intro!: restart_count_same and_then_same rpc_same)
qed (simp add: call_tool_count_ok)

lemma client_steps_count_ok: "counts_spawns wr sp \<Longrightarrow> restart_count sp cfg s (fold (client_step wr cfg) ops s)"
proof (induction ops arbitrary: s)
  case (Cons op ops)
  show ?case using restart_count_trans [OF client_step_count_ok [OF Cons.prems] Cons.IH [OF Cons.prems]] by simp
qed (simp add: restart_count_def)

subsection \<open>Projection\<close>

definition projection :: "'x wire \<Rightarrow> (string \<times> nat) list \<Rightarrow> string \<times> 'x mcp_world tool_spec \<Rightarrow> bool" where
  "projection wr cs p \<longleftrightarrow>
     (\<exists>server i remote desc schema idem. (server, i) \<in> set cs \<and> fst p = projected_name server remote \<and>
        snd p = make_spec wr i (projected_name server remote) remote desc schema idem)"

lemma project_tool_projection:
  assumes "project_tool wr server i cfg tool = Inr p" "(server, i) \<in> set cs"
  shows "projection wr cs p"
proof -
  from assms(1) obtain d idem desc schema where
    p: "p = (projected_name server (get_default d ''name'' (JStr [])),
        make_spec wr i (projected_name server (get_default d ''name'' (JStr []))) (get_default d ''name'' (JStr [])) desc schema idem)"
    unfolding project_tool_def Let_def rbind_Inr_iff sum.inject by (elim exE conjE) (rule that, erule sym)
  with assms(2) show ?thesis unfolding projection_def p fst_conv snd_conv by blast
qed

lemma fold_dict_set_mem: "set (fold (\<lambda>(n, s). dict_set n s) new d) \<subseteq> set new \<union> set d"
proof (induction new arbitrary: d)
  case (Cons a new)
  obtain n s where a: "a = (n, s)" by (cases a)
  have "set (dict_set n s d) \<subseteq> insert (n, s) (set d)" by (induction n s d rule: dict_set.induct) auto
  with Cons.IH [of "dict_set n s d"] a show ?case by auto
qed simp

lemma tool_specs_of_projection:
  assumes "tool_specs_of wr cs specs w = (Inr out, w')" "set cs \<subseteq> set all" "\<forall>p\<in>set specs. projection wr all p"
  shows "\<forall>p\<in>set out. projection wr all p"
  using assms
proof (induction wr cs specs w arbitrary: out w' rule: tool_specs_of.induct)
  case (2 wr server i cs specs w)
  obtain r w1 where l: "on_client i (client_list wr) w = (r, w1)" by (cases "on_client i (client_list wr) w")
  let ?cfg = "fst (mw_objects w ! i)"
  from 2(2) l obtain new where n: "rbind (rbind r json_iter) (traverse (project_tool wr server i ?cfg)) = Inr new"
    by (auto split: sum.splits)
  then have "\<forall>p\<in>set new. \<exists>t. project_tool wr server i ?cfg t = Inr p"
    by (auto simp: rbind_Inr_iff dest!: traverse_items list_all2_right)
  then have "\<forall>p\<in>set new. projection wr all p" using 2(3) by (auto intro: project_tool_projection)
  then have "\<forall>p\<in>set (fold (\<lambda>(n, s). dict_set n s) new specs). projection wr all p"
    using fold_dict_set_mem [of new specs] 2(4) by blast
  from 2(1) [OF l [symmetric] n _ _ this] 2(2,3) l n show ?case by auto
qed simp

text \<open>What a run may do to the world of its servers.\<close>

inductive server_step :: "'x wire \<Rightarrow> (string \<times> nat) set \<Rightarrow> 'x mcp_world kernel \<Rightarrow> 'x mcp_world \<Rightarrow> 'x mcp_world \<Rightarrow> bool" for wr servers k where
  Ask: "k_complete k msgs tls w = (r, w') \<Longrightarrow> server_step wr servers k w w'"
| Clock: "k_monotonic k w = (now, w') \<Longrightarrow> server_step wr servers k w w'"
| Sleep: "server_step wr servers k w (k_sleep k d w)"
| Poll: "k_cancel_check k = Some f \<Longrightarrow> f w = (b, w') \<Longrightarrow> server_step wr servers k w w'"
| Call: "(server, i) \<in> servers \<Longrightarrow> projected_name server remote \<in> tools (k_manifest k) \<Longrightarrow>
    server_step wr servers k w (snd (projected_fn wr i (projected_name server remote) remote args w))"

lemma server_kstep:
  assumes t: "\<forall>p\<in>set (k_tools k). projection wr cs p" and s: "kstep k sid s s'"
  shows "(server_step wr (set cs) k)\<^sup>*\<^sup>* (snd s) (snd s')"
  using s
proof cases
  case (Tool call spec st w r)
  then have n: "dict_get (k_tools k) (tc_name call) = Some spec" "tc_name call \<in> tools (k_manifest k)"
    by (auto simp: cap_check_Inr cap_simps)
  from bspec [OF t dict_get_mem [OF n(1)]] obtain server i remote desc schema idem where
    p: "(server, i) \<in> set cs" "tc_name call = projected_name server remote"
      "spec = make_spec wr i (projected_name server remote) remote desc schema idem"
    by (auto simp: projection_def)
  then have "server_step wr (set cs) k w (snd (projected_fn wr i (projected_name server remote) remote (tc_arguments call) w))"
    using n(2) by (auto intro: server_step.Call)
  moreover have "snd s' = snd (projected_fn wr i (projected_name server remote) remote (tc_arguments call) w)"
    using Tool(3) p(3) by (auto simp: make_spec_def split: prod.splits)
  ultimately show ?thesis using Tool(1) by auto
qed (auto intro: server_step.intros)

lemma server_ksteps:
  assumes "\<forall>p\<in>set (k_tools k). projection wr cs p" and "ksteps k sid s s'"
  shows "(server_step wr (set cs) k)\<^sup>*\<^sup>* (snd s) (snd s')"
  using assms(2)
proof (induction rule: rtranclp_induct)
  case (step y z)
  from step.IH server_kstep [OF assms(1) step.hyps(2)] show ?case by (rule rtranclp_trans)
qed simp

subsection \<open>Properties\<close>

text \<open>C38: A server is restarted at most \<open>max_restarts\<close> times. However often it crashes or hangs, and whatever is called,
  the client of a server starts its process at most once more than the configured number of restarts.\<close>

theorem restarts_bounded:
  assumes "counts_spawns wr sp"
  shows "sp (snd (fold (client_step wr cfg) ops (snd (start wr cfg (new_stdio, x))))) \<le> sp x + 1 + mc_max_restarts cfg"
  using client_steps_count_ok [OF assms, of cfg "snd (start wr cfg (new_stdio, x))" ops] start_count [OF assms, of cfg new_stdio x]
  by (auto simp: restart_count_def new_stdio_def)

text \<open>A wire for the witnesses: its world counts the processes started and lists the lines sent; after the third line
  the server is silent, so that the client runs into its timeout.\<close>

definition demo_wire :: "(nat \<times> string list) wire" where
  "demo_wire = \<lparr>wr_environ = (False, ''/opt'', []), wr_spawn = (\<lambda>n cmd e (k, x). (Inr (), Suc k, x)), wr_write = (\<lambda>n l (k, x). (Inr (), k, x @ [l])),
     wr_lines = (\<lambda>n (k, x). (if length x \<noteq> 3 then [Some (dumps (JObj [(''id'', JInt 7), (''result'', JStr ''ok'')]))] else [], k, x)),
     wr_kill = (\<lambda>n x. x), wr_sleep = (\<lambda>t x. x), wr_post = (\<lambda>u b x. (Inl (mk_exn ''URLError'' u), x))\<rparr>"

definition demo_config :: mcp_config where
  "demo_config = \<lparr>mc_name = ''fx'', mc_transport = ''stdio'', mc_command = [''server''], mc_url = [], mc_env = [], mc_idempotent = [], mc_max_restarts = 5\<rparr>"

theorem restarts_bounded_witness:
  "fst (snd (fold (client_step demo_wire demo_config) [CallTool (JStr ''pay'') [], ListTools]
     (snd (start demo_wire demo_config (new_stdio, 0, []))))) \<le> 6"
proof -
  have "counts_spawns demo_wire fst" unfolding counts_spawns_def demo_wire_def by (auto split: prod.splits)
  from restarts_bounded [OF this, of demo_config "[CallTool (JStr ''pay'') [], ListTools]" "(0, [])"] show ?thesis by (simp add: demo_config_def)
qed

text \<open>Lines that a waiting client passes over: empty ones, text that is not JSON, and objects with neither id nor error.\<close>

definition noise :: "string \<Rightarrow> bool" where
  "noise l \<longleftrightarrow> l = [] \<or> (case loads l of None \<Rightarrow> True | Some (JObj d) \<Rightarrow> dict_get d ''id'' = None \<and> dict_get d ''error'' = None | _ \<Rightarrow> False)"

lemma scan_noise: "list_all noise ls \<Longrightarrow> scan_queue (map Some ls @ q) = scan_queue q"
  by (induction ls) (auto simp: noise_def contains_key_def split: option.splits json.splits)

lemma scan_answer:
  assumes "wf_json (JObj resp)" "dict_get resp ''id'' = Some i"
  shows "scan_queue (Some (dumps (JObj resp)) # q) = (Inr (JObj resp), q)"
proof -
  have "dumps (JObj resp) \<noteq> []" by (simp add: dumps_def dumps_sep.simps)
  then show ?thesis using assms by (simp add: loads_dumps contains_key_def)
qed

text \<open>A client gets the next answer, whosever it is. After a request is written, log lines and notifications are passed
  over, and the result of the first message with an id is returned and taken from the queue, with everything behind
  it left for later; the id is any value at all, so the answer to an earlier request that timed out, or a request that the
  server sends, is returned as the answer to this one.\<close>

theorem next_answer_wins:
  assumes "sc_running c" and "wr_write wr (mc_name cfg) (dumps (JObj (rpc_request (Suc (sc_next_id c)) meth params)) @ [CHR 10]) x = (Inr (), x1)"
    and "wr_lines wr (mc_name cfg) x1 = (items, x2)"
    and "sc_queue c @ items = map Some ls @ Some (dumps (JObj resp)) # rest" and "list_all noise ls"
    and "wf_json (JObj resp)" and "dict_get resp ''id'' = Some i" and "dict_get resp ''error'' = None"
  shows "rpc wr cfg meth params (c, x) =
    (Inr (get_or_null resp ''result''), c\<lparr>sc_next_id := Suc (sc_next_id c), sc_queue := rest\<rparr>, x2)"
  using assms
  by (simp add: rpc_def Let_def send_def and_then_def recv_def scan_noise scan_answer [OF assms(6,7)] rpc_result_def contains_key_def as_dict_def del: scan_queue.simps)

theorem next_answer_wins_witness:
  "rpc demo_wire demo_config ''tools/call'' [] (new_stdio\<lparr>sc_running := True, sc_queue := [Some ''starting up'']\<rparr>, 1, []) =
     (Inr (JStr ''ok''), new_stdio\<lparr>sc_running := True, sc_next_id := 1\<rparr>, 1, [dumps (JObj (rpc_request 1 ''tools/call'' [])) @ [CHR 10]])"
proof -
  let ?c = "new_stdio\<lparr>sc_running := True, sc_queue := [Some ''starting up'']\<rparr>"
  let ?r = "[(''id'', JInt 7), (''result'', JStr ''ok'')]"
  have n: "list_all noise [''starting up'']" by (simp add: noise_def) code_simp
  have q: "sc_queue ?c @ [Some (dumps (JObj ?r))] = map Some [''starting up''] @ Some (dumps (JObj ?r)) # []" by simp
  show ?thesis
    using next_answer_wins [where wr = demo_wire and cfg = demo_config and c = ?c and x = "(1, [])" and meth = "''tools/call''" and params = "[]"
        and items = "[Some (dumps (JObj ?r))]" and ls = "[''starting up'']" and resp = ?r and rest = "[]" and i = "JInt 7", OF _ _ _ q n]
    by (simp add: demo_wire_def demo_config_def new_stdio_def get_or_null_def)
qed

text \<open>A call that timed out is sent again, also when its tool may not be repeated. Here the server answers the handshake,
  takes the call of a tool that is not in the idempotent list and stays silent; the client restarts it and sends the same
  call a second time, and the kernel sees one successful call.\<close>

theorem timed_out_call_repeated:
  "case start demo_wire demo_config (new_stdio, 0, []) of
     (r, s) \<Rightarrow> r = Inr () \<and> mc_idempotent demo_config = [] \<and>
       (case call_tool demo_wire demo_config (JStr ''pay'') [] s of
          (t, c, k, sent) \<Rightarrow> t = Inr (dumps (JStr ''ok'')) \<and> k = 2 \<and>
            sent ! 2 = dumps (JObj (rpc_request 2 ''tools/call'' (call_params (JStr ''pay'') []))) @ [CHR 10] \<and>
            sent ! 5 = dumps (JObj (rpc_request 4 ''tools/call'' (call_params (JStr ''pay'') []))) @ [CHR 10])"
  by code_simp

text \<open>C18: A server is only called for tools that the manifest grants. Whatever tools the servers advertise, in a run with the
  tools of a host every step of the world asks the model, the clock or the cancel flag, or is the call of a tool, by a name
  that is in the tool set of the kernel's manifest, through the client that the host had for that server when the tools
  were listed.\<close>

theorem server_calls_granted:
  assumes "tool_specs wr w0 = (Inr (k_tools k), w1)" and "adapter_ok k" and "kernel_run k sid prompt (st, w) = (r, st', w')"
  shows "(server_step wr (set (mw_clients w0)) k)\<^sup>*\<^sup>* w w'"
proof -
  have "\<forall>p\<in>set (k_tools k). projection wr (mw_clients w0) p"
    using tool_specs_of_projection [of wr "mw_clients w0" "[]" w0 "k_tools k" w1 "mw_clients w0"] assms(1) by (simp add: tool_specs_def)
  from server_ksteps [OF this kernel_run_steps [OF assms(2,3)]] show ?thesis by simp
qed

definition demo_servers :: "(nat \<times> string list) mcp_world" where
  "demo_servers = \<lparr>mw_objects = [(demo_config, Stdio (new_stdio\<lparr>sc_running := True, sc_queue :=
     [Some (dumps (JObj [(''id'', JInt 1), (''result'', JObj [(''tools'', JArr [JObj [(''name'', JStr ''pay'')]])])]))]\<rparr>))], mw_clients = [(''fx'', 0)], mw_env = (1, [])\<rparr>"

definition server_kernel :: "(nat \<times> string list) mcp_world kernel" where
  "server_kernel = \<lparr>k_complete = (\<lambda>_ _ x. (Inr \<lparr>mr_text = ''done'', mr_tool_calls =
       (if snd (mw_env x) = [] then [\<lparr>tc_id = ''c1'', tc_name = ''mcp__fx__pay'', tc_arguments = []\<rparr>] else []), mr_input_tokens = 1, mr_output_tokens = 1\<rparr>, x)),
     k_tools = (case tool_specs demo_wire demo_servers of (Inr specs, _) \<Rightarrow> specs | _ \<Rightarrow> []), k_manifest = empty_manifest\<lparr>tools := {''mcp__fx__pay''}\<rparr>, k_guards = default_guards,
     k_system_prompt = ''agent'', k_policy = None, k_search = (\<lambda>_ _. False), k_cancel_check = None,
     k_finalize_guard = None, k_monotonic = (\<lambda>x. (0, x)), k_sleep = (\<lambda>_ x. x)\<rparr>"

theorem server_calls_granted_witness:
  "(server_step demo_wire {(''fx'', 0)} server_kernel)\<^sup>*\<^sup>* demo_servers (snd (snd (kernel_run server_kernel ''s'' ''hi'' (empty_store, demo_servers))))"
proof -
  have "adapter_ok server_kernel" by (auto simp: adapter_ok_def server_kernel_def call_ok_def)
  moreover have "\<not> isl (fst (tool_specs demo_wire demo_servers))" by code_simp
  then have "tool_specs demo_wire demo_servers = (Inr (k_tools server_kernel), snd (tool_specs demo_wire demo_servers))"
    by (cases "tool_specs demo_wire demo_servers") (auto simp: server_kernel_def split: sum.splits)
  moreover have "set (mw_clients demo_servers) = {(''fx'', 0)}" by (simp add: demo_servers_def)
  ultimately show ?thesis
    using server_calls_granted [of demo_wire demo_servers server_kernel "snd (tool_specs demo_wire demo_servers)" "''s''" "''hi''" empty_store demo_servers]
    by (metis prod.collapse)
qed

text \<open>Two servers may project different tools to the same name; the later one in the table is then called under it.\<close>

lemma projected_names_collide:
  "projected_name ''a'' (JStr ''b__c'') = projected_name ''a__b'' (JStr ''c'')"
  by (simp add: projected_name_def py_str_def)

end
