(* ===== verification/Adapters.thy ===== *)
theory Adapters
  imports Steps Compliance
begin

text \<open>
  The answers of the model vendors (\<open>scr/gateway.py\<close>), the cloud adapters (\<open>scr/adapters_cloud.py\<close>) and the choice of an adapter
  (\<open>scr/model_factory.py\<close>). The HTTP exchange is an argument that gives the answer's text or raises. What a vendor sends as the
  arguments of a call is kept as the value it is, since only one adapter checks that it is an object; names, ids, texts and
  token counts of another type than declared raise here at once, and so does an index into something that is no list. Numbers
  that are not whole are outside the JSON of this development. Dates are given in the two formats that a signed request uses.
\<close>

record raw_call =
  rw_id :: string
  rw_name :: string
  rw_arguments :: json

record raw_response =
  rr_text :: string
  rr_calls :: "raw_call list"
  rr_input_tokens :: int
  rr_output_tokens :: int

definition or_default :: "json \<Rightarrow> json \<Rightarrow> json" where
  "or_default j d = (if truthy j then j else d)"

definition str_of :: "json \<Rightarrow> py_exn + string" where
  "str_of j = (case j of JStr s \<Rightarrow> Inr s | _ \<Rightarrow> Inl type_error)"

definition int_of :: "json \<Rightarrow> py_exn + int" where
  "int_of j = (case j of JInt i \<Rightarrow> Inr i | _ \<Rightarrow> Inl type_error)"

definition first_item :: "json \<Rightarrow> py_exn + json" where
  "first_item j = (case j of JArr (x # _) \<Rightarrow> Inr x | JArr [] \<Rightarrow> Inl (mk_exn ''IndexError'' ''list index out of range'') | _ \<Rightarrow> Inl type_error)"

definition usage_tokens :: "dict \<Rightarrow> string \<Rightarrow> string \<Rightarrow> py_exn + int \<times> int" where
  "usage_tokens d i o' =
     rbind (int_of (get_default d i (JInt 0))) (\<lambda>m. rbind (int_of (get_default d o' (JInt 0))) (\<lambda>n. Inr (m, n)))"

subsection \<open>Chat completions\<close>

text \<open>\<open>json.loads\<close> of a value that is no string is the \<open>TypeError\<close> that the parser catches with the decoding error.\<close>

definition is_dict :: "json \<Rightarrow> bool" where
  "is_dict j \<longleftrightarrow> (case j of JObj _ \<Rightarrow> True | _ \<Rightarrow> False)"

definition openai_arguments :: "dict \<Rightarrow> json" where
  "openai_arguments fn =
     (case or_default (get_or_null fn ''arguments'') (JStr ''{}'') of
        JStr s \<Rightarrow> (case loads s of
                     None \<Rightarrow> JObj []
                   | Some arguments \<Rightarrow> if \<not> is_dict arguments then JObj [] else arguments)
      | _ \<Rightarrow> JObj [])"

definition openai_call :: "json \<Rightarrow> py_exn + raw_call" where
  "openai_call tc =
     rbind (as_dict tc) (\<lambda>t.
     rbind (as_dict (or_default (get_or_null t ''function'') (JObj []))) (\<lambda>fn.
     rbind (str_of (get_default t ''id'' (JStr []))) (\<lambda>i.
     rbind (str_of (get_default fn ''name'' (JStr []))) (\<lambda>n.
     Inr \<lparr>rw_id = i, rw_name = n, rw_arguments = openai_arguments fn\<rparr>))))"

definition chat_choice :: "dict \<Rightarrow> py_exn + dict" where
  "chat_choice payload =
     rbind (required_key payload ''choices'') (\<lambda>cs. rbind (first_item cs) (\<lambda>c. rbind (as_dict c) (\<lambda>d.
     rbind (required_key d ''message'') as_dict)))"

definition chat_response :: "(json \<Rightarrow> py_exn + raw_call) \<Rightarrow> dict \<Rightarrow> py_exn + raw_response" where
  "chat_response parse_call payload =
     rbind (chat_choice payload) (\<lambda>choice.
     rbind (json_iter (or_default (get_or_null choice ''tool_calls'') (JArr []))) (\<lambda>tcs.
     rbind (traverse parse_call tcs) (\<lambda>calls.
     rbind (as_dict (or_default (get_or_null payload ''usage'') (JObj []))) (\<lambda>usage.
     rbind (str_of (or_default (get_or_null choice ''content'') (JStr []))) (\<lambda>txt'.
     rbind (usage_tokens usage ''prompt_tokens'' ''completion_tokens'') (\<lambda>(m, n).
     Inr \<lparr>rr_text = txt', rr_calls = calls, rr_input_tokens = m, rr_output_tokens = n\<rparr>))))))"

definition openai_parse_response :: "dict \<Rightarrow> py_exn + raw_response" where
  "openai_parse_response payload = chat_response openai_call payload"

subsection \<open>Ollama\<close>

definition ollama_call :: "nat \<Rightarrow> json \<Rightarrow> py_exn + raw_call" where
  "ollama_call i tc =
     rbind (as_dict tc) (\<lambda>t.
     rbind (as_dict (or_default (get_or_null t ''function'') (JObj []))) (\<lambda>fn.
     rbind (str_of (get_default fn ''name'' (JStr []))) (\<lambda>n.
     Inr \<lparr>rw_id = ''ollama-'' @ nat_str i, rw_name = n, rw_arguments = or_default (get_or_null fn ''arguments'') (JObj [])\<rparr>)))"

definition ollama_parse_response :: "dict \<Rightarrow> py_exn + raw_response" where
  "ollama_parse_response payload =
     (if truthy (get_or_null payload ''error'')
      then Inl (mk_exn ''RuntimeError'' (''ollama error: '' @ py_str (get_or_null payload ''error'')))
      else
        rbind (as_dict (or_default (get_or_null payload ''message'') (JObj []))) (\<lambda>msg.
        rbind (json_iter (or_default (get_or_null msg ''tool_calls'') (JArr []))) (\<lambda>tcs.
        rbind (traverse (\<lambda>(i, tc). ollama_call i tc) (enumerate 0 tcs)) (\<lambda>calls.
        rbind (str_of (or_default (get_or_null msg ''content'') (JStr []))) (\<lambda>txt'.
        rbind (usage_tokens payload ''prompt_eval_count'' ''eval_count'') (\<lambda>(m, n).
        Inr \<lparr>rr_text = txt', rr_calls = calls, rr_input_tokens = m, rr_output_tokens = n\<rparr>))))))"

subsection \<open>Messages of Anthropic models\<close>

fun content_blocks :: "json list \<Rightarrow> py_exn + string \<times> raw_call list" where
  "content_blocks [] = Inr ([], [])"
| "content_blocks (j # js) =
     rbind (as_dict j) (\<lambda>b.
     if get_or_null b ''type'' = JStr ''text'' then
       rbind (str_of (get_default b ''text'' (JStr []))) (\<lambda>s. rbind (content_blocks js) (\<lambda>(t, cs). Inr (s @ t, cs)))
     else if get_or_null b ''type'' = JStr ''tool_use'' then
       rbind (rbind (required_key b ''id'') str_of) (\<lambda>i. rbind (rbind (required_key b ''name'') str_of) (\<lambda>n.
       rbind (content_blocks js) (\<lambda>(t, cs).
       Inr (t, \<lparr>rw_id = i, rw_name = n, rw_arguments = or_default (get_or_null b ''input'') (JObj [])\<rparr> # cs))))
     else content_blocks js)"

definition anthropic_parse_response :: "dict \<Rightarrow> py_exn + raw_response" where
  "anthropic_parse_response payload =
     rbind (json_iter (or_default (get_or_null payload ''content'') (JArr []))) (\<lambda>blocks.
     rbind (content_blocks blocks) (\<lambda>(t, calls).
     rbind (as_dict (or_default (get_or_null payload ''usage'') (JObj []))) (\<lambda>usage.
     rbind (usage_tokens usage ''input_tokens'' ''output_tokens'') (\<lambda>(m, n).
     Inr \<lparr>rr_text = t, rr_calls = calls, rr_input_tokens = m, rr_output_tokens = n\<rparr>))))"

subsection \<open>Azure and Bedrock\<close>

record azure_adapter =
  az_endpoint :: string
  az_api_key :: string
  az_deployment :: string
  az_api_version :: string

definition azure_init :: "string \<Rightarrow> string \<Rightarrow> string \<Rightarrow> string \<Rightarrow> azure_adapter" where
  "azure_init endpoint key deployment version =
     \<lparr>az_endpoint = rstrip_slash endpoint, az_api_key = key, az_deployment = deployment, az_api_version = version\<rparr>"

definition azure_build_request :: "azure_adapter \<Rightarrow> message list \<Rightarrow> tool_def list \<Rightarrow> string \<times> dict \<times> dict" where
  "azure_build_request a msgs tls =
     (az_endpoint a @ ''/openai/deployments/'' @ az_deployment a @ ''/chat/completions?api-version='' @ az_api_version a,
      [(''Content-Type'', JStr ''application/json''), (''api-key'', JStr (az_api_key a))],
      [(''messages'', JArr (map json_message msgs))] @ (if tls = [] then [] else [(''tools'', JArr (map function_tool tls))]))"

definition azure_call :: "json \<Rightarrow> py_exn + raw_call" where
  "azure_call tc =
     rbind (as_dict tc) (\<lambda>t.
     rbind (rbind (required_key t ''id'') str_of) (\<lambda>i.
     rbind (rbind (required_key t ''function'') as_dict) (\<lambda>fn.
     rbind (rbind (required_key fn ''name'') str_of) (\<lambda>n.
     rbind (required_key fn ''arguments'') (\<lambda>raw.
     rbind (str_of (or_default raw (JStr ''{}''))) (\<lambda>s.
     case loads s of
       None \<Rightarrow> Inl (mk_exn ''JSONDecodeError'' ''invalid JSON'')
     | Some j \<Rightarrow> Inr \<lparr>rw_id = i, rw_name = n, rw_arguments = j\<rparr>))))))"

definition azure_parse_response :: "dict \<Rightarrow> py_exn + raw_response" where
  "azure_parse_response payload = chat_response azure_call payload"

record bedrock_adapter =
  be_access_key :: string
  be_secret_key :: string
  be_region :: string
  be_model_id :: string
  be_session_token :: string
  be_max_tokens :: int

definition aws_sign :: "byte list \<Rightarrow> string \<Rightarrow> byte list" where
  "aws_sign key msg = hmac_sha256 key (encode msg)"

definition derive_signing_key :: "string \<Rightarrow> string \<Rightarrow> string \<Rightarrow> string \<Rightarrow> byte list" where
  "derive_signing_key secret_key date_stamp region service =
     aws_sign (aws_sign (aws_sign (aws_sign (encode (''AWS4'' @ secret_key)) date_stamp) region) service) ''aws4_request''"

definition bedrock_body :: "bedrock_adapter \<Rightarrow> message list \<Rightarrow> tool_def list \<Rightarrow> dict" where
  "bedrock_body a msgs tls =
     (let sys = join [CHR 10] (map content (filter (\<lambda>m. role m = ''system'') msgs));
          convo = filter (\<lambda>m. role m \<noteq> ''system'') msgs in
      [(''anthropic_version'', JStr ''bedrock-2023-05-31''), (''max_tokens'', JInt (be_max_tokens a)), (''messages'', JArr (map json_message convo))] @
      (if sys = [] then [] else [(''system'', JStr sys)]) @
      (if tls = [] then [] else [(''tools'', JArr (map (\<lambda>t. JObj [(''name'', JStr (td_name t)), (''description'', JStr (td_description t)),
         (''input_schema'', JObj (td_parameters t))]) tls))]))"

definition signed_headers :: string where
  "signed_headers = ''host;x-amz-content-sha256;x-amz-date''"

definition bedrock_signature :: "bedrock_adapter \<Rightarrow> string \<Rightarrow> string \<Rightarrow> string \<Rightarrow> string \<Rightarrow> string \<Rightarrow> string" where
  "bedrock_signature a amz_date date_stamp host path payload_hash =
     (let canonical_headers = ''host:'' @ host @ [CHR 10] @ ''x-amz-content-sha256:'' @ payload_hash @ [CHR 10] @ ''x-amz-date:'' @ amz_date @ [CHR 10];
          canonical_request = join [CHR 10] [''POST'', path, [], canonical_headers, signed_headers, payload_hash];
          scope = date_stamp @ ''/'' @ be_region a @ ''/bedrock/aws4_request'';
          string_to_sign = join [CHR 10] [''AWS4-HMAC-SHA256'', amz_date, scope, sha256_hex (encode canonical_request)] in
      hmac_hex (derive_signing_key (be_secret_key a) date_stamp (be_region a) ''bedrock'') (encode string_to_sign))"

definition bedrock_build_request :: "bedrock_adapter \<Rightarrow> string \<Rightarrow> string \<Rightarrow> message list \<Rightarrow> tool_def list \<Rightarrow> string \<times> dict \<times> dict" where
  "bedrock_build_request a amz_date date_stamp msgs tls =
     (let host = ''bedrock-runtime.'' @ be_region a @ ''.amazonaws.com''; path = ''/model/'' @ be_model_id a @ ''/invoke'';
          body = bedrock_body a msgs tls; payload_hash = sha256_hex (encode (dumps (JObj body)));
          scope = date_stamp @ ''/'' @ be_region a @ ''/bedrock/aws4_request'' in
      (''https://'' @ host @ path,
       [(''Content-Type'', JStr ''application/json''), (''X-Amz-Date'', JStr amz_date), (''X-Amz-Content-Sha256'', JStr payload_hash),
        (''Authorization'', JStr (''AWS4-HMAC-SHA256 Credential='' @ be_access_key a @ ''/'' @ scope @ '', SignedHeaders='' @ signed_headers @
           '', Signature='' @ bedrock_signature a amz_date date_stamp host path payload_hash))] @
       (if be_session_token a = [] then [] else [(''X-Amz-Security-Token'', JStr (be_session_token a))]),
       body))"

definition bedrock_parse_response :: "dict \<Rightarrow> py_exn + raw_response" where
  "bedrock_parse_response payload = anthropic_parse_response payload"

subsection \<open>Completion\<close>

text \<open>A call, with its request built, sent, read and parsed.\<close>

type_synonym 'w http_post = "string \<Rightarrow> dict \<Rightarrow> byte list \<Rightarrow> 'w \<Rightarrow> (py_exn + string) \<times> 'w"

definition complete_with ::
  "'w http_post \<Rightarrow> (message list \<Rightarrow> tool_def list \<Rightarrow> string \<times> dict \<times> dict) \<Rightarrow> (dict \<Rightarrow> py_exn + raw_response) \<Rightarrow>
   message list \<Rightarrow> tool_def list \<Rightarrow> 'w \<Rightarrow> (py_exn + raw_response) \<times> 'w" where
  "complete_with post build parse msgs tls w =
     (case build msgs tls of (url, headers, body) \<Rightarrow>
        (case post url headers (encode (dumps (JObj body))) w of
           (Inl e, w') \<Rightarrow> (Inl e, w')
         | (Inr answer, w') \<Rightarrow>
             (case loads answer of
                None \<Rightarrow> (Inl (mk_exn ''JSONDecodeError'' ''invalid JSON''), w')
              | Some j \<Rightarrow> (rbind (as_dict j) parse, w'))))"

text \<open>What the kernel can read a call as: its arguments have to be a dictionary.\<close>

definition tool_call_of :: "raw_call \<Rightarrow> tool_call option" where
  "tool_call_of c = (case rw_arguments c of JObj d \<Rightarrow> Some \<lparr>tc_id = rw_id c, tc_name = rw_name c, tc_arguments = d\<rparr> | _ \<Rightarrow> None)"

definition openai_complete :: "'w http_post \<Rightarrow> openai_adapter \<Rightarrow> message list \<Rightarrow> tool_def list \<Rightarrow> 'w \<Rightarrow> (py_exn + raw_response) \<times> 'w" where
  "openai_complete post a msgs tls w = complete_with post (openai_build_request a) openai_parse_response msgs tls w"

subsection \<open>The choice of an adapter\<close>

datatype vendor = Ollama ollama_adapter json | OpenAI openai_adapter | Anthropic anthropic_adapter | Azure azure_adapter | Bedrock bedrock_adapter

definition config_error :: "string \<Rightarrow> py_exn" where
  "config_error msg = mk_exn ''ModelConfigError'' msg"

definition context_size :: "dict \<Rightarrow> py_exn + int" where
  "context_size cfg =
     (case or_default (get_or_null cfg ''num_ctx'') (JInt 16384) of
        JInt i \<Rightarrow> Inr i | JBool b \<Rightarrow> Inr (if b then 1 else 0)
      | JStr s \<Rightarrow> (case int_of_str s of Some i \<Rightarrow> Inr i | None \<Rightarrow> Inl (mk_exn ''ValueError'' ''invalid literal for int()''))
      | _ \<Rightarrow> Inl type_error)"

text \<open>An entry's timeout is carried along as it is; the default of ten minutes is the number 600.\<close>

definition build_adapter :: "dict \<Rightarrow> string option \<Rightarrow> py_exn + vendor" where
  "build_adapter cfg secret =
     rbind (str_of (get_default cfg ''model'' (JStr []))) (\<lambda>mdl.
     rbind (str_of (get_default cfg ''base_url'' (JStr []))) (\<lambda>base_url.
     let kind = get_default cfg ''adapter'' (JStr []); timeout = or_default (get_or_null cfg ''timeout'') (JInt 600);
         url = (\<lambda>d. if base_url = [] then d else base_url); sec = (case secret of None \<Rightarrow> [] | Some s \<Rightarrow> s) in
     if kind = JStr ''ollama'' then rbind (context_size cfg) (\<lambda>ctx. Inr (Ollama (ollama_init (url ''http://127.0.0.1:11434'') mdl ctx) timeout))
     else if kind = JStr ''openai-compat'' then
       (if sec = [] then Inl (config_error ''openai-compat requires a stored secret'') else Inr (OpenAI (openai_init (url ''https://api.openai.com/v1'') sec mdl)))
     else if kind = JStr ''anthropic'' then
       (if sec = [] then Inl (config_error ''anthropic requires a stored secret'')
        else Inr (Anthropic (anthropic_init sec mdl (url ''https://api.anthropic.com'') 4096)))
     else if kind = JStr ''azure'' then
       (if sec = [] then Inl (config_error ''azure requires a stored secret'') else Inr (Azure (azure_init base_url sec mdl ''2024-10-21'')))
     else if kind = JStr ''bedrock'' then
       (case split_on (CHR '':'') sec of
          a # b # c # _ \<Rightarrow> Inr (Bedrock \<lparr>be_access_key = a, be_secret_key = b, be_region = c, be_model_id = mdl, be_session_token = [], be_max_tokens = 4096\<rparr>)
        | _ \<Rightarrow> Inl (config_error (''bedrock secret must be '' @ py_repr ''access:secret:region'')))
     else Inl (config_error (''unknown adapter kind: '' @ py_repr_json kind))))"

subsection \<open>What a parsed answer promises\<close>

lemma openai_arguments_wf: "\<exists>d. openai_arguments fn = JObj d \<and> wf_json (JObj d)"
proof -
  have "wf_json (JObj d)" if "loads s = Some (JObj d)" for s d using that by (rule loads_wf)
  moreover have "openai_arguments fn = JObj [] \<or> (\<exists>s d. openai_arguments fn = JObj d \<and> loads s = Some (JObj d))"
    by (auto simp: openai_arguments_def is_dict_def split: json.splits option.splits if_splits)
  ultimately show ?thesis by fastforce
qed

lemma all_some: "(\<And>x. x \<in> set xs \<Longrightarrow> \<exists>y. f x = Some y \<and> P y) \<Longrightarrow> \<exists>ys. map f xs = map Some ys \<and> list_all P ys"
proof (induction xs)
  case (Cons x xs)
  then obtain y ys where "f x = Some y" "P y" "map f xs = map Some ys" "list_all P ys" by (metis list.set_intros)
  then show ?case by (intro exI [of _ "y # ys"]) simp
qed simp

lemma openai_call_dict: "openai_call tc = Inr c \<Longrightarrow> \<exists>d. rw_arguments c = JObj d \<and> wf_json (JObj d)"
  using openai_arguments_wf by (auto simp: openai_call_def rbind_Inr_iff)

lemma openai_parse_calls:
  assumes "openai_parse_response payload = Inr r" "c \<in> set (rr_calls r)"
  shows "\<exists>d. rw_arguments c = JObj d \<and> wf_json (JObj d)"
proof -
  obtain tcs where "traverse openai_call tcs = Inr (rr_calls r)"
    using assms(1) by (auto simp: openai_parse_response_def chat_response_def rbind_Inr_iff)
  from list_all2_right [OF traverse_items [OF this] assms(2)] show ?thesis using openai_call_dict by blast
qed

text \<open>C39: An answer of a chat-completions endpoint never breaks the kernel's assumption on adapters. Whatever text the endpoint sends
  back, if the completion returns at all, every tool call in it can be read as one whose arguments are a
  dictionary with distinct keys, which is what the theorems about runs ask of an adapter: an argument text that is
  malformed, or is the text of something else, has become the empty dictionary.\<close>

theorem openai_calls_are_dicts:
  assumes "openai_complete post a msgs tls w = (Inr r, w')"
  shows "\<exists>ts. map tool_call_of (rr_calls r) = map Some ts \<and> list_all call_ok ts"
proof -
  from assms obtain p where p: "openai_parse_response p = Inr r"
    by (auto simp: openai_complete_def complete_with_def rbind_Inr_iff split: prod.splits sum.splits option.splits)
  have "\<exists>t. tool_call_of c = Some t \<and> call_ok t" if "c \<in> set (rr_calls r)" for c
    using openai_parse_calls [OF p that] by (auto simp: call_ok_def tool_call_of_def)
  then show ?thesis by (rule all_some)
qed

text \<open>An endpoint that answers with three calls: cut off arguments, arguments that are a list, and good ones.\<close>

definition demo_tool_call :: "string \<Rightarrow> string \<Rightarrow> json" where
  "demo_tool_call i args = JObj [(''id'', JStr i), (''function'', JObj [(''name'', JStr ''fs_read''), (''arguments'', JStr args)])]"

definition demo_post :: "nat http_post" where
  "demo_post url headers body w = (Inr (dumps (JObj [(''choices'', JArr [JObj [(''message'', JObj [(''content'', JNull), (''tool_calls'',
     JArr [demo_tool_call ''c1'' ''[1, 2'', demo_tool_call ''c2'' ''[1, 2]'', demo_tool_call ''c3'' (dumps (JObj [(''path'', JStr ''x'')]))])])]])])), Suc w)"

lemma demo_post_answer:
  "case openai_complete demo_post (openai_init ''http://h/'' ''k'' ''m'') [] [] 0 of
     (Inr r, w) \<Rightarrow> map rw_arguments (rr_calls r) = [JObj [], JObj [], JObj [(''path'', JStr ''x'')]] | _ \<Rightarrow> False"
  by code_simp

theorem openai_calls_are_dicts_witness:
  "\<exists>r w ts. openai_complete demo_post (openai_init ''http://h/'' ''k'' ''m'') [] [] 0 = (Inr r, w) \<and>
     map tool_call_of (rr_calls r) = map Some ts \<and> list_all call_ok ts \<and> length ts = 3"
proof -
  obtain r w where r: "openai_complete demo_post (openai_init ''http://h/'' ''k'' ''m'') [] [] 0 = (Inr r, w)"
    "map rw_arguments (rr_calls r) = [JObj [], JObj [], JObj [(''path'', JStr ''x'')]]"
    using demo_post_answer by (auto split: prod.splits sum.splits)
  from openai_calls_are_dicts [OF r(1)] obtain ts where ts: "map tool_call_of (rr_calls r) = map Some ts" "list_all call_ok ts" by blast
  have "length ts = 3" using arg_cong [OF ts(1), of length] arg_cong [OF r(2), of length] by simp
  with r(1) ts show ?thesis by blast
qed

text \<open>The other adapters hand the arguments of a call to the kernel unchecked. An answer of Ollama whose call has arguments that
  are not empty gives a call with exactly these arguments, whatever kind of value they are; the kernel then reads them
  as a dictionary after the tool has run.\<close>

theorem ollama_arguments_unchecked:
  assumes "truthy args"
  shows "ollama_parse_response [(''message'', JObj [(''tool_calls'', JArr [JObj [(''function'', JObj [(''name'', JStr n), (''arguments'', args)])]])])] =
    Inr \<lparr>rr_text = [], rr_calls = [\<lparr>rw_id = ''ollama-0'', rw_name = n, rw_arguments = args\<rparr>], rr_input_tokens = 0, rr_output_tokens = 0\<rparr>"
proof -
  have "nat_str 0 = ''0''" by code_simp
  then show ?thesis using assms
    by (simp add: ollama_parse_response_def ollama_call_def get_or_null_def get_default_def or_default_def truthy_def as_dict_def
        json_iter_def str_of_def int_of_def usage_tokens_def)
qed

theorem ollama_arguments_unchecked_witness:
  "\<exists>r. ollama_parse_response [(''message'', JObj [(''tool_calls'', JArr [JObj [(''function'',
     JObj [(''name'', JStr ''fs_read''), (''arguments'', JArr [JInt 1])])]])])] = Inr r \<and> map tool_call_of (rr_calls r) = [None]"
  using ollama_arguments_unchecked [of "JArr [JInt 1]" "''fs_read''"] by (simp add: truthy_def tool_call_of_def)

text \<open>An error that the server reports is raised, not read as an empty answer.\<close>

lemma ollama_error_raises:
  "truthy (get_or_null payload ''error'') \<Longrightarrow> \<exists>e. ollama_parse_response payload = Inl e \<and> exn_class e = ''RuntimeError''"
  by (simp add: ollama_parse_response_def mk_exn_def)

text \<open>The digest that a signed request carries is the digest of the bytes that are sent.\<close>

lemma bedrock_payload_signed:
  assumes "bedrock_build_request a amz_date date_stamp msgs tls = (url, headers, body)"
  shows "dict_get headers ''X-Amz-Content-Sha256'' = Some (JStr (sha256_hex (encode (dumps (JObj body)))))"
  using assms by (auto simp: bedrock_build_request_def Let_def)

text \<open>No vendor that needs a credential is built without one.\<close>

lemma build_adapter_secret:
  assumes "build_adapter cfg secret = Inr v"
  shows "(\<exists>a t. v = Ollama a t) \<or> (\<exists>s. secret = Some s \<and> s \<noteq> [])"
  using assms by (auto simp: build_adapter_def rbind_Inr_iff Let_def split: if_splits option.splits list.splits)

end
