(* ===== verification/Sessions.thy ===== *)
theory Sessions
  imports Recovery Packages
begin

text \<open>
  The session manager and its durable job queue (\<open>scr/sessions.py\<close>). The kernel factory and the
  package guard are given with the manager. A run's cancel flag is set by another thread, so what
  \<open>flag.is_set\<close> answers is read from the world; the registration of flag and runner around a run
  is undone in its \<open>finally\<close> clause and appears only in the table that \<open>cancel\<close> looks at.
\<close>

record 'w session_manager =
  sm_factory :: "store \<Rightarrow> string \<Rightarrow> 'w kernel"
  sm_guard :: "('w \<Rightarrow> (py_exn + load_result) \<times> 'w) option"
  sm_flag :: "string \<Rightarrow> 'w \<Rightarrow> bool \<times> 'w"

text \<open>The fresh session and job ids and the time are arguments.\<close>

definition enqueue ::
  "int \<Rightarrow> string \<Rightarrow> string \<Rightarrow> string \<Rightarrow> string \<Rightarrow> store \<Rightarrow> (py_exn + job_record) \<times> store" where
  "enqueue now fresh_sid fresh_jid user_text key st =
     (case create_session st None fresh_sid of
        Inl e \<Rightarrow> (Inl e, st)
      | Inr (sid, st1) \<Rightarrow>
          (case job_upsert st1 now fresh_jid sid key ''queued'' user_text of
             Inl e \<Rightarrow> (Inl e, st1)
           | Inr (rec, st2) \<Rightarrow> (Inr rec, st2)))"

definition status_for :: "run_result \<Rightarrow> string" where
  "status_for r =
     (if rr_stopped r = ''completed'' then ''done''
      else if rr_stopped r = ''awaiting_approval'' then ''awaiting_approval'' else ''needs_review'')"

definition terminal_result :: "job_row \<Rightarrow> string \<Rightarrow> run_result" where
  "terminal_result job reason =
     \<lparr>rr_session = jb_session job, rr_final_text = [], rr_iterations = 0, rr_stopped = reason, rr_pending = None\<rparr>"

definition job_kernel :: "'w session_manager \<Rightarrow> string \<Rightarrow> store \<Rightarrow> string \<Rightarrow> 'w kernel" where
  "job_kernel m jid st sid = (sm_factory m st sid)\<lparr>k_cancel_check := Some (sm_flag m jid)\<rparr>"

definition start_job ::
  "'w session_manager \<Rightarrow> job_row \<Rightarrow> store \<times> 'w \<Rightarrow> (py_exn + run_result) \<times> store \<times> 'w" where
  "start_job m job s =
     (let jid = jb_id job; st1 = job_set_status (fst s) jid ''running'' in
      case kernel_run (job_kernel m jid st1 (jb_session job)) (jb_session job) (jb_text job) (st1, snd s) of
        (Inl e, s2) \<Rightarrow> (Inl e, s2)
      | (Inr r, st2, w2) \<Rightarrow>
          (Inr r, job_set_status st2 jid (if rr_stopped r = ''cancelled'' then ''cancelled'' else status_for r), w2))"

definition run_job :: "'w session_manager \<Rightarrow> string \<Rightarrow> store \<times> 'w \<Rightarrow> (py_exn + run_result) \<times> store \<times> 'w" where
  "run_job m jid s =
     (case job_get (fst s) jid of
        None \<Rightarrow> (Inl (mk_exn ''KeyError'' (py_repr jid)), s)
      | Some job \<Rightarrow>
          if jb_status job \<in> {''done'', ''cancelled''} then (Inr (terminal_result job (jb_status job)), s)
          else
            (case sm_guard m of
               None \<Rightarrow> start_job m job s
             | Some guard \<Rightarrow>
                 (case guard (snd s) of
                    (Inl e, w1) \<Rightarrow> (Inl e, fst s, w1)
                  | (Inr g, w1) \<Rightarrow>
                      if \<not> ld_ok g
                      then (Inr (terminal_result job (''package_unverified:'' @ (case ld_error g of None \<Rightarrow> ''None'' | Some x \<Rightarrow> x))),
                            job_set_status (fst s) jid ''refused'', w1)
                      else start_job m job (fst s, w1))))"

definition resume_job :: "'w session_manager \<Rightarrow> string \<Rightarrow> store \<times> 'w \<Rightarrow> (py_exn + run_result) \<times> store \<times> 'w" where
  "resume_job m jid s =
     (case job_get (fst s) jid of
        None \<Rightarrow> (Inl (mk_exn ''TypeError'' ''NoneType object is not subscriptable''), s)
      | Some job \<Rightarrow>
          (case kernel_resume (sm_factory m (fst s) (jb_session job)) (jb_session job) s of
             (Inl e, s2) \<Rightarrow> (Inl e, s2)
           | (Inr r, st2, w2) \<Rightarrow> (Inr r, job_set_status st2 jid (status_for r), w2)))"

text \<open>The table of runs under way: whether a run's flag is set, and the runners killed so far.\<close>

record run_table =
  rt_flags :: "string \<Rightarrow> bool option"
  rt_runners :: "string set"
  rt_killed :: "string list"

definition cancel :: "string \<Rightarrow> store \<times> run_table \<Rightarrow> store \<times> run_table" where
  "cancel jid s =
     (let (st, rt) = s;
          rt1 = (if rt_flags rt jid \<noteq> None then rt\<lparr>rt_flags := (rt_flags rt)(jid := Some True)\<rparr> else rt);
          rt2 = (if jid \<in> rt_runners rt then rt1\<lparr>rt_killed := rt_killed rt1 @ [jid]\<rparr> else rt1);
          st1 = job_set_status st jid ''cancelled'' in
      (case job_get st1 jid of
         None \<Rightarrow> (st1, rt2)
       | Some job \<Rightarrow> (set_session_status st1 (jb_session job) ''cancelled'', rt2)))"

record recovered_job =
  rj_job :: string
  rj_recovery :: string
  rj_status :: string

definition recovered_status :: "recovery_report \<Rightarrow> string" where
  "recovered_status rep =
     (if rc_status rep = ''quarantined'' then ''needs_review''
      else if rc_status rep = ''clean'' then ''done'' else ''needs_review'')"

fun recover_jobs :: "job_row list \<Rightarrow> store \<Rightarrow> (py_exn + recovered_job list) \<times> store" where
  "recover_jobs [] st = (Inr [], st)"
| "recover_jobs (job # js) st =
     (case recover (jb_session job) st of
        (Inl e, st1) \<Rightarrow> (Inl e, st1)
      | (Inr rep, st1) \<Rightarrow>
          (case recover_jobs js (job_set_status st1 (jb_id job) (recovered_status rep)) of
             (Inl e, st2) \<Rightarrow> (Inl e, st2)
           | (Inr out, st2) \<Rightarrow>
               (Inr (\<lparr>rj_job = jb_id job, rj_recovery = rc_status rep, rj_status = recovered_status rep\<rparr> # out), st2)))"

definition recover_all :: "store \<Rightarrow> (py_exn + recovered_job list) \<times> store" where
  "recover_all st = recover_jobs (jobs_by_status st ''running'') st"

definition job_status :: "store \<Rightarrow> string \<Rightarrow> job_row option" where
  "job_status st jid = job_get st jid"

definition list_jobs :: "store \<Rightarrow> job_row list" where
  "list_jobs st = jobs_all st"

subsection \<open>The job table\<close>

definition jobs_ok :: "store \<Rightarrow> bool" where
  "jobs_ok st \<longleftrightarrow> distinct (map jb_id (jobs st)) \<and> distinct (map jb_idem (jobs st))"

definition job_ident :: "job_row \<Rightarrow> string \<times> string \<times> string \<times> string" where
  "job_ident r = (jb_id r, jb_session r, jb_idem r, jb_text r)"

definition job_idents :: "store \<Rightarrow> (string \<times> string \<times> string \<times> string) list" where
  "job_idents st = map job_ident (jobs st)"

definition manager_ok :: "'w session_manager \<Rightarrow> bool" where
  "manager_ok m \<longleftrightarrow> (\<forall>st sid. kernel_ok sid (sm_factory m st sid))"

lemma job_set_status_idents [simp]: "job_idents (job_set_status st jid s) = job_idents st"
  by (simp add: job_idents_def job_set_status_def job_ident_def)

lemma set_session_status_idents [simp]: "job_idents (set_session_status st sid s) = job_idents st"
  by (simp add: job_idents_def)

lemma jobs_ok_idents: "jobs_ok st \<longleftrightarrow> distinct (map fst (job_idents st)) \<and> distinct (map (\<lambda>x. fst (snd (snd x))) (job_idents st))"
  by (simp add: jobs_ok_def job_idents_def job_ident_def comp_def)

lemma jobs_ok_same: "job_idents st' = job_idents st \<Longrightarrow> jobs_ok st' = jobs_ok st"
  by (simp add: jobs_ok_idents)

lemma store_ok_job_set_status [simp]: "store_ok (job_set_status st jid s) = store_ok st"
  by (rule store_ok_frame) simp_all

lemma store_ok_set_session_status [simp]: "store_ok (set_session_status st sid s) = store_ok st"
  by (rule store_ok_frame) simp_all

lemma job_kernel_ok: "manager_ok m \<Longrightarrow> kernel_ok sid (job_kernel m jid st sid)"
  by (simp add: manager_ok_def job_kernel_def kernel_ok_def)

lemma enqueue_effect:
  assumes "store_ok st" "jobs_ok st" and e: "enqueue now fs fj txt key st = (r, st')"
  shows "store_ok st' \<and> jobs_ok st' \<and> (\<exists>new. job_idents st' = job_idents st @ new) \<and>
    (\<forall>x. r = Inr x \<longrightarrow>
      (case find (\<lambda>j. jb_idem j = key) (jobs st) of
         Some j \<Rightarrow> x = \<lparr>jr_job_id = jb_id j, jr_job_session = jb_session j, jr_job_status = jb_status j, jr_deduped = True\<rparr> \<and>
                   jobs st' = jobs st
       | None \<Rightarrow> job_idents st' = job_idents st @ [(fj, fs, key, txt)] \<and> \<not> jr_deduped x))"
proof (cases "create_session st None fs")
  case (Inl err)
  with assms show ?thesis by (auto simp: enqueue_def)
next
  case (Inr p)
  obtain sid st1 where c: "create_session st None fs = Inr (sid, st1)" using Inr by (cases p) auto
  note f = create_session_frame [OF c]
  have sid: "sid = fs" using c by (auto simp: create_session_def split: if_splits)
  have ok1: "store_ok st1" using store_ok_frame [OF f(1,2)] assms(1) by simp
  show ?thesis
  proof (cases "find (\<lambda>j. jb_idem j = key) (jobs st)")
    case (Some j)
    have "jobs_ok st1" using assms(2) f(7) by (simp add: jobs_ok_def)
    with Some e ok1 f(7) show ?thesis by (auto simp: enqueue_def c job_upsert_def job_idents_def)
  next
    case None
    show ?thesis
    proof (cases "fj \<in> set (map jb_id (jobs st))")
      case True
      have "jobs_ok st1" using assms(2) f(7) by (simp add: jobs_ok_def)
      with True None e ok1 f(7) show ?thesis by (auto simp: enqueue_def c job_upsert_def job_idents_def)
    next
      case False
      let ?row = "\<lparr>jb_id = fj, jb_session = fs, jb_idem = key, jb_status = ''queued'', jb_text = txt, jb_created = now\<rparr>"
      have st': "st' = st1\<lparr>jobs := jobs st @ [?row]\<rparr>" and r: "\<forall>x. r = Inr x \<longrightarrow> \<not> jr_deduped x"
        using e False None f(7) by (auto simp: enqueue_def c job_upsert_def sid)
      have "store_ok st'" using ok1 store_ok_frame [of st' st1] by (simp add: st')
      moreover have "jobs_ok st'" using assms(2) False None by (auto simp: jobs_ok_def st' find_None_iff)
      moreover have "job_idents st' = job_idents st @ [(fj, fs, key, txt)]" by (simp add: st' job_idents_def job_ident_def)
      ultimately show ?thesis using r None by auto
    qed
  qed
qed

lemma start_job_effect:
  assumes m: "manager_ok m" and ok: "store_ok st" and r: "start_job m job (st, w) = (r, st', w')"
  shows "store_ok st' \<and> job_idents st' = job_idents st"
proof -
  let ?st1 = "job_set_status st (jb_id job) ''running''" and ?sid = "jb_session job"
  let ?k = "job_kernel m (jb_id job) ?st1 ?sid"
  obtain x st2 w2 where run: "kernel_run ?k ?sid (jb_text job) (?st1, w) = (x, st2, w2)"
    by (cases "kernel_run ?k ?sid (jb_text job) (?st1, w)")
  have "store_ok ?st1" using ok by simp
  from kernel_run_safe [OF job_kernel_ok [OF m] this, of "jb_id job" ?st1 ?sid "jb_text job" w] run
  have "grows ?st1 st2" by (auto simp: safe_def intro: extends_grows)
  then have "store_ok st2" "job_idents st2 = job_idents st"
    by (auto simp: grows_def job_idents_def job_set_status_def job_ident_def)
  with r run show ?thesis by (auto simp: start_job_def Let_def split: sum.splits)
qed

lemma run_job_effect:
  assumes "manager_ok m" and "store_ok st" and "run_job m jid (st, w) = (r, st', w')"
  shows "store_ok st' \<and> job_idents st' = job_idents st"
  using assms start_job_effect
  by (fastforce simp: run_job_def split: option.splits if_splits prod.splits sum.splits)

lemma decode_call_ok: "decode_call j = Inr c \<Longrightarrow> wf_json j \<Longrightarrow> call_ok c"
  using jget_wf by (fastforce simp: decode_call_def call_ok_def split: option.splits json.splits)

lemma decode_calls_ok: "decode_calls js = Inr cs \<Longrightarrow> \<forall>j\<in>set js. wf_json j \<Longrightarrow> list_all call_ok cs"
proof (induction js arbitrary: cs)
  case (Cons j js)
  then show ?case using decode_call_ok [of j] by (auto split: sum.splits)
qed auto

lemma kernel_resume_safe:
  assumes k: "kernel_ok sid k" and ok: "store_ok st"
  shows "extends k sid st (fst (snd (kernel_resume k sid (st, w))))"
proof -
  have base: "extends k sid st st" using ok by (rule extends_refl)
  show ?thesis
  proof (cases "\<exists>tail pending cs. journal_tail st sid = Inr (Some tail) \<and> je_state tail = ''AWAITING_APPROVAL'' \<and>
      jget (je_payload tail) ''pending'' = Some (JArr pending) \<and> decode_calls pending = Inr cs")
    case False
    then show ?thesis using base by (auto simp: kernel_resume_def split: sum.splits option.splits json.splits)
  next
    case True
    then obtain tail pending cs where t: "journal_tail st sid = Inr (Some tail)" "je_state tail = ''AWAITING_APPROVAL''"
      "jget (je_payload tail) ''pending'' = Some (JArr pending)" "decode_calls pending = Inr cs" by blast
    have "wf_json (JArr pending)" using jget_wf [OF journal_tail_wf [OF t(1)] t(3)] .
    then have cs: "list_all call_ok cs" using decode_calls_ok [OF t(4)] by simp
    obtain x st1 w1 where x: "execute_pending k sid cs (st, w) = (x, st1, w1)" by (cases "execute_pending k sid cs (st, w)")
    have s1: "extends k sid st st1" using execute_pending_safe [OF k ok cs, of w] x by (simp add: safe_def)
    have "extends k sid st1 (fst (snd (kernel_loop k sid (st1, w1))))"
      using kernel_loop_safe [OF k extends_ok [OF s1], of w1] by (simp add: safe_def)
    with s1 extends_trans have "extends k sid st (fst (snd (kernel_loop k sid (st1, w1))))" by blast
    with s1 t x show ?thesis by (auto simp: kernel_resume_def split: sum.splits option.splits)
  qed
qed

lemma resume_job_effect:
  assumes m: "manager_ok m" and ok: "store_ok st" and r: "resume_job m jid (st, w) = (r, st', w')"
  shows "store_ok st' \<and> job_idents st' = job_idents st"
proof (cases "job_get st jid")
  case None
  with r ok show ?thesis by (simp add: resume_job_def)
next
  case (Some job)
  let ?k = "sm_factory m st (jb_session job)"
  obtain x st2 w2 where run: "kernel_resume ?k (jb_session job) (st, w) = (x, st2, w2)"
    by (cases "kernel_resume ?k (jb_session job) (st, w)")
  have "kernel_ok (jb_session job) ?k" using m by (simp add: manager_ok_def)
  from kernel_resume_safe [OF this ok, of w] run have "grows st st2" by (auto intro: extends_grows)
  then have "store_ok st2" "job_idents st2 = job_idents st" by (auto simp: grows_def job_idents_def)
  with r run Some show ?thesis by (auto simp: resume_job_def split: sum.splits)
qed

lemma cancel_effect: "cancel jid (st, rt) = (st', rt') \<Longrightarrow> store_ok st \<Longrightarrow> store_ok st' \<and> job_idents st' = job_idents st"
  by (auto simp: cancel_def Let_def split: option.splits if_splits)

lemma recover_effect: "store_ok st \<Longrightarrow> recover sid st = (r, st') \<Longrightarrow> store_ok st' \<and> jobs st' = jobs st"
proof -
  assume ok: "store_ok st" and r: "recover sid st = (r, st')"
  have note_ok: "store_ok (note_journal sid s p st)" if "wf_json (JObj p)" for s p
    using note_journal_grows [OF ok that] by (rule grows_ok)
  show ?thesis
  proof (cases "\<exists>tail. journal_tail st sid = Inr (Some tail) \<and> je_state tail = ''EXEC_INTENT''")
    case False
    then show ?thesis using ok r note_ok
      by (auto simp: recover_def report_def split: sum.splits option.splits if_splits)
  next
    case True
    then obtain tail where t: "journal_tail st sid = Inr (Some tail)" "je_state tail = ''EXEC_INTENT''" by blast
    have wf: "jget (je_payload tail) k = Some v \<Longrightarrow> wf_json v" for k v
      using jget_wf [OF journal_tail_wf [OF t(1)]] by blast
    from t r show ?thesis using ok note_ok wf
      by (auto simp: recover_def recover_exec_def report_def Let_def split: sum.splits option.splits if_splits json.splits)
  qed
qed

lemma recover_jobs_effect:
  "store_ok st \<Longrightarrow> recover_jobs js st = (r, st') \<Longrightarrow> store_ok st' \<and> job_idents st' = job_idents st"
proof (induction js arbitrary: st r st')
  case (Cons j js)
  obtain x st1 where x: "recover (jb_session j) st = (x, st1)" by (cases "recover (jb_session j) st")
  from recover_effect [OF Cons.prems(1) x] have ok1: "store_ok st1" "job_idents st1 = job_idents st"
    by (simp_all add: job_idents_def)
  show ?case
  proof (cases x)
    case (Inr rep)
    let ?st2 = "job_set_status st1 (jb_id j) (recovered_status rep)"
    obtain y st3 where y: "recover_jobs js ?st2 = (y, st3)" by (cases "recover_jobs js ?st2")
    have "store_ok ?st2" using ok1 by simp
    from Cons.IH [OF this y] y Cons.prems(2) Inr x ok1(2) show ?thesis by (auto split: sum.splits)
  qed (use Cons.prems x ok1 in auto)
qed simp

subsection \<open>The manager as a transition system\<close>

inductive sm_step :: "'w session_manager \<Rightarrow> store \<times> 'w \<Rightarrow> store \<times> 'w \<Rightarrow> bool" for m where
  Enqueue: "enqueue now fs fj txt key st = (r, st') \<Longrightarrow> sm_step m (st, w) (st', w)"
| Run: "run_job m jid (st, w) = (r, st', w') \<Longrightarrow> sm_step m (st, w) (st', w')"
| Resume: "resume_job m jid (st, w) = (r, st', w') \<Longrightarrow> sm_step m (st, w) (st', w')"
| Cancel: "cancel jid (st, rt) = (st', rt') \<Longrightarrow> sm_step m (st, w) (st', w)"
| RecoverAll: "recover_all st = (r, st') \<Longrightarrow> sm_step m (st, w) (st', w)"

inductive_cases sm_stepE: "sm_step m s s'"

abbreviation sm_reach :: "'w session_manager \<Rightarrow> store \<times> 'w \<Rightarrow> store \<times> 'w \<Rightarrow> bool" where
  "sm_reach m \<equiv> (sm_step m)\<^sup>*\<^sup>*"

lemma same_idents:
  "job_idents st' = job_idents st \<Longrightarrow> jobs_ok st \<Longrightarrow> jobs_ok st' \<and> prefix (job_idents st) (job_idents st')"
  by (simp add: jobs_ok_idents)

lemma sm_step_keeps:
  assumes m: "manager_ok m" and s: "sm_step m s s'" and ok: "store_ok (fst s)" "jobs_ok (fst s)"
  shows "store_ok (fst s') \<and> jobs_ok (fst s') \<and> prefix (job_idents (fst s)) (job_idents (fst s'))"
  using s
proof cases
  case (Enqueue now fs fj ut key st r st' w)
  with enqueue_effect [OF _ _ Enqueue(3)] ok show ?thesis by (auto simp: prefix_def)
next
  case (Run jid st w r st' w')
  then have "store_ok st' \<and> job_idents st' = job_idents st" using run_job_effect [OF m _ Run(3)] ok by simp
  then show ?thesis using same_idents [of st' st] ok Run by simp
next
  case (Resume jid st w r st' w')
  then have "store_ok st' \<and> job_idents st' = job_idents st" using resume_job_effect [OF m _ Resume(3)] ok by simp
  then show ?thesis using same_idents [of st' st] ok Resume by simp
next
  case (Cancel jid st rt st' rt' w)
  then have "store_ok st' \<and> job_idents st' = job_idents st" using cancel_effect [OF Cancel(3)] ok by simp
  then show ?thesis using same_idents [of st' st] ok Cancel by simp
next
  case (RecoverAll st r st' w)
  then have "store_ok st' \<and> job_idents st' = job_idents st"
    using recover_jobs_effect [of st "jobs_by_status st ''running''" r st'] ok by (simp add: recover_all_def)
  then show ?thesis using same_idents [of st' st] ok RecoverAll by simp
qed

lemma sm_reach_keeps:
  assumes "manager_ok m" and "sm_reach m s s'" and "store_ok (fst s)" "jobs_ok (fst s)"
  shows "store_ok (fst s') \<and> jobs_ok (fst s') \<and> prefix (job_idents (fst s)) (job_idents (fst s'))"
  using assms(2)
proof (induction rule: rtranclp_induct)
  case (step y z)
  with sm_step_keeps [OF assms(1) step(2)] show ?case by (meson prefix_order.trans)
qed (simp add: assms)

subsection \<open>Properties\<close>

lemma find_key:
  assumes "jobs_ok st" and "(i, s, key, t) \<in> set (job_idents st)"
  shows "\<exists>j. find (\<lambda>j. jb_idem j = key) (jobs st) = Some j \<and> jb_id j = i \<and> jb_session j = s"
proof -
  from assms(2) obtain r where r: "r \<in> set (jobs st)" "job_ident r = (i, s, key, t)" by (auto simp: job_idents_def)
  then have "find (\<lambda>j. jb_idem j = key) (jobs st) \<noteq> None" by (auto simp: find_None_iff job_ident_def)
  then obtain j where j: "find (\<lambda>j. jb_idem j = key) (jobs st) = Some j" by blast
  then have "j \<in> set (jobs st)" "jb_idem j = key" by (auto simp: find_Some_iff)
  with r assms(1) have "j = r" by (auto simp: jobs_ok_def distinct_map job_ident_def dest: inj_onD)
  with j r show ?thesis by (simp add: job_ident_def)
qed

lemma enqueued_ident:
  assumes "store_ok st" "jobs_ok st" and "enqueue now fs fj ut key st = (Inr x, st')"
  shows "\<exists>t. (jr_job_id x, jr_job_session x, key, t) \<in> set (job_idents st')"
proof (cases "find (\<lambda>j. jb_idem j = key) (jobs st)")
  case (Some j)
  then have "j \<in> set (jobs st)" "jb_idem j = key" by (auto simp: find_Some_iff)
  with enqueue_effect [OF assms] Some show ?thesis by (auto simp: job_idents_def job_ident_def image_iff)
next
  case None
  with enqueue_effect [OF assms] have "job_idents st' = job_idents st @ [(fj, fs, key, ut)]" by auto
  moreover have "jr_job_id x = fj \<and> jr_job_session x = fs"
    using assms(3) None create_session_frame(7) [of st None fs]
    by (auto simp: enqueue_def job_upsert_def create_session_def Let_def split: sum.splits option.splits prod.splits if_splits)
  ultimately show ?thesis by auto
qed

text \<open>C21: One job per key. Once a key has been enqueued, after any sequence of enqueues, runs, resumptions,
  cancellations and recoveries, with whatever outcomes, enqueuing the key again answers with the same
  job and session, marked as a duplicate, and adds no job; no job is ever lost or given other content.\<close>

theorem one_job_per_key:
  assumes m: "manager_ok m" and ok: "store_ok st" "jobs_ok st"
    and e: "enqueue now fs fj ut key st = (Inr x, st1)" and reach: "sm_reach m (st1, w) (st2, w2)"
    and e2: "enqueue now' fs' fj' ut' key st2 = (Inr y, st3)"
  shows "jr_job_id y = jr_job_id x \<and> jr_job_session y = jr_job_session x \<and> jr_deduped y \<and> jobs st3 = jobs st2 \<and>
    prefix (job_idents st1) (job_idents st3)"
proof -
  have ok1: "store_ok st1" "jobs_ok st1" using enqueue_effect [OF ok e] by auto
  have k: "store_ok st2" "jobs_ok st2" "prefix (job_idents st1) (job_idents st2)"
    using sm_reach_keeps [OF m reach] ok1 by simp_all
  obtain t where "(jr_job_id x, jr_job_session x, key, t) \<in> set (job_idents st1)" using enqueued_ident [OF ok e] by blast
  then have "(jr_job_id x, jr_job_session x, key, t) \<in> set (job_idents st2)" using k(3) by (auto simp: prefix_def)
  from find_key [OF k(2) this] obtain j where "find (\<lambda>j. jb_idem j = key) (jobs st2) = Some j"
    "jb_id j = jr_job_id x" "jb_session j = jr_job_session x" by blast
  with enqueue_effect [OF k(1,2) e2] k(3) show ?thesis by (auto simp: job_idents_def)
qed

definition echo_manager :: "nat session_manager" where
  "echo_manager = \<lparr>sm_factory = (\<lambda>st sid. echo_kernel), sm_guard = None, sm_flag = (\<lambda>jid w. (False, w))\<rparr>"

lemma echo_manager_ok: "manager_ok echo_manager"
  by (simp add: manager_ok_def echo_manager_def echo_kernel_ok)

definition demo_queue :: store where
  "demo_queue = snd (enqueue 0 ''s'' ''j'' ''hi'' ''k'' empty_store)"

lemma demo_queue_enqueue:
  "enqueue 0 ''s'' ''j'' ''hi'' ''k'' empty_store =
     (Inr \<lparr>jr_job_id = ''j'', jr_job_session = ''s'', jr_job_status = ''queued'', jr_deduped = False\<rparr>, demo_queue)"
  by (simp add: demo_queue_def enqueue_def create_session_def job_upsert_def empty_store_def Let_def)

lemma demo_queue_tables:
  "sessions demo_queue = [\<lparr>ses_id = ''s'', ses_status = ''open''\<rparr>]"
  "jobs demo_queue = [\<lparr>jb_id = ''j'', jb_session = ''s'', jb_idem = ''k'', jb_status = ''queued'', jb_text = ''hi'', jb_created = 0\<rparr>]"
  by (simp_all add: demo_queue_def enqueue_def create_session_def job_upsert_def empty_store_def Let_def)

lemma empty_jobs_ok: "jobs_ok empty_store"
  by (simp add: jobs_ok_def empty_store_def)

definition no_runs :: run_table where
  "no_runs = \<lparr>rt_flags = (\<lambda>_. None), rt_runners = {}, rt_killed = []\<rparr>"

theorem one_job_per_key_witness:
  "\<exists>st2 rt y st3. cancel ''j'' (demo_queue, no_runs) = (st2, rt) \<and>
     enqueue 1 ''t'' ''j2'' ''again'' ''k'' st2 = (Inr y, st3) \<and> jr_job_id y = ''j'' \<and> jr_deduped y"
proof -
  obtain st2 rt where c: "cancel ''j'' (demo_queue, no_runs) = (st2, rt)" by (cases "cancel ''j'' (demo_queue, no_runs)")
  then have reach: "sm_reach echo_manager (demo_queue, 0) (st2, 0)" by (intro r_into_rtranclp sm_step.Cancel)
  have tab: "map ses_id (sessions st2) = [''s'']" "find (\<lambda>j. jb_idem j = ''k'') (jobs st2) \<noteq> None"
    using c by (auto simp: cancel_def no_runs_def job_get_def job_set_status_def demo_queue_tables set_session_status_def)
  then obtain y st3 where y: "enqueue 1 ''t'' ''j2'' ''again'' ''k'' st2 = (Inr y, st3)"
    by (auto simp: enqueue_def create_session_def job_upsert_def Let_def)
  from one_job_per_key [OF echo_manager_ok empty_store_ok empty_jobs_ok demo_queue_enqueue reach y] c y show ?thesis by auto
qed

text \<open>Nothing runs without the gate. Running a job that is done or cancelled changes nothing at all; when
  the package guard does not answer ok, the job is refused, and neither the journal, the ledger, the
  messages nor the persisted results change; otherwise every execution intent the run adds to the
  job's session names a tool that the manifest of the job's own kernel permits.\<close>

theorem run_job_gated:
  assumes m: "manager_ok m" and ok: "store_ok st" and j: "job_get st jid = Some job"
    and r: "run_job m jid (st, w) = (res, st', w')"
  shows "if jb_status job \<in> {''done'', ''cancelled''}
    then st' = st \<and> w' = w \<and> res = Inr (terminal_result job (jb_status job))
    else if \<exists>g x. sm_guard m = Some g \<and> fst (g w) = Inr x \<and> \<not> ld_ok x
    then journal st' = journal st \<and> ledger st' = ledger st \<and> messages st' = messages st \<and>
         tool_results st' = tool_results st \<and> st' = job_set_status st jid ''refused''
    else \<exists>es. journal_view st' (jb_session job) = journal_view st (jb_session job) @ es \<and>
         (\<forall>(n, state, payload)\<in>set es. state = ''EXEC_INTENT'' \<longrightarrow>
            (\<exists>call idem. payload = Some (sort_json (JObj (intent_payload (jb_session job) call idem n))) \<and>
               tc_name call \<in> tools (k_manifest (sm_factory m (job_set_status st jid ''running'') (jb_session job)))))"
proof -
  let ?sid = "jb_session job" and ?st1 = "job_set_status st jid ''running''"
  let ?k = "job_kernel m jid ?st1 ?sid"
  have id: "jb_id job = jid" using j by (auto simp: job_get_def find_Some_iff)
  have jv: "journal_view (job_set_status s i x) k = journal_view s k" for s i x k
    using journal_reads_frame [of "job_set_status s i x" s] by simp
  have start: "\<exists>es. journal_view st2 ?sid = journal_view st ?sid @ es \<and>
         (\<forall>(n, state, payload)\<in>set es. state = ''EXEC_INTENT'' \<longrightarrow>
            (\<exists>call idem. payload = Some (sort_json (JObj (intent_payload ?sid call idem n))) \<and>
               tc_name call \<in> tools (k_manifest (sm_factory m ?st1 ?sid))))"
    if s: "start_job m job (st, v) = (res, st2, w2)" for v st2 w2
  proof -
    obtain x st3 w3 where run: "kernel_run ?k ?sid (jb_text job) (?st1, v) = (x, st3, w3)"
      by (cases "kernel_run ?k ?sid (jb_text job) (?st1, v)")
    have "store_ok ?st1" using ok by simp
    from kernel_run_safe [OF job_kernel_ok [OF m] this, of jid ?st1 ?sid "jb_text job" v] run
    obtain es where es: "journal_view st3 ?sid = journal_view ?st1 ?sid @ es" "\<forall>x\<in>set es. intent_ok ?k ?sid ?st1 x"
      by (auto simp: safe_def extends_def)
    have "journal_view st2 ?sid = journal_view st3 ?sid" using s run id jv by (auto simp: start_job_def Let_def split: sum.splits)
    with es jv have "journal_view st2 ?sid = journal_view st ?sid @ es" by simp
    moreover have "k_manifest ?k = k_manifest (sm_factory m ?st1 ?sid)" by (simp add: job_kernel_def)
    moreover have permit: "tc_name call \<in> tools (k_manifest ?k)" if "cap_check ?k call = Inr spec" for call spec
      using that by (auto simp: cap_check_Inr cap_simps)
    have "\<exists>call idem. payload = Some (sort_json (JObj (intent_payload ?sid call idem n))) \<and> tc_name call \<in> tools (k_manifest ?k)"
      if "(n, ''EXEC_INTENT'', payload) \<in> set es" for n payload
      using bspec [OF es(2) that] permit by (auto simp: intent_ok_def authorized_def)
    ultimately show ?thesis by (intro exI [of _ es]) auto
  qed
  show ?thesis
  proof (cases "jb_status job \<in> {''done'', ''cancelled''}")
    case True
    with r j show ?thesis by (auto simp: run_job_def)
  next
    case False
    show ?thesis
    proof (cases "sm_guard m")
      case None
      with r j False have "start_job m job (st, w) = (res, st', w')" by (simp add: run_job_def)
      from start [OF this] False None show ?thesis by auto
    next
      case (Some g)
      obtain x w1 where g: "g w = (x, w1)" by (cases "g w")
      show ?thesis
      proof (cases x)
        case (Inl e)
        with r j False Some g have "st' = st" by (simp add: run_job_def)
        with Inl False Some g show ?thesis by simp
      next
        case (Inr y)
        show ?thesis
        proof (cases "ld_ok y")
          case True
          with r j False Some g Inr have "start_job m job (st, w1) = (res, st', w')" by (simp add: run_job_def)
          from start [OF this] False Some g Inr True show ?thesis by auto
        next
          case f: False
          with r j False Some g Inr have "st' = job_set_status st jid ''refused''" by (simp add: run_job_def)
          with f False Some g Inr show ?thesis by simp
        qed
      qed
    qed
  qed
qed

theorem run_job_gated_witness:
  "\<exists>es. journal_view (fst (snd (run_job echo_manager ''j'' (demo_queue, 0)))) ''s'' = journal_view demo_queue ''s'' @ es \<and>
     (\<forall>(n, state, payload)\<in>set es. state = ''EXEC_INTENT'' \<longrightarrow>
       (\<exists>call idem. payload = Some (sort_json (JObj (intent_payload ''s'' call idem n))) \<and> tc_name call = ''echo''))"
proof -
  obtain res st' w' where r: "run_job echo_manager ''j'' (demo_queue, 0) = (res, st', w')"
    by (cases "run_job echo_manager ''j'' (demo_queue, 0)")
  have ok: "store_ok demo_queue" using enqueue_effect [OF empty_store_ok empty_jobs_ok demo_queue_enqueue] by simp
  have j: "job_get demo_queue ''j'' = Some \<lparr>jb_id = ''j'', jb_session = ''s'', jb_idem = ''k'', jb_status = ''queued'', jb_text = ''hi'', jb_created = 0\<rparr>"
    by (simp add: job_get_def demo_queue_tables)
  have t: "tools (k_manifest (sm_factory echo_manager st sid)) = {''echo''}" for st sid
    by (simp add: echo_manager_def echo_kernel_def)
  from run_job_gated [OF echo_manager_ok ok j r] show ?thesis
    unfolding r t by (simp add: echo_manager_def split_beta)
qed

lemma recovered_not_running: "recovered_status rep \<noteq> ''running''"
  by (simp add: recovered_status_def)

lemma job_get_set_other: "jid \<noteq> i \<Longrightarrow> job_get (job_set_status st i s) jid = job_get st jid"
proof -
  assume "jid \<noteq> i"
  then have "find (\<lambda>r. jb_id r = jid) (map (\<lambda>r. if jb_id r = i then r\<lparr>jb_status := s\<rparr> else r) rs) =
      find (\<lambda>r. jb_id r = jid) rs" for rs
    by (induction rs) auto
  then show ?thesis by (simp add: job_get_def job_set_status_def)
qed

lemma job_set_status_rows:
  "r \<in> set (jobs (job_set_status st i s)) \<Longrightarrow> jb_id r = i \<and> jb_status r = s \<or> jb_id r \<noteq> i \<and> r \<in> set (jobs st)"
  by (auto simp: job_set_status_def)

lemma recover_jobs_rows:
  "store_ok st \<Longrightarrow> recover_jobs js st = (Inr out, st') \<Longrightarrow>
   map rj_job out = map jb_id js \<and>
   (\<forall>r\<in>set (jobs st'). jb_id r \<in> jb_id ` set js \<and> jb_status r \<noteq> ''running'' \<or> r \<in> set (jobs st)) \<and>
   (\<forall>r\<in>set (jobs st'). jb_id r \<in> jb_id ` set js \<longrightarrow> jb_status r \<noteq> ''running'') \<and>
   (\<forall>jid. jid \<notin> jb_id ` set js \<longrightarrow> job_get st' jid = job_get st jid)"
proof (induction js arbitrary: st out st')
  case (Cons j js)
  obtain rep st1 out' where x: "recover (jb_session j) st = (Inr rep, st1)"
    "recover_jobs js (job_set_status st1 (jb_id j) (recovered_status rep)) = (Inr out', st')"
    "out = \<lparr>rj_job = jb_id j, rj_recovery = rc_status rep, rj_status = recovered_status rep\<rparr> # out'"
    using Cons.prems(2) by (auto split: prod.splits sum.splits)
  let ?st2 = "job_set_status st1 (jb_id j) (recovered_status rep)"
  from recover_effect [OF Cons.prems(1) x(1)] have ok: "store_ok ?st2" and same: "jobs st1 = jobs st" by simp_all
  note ih = Cons.IH [OF ok x(2)]
  have get: "job_get st1 k = job_get st k" for k by (simp add: job_get_def same)
  have rows: "r \<in> set (jobs ?st2) \<Longrightarrow> jb_id r = jb_id j \<and> jb_status r \<noteq> ''running'' \<or> jb_id r \<noteq> jb_id j \<and> r \<in> set (jobs st)" for r
    using job_set_status_rows [of r st1 "jb_id j" "recovered_status rep"] recovered_not_running [of rep] same by auto
  have a: "\<forall>r\<in>set (jobs st'). jb_id r \<in> jb_id ` set (j # js) \<and> jb_status r \<noteq> ''running'' \<or> r \<in> set (jobs st)"
    using ih rows by fastforce
  have b: "\<forall>r\<in>set (jobs st'). jb_id r \<in> jb_id ` set (j # js) \<longrightarrow> jb_status r \<noteq> ''running''"
    using ih rows by fastforce
  show ?case using a b ih x(3) by (auto simp: job_get_set_other get)
qed simp

text \<open>Recovery leaves no job running. If \<open>recover_all\<close> returns, it has reported on every job that
  was running, none is running any more, and the status of every other job is what it was.\<close>

theorem recover_all_settles:
  assumes ok: "store_ok st" "jobs_ok st" and r: "recover_all st = (Inr out, st')"
  shows "jobs_by_status st' ''running'' = [] \<and> map rj_job out = map jb_id (jobs_by_status st ''running'') \<and>
    (\<forall>jid job. job_get st jid = Some job \<and> jb_status job \<noteq> ''running'' \<longrightarrow> job_get st' jid = Some job)"
proof -
  let ?js = "jobs_by_status st ''running''"
  have js: "set ?js = {r \<in> set (jobs st). jb_status r = ''running''}" by (auto simp: jobs_by_status_def)
  note rows = recover_jobs_rows [OF ok(1) r [unfolded recover_all_def]]
  have "filter (\<lambda>r. jb_status r = ''running'') (jobs st') = []"
    using rows js by (fastforce simp: filter_empty_conv)
  then have "jobs_by_status st' ''running'' = []" by (simp add: jobs_by_status_def)
  moreover have "job_get st' jid = Some job" if "job_get st jid = Some job" "jb_status job \<noteq> ''running''" for jid job
  proof -
    have j: "job \<in> set (jobs st)" "jb_id job = jid" using that(1) by (auto simp: job_get_def find_Some_iff)
    have "jid \<notin> jb_id ` set ?js"
    proof
      assume "jid \<in> jb_id ` set ?js"
      then obtain q where "q \<in> set (jobs st)" "jb_status q = ''running''" "jb_id q = jid" using js by auto
      with j ok(2) that(2) show False by (auto simp: jobs_ok_def distinct_map dest: inj_onD)
    qed
    with rows that(1) show ?thesis by auto
  qed
  ultimately show ?thesis using rows by auto
qed

definition demo_running :: store where
  "demo_running = note_journal ''s'' ''ASSEMBLE'' [(''task'', JBool True)] (job_set_status demo_queue ''j'' ''running'')"

lemma demo_running_ok: "store_ok demo_running" "jobs_ok demo_running"
proof -
  have q: "store_ok (job_set_status demo_queue ''j'' ''running'')" "jobs_ok demo_queue"
    using enqueue_effect [OF empty_store_ok empty_jobs_ok demo_queue_enqueue] by auto
  show "store_ok demo_running" unfolding demo_running_def by (rule grows_ok [OF note_journal_grows [OF q(1)]]) simp
  show "jobs_ok demo_running" by (simp add: jobs_ok_def demo_running_def job_set_status_def demo_queue_tables)
qed

lemma demo_running_job:
  "jobs demo_running = [\<lparr>jb_id = ''j'', jb_session = ''s'', jb_idem = ''k'', jb_status = ''running'', jb_text = ''hi'', jb_created = 0\<rparr>]"
  by (simp add: demo_running_def job_set_status_def demo_queue_tables)

lemma demo_running_tail:
  "\<exists>n p. journal_tail demo_running ''s'' = Inr (Some \<lparr>je_seq = n, je_state = ''ASSEMBLE'', je_payload = p\<rparr>)"
proof -
  have ok: "store_ok (job_set_status demo_queue ''j'' ''running'')"
    using enqueue_effect [OF empty_store_ok empty_jobs_ok demo_queue_enqueue] by auto
  show ?thesis unfolding demo_running_def
    using journal_tail_view journal_view_note [OF ok, of "[(''task'', JBool True)]" "''s''" "''ASSEMBLE''"] by fastforce
qed

theorem recover_all_settles_witness:
  "\<exists>out st'. recover_all demo_running = (Inr out, st') \<and> map rj_job out = [''j''] \<and> jobs_by_status st' ''running'' = []"
proof -
  obtain n p where t: "journal_tail demo_running ''s'' = Inr (Some \<lparr>je_seq = n, je_state = ''ASSEMBLE'', je_payload = p\<rparr>)"
    using demo_running_tail by blast
  have js: "jobs_by_status demo_running ''running'' = jobs demo_running" by (simp add: jobs_by_status_def demo_running_job)
  obtain out st' where r: "recover_all demo_running = (Inr out, st')"
    unfolding recover_all_def js demo_running_job by (simp add: recover_def t)
  from recover_all_settles [OF demo_running_ok r] r show ?thesis by (auto simp: js demo_running_job)
qed

text \<open>A job cut off between two records counts as done. If the process dies while a job runs and the
  session's journal ends neither in a model-call intent nor in an execution intent, for instance right
  after the run began, recovery marks the job done although the run never reached its end, and
  running it again answers done without running anything.\<close>

theorem interrupted_job_marked_done:
  assumes run: "jobs_by_status st ''running'' = [job]" and ids: "jobs_ok st"
    and tail: "journal_tail st (jb_session job) = Inr (Some e)"
    and state: "je_state e \<notin> {''MODEL_CALL_INTENT'', ''EXEC_INTENT'', ''FINALIZE''}"
  shows "\<exists>st'. recover_all st = (Inr [\<lparr>rj_job = jb_id job, rj_recovery = ''clean'', rj_status = ''done''\<rparr>], st') \<and>
    journal st' = journal st \<and> messages st' = messages st \<and>
    run_job m (jb_id job) (st', w) = (Inr (terminal_result (job\<lparr>jb_status := ''done''\<rparr>) ''done''), st', w)"
proof -
  have "job \<in> set (jobs_by_status st ''running'')" using run by simp
  then have mem: "job \<in> set (jobs st)" by (simp add: jobs_by_status_def)
  let ?st' = "job_set_status st (jb_id job) ''done''"
  have "find (\<lambda>r. jb_id r = jb_id job) rs = Some job \<Longrightarrow>
      find (\<lambda>r. jb_id r = jb_id job) (map (\<lambda>r. if jb_id r = jb_id job then r\<lparr>jb_status := ''done''\<rparr> else r) rs) = Some (job\<lparr>jb_status := ''done''\<rparr>)" for rs
    by (induction rs) (auto split: if_splits)
  moreover have "find (\<lambda>r. jb_id r = jb_id job) (jobs st) = Some job"
  proof -
    obtain r where r: "find (\<lambda>r. jb_id r = jb_id job) (jobs st) = Some r"
      using mem by (cases "find (\<lambda>r. jb_id r = jb_id job) (jobs st)") (auto simp: find_None_iff)
    then have "r \<in> set (jobs st)" "jb_id r = jb_id job" by (auto simp: find_Some_iff)
    with mem ids r show ?thesis by (auto simp: jobs_ok_def distinct_map dest: inj_onD)
  qed
  ultimately have "job_get ?st' (jb_id job) = Some (job\<lparr>jb_status := ''done''\<rparr>)"
    by (simp add: job_get_def job_set_status_def)
  then have "run_job m (jb_id job) (?st', w) = (Inr (terminal_result (job\<lparr>jb_status := ''done''\<rparr>) ''done''), ?st', w)"
    by (simp add: run_job_def)
  moreover have "recover_all st = (Inr [\<lparr>rj_job = jb_id job, rj_recovery = ''clean'', rj_status = ''done''\<rparr>], ?st')"
    using tail state by (simp add: recover_all_def run recover_def report_def recovered_status_def)
  ultimately show ?thesis by auto
qed

theorem interrupted_job_marked_done_witness:
  "\<exists>st' r. recover_all demo_running = (Inr [\<lparr>rj_job = ''j'', rj_recovery = ''clean'', rj_status = ''done''\<rparr>], st') \<and>
     messages st' = messages demo_running \<and> run_job echo_manager ''j'' (st', 0) = (Inr r, st', 0)"
proof -
  let ?job = "\<lparr>jb_id = ''j'', jb_session = ''s'', jb_idem = ''k'', jb_status = ''running'', jb_text = ''hi'', jb_created = 0\<rparr>"
  obtain n p where t: "journal_tail demo_running (jb_session ?job) = Inr (Some \<lparr>je_seq = n, je_state = ''ASSEMBLE'', je_payload = p\<rparr>)"
    using demo_running_tail by auto
  have js: "jobs_by_status demo_running ''running'' = [?job]" by (simp add: jobs_by_status_def demo_running_job)
  from interrupted_job_marked_done [OF js demo_running_ok(2) t, of echo_manager 0] show ?thesis by auto
qed

text \<open>Resuming a job that is not waiting demotes it. Whatever the status of a job, done included,
  \<open>resume_job\<close> on a session whose journal does not end in an awaited approval answers
  \<open>resume_noop\<close>, touches nothing of the session, and sets the job to \<open>needs_review\<close>.\<close>

theorem resume_demotes:
  assumes "job_get st jid = Some job" and "journal_tail st (jb_session job) = Inr t"
    and "\<forall>e. t = Some e \<longrightarrow> je_state e \<noteq> ''AWAITING_APPROVAL''"
  shows "resume_job m jid (st, w) =
    (Inr (resume_result (jb_session job) ''resume_noop'' None), job_set_status st jid ''needs_review'', w)"
  using assms by (cases t) (simp_all add: resume_job_def kernel_resume_def resume_result_def status_for_def)

theorem resume_demotes_witness:
  "let st = job_set_status demo_running ''j'' ''done'' in
   snd (resume_job echo_manager ''j'' (st, 0)) = (job_set_status st ''j'' ''needs_review'', 0)"
proof -
  let ?st = "job_set_status demo_running ''j'' ''done''"
  let ?job = "\<lparr>jb_id = ''j'', jb_session = ''s'', jb_idem = ''k'', jb_status = ''done'', jb_text = ''hi'', jb_created = 0\<rparr>"
  have j: "job_get ?st ''j'' = Some ?job" by (simp add: job_get_def job_set_status_def demo_running_job)
  obtain n p where "journal_tail demo_running ''s'' = Inr (Some \<lparr>je_seq = n, je_state = ''ASSEMBLE'', je_payload = p\<rparr>)"
    using demo_running_tail by blast
  then have t: "journal_tail ?st (jb_session ?job) = Inr (Some \<lparr>je_seq = n, je_state = ''ASSEMBLE'', je_payload = p\<rparr>)"
    using journal_reads_frame [of ?st demo_running] by simp
  from resume_demotes [OF j t, of echo_manager 0] show ?thesis by simp
qed

end
