(* ===== verification/Admission.thy ===== *)
theory Admission
  imports State Packages
begin

text \<open>
  Who may do what: roles (\<open>scr/rbac.py\<close>), seats (\<open>scr/seats.py\<close>) and offline licenses
  (\<open>scr/license.py\<close>). A license's expiry time and the current time are whole seconds; its text is
  read by the JSON reader, whose non-standard numbers stay outside.
\<close>

subsection \<open>Roles\<close>

definition ROLES :: "string list" where
  "ROLES = [''admin'', ''operator'', ''auditor'', ''viewer'']"

definition MATRIX :: "(string \<times> string list) list" where
  "MATRIX =
    [(''run'', [''admin'', ''operator'']), (''cancel'', [''admin'', ''operator'']), (''approve'', [''admin'', ''operator'']),
     (''read_status'', [''admin'', ''operator'', ''auditor'', ''viewer'']),
     (''read_ledger'', [''admin'', ''operator'', ''auditor'']), (''export_evidence'', [''admin'', ''operator'', ''auditor'']),
     (''manage_tokens'', [''admin'']), (''install_package'', [''admin''])]"

definition permitted :: "string \<Rightarrow> string \<Rightarrow> bool" where
  "permitted rol action \<longleftrightarrow> rol \<in> set (case dict_get MATRIX action of None \<Rightarrow> [] | Some rs \<Rightarrow> rs)"

definition access_denied :: "string \<Rightarrow> py_exn" where
  "access_denied msg = mk_exn ''AccessDenied'' msg"

definition require :: "string option \<Rightarrow> string \<Rightarrow> py_exn + unit" where
  "require rol action =
     (case rol of
        None \<Rightarrow> Inl (access_denied ''no authenticated subject'')
      | Some r \<Rightarrow>
          if r \<notin> set ROLES then Inl (access_denied (''unknown role: '' @ py_repr r))
          else if \<not> permitted r action then Inl (access_denied (''role '' @ py_repr r @ '' may not '' @ py_repr action))
          else Inr ())"

text \<open>Deny by default, and the roles are ordered. An action passes only for a known role that the
  matrix lists for it, so an unknown action, an unknown role or no role is denied; and whatever a
  viewer may do an auditor may, whatever an auditor may an operator may, and whatever any role may
  do the administrator may.\<close>

theorem require_deny_by_default:
  "(require rol action = Inr () \<longleftrightarrow>
      (\<exists>r rs. rol = Some r \<and> r \<in> set ROLES \<and> dict_get MATRIX action = Some rs \<and> r \<in> set rs)) \<and>
   (require (Some ''viewer'') action = Inr () \<longrightarrow> require (Some ''auditor'') action = Inr ()) \<and>
   (require (Some ''auditor'') action = Inr () \<longrightarrow> require (Some ''operator'') action = Inr ()) \<and>
   (require rol action = Inr () \<longrightarrow> require (Some ''admin'') action = Inr ())"
proof -
  have iff: "require x action = Inr () \<longleftrightarrow>
      (\<exists>r rs. x = Some r \<and> r \<in> set ROLES \<and> dict_get MATRIX action = Some rs \<and> r \<in> set rs)" for x
    by (cases x; cases "dict_get MATRIX action") (auto simp: require_def permitted_def)
  have m: "(''viewer'' \<in> set rs \<longrightarrow> ''auditor'' \<in> set rs) \<and>
      (''auditor'' \<in> set rs \<longrightarrow> ''operator'' \<in> set rs) \<and> ''admin'' \<in> set rs" if "dict_get MATRIX action = Some rs" for rs
  proof -
    have "\<forall>p\<in>set MATRIX. (''viewer'' \<in> set (snd p) \<longrightarrow> ''auditor'' \<in> set (snd p)) \<and>
      (''auditor'' \<in> set (snd p) \<longrightarrow> ''operator'' \<in> set (snd p)) \<and> ''admin'' \<in> set (snd p)" by code_simp
    from bspec [OF this map_of_SomeD [OF that [unfolded dict_get_def]]] show ?thesis by simp
  qed
  have r: "''admin'' \<in> set ROLES" "''operator'' \<in> set ROLES" "''auditor'' \<in> set ROLES" by (simp_all add: ROLES_def)
  show ?thesis unfolding iff using m r by blast
qed

theorem require_deny_by_default_witness:
  "require (Some ''operator'') ''run'' = Inr () \<and> require (Some ''admin'') ''run'' = Inr ()"
proof -
  have "require (Some ''operator'') ''run'' = Inr ()"
    using require_deny_by_default [of "Some ''operator''" "''run''"] by (simp add: ROLES_def MATRIX_def)
  with require_deny_by_default [of "Some ''operator''" "''run''"] show ?thesis by blast
qed

subsection \<open>Seats\<close>

text \<open>The holders in the table, by subject; the time of acquisition is written and never read.\<close>

definition seats_active :: "store \<Rightarrow> nat" where
  "seats_active st = length (seat_holders st)"

definition seat_holds :: "store \<Rightarrow> string \<Rightarrow> bool" where
  "seat_holds st subject \<longleftrightarrow> subject \<in> set (seat_holders st)"

definition seats_exhausted :: "int \<Rightarrow> string \<Rightarrow> py_exn" where
  "seats_exhausted seats subject =
     mk_exn ''SeatsExhausted'' (''license seat limit reached ('' @ int_str seats @ ''); cannot admit '' @ py_repr subject)"

definition seat_acquire :: "int \<Rightarrow> string \<Rightarrow> store \<Rightarrow> (py_exn + unit) \<times> store" where
  "seat_acquire seats subject st =
     (if seat_holds st subject then (Inr (), st)
      else if int (seats_active st) \<ge> seats then (Inl (seats_exhausted seats subject), st)
      else (Inr (), st\<lparr>seat_holders := seat_holders st @ [subject]\<rparr>))"

definition seat_release :: "string \<Rightarrow> store \<Rightarrow> store" where
  "seat_release subject st = st\<lparr>seat_holders := filter (\<lambda>s. s \<noteq> subject) (seat_holders st)\<rparr>"

datatype seat_op = Acquire string | Release string

fun seat_step :: "int \<Rightarrow> seat_op \<Rightarrow> store \<Rightarrow> store" where
  "seat_step seats (Acquire s) st = snd (seat_acquire seats s st)"
| "seat_step seats (Release s) st = seat_release s st"

definition seats_ok :: "int \<Rightarrow> store \<Rightarrow> bool" where
  "seats_ok seats st \<longleftrightarrow> distinct (seat_holders st) \<and> int (seats_active st) \<le> max 0 seats"

lemma seat_step_ok: "seats_ok seats st \<Longrightarrow> seats_ok seats (seat_step seats op st)"
proof (cases op)
  case (Release s)
  moreover assume "seats_ok seats st"
  moreover have "length (filter (\<lambda>x. x \<noteq> s) (seat_holders st)) \<le> length (seat_holders st)" by simp
  ultimately show ?thesis by (auto simp: seats_ok_def seat_release_def seats_active_def simp del: length_filter_le)
qed (auto simp: seats_ok_def seat_acquire_def seat_holds_def seats_active_def)

text \<open>Seats are never oversold. Over any sequence of acquisitions and releases, by any subjects, the
  number of distinct holders stays within the licensed count; a holder re-acquires without effect; and
  an acquisition is refused only when the subject holds no seat and every seat is taken.\<close>

theorem seats_never_oversold:
  assumes "seats_ok seats st"
  shows "seats_ok seats (fold (seat_step seats) ops st) \<and>
    (\<forall>s. seat_holds (fold (seat_step seats) ops st) s \<longrightarrow>
       seat_acquire seats s (fold (seat_step seats) ops st) = (Inr (), fold (seat_step seats) ops st)) \<and>
    (\<forall>s e st'. seat_acquire seats s (fold (seat_step seats) ops st) = (Inl e, st') \<longrightarrow>
       int (seats_active (fold (seat_step seats) ops st)) = max 0 seats \<and> st' = fold (seat_step seats) ops st)"
proof -
  have ok: "seats_ok seats (fold (seat_step seats) ops st)"
    using assms by (induction ops arbitrary: st) (simp_all add: seat_step_ok)
  then show ?thesis
    by (auto simp: seat_acquire_def seats_ok_def max_def split: if_splits)
qed

theorem seats_never_oversold_witness:
  "seats_active (fold (seat_step 1) [Acquire ''a'', Acquire ''b'', Release ''a'', Acquire ''b''] empty_store) \<le> 1"
proof -
  have "seats_ok 1 empty_store" by (simp add: seats_ok_def seats_active_def empty_store_def)
  from seats_never_oversold [OF this, of "[Acquire ''a'', Acquire ''b'', Release ''a'', Acquire ''b'']"] show ?thesis
    by (simp add: seats_ok_def del: fold.simps)
qed

subsection \<open>Licenses\<close>

text \<open>
  The check of a license. Its expiry is a floating-point number in the code, so reading the text and
  printing the signed payload are given: \<open>parsed\<close> is what \<open>License.parse\<close> returned or
  raised, \<open>payload\<close> what \<open>_payload\<close> yields. Times are whole seconds.
\<close>

record license =
  lic_subject :: string
  lic_seats :: int
  lic_features :: "string list"
  lic_not_after :: int
  lic_public_key :: string
  lic_signature :: string

record license_status =
  ls_state :: string
  ls_reason :: string

definition may_run :: "license_status \<Rightarrow> bool" where
  "may_run s \<longleftrightarrow> ls_state s = ''valid''"

definition may_read_evidence :: "license_status \<Rightarrow> bool" where
  "may_read_evidence s \<longleftrightarrow> ls_state s \<in> {''valid'', ''grace''}"

definition license_issue ::
  "ed25519 \<Rightarrow> (license \<Rightarrow> byte list) \<Rightarrow> string \<Rightarrow> int \<Rightarrow> string list \<Rightarrow> int \<Rightarrow> string \<Rightarrow> string \<Rightarrow> py_exn + license" where
  "license_issue ed payload subject seats features not_after private_key_hex public_key_hex =
     (let lic = \<lparr>lic_subject = subject, lic_seats = seats, lic_features = features, lic_not_after = not_after,
            lic_public_key = public_key_hex, lic_signature = []\<rparr> in
      case sign ed private_key_hex (payload lic) of Inl e \<Rightarrow> Inl e | Inr sg \<Rightarrow> Inr (lic\<lparr>lic_signature := sg\<rparr>))"

definition license_check ::
  "ed25519 \<Rightarrow> (license \<Rightarrow> byte list) \<Rightarrow> py_exn + license \<Rightarrow> string \<Rightarrow> int \<Rightarrow> py_exn + license_status" where
  "license_check ed payload parsed trusted now =
     (case parsed of
        Inl e \<Rightarrow> if isinstance e ''JSONDecodeError'' \<or> isinstance e ''KeyError'' \<or> isinstance e ''ValueError''
                 then Inr \<lparr>ls_state = ''invalid'', ls_reason = ''malformed license''\<rparr> else Inl e
      | Inr lic \<Rightarrow>
          if lic_public_key lic \<noteq> trusted
          then Inr \<lparr>ls_state = ''invalid'', ls_reason = ''license not signed by the trusted key''\<rparr>
          else if \<not> verify ed (lic_public_key lic) (lic_signature lic) (payload lic)
          then Inr \<lparr>ls_state = ''invalid'', ls_reason = ''signature does not verify''\<rparr>
          else if now > lic_not_after lic
          then Inr \<lparr>ls_state = ''grace'', ls_reason = ''license expired - read-only evidence access only''\<rparr>
          else Inr \<lparr>ls_state = ''valid'', ls_reason = []\<rparr>)"

text \<open>A license degrades and never bricks. A license issued with the trusted key, whose payload does not
  cover its own signature field, lets runs start until it expires and always lets evidence be read, also
  after expiry; a license that names another key or does not verify allows neither.\<close>

theorem license_degrades:
  assumes ed: "ed_correct ed" and p: "\<And>l sg. payload (l\<lparr>lic_signature := sg\<rparr>) = payload l"
    and key: "private_bytes sk = Inr skb" and i: "license_issue ed payload subj seats feats na sk (hex (ed_public ed skb)) = Inr lic"
  shows "\<exists>s. license_check ed payload (Inr lic) (hex (ed_public ed skb)) now = Inr s \<and>
      (may_run s \<longleftrightarrow> now \<le> na) \<and> may_read_evidence s \<and>
    (\<forall>other trusted s'. license_check ed payload (Inr other) trusted now = Inr s' \<and>
       (lic_public_key other \<noteq> trusted \<or> \<not> verify ed trusted (lic_signature other) (payload other)) \<longrightarrow>
       \<not> may_run s' \<and> \<not> may_read_evidence s')"
proof -
  let ?l = "\<lparr>lic_subject = subj, lic_seats = seats, lic_features = feats, lic_not_after = na,
      lic_public_key = hex (ed_public ed skb), lic_signature = []\<rparr>"
  have lic: "lic = ?l\<lparr>lic_signature := hex (ed_sign ed skb (payload ?l))\<rparr>"
    using i key by (simp add: license_issue_def sign_def Let_def)
  have pay: "payload lic = payload ?l" unfolding lic by (rule p)
  have sg: "lic_signature lic = hex (ed_sign ed skb (payload ?l))" by (simp add: lic)
  have "length skb = 32" using key by (auto simp: private_bytes_def split: option.splits if_splits)
  then have "verify ed (hex (ed_public ed skb)) (lic_signature lic) (payload lic)"
    using ed pay sg by (simp add: verify_def fromhex_hex ed_correct_def)
  then have "\<exists>s. license_check ed payload (Inr lic) (hex (ed_public ed skb)) now = Inr s \<and> (may_run s \<longleftrightarrow> now \<le> na) \<and> may_read_evidence s"
    by (simp add: license_check_def may_run_def may_read_evidence_def lic)
  then show ?thesis by (auto simp: license_check_def may_run_def may_read_evidence_def split: if_splits)
qed

theorem license_degrades_witness:
  "\<exists>lic s. license_issue lax_ed (\<lambda>l. encode (lic_subject l)) ''acme'' 5 [] 100 demo_key demo_key = Inr lic \<and>
     license_check lax_ed (\<lambda>l. encode (lic_subject l)) (Inr lic) demo_key 200 = Inr s \<and> \<not> may_run s \<and> may_read_evidence s"
proof -
  have k: "private_bytes demo_key = Inr (replicate 32 7)" by (simp add: private_bytes_def demo_key_def fromhex_hex)
  have h: "hex (ed_public lax_ed (replicate 32 7)) = demo_key" by (simp add: lax_ed_def demo_key_def)
  obtain lic where "license_issue lax_ed (\<lambda>l. encode (lic_subject l)) ''acme'' 5 [] 100 demo_key (hex (ed_public lax_ed (replicate 32 7))) = Inr lic"
    by (simp add: license_issue_def sign_def k Let_def)
  with license_degrades [OF lax_ed_correct _ k this, of 200] show ?thesis unfolding h by auto
qed

end
