(* ===== verification/Service.thy ===== *)
theory Service
  imports Sessions Admission
begin

text \<open>
  The service (\<open>scr/service.py\<close>) and its metrics (\<open>scr/observability.py\<close>). A request is a route with its path and body,
  the \<open>Authorization\<close> header and the ids and the time drawn while it is served; the framework's routing, body validation
  and transport stay outside, and an exception that no handler catches is the reply \<open>Failed\<close>. Whether a host is the
  address of a loopback interface is decided by the \<open>ipaddress\<close> library, given as an argument: \<open>None\<close> is its
  \<open>ValueError\<close>. A counter is a whole number, and its float format is an argument.
\<close>

subsection \<open>Binding\<close>

definition check_bind :: "(string \<Rightarrow> bool option) \<Rightarrow> string \<Rightarrow> bool \<Rightarrow> bool \<Rightarrow> py_exn + unit" where
  "check_bind ip_loopback host tls auth =
     (let is_loopback = (case ip_loopback host of Some b \<Rightarrow> b | None \<Rightarrow> host \<in> set [''localhost'']) in
      if \<not> is_loopback \<and> \<not> (tls \<and> auth)
      then Inl (mk_exn ''BindRefused'' (''refusing non-loopback bind to '' @ py_repr host @ '' without TLS and auth''))
      else Inr ())"

subsection \<open>Metrics\<close>

record metrics =
  mt_enabled :: bool
  mt_counters :: "(string \<times> nat) list"
  mt_gauges :: "(string \<times> nat) list"

definition inc :: "string \<Rightarrow> nat \<Rightarrow> metrics \<Rightarrow> metrics" where
  "inc name amount m =
     (if \<not> mt_enabled m then m
      else m\<lparr>mt_counters := dict_set name ((case dict_get (mt_counters m) name of None \<Rightarrow> 0 | Some n \<Rightarrow> n) + amount) (mt_counters m)\<rparr>)"

definition observe :: "string \<Rightarrow> nat \<Rightarrow> metrics \<Rightarrow> metrics" where
  "observe name val m = (if \<not> mt_enabled m then m else m\<lparr>mt_gauges := dict_set name val (mt_gauges m)\<rparr>)"

definition render_lines :: "(nat \<Rightarrow> string) \<Rightarrow> string \<Rightarrow> (string \<times> nat) list \<Rightarrow> string list" where
  "render_lines show_float kind items =
     concat (map (\<lambda>(name, val). [''# TYPE '' @ name @ '' '' @ kind, name @ '' '' @ show_float val]) (sort_key fst items))"

definition render_prometheus :: "(nat \<Rightarrow> string) \<Rightarrow> metrics \<Rightarrow> string" where
  "render_prometheus show_float m =
     (if \<not> mt_enabled m then []
      else let lines = render_lines show_float ''counter'' (mt_counters m) @ render_lines show_float ''gauge'' (mt_gauges m) in
           join [CHR 10] lines @ (if lines \<noteq> [] then [CHR 10] else []))"

subsection \<open>Requests\<close>

datatype route =
    CreateRun string string
  | GetJob string
  | ListJobs
  | CancelJob string
  | Approve string string string
  | Deny string string string
  | ReadLedger string
  | Metrics
  | Events string

record request_env =
  rq_now :: int
  rq_session :: string
  rq_job :: string

datatype reply = Reply int json | Plain string | Stream "json list" "int option" | Failed py_exn

record 'w service_state =
  sv_store :: store
  sv_world :: 'w
  sv_metrics :: metrics
  sv_runs :: run_table

definition http_error :: "int \<Rightarrow> string \<Rightarrow> reply" where
  "http_error status_code detail = Reply status_code (JObj [(''detail'', JStr detail)])"

definition bearer :: "string \<Rightarrow> string" where
  "bearer authorization = (if startswith authorization ''Bearer '' then drop 7 authorization else authorization)"

definition auth :: "store \<Rightarrow> string \<Rightarrow> reply + string \<times> string" where
  "auth st authorization =
     (case token_get st (bearer authorization) of None \<Rightarrow> Inl (http_error 401 ''invalid or missing token'') | Some s \<Rightarrow> Inr s)"

definition guard :: "store \<Rightarrow> string \<Rightarrow> string \<Rightarrow> reply + string \<times> string" where
  "guard st action authorization =
     rbind (auth st authorization) (\<lambda>(subject, rl).
       case require (Some rl) action of
         Inl e \<Rightarrow> if isinstance e ''AccessDenied'' then Inl (http_error 403 (exn_msg e)) else Inl (Failed e)
       | Inr _ \<Rightarrow> Inr (subject, rl))"

definition opt_str :: "string option \<Rightarrow> json" where
  "opt_str x = (case x of None \<Rightarrow> JNull | Some s \<Rightarrow> JStr s)"

definition job_json :: "job_row \<Rightarrow> json" where
  "job_json r = JObj [(''job_id'', JStr (jb_id r)), (''session_id'', JStr (jb_session r)), (''idem_key'', JStr (jb_idem r)),
     (''status'', JStr (jb_status r)), (''user_text'', JStr (jb_text r))]"

definition job_brief :: "job_row \<Rightarrow> json" where
  "job_brief r = JObj [(''job_id'', JStr (jb_id r)), (''session_id'', JStr (jb_session r)), (''status'', JStr (jb_status r))]"

definition no_such_job :: reply where
  "no_such_job = http_error 404 ''no such job''"

definition create_run ::
  "'w session_manager \<Rightarrow> request_env \<Rightarrow> string \<Rightarrow> string \<Rightarrow> 'w service_state \<Rightarrow> reply \<times> 'w service_state" where
  "create_run m env user_text key s =
     (let s1 = s\<lparr>sv_metrics := inc ''scr_runs_total'' 1 (sv_metrics s)\<rparr> in
      case enqueue (rq_now env) (rq_session env) (rq_job env) user_text key (sv_store s1) of
        (Inl e, st2) \<Rightarrow> (Failed e, s1\<lparr>sv_store := st2\<rparr>)
      | (Inr job, st2) \<Rightarrow>
          (case run_job m (jr_job_id job) (st2, sv_world s1) of
             (Inl e, st3, w3) \<Rightarrow> (Failed e, s1\<lparr>sv_store := st3, sv_world := w3\<rparr>)
           | (Inr result, st3, w3) \<Rightarrow>
               (Reply 200 (JObj [(''job_id'', JStr (jr_job_id job)), (''session_id'', JStr (jr_job_session job)),
                  (''deduped'', JBool (jr_deduped job)), (''stopped_reason'', JStr (rr_stopped result)),
                  (''final_text'', JStr (rr_final_text result)), (''pending_approval'', opt_str (rr_pending result))]),
                s1\<lparr>sv_store := st3, sv_world := w3,
                   sv_metrics := inc (''scr_run_'' @ rr_stopped result @ ''_total'') 1 (sv_metrics s1)\<rparr>)))"

definition get_job :: "string \<Rightarrow> 'w service_state \<Rightarrow> reply" where
  "get_job jid s = (case job_status (sv_store s) jid of None \<Rightarrow> no_such_job | Some job \<Rightarrow> Reply 200 (job_json job))"

definition cancel_job :: "string \<Rightarrow> 'w service_state \<Rightarrow> reply \<times> 'w service_state" where
  "cancel_job jid s =
     (if job_status (sv_store s) jid = None then (no_such_job, s)
      else (case cancel jid (sv_store s, sv_runs s) of (st', rt') \<Rightarrow>
        (Reply 200 (JObj [(''job_id'', JStr jid), (''status'', JStr ''cancelled'')]), s\<lparr>sv_store := st', sv_runs := rt'\<rparr>)))"

text \<open>Approving and denying differ in the kernel's operation and in the pending approval of the answer.\<close>

definition decide ::
  "(string \<Rightarrow> string \<Rightarrow> string \<Rightarrow> store \<Rightarrow> store) \<Rightarrow> (run_result \<Rightarrow> dict) \<Rightarrow> 'w session_manager \<Rightarrow> string \<Rightarrow> string \<Rightarrow> string \<Rightarrow>
   'w service_state \<Rightarrow> reply \<times> 'w service_state" where
  "decide decision rest m jid aid approver s =
     (case job_status (sv_store s) jid of
        None \<Rightarrow> (no_such_job, s)
      | Some job \<Rightarrow>
          (case resume_job m jid (decision (jb_session job) aid approver (sv_store s), sv_world s) of
             (Inl e, st2, w2) \<Rightarrow> (Failed e, s\<lparr>sv_store := st2, sv_world := w2\<rparr>)
           | (Inr result, st2, w2) \<Rightarrow>
               (Reply 200 (JObj ([(''job_id'', JStr jid), (''stopped_reason'', JStr (rr_stopped result)),
                  (''final_text'', JStr (rr_final_text result))] @ rest result)),
                s\<lparr>sv_store := st2, sv_world := w2\<rparr>)))"

definition approve_job :: "'w session_manager \<Rightarrow> string \<Rightarrow> string \<Rightarrow> string \<Rightarrow> 'w service_state \<Rightarrow> reply \<times> 'w service_state" where
  "approve_job m jid aid approver = decide approve (\<lambda>r. [(''pending_approval'', opt_str (rr_pending r))]) m jid aid approver"

definition deny_job :: "'w session_manager \<Rightarrow> string \<Rightarrow> string \<Rightarrow> string \<Rightarrow> 'w service_state \<Rightarrow> reply \<times> 'w service_state" where
  "deny_job m jid aid approver = decide deny (\<lambda>r. []) m jid aid approver"

definition read_ledger :: "string \<Rightarrow> 'w service_state \<Rightarrow> reply" where
  "read_ledger sid s =
     (let v = ledger_verify (sv_store s) sid None in
      Reply 200 (JObj [(''session_id'', JStr sid), (''ok'', JBool (vr_ok v)), (''count'', JInt (int (vr_count v))),
        (''head'', JStr (vr_head v)), (''error'', opt_str (vr_error v))]))"

definition metrics_endpoint :: "(nat \<Rightarrow> string) \<Rightarrow> 'w service_state \<Rightarrow> reply" where
  "metrics_endpoint show_float s =
     (if \<not> mt_enabled (sv_metrics s) then http_error 404 ''metrics disabled'' else Plain (render_prometheus show_float (sv_metrics s)))"

definition ws_events :: "string \<Rightarrow> string \<Rightarrow> 'w service_state \<Rightarrow> reply" where
  "ws_events authorization jid s =
     (case token_get (sv_store s) (bearer authorization) of
        None \<Rightarrow> Stream [] (Some 4401)
      | Some (subject, rl) \<Rightarrow>
          (case require (Some rl) ''read_status'' of
             Inl e \<Rightarrow> if isinstance e ''AccessDenied'' then Stream [] (Some 4403) else Failed e
           | Inr _ \<Rightarrow>
               (case job_status (sv_store s) jid of
                  None \<Rightarrow> Stream [] (Some 4404)
                | Some job \<Rightarrow>
                    (case journal_all (sv_store s) (jb_session job) of
                       Inl e \<Rightarrow> Failed e
                     | Inr es \<Rightarrow> Stream (map (\<lambda>e. JObj [(''seq'', JInt (int (je_seq e))), (''state'', JStr (je_state e))]) es) None))))"

text \<open>The action that a route is guarded by; \<open>None\<close> where no dependency is declared.\<close>

fun route_action :: "route \<Rightarrow> string option" where
  "route_action (CreateRun _ _) = Some ''run''"
| "route_action (GetJob _) = Some ''read_status''"
| "route_action ListJobs = Some ''read_status''"
| "route_action (CancelJob _) = Some ''cancel''"
| "route_action (Approve _ _ _) = Some ''approve''"
| "route_action (Deny _ _ _) = Some ''approve''"
| "route_action (ReadLedger _) = Some ''read_ledger''"
| "route_action Metrics = None"
| "route_action (Events _) = None"

fun handle_route ::
  "'w session_manager \<Rightarrow> (nat \<Rightarrow> string) \<Rightarrow> request_env \<Rightarrow> string \<Rightarrow> route \<Rightarrow> 'w service_state \<Rightarrow> reply \<times> 'w service_state" where
  "handle_route m show_float env authorization (CreateRun user_text key) s = create_run m env user_text key s"
| "handle_route m show_float env authorization (GetJob jid) s = (get_job jid s, s)"
| "handle_route m show_float env authorization ListJobs s =
     (Reply 200 (JObj [(''jobs'', JArr (map job_brief (list_jobs (sv_store s))))]), s)"
| "handle_route m show_float env authorization (CancelJob jid) s = cancel_job jid s"
| "handle_route m show_float env authorization (Approve jid aid approver) s = approve_job m jid aid approver s"
| "handle_route m show_float env authorization (Deny jid aid approver) s = deny_job m jid aid approver s"
| "handle_route m show_float env authorization (ReadLedger sid) s = (read_ledger sid s, s)"
| "handle_route m show_float env authorization Metrics s = (metrics_endpoint show_float s, s)"
| "handle_route m show_float env authorization (Events jid) s = (ws_events authorization jid s, s)"

definition serve ::
  "'w session_manager \<Rightarrow> (nat \<Rightarrow> string) \<Rightarrow> request_env \<Rightarrow> string \<Rightarrow> route \<Rightarrow> 'w service_state \<Rightarrow> reply \<times> 'w service_state" where
  "serve m show_float env authorization rt s =
     (case route_action rt of
        None \<Rightarrow> handle_route m show_float env authorization rt s
      | Some action \<Rightarrow>
          (case guard (sv_store s) action authorization of
             Inl r \<Rightarrow> (r, s)
           | Inr _ \<Rightarrow> handle_route m show_float env authorization rt s))"

text \<open>The manager of the service has no package guard.\<close>

definition app_manager :: "(store \<Rightarrow> string \<Rightarrow> 'w kernel) \<Rightarrow> (string \<Rightarrow> 'w \<Rightarrow> bool \<times> 'w) \<Rightarrow> 'w session_manager" where
  "app_manager factory flag = \<lparr>sm_factory = factory, sm_guard = None, sm_flag = flag\<rparr>"

subsection \<open>What requests leave in place\<close>

text \<open>\<open>lasting st st'\<close>: the tables are sound again, and every journal, ledger and job that was there is still there.\<close>

definition lasting :: "store \<Rightarrow> store \<Rightarrow> bool" where
  "lasting st st' \<longleftrightarrow> store_ok st' \<and> jobs_ok st' \<and> prefix (job_idents st) (job_idents st') \<and>
     (\<forall>sid. prefix (journal_view st sid) (journal_view st' sid) \<and> prefix (ledger_view st sid) (ledger_view st' sid))"

lemma lasting_refl: "store_ok st \<Longrightarrow> jobs_ok st \<Longrightarrow> lasting st st"
  by (simp add: lasting_def)

lemma lasting_trans: "lasting a b \<Longrightarrow> lasting b c \<Longrightarrow> lasting a c"
  unfolding lasting_def by (meson prefix_order.trans)

lemma lasting_frame:
  assumes "store_ok st" "jobs_ok st" "job_idents st' = job_idents st" "journal st' = journal st" "ledger st' = ledger st"
  shows "lasting st st'"
  using assms store_ok_frame [of st' st] jobs_ok_same [of st' st]
  by (simp add: lasting_def journal_view_def ledger_view_def journal_rows_def ledger_rows_def)

lemma lasting_grows: "grows st st' \<Longrightarrow> jobs_ok st \<Longrightarrow> lasting st st'"
  by (simp add: lasting_def grows_def job_idents_def jobs_ok_def)

lemma lasting_set_status: "store_ok st \<Longrightarrow> jobs_ok st \<Longrightarrow> lasting st (job_set_status st jid x)"
  by (rule lasting_frame) simp_all

lemma lasting_set_session: "store_ok st \<Longrightarrow> jobs_ok st \<Longrightarrow> lasting st (set_session_status st jid x)"
  by (rule lasting_frame) simp_all

lemma lasting_ok: "lasting st st' \<Longrightarrow> store_ok st'" "lasting st st' \<Longrightarrow> jobs_ok st'"
  by (simp_all add: lasting_def)

lemma enqueue_lasting:
  assumes "store_ok st" "jobs_ok st" "enqueue now fs fj txt key st = (r, st')"
  shows "lasting st st'"
proof -
  have "journal st' = journal st" "ledger st' = ledger st"
    using assms(3) create_session_frame [of st None fs]
    by (auto simp: enqueue_def job_upsert_def split: sum.splits option.splits if_splits prod.splits)
  then show ?thesis using enqueue_effect [OF assms]
    by (auto simp: lasting_def journal_view_def ledger_view_def journal_rows_def ledger_rows_def)
qed

lemma start_job_lasting:
  assumes m: "manager_ok m" and ok: "store_ok st" "jobs_ok st" and r: "start_job m job (st, w) = (r, st', w')"
  shows "lasting st st'"
proof -
  let ?st1 = "job_set_status st (jb_id job) ''running''" and ?sid = "jb_session job"
  let ?k = "job_kernel m (jb_id job) ?st1 ?sid"
  obtain x st2 w2 where run: "kernel_run ?k ?sid (jb_text job) (?st1, w) = (x, st2, w2)"
    by (cases "kernel_run ?k ?sid (jb_text job) (?st1, w)")
  note l1 = lasting_set_status [OF ok, of "jb_id job" "''running''"]
  from kernel_run_safe [OF job_kernel_ok [OF m] lasting_ok(1) [OF l1], of "jb_id job" ?st1 ?sid "jb_text job" w] run
  have "grows ?st1 st2" by (auto simp: safe_def intro: extends_grows)
  from lasting_trans [OF l1 lasting_grows [OF this lasting_ok(2) [OF l1]]] have l2: "lasting st st2" .
  from r run l2 lasting_trans [OF l2 lasting_set_status [OF lasting_ok [OF l2]]] show ?thesis
    by (auto simp: start_job_def Let_def split: sum.splits)
qed

lemma run_job_lasting:
  assumes "manager_ok m" and "store_ok st" "jobs_ok st" and "run_job m jid (st, w) = (r, st', w')"
  shows "lasting st st'"
  using assms start_job_lasting lasting_refl lasting_set_status
  by (fastforce simp: run_job_def split: option.splits if_splits prod.splits sum.splits)

lemma resume_job_lasting:
  assumes m: "manager_ok m" and ok: "store_ok st" "jobs_ok st" and r: "resume_job m jid (st, w) = (r, st', w')"
  shows "lasting st st'"
proof (cases "job_get st jid")
  case None
  with r lasting_refl [OF ok] show ?thesis by (simp add: resume_job_def)
next
  case (Some job)
  let ?k = "sm_factory m st (jb_session job)"
  obtain x st2 w2 where run: "kernel_resume ?k (jb_session job) (st, w) = (x, st2, w2)"
    by (cases "kernel_resume ?k (jb_session job) (st, w)")
  have "kernel_ok (jb_session job) ?k" using m by (simp add: manager_ok_def)
  from kernel_resume_safe [OF this ok(1), of w] run have "grows st st2" by (auto intro: extends_grows)
  note l2 = lasting_grows [OF this ok(2)]
  from r run Some l2 lasting_trans [OF l2 lasting_set_status [OF lasting_ok [OF l2]]] show ?thesis
    by (auto simp: resume_job_def split: sum.splits)
qed

lemma cancel_lasting:
  assumes "store_ok st" "jobs_ok st" "cancel jid (st, rt) = (st', rt')"
  shows "lasting st st'"
proof -
  note l1 = lasting_set_status [OF assms(1,2), of jid "''cancelled''"]
  note l2 = lasting_trans [OF l1 lasting_set_session [OF lasting_ok [OF l1]]]
  show ?thesis using assms(3) l1 l2 by (auto simp: cancel_def Let_def split: option.splits)
qed

lemma decision_lasting:
  assumes "store_ok st" "jobs_ok st"
  shows "lasting st (approve sid aid a st)" "lasting st (deny sid aid a st)"
proof -
  have p: "lasting st (approval_put st aid sid d a)" for d by (rule lasting_frame [OF assms]) (simp_all add: job_idents_def)
  have e: "lasting st (note_event sid ev (approval_put st aid sid d a))" if "event_legal ev" for ev d
    using lasting_trans [OF p lasting_grows [OF note_event_grows [OF lasting_ok(1) [OF p] that] lasting_ok(2) [OF p]]] .
  show "lasting st (approve sid aid a st)" "lasting st (deny sid aid a st)"
    unfolding approve_def deny_def by (intro e event_legalI; simp)+
qed

lemma create_run_lasting:
  assumes m: "manager_ok m" and ok: "store_ok (sv_store s)" "jobs_ok (sv_store s)"
  shows "lasting (sv_store s) (sv_store (snd (create_run m env txt key s)))"
proof -
  obtain r st2 where e: "enqueue (rq_now env) (rq_session env) (rq_job env) txt key (sv_store s) = (r, st2)"
    by (cases "enqueue (rq_now env) (rq_session env) (rq_job env) txt key (sv_store s)")
  note l2 = enqueue_lasting [OF ok e]
  show ?thesis
  proof (cases r)
    case (Inr job)
    obtain x st3 w3 where run: "run_job m (jr_job_id job) (st2, sv_world s) = (x, st3, w3)"
      by (cases "run_job m (jr_job_id job) (st2, sv_world s)")
    from lasting_trans [OF l2 run_job_lasting [OF m lasting_ok [OF l2] run]] show ?thesis
      using e Inr run by (simp add: create_run_def Let_def split: sum.splits)
  qed (use e l2 in \<open>simp add: create_run_def Let_def\<close>)
qed

lemma decide_lasting:
  assumes m: "manager_ok m" and ok: "store_ok (sv_store s)" "jobs_ok (sv_store s)"
    and d: "\<And>sid. lasting (sv_store s) (decision sid aid a (sv_store s))"
  shows "lasting (sv_store s) (sv_store (snd (decide decision rest m jid aid a s)))"
proof (cases "job_status (sv_store s) jid")
  case None
  then show ?thesis by (simp add: decide_def lasting_refl ok)
next
  case (Some job)
  let ?st1 = "decision (jb_session job) aid a (sv_store s)"
  obtain x st2 w2 where r: "resume_job m jid (?st1, sv_world s) = (x, st2, w2)" by (cases "resume_job m jid (?st1, sv_world s)")
  from lasting_trans [OF d resume_job_lasting [OF m lasting_ok [OF d] r]] show ?thesis
    using Some r by (simp add: decide_def split: sum.splits)
qed

lemma handle_route_lasting:
  assumes m: "manager_ok m" and ok: "store_ok (sv_store s)" "jobs_ok (sv_store s)"
  shows "lasting (sv_store s) (sv_store (snd (handle_route m sf env a rt s)))"
proof (cases rt)
  case (Approve jid aid who)
  have "lasting (sv_store s) (sv_store (snd (decide approve f m jid aid who s)))" for f
    by (rule decide_lasting [OF m ok]) (rule decision_lasting(1) [OF ok])
  with Approve show ?thesis by (simp add: approve_job_def)
next
  case (Deny jid aid who)
  have "lasting (sv_store s) (sv_store (snd (decide deny f m jid aid who s)))" for f
    by (rule decide_lasting [OF m ok]) (rule decision_lasting(2) [OF ok])
  with Deny show ?thesis by (simp add: deny_job_def)
next
  case (CancelJob jid)
  obtain st' rt' where c: "cancel jid (sv_store s, sv_runs s) = (st', rt')" by (cases "cancel jid (sv_store s, sv_runs s)")
  from cancel_lasting [OF ok c] lasting_refl [OF ok] c CancelJob show ?thesis by (simp add: cancel_job_def)
qed (simp_all add: lasting_refl ok create_run_lasting [OF m ok])

lemma serve_lasting:
  assumes "manager_ok m" and "store_ok (sv_store s)" "jobs_ok (sv_store s)"
  shows "lasting (sv_store s) (sv_store (snd (serve m sf env a rt s)))"
  using handle_route_lasting [OF assms] lasting_refl [OF assms(2,3)] by (simp add: serve_def split: option.splits sum.splits)

definition serve_all ::
  "'w session_manager \<Rightarrow> (nat \<Rightarrow> string) \<Rightarrow> (request_env \<times> string \<times> route) list \<Rightarrow> 'w service_state \<Rightarrow> 'w service_state" where
  "serve_all m show_float rs s = fold (\<lambda>(env, authorization, rt) s. snd (serve m show_float env authorization rt s)) rs s"

subsection \<open>Properties\<close>

text \<open>Who may use a route, as the documentation of the roles says: admins and operators start, cancel and decide runs, an
  auditor reads ledgers and status, a viewer only status; the metrics are open.\<close>

fun allowed_roles :: "route \<Rightarrow> string set option" where
  "allowed_roles (CreateRun _ _) = Some {''admin'', ''operator''}"
| "allowed_roles (CancelJob _) = Some {''admin'', ''operator''}"
| "allowed_roles (Approve _ _ _) = Some {''admin'', ''operator''}"
| "allowed_roles (Deny _ _ _) = Some {''admin'', ''operator''}"
| "allowed_roles (ReadLedger _) = Some {''admin'', ''operator'', ''auditor''}"
| "allowed_roles (GetJob _) = Some {''admin'', ''operator'', ''auditor'', ''viewer''}"
| "allowed_roles ListJobs = Some {''admin'', ''operator'', ''auditor'', ''viewer''}"
| "allowed_roles (Events _) = Some {''admin'', ''operator'', ''auditor'', ''viewer''}"
| "allowed_roles Metrics = None"

definition holds_role :: "store \<Rightarrow> string \<Rightarrow> string set \<Rightarrow> bool" where
  "holds_role st authorization roles \<longleftrightarrow>
     (case token_get st (bearer authorization) of None \<Rightarrow> False | Some (subject, rl) \<Rightarrow> rl \<in> roles)"

definition turned_away :: "reply \<Rightarrow> bool" where
  "turned_away r \<longleftrightarrow> (\<exists>j. r = Reply 401 j \<or> r = Reply 403 j) \<or> r = Stream [] (Some 4401) \<or> r = Stream [] (Some 4403)"

lemma require_denies: "require rl action = Inl e \<Longrightarrow> isinstance e ''AccessDenied''"
  by (auto simp: require_def access_denied_def mk_exn_def isinstance_def split: option.splits if_splits)

lemma require_roles:
  "require (Some rl) ''run'' = Inr () \<longleftrightarrow> rl \<in> {''admin'', ''operator''}"
  "require (Some rl) ''cancel'' = Inr () \<longleftrightarrow> rl \<in> {''admin'', ''operator''}"
  "require (Some rl) ''approve'' = Inr () \<longleftrightarrow> rl \<in> {''admin'', ''operator''}"
  "require (Some rl) ''read_ledger'' = Inr () \<longleftrightarrow> rl \<in> {''admin'', ''operator'', ''auditor''}"
  "require (Some rl) ''read_status'' = Inr () \<longleftrightarrow> rl \<in> {''admin'', ''operator'', ''auditor'', ''viewer''}"
  by (auto simp: require_def ROLES_def permitted_def MATRIX_def)

lemma guard_roles:
  assumes "\<And>rl. require (Some rl) action = Inr () \<longleftrightarrow> rl \<in> roles"
  shows "if holds_role st a roles then \<not> isl (guard st action a) else \<exists>r. guard st action a = Inl r \<and> turned_away r"
proof (cases "token_get st (bearer a)")
  case (Some p)
  obtain subject rl where p: "p = (subject, rl)" by (cases p)
  with Some assms [of rl] show ?thesis
    by (cases "require (Some rl) action")
      (auto simp: guard_def auth_def holds_role_def http_error_def turned_away_def dest: require_denies)
qed (simp add: guard_def auth_def holds_role_def http_error_def turned_away_def)

lemma guarded_route:
  assumes "allowed_roles rt = Some roles" "\<forall>jid. rt \<noteq> Events jid"
  obtains action where "route_action rt = Some action" "\<And>rl. require (Some rl) action = Inr () \<longleftrightarrow> rl \<in> roles"
  using assms by (cases rt) (auto simp: require_roles)

lemma answered:
  "\<not> turned_away (fst (create_run m env txt key s))" "\<not> turned_away (get_job jid s)" "\<not> turned_away (fst (cancel_job jid s))"
  "\<not> turned_away (fst (decide decision rest m jid aid approver s))" "\<not> turned_away (read_ledger sid s)"
  by (auto simp: turned_away_def create_run_def get_job_def cancel_job_def decide_def read_ledger_def no_such_job_def http_error_def Let_def
      split: prod.splits sum.splits option.splits)

lemma stream_roles:
  assumes "roles = {''admin'', ''operator'', ''auditor'', ''viewer''}"
  shows "turned_away (ws_events authorization jid s) \<longleftrightarrow> \<not> holds_role (sv_store s) authorization roles"
proof (cases "token_get (sv_store s) (bearer authorization)")
  case (Some p)
  obtain subject rl where p: "p = (subject, rl)" by (cases p)
  show ?thesis
  proof (cases "require (Some rl) ''read_status''")
    case (Inl e)
    then have "rl \<notin> roles" using require_roles(5) [of rl] assms by auto
    with Some p Inl require_denies [OF Inl] show ?thesis by (simp add: ws_events_def holds_role_def turned_away_def)
  next
    case (Inr u)
    then have "rl \<in> roles" using require_roles(5) [of rl] assms by simp
    with Some p Inr show ?thesis by (auto simp: ws_events_def holds_role_def turned_away_def split: option.splits sum.splits)
  qed
qed (simp add: ws_events_def holds_role_def turned_away_def)

lemma handler_accepts:
  assumes "allowed_roles rt = Some roles" "holds_role (sv_store s) authorization roles"
  shows "\<not> turned_away (fst (handle_route m show_float env authorization rt s))"
  using assms by (cases rt) (auto simp: answered approve_job_def deny_job_def stream_roles turned_away_def [of "Reply 200 j" for j])

text \<open>C13: Nobody acts on the service without a token whose role is allowed to. Every route but the metrics has its roles:
  a request whose token is known and has one of them reaches the handler of the route and is not turned away; any other is
  answered with 401 or 403, a stream is closed with 4401 or 4403 before anything is sent, and neither the store, the world,
  the metrics nor the runs change.\<close>

theorem unauthorized_request_refused:
  assumes "allowed_roles rt = Some roles"
  shows "if holds_role (sv_store s) authorization roles
    then serve m show_float env authorization rt s = handle_route m show_float env authorization rt s \<and>
      \<not> turned_away (fst (serve m show_float env authorization rt s))
    else \<exists>r. serve m show_float env authorization rt s = (r, s) \<and> turned_away r"
proof (cases "\<exists>jid. rt = Events jid")
  case True
  then obtain jid where e: "rt = Events jid" by blast
  with assms have roles: "roles = {''admin'', ''operator'', ''auditor'', ''viewer''}" by simp
  from stream_roles [OF this, of authorization jid s] e show ?thesis by (auto simp: serve_def)
next
  case False
  with assms obtain action where a: "route_action rt = Some action" "\<And>rl. require (Some rl) action = Inr () \<longleftrightarrow> rl \<in> roles"
    using guarded_route [OF assms] by metis
  with guard_roles [OF a(2), of "sv_store s" authorization] handler_accepts [OF assms, of s authorization m show_float env]
  show ?thesis by (auto simp: serve_def split: sum.splits if_splits)
qed

definition demo_service :: "nat service_state" where
  "demo_service = \<lparr>sv_store = token_put empty_store ''t0'' ''vera'' ''viewer'', sv_world = 0,
     sv_metrics = \<lparr>mt_enabled = False, mt_counters = [], mt_gauges = []\<rparr>, sv_runs = no_runs\<rparr>"

theorem unauthorized_request_refused_witness:
  "(\<exists>r. serve echo_manager nat_str \<lparr>rq_now = 0, rq_session = ''s'', rq_job = ''j''\<rparr> ''Bearer t0'' (CancelJob ''j'') demo_service =
      (r, demo_service) \<and> turned_away r) \<and>
   \<not> turned_away (fst (serve echo_manager nat_str \<lparr>rq_now = 0, rq_session = ''s'', rq_job = ''j''\<rparr> ''Bearer t0'' ListJobs demo_service))"
proof -
  have t: "token_get (sv_store demo_service) (bearer ''Bearer t0'') = Some (''vera'', ''viewer'')"
    by (simp add: demo_service_def bearer_def startswith_def token_get_def token_put_def empty_store_def)
  have "\<not> holds_role (sv_store demo_service) ''Bearer t0'' {''admin'', ''operator''}"
    "holds_role (sv_store demo_service) ''Bearer t0'' {''admin'', ''operator'', ''auditor'', ''viewer''}"
    by (simp_all add: holds_role_def t)
  with unauthorized_request_refused [of "CancelJob ''j''" "{''admin'', ''operator''}" demo_service "''Bearer t0''" echo_manager nat_str
      "\<lparr>rq_now = 0, rq_session = ''s'', rq_job = ''j''\<rparr>"]
    unauthorized_request_refused [of ListJobs "{''admin'', ''operator'', ''auditor'', ''viewer''}" demo_service "''Bearer t0''" echo_manager nat_str
      "\<lparr>rq_now = 0, rq_session = ''s'', rq_job = ''j''\<rparr>"]
  show ?thesis by auto
qed

text \<open>C14: No sequence of requests destroys evidence. Whoever sends them, in whatever order and with whatever outcome, the
  store stays sound, every journal and every ledger only grows at its end, and no job is lost or given other content.\<close>

theorem requests_keep_evidence:
  assumes "manager_ok m" and "store_ok (sv_store s)" and "jobs_ok (sv_store s)"
  shows "lasting (sv_store s) (sv_store (serve_all m show_float rs s))"
  using assms(2,3)
proof (induction rs arbitrary: s)
  case (Cons q rs)
  obtain env a rt where q: "q = (env, a, rt)" by (cases q)
  note l = serve_lasting [OF assms(1) Cons.prems, of show_float env a rt]
  from lasting_trans [OF l Cons.IH [OF lasting_ok [OF l]]] show ?case by (simp add: serve_all_def q)
qed (simp add: serve_all_def lasting_refl)

theorem requests_keep_evidence_witness:
  "lasting (token_put empty_store ''t1'' ''otto'' ''operator'') (sv_store (serve_all echo_manager nat_str
     [(\<lparr>rq_now = 0, rq_session = ''s'', rq_job = ''j''\<rparr>, ''Bearer t1'', CreateRun ''hi'' ''k''),
      (\<lparr>rq_now = 1, rq_session = ''t'', rq_job = ''i''\<rparr>, ''Bearer t1'', CancelJob ''j''),
      (\<lparr>rq_now = 2, rq_session = ''u'', rq_job = ''h''\<rparr>, ''Bearer t0'', CreateRun ''hi'' ''l'')]
     (demo_service\<lparr>sv_store := token_put empty_store ''t1'' ''otto'' ''operator''\<rparr>)))"
proof -
  let ?s = "demo_service\<lparr>sv_store := token_put empty_store ''t1'' ''otto'' ''operator''\<rparr>"
  have "store_ok (sv_store ?s)" using store_ok_frame [of "sv_store ?s" empty_store] by (simp add: token_put_def)
  moreover have "jobs_ok (sv_store ?s)" by (simp add: token_put_def empty_store_def jobs_ok_def)
  ultimately show ?thesis using requests_keep_evidence [OF echo_manager_ok, of ?s] by simp
qed

lemma kernel_run_asks:
  assumes "kernel_ok sid k" "store_ok st"
  shows "prefix (messages st @ [\<lparr>msg_session = sid, msg_role = ''user'', msg_content = txt\<rparr>]) (messages (fst (snd (kernel_run k sid txt (st, w)))))"
proof -
  let ?st1 = "note_journal sid ''ASSEMBLE'' [(''task'', JBool True)] (add_message st sid ''user'' txt)"
  have "store_ok (add_message st sid ''user'' txt)" using store_ok_frame [of "add_message st sid ''user'' txt" st] assms(2) by simp
  then have ok: "store_ok ?st1" by (rule grows_ok [OF note_journal_grows]) simp
  have "grows ?st1 (fst (snd (kernel_loop k sid (?st1, w))))"
    using kernel_loop_safe [OF assms(1) ok, of w] by (auto simp: safe_def intro: extends_grows)
  then show ?thesis by (simp add: grows_def kernel_run_def add_message_def)
qed

text \<open>A repeated request runs its job again. Unless the job is done or cancelled, posting its key once more does exactly
  what starting the job does, after a session that nobody uses has been added: the kernel runs on the job's session, which
  gets another user message, and a run that ends is answered with its result, marked as a duplicate.\<close>

theorem repeated_request_runs_again:
  assumes m: "manager_ok (app_manager factory flag)" and ok: "store_ok (sv_store s)" "jobs_ok (sv_store s)"
    and j: "job \<in> set (jobs (sv_store s))" "jb_idem job = key" "jb_status job \<notin> {''done'', ''cancelled''}"
    and fresh: "rq_session env \<notin> ses_id ` set (sessions (sv_store s))"
  shows "\<exists>st2 r st3 w3. st2 = (sv_store s)\<lparr>sessions := sessions (sv_store s) @ [\<lparr>ses_id = rq_session env, ses_status = ''open''\<rparr>]\<rparr> \<and>
      start_job (app_manager factory flag) job (st2, sv_world s) = (r, st3, w3) \<and>
      sv_store (snd (create_run (app_manager factory flag) env txt key s)) = st3 \<and>
      sv_world (snd (create_run (app_manager factory flag) env txt key s)) = w3 \<and>
      (\<forall>res. r = Inr res \<longrightarrow> (\<exists>d. fst (create_run (app_manager factory flag) env txt key s) = Reply 200 (JObj d) \<and>
         dict_get d ''deduped'' = Some (JBool True) \<and> dict_get d ''final_text'' = Some (JStr (rr_final_text res)))) \<and>
      prefix (messages (sv_store s) @ [\<lparr>msg_session = jb_session job, msg_role = ''user'', msg_content = jb_text job\<rparr>]) (messages st3)"
proof -
  let ?m = "app_manager factory flag" and ?st = "sv_store s"
  have "(jb_id job, jb_session job, key, jb_text job) \<in> set (job_idents ?st)" using j(1,2) by (auto simp: job_idents_def job_ident_def image_iff)
  from find_key [OF ok(2) this] obtain j' where "find (\<lambda>j. jb_idem j = key) (jobs ?st) = Some j'" "jb_id j' = jb_id job" by blast
  then have f: "find (\<lambda>j. jb_idem j = key) (jobs ?st) = Some job"
    using ok(2) j(1) by (auto simp: jobs_ok_def distinct_map find_Some_iff dest: inj_onD)
  have g: "job_get ?st (jb_id job) = Some job"
  proof -
    have "find (\<lambda>r. jb_id r = jb_id job) (jobs ?st) \<noteq> None" using j(1) by (auto simp: find_None_iff)
    then obtain r where "find (\<lambda>r. jb_id r = jb_id job) (jobs ?st) = Some r" by blast
    then show ?thesis using ok(2) j(1) by (auto simp: job_get_def jobs_ok_def distinct_map find_Some_iff dest: inj_onD)
  qed
  define st2 where "st2 = ?st\<lparr>sessions := sessions ?st @ [\<lparr>ses_id = rq_session env, ses_status = ''open''\<rparr>]\<rparr>"
  define st3 where "st3 = job_set_status st2 (jb_id job) ''running''"
  have ok2: "store_ok st2" using store_ok_frame [of st2 ?st] ok(1) by (simp add: st2_def)
  have e: "enqueue (rq_now env) (rq_session env) (rq_job env) txt key ?st =
    (Inr \<lparr>jr_job_id = jb_id job, jr_job_session = jb_session job, jr_job_status = jb_status job, jr_deduped = True\<rparr>, st2)"
    using fresh f by (auto simp: enqueue_def create_session_def Let_def job_upsert_def st2_def)
  have run: "run_job ?m (jb_id job) (st2, sv_world s) = start_job ?m job (st2, sv_world s)"
    using g j(3) by (auto simp: run_job_def app_manager_def job_get_def st2_def)
  let ?k = "job_kernel ?m (jb_id job) st3 (jb_session job)"
  have "prefix (messages ?st @ [\<lparr>msg_session = jb_session job, msg_role = ''user'', msg_content = jb_text job\<rparr>])
      (messages (fst (snd (kernel_run ?k (jb_session job) (jb_text job) (st3, sv_world s)))))"
    using kernel_run_asks [OF job_kernel_ok [OF m, of "jb_session job" "jb_id job" st3], of st3 "jb_text job" "sv_world s"] ok2
    by (simp add: st3_def st2_def)
  moreover obtain r st4 w4 where s: "start_job ?m job (st2, sv_world s) = (r, st4, w4)" by (cases "start_job ?m job (st2, sv_world s)")
  ultimately have "prefix (messages ?st @ [\<lparr>msg_session = jb_session job, msg_role = ''user'', msg_content = jb_text job\<rparr>]) (messages st4)"
    by (auto simp: start_job_def Let_def st3_def split: prod.splits sum.splits)
  then show ?thesis
    using e run s by (intro exI [of _ st2] exI [of _ r] exI [of _ st4] exI [of _ w4])
      (auto simp: create_run_def Let_def st2_def split: prod.splits sum.splits)
qed

theorem repeated_request_runs_again_witness:
  "prefix [\<lparr>msg_session = ''s'', msg_role = ''user'', msg_content = ''hi''\<rparr>]
    (messages (sv_store (snd (create_run (app_manager (\<lambda>st sid. echo_kernel) (\<lambda>jid w. (False, w)))
       \<lparr>rq_now = 1, rq_session = ''t'', rq_job = ''i''\<rparr> ''hi'' ''k'' (demo_service\<lparr>sv_store := job_set_status demo_queue ''j'' ''needs_review''\<rparr>)))))"
proof -
  let ?s = "demo_service\<lparr>sv_store := job_set_status demo_queue ''j'' ''needs_review''\<rparr>"
  let ?job = "\<lparr>jb_id = ''j'', jb_session = ''s'', jb_idem = ''k'', jb_status = ''needs_review'', jb_text = ''hi'', jb_created = 0\<rparr>"
  have m: "manager_ok (app_manager (\<lambda>st sid. echo_kernel) (\<lambda>jid w. (False, w)))" by (simp add: manager_ok_def app_manager_def)
  have q: "store_ok demo_queue \<and> jobs_ok demo_queue"
    using enqueue_effect [OF empty_store_ok empty_jobs_ok demo_queue_enqueue] by simp
  have ok: "store_ok (sv_store ?s)" "jobs_ok (sv_store ?s)" using q jobs_ok_same [of "job_set_status demo_queue ''j'' ''needs_review''" demo_queue] by simp_all
  have j: "?job \<in> set (jobs (sv_store ?s))" "jb_idem ?job = ''k''" "jb_status ?job \<notin> {''done'', ''cancelled''}"
    by (simp_all add: job_set_status_def demo_queue_tables)
  have "messages (sv_store ?s) = []" by (simp add: job_set_status_def demo_queue_def enqueue_def create_session_def job_upsert_def empty_store_def Let_def)
  with repeated_request_runs_again [OF m ok j, of "\<lparr>rq_now = 1, rq_session = ''t'', rq_job = ''i''\<rparr>" "''hi''"] show ?thesis
    by (fastforce simp: job_set_status_def demo_queue_tables)
qed

text \<open>The approver of record is the one the request names, not the one who sent it. Whatever token an approval request
  carries, as long as its role may approve, the decision is stored under the name in the body.\<close>

theorem approver_is_request_body:
  assumes m: "manager_ok m" and ok: "store_ok (sv_store s)" and j: "job_get (sv_store s) jid = Some job"
    and n: "approval_get (sv_store s) aid = None"
    and t: "token_get (sv_store s) (bearer authorization) = Some (subject, rl)" "require (Some rl) ''approve'' = Inr ()"
  shows "approval_get (sv_store (snd (serve m show_float env authorization (Approve jid aid someone) s))) aid = Some (''approved'', someone)"
proof -
  let ?st1 = "approve (jb_session job) aid someone (sv_store s)"
  have ok1: "store_ok ?st1"
  proof -
    have "store_ok (approval_put (sv_store s) aid (jb_session job) ''approved'' someone)"
      using store_ok_frame [of "approval_put (sv_store s) aid (jb_session job) ''approved'' someone" "sv_store s"] ok by simp
    then show ?thesis unfolding approve_def by (rule grows_ok [OF note_event_grows]) (intro event_legalI; simp)
  qed
  have j1: "job_get ?st1 jid = Some job" using j by (simp add: job_get_def approve_def)
  obtain x st2 w2 where r: "kernel_resume (sm_factory m ?st1 (jb_session job)) (jb_session job) (?st1, sv_world s) = (x, st2, w2)"
    by (cases "kernel_resume (sm_factory m ?st1 (jb_session job)) (jb_session job) (?st1, sv_world s)")
  have "kernel_ok (jb_session job) (sm_factory m ?st1 (jb_session job))" using m by (simp add: manager_ok_def)
  from kernel_resume_safe [OF this ok1, of "sv_world s"] r have "grows ?st1 st2" by (auto intro: extends_grows)
  then have "approvals st2 = approvals ?st1" by (simp add: grows_def)
  then have a: "approval_get st2 aid = Some (''approved'', someone)"
    using approval_get_decided(1) [OF n, of "jb_session job" someone] by (simp add: approval_get_def)
  have "approval_get (job_set_status st2 jid y) aid = approval_get st2 aid" for y by (simp add: approval_get_def)
  then show ?thesis
    using a r j j1 t by (simp add: serve_def guard_def auth_def approve_job_def decide_def job_status_def resume_job_def split: sum.splits)
qed

theorem approver_is_request_body_witness:
  "approval_get (sv_store (snd (serve echo_manager nat_str \<lparr>rq_now = 1, rq_session = ''t'', rq_job = ''i''\<rparr> ''Bearer t1'' (Approve ''j'' ''a1'' ''the board'')
     (demo_service\<lparr>sv_store := token_put demo_queue ''t1'' ''otto'' ''operator''\<rparr>)))) ''a1'' = Some (''approved'', ''the board'')"
proof -
  let ?st = "token_put demo_queue ''t1'' ''otto'' ''operator''"
  have "store_ok demo_queue" using enqueue_effect [OF empty_store_ok empty_jobs_ok demo_queue_enqueue] by simp
  then have ok: "store_ok ?st" using store_ok_frame [of ?st demo_queue] by (simp add: token_put_def)
  have j: "job_get ?st ''j'' = Some (hd (jobs demo_queue))" by (simp add: job_get_def token_put_def demo_queue_tables)
  have n: "approval_get ?st ''a1'' = None"
    by (simp add: approval_get_def token_put_def demo_queue_def enqueue_def create_session_def job_upsert_def empty_store_def Let_def)
  have t: "token_get ?st (bearer ''Bearer t1'') = Some (''otto'', ''operator'')"
    by (simp add: token_get_def token_put_def bearer_def startswith_def demo_queue_def enqueue_def create_session_def job_upsert_def empty_store_def Let_def)
  have r: "require (Some ''operator'') ''approve'' = Inr ()" by (simp add: require_def ROLES_def permitted_def MATRIX_def)
  show ?thesis using approver_is_request_body [OF echo_manager_ok, of "demo_service\<lparr>sv_store := ?st\<rparr>"] ok j n t r by simp
qed

text \<open>A loopback host, or TLS with authentication.\<close>

lemma check_bind_iff:
  "check_bind ip host tls au = Inr () \<longleftrightarrow>
     ip host = Some True \<or> ip host = None \<and> host = ''localhost'' \<or> tls \<and> au"
  by (auto simp: check_bind_def Let_def split: option.splits)

text \<open>Metrics are off by default, and a service whose metrics are off records and exposes none.\<close>

lemma metrics_stay_off:
  assumes "\<not> mt_enabled (sv_metrics s)"
  shows "sv_metrics (serve_all m show_float rs s) = sv_metrics s" "metrics_endpoint show_float s = http_error 404 ''metrics disabled''"
proof -
  have h: "sv_metrics (snd (handle_route m show_float env a rt s)) = sv_metrics s" if "\<not> mt_enabled (sv_metrics s)" for env a rt s
    using that by (cases rt) (auto simp: create_run_def Let_def inc_def cancel_job_def approve_job_def deny_job_def decide_def
        split: sum.splits prod.splits option.splits)
  have "sv_metrics (snd (serve m show_float env a rt s)) = sv_metrics s" if "\<not> mt_enabled (sv_metrics s)" for env a rt s
    using h [OF that] by (auto simp: serve_def split: option.splits sum.splits)
  then show "sv_metrics (serve_all m show_float rs s) = sv_metrics s" using assms
    by (induction rs arbitrary: s) (auto simp: serve_all_def)
qed (simp add: metrics_endpoint_def assms)

end
