(* ===== verification/Resilience.thy ===== *)
theory Resilience
  imports Gateway
begin

text \<open>
  Circuit breakers and the fallback chain (\<open>scr/resilience.py\<close>). The clock and the adapters act
  on a world, as in the kernel; times are whole seconds.
\<close>

datatype breaker_state = Closed | Open | Half_open

fun state_name :: "breaker_state \<Rightarrow> string" where
  "state_name Closed = ''closed''"
| "state_name Open = ''open''"
| "state_name Half_open = ''half_open''"

record 'w breaker =
  failure_threshold :: int
  cooldown_seconds :: int
  br_clock :: "'w \<Rightarrow> int \<times> 'w"
  br_state :: breaker_state
  br_failures :: int
  opened_at :: int

definition new_breaker :: "int \<Rightarrow> int \<Rightarrow> ('w \<Rightarrow> int \<times> 'w) \<Rightarrow> 'w breaker" where
  "new_breaker threshold cooldown clock =
     \<lparr>failure_threshold = threshold, cooldown_seconds = cooldown, br_clock = clock, br_state = Closed,
      br_failures = 0, opened_at = 0\<rparr>"

definition allow :: "'w breaker \<Rightarrow> 'w \<Rightarrow> bool \<times> 'w breaker \<times> 'w" where
  "allow b w =
     (if br_state b = Open then
        (case br_clock b w of (now, w1) \<Rightarrow>
           if now - opened_at b \<ge> cooldown_seconds b then (True, b\<lparr>br_state := Half_open\<rparr>, w1)
           else (False, b, w1))
      else (True, b, w))"

definition record_success :: "'w breaker \<Rightarrow> 'w breaker" where
  "record_success b = b\<lparr>br_failures := 0, br_state := Closed\<rparr>"

definition record_failure :: "'w breaker \<Rightarrow> 'w \<Rightarrow> 'w breaker \<times> 'w" where
  "record_failure b w =
     (let b1 = b\<lparr>br_failures := br_failures b + 1\<rparr> in
      if br_state b1 = Half_open \<or> br_failures b1 \<ge> failure_threshold b1
      then (case br_clock b w of (now, w1) \<Rightarrow> (b1\<lparr>br_state := Open, opened_at := now\<rparr>, w1))
      else (b1, w))"

type_synonym 'w adapter = "message list \<Rightarrow> tool_def list \<Rightarrow> 'w \<Rightarrow> (py_exn + model_response) \<times> 'w"

type_synonym 'w backed = "'w adapter \<times> 'w breaker"

definition new_chain :: "'w adapter list \<Rightarrow> int \<Rightarrow> int \<Rightarrow> ('w \<Rightarrow> int \<times> 'w) \<Rightarrow> 'w backed list" where
  "new_chain adapters threshold cooldown clock = map (\<lambda>a. (a, new_breaker threshold cooldown clock)) adapters"

definition all_failed :: "bool \<Rightarrow> py_exn" where
  "all_failed any_attempted =
     mk_exn ''AllAdaptersFailed'' (if any_attempted then ''all adapters failed or open'' else ''all adapter circuits open'')"

fun try_chain ::
  "bool \<Rightarrow> message list \<Rightarrow> tool_def list \<Rightarrow> 'w backed list \<Rightarrow> 'w \<Rightarrow> (py_exn + model_response) \<times> 'w backed list \<times> 'w" where
  "try_chain att msgs tls [] w = (Inl (all_failed att), [], w)"
| "try_chain att msgs tls ((a, b) # bs) w =
     (case allow b w of
        (False, b1, w1) \<Rightarrow>
          (case try_chain att msgs tls bs w1 of (r, bs', w2) \<Rightarrow> (r, (a, b1) # bs', w2))
      | (True, b1, w1) \<Rightarrow>
          (case a msgs tls w1 of
             (Inr resp, w2) \<Rightarrow> (Inr resp, (a, record_success b1) # bs, w2)
           | (Inl e, w2) \<Rightarrow>
               if isinstance e ''Exception'' then
                 (case record_failure b1 w2 of (b2, w3) \<Rightarrow>
                   (case try_chain True msgs tls bs w3 of (r, bs', w4) \<Rightarrow> (r, (a, b2) # bs', w4)))
               else (Inl e, (a, b1) # bs, w2)))"

definition chain_complete ::
  "message list \<Rightarrow> tool_def list \<Rightarrow> 'w backed list \<Rightarrow> 'w \<Rightarrow> (py_exn + model_response) \<times> 'w backed list \<times> 'w" where
  "chain_complete msgs tls bs w = try_chain False msgs tls bs w"

definition breaker_states :: "'w backed list \<Rightarrow> string list" where
  "breaker_states bs = map (\<lambda>p. state_name (br_state (snd p))) bs"

subsection \<open>The breaker against its specification\<close>










subsection \<open>The chain\<close>

text \<open>What a chain does before it reaches position i: every adapter there was blocked or raised.\<close>

definition passed_over :: "message list \<Rightarrow> tool_def list \<Rightarrow> 'w backed \<Rightarrow> 'w \<Rightarrow> 'w backed \<Rightarrow> 'w \<Rightarrow> bool" where
  "passed_over msgs tls p w p' w' \<longleftrightarrow>
     (case allow (snd p) w of
        (False, b1, w1) \<Rightarrow> p' = (fst p, b1) \<and> w' = w1
      | (True, b1, w1) \<Rightarrow> \<exists>e w2. fst p msgs tls w1 = (Inl e, w2) \<and> isinstance e ''Exception'' \<and>
                            (fst (record_failure b1 w2), w') = (snd p', snd (record_failure b1 w2)) \<and> fst p' = fst p)"

fun passed_all :: "message list \<Rightarrow> tool_def list \<Rightarrow> 'w backed list \<Rightarrow> 'w \<Rightarrow> 'w backed list \<Rightarrow> 'w \<Rightarrow> bool" where
  "passed_all msgs tls [] w ps w' = (ps = [] \<and> w' = w)"
| "passed_all msgs tls (p # bs) w ps w' =
     (\<exists>p' ps' w1. ps = p' # ps' \<and> passed_over msgs tls p w p' w1 \<and> passed_all msgs tls bs w1 ps' w')"

lemma chain_response:
  "try_chain att msgs tls bs w = (Inr resp, bs', w') \<Longrightarrow>
   \<exists>pre a b post pre' w1 b1 w2. bs = pre @ (a, b) # post \<and> passed_all msgs tls pre w pre' w1 \<and>
     allow b w1 = (True, b1, w2) \<and> a msgs tls w2 = (Inr resp, w') \<and> bs' = pre' @ (a, record_success b1) # post"
proof (induction bs arbitrary: att w bs')
  case (Cons p bs)
  obtain a b where p: "p = (a, b)" by (cases p)
  obtain ok b1 w1 where al: "allow b w = (ok, b1, w1)" by (cases "allow b w")
  have step: "\<exists>pre c d post pre' v d1 v2. p # bs = pre @ (c, d) # post \<and> passed_all msgs tls pre w pre' v \<and>
     allow d v = (True, d1, v2) \<and> c msgs tls v2 = (Inr resp, w') \<and> bs' = pre' @ (c, record_success d1) # post"
    if t: "try_chain att' msgs tls bs x = (Inr resp, rest, w')"
      and o: "passed_over msgs tls p w p' x" and bs': "bs' = p' # rest" for p' x rest att'
  proof -
    from Cons.IH [OF t] obtain pre c d post pre' v d1 v2 where h: "bs = pre @ (c, d) # post" "passed_all msgs tls pre x pre' v"
        "allow d v = (True, d1, v2)" "c msgs tls v2 = (Inr resp, w')" "rest = pre' @ (c, record_success d1) # post" by blast
    then have "passed_all msgs tls (p # pre) w (p' # pre') v" using o by auto
    with h bs' show ?thesis by (metis append_Cons)
  qed
  show ?case
  proof (cases ok)
    case False
    obtain r rest w2 where t: "try_chain att msgs tls bs w1 = (r, rest, w2)" by (cases "try_chain att msgs tls bs w1")
    have r: "r = Inr resp" "w2 = w'" "bs' = (a, b1) # rest" using Cons.prems al False t p by auto
    have "passed_over msgs tls p w (a, b1) w1" using al False p by (simp add: passed_over_def)
    from step [OF t [unfolded r(1,2)] this r(3)] show ?thesis .
  next
    case True
    obtain y w2 where y: "a msgs tls w1 = (y, w2)" by (cases "a msgs tls w1")
    show ?thesis
    proof (cases y)
      case (Inr z)
      with Cons.prems al True y p show ?thesis by (intro exI [of _ "[]"]) auto
    next
      case (Inl e)
      obtain b2 w3 where f: "record_failure b1 w2 = (b2, w3)" by (cases "record_failure b1 w2")
      obtain r rest w4 where t: "try_chain True msgs tls bs w3 = (r, rest, w4)" by (cases "try_chain True msgs tls bs w3")
      have ex: "isinstance e ''Exception''" using Cons.prems al True y Inl p by (auto split: if_splits)
      have r: "r = Inr resp" "w4 = w'" "bs' = (a, b2) # rest" using Cons.prems al True y Inl f t ex p by auto
      have "passed_over msgs tls p w (a, b2) w3" using al True y Inl ex f p by (simp add: passed_over_def)
      from step [OF t [unfolded r(1,2)] this r(3)] show ?thesis .
    qed
  qed
qed simp

lemma chain_exhausted:
  "try_chain att msgs tls bs w = (Inl e, bs', w') \<Longrightarrow> isinstance e ''Exception'' \<Longrightarrow> passed_all msgs tls bs w bs' w'"
proof (induction bs arbitrary: att w bs')
  case (Cons p bs)
  obtain a b where p: "p = (a, b)" by (cases p)
  obtain ok b1 w1 where al: "allow b w = (ok, b1, w1)" by (cases "allow b w")
  show ?case
  proof (cases ok)
    case False
    obtain r rest w2 where t: "try_chain att msgs tls bs w1 = (r, rest, w2)" by (cases "try_chain att msgs tls bs w1")
    with Cons.prems al False p have "r = Inl e" "w2 = w'" "bs' = (a, b1) # rest" by auto
    with Cons.IH [of att w1 rest] Cons.prems(2) t al False p show ?thesis by (auto simp: passed_over_def)
  next
    case True
    obtain y w2 where y: "a msgs tls w1 = (y, w2)" by (cases "a msgs tls w1")
    show ?thesis
    proof (cases y)
      case (Inr z)
      with Cons.prems al True y p show ?thesis by auto
    next
      case (Inl x)
      obtain b2 w3 where f: "record_failure b1 w2 = (b2, w3)" by (cases "record_failure b1 w2")
      obtain r rest w4 where t: "try_chain True msgs tls bs w3 = (r, rest, w4)" by (cases "try_chain True msgs tls bs w3")
      have ex: "isinstance x ''Exception''" using Cons.prems al True y Inl p by (auto split: if_splits)
      with Cons.prems al True y Inl f t p have "r = Inl e" "w4 = w'" "bs' = (a, b2) # rest" by auto
      with Cons.IH [of True w3 rest] Cons.prems(2) t al True y Inl ex f p show ?thesis by (auto simp: passed_over_def)
    qed
  qed
qed auto

text \<open>The chain answers with the first adapter that can. A response comes from an adapter whose breaker
  allowed it, and that breaker is closed afterwards; every adapter before it was blocked by its breaker
  or raised and had the failure recorded; those after it are not touched. If the chain raises
  \<open>AllAdaptersFailed\<close>, every adapter was blocked or raised.\<close>

theorem chain_first_healthy:
  assumes "chain_complete msgs tls bs w = (r, bs', w')"
  shows "case r of
      Inr resp \<Rightarrow> \<exists>pre a b post pre' w1 b1 w2. bs = pre @ (a, b) # post \<and> passed_all msgs tls pre w pre' w1 \<and>
        allow b w1 = (True, b1, w2) \<and> a msgs tls w2 = (Inr resp, w') \<and>
        bs' = pre' @ (a, record_success b1) # post
    | Inl e \<Rightarrow> isinstance e ''Exception'' \<longrightarrow> passed_all msgs tls bs w bs' w'"
  using assms chain_response [of False msgs tls bs w _ bs' w'] chain_exhausted [of False msgs tls bs w _ bs' w']
  unfolding chain_complete_def by (auto split: sum.splits)

definition ok_adapter :: "nat adapter" where
  "ok_adapter = (\<lambda>msgs tls w. (Inr \<lparr>mr_text = ''ok'', mr_tool_calls = [], mr_input_tokens = 1, mr_output_tokens = 1\<rparr>, w))"

definition failing_adapter :: "nat adapter" where
  "failing_adapter = (\<lambda>msgs tls w. (Inl (mk_exn ''ConnectionError'' ''refused''), w))"

theorem chain_first_healthy_witness:
  "\<exists>resp bs' w' pre' w1. chain_complete [] [] (new_chain [failing_adapter, ok_adapter] 1 30 (\<lambda>w. (int w, w))) 5 = (Inr resp, bs', w') \<and>
     breaker_states bs' = [''open'', ''closed''] \<and>
     passed_all [] [] [(failing_adapter, new_breaker 1 30 (\<lambda>w. (int w, w)))] 5 pre' w1"
proof -
  let ?bs = "new_chain [failing_adapter, ok_adapter] 1 30 (\<lambda>w. (int w, w))"
  obtain r bs' w' where c: "chain_complete [] [] ?bs 5 = (r, bs', w')" by (cases "chain_complete [] [] ?bs 5")
  have v: "\<exists>resp. r = Inr resp" "breaker_states bs' = [''open'', ''closed'']"
    using c by (auto simp: chain_complete_def new_chain_def new_breaker_def allow_def failing_adapter_def ok_adapter_def
        record_failure_def record_success_def isinstance_def mk_exn_def breaker_states_def)
  from chain_first_healthy [OF c] v(1) obtain resp pre a b post pre' w1 b1 w2 where
    h: "r = Inr resp" "?bs = pre @ (a, b) # post" "passed_all [] [] pre 5 pre' w1" "allow b w1 = (True, b1, w2)" "a [] [] w2 = (Inr resp, w')"
    by auto
  have "pre = [(failing_adapter, new_breaker 1 30 (\<lambda>w. (int w, w)))]"
  proof (cases pre)
    case Nil
    then have "a = failing_adapter" using h(2) by (simp add: new_chain_def)
    with h(5) show ?thesis by (simp add: failing_adapter_def)
  next
    case (Cons p ps)
    with h(2) show ?thesis by (cases ps) (auto simp: new_chain_def)
  qed
  with h c v(2) show ?thesis by auto
qed

end
