(* ===== verification/Updates.thy ===== *)
theory Updates
  imports Sha256
begin

text \<open>
  Crash-safe file writes (\<open>scr/atomic.py\<close>) and the staged updater that moves its pointer file with
  them (\<open>scr/updater.py\<close>).

  A disk holds directory entries and file contents. What has been written but not flushed is
  undetermined after a crash, and a rename that has not been recorded in the directory may or may not
  have happened. The protocol is a list of steps; a crash may come after any of them.
\<close>

subsection \<open>A disk that can crash\<close>

text \<open>\<open>names\<close> is the directory as programs see it, \<open>old_names\<close> the durable one; a file is its
  content and whether it has been flushed.\<close>

record disk =
  names :: "string \<Rightarrow> nat option"
  old_names :: "string \<Rightarrow> nat option"
  contents :: "nat \<Rightarrow> byte list"
  synced :: "nat \<Rightarrow> bool"

datatype disk_op =
    Create string nat
  | Write nat "byte list"
  | Fsync nat
  | Rename string string
  | Fsync_dir
  | Unlink string

fun disk_step :: "disk_op \<Rightarrow> disk \<Rightarrow> disk" where
  "disk_step (Create n i) d = d\<lparr>names := (names d)(n := Some i), contents := (contents d)(i := []), synced := (synced d)(i := False)\<rparr>"
| "disk_step (Write i b) d = d\<lparr>contents := (contents d)(i := contents d i @ b), synced := (synced d)(i := False)\<rparr>"
| "disk_step (Fsync i) d = d\<lparr>synced := (synced d)(i := True)\<rparr>"
| "disk_step (Rename n m) d = d\<lparr>names := (names d)(m := names d n, n := None)\<rparr>"
| "disk_step Fsync_dir d = d\<lparr>old_names := names d\<rparr>"
| "disk_step (Unlink n) d = d\<lparr>names := (names d)(n := None)\<rparr>"

text \<open>What a name may hold after a crash: its entry is the durable one or the current one, and the
  content of a file that has not been flushed can be anything.\<close>

definition after_crash :: "disk \<Rightarrow> string \<Rightarrow> byte list option \<Rightarrow> bool" where
  "after_crash d n r \<longleftrightarrow>
     (\<exists>ent\<in>{names d n, old_names d n}.
        case ent of None \<Rightarrow> r = None | Some i \<Rightarrow> (\<exists>b. r = Some b \<and> (synced d i \<longrightarrow> b = contents d i)))"

definition settled :: "disk \<Rightarrow> string \<Rightarrow> bool" where
  "settled d n \<longleftrightarrow> old_names d n = names d n \<and> (\<forall>i. names d n = Some i \<longrightarrow> synced d i)"

definition read_file :: "disk \<Rightarrow> string \<Rightarrow> byte list option" where
  "read_file d n = map_option (contents d) (names d n)"

text \<open>The steps of \<open>atomic_write_bytes\<close>, with the temporary name and its file number as arguments;
  on Windows the directory is not flushed.\<close>

definition atomic_write_bytes :: "bool \<Rightarrow> string \<Rightarrow> nat \<Rightarrow> string \<Rightarrow> byte list \<Rightarrow> disk_op list" where
  "atomic_write_bytes posix tmp i path data =
     [Create tmp i, Write i data, Fsync i, Rename tmp path] @ (if posix then [Fsync_dir] else [])"

text \<open>The same with an exception in step \<open>j\<close>, counted from 0: the steps before it have been done, of a failing write the first
  \<open>n\<close> bytes, and unless the temporary file could not be made it is unlinked; then the exception is raised again.\<close>

definition failing_write_bytes :: "bool \<Rightarrow> string \<Rightarrow> nat \<Rightarrow> string \<Rightarrow> byte list \<Rightarrow> nat \<Rightarrow> nat \<Rightarrow> disk_op list" where
  "failing_write_bytes posix tmp i path data j n =
     take j (atomic_write_bytes posix tmp i path data) @ (if j = 1 then [Write i (take n data)] else []) @ (if j = 0 then [] else [Unlink tmp])"

definition atomic_write_text :: "bool \<Rightarrow> string \<Rightarrow> nat \<Rightarrow> string \<Rightarrow> string \<Rightarrow> disk_op list" where
  "atomic_write_text posix tmp i path s = atomic_write_bytes posix tmp i path (encode s)"

definition run_ops :: "disk_op list \<Rightarrow> disk \<Rightarrow> disk" where
  "run_ops ops d = fold disk_step ops d"

text \<open>C26: A crash never tears a file. Let a file be settled and the temporary file be new. If the machine
  stops after any number of the steps of an atomic write, the path holds its complete old content or
  the complete new content and nothing else; when all steps are done it reads as the new content, and
  on a system where the directory is flushed the new content is then settled.\<close>

theorem atomic_write_all_or_nothing:
  assumes s: "settled d path" and fresh: "names d path \<noteq> Some i" and t: "tmp \<noteq> path"
  shows "(after_crash (run_ops (take k (atomic_write_bytes posix tmp i path data)) d) path r \<longrightarrow>
       r = read_file d path \<or> r = Some data) \<and>
    read_file (run_ops (atomic_write_bytes posix tmp i path data) d) path = Some data \<and>
    (posix \<longrightarrow> settled (run_ops (atomic_write_bytes posix tmp i path data) d) path)"
proof -
  have crash: "after_crash (run_ops (take k (atomic_write_bytes posix tmp i path data)) d) path r \<Longrightarrow> r = read_file d path \<or> r = Some data"
  proof -
    assume a: "after_crash (run_ops (take k (atomic_write_bytes posix tmp i path data)) d) path r"
    consider "k = 0" | "k = 1" | "k = 2" | "k = 3" | "k = 4" | "k \<ge> 5" by linarith
    then show ?thesis
    proof cases
      case 1
      with a s show ?thesis
        by (cases "names d path") (auto simp: run_ops_def after_crash_def settled_def read_file_def)
    next
      case 2
      with a s fresh t show ?thesis
        by (cases "names d path") (auto simp: run_ops_def atomic_write_bytes_def after_crash_def settled_def read_file_def)
    next
      case 3
      with a s fresh t show ?thesis
        by (cases "names d path") (auto simp: run_ops_def atomic_write_bytes_def after_crash_def settled_def read_file_def numeral_2_eq_2)
    next
      case 4
      with a s fresh t show ?thesis
        by (cases "names d path") (auto simp: run_ops_def atomic_write_bytes_def after_crash_def settled_def read_file_def numeral_3_eq_3)
    next
      case 5
      with a s fresh t show ?thesis
        by (cases "names d path") (auto simp: run_ops_def atomic_write_bytes_def after_crash_def settled_def read_file_def eval_nat_numeral)
    next
      case 6
      then have "take k (atomic_write_bytes posix tmp i path data) = atomic_write_bytes posix tmp i path data"
        by (simp add: atomic_write_bytes_def)
      with a s fresh t show ?thesis
        by (cases "names d path"; cases posix) (auto simp: run_ops_def atomic_write_bytes_def after_crash_def settled_def read_file_def)
    qed
  qed
  moreover have "read_file (run_ops (atomic_write_bytes posix tmp i path data) d) path = Some data"
    using t by (cases posix) (simp_all add: run_ops_def atomic_write_bytes_def read_file_def)
  moreover have "posix \<Longrightarrow> settled (run_ops (atomic_write_bytes posix tmp i path data) d) path"
    using t by (simp add: run_ops_def atomic_write_bytes_def settled_def)
  ultimately show ?thesis by blast
qed

definition demo_disk :: disk where
  "demo_disk = \<lparr>names = Map.empty(''current'' := Some 1), old_names = Map.empty(''current'' := Some 1),
     contents = (\<lambda>_. [1, 2]), synced = (\<lambda>_. True)\<rparr>"

theorem atomic_write_all_or_nothing_witness:
  "settled demo_disk ''current'' \<and> read_file demo_disk ''current'' = Some [1, 2] \<and>
   read_file (run_ops (atomic_write_bytes True ''tmp'' 2 ''current'' [9]) demo_disk) ''current'' = Some [9] \<and>
   settled (run_ops (atomic_write_bytes True ''tmp'' 2 ''current'' [9]) demo_disk) ''current''"
proof -
  have s: "settled demo_disk ''current''" "names demo_disk ''current'' \<noteq> Some 2" "read_file demo_disk ''current'' = Some [1, 2]"
    by (simp_all add: demo_disk_def settled_def read_file_def)
  from atomic_write_all_or_nothing [OF s(1,2), of "''tmp''" 4 True "[9]" None] s show ?thesis by auto
qed

text \<open>A write that raises cleans up. Whichever step fails, no temporary file is left; the path reads as before the write if the
  failing step is the rename or an earlier one. If flushing the directory fails, the write raises although the path has
  the new content already.\<close>

theorem failed_write_cleans_up:
  assumes fresh: "names d path \<noteq> Some i" "names d tmp = None" and t: "tmp \<noteq> path" and j: "j < length (atomic_write_bytes posix tmp i path data)"
  shows "names (run_ops (failing_write_bytes posix tmp i path data j n) d) tmp = None \<and>
    read_file (run_ops (failing_write_bytes posix tmp i path data j n) d) path = (if j \<le> 3 then read_file d path else Some data)"
proof -
  have "j \<le> 4" "j = 4 \<longrightarrow> posix" using j by (auto simp: atomic_write_bytes_def split: if_splits)
  then consider "j = 0" | "j = 1" | "j = 2" | "j = 3" | "j = 4" "posix" by linarith
  then show ?thesis
    using fresh t by cases (cases "names d path"; auto simp: failing_write_bytes_def atomic_write_bytes_def run_ops_def read_file_def eval_nat_numeral)+
qed

theorem failed_write_cleans_up_witness:
  "names (run_ops (failing_write_bytes True ''tmp'' 2 ''current'' [9] 4 0) demo_disk) ''tmp'' = None \<and>
   read_file (run_ops (failing_write_bytes True ''tmp'' 2 ''current'' [9] 4 0) demo_disk) ''current'' = Some [9] \<and>
   read_file (run_ops (failing_write_bytes True ''tmp'' 2 ''current'' [9] 2 0) demo_disk) ''current'' = Some [1, 2]"
proof -
  have d: "names demo_disk ''current'' \<noteq> Some 2" "names demo_disk ''tmp'' = None" "read_file demo_disk ''current'' = Some [1, 2]"
    by (simp_all add: demo_disk_def read_file_def)
  show ?thesis
    using failed_write_cleans_up [OF d(1,2), of 4 True "[9]" 0] failed_write_cleans_up [OF d(1,2), of 2 True "[9]" 0] d(3)
    by (simp add: atomic_write_bytes_def)
qed

subsection \<open>The staged updater\<close>

text \<open>The root directory: the staged versions and the text of the pointer file. What the health probe
  answers for a staged path is an argument; an atomic write of the pointer is one step.\<close>

record updater =
  up_root :: string
  up_versions :: "string list"
  up_pointer :: "string option"

record update_result =
  ur_ok :: bool
  ur_active :: string
  ur_rolled_back :: bool
  ur_detail :: string

definition up_active :: "updater \<Rightarrow> string option" where
  "up_active u = (case up_pointer u of None \<Rightarrow> None | Some t \<Rightarrow> if strip t = [] then None else Some (strip t))"

definition up_stage :: "string \<Rightarrow> updater \<Rightarrow> string \<times> updater" where
  "up_stage version u =
     (up_root u @ ''/versions/'' @ version,
      if version \<in> set (up_versions u) then u else u\<lparr>up_versions := up_versions u @ [version]\<rparr>)"

definition install_initial :: "string \<Rightarrow> updater \<Rightarrow> updater" where
  "install_initial version u = (snd (up_stage version u))\<lparr>up_pointer := Some version\<rparr>"

definition up_apply :: "string \<Rightarrow> (string \<Rightarrow> py_exn + bool) \<Rightarrow> updater \<Rightarrow> (py_exn + update_result) \<times> updater" where
  "up_apply version health_probe u =
     (let previous = up_active u; (staged, u1) = up_stage version u in
      case health_probe staged of
        Inl e \<Rightarrow>
          if \<not> isinstance e ''Exception'' then (Inl e, u1)
          else (Inr \<lparr>ur_ok = False, ur_active = (case previous of None \<Rightarrow> [] | Some p \<Rightarrow> p), ur_rolled_back = True,
                  ur_detail = ''health probe failed; rolled back. '' @ take 200 (exn_msg e)\<rparr>,
                case previous of None \<Rightarrow> u1 | Some p \<Rightarrow> u1\<lparr>up_pointer := Some p\<rparr>)
      | Inr True \<Rightarrow>
          (Inr \<lparr>ur_ok = True, ur_active = version, ur_rolled_back = False, ur_detail = ''switched''\<rparr>, u1\<lparr>up_pointer := Some version\<rparr>)
      | Inr False \<Rightarrow>
          (Inr \<lparr>ur_ok = False, ur_active = (case previous of None \<Rightarrow> [] | Some p \<Rightarrow> p), ur_rolled_back = True,
             ur_detail = ''health probe failed; rolled back. ''\<rparr>,
           case previous of None \<Rightarrow> u1 | Some p \<Rightarrow> u1\<lparr>up_pointer := Some p\<rparr>))"

definition up_apply_all :: "(string \<times> (string \<Rightarrow> py_exn + bool)) list \<Rightarrow> updater \<Rightarrow> updater" where
  "up_apply_all ops u = foldl (\<lambda>u op. snd (up_apply (fst op) (snd op) u)) u ops"

lemma up_active_stage [simp]: "up_active (snd (up_stage v u)) = up_active u" "up_root (snd (up_stage v u)) = up_root u"
  by (simp_all add: up_stage_def up_active_def)

lemma up_active_set: "up_active (u\<lparr>up_pointer := Some v\<rparr>) = (if strip v = [] then None else Some (strip v))"
  by (simp add: up_active_def)

lemma up_active_stripped: "up_active u = Some p \<Longrightarrow> strip p = p \<and> p \<noteq> []"
  by (auto simp: up_active_def split: option.splits if_splits)

lemma up_apply_active:
  "up_active (snd (up_apply v probe u)) =
     (if probe (up_root u @ ''/versions/'' @ v) = Inr True then (if strip v = [] then None else Some (strip v)) else up_active u)"
  "up_root (snd (up_apply v probe u)) = up_root u"
proof -
  obtain st u1 where s: "up_stage v u = (st, u1)" by (cases "up_stage v u")
  have u1: "up_active u1 = up_active u" "up_root u1 = up_root u" using up_active_stage [of v u] s by simp_all
  have st: "st = up_root u @ ''/versions/'' @ v" using s by (simp add: up_stage_def)
  have keep: "up_active (case up_active u of None \<Rightarrow> u1 | Some p \<Rightarrow> u1\<lparr>up_pointer := Some p\<rparr>) = up_active u"
    "up_root (case up_active u of None \<Rightarrow> u1 | Some p \<Rightarrow> u1\<lparr>up_pointer := Some p\<rparr>) = up_root u"
    using u1 by (auto simp: up_active_set dest: up_active_stripped split: option.splits)
  show "up_active (snd (up_apply v probe u)) =
     (if probe (up_root u @ ''/versions/'' @ v) = Inr True then (if strip v = [] then None else Some (strip v)) else up_active u)"
    "up_root (snd (up_apply v probe u)) = up_root u"
    using keep u1 by (auto simp: up_apply_def s st Let_def up_active_set split: sum.splits bool.splits)
qed

text \<open>The pointer never moves to an unhealthy build. Over any sequence of updates, with whatever probes,
  passing, failing or raising, the active version at the end is the one at the start or a version
  whose own probe passed; and an update that is not healthy leaves the active version as it was.\<close>

theorem pointer_only_healthy:
  "(up_active (up_apply_all ops u) = up_active u \<or>
    (\<exists>(v, probe)\<in>set ops. probe (up_root u @ ''/versions/'' @ v) = Inr True \<and>
       up_active (up_apply_all ops u) = (if strip v = [] then None else Some (strip v)))) \<and>
   (probe (up_root u @ ''/versions/'' @ v) \<noteq> Inr True \<longrightarrow> up_active (snd (up_apply v probe u)) = up_active u)"
proof -
  have "(up_active (up_apply_all ops u) = up_active u \<or>
    (\<exists>(v, probe)\<in>set ops. probe (up_root u @ ''/versions/'' @ v) = Inr True \<and>
       up_active (up_apply_all ops u) = (if strip v = [] then None else Some (strip v))))"
  proof (induction ops arbitrary: u)
    case (Cons op ops)
    let ?u1 = "snd (up_apply (fst op) (snd op) u)"
    have "up_apply_all (op # ops) u = up_apply_all ops ?u1" by (simp add: up_apply_all_def)
    with Cons.IH [of ?u1] show ?case
      by (cases op) (auto simp: up_apply_active split: if_splits)
  qed (simp add: up_apply_all_def)
  then show ?thesis by (simp add: up_apply_active)
qed

theorem pointer_only_healthy_witness:
  "up_active (snd (up_apply ''2.0.0'' (\<lambda>_. Inl (mk_exn ''OSError'' ''boom''))
     (install_initial ''1.0.0'' \<lparr>up_root = ''r'', up_versions = [], up_pointer = None\<rparr>))) = Some ''1.0.0''"
proof -
  let ?u = "install_initial ''1.0.0'' \<lparr>up_root = ''r'', up_versions = [], up_pointer = None\<rparr>"
  have "strip ''1.0.0'' = ''1.0.0''" by code_simp
  then have "up_active ?u = Some ''1.0.0''" by (simp add: install_initial_def up_active_set)
  with pointer_only_healthy [of "[]" ?u "\<lambda>_. Inl (mk_exn ''OSError'' ''boom'')" "''2.0.0''"] show ?thesis by simp
qed

end
