(* ===== verification/Migrations.thy ===== *)
theory Migrations
  imports Prelude
begin

text \<open>
  Forward-only schema migrations (\<open>scr/migrations.py\<close>). A database is its content, of any type, and
  the schema version kept with it; a migration may leave any content behind and may raise at any point.
  Taking and restoring a snapshot succeed. A version is an integer that the signed 32-bit field \<open>user_version\<close>
  of a SQLite database holds; a registry with others is outside the model.
\<close>

typedef version = "{v :: int. - (2 ^ 31) \<le> v \<and> v < 2 ^ 31}"
  morphisms version_int Abs_version
  by (rule exI [of _ 0]) simp

setup_lifting type_definition_version

lift_definition mk_version :: "int \<Rightarrow> version" is "\<lambda>i. if - (2 ^ 31) \<le> i \<and> i < 2 ^ 31 then i else 0"
  by simp

instantiation version :: linorder
begin

lift_definition less_eq_version :: "version \<Rightarrow> version \<Rightarrow> bool" is "(\<le>)" .

lift_definition less_version :: "version \<Rightarrow> version \<Rightarrow> bool" is "(<)" .

instance
  by standard (transfer; auto)+

end

record 'd database =
  db_content :: 'd
  user_version :: version

record 'd migration =
  mg_version :: version
  mg_name :: string
  mg_apply :: "'d database \<Rightarrow> py_exn option \<times> 'd database"

definition migration_error :: "string \<Rightarrow> py_exn" where
  "migration_error msg = mk_exn ''MigrationError'' msg"

definition current_version :: "'d database \<Rightarrow> version" where
  "current_version db = user_version db"

definition snapshot :: "'d database \<Rightarrow> 'd database" where
  "snapshot db = db"

definition restore :: "'d database \<Rightarrow> 'd database \<Rightarrow> 'd database" where
  "restore snap db = snap"

text \<open>The first version that repeats an earlier one of the sorted registry.\<close>

fun duplicate_version :: "version set \<Rightarrow> 'd migration list \<Rightarrow> version option" where
  "duplicate_version seen [] = None"
| "duplicate_version seen (m # ms) =
     (if mg_version m \<in> seen then Some (mg_version m) else duplicate_version (insert (mg_version m) seen) ms)"

text \<open>One migration behind its snapshot: what is not an \<open>Exception\<close> is not caught.\<close>

definition migrate_one :: "'d migration \<Rightarrow> 'd database \<Rightarrow> (py_exn + unit) \<times> 'd database" where
  "migrate_one m db =
     (let snap = snapshot db in
      case mg_apply m db of
        (None, db1) \<Rightarrow> (Inr (), db1\<lparr>user_version := mg_version m\<rparr>)
      | (Some e, db1) \<Rightarrow>
          if isinstance e ''Exception'' then
            (Inl (migration_error (''migration '' @ int_str (version_int (mg_version m)) @ '' ('' @ mg_name m @ '') failed; DB restored: '' @ exn_msg e)),
             restore snap db1)
          else (Inl e, db1))"

fun migrate_all ::
  "int option \<Rightarrow> 'd migration list \<Rightarrow> 'd database \<Rightarrow> (py_exn + (version \<times> string) list) \<times> 'd database" where
  "migrate_all target [] db = (Inr [], db)"
| "migrate_all target (m # ms) db =
     (if mg_version m \<le> current_version db then migrate_all target ms db
      else if (\<exists>t. target = Some t \<and> version_int (mg_version m) > t) then (Inr [], db)
      else
        (case migrate_one m db of
           (Inl e, db1) \<Rightarrow> (Inl e, db1)
         | (Inr _, db1) \<Rightarrow>
             (case migrate_all target ms db1 of
                (Inl e, db2) \<Rightarrow> (Inl e, db2)
              | (Inr applied, db2) \<Rightarrow> (Inr ((mg_version m, mg_name m) # applied), db2))))"

definition migrate ::
  "'d migration list \<Rightarrow> int option \<Rightarrow> 'd database \<Rightarrow> (py_exn + (version \<times> string) list) \<times> 'd database" where
  "migrate migrations target db =
     (let ordered = sort_key mg_version migrations in
      case duplicate_version {} ordered of
        Some v \<Rightarrow> (Inl (migration_error (''duplicate migration version '' @ int_str (version_int v))), db)
      | None \<Rightarrow> migrate_all target ordered db)"

subsection \<open>Which migrations are due\<close>

text \<open>The reference: the migrations above the current version and not above the target, in order.\<close>

definition pending :: "int option \<Rightarrow> version \<Rightarrow> 'd migration list \<Rightarrow> 'd migration list" where
  "pending target v ms = filter (\<lambda>m. mg_version m > v \<and> (\<forall>t. target = Some t \<longrightarrow> version_int (mg_version m) \<le> t)) ms"

definition due :: "int option \<Rightarrow> version \<Rightarrow> 'd migration list \<Rightarrow> 'd migration list" where
  "due target v ms = pending target v (sort_key mg_version ms)"

text \<open>Applying a list of migrations one after the other, each of which succeeds.\<close>

inductive applies :: "'d migration list \<Rightarrow> 'd database \<Rightarrow> 'd database \<Rightarrow> bool" where
  Done: "applies [] db db"
| Step: "mg_apply m db = (None, db1) \<Longrightarrow> applies ms (db1\<lparr>user_version := mg_version m\<rparr>) db' \<Longrightarrow> applies (m # ms) db db'"

inductive_cases applies_NilE: "applies [] db db'"
inductive_cases applies_ConsE: "applies (m # ms) db db'"

lemma duplicate_None: "duplicate_version seen ms = None \<longleftrightarrow> distinct (map mg_version ms) \<and> seen \<inter> set (map mg_version ms) = {}"
  by (induction ms arbitrary: seen) auto

lemma migrate_all_spec:
  "sorted (map mg_version ms) \<Longrightarrow> distinct (map mg_version ms) \<Longrightarrow> migrate_all target ms db = (r, db') \<Longrightarrow>
   case r of
      Inr applied \<Rightarrow> applied = map (\<lambda>m. (mg_version m, mg_name m)) (pending target (user_version db) ms) \<and>
        applies (pending target (user_version db) ms) db db'
    | Inl e \<Rightarrow> isinstance e ''Exception'' \<longrightarrow> (\<exists>pre m post. pending target (user_version db) ms = pre @ m # post \<and>
        applies pre db db' \<and> (\<exists>x. fst (mg_apply m db') = Some x \<and> isinstance x ''Exception''))"
proof (induction ms arbitrary: db r db')
  case Nil
  then show ?case by (auto simp: pending_def intro: applies.Done)
next
  case (Cons m ms)
  have s: "sorted (map mg_version ms)" "distinct (map mg_version ms)" using Cons.prems by simp_all
  have later: "x \<in> set ms \<Longrightarrow> mg_version m < mg_version x" for x
    using Cons.prems(1,2) by (force simp: le_less)
  then have later_int: "x \<in> set ms \<Longrightarrow> version_int (mg_version m) < version_int (mg_version x)" for x by (simp add: less_version.rep_eq)
  consider (skip) "mg_version m \<le> user_version db"
    | (stop) t where "mg_version m > user_version db" "target = Some t" "version_int (mg_version m) > t" "\<not> mg_version m \<le> user_version db"
    | (go) "mg_version m > user_version db" "\<forall>t. target = Some t \<longrightarrow> version_int (mg_version m) \<le> t" "\<not> mg_version m \<le> user_version db"
    using leI not_le by blast
  then show ?case
  proof cases
    case skip
    with Cons.prems(3) have "migrate_all target ms db = (r, db')" by (simp add: current_version_def)
    from Cons.IH [OF s this] have ih: "case r of
        Inr applied \<Rightarrow> applied = map (\<lambda>m. (mg_version m, mg_name m)) (pending target (user_version db) ms) \<and>
          applies (pending target (user_version db) ms) db db'
      | Inl e \<Rightarrow> isinstance e ''Exception'' \<longrightarrow> (\<exists>pre m post. pending target (user_version db) ms = pre @ m # post \<and>
          applies pre db db' \<and> (\<exists>x. fst (mg_apply m db') = Some x \<and> isinstance x ''Exception''))" .
    have "pending target (user_version db) (m # ms) = pending target (user_version db) ms"
      using skip by (auto simp: pending_def dest: leD)
    with ih show ?thesis by (simp only:)
  next
    case stop
    have "pending target (user_version db) (m # ms) = []"
      using stop later_int by (force simp: pending_def filter_empty_conv)
    with stop Cons.prems(3) show ?thesis by (auto simp: current_version_def intro: applies.Done)
  next
    case go
    have "pending target (user_version db) ms = pending target (mg_version m) ms"
      unfolding pending_def using later go(1) by (intro filter_cong) force+
    then have todo: "pending target (user_version db) (m # ms) = m # pending target (mg_version m) ms"
      using go by (simp add: pending_def)
    obtain x db1 where x: "mg_apply m db = (x, db1)" by (cases "mg_apply m db")
    show ?thesis
    proof (cases x)
      case None
      let ?db1 = "db1\<lparr>user_version := mg_version m\<rparr>"
      obtain r2 db2 where m2: "migrate_all target ms ?db1 = (r2, db2)" by (cases "migrate_all target ms ?db1")
      have run: "r = (case r2 of Inl e \<Rightarrow> Inl e | Inr a \<Rightarrow> Inr ((mg_version m, mg_name m) # a))" "db' = db2"
        using Cons.prems(3) go x None m2 by (auto simp: migrate_one_def current_version_def Let_def split: sum.splits if_splits)
      have step: "applies ms' ?db1 d \<Longrightarrow> applies (m # ms') db d" for ms' d
        using x None by (auto intro: applies.Step)
      show ?thesis
      proof (cases r2)
        case (Inr a)
        with Cons.IH [OF s m2] run step todo show ?thesis by simp
      next
        case (Inl e)
        with Cons.IH [OF s m2] have "isinstance e ''Exception'' \<Longrightarrow> \<exists>pre q post. pending target (mg_version m) ms = pre @ q # post \<and>
            applies pre ?db1 db2 \<and> (\<exists>x. fst (mg_apply q db2) = Some x \<and> isinstance x ''Exception'')" by simp
        then have "isinstance e ''Exception'' \<Longrightarrow> \<exists>pre q post. pending target (user_version db) (m # ms) = pre @ q # post \<and>
            applies pre db db2 \<and> (\<exists>x. fst (mg_apply q db2) = Some x \<and> isinstance x ''Exception'')"
          unfolding todo using step by (metis append_Cons)
        then show ?thesis using Inl run by simp
      qed
    next
      case (Some e)
      then show ?thesis using Cons.prems(3) go x unfolding todo
        by (auto simp: migrate_one_def current_version_def restore_def snapshot_def Let_def intro!: exI [of _ "[]"] applies.Done split: if_splits)
    qed
  qed
qed

lemma applies_version: "applies ms db db' \<Longrightarrow> user_version db' = (if ms = [] then user_version db else mg_version (last ms))"
  by (induction rule: applies.induct) auto

lemma due_sorted: "sorted (map mg_version (due target v ms))" "m \<in> set (due target v ms) \<Longrightarrow> v < mg_version m"
  by (auto simp: due_def pending_def intro: sorted_filter)

text \<open>C35: Migrations apply in order, completely or not at all. With distinct versions, a successful call has
  applied exactly the migrations that are due, in version order, and the schema version is that of the
  last one; a call that a migration's exception ended leaves the database exactly as the migrations
  before the failing one left it; two migrations with one version are refused with the database
  untouched. The schema version never decreases.\<close>

theorem migrate_in_order:
  assumes m: "migrate ms target db = (r, db')"
  shows "if \<not> distinct (map mg_version ms) then (\<exists>e. r = Inl e) \<and> db' = db
    else (case r of
        Inr applied \<Rightarrow> applied = map (\<lambda>m. (mg_version m, mg_name m)) (due target (user_version db) ms) \<and>
          applies (due target (user_version db) ms) db db' \<and> user_version db \<le> user_version db'
      | Inl e \<Rightarrow> isinstance e ''Exception'' \<longrightarrow> (\<exists>pre q post. due target (user_version db) ms = pre @ q # post \<and>
          applies pre db db' \<and> user_version db \<le> user_version db' \<and>
          (\<exists>x. fst (mg_apply q db') = Some x \<and> isinstance x ''Exception'')))"
proof -
  let ?o = "sort_key mg_version ms"
  have d: "distinct (map mg_version ?o) \<longleftrightarrow> distinct (map mg_version ms)" by (simp add: distinct_map)
  have v: "user_version db \<le> user_version d" if "applies xs db d" "set xs \<subseteq> set (due target (user_version db) ms)" for xs d
    using applies_version [OF that(1)] that(2) due_sorted(2) [of "last xs" target "user_version db" ms] by (cases xs rule: rev_cases) auto
  show ?thesis
  proof (cases "distinct (map mg_version ms)")
    case False
    then obtain k where "duplicate_version {} ?o = Some k" using duplicate_None [of "{}" ?o] d by (cases "duplicate_version {} ?o") auto
    with m False show ?thesis by (auto simp: migrate_def Let_def)
  next
    case True
    then have "duplicate_version {} ?o = None" using duplicate_None [of "{}" ?o] d by simp
    with m have "migrate_all target ?o db = (r, db')" by (simp add: migrate_def Let_def)
    then have spec: "case r of
      Inr applied \<Rightarrow> applied = map (\<lambda>m. (mg_version m, mg_name m)) (due target (user_version db) ms) \<and>
        applies (due target (user_version db) ms) db db'
    | Inl e \<Rightarrow> isinstance e ''Exception'' \<longrightarrow> (\<exists>pre m post. due target (user_version db) ms = pre @ m # post \<and>
        applies pre db db' \<and> (\<exists>x. fst (mg_apply m db') = Some x \<and> isinstance x ''Exception''))"
      unfolding due_def using True d by (intro migrate_all_spec) simp_all
    show ?thesis
    proof (cases r)
      case (Inr a)
      with spec v [of "due target (user_version db) ms"] True show ?thesis by simp
    next
      case (Inl e)
      show ?thesis
      proof (cases "isinstance e ''Exception''")
        case ex: True
        with spec Inl obtain pre q post where p: "due target (user_version db) ms = pre @ q # post" "applies pre db db'"
          "\<exists>x. fst (mg_apply q db') = Some x \<and> isinstance x ''Exception''" by auto
        with v [OF p(2)] True Inl show ?thesis by auto
      qed (use Inl True in simp)
    qed
  qed
qed

definition demo_migrations :: "nat migration list" where
  "demo_migrations =
    [\<lparr>mg_version = mk_version 2, mg_name = ''b'', mg_apply = (\<lambda>db. (Some (mk_exn ''OperationalError'' ''x''), db\<lparr>db_content := 99\<rparr>))\<rparr>,
     \<lparr>mg_version = mk_version 1, mg_name = ''a'', mg_apply = (\<lambda>db. (None, db\<lparr>db_content := db_content db + 1\<rparr>))\<rparr>]"

lemma mk_version_order:
  assumes "- (2 ^ 31) \<le> i" "i < 2 ^ 31" "- (2 ^ 31) \<le> j" "j < 2 ^ 31"
  shows "mk_version i \<le> mk_version j \<longleftrightarrow> i \<le> j" "mk_version i = mk_version j \<longleftrightarrow> i = j"
  using assms by (transfer; simp)+

theorem migrate_in_order_witness:
  "\<exists>e db'. migrate demo_migrations None \<lparr>db_content = 0, user_version = mk_version 0\<rparr> = (Inl e, db') \<and> isinstance e ''Exception'' \<and>
     mk_version 0 \<le> user_version db'"
proof -
  let ?db = "\<lparr>db_content = 0, user_version = mk_version 0\<rparr> :: nat database"
  obtain r db' where m: "migrate demo_migrations None ?db = (r, db')" by (cases "migrate demo_migrations None ?db")
  have "\<exists>e. r = Inl e \<and> isinstance e ''Exception''"
    using m by (auto simp: mk_version_order migrate_def demo_migrations_def current_version_def migrate_one_def isinstance_def mk_exn_def migration_error_def Let_def)
  with migrate_in_order [OF m] m show ?thesis by (auto simp: demo_migrations_def mk_version_order)
qed

end
