(* ===== verification/Locks.thy ===== *)
theory Locks
  imports Prelude
begin

text \<open>
  The workspace lock (\<open>scr/locks.py\<close>): the operating system's advisory lock on the lock file, the
  metadata sidecar, acquiring, releasing, probing and breaking. The lock path names a file or nothing;
  the advisory lock belongs to the file, not to the name, and to one open handle. The operations are
  composed of system calls, and a transition system interleaves the same calls of several processes.
  Times are whole seconds; a sidecar that cannot be read counts as absent.
\<close>

subsection \<open>Files and locks\<close>

record lock_meta =
  lm_pid :: int
  lm_boot :: string
  lm_host :: string
  lm_beat :: int

record lock_fs =
  lk_path :: "nat option"
  lk_fresh :: nat
  lk_owner :: "nat \<Rightarrow> nat option"
  lk_meta :: "lock_meta option"

definition sys_open :: "lock_fs \<Rightarrow> nat \<times> lock_fs" where
  "sys_open fs =
     (case lk_path fs of
        Some i \<Rightarrow> (i, fs)
      | None \<Rightarrow> (lk_fresh fs, fs\<lparr>lk_path := Some (lk_fresh fs), lk_fresh := Suc (lk_fresh fs)\<rparr>))"

definition os_lock :: "nat \<Rightarrow> nat \<Rightarrow> lock_fs \<Rightarrow> bool \<times> lock_fs" where
  "os_lock h i fs = (if lk_owner fs i = None then (True, fs\<lparr>lk_owner := (lk_owner fs)(i := Some h)\<rparr>) else (False, fs))"

definition os_unlock :: "nat \<Rightarrow> nat \<Rightarrow> lock_fs \<Rightarrow> lock_fs" where
  "os_unlock h i fs = (if lk_owner fs i = Some h then fs\<lparr>lk_owner := (lk_owner fs)(i := None)\<rparr> else fs)"

definition write_meta :: "lock_meta \<Rightarrow> lock_fs \<Rightarrow> lock_fs" where
  "write_meta m fs = fs\<lparr>lk_meta := Some m\<rparr>"

subsection \<open>Operations\<close>

record lock_status =
  lst_state :: string
  lst_holder :: "lock_meta option"

definition reclaimable :: "lock_status \<Rightarrow> bool" where
  "reclaimable s \<longleftrightarrow> lst_state s \<in> {''free'', ''stale_other_boot'', ''stale_heartbeat''}"

definition acquire :: "nat \<Rightarrow> lock_meta \<Rightarrow> string \<Rightarrow> lock_fs \<Rightarrow> (py_exn + nat) \<times> lock_fs" where
  "acquire h m path fs =
     (case sys_open fs of (i, fs1) \<Rightarrow>
        (case os_lock h i fs1 of
           (False, fs2) \<Rightarrow> (Inl (mk_exn ''LockHeld'' (''workspace lock held: '' @ path)), fs2)
         | (True, fs2) \<Rightarrow> (Inr i, write_meta m fs2)))"

definition heartbeat :: "nat option \<Rightarrow> lock_meta \<Rightarrow> lock_fs \<Rightarrow> lock_fs" where
  "heartbeat fh m fs = (case fh of None \<Rightarrow> fs | Some _ \<Rightarrow> write_meta m fs)"

definition release :: "nat \<Rightarrow> nat option \<Rightarrow> lock_fs \<Rightarrow> lock_fs" where
  "release h fh fs = (case fh of None \<Rightarrow> fs | Some i \<Rightarrow> (os_unlock h i fs)\<lparr>lk_meta := None\<rparr>)"

definition probe :: "nat \<Rightarrow> string \<Rightarrow> int \<Rightarrow> int \<Rightarrow> lock_fs \<Rightarrow> lock_status \<times> lock_fs" where
  "probe h boot now stale_after fs =
     (let meta = lk_meta fs; status = (\<lambda>s. \<lparr>lst_state = s, lst_holder = meta\<rparr>) in
      if lk_path fs = None then (status ''free'', fs)
      else
        (case sys_open fs of (i, fs1) \<Rightarrow>
           (case os_lock h i fs1 of
              (True, fs2) \<Rightarrow>
                (let fs3 = os_unlock h i fs2 in
                 if (\<exists>m. meta = Some m \<and> lm_boot m \<noteq> boot) then (status ''stale_other_boot'', fs3) else (status ''free'', fs3))
            | (False, fs2) \<Rightarrow>
                if (\<exists>m. meta = Some m \<and> now - lm_beat m > stale_after) then (status ''stale_heartbeat'', fs2)
                else (status ''live'', fs2))))"

definition break_stale :: "nat \<Rightarrow> string \<Rightarrow> int \<Rightarrow> int \<Rightarrow> lock_fs \<Rightarrow> bool \<times> lock_fs" where
  "break_stale h boot now stale_after fs =
     (case probe h boot now stale_after fs of (status, fs1) \<Rightarrow>
        if lst_state status = ''live'' then (False, fs1)
        else
          (let fs2 = fs1\<lparr>lk_meta := None\<rparr> in
           case sys_open fs2 of (i, fs3) \<Rightarrow>
             (case os_lock h i fs3 of
                (True, fs4) \<Rightarrow> (True, (os_unlock h i fs4)\<lparr>lk_path := None\<rparr>)
              | (False, fs4) \<Rightarrow> (True, fs4))))"

subsection \<open>Interleavings\<close>

text \<open>What a process is doing: between the calls of \<open>acquire\<close>, of \<open>release\<close>, of \<open>probe\<close>, which takes the lock for a
  moment when it is free, and of the last part of \<open>break_stale\<close>, whose probe is one step.\<close>

datatype proc =
    Idle
  | Opened nat
  | Held nat
  | Releasing
  | Probe_opened nat
  | Probe_locked nat
  | Break_opened nat
  | Break_locked nat
  | Break_unlocked

type_synonym system = "lock_fs \<times> (nat \<Rightarrow> proc)"

inductive lock_step :: "bool \<Rightarrow> system \<Rightarrow> system \<Rightarrow> bool" for breaking where
  Open: "ps h = Idle \<Longrightarrow> sys_open fs = (i, fs') \<Longrightarrow> lock_step breaking (fs, ps) (fs', ps(h := Opened i))"
| Lock: "ps h = Opened i \<Longrightarrow> os_lock h i fs = (True, fs') \<Longrightarrow> lock_step breaking (fs, ps) (write_meta m fs', ps(h := Held i))"
| Fail: "ps h = Opened i \<Longrightarrow> os_lock h i fs = (False, fs') \<Longrightarrow> lock_step breaking (fs, ps) (fs', ps(h := Idle))"
| Beat: "ps h = Held i \<Longrightarrow> lock_step breaking (fs, ps) (write_meta m fs, ps)"
| Unlock: "ps h = Held i \<Longrightarrow> lock_step breaking (fs, ps) (os_unlock h i fs, ps(h := Releasing))"
| Unlink_meta: "ps h = Releasing \<Longrightarrow> lock_step breaking (fs, ps) (fs\<lparr>lk_meta := None\<rparr>, ps(h := Idle))"
| Die: "lock_step breaking (fs, ps) (fs\<lparr>lk_owner := (\<lambda>i. if lk_owner fs i = Some h then None else lk_owner fs i)\<rparr>, ps(h := Idle))"
| Probe_open: "ps h = Idle \<Longrightarrow> lk_path fs \<noteq> None \<Longrightarrow> sys_open fs = (i, fs') \<Longrightarrow> lock_step breaking (fs, ps) (fs', ps(h := Probe_opened i))"
| Probe_lock: "ps h = Probe_opened i \<Longrightarrow> os_lock h i fs = (True, fs') \<Longrightarrow> lock_step breaking (fs, ps) (fs', ps(h := Probe_locked i))"
| Probe_held: "ps h = Probe_opened i \<Longrightarrow> os_lock h i fs = (False, fs') \<Longrightarrow> lock_step breaking (fs, ps) (fs', ps(h := Idle))"
| Probe_unlock: "ps h = Probe_locked i \<Longrightarrow> lock_step breaking (fs, ps) (os_unlock h i fs, ps(h := Idle))"
| Break_open: "breaking \<Longrightarrow> ps h = Idle \<Longrightarrow> lst_state (fst (probe h boot now stale_after fs)) \<noteq> ''live'' \<Longrightarrow>
    sys_open (fs\<lparr>lk_meta := None\<rparr>) = (i, fs') \<Longrightarrow> lock_step breaking (fs, ps) (fs', ps(h := Break_opened i))"
| Break_lock: "ps h = Break_opened i \<Longrightarrow> os_lock h i fs = (True, fs') \<Longrightarrow> lock_step breaking (fs, ps) (fs', ps(h := Break_locked i))"
| Break_fail: "ps h = Break_opened i \<Longrightarrow> os_lock h i fs = (False, fs') \<Longrightarrow> lock_step breaking (fs, ps) (fs', ps(h := Idle))"
| Break_unlock: "ps h = Break_locked i \<Longrightarrow> lock_step breaking (fs, ps) (os_unlock h i fs, ps(h := Break_unlocked))"
| Break_unlink: "ps h = Break_unlocked \<Longrightarrow> lock_step breaking (fs, ps) (fs\<lparr>lk_path := None\<rparr>, ps(h := Idle))"

inductive_cases lock_stepE: "lock_step breaking s s'"

abbreviation lock_reach :: "bool \<Rightarrow> system \<Rightarrow> system \<Rightarrow> bool" where
  "lock_reach breaking \<equiv> (lock_step breaking)\<^sup>*\<^sup>*"

definition lock_start :: system where
  "lock_start = (\<lparr>lk_path = None, lk_fresh = 0, lk_owner = (\<lambda>_. None), lk_meta = None\<rparr>, \<lambda>_. Idle)"

text \<open>Without breaking, every process that has the file open has the one the path names, and a holder owns
  its advisory lock.\<close>

fun proc_ok :: "lock_fs \<Rightarrow> nat \<Rightarrow> proc \<Rightarrow> bool" where
  "proc_ok fs h (Opened i) = (lk_path fs = Some i)"
| "proc_ok fs h (Held i) = (lk_path fs = Some i \<and> lk_owner fs i = Some h)"
| "proc_ok fs h Idle = True"
| "proc_ok fs h Releasing = True"
| "proc_ok fs h (Probe_opened i) = (lk_path fs = Some i)"
| "proc_ok fs h (Probe_locked i) = (lk_path fs = Some i \<and> lk_owner fs i = Some h)"
| "proc_ok fs h p = False"

definition lock_inv :: "system \<Rightarrow> bool" where
  "lock_inv s \<longleftrightarrow> (\<forall>h. proc_ok (fst s) h (snd s h))"

lemma proc_ok_mono:
  "proc_ok fs h p \<Longrightarrow> (\<And>i. lk_path fs = Some i \<Longrightarrow> lk_path fs' = Some i) \<Longrightarrow>
   (\<And>i. lk_owner fs i = Some h \<Longrightarrow> lk_owner fs' i = Some h) \<Longrightarrow> proc_ok fs' h p"
  by (cases p) auto

lemma lock_invD: "lock_inv (fs, ps) \<Longrightarrow> proc_ok fs h (ps h)"
  by (simp add: lock_inv_def)

lemma lock_invI:
  assumes "lock_inv (fs, ps)" and "proc_ok fs' h p"
    and "\<And>i. lk_path fs = Some i \<Longrightarrow> lk_path fs' = Some i"
    and "\<And>k i. k \<noteq> h \<Longrightarrow> lk_owner fs i = Some k \<Longrightarrow> lk_owner fs' i = Some k"
  shows "lock_inv (fs', ps(h := p))"
  using assms proc_ok_mono [of fs _ _ fs'] by (auto simp: lock_inv_def)

lemma lock_inv_step:
  assumes "lock_step False s s'" and inv: "lock_inv s"
  shows "lock_inv s'"
  using assms(1)
proof cases
  case (Open ps h fs i fs')
  then show ?thesis using inv
    by (simp, intro lock_invI [of fs]) (auto simp: sys_open_def split: option.splits)
next
  case (Lock ps h i fs fs' m)
  have "lk_path fs = Some i" using lock_invD [of fs ps h] inv Lock by simp
  then show ?thesis using inv Lock
    by (simp, intro lock_invI [of fs]) (auto simp: os_lock_def write_meta_def split: if_splits)
next
  case (Fail ps h i fs fs')
  then show ?thesis using inv
    by (simp, intro lock_invI [of fs]) (auto simp: os_lock_def split: if_splits)
next
  case (Beat ps h i fs m)
  then have "lock_inv (write_meta m fs, ps(h := Held i))" using inv lock_invD [of fs ps h]
    by (intro lock_invI [of fs]) (auto simp: write_meta_def)
  then show ?thesis using Beat fun_upd_triv [of ps h] by simp
next
  case (Unlock ps h i fs)
  then show ?thesis using inv
    by (simp, intro lock_invI [of fs]) (auto simp: os_unlock_def)
next
  case (Unlink_meta ps h fs)
  then show ?thesis using inv by (simp, intro lock_invI [of fs]) auto
next
  case (Die fs h ps)
  then show ?thesis using inv by (simp, intro lock_invI [of fs]) auto
next
  case (Probe_open ps h fs i fs')
  then show ?thesis using inv
    by (simp, intro lock_invI [of fs]) (auto simp: sys_open_def split: option.splits)
next
  case (Probe_lock ps h i fs fs')
  have "lk_path fs = Some i" using lock_invD [of fs ps h] inv Probe_lock by simp
  then show ?thesis using inv Probe_lock
    by (simp, intro lock_invI [of fs]) (auto simp: os_lock_def split: if_splits)
next
  case (Probe_held ps h i fs fs')
  then show ?thesis using inv
    by (simp, intro lock_invI [of fs]) (auto simp: os_lock_def split: if_splits)
next
  case (Probe_unlock ps h i fs)
  then show ?thesis using inv
    by (simp, intro lock_invI [of fs]) (auto simp: os_unlock_def)
next
  case Break_open
  then show ?thesis by simp
next
  case (Break_lock ps h i fs fs')
  with inv lock_invD [of fs ps h] show ?thesis by simp
next
  case (Break_fail ps h i fs fs')
  with inv lock_invD [of fs ps h] show ?thesis by simp
next
  case (Break_unlock ps h i fs)
  with inv lock_invD [of fs ps h] show ?thesis by simp
next
  case (Break_unlink ps h fs)
  with inv lock_invD [of fs ps h] show ?thesis by simp
qed

lemma lock_inv_reach: "lock_reach False lock_start s \<Longrightarrow> lock_inv s"
proof (induction rule: rtranclp_induct)
  case base
  show ?case by (simp add: lock_inv_def lock_start_def)
next
  case (step y z)
  then show ?case using lock_inv_step by blast
qed

text \<open>C25: Mutual exclusion. As long as no one breaks a lock, at most one process holds the workspace lock,
  under every interleaving of the system calls of any number of acquiring, failing, heartbeating,
  releasing, probing and dying processes.\<close>

theorem lock_exclusion:
  assumes "lock_reach False lock_start (fs, ps)" and "ps h = Held i" and "ps h' = Held i'"
  shows "h = h'"
  using lock_invD [OF lock_inv_reach [OF assms(1)], of h] lock_invD [OF lock_inv_reach [OF assms(1)], of h'] assms(2,3) by auto

definition lock_file :: lock_fs where
  "lock_file = \<lparr>lk_path = Some 0, lk_fresh = 1, lk_owner = (\<lambda>_. None), lk_meta = None\<rparr>"

lemma lock_reach_step: "lock_step b s t \<Longrightarrow> lock_reach b t u \<Longrightarrow> lock_reach b s u"
  by (rule converse_rtranclp_into_rtranclp)

lemma start_open: "lock_step b lock_start (lock_file, (\<lambda>_. Idle)(1 := Opened 0))"
  using lock_step.Open [of "\<lambda>_. Idle" 1 "fst lock_start" 0 lock_file b]
  by (simp add: lock_start_def lock_file_def sys_open_def)

theorem lock_exclusion_witness:
  "\<exists>fs ps. lock_reach False lock_start (fs, ps) \<and> ps 1 = Held 0 \<and> (\<forall>h i. ps h = Held i \<longrightarrow> h = 1)"
proof -
  let ?m = "\<lparr>lm_pid = 1, lm_boot = [], lm_host = [], lm_beat = 0\<rparr>"
  let ?ps = "(\<lambda>_::nat. Idle)(1 := Opened 0)" and ?fs = "lock_file\<lparr>lk_owner := (lk_owner lock_file)(0 := Some 1)\<rparr>"
  have "lock_step False (lock_file, ?ps) (write_meta ?m ?fs, ?ps(1 := Held 0))"
    by (rule lock_step.Lock) (simp_all add: os_lock_def lock_file_def)
  then have r: "lock_reach False lock_start (write_meta ?m ?fs, ?ps(1 := Held 0))"
    by (intro lock_reach_step [OF start_open] r_into_rtranclp [of "lock_step False"])
  have one: "(?ps(1 := Held 0)) 1 = Held 0" by simp
  have "\<forall>h i. (?ps(1 := Held 0)) h = Held i \<longrightarrow> h = 1"
    using lock_exclusion [OF r _ one] by (intro allI impI)
  with r one show ?thesis by blast
qed

text \<open>A probe can make an acquisition fail. It takes the lock for a moment, and a process that tries to acquire it then is
  told that it is held, although nobody holds it.\<close>

theorem probe_blocks_acquire:
  "\<exists>fs ps. lock_reach False lock_start (fs, ps) \<and> (\<forall>h i. ps h \<noteq> Held i) \<and> (\<exists>e. fst (acquire 3 m p fs) = Inl e)"
proof -
  define p0 where "p0 = (\<lambda>_::nat. Idle)"
  define f1 where "f1 = lock_file\<lparr>lk_owner := (lk_owner lock_file)(0 := Some 1)\<rparr>"
  have 1: "lock_step False lock_start (lock_file, p0(1 := Opened 0))" unfolding p0_def by (rule start_open)
  have 2: "lock_step False (lock_file, p0(1 := Opened 0)) (lock_file, p0(1 := Idle))"
    using lock_step.Die [of False lock_file "p0(1 := Opened 0)" 1] by (simp add: lock_file_def)
  have 3: "lock_step False (lock_file, p0(1 := Idle)) (lock_file, p0(1 := Probe_opened 0))"
    using lock_step.Probe_open [of "p0(1 := Idle)" 1 lock_file 0 lock_file False] by (simp add: lock_file_def sys_open_def)
  have 4: "lock_step False (lock_file, p0(1 := Probe_opened 0)) (f1, p0(1 := Probe_locked 0))"
    using lock_step.Probe_lock [of "p0(1 := Probe_opened 0)" 1 0 lock_file f1 False] by (simp add: lock_file_def f1_def os_lock_def)
  have "lock_reach False lock_start (f1, p0(1 := Probe_locked 0))"
    by (rule lock_reach_step [OF 1] lock_reach_step [OF 2] lock_reach_step [OF 3] lock_reach_step [OF 4] rtranclp.rtrancl_refl)+
  moreover have "\<forall>h i. (p0(1 := Probe_locked 0)) h \<noteq> Held i" by (simp add: p0_def)
  moreover have "\<exists>e. fst (acquire 3 m p f1) = Inl e" by (simp add: acquire_def sys_open_def os_lock_def f1_def lock_file_def)
  ultimately show ?thesis by blast
qed

text \<open>Breaking loses mutual exclusion. \<open>break_stale\<close> unlocks the lock file before it removes its
  name: a process that takes the lock in between keeps it on a file without a name, and the next
  process creates a new lock file and holds that one at the same time.\<close>

theorem break_stale_two_holders:
  "\<exists>fs ps. lock_reach True lock_start (fs, ps) \<and> ps 1 = Held 0 \<and> ps 2 = Held 1"
proof -
  let ?m = "\<lparr>lm_pid = 1, lm_boot = [], lm_host = [], lm_beat = 0\<rparr>"
  define p0 where "p0 = (\<lambda>_::nat. Idle)"
  define f0 where "f0 = fst lock_start"
  define f2 where "f2 = lock_file\<lparr>lk_owner := (\<lambda>_. None)(0 := Some 0)\<rparr>"
  define f4 where "f4 = lock_file\<lparr>lk_owner := (\<lambda>_. None)(0 := Some 1), lk_meta := Some ?m\<rparr>"
  define f5 where "f5 = f4\<lparr>lk_path := None\<rparr>"
  define f6 where "f6 = f5\<lparr>lk_path := Some 1, lk_fresh := 2\<rparr>"
  define f7 where "f7 = f6\<lparr>lk_owner := (lk_owner f6)(1 := Some 2), lk_meta := Some ?m\<rparr>"
  note d = p0_def f0_def f2_def f4_def f5_def f6_def f7_def lock_start_def lock_file_def sys_open_def os_lock_def os_unlock_def write_meta_def
  have 1: "lock_step True lock_start (lock_file, p0(0 := Break_opened 0))"
    using lock_step.Break_open [of True p0 0 "[]" 0 0 f0 0 lock_file] by (simp add: d probe_def)
  have 2: "lock_step True (lock_file, p0(0 := Break_opened 0)) (f2, p0(0 := Break_locked 0))"
    using lock_step.Break_lock [of "p0(0 := Break_opened 0)" 0 0 lock_file f2 True] by (simp add: d)
  have 3: "lock_step True (f2, p0(0 := Break_locked 0)) (lock_file, p0(0 := Break_unlocked))"
  proof -
    have "os_unlock 0 0 f2 = lock_file" by (simp add: os_unlock_def f2_def lock_file_def)
    then show ?thesis using lock_step.Break_unlock [of "p0(0 := Break_locked 0)" 0 0 True f2] by simp
  qed
  have 4: "lock_step True (lock_file, p0(0 := Break_unlocked)) (lock_file, p0(0 := Break_unlocked, 1 := Opened 0))"
    using lock_step.Open [of "p0(0 := Break_unlocked)" 1 lock_file 0 lock_file True] by (simp add: d)
  have 5: "lock_step True (lock_file, p0(0 := Break_unlocked, 1 := Opened 0)) (f4, p0(0 := Break_unlocked, 1 := Held 0))"
    using lock_step.Lock [of "p0(0 := Break_unlocked, 1 := Opened 0)" 1 0 lock_file "lock_file\<lparr>lk_owner := (\<lambda>_. None)(0 := Some 1)\<rparr>" True ?m]
    by (simp add: d)
  have 6: "lock_step True (f4, p0(0 := Break_unlocked, 1 := Held 0)) (f5, p0(0 := Idle, 1 := Held 0))"
    using lock_step.Break_unlink [of "p0(0 := Break_unlocked, 1 := Held 0)" 0 True f4] by (simp add: d fun_upd_twist)
  have 7: "lock_step True (f5, p0(0 := Idle, 1 := Held 0)) (f6, p0(0 := Idle, 1 := Held 0, 2 := Opened 1))"
    using lock_step.Open [of "p0(0 := Idle, 1 := Held 0)" 2 f5 1 f6 True] by (simp add: d)
  have 8: "lock_step True (f6, p0(0 := Idle, 1 := Held 0, 2 := Opened 1)) (f7, p0(0 := Idle, 1 := Held 0, 2 := Held 1))"
    using lock_step.Lock [of "p0(0 := Idle, 1 := Held 0, 2 := Opened 1)" 2 1 f6 "f6\<lparr>lk_owner := (lk_owner f6)(1 := Some 2)\<rparr>" True ?m]
    by (simp add: d)
  have "lock_reach True lock_start (f7, p0(0 := Idle, 1 := Held 0, 2 := Held 1))"
    by (rule lock_reach_step [OF 1] lock_reach_step [OF 2] lock_reach_step [OF 3] lock_reach_step [OF 4]
        lock_reach_step [OF 5] lock_reach_step [OF 6] lock_reach_step [OF 7] lock_reach_step [OF 8] rtranclp.rtrancl_refl)+
  then show ?thesis by (rule_tac x = f7 in exI, rule_tac x = "p0(0 := Idle, 1 := Held 0, 2 := Held 1)" in exI) simp
qed

subsection \<open>Probing and breaking\<close>

lemma probe_frame: "lk_path fs \<noteq> None \<Longrightarrow> snd (probe h boot now stale fs) = fs"
  by (auto simp: probe_def sys_open_def os_lock_def os_unlock_def Let_def fun_upd_def intro!: lock_fs.equality)

text \<open>What probing and breaking answer. Probing changes nothing; it answers \<open>live\<close> exactly for a lock that
  is held and whose heartbeat is recent or unreadable, and breaking refuses exactly those. Breaking a lock
  that a hung process still holds answers that it was cleared, but the lock stays held and acquiring
  it still fails; breaking any other lock lets the next process acquire it.\<close>

theorem break_stale_effect:
  assumes path: "lk_path fs = Some i" and b: "break_stale h boot now stale fs = (r, fs')"
  defines "live \<equiv> lk_owner fs i \<noteq> None \<and> \<not> (\<exists>m. lk_meta fs = Some m \<and> now - lm_beat m > stale)"
  shows "probe h boot now stale fs = (fst (probe h boot now stale fs), fs) \<and>
    (lst_state (fst (probe h boot now stale fs)) = ''live'' \<longleftrightarrow> live) \<and> (r \<longleftrightarrow> \<not> live) \<and> (live \<longrightarrow> fs' = fs) \<and>
    (lk_owner fs i \<noteq> None \<longrightarrow> (\<exists>e. fst (acquire h' m p fs') = Inl e)) \<and>
    (lk_owner fs i = None \<and> lk_owner fs (lk_fresh fs) = None \<longrightarrow> (\<exists>j. fst (acquire h' m p fs') = Inr j))"
proof -
  have "snd (probe h boot now stale fs) = fs" using probe_frame path by simp
  then have "probe h boot now stale fs = (fst (probe h boot now stale fs), fs)" by (metis prod.collapse)
  moreover have l: "lst_state (fst (probe h boot now stale fs)) = ''live'' \<longleftrightarrow> live"
    using path by (auto simp: probe_def sys_open_def os_lock_def live_def Let_def)
  moreover have "r \<longleftrightarrow> \<not> live" "live \<longrightarrow> fs' = fs"
    using b path l calculation(1)
    by (auto simp: break_stale_def sys_open_def os_lock_def Let_def split: prod.splits if_splits option.splits)
  moreover have "lk_owner fs i \<noteq> None \<longrightarrow> (\<exists>e. fst (acquire h' m p fs') = Inl e)"
    using b path calculation(1)
    by (auto simp: break_stale_def acquire_def sys_open_def os_lock_def Let_def split: prod.splits if_splits option.splits)
  moreover have "lk_owner fs i = None \<and> lk_owner fs (lk_fresh fs) = None \<longrightarrow> (\<exists>j. fst (acquire h' m p fs') = Inr j)"
    using b path calculation(1) l
    by (auto simp: break_stale_def acquire_def sys_open_def os_lock_def os_unlock_def live_def Let_def split: prod.splits if_splits option.splits)
  ultimately show ?thesis by blast
qed

theorem break_stale_effect_witness:
  "let fs = \<lparr>lk_path = Some 0, lk_fresh = 1, lk_owner = (\<lambda>_. None)(0 := Some 1),
        lk_meta = Some \<lparr>lm_pid = 1, lm_boot = ''b'', lm_host = ''h'', lm_beat = 0\<rparr>\<rparr> in
   fst (break_stale 2 ''b'' 100 30 fs) \<and> (\<exists>e. fst (acquire 3 \<lparr>lm_pid = 3, lm_boot = ''b'', lm_host = ''h'', lm_beat = 100\<rparr> ''p'' (snd (break_stale 2 ''b'' 100 30 fs))) = Inl e)"
proof -
  let ?fs = "\<lparr>lk_path = Some 0, lk_fresh = 1, lk_owner = (\<lambda>_. None)(0 := Some 1),
        lk_meta = Some \<lparr>lm_pid = 1, lm_boot = ''b'', lm_host = ''h'', lm_beat = 0\<rparr>\<rparr>"
  have "lk_path ?fs = Some 0" by simp
  from break_stale_effect [OF this prod.collapse [symmetric], of 2 "''b''" 100 30 3 "\<lparr>lm_pid = 3, lm_boot = ''b'', lm_host = ''h'', lm_beat = 100\<rparr>" "''p''"]
  show ?thesis by (simp add: Let_def)
qed

end
