(* ===== verification/Secrets.thy ===== *)
theory Secrets
  imports Packages "HOL-Library.Sublist"
begin

text \<open>
  Where credentials are kept and kept out of: the vault (\<open>scr/vault.py\<close>) and the log filter with the JSON log formatter
  (\<open>scr/redaction.py\<close>, \<open>scr/observability.py\<close>). The Windows data protection API, the \<open>keyring\<close> package and the way the
  file system compares names are arguments; a write of a blob is the atomic replacement of \<open>scr/atomic.py\<close>. The secrets of the filter are scrubbed in some order, since they
  are kept in a set, and the regular-expression engine is given by what it makes of a text. A record's time is given
  as the number it is rounded to.
\<close>

subsection \<open>The vault\<close>

text \<open>The \<open>keyring\<close> package over its own state: passwords by service and user name.\<close>

record 'k keyring =
  kr_set :: "string \<Rightarrow> string \<Rightarrow> string \<Rightarrow> 'k \<Rightarrow> (py_exn + unit) \<times> 'k"
  kr_get :: "string \<Rightarrow> string \<Rightarrow> 'k \<Rightarrow> py_exn + string option"
  kr_delete :: "string \<Rightarrow> string \<Rightarrow> 'k \<Rightarrow> (py_exn + unit) \<times> 'k"

text \<open>The machine: the data protection API, the keyring where it is installed, and the form in which the file system
  compares paths. Two paths are one file when their forms agree, as they do on NTFS when they differ in case only.\<close>

record 'k machine =
  vm_windows :: bool
  vm_protect :: "byte list \<Rightarrow> py_exn + byte list"
  vm_unprotect :: "byte list \<Rightarrow> py_exn + byte list"
  vm_form :: "string \<Rightarrow> string"
  vm_keyring :: "'k keyring option"

text \<open>The vault's directory, the blob files by the form of their path, and the state of the keyring.\<close>

record 'k vault =
  va_dir :: string
  va_files :: "string \<rightharpoonup> byte list"
  va_keyring :: 'k

text \<open>\<open>str.isalnum\<close> for the code points that a character can be.\<close>

definition py_isalnum :: "char \<Rightarrow> bool" where
  "py_isalnum c \<longleftrightarrow>
     (let n = (of_char c :: nat) in
      48 \<le> n \<and> n \<le> 57 \<or> 65 \<le> n \<and> n \<le> 90 \<or> 97 \<le> n \<and> n \<le> 122 \<or> n \<in> {170, 178, 179, 181, 185, 186, 188, 189, 190} \<or>
      192 \<le> n \<and> n \<le> 255 \<and> n \<noteq> 215 \<and> n \<noteq> 247)"

definition safe_name :: "string \<Rightarrow> string" where
  "safe_name name = filter (\<lambda>c. py_isalnum c \<or> c \<in> set ''-_.'') name"

definition vault_path :: "'k vault \<Rightarrow> string \<Rightarrow> string" where
  "vault_path v name = va_dir v @ [CHR 0x5C] @ safe_name name @ ''.blob''"

definition no_keyring :: py_exn where
  "no_keyring = mk_exn ''VaultError'' ''keyring not installed; POSIX vault unavailable''"

definition store_secret :: "'k machine \<Rightarrow> string \<Rightarrow> string \<Rightarrow> 'k vault \<Rightarrow> (py_exn + unit) \<times> 'k vault" where
  "store_secret vm name val v =
     (if vm_windows vm
      then (case vm_protect vm (encode val) of
              Inl e \<Rightarrow> (Inl e, v)
            | Inr blob \<Rightarrow> (Inr (), v\<lparr>va_files := (va_files v)(vm_form vm (vault_path v name) \<mapsto> blob)\<rparr>))
      else (case vm_keyring vm of
              None \<Rightarrow> (Inl no_keyring, v)
            | Some kr \<Rightarrow> (case kr_set kr ''scr'' name val (va_keyring v) of (r, k) \<Rightarrow> (r, v\<lparr>va_keyring := k\<rparr>))))"

definition get_secret :: "'k machine \<Rightarrow> 'k vault \<Rightarrow> string \<Rightarrow> py_exn + string option" where
  "get_secret vm v name =
     (if vm_windows vm
      then (case va_files v (vm_form vm (vault_path v name)) of
              None \<Rightarrow> Inr None
            | Some blob \<Rightarrow>
                rbind (vm_unprotect vm blob) (\<lambda>bs.
                  case decode bs of None \<Rightarrow> Inl (mk_exn ''UnicodeDecodeError'' ''invalid UTF-8'') | Some s \<Rightarrow> Inr (Some s)))
      else (case vm_keyring vm of None \<Rightarrow> Inl no_keyring | Some kr \<Rightarrow> kr_get kr ''scr'' name (va_keyring v)))"

text \<open>Every \<open>Exception\<close> of the keyring, and the missing package, is ignored.\<close>

definition delete_secret :: "'k machine \<Rightarrow> string \<Rightarrow> 'k vault \<Rightarrow> (py_exn + unit) \<times> 'k vault" where
  "delete_secret vm name v =
     (if vm_windows vm then (Inr (), v\<lparr>va_files := (va_files v)(vm_form vm (vault_path v name) := None)\<rparr>)
      else case vm_keyring vm of
             None \<Rightarrow> (Inr (), v)
           | Some kr \<Rightarrow>
               (case kr_delete kr ''scr'' name (va_keyring v) of (r, k) \<Rightarrow>
                 (case r of Inl e \<Rightarrow> if isinstance e ''Exception'' then Inr () else Inl e | Inr u \<Rightarrow> Inr u, v\<lparr>va_keyring := k\<rparr>)))"

text \<open>What the vault relies on: data that was protected is given back, and a keyring keeps one password for each service
  and user.\<close>

definition dpapi_ok :: "'k machine \<Rightarrow> bool" where
  "dpapi_ok vm \<longleftrightarrow> (\<forall>bs blob. vm_protect vm bs = Inr blob \<longrightarrow> vm_unprotect vm blob = Inr bs)"

definition keyring_ok :: "'k machine \<Rightarrow> bool" where
  "keyring_ok vm \<longleftrightarrow> (\<forall>kr. vm_keyring vm = Some kr \<longrightarrow>
     (\<forall>s u p k k'. kr_set kr s u p k = (Inr (), k') \<longrightarrow>
        (\<forall>s' u'. kr_get kr s' u' k' = (if s' = s \<and> u' = u then Inr (Some p) else kr_get kr s' u' k))) \<and>
     (\<forall>s u k k'. kr_delete kr s u k = (Inr (), k') \<longrightarrow> kr_get kr s u k' = Inr None))"

text \<open>Names that share an entry, and whether a deletion is done rather than swallowed.\<close>

definition same_entry :: "'k machine \<Rightarrow> 'k vault \<Rightarrow> string \<Rightarrow> string \<Rightarrow> bool" where
  "same_entry vm v a b \<longleftrightarrow> (if vm_windows vm then vm_form vm (vault_path v a) = vm_form vm (vault_path v b) else a = b)"

definition deletes :: "'k machine \<Rightarrow> 'k vault \<Rightarrow> string \<Rightarrow> bool" where
  "deletes vm v name \<longleftrightarrow> (vm_windows vm \<or> (\<exists>kr k. vm_keyring vm = Some kr \<and> kr_delete kr ''scr'' name (va_keyring v) = (Inr (), k)))"

lemma same_safe_name: "safe_name a = safe_name b \<Longrightarrow> vm_windows vm \<Longrightarrow> same_entry vm v a b"
  by (simp add: same_entry_def vault_path_def)

lemma stored_secret_read:
  assumes "dpapi_ok vm" and "keyring_ok vm" and "store_secret vm name val v = (Inr (), v')"
  shows "get_secret vm v' other = (if same_entry vm v name other then Inr (Some val) else get_secret vm v other)"
proof (cases "vm_windows vm")
  case True
  with assms(3) obtain blob where b: "vm_protect vm (encode val) = Inr blob" "v' = v\<lparr>va_files := (va_files v)(vm_form vm (vault_path v name) \<mapsto> blob)\<rparr>"
    by (auto simp: store_secret_def split: sum.splits)
  from b(1) assms(1) have "vm_unprotect vm blob = Inr (encode val)" by (simp add: dpapi_ok_def)
  moreover have "vault_path v' n = vault_path v n" for n by (simp add: b(2) vault_path_def)
  ultimately show ?thesis using True by (simp add: get_secret_def b(2) same_entry_def)
next
  case False
  with assms(3) obtain kr k where k: "vm_keyring vm = Some kr" "kr_set kr ''scr'' name val (va_keyring v) = (Inr (), k)" "v' = v\<lparr>va_keyring := k\<rparr>"
    by (auto simp: store_secret_def split: option.splits prod.splits)
  with assms(2) have "kr_get kr ''scr'' other k = (if other = name then Inr (Some val) else kr_get kr ''scr'' other (va_keyring v))"
    unfolding keyring_ok_def by metis
  with False k show ?thesis by (auto simp: get_secret_def same_entry_def)
qed

lemma deleted_secret_gone:
  assumes "keyring_ok vm" and "deletes vm v name"
  shows "\<exists>v'. delete_secret vm name v = (Inr (), v') \<and> get_secret vm v' name = Inr None"
  using assms by (cases "vm_windows vm")
    (auto simp: delete_secret_def get_secret_def deletes_def keyring_ok_def vault_path_def split: prod.splits)

text \<open>C29: The vault gives back what was stored. After a secret is stored under a name, the name gives exactly the secret, and
  so does every name that shares its entry; a name with an entry of its own gives what it gave before; a deletion that is
  carried out leaves nothing under the name. On Windows names share an entry when their blob files are one file to the
  file system, which holds for names that agree after every character but letters, digits, dash, underscore and dot is
  dropped, and on NTFS for names that differ in case; storing one of two such secrets overwrites the other. Elsewhere the
  keyring keeps the entries, by the name itself.\<close>

theorem vault_round_trip:
  assumes "dpapi_ok vm" and "keyring_ok vm" and "store_secret vm name val v = (Inr (), v')"
  shows "get_secret vm v' name = Inr (Some val) \<and>
    (same_entry vm v name other \<longrightarrow> get_secret vm v' other = Inr (Some val)) \<and>
    (\<not> same_entry vm v name other \<longrightarrow> get_secret vm v' other = get_secret vm v other) \<and>
    (deletes vm v' name \<longrightarrow> (\<exists>v''. delete_secret vm name v' = (Inr (), v'') \<and> get_secret vm v'' name = Inr None)) \<and>
    (vm_windows vm \<and> safe_name name = safe_name other \<longrightarrow> same_entry vm v name other)"
proof -
  have "same_entry vm v name name" by (simp add: same_entry_def)
  then show ?thesis using stored_secret_read [OF assms] deleted_secret_gone [OF assms(2)] same_safe_name by auto
qed

text \<open>A Windows machine whose file system ignores the case of ASCII letters.\<close>

definition to_lower :: "char \<Rightarrow> char" where
  "to_lower c = (let n = (of_char c :: nat) in if 65 \<le> n \<and> n \<le> 90 then char_of (n + 32) else c)"

definition demo_machine :: "unit machine" where
  "demo_machine = \<lparr>vm_windows = True, vm_protect = (\<lambda>bs. Inr (map (\<lambda>b. b + 1) bs)), vm_unprotect = (\<lambda>bs. Inr (map (\<lambda>b. b - 1) bs)),
     vm_form = map to_lower, vm_keyring = None\<rparr>"

definition demo_vault :: "unit vault" where
  "demo_vault = \<lparr>va_dir = ''C:'' @ [CHR 0x5C] @ ''vault'', va_files = Map.empty, va_keyring = ()\<rparr>"

text \<open>A machine with a keyring that is a map.\<close>

definition map_keyring :: "(string \<times> string \<Rightarrow> string option) keyring" where
  "map_keyring = \<lparr>kr_set = (\<lambda>s u p k. (Inr (), k((s, u) \<mapsto> p))), kr_get = (\<lambda>s u k. Inr (k (s, u))),
     kr_delete = (\<lambda>s u k. if k (s, u) = None then (Inl (mk_exn ''PasswordDeleteError'' u), k) else (Inr (), k((s, u) := None)))\<rparr>"

definition posix_machine :: "(string \<times> string \<Rightarrow> string option) machine" where
  "posix_machine = \<lparr>vm_windows = False, vm_protect = Inr, vm_unprotect = Inr, vm_form = id, vm_keyring = Some map_keyring\<rparr>"

lemma demo_machine_ok: "dpapi_ok demo_machine" "keyring_ok demo_machine"
  by (simp_all add: dpapi_ok_def keyring_ok_def demo_machine_def comp_def)

lemma posix_machine_ok: "dpapi_ok posix_machine" "keyring_ok posix_machine"
  by (auto simp: dpapi_ok_def keyring_ok_def posix_machine_def map_keyring_def split: if_splits)

theorem vault_round_trip_witness:
  "get_secret demo_machine (snd (store_secret demo_machine ''prod/key'' ''new'' (snd (store_secret demo_machine ''ProdKey'' ''old'' demo_vault)))) ''ProdKey'' =
     Inr (Some ''new'') \<and>
   get_secret posix_machine (snd (store_secret posix_machine ''key'' ''new'' \<lparr>va_dir = ''/v'', va_files = Map.empty, va_keyring = Map.empty\<rparr>)) ''key'' =
     Inr (Some ''new'')"
proof
  let ?v = "snd (store_secret demo_machine ''ProdKey'' ''old'' demo_vault)"
  have "store_secret demo_machine ''prod/key'' ''new'' ?v = (Inr (), snd (store_secret demo_machine ''prod/key'' ''new'' ?v))"
    by (simp add: store_secret_def demo_machine_def)
  moreover have "same_entry demo_machine ?v ''prod/key'' ''ProdKey''" by code_simp
  ultimately show "get_secret demo_machine (snd (store_secret demo_machine ''prod/key'' ''new'' ?v)) ''ProdKey'' = Inr (Some ''new'')"
    using vault_round_trip [OF demo_machine_ok] by blast
  let ?p = "\<lparr>va_dir = ''/v'', va_files = Map.empty, va_keyring = Map.empty\<rparr>"
  have "store_secret posix_machine ''key'' ''new'' ?p = (Inr (), snd (store_secret posix_machine ''key'' ''new'' ?p))"
    by (simp add: store_secret_def posix_machine_def map_keyring_def)
  then show "get_secret posix_machine (snd (store_secret posix_machine ''key'' ''new'' ?p)) ''key'' = Inr (Some ''new'')"
    using vault_round_trip [OF posix_machine_ok] by blast
qed

subsection \<open>Redaction\<close>

definition MASK :: string where
  "MASK = [CHR 0xAB] @ ''REDACTED'' @ [CHR 0xBB]"

definition new_filter :: "string list \<Rightarrow> string set" where
  "new_filter secrets = {s \<in> set secrets. s \<noteq> []}"

definition add_secret :: "string \<Rightarrow> string set \<Rightarrow> string set" where
  "add_secret val secrets = (if val \<noteq> [] then insert val secrets else secrets)"

definition scrub :: "(string \<Rightarrow> string) list \<Rightarrow> string list \<Rightarrow> string \<Rightarrow> string" where
  "scrub patterns secrets text =
     fold (\<lambda>sub t. sub t) patterns
       (fold (\<lambda>secret t. if secret \<noteq> [] \<and> sublist secret t then replace_all secret MASK t else t) secrets text)"

text \<open>
  A log record: what \<open>getMessage\<close> gives or raises, the raw message as a text, its arguments, and the text of an
  exception. Filtering never drops a record.
\<close>

record log_record =
  lg_created :: int
  lg_level :: string
  lg_logger :: string
  lg_msg :: string
  lg_formatted :: "py_exn + string"
  lg_exc :: "string option"

definition redact :: "(string \<Rightarrow> string) list \<Rightarrow> string list \<Rightarrow> log_record \<Rightarrow> (py_exn + bool) \<times> log_record" where
  "redact patterns secrets rec =
     (case lg_formatted rec of
        Inl e \<Rightarrow>
          if isinstance e ''Exception''
          then let t = scrub patterns secrets (lg_msg rec) in (Inr True, rec\<lparr>lg_msg := t, lg_formatted := Inr t\<rparr>)
          else (Inl e, rec)
      | Inr msg \<Rightarrow> let t = scrub patterns secrets msg in (Inr True, rec\<lparr>lg_msg := t, lg_formatted := Inr t\<rparr>))"

definition format_record :: "string \<Rightarrow> log_record \<Rightarrow> py_exn + string" where
  "format_record correlation_id rec =
     rbind (lg_formatted rec) (\<lambda>msg.
       Inr (dumps_sorted (JObj ([(''ts'', JInt (lg_created rec)), (''level'', JStr (lg_level rec)), (''logger'', JStr (lg_logger rec)),
         (''msg'', JStr msg), (''correlation_id'', JStr correlation_id)] @ (case lg_exc rec of None \<Rightarrow> [] | Some t \<Rightarrow> [(''exc'', JStr t)])))))"

text \<open>\<open>masked s t\<close>: \<open>t\<close> is \<open>s\<close> with some disjoint pieces replaced by the mask. Every substitution of a pattern is one.\<close>

inductive masked :: "string \<Rightarrow> string \<Rightarrow> bool" where
  Done: "masked [] []"
| Keep: "masked s t \<Longrightarrow> masked (c # s) (c # t)"
| Mask: "masked s t \<Longrightarrow> masked (m @ s) (MASK @ t)"

text \<open>A secret that the mask cannot complete or contain.\<close>

definition maskable :: "string \<Rightarrow> bool" where
  "maskable x \<longleftrightarrow> x \<noteq> [] \<and> CHR 0xAB \<notin> set x \<and> CHR 0xBB \<notin> set x \<and> \<not> sublist x ''REDACTED''"

lemma masked_refl: "masked s s"
  by (induction s) (auto intro: masked.intros)

lemma masked_prefix: "masked s t \<Longrightarrow> prefix x t \<Longrightarrow> CHR 0xAB \<notin> set x \<Longrightarrow> prefix x s"
proof (induction s t arbitrary: x rule: masked.induct)
  case (Keep s t c)
  then show ?case by (cases x) auto
next
  case (Mask s t m)
  then show ?case by (cases x) (auto simp: MASK_def)
qed simp

lemma maskable_mask: "maskable x \<Longrightarrow> \<not> sublist x MASK"
proof
  assume m: "maskable x" and "sublist x MASK"
  then obtain p q where e: "MASK = p @ x @ q" by (auto simp: sublist_def)
  then obtain p' where p: "p = CHR 0xAB # p'" using m by (cases p) (auto simp: MASK_def maskable_def Cons_eq_append_conv)
  have "q \<noteq> []"
  proof
    assume "q = []"
    moreover have "x \<noteq> []" using m by (simp add: maskable_def)
    ultimately have "last MASK = last x" unfolding e by simp
    then have "CHR 0xBB = last x" by (simp add: MASK_def)
    with m show False using last_in_set [of x] by (auto simp: maskable_def)
  qed
  then obtain q' z where q: "q = q' @ [z]" by (cases q rule: rev_cases) auto
  have "''REDACTED'' @ [CHR 0xBB] = p' @ x @ q' @ [z]" using e unfolding p q MASK_def by simp
  then have "''REDACTED'' = p' @ x @ q'" unfolding append_assoc [symmetric] by (rule conjunct1 [OF append1_eq_conv [THEN iffD1]])
  with m show False unfolding maskable_def sublist_def by blast
qed

lemma mask_append: "maskable x \<Longrightarrow> sublist x (MASK @ t) \<Longrightarrow> sublist x t"
proof -
  assume m: "maskable x" and "sublist x (MASK @ t)"
  then have "sublist x MASK \<or> sublist x t \<or> (\<exists>a b. x = a @ b \<and> suffix a MASK \<and> prefix b t)" by (simp add: sublist_append)
  then consider "sublist x t" | a b where "x = a @ b" "suffix a MASK" "prefix b t" using maskable_mask [OF m] by blast
  then show ?thesis
  proof cases
    case 2
    have "a = []"
    proof (rule ccontr)
      assume "a \<noteq> []"
      moreover from 2(2) obtain ys where "MASK = ys @ a" by (auto simp: suffix_def)
      ultimately have "last a = last MASK" by (metis last_appendR)
      then have "CHR 0xBB \<in> set a" using \<open>a \<noteq> []\<close> last_in_set [of a] by (simp add: MASK_def)
      then show False using m 2(1) by (simp add: maskable_def)
    qed
    with 2 show ?thesis by (simp add: prefix_imp_sublist)
  qed
qed

lemma masked_sublist: "masked s t \<Longrightarrow> maskable x \<Longrightarrow> sublist x t \<Longrightarrow> sublist x s"
proof (induction s t rule: masked.induct)
  case (Keep s t c)
  from Keep.prems have "prefix x (c # t) \<or> sublist x t" by (simp add: sublist_Cons_right)
  then show ?case
  proof
    assume "prefix x (c # t)"
    moreover have "masked (c # s) (c # t)" using Keep.hyps by (rule masked.Keep)
    ultimately have "prefix x (c # s)" using Keep.prems(1) by (auto simp: maskable_def intro: masked_prefix)
    then show ?thesis by (rule prefix_imp_sublist)
  qed (use Keep in \<open>auto simp: sublist_Cons_right\<close>)
next
  case (Mask s t m)
  from Mask.IH [OF Mask.prems(1) mask_append [OF Mask.prems]] show ?case by (simp add: sublist_append)
qed

lemma replace_all_masked: "masked s (replace_all x MASK s)"
proof (induction x MASK s rule: replace_all.induct)
  case (1 x s)
  show ?case
  proof (cases "x = [] \<or> s = []")
    case True
    then show ?thesis by (simp add: replace_all_cases(1) masked_refl)
  next
    case False
    show ?thesis
    proof (cases "startswith s x")
      case True
      then have "s = x @ drop (length x) s" using append_take_drop_id [of "length x" s] unfolding startswith_def by argo
      then have "masked s (MASK @ replace_all x MASK (drop (length x) s))" using masked.Mask [OF 1(1) [OF False True], of x] by argo
      moreover have "replace_all x MASK s = MASK @ replace_all x MASK (drop (length x) s)" using False True by (intro replace_all_cases(2)) auto
      ultimately show ?thesis by simp
    next
      case no: False
      have "masked (hd s # tl s) (hd s # replace_all x MASK (tl s))" using 1(2) [OF False no] by (rule masked.Keep)
      moreover have "replace_all x MASK s = hd s # replace_all x MASK (tl s)" using False no by (intro replace_all_cases(3)) auto
      ultimately show ?thesis using False by simp
    qed
  qed
qed

lemma replace_all_removes: "maskable x \<Longrightarrow> \<not> sublist x (replace_all x MASK s)"
proof (induction x MASK s rule: replace_all.induct)
  case (1 x s)
  have x: "x \<noteq> []" "CHR 0xAB \<notin> set x" using 1(3) unfolding maskable_def by blast+
  show ?case
  proof (cases "s = []")
    case True
    then show ?thesis using x by (simp add: replace_all_cases(1))
  next
    case False
    then have n: "\<not> (x = [] \<or> s = [])" using x by simp
    show ?thesis
    proof (cases "startswith s x")
      case True
      have "replace_all x MASK s = MASK @ replace_all x MASK (drop (length x) s)" using n True by (intro replace_all_cases(2)) auto
      with 1(1) [OF n True 1(3)] mask_append [OF 1(3), of "replace_all x MASK (drop (length x) s)"] show ?thesis by metis
    next
      case no: False
      let ?t = "hd s # replace_all x MASK (tl s)"
      have "\<not> prefix x ?t"
      proof
        assume "prefix x ?t"
        then have "prefix x (hd s # tl s)" using x(2) by (rule masked_prefix [OF masked.Keep [OF replace_all_masked]])
        then show False using no False by (auto simp: startswith_def prefix_def)
      qed
      moreover have "replace_all x MASK s = ?t" using n no by (intro replace_all_cases(3)) auto
      ultimately show ?thesis using 1(2) [OF n no 1(3)] by (simp add: sublist_Cons_right)
    qed
  qed
qed

definition scrub_secret :: "string \<Rightarrow> string \<Rightarrow> string" where
  "scrub_secret secret t = (if secret \<noteq> [] \<and> sublist secret t then replace_all secret MASK t else t)"

lemma scrub_secret_masked: "masked t (scrub_secret x t)"
  by (simp add: scrub_secret_def replace_all_masked masked_refl)

lemma scrub_secret_removes: "maskable x \<Longrightarrow> \<not> sublist x (scrub_secret x t)"
  by (auto simp: scrub_secret_def replace_all_removes) (auto simp: maskable_def)

lemma masked_fold_absent:
  assumes "maskable x" "\<forall>f\<in>set fs. \<forall>t. masked t (f t)" "\<not> sublist x t"
  shows "\<not> sublist x (fold (\<lambda>f. f) fs t)"
  using assms(2,3)
proof (induction fs arbitrary: t)
  case (Cons f fs)
  then have "\<not> sublist x (f t)" using masked_sublist [OF _ assms(1), of t "f t"] by auto
  with Cons show ?case by simp
qed simp

lemma scrub_secrets_absent:
  assumes "maskable x" "x \<in> set secrets"
  shows "\<not> sublist x (fold scrub_secret secrets t)"
  using assms(2)
proof (induction secrets arbitrary: t)
  case (Cons y ys)
  show ?case
  proof (cases "x \<in> set ys")
    case False
    with Cons.prems have "\<not> sublist x (scrub_secret y t)" using scrub_secret_removes [OF assms(1)] by simp
    moreover have "\<forall>f\<in>set (map scrub_secret ys). \<forall>t. masked t (f t)" by (auto simp: scrub_secret_masked)
    ultimately have "\<not> sublist x (fold (\<lambda>f. f) (map scrub_secret ys) (scrub_secret y t))" by (intro masked_fold_absent assms(1))
    then show ?thesis by (simp add: fold_map comp_def)
  qed (simp add: Cons.IH)
qed simp

lemma scrub_absent:
  assumes "maskable x" "x \<in> set secrets" "\<forall>sub\<in>set patterns. \<forall>t. masked t (sub t)"
  shows "\<not> sublist x (scrub patterns secrets t)"
proof -
  have "scrub patterns secrets t = fold (\<lambda>f. f) patterns (fold scrub_secret secrets t)"
    unfolding scrub_def scrub_secret_def [abs_def] ..
  then show ?thesis using masked_fold_absent [OF assms(1,3) scrub_secrets_absent [OF assms(1,2)]] by simp
qed

text \<open>C30: A registered secret is not in the message of a filtered record. In whatever order the secrets are taken, and whatever the
  patterns replace afterwards, the message that is left contains no secret that the mask itself cannot contain or complete,
  whether the message could be formatted or not.\<close>

theorem message_redacted:
  assumes "maskable x" and "x \<in> set secrets" and "\<forall>sub\<in>set patterns. \<forall>t. masked t (sub t)"
    and "redact patterns secrets rec = (Inr b, rec')"
  shows "b \<and> \<not> sublist x (lg_msg rec') \<and> lg_formatted rec' = Inr (lg_msg rec')"
  using assms(4) scrub_absent [OF assms(1-3)] by (auto simp: redact_def Let_def split: sum.splits if_splits)

definition demo_record :: log_record where
  "demo_record = \<lparr>lg_created = 0, lg_level = ''ERROR'', lg_logger = ''scr'', lg_msg = ''login with hunter2'',
     lg_formatted = Inr ''login with hunter2'', lg_exc = Some ''ValueError: hunter2''\<rparr>"

theorem message_redacted_witness:
  "\<exists>rec'. redact [] [''hunter2''] demo_record = (Inr True, rec') \<and> \<not> sublist ''hunter2'' (lg_msg rec')"
proof -
  have "\<not> sublist ''hunter2'' ''REDACTED''"
  proof
    assume "sublist ''hunter2'' ''REDACTED''"
    then have "set ''hunter2'' \<subseteq> set ''REDACTED''" by (rule set_mono_sublist)
    then show False by simp
  qed
  then have m: "maskable ''hunter2''" by (simp add: maskable_def)
  obtain b rec' where r: "redact [] [''hunter2''] demo_record = (Inr b, rec')"
    by (simp add: redact_def demo_record_def Let_def)
  with message_redacted [OF m, of "[''hunter2'']" "[]"] show ?thesis by auto
qed

text \<open>The text of an exception is not redacted. A record that carries an exception is written with the exception's text as
  it was, so a secret in it reaches the log.\<close>

theorem exception_text_unredacted:
  assumes "redact patterns secrets rec = (Inr b, rec')" and "lg_exc rec = Some t"
  shows "\<exists>line d. format_record cid rec' = Inr line \<and> loads line = Some (JObj d) \<and> dict_get d ''exc'' = Some (JStr t)"
proof -
  obtain msg where f: "lg_formatted rec' = Inr msg" "lg_exc rec' = Some t"
    using assms by (auto simp: redact_def Let_def split: sum.splits if_splits)
  define d where "d = [(''ts'', JInt (lg_created rec')), (''level'', JStr (lg_level rec')), (''logger'', JStr (lg_logger rec')),
     (''msg'', JStr msg), (''correlation_id'', JStr cid), (''exc'', JStr t)]"
  have "wf_json (JObj d)" by (simp add: d_def)
  then have "loads (dumps_sorted (JObj d)) = Some (sort_json (JObj d))" by (simp add: dumps_sorted_def loads_dumps wf_sort_json)
  moreover have "format_record cid rec' = Inr (dumps_sorted (JObj d))" using f by (simp add: format_record_def d_def)
  moreover have "distinct (map fst d)" by (simp add: d_def)
  then have "jget (sort_json (JObj d)) ''exc'' = Some (sort_json (JStr t))" by (simp add: dict_get_sort_json) (simp add: d_def)
  ultimately show ?thesis by (simp add: sort_json.simps)
qed

theorem exception_text_unredacted_witness:
  "\<exists>rec' line d. redact [] [''hunter2''] demo_record = (Inr True, rec') \<and> format_record ''-'' rec' = Inr line \<and>
     loads line = Some (JObj d) \<and> dict_get d ''exc'' = Some (JStr ''ValueError: hunter2'')"
proof -
  obtain rec' where r: "redact [] [''hunter2''] demo_record = (Inr True, rec')"
    by (simp add: redact_def demo_record_def Let_def)
  moreover have "lg_exc demo_record = Some ''ValueError: hunter2''" by (simp add: demo_record_def)
  ultimately show ?thesis using exception_text_unredacted [OF r] by blast
qed

end
