(* ===== verification/Backups.thy ===== *)
theory Backups
  imports Packages "HOL-Library.Multiset"
begin

text \<open>
  Encrypted backups (\<open>scr/backup.py\<close>). A home is a table of files by relative path. The cipher (AES-GCM), the data protection
  API that wraps a key, the serialized form of a zip archive, the order in which a directory tree is walked and the random bytes
  are arguments. A move of a restored file may fail: which ones do is an argument too.
\<close>

type_synonym home = "string \<rightharpoonup> byte list"

record backup_env =
  bk_windows :: bool
  bk_wrap :: "byte list \<Rightarrow> py_exn + byte list"
  bk_unwrap :: "byte list \<Rightarrow> py_exn + byte list"
  bk_encrypt :: "byte list \<Rightarrow> byte list \<Rightarrow> byte list \<Rightarrow> byte list \<Rightarrow> byte list"
  bk_decrypt :: "byte list \<Rightarrow> byte list \<Rightarrow> byte list \<Rightarrow> byte list \<Rightarrow> py_exn + byte list"
  bk_zip :: "zip_file \<Rightarrow> byte list"
  bk_unzip :: "byte list \<Rightarrow> py_exn + zip_file"
  bk_walk :: "string list \<Rightarrow> string list"

definition MAGIC :: "byte list" where
  "MAGIC = encode ''SCRBAK02''"

definition backup_error :: "string \<Rightarrow> py_exn" where
  "backup_error msg = mk_exn ''BackupError'' msg"

definition wrap_key :: "backup_env \<Rightarrow> byte list \<Rightarrow> py_exn + byte list" where
  "wrap_key bk key =
     (if bk_windows bk then bk_wrap bk key else Inl (backup_error ''DPAPI key wrapping is Windows-only; supply an explicit key''))"

definition unwrap_key :: "backup_env \<Rightarrow> byte list \<Rightarrow> py_exn + byte list" where
  "unwrap_key bk wrapped =
     (if bk_windows bk then bk_unwrap bk wrapped else Inl (backup_error ''DPAPI key unwrapping is Windows-only''))"

text \<open>The files that exist, under the name they get in the archive. The entries of the vault directory are given by name.\<close>

primrec entries :: "home \<Rightarrow> (string \<Rightarrow> string) \<Rightarrow> string list \<Rightarrow> zip_file" where
  "entries home arc [] = []"
| "entries home arc (n # ns) = (case home (arc n) of None \<Rightarrow> [] | Some b \<Rightarrow> [(arc n, b)]) @ entries home arc ns"

definition collect :: "string list \<Rightarrow> home \<Rightarrow> zip_file" where
  "collect vault_names home = entries home id [''config.json'', ''scr.db''] @ entries home (\<lambda>name. ''vault/'' @ name) (sort vault_names)"

text \<open>\<open>to_bytes(4, "big")\<close> and \<open>from_bytes(_, "big")\<close>.\<close>

definition to_be32 :: "nat \<Rightarrow> py_exn + byte list" where
  "to_be32 n =
     (if n < 2 ^ 32 then Inr [of_nat (n div 2 ^ 24), of_nat (n div 2 ^ 16 mod 256), of_nat (n div 2 ^ 8 mod 256), of_nat (n mod 256)]
      else Inl (mk_exn ''OverflowError'' ''int too big to convert''))"

definition from_be :: "byte list \<Rightarrow> nat" where
  "from_be bs = foldl (\<lambda>n b. 256 * n + unat b) 0 bs"

definition create_backup ::
  "backup_env \<Rightarrow> byte list \<Rightarrow> byte list \<Rightarrow> string list \<Rightarrow> home \<Rightarrow> byte list option \<Rightarrow> py_exn + byte list" where
  "create_backup bk fresh_key nonce vault_names home key =
     rbind (case key of
              None \<Rightarrow> rbind (wrap_key bk fresh_key) (\<lambda>w. Inr (fresh_key, w))
            | Some k \<Rightarrow> if length k \<noteq> 32 then Inl (backup_error ''key must be 32 bytes (AES-256)'') else Inr (k, [])) (\<lambda>(k, wrapped).
     let ct = bk_encrypt bk k nonce (bk_zip bk (collect vault_names home)) MAGIC in
     rbind (to_be32 (length wrapped)) (\<lambda>len. Inr (MAGIC @ len @ wrapped @ nonce @ ct)))"

text \<open>\<open>ZipFile.extractall\<close>: a member goes to its path without empty parts and dots, so below the staging directory; of two
  members with one path the later stays, a name that ends in a slash is a directory, and a file without a path raises.\<close>

definition member_path :: "string \<Rightarrow> string" where
  "member_path name = join ''/'' (filter (\<lambda>c. c \<notin> {[], ''.'', ''..''}) (split_on (CHR ''/'') name))"

definition extractall :: "zip_file \<Rightarrow> py_exn + zip_file" where
  "extractall fs =
     (let ms = map (\<lambda>(n, b). (member_path n, b)) (filter (\<lambda>f. \<not> endswith (fst f) ''/'') fs) in
      if [] \<in> fst ` set ms then Inl (mk_exn ''OSError'' ''is a directory'') else Inr ms)"

text \<open>The files of the staging directory in the order of \<open>os.walk\<close>; every one is moved to its place, one after the other.\<close>

definition walk_staging :: "backup_env \<Rightarrow> zip_file \<Rightarrow> zip_file" where
  "walk_staging bk ms =
     map (\<lambda>rel. (rel, case map_of (rev ms) rel of None \<Rightarrow> [] | Some b \<Rightarrow> b)) (bk_walk bk (remdups (map fst ms)))"

fun move_files :: "(string \<Rightarrow> bool) \<Rightarrow> zip_file \<Rightarrow> home \<Rightarrow> (py_exn + unit) \<times> home" where
  "move_files fails [] home = (Inr (), home)"
| "move_files fails ((rel, bs) # fs) home =
     (if fails rel then (Inl (mk_exn ''OSError'' rel), home) else move_files fails fs (home(rel \<mapsto> bs)))"

definition archive_key :: "backup_env \<Rightarrow> nat \<Rightarrow> byte list \<Rightarrow> byte list option \<Rightarrow> py_exn + byte list" where
  "archive_key bk wrapped_len wrapped key =
     (if wrapped_len > 0
      then (case unwrap_key bk wrapped of
              Inl e \<Rightarrow> if isinstance e ''Exception'' then Inl (backup_error (''could not unwrap backup key: '' @ exn_msg e)) else Inl e
            | Inr k \<Rightarrow> Inr k)
      else (case key of
              Some k \<Rightarrow> if length k = 32 then Inr k else Inl (backup_error ''this backup needs an explicit 32-byte key'')
            | None \<Rightarrow> Inl (backup_error ''this backup needs an explicit 32-byte key'')))"

definition decrypt_archive :: "backup_env \<Rightarrow> byte list \<Rightarrow> byte list \<Rightarrow> byte list \<Rightarrow> py_exn + byte list" where
  "decrypt_archive bk k nonce ct =
     (case bk_decrypt bk k nonce ct MAGIC of
        Inl e \<Rightarrow> if isinstance e ''InvalidTag'' then Inl (backup_error ''decryption failed (wrong key or tampered archive)'') else Inl e
      | Inr plain \<Rightarrow> Inr plain)"

definition open_archive :: "backup_env \<Rightarrow> byte list \<Rightarrow> byte list option \<Rightarrow> py_exn + byte list" where
  "open_archive bk blob key =
     (if take 8 blob \<noteq> MAGIC then Inl (backup_error ''not an SCR backup archive'')
      else
        let n = from_be (take 4 (drop 8 blob)); wrapped = take n (drop 12 blob); nonce = take 12 (drop (12 + n) blob);
            ct = drop (12 + n + 12) blob in
        rbind (archive_key bk n wrapped key) (\<lambda>k. decrypt_archive bk k nonce ct))"

definition restore_backup ::
  "backup_env \<Rightarrow> (string \<Rightarrow> bool) \<Rightarrow> byte list \<Rightarrow> byte list option \<Rightarrow> home \<Rightarrow> (py_exn + unit) \<times> home" where
  "restore_backup bk fails blob key dest =
     (case rbind (rbind (open_archive bk blob key) (bk_unzip bk)) extractall of
        Inl e \<Rightarrow> (Inl e, dest)
      | Inr ms \<Rightarrow> move_files fails (walk_staging bk ms) dest)"

subsection \<open>What the primitives promise\<close>

text \<open>
  Decryption inverts encryption, and gives a plain text only for what encrypting it gives; wrapping and packing are inverted,
  a wrapped key is not empty, and walking a tree visits each of its files once.
\<close>

definition backup_ok :: "backup_env \<Rightarrow> bool" where
  "backup_ok bk \<longleftrightarrow>
     (\<forall>k n p a. bk_decrypt bk k n (bk_encrypt bk k n p a) a = Inr p) \<and>
     (\<forall>k n c p a. bk_decrypt bk k n c a = Inr p \<longrightarrow> c = bk_encrypt bk k n p a) \<and>
     (\<forall>k w. bk_wrap bk k = Inr w \<longrightarrow> w \<noteq> [] \<and> bk_unwrap bk w = Inr k) \<and> (\<forall>fs. bk_unzip bk (bk_zip bk fs) = Inr fs) \<and>
     (\<forall>ns. distinct ns \<longrightarrow> mset (bk_walk bk ns) = mset ns)"

lemma MAGIC_length: "length MAGIC = 8"
  by (simp add: MAGIC_def) code_simp

lemma to_be32_inverse:
  assumes "to_be32 n = Inr bs"
  shows "length bs = 4 \<and> from_be bs = n"
proof -
  have n: "n < 2 ^ 32" and bs: "bs = [of_nat (n div 2 ^ 24), of_nat (n div 2 ^ 16 mod 256), of_nat (n div 2 ^ 8 mod 256), of_nat (n mod 256)]"
    using assms by (auto simp: to_be32_def split: if_splits)
  have "n div 2 ^ 24 < 256" using n by (simp add: less_mult_imp_div_less)
  then have u: "unat (of_nat (n div 2 ^ 24) :: byte) = n div 2 ^ 24" by (simp add: unat_of_nat)
  have v: "unat (of_nat (m mod 256) :: byte) = m mod 256" for m :: nat by (simp add: unat_of_nat)
  have d: "n div 2 ^ 24 = n div 2 ^ 16 div 256" "n div 2 ^ 16 = n div 2 ^ 8 div 256" "n div 2 ^ 8 = n div 256"
    by (simp_all add: div_mult2_eq [symmetric])
  have "((n div 2 ^ 24 * 256 + n div 2 ^ 16 mod 256) * 256 + n div 2 ^ 8 mod 256) * 256 + n mod 256 = n"
    unfolding d div_mult_mod_eq ..
  then show ?thesis unfolding bs from_be_def using u v [of "n div 2 ^ 16"] v [of "n div 2 ^ 8"] v [of n]
    by (simp add: mult.commute)
qed

lemma archive_opens:
  assumes ok: "backup_ok bk" and len: "to_be32 (length wrapped) = Inr hdr" and nonce: "length nonce = 12"
    and key: "if wrapped = [] then key = Some k \<and> length k = 32 else unwrap_key bk wrapped = Inr k"
  shows "open_archive bk (MAGIC @ hdr @ wrapped @ nonce @ bk_encrypt bk k nonce p MAGIC) key = Inr p"
proof -
  have h: "length hdr = 4" "from_be hdr = length wrapped" using to_be32_inverse [OF len] by simp_all
  have dec: "bk_decrypt bk k nonce (bk_encrypt bk k nonce p MAGIC) MAGIC = Inr p" using ok by (simp add: backup_ok_def)
  show ?thesis
    using key dec nonce h by (auto simp: open_archive_def archive_key_def decrypt_archive_def MAGIC_length Let_def split: if_splits)
qed

lemma move_files_all:
  assumes "\<forall>rel. \<not> fails rel"
  shows "move_files fails fs home = (Inr (), home ++ map_of (rev fs))"
  using assms by (induction fs arbitrary: home) (auto simp: map_add_def fun_eq_iff split: option.splits)

lemma walk_staging_map:
  assumes "backup_ok bk"
  shows "map_of (rev (walk_staging bk ms)) = map_of (rev ms)"
proof
  fix rel
  let ?g = "\<lambda>rel. case map_of (rev ms) rel of None \<Rightarrow> [] | Some b \<Rightarrow> b"
  have "mset (bk_walk bk (remdups (map fst ms))) = mset (remdups (map fst ms))" using assms by (simp add: backup_ok_def)
  then have s: "set (bk_walk bk (remdups (map fst ms))) = set (map fst ms)" by (metis mset_eq_setD set_remdups)
  have "map_of (map (\<lambda>r. (r, ?g r)) xs) rel = (if rel \<in> set xs then Some (?g rel) else None)" for xs
    by (simp add: map_of_map_restrict restrict_map_def)
  then have "map_of (rev (walk_staging bk ms)) rel = (if rel \<in> set (map fst ms) then Some (?g rel) else None)"
    unfolding walk_staging_def rev_map set_rev s by (simp add: s)
  also have "\<dots> = map_of (rev ms) rel"
  proof (cases "map_of (rev ms) rel")
    case None
    then have "rel \<notin> fst ` set (rev ms)" by (simp only: map_of_eq_None_iff not_False_eq_True)
    then show ?thesis by (simp add: None)
  next
    case (Some b)
    then have "(rel, b) \<in> set (rev ms)" by (rule map_of_SomeD)
    then have "rel \<in> set (map fst ms)" by force
    then show ?thesis by (simp add: Some)
  qed
  finally show "map_of (rev (walk_staging bk ms)) rel = map_of (rev ms) rel" .
qed

text \<open>What a directory lists: distinct names that are single parts of a path.\<close>

definition listing :: "string list \<Rightarrow> bool" where
  "listing ns \<longleftrightarrow> distinct ns \<and> (\<forall>n\<in>set ns. n \<notin> {[], ''.'', ''..''} \<and> CHR ''/'' \<notin> set n)"

lemma entries_keys: "map fst (entries home arc ns) = filter (\<lambda>r. home r \<noteq> None) (map arc ns)"
  by (induction ns) (auto split: option.splits)

lemma collect_keys:
  "map fst (collect vs home) = filter (\<lambda>r. home r \<noteq> None) ([''config.json'', ''scr.db''] @ map (\<lambda>n. ''vault/'' @ n) (sort vs))"
  unfolding collect_def map_append entries_keys filter_append by simp

lemma entries_values: "(rel, bs) \<in> set (entries home arc ns) \<Longrightarrow> home rel = Some bs"
  by (induction ns) (auto split: option.splits)

lemma collect_values: "(rel, bs) \<in> set (collect vs home) \<Longrightarrow> home rel = Some bs"
  unfolding collect_def set_append by (auto dest: entries_values)

text \<open>The paths that a backup covers.\<close>

definition covered :: "string list \<Rightarrow> string \<Rightarrow> bool" where
  "covered vs rel \<longleftrightarrow> rel \<in> set ([''config.json'', ''scr.db''] @ map (\<lambda>n. ''vault/'' @ n) vs)"

lemma collect_map:
  assumes "distinct vs"
  shows "map_of (rev (collect vs home)) rel = (if covered vs rel then home rel else None)"
proof -
  have "distinct (map fst (collect vs home))"
    unfolding collect_keys using assms by (auto simp: distinct_map inj_on_def)
  then have "map_of (rev (collect vs home)) = map_of (collect vs home)" by (intro map_of_inject_set [THEN iffD2]) (simp_all add: rev_map [symmetric])
  moreover have k: "rel \<in> set (map fst (collect vs home)) \<longleftrightarrow> covered vs rel \<and> home rel \<noteq> None"
    unfolding collect_keys set_filter covered_def set_append set_map set_sort by blast
  have "map_of (collect vs home) rel = (if covered vs rel then home rel else None)"
  proof (cases "map_of (collect vs home) rel")
    case None
    then have "rel \<notin> set (map fst (collect vs home))" by (simp add: map_of_eq_None_iff)
    then show ?thesis using None k by auto
  next
    case (Some bs)
    then have m: "(rel, bs) \<in> set (collect vs home)" by (rule map_of_SomeD)
    then have "rel \<in> set (map fst (collect vs home))" by force
    then show ?thesis using Some collect_values [OF m] k by simp
  qed
  ultimately show ?thesis by simp
qed

lemma member_path_own:
  assumes "rel \<in> set ([''config.json'', ''scr.db''] @ map (\<lambda>n. ''vault/'' @ n) vs)" "listing vs"
  shows "member_path rel = rel \<and> rel \<noteq> [] \<and> \<not> endswith rel ''/''"
proof -
  have f: "member_path ''config.json'' = ''config.json''" "member_path ''scr.db'' = ''scr.db''" by (simp_all add: member_path_def)
  have v: "member_path (''vault/'' @ n) = ''vault/'' @ n \<and> \<not> endswith (''vault/'' @ n) ''/''" if "n \<notin> {[], ''.'', ''..''}" "CHR ''/'' \<notin> set n" for n
  proof -
    have "split_on (CHR ''/'') (''vault/'' @ n) = [''vault'', n]"
      using split_on_append_sep [of "CHR ''/''" "''vault''" n] split_on_no_sep [OF that(2)] by simp
    moreover have "\<not> endswith (''vault/'' @ n) ''/''" using that by (cases n rule: rev_cases) (auto simp: endswith_def)
    ultimately show ?thesis using that(1) by (simp add: member_path_def)
  qed
  from assms(1) consider "rel = ''config.json''" | "rel = ''scr.db''" | n where "n \<in> set vs" "rel = ''vault/'' @ n" by auto
  then show ?thesis
  proof cases
    case (3 n)
    with v [of n] assms(2) show ?thesis by (simp add: listing_def)
  qed (simp_all add: f endswith_def)
qed

lemma extract_own: "listing vs \<Longrightarrow> extractall (collect vs home) = Inr (collect vs home)"
proof -
  assume vs: "listing vs"
  have m: "member_path (fst f) = fst f \<and> fst f \<noteq> [] \<and> \<not> endswith (fst f) ''/''" if "f \<in> set (collect vs home)" for f
  proof (rule member_path_own [OF _ vs])
    have "fst f \<in> set (map fst (collect vs home))" using that by simp
    then show "fst f \<in> set ([''config.json'', ''scr.db''] @ map (\<lambda>n. ''vault/'' @ n) vs)" 
      unfolding collect_keys set_filter set_append set_map set_sort by blast
  qed
  then have "filter (\<lambda>f. \<not> endswith (fst f) ''/'') (collect vs home) = collect vs home" by (simp add: filter_id_conv)
  moreover have "map (\<lambda>(n, b). (member_path n, b)) (collect vs home) = collect vs home"
    using m by (intro map_idI) (auto simp: split_beta)
  ultimately show ?thesis using m unfolding extractall_def Let_def by force
qed

text \<open>No name leads out of the destination: the path of a file that a restore moves has no empty part and no dots.\<close>

lemma extracted_below:
  assumes "extractall fs = Inr ms" "f \<in> set ms"
  shows "\<exists>cs. fst f = join ''/'' cs \<and> cs \<noteq> [] \<and> (\<forall>c\<in>set cs. c \<notin> {[], ''.'', ''..''} \<and> CHR ''/'' \<notin> set c)"
proof -
  from assms obtain n where n: "fst f = member_path n" "fst f \<noteq> []"
    unfolding extractall_def Let_def by (force split: if_splits)
  let ?cs = "filter (\<lambda>c. c \<notin> {[], ''.'', ''..''}) (split_on (CHR ''/'') n)"
  have "\<forall>c\<in>set ?cs. c \<notin> {[], ''.'', ''..''} \<and> CHR ''/'' \<notin> set c" by (auto dest: split_on_parts)
  moreover have "?cs \<noteq> []" using n by (auto simp: member_path_def)
  ultimately show ?thesis using n(1) unfolding member_path_def by blast
qed

subsection \<open>Properties\<close>

text \<open>C27: A backup restores what it covers. An archive made of a home opens again with the same key, or without one on the machine that
  wrapped its key, and when no move fails the configuration, the database and the named secrets of the destination are
  those of the home, byte for byte, and everything the home did not have of them, and every other file, is as it was.\<close>

theorem backup_round_trip:
  assumes "backup_ok bk" and "listing vault_names" and "length nonce = 12"
    and "create_backup bk fresh nonce vault_names home key = Inr blob" and "\<forall>rel. \<not> fails rel"
  shows "restore_backup bk fails blob key dest =
    (Inr (), \<lambda>rel. if covered vault_names rel \<and> home rel \<noteq> None then home rel else dest rel)"
proof -
  obtain k wrapped hdr where kw: "(case key of None \<Rightarrow> wrap_key bk fresh = Inr wrapped \<and> k = fresh | Some k' \<Rightarrow> k = k' \<and> length k' = 32 \<and> wrapped = [])"
    and len: "to_be32 (length wrapped) = Inr hdr"
    and blob: "blob = MAGIC @ hdr @ wrapped @ nonce @ bk_encrypt bk k nonce (bk_zip bk (collect vault_names home)) MAGIC"
    using assms(4) by (auto simp: create_backup_def rbind_Inr_iff Let_def split: option.splits if_splits)
  have "if wrapped = [] then key = Some k \<and> length k = 32 else unwrap_key bk wrapped = Inr k"
    using kw assms(1) by (auto simp: wrap_key_def unwrap_key_def backup_ok_def split: option.splits if_splits)
  from archive_opens [OF assms(1) len assms(3) this] have "open_archive bk blob key = Inr (bk_zip bk (collect vault_names home))"
    unfolding blob .
  moreover have "bk_unzip bk (bk_zip bk (collect vault_names home)) = Inr (collect vault_names home)" using assms(1) by (simp add: backup_ok_def)
  moreover have "distinct vault_names" using assms(2) by (simp add: listing_def)
  ultimately show ?thesis
    unfolding restore_backup_def using extract_own [OF assms(2)]
    by (simp add: move_files_all [OF assms(5)] walk_staging_map [OF assms(1)] fun_eq_iff map_add_def collect_map split: option.splits)
qed

text \<open>A cipher for the witnesses, with the key, the nonce and the associated data in front of the text, on a machine that wraps a
  key by a prefix; an archive is its only file, or empty.\<close>

definition demo_backup :: backup_env where
  "demo_backup = \<lparr>bk_windows = True, bk_wrap = (\<lambda>k. Inr (1 # k)), bk_unwrap = (\<lambda>w. Inr (tl w)),
     bk_encrypt = (\<lambda>k n p a. k @ n @ a @ p),
     bk_decrypt = (\<lambda>k n c a. if take (length (k @ n @ a)) c = k @ n @ a then Inr (drop (length (k @ n @ a)) c) else Inl (mk_exn ''InvalidTag'' [])),
     bk_zip = (\<lambda>fs. encode (dumps (JArr (map (\<lambda>f. JArr [JStr (fst f), JArr (map (\<lambda>b. JInt (uint b)) (snd f))]) fs)))),
     bk_unzip = (\<lambda>bs. case decode bs of
        Some t \<Rightarrow> (case loads t of
            Some (JArr js) \<Rightarrow> traverse (\<lambda>j. case j of
                JArr [JStr n, JArr xs] \<Rightarrow> rbind (traverse (\<lambda>x. case x of JInt i \<Rightarrow> Inr (of_int i) | _ \<Rightarrow> Inl type_error) xs) (\<lambda>b. Inr (n, b))
              | _ \<Rightarrow> Inl type_error) js
          | _ \<Rightarrow> Inl type_error)
      | None \<Rightarrow> Inl type_error),
     bk_walk = rev\<rparr>"

lemma demo_backup_ok: "backup_ok demo_backup"
proof -
  let ?f = "\<lambda>f :: string \<times> byte list. JArr [JStr (fst f), JArr (map (\<lambda>b. JInt (uint b)) (snd f))]"
  have b: "traverse (\<lambda>x. case x of JInt i \<Rightarrow> Inr (of_int i) | _ \<Rightarrow> Inl type_error) (map (\<lambda>b. JInt (uint b)) bs) = Inr bs" for bs :: "byte list"
    by (subst traverse_map [where h = "\<lambda>b. b"]) simp_all
  have t: "traverse (\<lambda>j. case j of
        JArr [JStr n, JArr xs] \<Rightarrow> rbind (traverse (\<lambda>x. case x of JInt i \<Rightarrow> Inr (of_int i) | _ \<Rightarrow> Inl type_error) xs) (\<lambda>b. Inr (n, b))
      | _ \<Rightarrow> Inl type_error) (map ?f fs) = Inr fs" for fs :: zip_file
    by (subst traverse_map [where h = "\<lambda>f. f"]) (simp_all add: b)
  have "wf_json (JArr (map ?f fs))" for fs by simp
  then have "loads (dumps (JArr (map ?f fs))) = Some (JArr (map ?f fs))" for fs by (rule loads_dumps)
  then have z: "\<forall>fs. bk_unzip demo_backup (bk_zip demo_backup fs) = Inr fs" by (simp add: demo_backup_def t)
  have c: "take (length k) c = k \<Longrightarrow> c = k @ drop (length k) c" for k c :: "byte list" using append_take_drop_id [of "length k" c] by simp
  have "\<forall>k n c p a. bk_decrypt demo_backup k n c a = Inr p \<longrightarrow> c = bk_encrypt demo_backup k n p a"
    using c [of "_ @ _ @ _"] by (auto simp: demo_backup_def split: if_splits)
  moreover have "\<forall>k n p a. bk_decrypt demo_backup k n (bk_encrypt demo_backup k n p a) a = Inr p" by (simp add: demo_backup_def)
  ultimately show ?thesis using z unfolding backup_ok_def by (simp add: demo_backup_def)
qed

theorem backup_round_trip_witness:
  "\<exists>blob. create_backup demo_backup (replicate 32 0) (replicate 12 0) [] [''scr.db'' \<mapsto> [7, 8]] None = Inr blob \<and>
     snd (restore_backup demo_backup (\<lambda>_. False) blob None Map.empty) ''scr.db'' = Some [7, 8]"
proof -
  obtain blob where b: "create_backup demo_backup (replicate 32 0) (replicate 12 0) [] [''scr.db'' \<mapsto> [7, 8]] None = Inr blob"
    by (simp add: create_backup_def wrap_key_def to_be32_def demo_backup_def Let_def)
  from backup_round_trip [OF demo_backup_ok _ _ b, of "\<lambda>_. False" Map.empty] have
    "snd (restore_backup demo_backup (\<lambda>_. False) blob None Map.empty) ''scr.db'' = Some [7, 8]" by (simp add: covered_def listing_def)
  with b show ?thesis by blast
qed

lemma archive_parts:
  fixes blob :: "'a list"
  shows "take 8 blob @ take 4 (drop 8 blob) @ take n (drop 12 blob) @ take 12 (drop (12 + n) blob) @ drop (12 + n + 12) blob = blob"
proof -
  have "take a (drop b xs) @ drop (b + a) xs = drop b xs" for a b :: nat and xs :: "'a list"
    by (metis add.commute append_take_drop_id drop_drop)
  from this [of 12 "12 + n" blob] this [of n 12 blob] this [of 4 8 blob] show ?thesis by simp
qed

lemma archive_key_Inr: "archive_key bk n w key = Inr k \<Longrightarrow> key = Some k \<or> unwrap_key bk w = Inr k"
  by (auto simp: archive_key_def split: if_splits sum.splits option.splits)

lemma decrypt_archive_Inr: "decrypt_archive bk k nonce ct = Inr p \<Longrightarrow> bk_decrypt bk k nonce ct MAGIC = Inr p"
  by (auto simp: decrypt_archive_def split: if_splits sum.splits)

text \<open>C28: A restore fails closed. The destination changes only for an archive whose last part is the encryption, under the key that
  was given or unwrapped, of what is then unpacked and moved; with another key, another magic or a changed byte it stays as it
  was.\<close>

theorem restore_only_authentic:
  assumes "backup_ok bk" and "restore_backup bk fails blob key dest = (r, dest')" and "dest' \<noteq> dest"
  shows "\<exists>len wrapped nonce k plain fs. blob = MAGIC @ len @ wrapped @ nonce @ bk_encrypt bk k nonce plain MAGIC \<and>
    (key = Some k \<or> unwrap_key bk wrapped = Inr k) \<and> bk_unzip bk plain = Inr fs \<and>
    (\<exists>ms. extractall fs = Inr ms \<and> (r, dest') = move_files fails (walk_staging bk ms) dest)"
proof -
  obtain plain fs ms where o: "open_archive bk blob key = Inr plain" "bk_unzip bk plain = Inr fs"
      "extractall fs = Inr ms \<and> (r, dest') = move_files fails (walk_staging bk ms) dest"
    using assms(2,3) by (auto simp: restore_backup_def rbind_Inr_iff split: sum.splits) (metis)
  define n where "n = from_be (take 4 (drop 8 blob))"
  let ?w = "take n (drop 12 blob)" and ?nonce = "take 12 (drop (12 + n) blob)" and ?ct = "drop (12 + n + 12) blob"
  have m: "take 8 blob = MAGIC" using o(1) by (auto simp: open_archive_def split: if_splits)
  obtain k where "archive_key bk n ?w key = Inr k" "decrypt_archive bk k ?nonce ?ct = Inr plain"
    using o(1) m unfolding open_archive_def n_def [symmetric] Let_def by (auto simp: rbind_Inr_iff)
  then have k: "key = Some k \<or> unwrap_key bk ?w = Inr k" "bk_decrypt bk k ?nonce ?ct MAGIC = Inr plain"
    by (auto dest: archive_key_Inr decrypt_archive_Inr)
  have "?ct = bk_encrypt bk k ?nonce plain MAGIC" using k(2) assms(1) unfolding backup_ok_def by blast
  then have "blob = MAGIC @ take 4 (drop 8 blob) @ ?w @ ?nonce @ bk_encrypt bk k ?nonce plain MAGIC"
    using archive_parts [of blob n] m by metis
  with k(1) o(2,3) show ?thesis by metis
qed

theorem restore_only_authentic_witness:
  "\<exists>blob len wrapped nonce k plain. create_backup demo_backup (replicate 32 0) (replicate 12 0) [] [''scr.db'' \<mapsto> [7]] None = Inr blob \<and>
     blob = MAGIC @ len @ wrapped @ nonce @ bk_encrypt demo_backup k nonce plain MAGIC"
proof -
  obtain blob where b: "create_backup demo_backup (replicate 32 0) (replicate 12 0) [] [''scr.db'' \<mapsto> [7]] None = Inr blob"
    by (simp add: create_backup_def wrap_key_def to_be32_def demo_backup_def Let_def)
  obtain r d where r: "restore_backup demo_backup (\<lambda>_. False) blob None Map.empty = (r, d)" by (cases "restore_backup demo_backup (\<lambda>_. False) blob None Map.empty")
  have "open_archive demo_backup blob None = Inr (bk_zip demo_backup (collect [] [''scr.db'' \<mapsto> [7]]))"
  proof -
    have "blob = MAGIC @ [0, 0, 0, 33] @ (1 # replicate 32 0) @ replicate 12 0 @
      bk_encrypt demo_backup (replicate 32 0) (replicate 12 0) (bk_zip demo_backup (collect [] [''scr.db'' \<mapsto> [7]])) MAGIC"
      using b by (simp add: create_backup_def wrap_key_def to_be32_def demo_backup_def Let_def)
    then show ?thesis
      using archive_opens [OF demo_backup_ok, of "1 # replicate 32 0" "[0, 0, 0, 33]" "replicate 12 0" None "replicate 32 0"
          "bk_zip demo_backup (collect [] [''scr.db'' \<mapsto> [7]])"]
      by (simp add: to_be32_def unwrap_key_def) (simp add: demo_backup_def)
  qed
  then have "d ''scr.db'' = Some [7]" using r demo_backup_ok
    by (simp add: restore_backup_def backup_ok_def move_files_all extract_own listing_def walk_staging_map [OF demo_backup_ok])
      (auto simp: collect_def map_add_def)
  then have "d \<noteq> Map.empty" by auto
  from restore_only_authentic [OF demo_backup_ok r this] b show ?thesis by blast
qed

text \<open>A restore is not atomic. The files of the archive are moved into the destination one after the other, so when a move fails
  the ones before it have replaced their targets already and the others have not.\<close>

theorem restore_not_atomic:
  assumes "open_archive bk blob key = Inr plain" and "bk_unzip bk plain = Inr fs" and "extractall fs = Inr ms"
    and "walk_staging bk ms = moved @ (rel, bs) # rest" and "list_all (\<lambda>f. \<not> fails (fst f)) moved" and "fails rel"
  shows "restore_backup bk fails blob key dest = (Inl (mk_exn ''OSError'' rel), dest ++ map_of (rev moved))"
proof -
  have "move_files fails (moved @ (rel, bs) # rest) home = (Inl (mk_exn ''OSError'' rel), home ++ map_of (rev moved))" for home
    using assms(5,6) by (induction moved arbitrary: home) (auto simp: map_add_def fun_eq_iff split: option.splits)
  then show ?thesis using assms(1-4) by (simp add: restore_backup_def)
qed

definition plain_backup :: backup_env where
  "plain_backup = demo_backup\<lparr>bk_unzip := (\<lambda>bs. Inr [(''config.json'', [1]), (''scr.db'', [2])])\<rparr>"

theorem restore_not_atomic_witness:
  "restore_backup plain_backup (\<lambda>rel. rel = ''config.json'') (MAGIC @ [0, 0, 0, 1, 9] @ replicate 12 0 @ replicate 12 0 @ MAGIC) None [''scr.db'' \<mapsto> [5]] =
     (Inl (mk_exn ''OSError'' ''config.json''), [''scr.db'' \<mapsto> [5]] ++ [''scr.db'' \<mapsto> [2]])"
proof -
  have o: "open_archive plain_backup (MAGIC @ [0, 0, 0, 1, 9] @ replicate 12 0 @ replicate 12 0 @ MAGIC) None = Inr []"
    by (simp add: open_archive_def MAGIC_length from_be_def archive_key_def unwrap_key_def decrypt_archive_def plain_backup_def demo_backup_def Let_def)
  have x: "extractall [(''config.json'', [1]), (''scr.db'', [2])] = Inr [(''config.json'', [1]), (''scr.db'', [2])]"
    by (simp add: extractall_def member_path_def endswith_def)
  have w: "walk_staging plain_backup [(''config.json'', [1]), (''scr.db'', [2])] = [(''scr.db'', [2])] @ (''config.json'', [1]) # []"
    by (simp add: walk_staging_def plain_backup_def demo_backup_def)
  from restore_not_atomic [OF o _ x w] show ?thesis by (simp add: plain_backup_def)
qed

text \<open>The write-ahead log of the database is not part of a backup. The store runs in WAL mode, in which committed transactions live in
  \<open>scr.db-wal\<close> until a checkpoint; a backup does not depend on that file, and a restore leaves the destination's in place
  beside a database of another time.\<close>

theorem wal_left_out:
  "create_backup bk fresh nonce vs (home(''scr.db-wal'' := w)) key = create_backup bk fresh nonce vs home key \<and> \<not> covered vs ''scr.db-wal''"
proof -
  have e: "entries (home(''scr.db-wal'' := w)) arc ns = entries home arc ns" if "\<forall>n\<in>set ns. arc n \<noteq> ''scr.db-wal''" for arc ns
    using that by (induction ns) auto
  have "collect vs (home(''scr.db-wal'' := w)) = collect vs home" unfolding collect_def by (simp add: e)
  then show ?thesis by (auto simp: create_backup_def covered_def)
qed

end
