(* ===== verification/Releases.thy ===== *)
theory Releases
  imports Evidence
begin

text \<open>
  Release artifacts (\<open>scr/release.py\<close>): the dependency list of the project file, the bill of materials, and detached
  signatures over an artifact's digest. The project file is the table that the TOML reader gives, and an artifact is its
  bytes. A field of a signature manifest or of the project table of another type than the code expects raises here at once.
\<close>

subsection \<open>The bill of materials\<close>

text \<open>\<open>req.split("==", 1)\<close> for a text that contains the separator; \<open>None\<close> otherwise.\<close>

fun split_pin :: "string \<Rightarrow> (string \<times> string) option" where
  "split_pin (a # b # s) =
     (if a = CHR ''='' \<and> b = CHR ''='' then Some ([], s) else map_option (\<lambda>(n, v). (a # n, v)) (split_pin (b # s)))"
| "split_pin _ = None"

definition string_list :: "json \<Rightarrow> py_exn + string list" where
  "string_list j = rbind (json_iter j) (traverse (\<lambda>x. case x of JStr s \<Rightarrow> Inr s | _ \<Rightarrow> Inl type_error))"

definition pin_requirements :: "string list \<Rightarrow> (string \<times> string) list" where
  "pin_requirements reqs =
     fold (\<lambda>req deps. case split_pin req of None \<Rightarrow> deps | Some (name, ver) \<Rightarrow> dict_set (strip name) (strip ver) deps) reqs []"

definition parse_pinned_deps :: "dict \<Rightarrow> py_exn + (string \<times> string) list" where
  "parse_pinned_deps data =
     rbind (as_dict (get_default data ''project'' (JObj []))) (\<lambda>project.
     rbind (string_list (get_default project ''dependencies'' (JArr []))) (\<lambda>reqs.
     let extras = get_default project ''optional-dependencies'' (JObj []) in
     rbind (if truthy extras then as_dict extras else Inr []) (\<lambda>ex.
     rbind (traverse (\<lambda>p. string_list (snd p)) ex) (\<lambda>more.
     Inr (pin_requirements (reqs @ concat more))))))"

definition purl :: "string \<Rightarrow> string \<Rightarrow> json" where
  "purl n v = JStr (''pkg:pypi/'' @ n @ ''@'' @ v)"

definition generate_sbom :: "string \<Rightarrow> string \<Rightarrow> (string \<times> string) list \<Rightarrow> json" where
  "generate_sbom name version dependencies =
     JObj [(''bomFormat'', JStr ''CycloneDX''), (''specVersion'', JStr ''1.5''), (''version'', JInt 1),
       (''metadata'', JObj [(''component'', JObj [(''type'', JStr ''application''), (''name'', JStr name), (''version'', JStr version),
          (''purl'', purl name version)])]),
       (''components'', JArr (map (\<lambda>(n, v). JObj [(''type'', JStr ''library''), (''name'', JStr n), (''version'', JStr v), (''purl'', purl n v),
          (''bom-ref'', purl n v)]) (sort_key fst dependencies)))]"

subsection \<open>Signatures\<close>

definition digest_bytes :: "string \<Rightarrow> py_exn + byte list" where
  "digest_bytes digest = (case fromhex digest of None \<Rightarrow> Inl value_error | Some b \<Rightarrow> Inr b)"

definition sign_artifact :: "ed25519 \<Rightarrow> string \<Rightarrow> byte list \<Rightarrow> string \<Rightarrow> string \<Rightarrow> py_exn + dict" where
  "sign_artifact ed basename artifact private_key_hex public_key_hex =
     (let digest = sha256_hex artifact in
      rbind (key_id public_key_hex) (\<lambda>kid.
      rbind (rbind (digest_bytes digest) (sign ed private_key_hex)) (\<lambda>sg.
      Inr [(''artifact'', JStr basename), (''sha256'', JStr digest), (''algorithm'', JStr ''ed25519''), (''public_key'', JStr public_key_hex),
        (''key_id'', JStr kid), (''signature'', JStr sg)])))"

definition verify_artifact :: "ed25519 \<Rightarrow> byte list \<Rightarrow> dict \<Rightarrow> keystore \<Rightarrow> py_exn + bool \<times> string" where
  "verify_artifact ed artifact man ks =
     (let digest = sha256_hex artifact in
      if get_or_null man ''sha256'' \<noteq> JStr digest then Inr (False, ''artifact digest does not match signature manifest'')
      else
        rbind (text_field man ''public_key'') (\<lambda>pub.
        rbind (text_field man ''signature'') (\<lambda>sg.
        rbind (digest_bytes digest) (\<lambda>d.
        if \<not> verify ed pub sg d then Inr (False, ''Ed25519 signature does not verify'')
        else rbind (trusts ks pub) (\<lambda>t. if \<not> t then Inr (False, ''signing key is not pinned'') else Inr (True, ''verified''))))))"

lemma digest_bytes_sha256: "digest_bytes (sha256_hex bs) = Inr (sha256 bs)"
  by (simp add: digest_bytes_def sha256_hex_def fromhex_hex)

subsection \<open>Properties\<close>

text \<open>A signed release verifies, and what verifies was signed for these bytes. A manifest made for an artifact verifies where the
  signing key is pinned; and whenever an artifact verifies against a manifest, the manifest names its digest, the signature is one of
  the digest under the manifest's key and that key is pinned, so another artifact passes with the same manifest only if the
  two collide under SHA-256.\<close>

theorem release_signatures:
  assumes "ed_correct ed" and "private_bytes private_hex = Inr sk"
    and "sign_artifact ed basename artifact private_hex (hex (ed_public ed sk)) = Inr man"
    and "trusts ks (hex (ed_public ed sk)) = Inr True"
  shows "verify_artifact ed artifact man ks = Inr (True, ''verified'') \<and>
    (verify_artifact ed other man ks = Inr (True, why) \<longrightarrow> other = artifact \<or> collision other artifact)"
proof -
  let ?pub = "hex (ed_public ed sk)"
  have l: "length sk = 32" using assms(2) by (auto simp: private_bytes_def split: option.splits if_splits)
  have man: "get_or_null man ''sha256'' = JStr (sha256_hex artifact)" "text_field man ''public_key'' = Inr ?pub"
    "text_field man ''signature'' = Inr (hex (ed_sign ed sk (sha256 artifact)))"
    using assms(2,3) by (auto simp: sign_artifact_def Let_def rbind_Inr_iff digest_bytes_sha256 sign_def get_or_null_def text_field_def)
  have "verify ed ?pub (hex (ed_sign ed sk (sha256 artifact))) (sha256 artifact)"
    using assms(1) l by (simp add: verify_def fromhex_hex ed_correct_def)
  then have "verify_artifact ed artifact man ks = Inr (True, ''verified'')"
    using man assms(4) by (simp add: verify_artifact_def digest_bytes_sha256)
  moreover have "sha256 other = sha256 artifact" if "verify_artifact ed other man ks = Inr (True, why)"
    using that man(1) digest_bytes_sha256 [of other] digest_bytes_sha256 [of artifact]
    by (auto simp: verify_artifact_def Let_def split: if_splits)
  ultimately show ?thesis by (auto simp: collision_def)
qed

theorem release_signatures_witness:
  "\<exists>man. sign_artifact lax_ed ''scr.msi'' [1, 2] demo_key demo_key = Inr man \<and> verify_artifact lax_ed [1, 2] man demo_ks = Inr (True, ''verified'')"
proof -
  have k: "private_bytes demo_key = Inr (replicate 32 7)" by (simp add: private_bytes_def demo_key_def fromhex_hex)
  have p: "demo_key = hex (ed_public lax_ed (replicate 32 7))" by (simp add: demo_key_def lax_ed_def)
  obtain man where m: "sign_artifact lax_ed ''scr.msi'' [1, 2] demo_key (hex (ed_public lax_ed (replicate 32 7))) = Inr man"
    unfolding p [symmetric] using k by (simp add: sign_artifact_def Let_def digest_bytes_sha256 sign_def key_id_def demo_key_def fromhex_hex)
  from release_signatures [OF lax_ed_correct k m, of demo_ks] demo_trusts m show ?thesis unfolding p [symmetric] by blast
qed

text \<open>The bill of materials lists each pinned dependency once, in the order of the names.\<close>

lemma pin_requirements_distinct: "distinct (map fst (pin_requirements reqs))"
proof -
  have "distinct (map fst (fold (\<lambda>req deps. case split_pin req of None \<Rightarrow> deps | Some (n, v) \<Rightarrow> dict_set (strip n) (strip v) deps) reqs d))"
    if "distinct (map fst d)" for d :: "(string \<times> string) list"
    using that by (induction reqs arbitrary: d) (auto simp: distinct_dict_set split: option.splits prod.splits)
  then show ?thesis by (simp add: pin_requirements_def)
qed

lemma split_pin_join: "split_pin r = Some (n, v) \<Longrightarrow> r = n @ ''=='' @ v"
  by (induction r arbitrary: n rule: split_pin.induct) (auto split: if_splits)

lemma pinned_from_requirement:
  assumes "dict_get (pin_requirements reqs) n = Some v"
  shows "\<exists>a b. a @ ''=='' @ b \<in> set reqs \<and> n = strip a \<and> v = strip b"
proof -
  have "(\<exists>a b. a @ ''=='' @ b \<in> set rs \<and> n = strip a \<and> v = strip b) \<or> dict_get d n = Some v"
    if "dict_get (fold (\<lambda>req deps. case split_pin req of None \<Rightarrow> deps | Some (n, v) \<Rightarrow> dict_set (strip n) (strip v) deps) rs d) n = Some v" for rs d
    using that
  proof (induction rs arbitrary: d)
    case (Cons r rs)
    show ?case
    proof (cases "split_pin r")
      case None
      with Cons show ?thesis by fastforce
    next
      case (Some p)
      obtain a b where p: "p = (a, b)" by (cases p)
      from Cons.IH [of "dict_set (strip a) (strip b) d"] Cons.prems Some p split_pin_join [of r a b] show ?thesis
        by (fastforce split: if_splits)
    qed
  qed simp
  from this [of reqs "[]"] assms show ?thesis by (simp add: pin_requirements_def)
qed

end
