(* ===== verification/Replays.thy ===== *)
theory Replays
  imports Execution
begin

text \<open>
  Deterministic replay (\<open>scr/replay.py\<close>). A builder gives the kernel for a store and a session together with the world
  that its adapter and tools start from; building again gives the same. The id drawn for a session without one is an argument.
\<close>

record replay_result =
  rp_matches :: bool
  rp_source_head :: string
  rp_replay_head :: string
  rp_source_count :: nat
  rp_replay_count :: nat

type_synonym 'w builder = "store \<Rightarrow> string \<Rightarrow> 'w kernel \<times> 'w"

definition run_built :: "'w builder \<Rightarrow> string \<Rightarrow> string \<Rightarrow> store \<Rightarrow> py_exn + store" where
  "run_built build sid user_text st =
     (case kernel_run (fst (build st sid)) sid user_text (st, snd (build st sid)) of
        (Inl e, _) \<Rightarrow> Inl e
      | (Inr _, st', _) \<Rightarrow> Inr st')"

definition run_and_replay :: "'w builder \<Rightarrow> string \<Rightarrow> string \<Rightarrow> string \<Rightarrow> string \<Rightarrow> py_exn + replay_result" where
  "run_and_replay build fresh fresh' session_id user_text =
     rbind (create_session empty_store (Some session_id) fresh) (\<lambda>(sid, src).
     rbind (run_built build sid user_text src) (\<lambda>src'.
     rbind (create_session empty_store (Some session_id) fresh') (\<lambda>(_, rep).
     rbind (run_built build sid user_text rep) (\<lambda>rep'.
     let (h, n) = ledger_head src' sid; (h', n') = ledger_head rep' sid in
     Inr \<lparr>rp_matches = (h = h' \<and> n = n'), rp_source_head = h, rp_replay_head = h', rp_source_count = n, rp_replay_count = n'\<rparr>))))"

definition replay_matches :: "'w builder \<Rightarrow> string \<Rightarrow> store \<Rightarrow> string \<Rightarrow> string \<Rightarrow> py_exn + bool" where
  "replay_matches build fresh source_store session_id user_text =
     (let (h, n) = ledger_head source_store session_id in
      rbind (create_session empty_store (Some session_id) fresh) (\<lambda>(_, rep).
      rbind (run_built build session_id user_text rep) (\<lambda>rep'.
      let (h', n') = ledger_head rep' session_id in Inr (h = h' \<and> n = n'))))"




text \<open>A kernel whose guard allows no iteration, so that its run ends with a recorded stop.\<close>

definition idle_builder :: "nat builder" where
  "idle_builder = (\<lambda>st sid. (echo_kernel\<lparr>k_guards := default_guards\<lparr>max_iterations := 0\<rparr>\<rparr>, 0))"


lemma idle_run: "\<exists>st'. run_built idle_builder sid prompt st = Inr st'"
  by (simp add: run_built_def idle_builder_def kernel_run_def kernel_loop_def echo_kernel_def stop_with_def split: prod.splits)

lemma demo_session: "\<exists>src. create_session empty_store (Some ''s'') fresh = Inr (''s'', src) \<and> src = empty_store\<lparr>sessions := [\<lparr>ses_id = ''s'', ses_status = ''open''\<rparr>]\<rparr>"
  by (simp add: create_session_def empty_store_def Let_def)

lemma idle_replay:
  obtains src src' res where "create_session empty_store (Some ''s'') f = Inr (''s'', src)" "run_built idle_builder ''s'' ''hi'' src = Inr src'"
    "run_and_replay idle_builder f f' ''s'' ''hi'' = Inr res" "replay_matches idle_builder f src' ''s'' ''hi'' = Inr True"
proof -
  let ?src = "empty_store\<lparr>sessions := [\<lparr>ses_id = ''s'', ses_status = ''open''\<rparr>]\<rparr>"
  have c: "create_session empty_store (Some ''s'') f = Inr (''s'', ?src)" for f using demo_session by blast
  obtain src' where r: "run_built idle_builder ''s'' ''hi'' ?src = Inr src'" using idle_run by blast
  have "\<exists>res. run_and_replay idle_builder f f' ''s'' ''hi'' = Inr res" by (simp add: run_and_replay_def c r Let_def case_prod_beta)
  moreover have "replay_matches idle_builder f src' ''s'' ''hi'' = Inr True" by (simp add: replay_matches_def c r Let_def case_prod_beta)
  ultimately show ?thesis using that c r by blast
qed



text \<open>A session that a builder made replays. Running a session with a name and replaying it with the same builder gives equal heads
  and counts, and replaying the recorded store answers true.\<close>

theorem replay_reproduces:
  assumes "session_id \<noteq> []" and "run_and_replay build fresh fresh' session_id prompt = Inr res"
    and "create_session empty_store (Some session_id) fresh = Inr (sid, src)" and "run_built build sid prompt src = Inr src'"
  shows "rp_matches res \<and> rp_replay_head res = fst (ledger_head src' sid) \<and> replay_matches build fresh'' src' session_id prompt = Inr True"
proof -
  have sid: "sid = session_id" and same: "create_session empty_store (Some session_id) f = Inr (sid, src)" for f
    using assms(1,3) by (auto simp: create_session_def Let_def split: if_splits)
  show ?thesis
    using assms(2) by (simp add: run_and_replay_def replay_matches_def same sid assms(4) [unfolded sid] Let_def split: prod.splits)
      (auto simp: sid same assms(4) [unfolded sid])
qed

theorem replay_reproduces_witness:
  "\<exists>res. run_and_replay idle_builder ''f'' ''g'' ''s'' ''hi'' = Inr res \<and> rp_matches res"
proof -
  obtain src src' res where d: "create_session empty_store (Some ''s'') ''f'' = Inr (''s'', src)" "run_built idle_builder ''s'' ''hi'' src = Inr src'"
    "run_and_replay idle_builder ''f'' ''g'' ''s'' ''hi'' = Inr res" "replay_matches idle_builder ''f'' src' ''s'' ''hi'' = Inr True"
    by (rule idle_replay)
  from replay_reproduces [OF _ d(3,1,2)] d(3) show ?thesis by blast
qed

end
