(* ===== verification/Settings.thy ===== *)
theory Settings
  imports Evidence Policy
begin

text \<open>
  Layered configuration (\<open>scr/config.py\<close>). A configuration is its data and the overrides of the run; the file is kept as the
  value its text denotes, and is replaced as a whole (\<open>scr/atomic.py\<close>). A number given for a timeout is the value it
  is stored as. The second part reads a policy (\<open>scr/policy.py\<close>) from what the YAML reader gives; a name or pattern
  that is not a string raises here at once.
\<close>

definition DEFAULTS :: dict where
  "DEFAULTS = [(''bind_host'', JStr ''127.0.0.1''), (''bind_port'', JInt 8787), (''tls'', JBool False), (''models'', JObj []), (''default_model'', JNull)]"

record config =
  cf_data :: dict
  cf_overrides :: dict

definition overlay :: "dict \<Rightarrow> dict \<Rightarrow> dict" where
  "overlay base upper = fold (\<lambda>(k, v). dict_set k v) upper base"

definition config_load :: "json option \<Rightarrow> config \<Rightarrow> py_exn + config" where
  "config_load file c =
     (case file of
        None \<Rightarrow> Inr c
      | Some (JObj d) \<Rightarrow> Inr (c\<lparr>cf_data := overlay DEFAULTS d\<rparr>)
      | Some _ \<Rightarrow> Inl type_error)"

definition config_init :: "json option \<Rightarrow> py_exn + config" where
  "config_init file = config_load file \<lparr>cf_data = DEFAULTS, cf_overrides = []\<rparr>"

definition config_save :: "config \<Rightarrow> json" where
  "config_save c = sort_json (JObj (cf_data c))"

definition config_get :: "config \<Rightarrow> string \<Rightarrow> json \<Rightarrow> json" where
  "config_get c k d = (case dict_get (cf_overrides c) k of Some v \<Rightarrow> v | None \<Rightarrow> get_default (cf_data c) k d)"

definition config_set :: "string \<Rightarrow> json \<Rightarrow> config \<Rightarrow> config" where
  "config_set k v c = c\<lparr>cf_data := dict_set k v (cf_data c)\<rparr>"

definition config_override :: "string \<Rightarrow> json \<Rightarrow> config \<Rightarrow> config" where
  "config_override k v c = c\<lparr>cf_overrides := dict_set k v (cf_overrides c)\<rparr>"

definition model_entry :: "string \<Rightarrow> string \<Rightarrow> string \<Rightarrow> string \<Rightarrow> json option \<Rightarrow> int option \<Rightarrow> dict" where
  "model_entry adapter mdl base_url secret_ref timeout num_ctx =
     [(''adapter'', JStr adapter), (''model'', JStr mdl), (''base_url'', JStr base_url), (''secret_ref'', JStr secret_ref)] @
     (case timeout of None \<Rightarrow> [] | Some t \<Rightarrow> [(''timeout'', t)]) @ (case num_ctx of None \<Rightarrow> [] | Some n \<Rightarrow> [(''num_ctx'', JInt n)])"

definition add_model ::
  "string \<Rightarrow> string \<Rightarrow> string \<Rightarrow> string \<Rightarrow> string \<Rightarrow> json option \<Rightarrow> int option \<Rightarrow> config \<Rightarrow> py_exn + config" where
  "add_model name adapter mdl base_url secret_ref timeout num_ctx c =
     rbind (as_dict (get_default (cf_data c) ''models'' (JObj []))) (\<lambda>ms.
     let d1 = dict_set ''models'' (JObj (dict_set name (JObj (model_entry adapter mdl base_url secret_ref timeout num_ctx)) ms)) (cf_data c) in
     Inr (c\<lparr>cf_data := (if get_default d1 ''default_model'' JNull = JNull then dict_set ''default_model'' (JStr name) d1 else d1)\<rparr>))"

definition config_models :: "config \<Rightarrow> py_exn + dict" where
  "config_models c = as_dict (get_default (cf_data c) ''models'' (JObj []))"

subsection \<open>Properties\<close>

lemma overlay_get: "distinct (map fst upper) \<Longrightarrow> dict_get (overlay base upper) k = (case dict_get upper k of Some v \<Rightarrow> Some v | None \<Rightarrow> dict_get base k)"
proof (induction upper arbitrary: base)
  case (Cons p upper)
  obtain a v where p: "p = (a, v)" by (cases p)
  have "dict_get upper a = None" using Cons.prems p by (auto simp: dict_get_def map_of_eq_None_iff)
  with Cons.IH [of "dict_set a v base"] Cons.prems p show ?case by (auto simp: overlay_def split: option.splits)
qed (simp add: overlay_def)

text \<open>Defaults below, the file above them, overrides on top.\<close>

lemma config_precedence:
  assumes "config_init (Some (JObj d)) = Inr c" "distinct (map fst d)"
  shows "config_get (config_override k v c) k z = v"
    "config_get c k z = (case dict_get d k of Some x \<Rightarrow> x | None \<Rightarrow> get_default DEFAULTS k z)"
  using assms by (auto simp: config_init_def config_load_def config_get_def config_override_def get_default_def overlay_get split: option.splits)

text \<open>A saved configuration is read back. After a save, a fresh configuration answers every key as the saved one did without its
  overrides, up to the order of the keys inside values: everything that was set or added survives, the overrides of a
  run do not, and the models that were added are found under their names with the vault reference that was given.\<close>

theorem config_round_trip:
  assumes "wf_json (JObj (cf_data c))" and "\<forall>k\<in>set (map fst DEFAULTS). dict_get (cf_data c) k \<noteq> None"
  shows "\<exists>c'. config_init (Some (config_save c)) = Inr c' \<and>
    (\<forall>k d. config_get c' k d = (case dict_get (cf_data c) k of Some v \<Rightarrow> sort_json v | None \<Rightarrow> d))"
proof -
  obtain ps where ps: "config_save c = JObj ps" by (simp add: config_save_def sort_json.simps)
  have dis: "distinct (map fst (cf_data c))" using assms(1) by simp
  have "wf_json (JObj ps)" using wf_sort_json [OF assms(1)] unfolding config_save_def [symmetric] ps .
  then have d: "distinct (map fst ps)" by simp
  have g: "dict_get ps k = map_option sort_json (dict_get (cf_data c) k)" for k
    using dict_get_sort_json [OF dis, of k] unfolding config_save_def [symmetric] ps by simp
  have no: "dict_get DEFAULTS k = None" if "dict_get (cf_data c) k = None" for k
    using that assms(2) by (auto simp: dict_get_def map_of_eq_None_iff)
  show ?thesis
    by (auto simp: config_init_def config_load_def ps config_get_def get_default_def overlay_get [OF d] g no split: option.splits)
qed

theorem config_round_trip_witness:
  "\<exists>c c'. add_model ''local'' ''ollama'' ''llama3'' [] ''vault-ref'' None (Some 8192) \<lparr>cf_data = DEFAULTS, cf_overrides = []\<rparr> = Inr c \<and>
     config_init (Some (config_save c)) = Inr c' \<and> config_get c' ''default_model'' JNull = JStr ''local''"
proof -
  obtain c where c: "add_model ''local'' ''ollama'' ''llama3'' [] ''vault-ref'' None (Some 8192) \<lparr>cf_data = DEFAULTS, cf_overrides = []\<rparr> = Inr c"
    "wf_json (JObj (cf_data c))" "dict_get (cf_data c) ''default_model'' = Some (JStr ''local'')"
    "\<forall>k\<in>set (map fst DEFAULTS). dict_get (cf_data c) k \<noteq> None"
    by (simp add: add_model_def DEFAULTS_def get_default_def as_dict_def model_entry_def Let_def)
  from config_round_trip [OF c(2,4)] c(1,3) show ?thesis by (force simp: sort_json.simps)
qed

subsection \<open>Reading a policy\<close>

definition text_value :: "json \<Rightarrow> py_exn + string" where
  "text_value j = (case j of JStr s \<Rightarrow> Inr s | _ \<Rightarrow> Inl type_error)"

definition value_or :: "dict \<Rightarrow> string \<Rightarrow> json \<Rightarrow> json" where
  "value_or d k v = (let x = get_or_null d k in if truthy x then x else v)"

definition approval_rule_of :: "json \<Rightarrow> py_exn + approval_rule" where
  "approval_rule_of r =
     (case r of
        JStr s \<Rightarrow> Inr \<lparr>rule_tool = s, arg_match = []\<rparr>
      | _ \<Rightarrow>
          rbind (as_dict r) (\<lambda>d.
          rbind (as_dict (value_or d ''arg_match'' (JObj []))) (\<lambda>ms.
          rbind (traverse (\<lambda>(k, v). rbind (text_value v) (\<lambda>p. Inr (k, p))) ms) (\<lambda>am.
          case dict_get d ''tool'' of
            None \<Rightarrow> Inl (mk_exn ''KeyError'' (py_repr ''tool''))
          | Some t \<Rightarrow> rbind (text_value t) (\<lambda>tool. Inr \<lparr>rule_tool = tool, arg_match = am\<rparr>)))))"

definition name_set :: "json \<Rightarrow> py_exn + string set option" where
  "name_set j = (if j = JNull then Inr None else rbind (rbind (json_iter j) (traverse text_value)) (\<lambda>xs. Inr (Some (set xs))))"

definition from_yaml :: "json \<Rightarrow> py_exn + policy" where
  "from_yaml loaded =
     rbind (as_dict (if truthy loaded then loaded else JObj [])) (\<lambda>data.
     rbind (json_iter (value_or data ''require_approval'' (JArr []))) (\<lambda>rs.
     rbind (traverse approval_rule_of rs) (\<lambda>rules.
     rbind (as_dict (value_or data ''tighten'' (JObj []))) (\<lambda>t.
     rbind (name_set (get_or_null t ''tools'')) (\<lambda>tt.
     rbind (name_set (get_or_null t ''net_hosts'')) (\<lambda>th.
     Inr \<lparr>approval_rules = rules, tighten_tools = tt, tighten_net_hosts = th\<rparr>))))))"

text \<open>A tool that a policy file lists by its name needs approval for every call, whatever its arguments; an empty file asks for nothing
  and tightens nothing.\<close>

theorem listed_tool_needs_approval:
  assumes "from_yaml (JObj d) = Inr p" and "dict_get d ''require_approval'' = Some (JArr rs)" and "JStr (tc_name call) \<in> set rs"
  shows "requires_approval search p call"
proof -
  have ne: "rs \<noteq> []" using assms(3) by auto
  have "d \<noteq> []" using assms(2) by auto
  then have "traverse approval_rule_of rs = Inr (approval_rules p)"
    using assms(1,2) ne by (auto simp: from_yaml_def rbind_Inr_iff truthy_def as_dict_def value_or_def get_or_null_def json_iter_def)
  moreover have "\<exists>y. y \<in> set ys \<and> f x = Inr y" if "traverse f xs = Inr ys" "x \<in> set xs" for f :: "json \<Rightarrow> py_exn + approval_rule" and xs ys x
    using that by (induction xs arbitrary: ys) (auto simp: rbind_Inr_iff)
  ultimately obtain r where "r \<in> set (approval_rules p)" "approval_rule_of (JStr (tc_name call)) = Inr r" using assms(3) by blast
  then have "r \<in> set (approval_rules p)" "matches search r call" by (auto simp: matches_def approval_rule_of_def)
  then show ?thesis unfolding requires_approval_def by blast
qed

theorem listed_tool_needs_approval_witness:
  "\<exists>p. from_yaml (JObj [(''require_approval'', JArr [JStr ''fs_write''])]) = Inr p \<and>
     requires_approval (\<lambda>_ _. False) p \<lparr>tc_id = ''c'', tc_name = ''fs_write'', tc_arguments = []\<rparr>"
proof -
  obtain p where p: "from_yaml (JObj [(''require_approval'', JArr [JStr ''fs_write''])]) = Inr p"
    by (simp add: from_yaml_def truthy_def as_dict_def value_or_def get_or_null_def json_iter_def approval_rule_of_def name_set_def)
  from listed_tool_needs_approval [OF p, of "[JStr ''fs_write'']" "\<lparr>tc_id = ''c'', tc_name = ''fs_write'', tc_arguments = []\<rparr>"] p show ?thesis by simp
qed

lemma empty_policy: "from_yaml JNull = Inr \<lparr>approval_rules = [], tighten_tools = None, tighten_net_hosts = None\<rparr>"
  by (simp add: from_yaml_def truthy_def as_dict_def value_or_def get_or_null_def json_iter_def name_set_def)

end
