(* ===== verification/Commands.thy ===== *)
theory Commands
  imports TeamSafety Registry Sessions Settings Adapters Secrets Admission
begin

text \<open>
  The commands of the \<open>scr\<close> program (\<open>scr/cli.py\<close>) and the main function of the standalone verifier
  (\<open>scr/_evidence_verifier.py\<close>). A command is a function of its parsed arguments and of the part of the home
  directory that it reads; its outcome is the exception that leaves it, or its exit code and the lines that it prints. The
  argument parser is outside. Dashes in messages are plain ones.
\<close>

type_synonym cmd_outcome = "py_exn + (int \<times> string list)"

text \<open>\<open>SystemExit\<close> is no \<open>Exception\<close>: the handlers of the program let it pass.\<close>

definition system_exit :: "string \<Rightarrow> py_exn" where
  "system_exit msg = \<lparr>exn_class = ''SystemExit'', exn_bases = [''BaseException''], exn_msg = msg, exn_winerror = None\<rparr>"

subsection \<open>Packages\<close>

text \<open>
  The lines of a trust file: a line ends at a line feed, a carriage return or both, and the empty lines are skipped.
\<close>

definition trusted_lines :: "string \<Rightarrow> string list" where
  "trusted_lines s = filter (\<lambda>l. l \<noteq> []) (map strip (split_on (CHR 0x0A) (map (\<lambda>c. if c = CHR 0x0D then CHR 0x0A else c) s)))"

fun add_keys :: "keystore \<Rightarrow> string list \<Rightarrow> py_exn + keystore" where
  "add_keys ks [] = Inr ks"
| "add_keys ks (l # ls) = rbind (keystore_add ks l) (\<lambda>p. add_keys (snd p) ls)"

definition keystore_from_trust :: "(py_exn + string) option \<Rightarrow> py_exn + keystore" where
  "keystore_from_trust trust = (case trust of None \<Rightarrow> Inr [] | Some f \<Rightarrow> rbind f (\<lambda>s. add_keys [] (trusted_lines s)))"

definition verdict :: "string \<Rightarrow> load_result \<Rightarrow> int \<times> string list" where
  "verdict done_word res =
     (if ld_ok res then (0, [done_word @ '' '' @ py_str (ld_package res) @ '' '' @ py_str (ld_version res)])
      else (1, [''REJECTED ['' @ (case ld_error res of None \<Rightarrow> ''None'' | Some e \<Rightarrow> e) @ '']: '' @ ld_detail res]))"

definition cmd_package_verify :: "ed25519 \<Rightarrow> (py_exn + string) option \<Rightarrow> py_exn + zip_file \<Rightarrow> cmd_outcome" where
  "cmd_package_verify ed trust file =
     rbind (keystore_from_trust trust) (\<lambda>ks. rbind (verify_package ed file ks None) (\<lambda>res. Inr (verdict ''VERIFIED'' res)))"

definition cmd_package_install ::
  "registry_env \<Rightarrow> json option \<Rightarrow> (py_exn + string) option \<Rightarrow> string \<Rightarrow> registry \<Rightarrow> cmd_outcome \<times> registry" where
  "cmd_package_install env cfg trust path rg =
     (case rbind (config_init cfg) (\<lambda>_. keystore_from_trust trust) of
        Inl e \<Rightarrow> (Inl e, rg)
      | Inr ks \<Rightarrow>
          (case reg_install (env\<lparr>re_keystore := ks, re_revocations := None\<rparr>) path rg of
             (Inl e, rg') \<Rightarrow> (Inl e, rg')
           | (Inr res, rg') \<Rightarrow> (Inr (verdict ''installed'' res), rg')))"

definition cmd_package_list :: "json option \<Rightarrow> registry \<Rightarrow> cmd_outcome" where
  "cmd_package_list cfg rg =
     rbind (config_init cfg) (\<lambda>_. Inr (0, map (\<lambda>p. ip_name p @ '' '' @ py_str (ie_version (ip_entry p)) @ ''  key_id='' @
       py_str (ie_key_id (ip_entry p))) (list_installed rg)))"

subsection \<open>Evidence\<close>

definition cmd_ledger_export ::
  "string \<Rightarrow> json option \<Rightarrow> string \<Rightarrow> string \<Rightarrow> string \<Rightarrow> store \<Rightarrow> cmd_outcome \<times> zip_file option" where
  "cmd_ledger_export src cfg key_hex sid out st =
     (case config_init cfg of
        Inl e \<Rightarrow> (Inl e, None)
      | Inr _ \<Rightarrow>
          (case fromhex key_hex of
             None \<Rightarrow> (Inl value_error, None)
           | Some key \<Rightarrow> (Inr (0, [''exported evidence bundle to '' @ out]), Some (snd (export_bundle src st sid key None)))))"

text \<open>The report is printed as a text and decides the exit code.\<close>

definition cmd_ledger_verify :: "string \<Rightarrow> py_exn + zip_file \<Rightarrow> py_exn + (int \<times> evidence_report)" where
  "cmd_ledger_verify key_hex file =
     (case (if key_hex = [] then Some [] else fromhex key_hex) of
        None \<Rightarrow> Inl value_error
      | Some key \<Rightarrow> rbind (verify_bundle file key) (\<lambda>r. Inr (if report_ok r then 0 else 1, r)))"

text \<open>The main function of the verifier that a bundle carries: a bundle file and the file beside it, which may be missing.\<close>

definition verifier_main :: "py_exn + json \<Rightarrow> py_exn + string \<Rightarrow> string \<Rightarrow> string \<Rightarrow> py_exn + (int \<times> evidence_report)" where
  "verifier_main bundle hmac_file key_arg key_env =
     rbind bundle (\<lambda>b.
     rbind (case hmac_file of Inr s \<Rightarrow> Inr (strip s) | Inl e \<Rightarrow> if isinstance e ''OSError'' then Inr [] else Inl e) (\<lambda>mac.
     let key_hex = (if key_arg \<noteq> [] then key_arg else key_env) in
     case (if key_hex = [] then Some [] else fromhex key_hex) of
       None \<Rightarrow> Inl value_error
     | Some key \<Rightarrow> rbind (verify_bundle_obj b mac key) (\<lambda>r. Inr (if report_ok r then 0 else 1, r))))"

text \<open>The team whose bundle is asked for, if any: the id names a team with members, or a session of one. An empty id is none.\<close>

definition team_of_id :: "store \<Rightarrow> string \<Rightarrow> string option" where
  "team_of_id st i =
     (case (if team_members st i \<noteq> [] then Some i else team_id_for_session st i) of Some (c # cs) \<Rightarrow> Some (c # cs) | _ \<Rightarrow> None)"

definition cmd_session_export ::
  "string \<Rightarrow> json option \<Rightarrow> string \<Rightarrow> string \<Rightarrow> string \<Rightarrow> bool \<Rightarrow> store \<Rightarrow> cmd_outcome \<times> store \<times> zip_file option" where
  "cmd_session_export src cfg key_hex sid out seal st =
     (case config_init cfg of
        Inl e \<Rightarrow> (Inl e, st, None)
      | Inr _ \<Rightarrow>
          (case fromhex key_hex of
             None \<Rightarrow> (Inl value_error, st, None)
           | Some key \<Rightarrow>
               (case team_of_id st sid of
                  None \<Rightarrow>
                    if sid \<notin> ses_id ` set (sessions st)
                    then (Inl (system_exit (''no such session or team: '' @ py_repr sid @ '' - nothing exported'')), st, None)
                    else
                      (let st1 = (if seal then snd (seal_on_close st sid key) else st) in
                       (Inr (0, [''exported evidence for session '' @ sid @ '' to '' @ out]), st1, Some (snd (export_bundle src st1 sid key None))))
                | Some tid \<Rightarrow>
                    (case export_team_bundle src st tid key None of
                       (Inl e, st1) \<Rightarrow> (Inl e, st1, None)
                     | (Inr (_, z), st1) \<Rightarrow>
                         (Inr (0, [''exported TEAM evidence ('' @ nat_str (length (team_members st1 tid)) @ '' sessions) for '' @ tid @ '' to '' @ out]),
                          st1, Some z)))))"

subsection \<open>Sessions\<close>

text \<open>
  The listing joins every session with its row in a team, if it has one. When a session was created is a column that the
  model of the store leaves out; it is given, as is the text of a time. A missing depth sorts first.
\<close>

definition depth_key :: "team_row option \<Rightarrow> nat" where
  "depth_key t = (case t of None \<Rightarrow> 0 | Some r \<Rightarrow> Suc (tm_depth r))"

definition joined :: "store \<Rightarrow> (session_row \<times> team_row option) list" where
  "joined st = concat (map (\<lambda>s. case filter (\<lambda>t. tm_session t = ses_id s) (team_sessions st) of
       [] \<Rightarrow> [(s, None)] | ts \<Rightarrow> map (\<lambda>t. (s, Some t)) ts) (sessions st))"

definition session_rows :: "(string \<Rightarrow> int) \<Rightarrow> store \<Rightarrow> (session_row \<times> team_row option) list" where
  "session_rows created st = sort_key (\<lambda>(s, t). created (ses_id s)) (sort_key (\<lambda>(s, t). depth_key t) (joined st))"

definition or_dash :: "string \<Rightarrow> string" where
  "or_dash s = (if s = [] then ''-'' else s)"

definition session_line :: "(int \<Rightarrow> string) \<Rightarrow> (string \<Rightarrow> int) \<Rightarrow> session_row \<times> team_row option \<Rightarrow> string" where
  "session_line strftime created r =
     (case r of (s, t) \<Rightarrow>
        ses_id s @ ''  team='' @ (case t of None \<Rightarrow> ''-'' | Some m \<Rightarrow> or_dash (tm_team m)) @
        ''  agent='' @ (case t of None \<Rightarrow> ''-'' | Some m \<Rightarrow> or_dash (tm_agent m)) @
        ''  depth='' @ (case t of None \<Rightarrow> ''-'' | Some m \<Rightarrow> nat_str (tm_depth m)) @
        ''  status='' @ ses_status s @ ''  started='' @ strftime (created (ses_id s)))"

definition cmd_session_list :: "(int \<Rightarrow> string) \<Rightarrow> (string \<Rightarrow> int) \<Rightarrow> json option \<Rightarrow> store \<Rightarrow> cmd_outcome" where
  "cmd_session_list strftime created cfg st =
     rbind (config_init cfg) (\<lambda>_.
       let rows = session_rows created st in
       if rows = [] then Inr (0, [''(no sessions)''])
       else Inr (0, map (session_line strftime created) rows @
         map (\<lambda>j. ''job '' @ jb_id j @ ''  '' @ jb_status j @ ''  session='' @ jb_session j) (jobs_all st)))"

subsection \<open>License and health\<close>

definition bool_str :: "bool \<Rightarrow> string" where
  "bool_str b = (if b then ''True'' else ''False'')"

definition cmd_license_status ::
  "ed25519 \<Rightarrow> (license \<Rightarrow> byte list) \<Rightarrow> py_exn + license \<Rightarrow> string \<Rightarrow> int option \<Rightarrow> int \<Rightarrow> cmd_outcome" where
  "cmd_license_status ed payload parsed pubkey now_arg clock =
     rbind (license_check ed payload parsed pubkey (case now_arg of None \<Rightarrow> clock | Some n \<Rightarrow> n)) (\<lambda>s.
       Inr (if ls_state s \<noteq> ''invalid'' then 0 else 1,
         [''license: '' @ ls_state s @ '' ('' @ (if ls_reason s = [] then ''ok'' else ls_reason s) @ '') may_run='' @ bool_str (may_run s) @
          '' may_read_evidence='' @ bool_str (may_read_evidence s)]))"

text \<open>The checks of \<open>doctor\<close>: a name, a status and a detail.\<close>

type_synonym check = "string \<times> string \<times> string"

definition caught :: "string \<Rightarrow> string \<Rightarrow> py_exn \<Rightarrow> py_exn + check list" where
  "caught name status e = (if isinstance e ''Exception'' then Inr [(name, status, take 120 (exn_msg e))] else Inl e)"

definition check_db :: "py_exn + string \<Rightarrow> py_exn + check list" where
  "check_db integ =
     (case integ of
        Inr s \<Rightarrow> Inr [(''db_integrity'', if s = ''ok'' then ''OK'' else ''FAIL'', s)]
      | Inl e \<Rightarrow> caught ''db_integrity'' ''FAIL'' e)"

text \<open>The free space in bytes, and the same in GiB as a text with one decimal.\<close>

definition check_disk :: "py_exn + (nat \<times> string) \<Rightarrow> py_exn + check list" where
  "check_disk disk =
     (case disk of
        Inr (free, gib) \<Rightarrow> Inr [(''disk_headroom'', if free \<ge> 1024 ^ 3 then ''OK'' else ''WARN'', gib @ '' GiB free'')]
      | Inl e \<Rightarrow> caught ''disk_headroom'' ''WARN'' e)"

definition check_installed :: "ed25519 \<Rightarrow> registry \<Rightarrow> installed_package \<Rightarrow> py_exn + check" where
  "check_installed ed rg p =
     rbind (integrity_check ed (open_file rg (ie_path (ip_entry p)))) (\<lambda>res.
       Inr (''pkg:'' @ ip_name p, if ld_ok res then ''OK'' else ''FAIL'',
            py_str (ie_version (ip_entry p)) @ '' '' @
            (if ld_ok res then ''intact'' else (case ld_error res of None \<Rightarrow> ''None'' | Some e \<Rightarrow> e) @ '': '' @ ld_detail res)))"

definition check_packages :: "ed25519 \<Rightarrow> registry \<Rightarrow> py_exn + check list" where
  "check_packages ed rg =
     (if list_installed rg = [] then Inr [(''packages'', ''OK'', ''none installed'')]
      else traverse (check_installed ed rg) (list_installed rg))"

definition check_lock :: "py_exn + unit \<Rightarrow> py_exn + check list" where
  "check_lock lock =
     (case lock of
        Inr _ \<Rightarrow> Inr [(''lock_health'', ''OK'', ''workspace lock free'')]
      | Inl e \<Rightarrow> if isinstance e ''LockHeld'' then Inr [(''lock_health'', ''WARN'', ''held by another instance'')]
                 else caught ''lock_health'' ''WARN'' e)"

definition ljust :: "nat \<Rightarrow> string \<Rightarrow> string" where
  "ljust n s = s @ replicate (n - length s) (CHR '' '')"

definition rjust :: "nat \<Rightarrow> string \<Rightarrow> string" where
  "rjust n s = replicate (n - length s) (CHR '' '') @ s"

definition check_line :: "nat \<Rightarrow> check \<Rightarrow> string" where
  "check_line width c = (case c of (name, status, detail) \<Rightarrow> ''  ['' @ rjust 4 status @ ''] '' @ ljust width name @ ''  '' @ detail)"

definition cmd_doctor ::
  "ed25519 \<Rightarrow> json option \<Rightarrow> string \<Rightarrow> py_exn + string \<Rightarrow> py_exn + (nat \<times> string) \<Rightarrow> registry \<Rightarrow> py_exn + unit \<Rightarrow> string \<Rightarrow> cmd_outcome" where
  "cmd_doctor ed cfg home integ disk rg lock clock =
     rbind (config_init cfg) (\<lambda>c.
     rbind (check_db integ) (\<lambda>c1.
     rbind (check_disk disk) (\<lambda>c2.
     rbind (check_packages ed rg) (\<lambda>c3.
     rbind (check_lock lock) (\<lambda>c4.
     rbind (config_models c) (\<lambda>ms.
       let checks = c1 @ c2 @ c3 @ c4 @ [(''models'', ''OK'', nat_str (length ms) @ '' configured''), (''clock'', ''OK'', clock)];
           width = Max (set (map (\<lambda>k. length (fst k)) checks)) in
       Inr (if \<forall>k\<in>set checks. fst (snd k) \<noteq> ''FAIL'' then 0 else 1,
            [''SCR '' @ VERSION, ''home: '' @ home] @ map (check_line width) checks)))))))"

subsection \<open>Models\<close>

text \<open>The secret is stored in the vault before the entry is added; what the vault kept stays when adding the entry raises.\<close>

definition secret_name :: "string \<Rightarrow> string" where
  "secret_name name = ''model:'' @ name"

definition cmd_model_add ::
  "'k machine \<Rightarrow> json option \<Rightarrow> string \<Rightarrow> string \<Rightarrow> string \<Rightarrow> string \<Rightarrow> string option \<Rightarrow> json option \<Rightarrow> int option \<Rightarrow> 'k vault \<Rightarrow>
     cmd_outcome \<times> json option \<times> 'k vault" where
  "cmd_model_add dp cfg name adapter mdl base_url secret timeout num_ctx v =
     (case config_init cfg of
        Inl e \<Rightarrow> (Inl e, cfg, v)
      | Inr c \<Rightarrow>
          (case (case secret of Some (x # xs) \<Rightarrow> store_secret dp (secret_name name) (x # xs) v | _ \<Rightarrow> (Inr (), v)) of
             (Inl e, v1) \<Rightarrow> (Inl e, cfg, v1)
           | (Inr _, v1) \<Rightarrow>
               (let secret_ref = (case secret of Some (x # xs) \<Rightarrow> secret_name name | _ \<Rightarrow> []) in
                case add_model name adapter mdl base_url secret_ref timeout num_ctx c of
                  Inl e \<Rightarrow> (Inl e, cfg, v1)
                | Inr c1 \<Rightarrow>
                    (Inr (0, [''added model '' @ py_repr name @ '' (adapter='' @ adapter @ '', secret_ref='' @
                         (if secret_ref = [] then ''none'' else secret_ref) @ '')'']), Some (config_save c1), v1))))"

definition no_model :: "json \<Rightarrow> py_exn" where
  "no_model name = system_exit (''no configured model '' @ py_repr_json name @ ''; run `scr model add` first'')"

definition chosen_model :: "config \<Rightarrow> string option \<Rightarrow> py_exn + dict" where
  "chosen_model c arg =
     (let name = (case arg of Some (x # xs) \<Rightarrow> JStr (x # xs) | _ \<Rightarrow> config_get c ''default_model'' JNull) in
      if \<not> truthy name then Inl (no_model name)
      else rbind (config_models c) (\<lambda>ms.
        case name of
          JStr n \<Rightarrow> (case dict_get ms n of None \<Rightarrow> Inl (no_model name) | Some mc \<Rightarrow> as_dict mc)
        | _ \<Rightarrow> if hashable name then Inl (no_model name) else Inl type_error))"

definition model_secret :: "'k machine \<Rightarrow> 'k vault \<Rightarrow> dict \<Rightarrow> py_exn + string option" where
  "model_secret dp v mc =
     (let r = get_or_null mc ''secret_ref'' in
      if truthy r then (case r of JStr s \<Rightarrow> get_secret dp v s | _ \<Rightarrow> Inl type_error) else Inr None)"

definition adapter_from_config :: "'k machine \<Rightarrow> 'k vault \<Rightarrow> config \<Rightarrow> string option \<Rightarrow> py_exn + vendor" where
  "adapter_from_config dp v c arg = rbind (chosen_model c arg) (\<lambda>mc. rbind (model_secret dp v mc) (build_adapter mc))"

subsection \<open>Runs\<close>

text \<open>
  What a run takes from outside: the exchange with a model service, the clock, the pattern search, the flags and fresh ids.
\<close>

record 'w run_env =
  rn_complete :: "vendor \<Rightarrow> message list \<Rightarrow> tool_def list \<Rightarrow> 'w \<Rightarrow> (py_exn + model_response) \<times> 'w"
  rn_search :: "string \<Rightarrow> string \<Rightarrow> bool"
  rn_monotonic :: "'w \<Rightarrow> int \<times> 'w"
  rn_sleep :: "int \<Rightarrow> 'w \<Rightarrow> 'w"
  rn_flag :: "string \<Rightarrow> 'w \<Rightarrow> bool \<times> 'w"
  rn_now :: int
  rn_session :: string
  rn_job :: string
  rn_key :: string

definition bare_kernel :: "'w run_env \<Rightarrow> vendor \<Rightarrow> 'w kernel" where
  "bare_kernel env adapter =
     \<lparr>k_complete = rn_complete env adapter, k_tools = [], k_manifest = empty_manifest, k_guards = default_guards,
      k_system_prompt = ''You are a SelfConnect agent.'', k_policy = None, k_search = rn_search env, k_cancel_check = None,
      k_finalize_guard = None, k_monotonic = rn_monotonic env, k_sleep = rn_sleep env\<rparr>"

definition session_manager_of :: "'w run_env \<Rightarrow> vendor \<Rightarrow> 'w session_manager" where
  "session_manager_of env adapter = \<lparr>sm_factory = (\<lambda>s sid. bare_kernel env adapter), sm_guard = None, sm_flag = rn_flag env\<rparr>"

definition exit_code :: "run_result \<Rightarrow> int" where
  "exit_code r = (if rr_stopped r \<in> {''completed'', ''awaiting_approval''} then 0 else 1)"

definition final_lines :: "run_result \<Rightarrow> string list" where
  "final_lines r = (if rr_final_text r = [] then [] else [rr_final_text r])"

definition run_task ::
  "'w run_env \<Rightarrow> 'k machine \<Rightarrow> 'k vault \<Rightarrow> config \<Rightarrow> string option \<Rightarrow> string option \<Rightarrow> string \<Rightarrow> store \<times> 'w \<Rightarrow> cmd_outcome \<times> store \<times> 'w" where
  "run_task env dp v c mdl idem task s =
     (case adapter_from_config dp v c mdl of
        Inl e \<Rightarrow> (Inl e, s)
      | Inr adapter \<Rightarrow>
          (case enqueue (rn_now env) (rn_session env) (rn_job env) task (case idem of Some (x # xs) \<Rightarrow> x # xs | _ \<Rightarrow> rn_key env) (fst s) of
             (Inl e, st1) \<Rightarrow> (Inl e, st1, snd s)
           | (Inr job, st1) \<Rightarrow>
               (case run_job (session_manager_of env adapter) (jr_job_id job) (st1, snd s) of
                  (Inl e, s2) \<Rightarrow> (Inl e, s2)
                | (Inr r, s2) \<Rightarrow>
                    (Inr (exit_code r, (''job '' @ jr_job_id job @ '' ['' @ rr_stopped r @ ''] session '' @ jr_job_session job) # final_lines r), s2))))"

definition cmd_session_resume ::
  "'w run_env \<Rightarrow> 'k machine \<Rightarrow> 'k vault \<Rightarrow> json option \<Rightarrow> string option \<Rightarrow> string \<Rightarrow> store \<times> 'w \<Rightarrow> cmd_outcome \<times> store \<times> 'w" where
  "cmd_session_resume env dp v cfg mdl jid s =
     (case rbind (config_init cfg) (\<lambda>c. adapter_from_config dp v c mdl) of
        Inl e \<Rightarrow> (Inl e, s)
      | Inr adapter \<Rightarrow>
          (case resume_job (session_manager_of env adapter) jid s of
             (Inl e, s2) \<Rightarrow> (Inl e, s2)
           | (Inr r, s2) \<Rightarrow> (Inr (exit_code r, [''resumed '' @ jid @ '' ['' @ rr_stopped r @ '']'']), s2)))"

subsection \<open>Team runs\<close>

text \<open>The workspace of a team run. An explicit one must be a directory that can be listed.\<close>

record file_probe =
  fp_abspath :: "string \<Rightarrow> string"
  fp_isdir :: "string \<Rightarrow> bool"
  fp_listdir :: "string \<Rightarrow> py_exn + string list"
  fp_bytes :: "string \<Rightarrow> py_exn + byte list"

definition workspace_of :: "file_probe \<Rightarrow> string \<Rightarrow> string option \<Rightarrow> py_exn + string" where
  "workspace_of fp home arg =
     (let workspace = fp_abspath fp (case arg of Some (x # xs) \<Rightarrow> x # xs | _ \<Rightarrow> home) in
      case arg of
        None \<Rightarrow> Inr workspace
      | Some a \<Rightarrow>
          if \<not> fp_isdir fp workspace
          then Inl (system_exit (''--workspace is not an existing directory: '' @ workspace @ '' (from argument '' @ py_repr a @ '')''))
          else (case fp_listdir fp workspace of
                  Inl e \<Rightarrow> if isinstance e ''OSError'' then Inl (system_exit (''--workspace is not readable: '' @ workspace @ '' ('' @ exn_msg e @ '')''))
                           else Inl e
                | Inr _ \<Rightarrow> Inr workspace))"

definition provenance_of :: "installed_package \<Rightarrow> byte list \<Rightarrow> dict" where
  "provenance_of p bs =
     [(''package'', JStr (ip_name p)), (''version'', ie_version (ip_entry p)), (''key_id'', ie_key_id (ip_entry p)),
      (''content_sha256'', JStr (sha256_hex bs))]"

definition offers :: "loaded_team \<Rightarrow> string \<Rightarrow> bool" where
  "offers lt target \<longleftrightarrow> target \<in> set (dict_keys (lt_specs lt)) \<or> target \<in> set (dict_keys (lt_aliases lt))"

definition offer_names :: "loaded_team \<Rightarrow> string list" where
  "offer_names lt = sorted_strs (dict_keys (lt_specs lt)) @ map (\<lambda>a. ''team:'' @ a) (dict_keys (lt_aliases lt))"

text \<open>
  The search of the installed packages for the target. Loading a package may not end, as in the theory of topologies; the
  result is the team with its provenance, or what is available.
\<close>

fun resolve_team ::
  "(installed_package \<Rightarrow> (py_exn + loaded_team) option) \<Rightarrow> (string \<Rightarrow> py_exn + byte list) \<Rightarrow> string \<Rightarrow> installed_package list \<Rightarrow>
     (string \<times> string list) list \<Rightarrow> (py_exn + ((loaded_team \<times> dict) + (string \<times> string list) list)) option" where
  "resolve_team load bytes target [] available = Some (Inr (Inr available))"
| "resolve_team load bytes target (p # ps) available =
     (case load p of
        None \<Rightarrow> None
      | Some (Inl e) \<Rightarrow> if isinstance e ''TeamLoadError'' then resolve_team load bytes target ps available else Some (Inl e)
      | Some (Inr lt) \<Rightarrow>
          if offers lt target
          then Some (rbind (bytes (ie_path (ip_entry p))) (\<lambda>bs. Inr (Inl (lt, provenance_of p bs))))
          else resolve_team load bytes target ps (dict_set (ip_name p) (offer_names lt) available))"

definition unknown_target :: "string \<Rightarrow> (string \<times> string list) list \<Rightarrow> py_exn" where
  "unknown_target target available =
     system_exit (''unknown team/agent '' @ py_repr target @ ''. Available - '' @
       (let l = join ''; '' (map (\<lambda>(p, v). p @ '': '' @ repr_str_list v) available) in if l = [] then ''(none installed)'' else l))"

text \<open>The runner of a team run. What the runner takes from outside, the native tools included, is given with \<open>base\<close>.\<close>

definition cli_runner :: "'x team_runner \<Rightarrow> (vendor \<Rightarrow> message list \<Rightarrow> tool_def list \<Rightarrow> 'x \<Rightarrow> (py_exn + model_response) \<times> 'x) \<Rightarrow>
    vendor \<Rightarrow> loaded_team \<Rightarrow> dict \<Rightarrow> 'x team_runner" where
  "cli_runner base ask adapter lt provenance =
     base\<lparr>tn_loaded := lt, tn_adapter := (\<lambda>agent. ask adapter), tn_policy := None, tn_max_depth := 4, tn_provenance := provenance\<rparr>"

definition new_team_world :: "'x \<Rightarrow> 'x team_world" where
  "new_team_world x = \<lparr>tw_sessions = [], tw_last_team = None, tw_policy = [], tw_log = [], tw_env = x\<rparr>"

definition run_team_command ::
  "file_probe \<Rightarrow> 'x team_runner \<Rightarrow> (vendor \<Rightarrow> message list \<Rightarrow> tool_def list \<Rightarrow> 'x \<Rightarrow> (py_exn + model_response) \<times> 'x) \<Rightarrow>
     (string \<Rightarrow> string option \<Rightarrow> installed_package \<Rightarrow> (py_exn + loaded_team) option) \<Rightarrow> 'k machine \<Rightarrow> 'k vault \<Rightarrow> registry \<Rightarrow> string \<Rightarrow>
     config \<Rightarrow> string option \<Rightarrow> string option \<Rightarrow> string \<Rightarrow> string \<Rightarrow> store \<times> 'x \<Rightarrow> (cmd_outcome \<times> store \<times> 'x) option" where
  "run_team_command fp base ask load dp v rg home c mdl warg target task s =
     (case workspace_of fp home warg of
        Inl e \<Rightarrow> Some (Inl e, s)
      | Inr workspace \<Rightarrow>
          (case adapter_from_config dp v c mdl of
             Inl e \<Rightarrow> Some (Inl e, s)
           | Inr adapter \<Rightarrow>
               (case resolve_team (load workspace (Some (path_join home ''out''))) (fp_bytes fp) target (list_installed rg) [] of
                  None \<Rightarrow> None
                | Some (Inl e) \<Rightarrow> Some (Inl e, s)
                | Some (Inr (Inr available)) \<Rightarrow> Some (Inl (unknown_target target available), s)
                | Some (Inr (Inl (lt, provenance))) \<Rightarrow>
                    (case team_run (cli_runner base ask adapter lt provenance) target task None None 0 (fst s, new_team_world (snd s)) of
                       (Inl e, st', w') \<Rightarrow> Some (Inl e, st', tw_env w')
                     | (Inr r, st', w') \<Rightarrow>
                         Some (Inr (exit_code r, (''team '' @ target @ '' ['' @ rr_stopped r @ ''] session '' @ rr_session r @ '' (team '' @
                           (case tw_last_team w' of None \<Rightarrow> ''None'' | Some t \<Rightarrow> t) @ '')'') # final_lines r), st', tw_env w')))))"

text \<open>The package of an installed entry, opened where its index says it is.\<close>

definition load_installed ::
  "(string \<Rightarrow> string) \<Rightarrow> (json \<Rightarrow> py_exn + rat) \<Rightarrow> (string \<Rightarrow> py_exn + json) \<Rightarrow> registry \<Rightarrow> string \<Rightarrow> string option \<Rightarrow>
     installed_package \<Rightarrow> (py_exn + loaded_team) option" where
  "load_installed realpath float_of yaml rg workspace output p =
     load_team_from_package realpath float_of yaml (open_file rg (ie_path (ip_entry p))) workspace output"

text \<open>One word is a task for a single agent, more words are a target and its task.\<close>

definition cmd_run ::
  "file_probe \<Rightarrow> 'x run_env \<Rightarrow> 'x team_runner \<Rightarrow> (json \<Rightarrow> py_exn + rat) \<Rightarrow> (string \<Rightarrow> py_exn + json) \<Rightarrow> 'k machine \<Rightarrow> 'k vault \<Rightarrow> registry \<Rightarrow> string \<Rightarrow>
     json option \<Rightarrow> string option \<Rightarrow> string option \<Rightarrow> string option \<Rightarrow> string list \<Rightarrow> store \<times> 'x \<Rightarrow> (cmd_outcome \<times> store \<times> 'x) option" where
  "cmd_run fp env base float_of yaml dp v rg home cfg mdl warg idem parts s =
     (case config_init cfg of
        Inl e \<Rightarrow> Some (Inl e, s)
      | Inr c \<Rightarrow>
          (case parts of
             target # t # ts \<Rightarrow>
               run_team_command fp base (rn_complete env) (load_installed (tn_realpath base) float_of yaml rg) dp v rg home c mdl warg target
                 (join '' '' (t # ts)) s
           | [task] \<Rightarrow> Some (run_task env dp v c mdl idem task s)
           | [] \<Rightarrow> Some (Inl (mk_exn ''IndexError'' ''list index out of range''), s)))"

subsection \<open>Packages are refused without a pinned key\<close>

lemma empty_store_trusts_nothing: "trusts [] pub = Inr t \<Longrightarrow> \<not> t"
  by (auto simp: trusts_def split: sum.splits)

lemma unpinned_refused: "verify_package ed file [] revs = Inr res \<Longrightarrow> \<not> ld_ok res"
  by (auto simp: verify_package_def check_signature_def reject_def malformed_def Let_def dest!: empty_store_trusts_nothing
      split: sum.splits json.splits option.splits if_splits dest: odd_names_rejects)

text \<open>Installing without a trust file installs nothing. Whatever the package, the registry stays as it was and the command does
  not succeed; the check of such a package does not succeed either.\<close>

theorem no_trust_no_install:
  assumes "cmd_package_install env cfg None path rg = (res, rg')"
  shows "rg' = rg \<and> (\<forall>ls. res \<noteq> Inr (0, ls)) \<and> (\<forall>ls. cmd_package_verify ed None file \<noteq> Inr (0, ls))"
proof -
  have "cmd_package_verify ed None file \<noteq> Inr (0, ls)" for ls
    by (auto simp: cmd_package_verify_def keystore_from_trust_def rbind_Inr_iff verdict_def dest: unpinned_refused split: if_splits)
  moreover have "rg' = rg" "\<And>ls. res \<noteq> Inr (0, ls)"
    using assms
    by (auto simp: cmd_package_install_def keystore_from_trust_def reg_install_def accept_check_def verdict_def Let_def rbind_Inr_iff
        dest: unpinned_refused split: sum.splits prod.splits if_splits)
  ultimately show ?thesis by blast
qed

theorem no_trust_no_install_witness:
  "snd (cmd_package_install demo_env None None ''/p.scpkg'' (demo_registry [])) = demo_registry []"
  using no_trust_no_install [of demo_env None "''/p.scpkg''" "demo_registry []"]
  by (cases "cmd_package_install demo_env None None ''/p.scpkg'' (demo_registry [])") auto

subsection \<open>Exports\<close>

lemma export_without_package: "export_bundle src st sid key None = export_bundle src st sid key (Some [])"
  by (simp add: export_bundle_def build_bundle_def)

lemma session_export_report:
  assumes "ledger_ok st" "seal_current key st sid"
  obtains r where "verify_bundle (Inr (snd (export_bundle src st sid key None))) key = Inr (SessionReport r)" "sr_ok r"
    "sr_count r = length (ledger_rows st sid)"
proof -
  have "wf_json (JObj [])" by simp
  from export_verifies [OF assms this, of src] that show thesis by (auto simp: export_without_package)
qed

lemma team_of_id_members:
  assumes "team_of_id st i = Some tid"
  shows "team_members st tid \<noteq> []" "tid \<noteq> []"
proof -
  have f: "team_members st (tm_team t) \<noteq> []" if "find P (team_sessions st) = Some t" for P t
  proof -
    have "t \<in> set (team_sessions st)" using that by (auto simp: find_Some_iff)
    then have "t \<in> set (team_members st (tm_team t))" by (simp add: team_members_def)
    then show ?thesis by auto
  qed
  show "team_members st tid \<noteq> []" "tid \<noteq> []"
    using assms f by (auto simp: team_of_id_def team_id_for_session_def split: if_splits option.splits list.splits)
qed

text \<open>An exported archive verifies and is about something. Where the export of a session or a team succeeds, the archive that
  is written is verified by \<open>ledger verify\<close> under the same key with exit code zero, and it is the bundle of a team
  with members or of a session that the store has; an id that names neither is refused, nothing is written and
  nothing is sealed.\<close>

theorem export_verifies_something:
  assumes "ledger_ok st" and "config_init cfg = Inr c" and "fromhex key_hex = Some key" and "key_hex \<noteq> []"
    and "team_of_id st sid = None \<longrightarrow> seal \<or> seal_current key st sid"
  shows "(if team_of_id st sid = None \<and> sid \<notin> ses_id ` set (sessions st)
     then cmd_session_export src cfg key_hex sid out seal st =
       (Inl (system_exit (''no such session or team: '' @ py_repr sid @ '' - nothing exported'')), st, None)
     else \<exists>ls st' z r. cmd_session_export src cfg key_hex sid out seal st = (Inr (0, ls), st', Some z) \<and>
       cmd_ledger_verify key_hex (Inr z) = Inr (0, r) \<and>
       (case team_of_id st sid of
          Some tid \<Rightarrow> (\<exists>t. r = TeamReport t \<and> length (tp_sessions t) = length (team_members st tid) \<and> tp_sessions t \<noteq> [])
        | None \<Rightarrow> (\<exists>t. r = SessionReport t \<and> sr_count t = length (ledger_rows st sid))))"
proof (cases "team_of_id st sid")
  case None
  let ?st = "if seal then snd (seal_on_close st sid key) else st"
  have ok: "ledger_ok ?st" "ledger_rows ?st sid = ledger_rows st sid" using assms(1) by (simp_all add: seal_on_close_def)
  have "seal_current key ?st sid" using assms(5) None seal_makes_current [OF assms(1)] by (auto simp: seal_on_close_def)
  from session_export_report [OF ok(1) this, of src] obtain r where
    "verify_bundle (Inr (snd (export_bundle src ?st sid key None))) key = Inr (SessionReport r)" "sr_ok r" "sr_count r = length (ledger_rows st sid)"
    using ok(2) by auto
  with None assms show ?thesis by (simp add: cmd_session_export_def cmd_ledger_verify_def Let_def)
next
  case (Some tid)
  obtain res st' where ex: "export_team_bundle src st tid key None = (res, st')" by (cases "export_team_bundle src st tid key None")
  from team_export_then_verify [OF assms(1) _ ex] obtain mac z t where t: "res = Inr (mac, z)" "verify_bundle (Inr z) key = Inr (TeamReport t)" "tp_ok t"
    "length (tp_sessions t) = length (team_members st tid)" by auto
  with Some ex assms team_of_id_members [OF Some] show ?thesis by (auto simp: cmd_session_export_def cmd_ledger_verify_def)
qed

theorem export_verifies_something_witness:
  "\<exists>ls st' z r. cmd_session_export [] None ''07'' ''b'' ''out.zip'' False demo_team = (Inr (0, ls), st', Some z) \<and>
     cmd_ledger_verify ''07'' (Inr z) = Inr (0, r) \<and>
     cmd_session_export [] None ''07'' ''x'' ''out.zip'' False demo_team =
       (Inl (system_exit (''no such session or team: '' @ py_repr ''x'' @ '' - nothing exported'')), demo_team, None)"
proof -
  have b: "team_of_id demo_team ''b'' = Some ''t''" and x: "team_of_id demo_team ''x'' = None"
    by (simp_all add: team_of_id_def team_members_def team_id_for_session_def demo_team_def)
  have "sessions (snd (ledger_append st i e)) = sessions st" "seals (snd (ledger_append st i e)) = seals st" for st i e
    by (simp_all add: ledger_append_def split_beta Let_def)
  then have s: "sessions demo_team = []" "seals demo_team = []" by (simp_all add: demo_team_def empty_store_def)
  have c: "config_init None = Inr \<lparr>cf_data = DEFAULTS, cf_overrides = []\<rparr>" by (simp add: config_init_def config_load_def)
  have k: "fromhex ''07'' = Some [7]" by code_simp
  have cur: "seal_current [7] demo_team ''x''" by (simp add: seal_current_def s)
  from export_verifies_something [OF demo_team_ok c k, of "''b''" False "[]" "''out.zip''"]
    export_verifies_something [OF demo_team_ok c k, of "''x''" False "[]" "''out.zip''"] b x s cur
  show ?thesis by simp blast
qed

text \<open>The other export has no such check. For an id with no events and no seal, also an empty one, \<open>ledger export\<close> succeeds and
  its archive, a bundle of nothing, is verified with exit code zero, although \<open>session export\<close> refuses the id.\<close>

theorem ledger_export_of_nothing:
  assumes "ledger_ok st" and "config_init cfg = Inr c" and "fromhex key_hex = Some key" and "key_hex \<noteq> []"
    and "ledger_rows st sid = []" and "\<not> is_sealed st sid"
  shows "\<exists>ls z r. cmd_ledger_export src cfg key_hex sid out st = (Inr (0, ls), Some z) \<and>
    cmd_ledger_verify key_hex (Inr z) = Inr (0, SessionReport r) \<and> sr_count r = 0"
proof -
  have "seal_current key st sid" using assms(6) by (auto simp: seal_current_def is_sealed_def)
  from session_export_report [OF assms(1) this, of src] obtain r where
    "verify_bundle (Inr (snd (export_bundle src st sid key None))) key = Inr (SessionReport r)" "sr_ok r" "sr_count r = 0"
    using assms(5) by auto
  with assms show ?thesis by (simp add: cmd_ledger_export_def cmd_ledger_verify_def)
qed

theorem ledger_export_of_nothing_witness:
  "\<exists>ls z r. cmd_ledger_export [] None ''07'' [] ''out.zip'' empty_store = (Inr (0, ls), Some z) \<and>
     cmd_ledger_verify ''07'' (Inr z) = Inr (0, SessionReport r) \<and> sr_count r = 0"
proof -
  have "fromhex ''07'' = Some [7]" by code_simp
  moreover have "ledger_ok empty_store" "ledger_rows empty_store [] = []" "\<not> is_sealed empty_store []"
    by (simp_all add: ledger_ok_def ledger_rows_def is_sealed_def empty_store_def select_seq_def)
  moreover have "config_init None = Inr \<lparr>cf_data = DEFAULTS, cf_overrides = []\<rparr>" by (simp add: config_init_def config_load_def)
  ultimately show ?thesis using ledger_export_of_nothing [of empty_store None] by blast
qed

text \<open>The verifier that a bundle carries and the command agree. On the two files of an archive whose HMAC member is plain text, the
  standalone main function gives the report and the exit code of \<open>ledger verify\<close> under the same key.\<close>

theorem offline_verdict_agrees:
  assumes "zip_read z ''bundle.hmac'' = Inr hb" and "decode hb = Some s" and "\<forall>ch\<in>set s. (of_char ch :: nat) < 128"
    and "key_hex \<noteq> []" and "fromhex key_hex = Some key"
  shows "verifier_main (rbind (zip_read z ''bundle.json'') loads_bytes) (Inr s) key_hex env = cmd_ledger_verify key_hex (Inr z)"
  using assms by (cases "rbind (zip_read z ''bundle.json'') loads_bytes") (simp_all add: verifier_main_def cmd_ledger_verify_def verify_bundle_def)

theorem offline_verdict_agrees_witness:
  "verifier_main (rbind (zip_read [(''bundle.json'', encode ''{}''), (''bundle.hmac'', encode ''00'')] ''bundle.json'') loads_bytes)
      (Inr ''00'') ''07'' [] =
     cmd_ledger_verify ''07'' (Inr [(''bundle.json'', encode ''{}''), (''bundle.hmac'', encode ''00'')])"
proof (rule offline_verdict_agrees)
  show "fromhex ''07'' = Some [7]" by code_simp
  show "zip_read [(''bundle.json'', encode ''{}''), (''bundle.hmac'', encode ''00'')] ''bundle.hmac'' = Inr (encode ''00'')" by code_simp
qed simp_all

subsection \<open>Every session is listed\<close>

lemma joined_one:
  assumes "distinct (map tm_session (team_sessions st))"
  shows "map (\<lambda>r. ses_id (fst r)) (joined st) = map ses_id (sessions st)"
proof -
  have one: "\<exists>t. filter (\<lambda>t. tm_session t = i) ts = (case t of None \<Rightarrow> [] | Some x \<Rightarrow> [x])" if "distinct (map tm_session ts)" for ts :: "team_row list" and i
    using that
  proof (induction ts)
    case Nil
    show ?case by (rule exI [of _ None]) simp
  next
    case (Cons a ts)
    show ?case
    proof (cases "tm_session a = i")
      case True
      then have "filter (\<lambda>t. tm_session t = i) ts = []" using Cons.prems by (auto simp: filter_empty_conv) (metis image_eqI)
      with True show ?thesis by (intro exI [of _ "Some a"]) simp
    qed (use Cons in auto)
  qed
  define g where "g s = (case filter (\<lambda>t. tm_session t = ses_id s) (team_sessions st) of
       [] \<Rightarrow> [(s, None)] | ts \<Rightarrow> map (\<lambda>t. (s, Some t)) ts)" for s :: session_row
  have "map (\<lambda>r. ses_id (fst r)) (g s) = [ses_id s]" for s
  proof -
    obtain t where "filter (\<lambda>t. tm_session t = ses_id s) (team_sessions st) = (case t of None \<Rightarrow> [] | Some x \<Rightarrow> [x])"
      using one [OF assms] by blast
    then show ?thesis by (cases t) (simp_all add: g_def)
  qed
  moreover have "joined st = concat (map g (sessions st))" unfolding joined_def g_def ..
  ultimately show ?thesis by (simp add: map_concat comp_def)
qed

text \<open>The listing shows every session once, also those of a team, which have no job; sessions are in the order of their
  creation.\<close>

theorem every_session_listed:
  assumes "distinct (map tm_session (team_sessions st))"
  shows "mset (map (\<lambda>r. ses_id (fst r)) (session_rows created st)) = mset (map ses_id (sessions st)) \<and>
    sorted (map (\<lambda>r. created (ses_id (fst r))) (session_rows created st)) \<and>
    (config_init cfg = Inr c \<longrightarrow> sessions st \<noteq> [] \<longrightarrow>
      (\<exists>js. cmd_session_list strftime created cfg st = Inr (0, map (session_line strftime created) (session_rows created st) @ js)))"
proof -
  have m: "mset (map (\<lambda>r. ses_id (fst r)) (session_rows created st)) = mset (map ses_id (sessions st))"
    by (simp add: session_rows_def flip: joined_one [OF assms])
  have "sorted (map (\<lambda>(s, t). created (ses_id s)) (session_rows created st))" by (simp add: session_rows_def)
  then have "sorted (map (\<lambda>r. created (ses_id (fst r))) (session_rows created st))" by (simp add: split_def)
  moreover have "session_rows created st = [] \<longleftrightarrow> sessions st = []"
    using m by (metis list.map_disc_iff mset_zero_iff)
  ultimately show ?thesis using m by (auto simp: cmd_session_list_def Let_def)
qed

theorem every_session_listed_witness:
  "let st = demo_team\<lparr>sessions := [\<lparr>ses_id = ''a'', ses_status = ''active''\<rparr>, \<lparr>ses_id = ''c'', ses_status = ''active''\<rparr>]\<rparr> in
     mset (map (\<lambda>r. ses_id (fst r)) (session_rows (\<lambda>_. 0) st)) = {#''a'', ''c''#}"
proof -
  let ?st = "demo_team\<lparr>sessions := [\<lparr>ses_id = ''a'', ses_status = ''active''\<rparr>, \<lparr>ses_id = ''c'', ses_status = ''active''\<rparr>]\<rparr>"
  have "distinct (map tm_session (team_sessions ?st))" by (simp add: demo_team_def)
  from every_session_listed [OF this, of "\<lambda>_. 0"] show ?thesis by (simp add: Let_def)
qed

subsection \<open>Health\<close>

lemma check_installed_status:
  "check_installed ed rg p = Inr k \<Longrightarrow> fst (snd k) = ''FAIL'' \<longleftrightarrow> (\<forall>res. integrity_check ed (open_file rg (ie_path (ip_entry p))) = Inr res \<longrightarrow> \<not> ld_ok res)"
  by (auto simp: check_installed_def rbind_Inr_iff split: if_splits)

lemma traverse_pass:
  "traverse f xs = Inr ys \<Longrightarrow> (\<And>x y. f x = Inr y \<Longrightarrow> P y \<longleftrightarrow> Q x) \<Longrightarrow> (\<forall>y\<in>set ys. P y) \<longleftrightarrow> (\<forall>x\<in>set xs. Q x)"
  by (induction xs arbitrary: ys) (auto simp: rbind_Inr_iff)

lemma caught_status: "caught n s e = Inr ks \<Longrightarrow> k \<in> set ks \<Longrightarrow> fst (snd k) = s"
  by (auto simp: caught_def split: if_splits)

text \<open>A clean bill of health means something. When \<open>doctor\<close> ends with an exit code, the code is zero exactly when the
  integrity check of the database answers ok and every installed package, read from where the index says it is, passes its
  own integrity check; the disk and the lock only give warnings.\<close>

theorem doctor_exit_code:
  assumes "cmd_doctor ed cfg home integ disk rg lock clock = Inr (code, ls)"
  shows "code = (if integ = Inr ''ok'' \<and> (\<forall>p\<in>set (list_installed rg).
      \<exists>res. integrity_check ed (open_file rg (ie_path (ip_entry p))) = Inr res \<and> ld_ok res) then 0 else 1)"
proof -
  from assms obtain c1 c2 c3 c4 ms where c: "check_db integ = Inr c1" "check_disk disk = Inr c2" "check_packages ed rg = Inr c3"
    "check_lock lock = Inr c4" and code: "code = (if \<forall>k\<in>set (c1 @ c2 @ c3 @ c4 @ [(''models'', ''OK'', nat_str (length ms) @ '' configured''),
        (''clock'', ''OK'', clock)]). fst (snd k) \<noteq> ''FAIL'' then 0 else 1)"
    by (auto simp: cmd_doctor_def rbind_Inr_iff Let_def)
  have "(\<forall>k\<in>set c1. fst (snd k) \<noteq> ''FAIL'') \<longleftrightarrow> integ = Inr ''ok''"
    using c(1) by (auto simp: check_db_def caught_def split: sum.splits if_splits)
  moreover have "\<forall>k\<in>set c2. fst (snd k) \<noteq> ''FAIL''" "\<forall>k\<in>set c4. fst (snd k) \<noteq> ''FAIL''"
    using c(2,4) by (auto simp: check_disk_def check_lock_def dest: caught_status split: sum.splits prod.splits if_splits)
  moreover have "(\<forall>k\<in>set c3. fst (snd k) \<noteq> ''FAIL'') \<longleftrightarrow> (\<forall>p\<in>set (list_installed rg).
      \<exists>res. integrity_check ed (open_file rg (ie_path (ip_entry p))) = Inr res \<and> ld_ok res)"
  proof (cases "list_installed rg = []")
    case False
    with c(3) have "traverse (check_installed ed rg) (list_installed rg) = Inr c3" by (simp add: check_packages_def)
    then show ?thesis by (rule traverse_pass) (use check_installed_status in blast)
  qed (use c(3) in \<open>auto simp: check_packages_def\<close>)
  ultimately show ?thesis unfolding code by (simp only: set_append ball_Un) simp
qed

lemma doctor_clean_witness_run:
  "\<exists>ls. cmd_doctor ed None ''/h'' (Inr ''ok'') (Inr (0, ''0.0'')) \<lparr>rg_dir = ''/h/packages'', rg_files = (\<lambda>_. None), rg_index = []\<rparr> (Inr ()) ''now'' = Inr (0, ls)"
  by (simp add: cmd_doctor_def config_init_def config_load_def check_db_def check_disk_def check_packages_def list_installed_def check_lock_def
      config_models_def as_dict_def get_default_def DEFAULTS_def Let_def)

theorem doctor_exit_code_witness:
  "\<exists>code ls. cmd_doctor ed None ''/h'' (Inr ''malformed page'') (Inr (0, ''0.0'')) \<lparr>rg_dir = ''/h/packages'', rg_files = (\<lambda>_. None), rg_index = []\<rparr>
      (Inr ()) ''now'' = Inr (code, ls) \<and> code = 1"
proof -
  let ?d = "cmd_doctor ed None ''/h'' (Inr ''malformed page'') (Inr (0, ''0.0'')) \<lparr>rg_dir = ''/h/packages'', rg_files = (\<lambda>_. None), rg_index = []\<rparr> (Inr ()) ''now''"
  obtain code ls where d: "?d = Inr (code, ls)"
    by (simp add: cmd_doctor_def config_init_def config_load_def check_db_def check_disk_def check_packages_def list_installed_def check_lock_def
      config_models_def as_dict_def get_default_def DEFAULTS_def Let_def)
  from doctor_exit_code [OF this] d show ?thesis by simp
qed

text \<open>A package whose signature names a key that is not hexadecimal makes \<open>doctor\<close> raise instead of failing the check.\<close>

lemma doctor_raises_on_bad_key:
  assumes "p \<in> set (list_installed rg)" and "open_package (open_file rg (ie_path (ip_entry p))) = Inr pkg"
    and "pk_signature pkg = Some (JObj sg)" and "dict_get sg ''public_key'' = Some (JStr pub)" and "pub \<noteq> []" and "fromhex pub = None"
  shows "\<exists>e. cmd_doctor ed cfg home integ disk rg lock clock = Inl e"
proof -
  have "sg \<noteq> []" using assms(4) by auto
  then have "check_installed ed rg p = Inl value_error"
    using assms by (simp add: check_installed_def integrity_check_def keystore_add_def key_id_def truthy_def Let_def)
  then have "\<forall>k. check_packages ed rg \<noteq> Inr k"
    using assms(1) by (auto simp: check_packages_def dest!: traverse_Inr)
  then show ?thesis by (cases "cmd_doctor ed cfg home integ disk rg lock clock") (auto simp: cmd_doctor_def rbind_Inr_iff)
qed

subsection \<open>A model that was added can be used\<close>

lemma overlay_keeps: "dict_get base k \<noteq> None \<Longrightarrow> dict_get (overlay base upper) k \<noteq> None"
  by (induction upper arbitrary: base) (auto simp: overlay_def split: prod.splits)

lemma config_init_shape:
  assumes "config_init cfg = Inr c"
  shows "cf_overrides c = []" "\<forall>k\<in>set (map fst DEFAULTS). dict_get (cf_data c) k \<noteq> None"
proof -
  have "\<forall>k\<in>set (map fst DEFAULTS). dict_get DEFAULTS k \<noteq> None" by (auto simp: dict_get_def map_of_eq_None_iff)
  moreover from this have "\<forall>k\<in>set (map fst DEFAULTS). dict_get (overlay DEFAULTS d) k \<noteq> None" for d using overlay_keeps by blast
  ultimately show "cf_overrides c = []" "\<forall>k\<in>set (map fst DEFAULTS). dict_get (cf_data c) k \<noteq> None"
    using assms by (auto simp: config_init_def config_load_def simp del: set_map split: option.splits json.splits)
qed

lemma add_model_shape:
  assumes "add_model name adapter mdl url ref t n c = Inr c1" and "wf_json (JObj (cf_data c))" and "\<forall>j. t = Some j \<longrightarrow> wf_json j"
    and "\<forall>k\<in>set (map fst DEFAULTS). dict_get (cf_data c) k \<noteq> None"
  obtains ms where "dict_get (cf_data c1) ''models'' = Some (JObj ms)" "dict_get ms name = Some (JObj (model_entry adapter mdl url ref t n))"
    "wf_json (JObj (cf_data c1))" "wf_json (JObj ms)" "\<forall>k\<in>set (map fst DEFAULTS). dict_get (cf_data c1) k \<noteq> None"
proof -
  obtain ms where ms: "get_default (cf_data c) ''models'' (JObj []) = JObj ms"
    using assms(1) by (auto simp: add_model_def as_dict_def rbind_Inr_iff split: json.splits)
  have "wf_json (get_default (cf_data c) ''models'' (JObj []))"
    using assms(2) by (auto simp: get_default_def dict_get_def split: option.splits dest: map_of_SomeD)
  then have wms: "wf_json (JObj ms)" by (simp add: ms)
  have we: "wf_json (JObj (model_entry adapter mdl url ref t n))" using assms(3) by (auto simp: model_entry_def split: option.splits)
  let ?ms = "dict_set name (JObj (model_entry adapter mdl url ref t n)) ms"
  have w: "wf_json (JObj ?ms)" by (rule wf_dict_set [OF we wms])
  have "wf_json (JObj (dict_set ''models'' (JObj ?ms) (cf_data c)))" by (rule wf_dict_set [OF w assms(2)])
  moreover from wf_dict_set [OF _ this, of "JStr name"]
  have "wf_json (JObj (dict_set ''default_model'' (JStr name) (dict_set ''models'' (JObj ?ms) (cf_data c))))" by simp
  ultimately show thesis
    using assms(1,4) ms by (intro that [OF _ _ _ w]) (auto simp: add_model_def as_dict_def rbind_Inr_iff Let_def simp del: wf_json.simps split: if_splits)
qed

lemma added_model_config:
  assumes "add_model name adapter mdl url ref t n c = Inr c1" and "config_init cfg = Inr c" and "wf_json (JObj (cf_data c))"
    and "\<forall>j. t = Some j \<longrightarrow> wf_json j" and "name \<noteq> []"
  obtains c2 mc where "config_init (Some (config_save c1)) = Inr c2" "chosen_model c2 (Some name) = Inr mc"
    "JObj mc = sort_json (JObj (model_entry adapter mdl url ref t n))"
proof -
  from add_model_shape [OF assms(1,3,4) config_init_shape(2) [OF assms(2)]] obtain ms where ms:
    "dict_get (cf_data c1) ''models'' = Some (JObj ms)" "dict_get ms name = Some (JObj (model_entry adapter mdl url ref t n))"
    "wf_json (JObj (cf_data c1))" "wf_json (JObj ms)" "\<forall>k\<in>set (map fst DEFAULTS). dict_get (cf_data c1) k \<noteq> None" .
  from config_round_trip [OF ms(3,5)] obtain c2 where c2: "config_init (Some (config_save c1)) = Inr c2"
    "\<And>k d. config_get c2 k d = (case dict_get (cf_data c1) k of Some v \<Rightarrow> sort_json v | None \<Rightarrow> d)" by blast
  have "distinct (map fst ms)" using ms(4) by simp
  from sort_json_obj [OF this] obtain ms2 where m2: "sort_json (JObj ms) = JObj ms2" "\<And>k. dict_get ms2 k = map_option sort_json (dict_get ms k)" by blast
  have "get_default (cf_data c2) ''models'' (JObj []) = JObj ms2"
    using c2(2) [of "''models''" "JObj []"] config_init_shape(1) [OF c2(1)] by (simp add: config_get_def ms(1) m2(1))
  moreover obtain mc where mc: "sort_json (JObj (model_entry adapter mdl url ref t n)) = JObj mc" by (simp add: sort_json.simps)
  ultimately have "chosen_model c2 (Some name) = Inr mc"
    using assms(5) ms(2) by (cases name) (simp_all add: chosen_model_def config_models_def as_dict_def m2(2) truthy_def)
  with c2(1) mc that show thesis by metis
qed

text \<open>C40: Adding a model makes it usable and keeps its secret out of the configuration. After \<open>model add\<close> with a secret has
  succeeded, a later command that reads the saved configuration and the vault builds the adapter of the entry that was
  given, with exactly that secret; the configuration and the printed line are the same for every other secret.\<close>

theorem added_model_usable:
  assumes "config_init cfg = Inr c" and "wf_json (JObj (cf_data c))" and "\<forall>j. t = Some j \<longrightarrow> wf_json j"
    and "name \<noteq> []" and "dpapi_ok dp" and "keyring_ok dp" and "sec \<noteq> []" and "cmd_model_add dp cfg name adapter mdl url (Some sec) t n v = (Inr out, cfg', v')"
  shows "(\<exists>c' mc. config_init cfg' = Inr c' \<and> JObj mc = sort_json (JObj (model_entry adapter mdl url (secret_name name) t n)) \<and>
      adapter_from_config dp v' c' (Some name) = build_adapter mc (Some sec)) \<and>
    (\<forall>other out2 cfg2 v2. other \<noteq> [] \<longrightarrow> cmd_model_add dp cfg name adapter mdl url (Some other) t n v = (Inr out2, cfg2, v2) \<longrightarrow>
      out2 = out \<and> cfg2 = cfg')"
proof -
  from assms(7,8,1) obtain c1 where c1: "store_secret dp (secret_name name) sec v = (Inr (), v')"
    "add_model name adapter mdl url (secret_name name) t n c = Inr c1" "cfg' = Some (config_save c1)"
    by (cases sec) (auto simp: cmd_model_add_def Let_def split: sum.splits prod.splits)
  from added_model_config [OF c1(2) assms(1-4)] obtain c2 mc where c2: "config_init cfg' = Inr c2" "chosen_model c2 (Some name) = Inr mc"
    "JObj mc = sort_json (JObj (model_entry adapter mdl url (secret_name name) t n))" using c1(3) by auto
  let ?e = "model_entry adapter mdl url (secret_name name) t n"
  have "distinct (map fst ?e)" by (simp add: model_entry_def split: option.splits)
  from sort_json_obj [OF this] c2(3) have "dict_get mc ''secret_ref'' = Some (JStr (secret_name name))" by (auto simp: model_entry_def) (simp add: sort_json.simps)
  then have "model_secret dp v' mc = Inr (Some sec)"
    using stored_secret_read [OF assms(5,6) c1(1), of "secret_name name"] by (simp add: model_secret_def same_entry_def get_or_null_def truthy_def secret_name_def)
  then have "adapter_from_config dp v' c2 (Some name) = build_adapter mc (Some sec)" by (simp add: adapter_from_config_def c2(2))
  moreover have "out2 = out \<and> cfg2 = cfg'" if "other \<noteq> []" "cmd_model_add dp cfg name adapter mdl url (Some other) t n v = (Inr out2, cfg2, v2)" for other out2 cfg2 v2
    using that assms(1,7,8) by (cases sec; cases other) (auto simp: cmd_model_add_def Let_def split: sum.splits prod.splits)
  ultimately show ?thesis using c2(1,3) by blast
qed

theorem added_model_usable_witness:
  "\<exists>out cfg' v' c' mc. cmd_model_add demo_machine None ''gpt'' ''openai-compat'' ''m'' [] (Some ''k'') None None demo_vault = (Inr out, cfg', v') \<and>
     config_init cfg' = Inr c' \<and> adapter_from_config demo_machine v' c' (Some ''gpt'') = build_adapter mc (Some ''k'')"
proof -
  let ?c = "\<lparr>cf_data = DEFAULTS, cf_overrides = []\<rparr>"
  have c: "config_init None = Inr ?c" "wf_json (JObj (cf_data ?c))" by (simp_all add: config_init_def config_load_def DEFAULTS_def)
  obtain out cfg' v' where a: "cmd_model_add demo_machine None ''gpt'' ''openai-compat'' ''m'' [] (Some ''k'') None None demo_vault = (Inr out, cfg', v')"
    by (simp add: cmd_model_add_def c(1) store_secret_def demo_vault_def demo_machine_def add_model_def DEFAULTS_def get_default_def as_dict_def Let_def)
  from added_model_usable [OF c _ _ demo_machine_ok _ a] a show ?thesis by auto
qed

subsection \<open>Single-agent runs\<close>

text \<open>A run without a team has no authority. Whatever the model answers, as long as its tool calls are well-formed, and also
  when the run raises, the part of the journal that a job's run adds to its session has no execution intent: no tool ever runs.\<close>

theorem bare_run_executes_nothing:
  assumes "\<forall>msgs tls w resp w'. rn_complete env adapter msgs tls w = (Inr resp, w') \<longrightarrow> list_all call_ok (mr_tool_calls resp)"
    and "store_ok st" and "job_get st jid = Some job"
    and "run_job (session_manager_of env adapter) jid (st, w) = (res, st', w')"
  shows "\<exists>es. journal_view st' (jb_session job) = journal_view st (jb_session job) @ es \<and> (\<forall>x\<in>set es. fst (snd x) \<noteq> ''EXEC_INTENT'')"
proof -
  let ?m = "session_manager_of env adapter" and ?sid = "jb_session job" and ?st1 = "job_set_status st (jb_id job) ''running''"
  let ?k = "job_kernel ?m (jb_id job) ?st1 ?sid"
  have k: "kernel_ok ?sid ?k" using assms(1) by (simp add: kernel_ok_def job_kernel_def session_manager_of_def bare_kernel_def)
  have t: "tools (k_manifest ?k) = {}" by (simp add: job_kernel_def session_manager_of_def bare_kernel_def empty_manifest_def)
  obtain r st2 w2 where r: "kernel_run ?k ?sid (jb_text job) (?st1, w) = (r, st2, w2)" by (cases "kernel_run ?k ?sid (jb_text job) (?st1, w)")
  have jv: "journal_view (job_set_status s i y) sid = journal_view s sid" for s i y sid
    using journal_reads_frame(5) [of "job_set_status s i y" s] by simp
  have "extends ?k ?sid ?st1 st2" using kernel_run_safe [OF k, of ?st1 "jb_text job" w] assms(2) r by (simp add: safe_def)
  then obtain es where es: "journal_view st2 ?sid = journal_view st ?sid @ es" "\<forall>x\<in>set es. intent_ok ?k ?sid ?st1 x"
    by (auto simp: extends_def jv)
  have "\<not> authorized ?k ?sid ?st1 call" for call by (auto simp: authorized_def cap_check_Inr cap_simps(1) t)
  then have no: "\<forall>x\<in>set es. fst (snd x) \<noteq> ''EXEC_INTENT''" using es(2) by (auto simp: intent_ok_def)
  have "st' = st \<or> st' = st2 \<or> (\<exists>x. st' = job_set_status st2 (jb_id job) x)"
    using assms(3,4) r by (auto simp: run_job_def session_manager_of_def start_job_def Let_def split: sum.splits if_splits)
  then show ?thesis using es(1) no by (auto simp: jv intro: exI [of _ es] exI [of _ "[]"])
qed

text \<open>Repeating a finished run fails. When the idempotency key belongs to a job that is done, the command asks no model and runs
  nothing, as it should, but its exit code is one: the stop reason of a finished job is its status, which is not a reason that
  counts as success.\<close>

theorem repeated_run_exits_one:
  assumes "adapter_from_config dp v c mdl = Inr adapter" and "idem = Some (x # xs)" and "find (\<lambda>r. jb_idem r = x # xs) (jobs st) = Some job"
    and "job_get st (jb_id job) = Some job" and "jb_status job = ''done''" and "rn_session env \<notin> ses_id ` set (sessions st)"
  shows "\<exists>ls st'. run_task env dp v c mdl idem task (st, w) = (Inr (1, ls), st', w)"
proof -
  obtain st1 where st1: "create_session st None (rn_session env) = Inr (rn_session env, st1)" "jobs st1 = jobs st"
    using assms(6) by (auto simp: create_session_def image_iff Let_def)
  have e: "enqueue (rn_now env) (rn_session env) (rn_job env) task (x # xs) st =
      (Inr \<lparr>jr_job_id = jb_id job, jr_job_session = jb_session job, jr_job_status = jb_status job, jr_deduped = True\<rparr>, st1)"
    using assms(3) by (simp add: enqueue_def st1 job_upsert_def)
  have "job_get st1 (jb_id job) = Some job" using assms(4) by (simp add: job_get_def st1(2))
  then show ?thesis using assms by (simp add: run_task_def e run_job_def terminal_result_def exit_code_def)
qed

subsection \<open>Which team runs\<close>

lemma resolve_team_found:
  "resolve_team load bytes target ps av = Some (Inr (Inl (lt, prov))) \<Longrightarrow>
   \<exists>pre p post bs. ps = pre @ p # post \<and> load p = Some (Inr lt) \<and> offers lt target \<and> bytes (ie_path (ip_entry p)) = Inr bs \<and>
     prov = provenance_of p bs \<and>
     (\<forall>q\<in>set pre. (\<exists>e. load q = Some (Inl e) \<and> isinstance e ''TeamLoadError'') \<or> (\<exists>l. load q = Some (Inr l) \<and> \<not> offers l target))"
proof (induction ps arbitrary: av)
  case (Cons p ps)
  show ?case
  proof (cases "\<exists>l. load p = Some (Inr l) \<and> offers l target")
    case True
    with Cons.prems obtain bs where "load p = Some (Inr lt)" "offers lt target" "bytes (ie_path (ip_entry p)) = Inr bs" "prov = provenance_of p bs"
      by (auto simp: rbind_Inr_iff)
    then show ?thesis by (intro exI [of _ "[]"], intro exI [of _ p] exI [of _ ps] exI [of _ bs]) simp
  next
    case False
    with Cons.prems obtain av' where "resolve_team load bytes target ps av' = Some (Inr (Inl (lt, prov)))"
      and q: "(\<exists>e. load p = Some (Inl e) \<and> isinstance e ''TeamLoadError'') \<or> (\<exists>l. load p = Some (Inr l) \<and> \<not> offers l target)"
      by (auto split: option.splits sum.splits if_splits)
    from Cons.IH [OF this(1)] obtain pre p' post bs where "ps = pre @ p' # post" "load p' = Some (Inr lt)" "offers lt target"
      "bytes (ie_path (ip_entry p')) = Inr bs" "prov = provenance_of p' bs"
      "\<forall>q\<in>set pre. (\<exists>e. load q = Some (Inl e) \<and> isinstance e ''TeamLoadError'') \<or> (\<exists>l. load q = Some (Inr l) \<and> \<not> offers l target)" by blast
    with q show ?thesis by (intro exI [of _ "p # pre"], intro exI [of _ p'] exI [of _ post] exI [of _ bs]) simp
  qed
qed simp

lemma resolve_team_skips:
  assumes "\<forall>q\<in>set pre. (\<exists>e. load q = Some (Inl e) \<and> isinstance e ''TeamLoadError'') \<or> (\<exists>l. load q = Some (Inr l) \<and> \<not> offers l target)"
  shows "\<exists>av'. resolve_team load bytes target (pre @ ps) av = resolve_team load bytes target ps av'"
  using assms
proof (induction pre arbitrary: av)
  case (Cons q pre)
  then show ?case by (cases "load q") (auto split: sum.splits)
qed auto

text \<open>The package that governs a team run. A team command that reports a result has run the team of the first installed package, in
  the order of names, that loads and offers the target, and the run's provenance is the name, version and key of that
  package's index entry with the hash of the file's bytes. Nothing else is asked of the file: any file that loads and offers the
  target is run under the entry's version and key, whether or not its signature verifies.\<close>

theorem first_offer_governs:
  assumes "workspace_of fp home warg = Inr workspace" and "adapter_from_config dp v c mdl = Inr adapter"
    and "list_installed rg = pre @ p # post" and "load workspace (Some (path_join home ''out'')) p = Some (Inr lt)" and "offers lt target"
    and "fp_bytes fp (ie_path (ip_entry p)) = Inr bs"
    and "\<forall>q\<in>set pre. (\<exists>e. load workspace (Some (path_join home ''out'')) q = Some (Inl e) \<and> isinstance e ''TeamLoadError'') \<or>
      (\<exists>l. load workspace (Some (path_join home ''out'')) q = Some (Inr l) \<and> \<not> offers l target)"
  shows "\<exists>out. run_team_command fp base ask load dp v rg home c mdl warg target task (st, x) = Some out \<and>
    (case team_run (cli_runner base ask adapter lt (provenance_of p bs)) target task None None 0 (st, new_team_world x) of
       (Inl e, st', w') \<Rightarrow> out = (Inl e, st', tw_env w')
     | (Inr r, st', w') \<Rightarrow> (\<exists>ls. out = (Inr (exit_code r, ls), st', tw_env w')))"
proof -
  let ?load = "load workspace (Some (path_join home ''out''))"
  from resolve_team_skips [OF assms(7), of "fp_bytes fp" "p # post" "[]"] assms(4-6)
  have "resolve_team ?load (fp_bytes fp) target (list_installed rg) [] = Some (Inr (Inl (lt, provenance_of p bs)))"
    unfolding assms(3) by auto
  then show ?thesis by (auto simp: run_team_command_def assms(1,2) split: prod.splits sum.splits)
qed

text \<open>A refused command leaves no trace. When the workspace that is named is no directory, cannot be listed, no model is
  configured or no installed package offers the target, the store and the world are as before.\<close>

theorem refused_run_inert:
  assumes "run_team_command fp base ask load dp v rg home c mdl warg target task s = Some (Inl e, s')"
    and "(\<forall>workspace. workspace_of fp home warg \<noteq> Inr workspace) \<or> (\<forall>a. adapter_from_config dp v c mdl \<noteq> Inr a) \<or>
      (\<forall>p\<in>set (list_installed rg). \<forall>ws lt. load ws (Some (path_join home ''out'')) p = Some (Inr lt) \<longrightarrow> \<not> offers lt target)"
  shows "s' = s"
proof -
  have nf: "False" if "resolve_team (load ws (Some (path_join home ''out''))) (fp_bytes fp) target (list_installed rg) [] = Some (Inr (Inl (lt, prov)))"
    "\<forall>p\<in>set (list_installed rg). \<forall>ws lt. load ws (Some (path_join home ''out'')) p = Some (Inr lt) \<longrightarrow> \<not> offers lt target" for ws lt prov
  proof -
    from resolve_team_found [OF that(1)] obtain p where "p \<in> set (list_installed rg)" "load ws (Some (path_join home ''out'')) p = Some (Inr lt)" "offers lt target"
      by (metis in_set_conv_decomp)
    with that(2) show False by blast
  qed
  show ?thesis using assms by (auto simp: run_team_command_def dest: nf split: sum.splits option.splits prod.splits)
qed

end
