(* ===== verification/Hosting.thy ===== *)
theory Hosting
  imports Service Commands
begin

text \<open>
  How the runtime is hosted: the control channel over a named pipe (\<open>scr/pipe_transport.py\<close>), the entry point of the
  service (\<open>scr/service_main.py\<close>) and the table of running workers (\<open>scr/sandbox.py\<close>). A pipe is the bytes that can be
  read from it; creating, connecting and opening it is an outcome that is given. What a host does to the outside is a list of
  events.
\<close>

subsection \<open>The named pipe\<close>

definition os_error :: "string \<Rightarrow> py_exn" where
  "os_error msg = \<lparr>exn_class = ''OSError'', exn_bases = [''Exception''], exn_msg = msg, exn_winerror = None\<rparr>"

definition pipe_path :: "string \<Rightarrow> string" where
  "pipe_path name = [CHR 0x5C, CHR 0x5C, CHR ''.'', CHR 0x5C] @ ''pipe'' @ [CHR 0x5C] @ name"

text \<open>A line is read byte by byte up to a line feed, or up to the end of the input or a failing read.\<close>

fun read_line :: "byte list \<Rightarrow> byte list" where
  "read_line [] = []"
| "read_line (b # bs) = (if b = 10 then [] else b # read_line bs)"

definition frame :: "json \<Rightarrow> byte list" where
  "frame j = encode (dumps j @ [CHR 0x0A])"

type_synonym 'w pipe_handler = "json \<Rightarrow> 'w \<Rightarrow> (py_exn + json) \<times> 'w"

definition pipe_failure :: "py_exn \<Rightarrow> json" where
  "pipe_failure e = JObj [(''ok'', JBool False), (''error'', JStr (exn_class e)), (''detail'', JStr (take 200 (exn_msg e)))]"

definition respond :: "'w pipe_handler \<Rightarrow> byte list \<Rightarrow> 'w \<Rightarrow> (py_exn + json) \<times> 'w" where
  "respond handler raw w =
     (case (case loads_bytes raw of Inl e \<Rightarrow> (Inl e, w) | Inr req \<Rightarrow> handler req w) of
        (Inl e, w') \<Rightarrow> (if isinstance e ''Exception'' then Inr (pipe_failure e) else Inl e, w')
      | (Inr resp, w') \<Rightarrow> (Inr resp, w'))"

text \<open>
  One request: the error codes of creating and connecting the pipe, if they failed, and what can be read. The result comes with the
  bytes that are written.
\<close>

definition serve_one :: "'w pipe_handler \<Rightarrow> nat option \<Rightarrow> nat option \<Rightarrow> byte list \<Rightarrow> 'w \<Rightarrow> (py_exn + bool) \<times> byte list \<times> 'w" where
  "serve_one handler create_error connect_error input w =
     (if create_error \<noteq> None then (Inl (os_error ''CreateNamedPipeW failed''), [], w)
      else if connect_error \<notin> {None, Some 0, Some 535} then (Inr False, [], w)
      else (case respond handler (read_line input) w of
              (Inl e, w') \<Rightarrow> (Inl e, [], w')
            | (Inr resp, w') \<Rightarrow> (Inr True, frame resp, w')))"

text \<open>The client: whether the pipe could be opened before the deadline, and the bytes of the answer.\<close>

definition pipe_client_request :: "bool \<Rightarrow> byte list \<Rightarrow> py_exn + json" where
  "pipe_client_request opened answer = (if opened then loads_bytes (read_line answer) else Inl (os_error ''could not open pipe''))"

text \<open>The server's loop: it ends when it is asked to stop, and at the first error of the operating system.\<close>

fun serve_forever :: "'w pipe_handler \<Rightarrow> (bool \<times> nat option \<times> nat option \<times> byte list) list \<Rightarrow> 'w \<Rightarrow> (py_exn + byte list list) \<times> 'w" where
  "serve_forever handler [] w = (Inr [], w)"
| "serve_forever handler ((stopped, ce, ne, input) # rs) w =
     (if stopped then (Inr [], w)
      else (case serve_one handler ce ne input w of
              (Inl e, _, w') \<Rightarrow> (if isinstance e ''OSError'' then Inr [] else Inl e, w')
            | (Inr _, written, w') \<Rightarrow>
                (case serve_forever handler rs w' of (r, w'') \<Rightarrow> (rbind r (\<lambda>ans. Inr (written # ans)), w''))))"

subsection \<open>Framing is safe\<close>

lemma esc_char_line: "CHR 0x0A \<notin> set (esc_char c)"
proof -
  have h: "hex_char n \<noteq> CHR 0x0A" if "n < 16" for n
    using hex_val_hex_char [OF that] by (auto simp: hex_val_def)
  have "(of_char c :: nat) div 16 < 16" using of_char_less_256 [of c] by linarith
  with h [of "of_char c div 16"] h [of "of_char c mod 16"] show ?thesis
    by (auto simp: esc_char_def Let_def backslash_def quote_def)
qed

lemma dumps_str_line: "CHR 0x0A \<notin> set (dumps_str s)"
  using esc_char_line by (auto simp: dumps_str_def quote_def)

lemma set_join: "c \<in> set (join sep xs) \<Longrightarrow> c \<in> set sep \<or> (\<exists>x\<in>set xs. c \<in> set x)"
  by (induction sep xs rule: join.induct) auto

lemma nat_str_line: "CHR 0x0A \<notin> set (nat_str n)"
  using nat_str_digits [of "CHR 0x0A" n] by (auto simp: is_digit_def)

lemma dumps_line: "CHR 0x0A \<notin> set (dumps j)"
proof -
  have "CHR 0x0A \<notin> set i \<Longrightarrow> CHR 0x0A \<notin> set k \<Longrightarrow> CHR 0x0A \<notin> set (dumps_sep i k j)" for i k
    by (induction i k j rule: dumps_sep.induct) (auto simp: dumps_sep.simps int_str_def nat_str_line dumps_str_line dest!: set_join)
  then show ?thesis by (simp add: dumps_def)
qed

lemma utf8_char_line:
  assumes "c \<noteq> CHR 0x0A"
  shows "10 \<notin> set (utf8_char c)"
proof -
  let ?n = "of_char c :: nat"
  have n: "?n < 256" "?n div 64 < 4" "?n mod 64 < 64" using of_char_less_256 [of c] by linarith+
  have "(of_char (CHR 0x0A) :: nat) = 10" by simp
  then have "?n \<noteq> 10" using assms by (metis of_char_eq_iff)
  moreover have t: "(10 :: byte) = of_nat i \<longleftrightarrow> i = 10" if "i < 256" for i
  proof -
    have "(of_nat i :: byte) = of_nat 10 \<longleftrightarrow> i = 10" using that by (simp add: word_of_nat_eq_iff take_bit_eq_mod del: of_nat_numeral)
    then show ?thesis by (metis of_nat_numeral)
  qed
  moreover have "(10 :: byte) \<noteq> of_nat (192 + ?n div 64)" "(10 :: byte) \<noteq> of_nat (128 + ?n mod 64)"
    using t [of "192 + ?n div 64"] t [of "128 + ?n mod 64"] n by linarith+
  ultimately show ?thesis using n by (simp add: utf8_char_def Let_def del: of_nat_add)
qed

lemma read_line_encode: "CHR 0x0A \<notin> set s \<Longrightarrow> read_line (encode (s @ CHR 0x0A # r)) = encode s"
proof (induction s)
  case Nil
  have "encode (CHR 0x0A # r) = 10 # encode r" by (simp add: encode_def utf8_char_def)
  then show ?case by (simp add: encode_def)
next
  case (Cons c s)
  have "10 \<notin> set (utf8_char c)" using Cons.prems by (intro utf8_char_line) auto
  moreover have "read_line (bs @ rest) = bs @ read_line rest" if "10 \<notin> set bs" for bs rest :: "byte list"
    using that by (induction bs) auto
  ultimately show ?case using Cons by (simp add: encode_def)
qed

lemma read_line_stop: "read_line (bs @ 10 # rest) = read_line (bs @ [10])"
  by (induction bs) auto

lemma frame_shape: "frame j = encode (dumps j) @ [10]"
  by (simp add: frame_def encode_def utf8_char_def)

lemma read_frame: "read_line (frame j @ rest) = encode (dumps j)"
proof -
  have "read_line (frame j @ rest) = read_line (frame j)" unfolding frame_shape using read_line_stop by simp
  also have "\<dots> = encode (dumps j)" unfolding frame_def by (rule read_line_encode [OF dumps_line])
  finally show ?thesis .
qed

lemma loads_frame: "wf_json j \<Longrightarrow> loads_bytes (read_line (frame j @ rest)) = Inr j"
  by (simp add: read_frame loads_bytes_def loads_dumps)

text \<open>A request crosses the pipe and its answer comes back. The bytes a client sends for a request give the server's handler exactly
  that request, and what the server writes gives the client exactly the handler's answer, whatever follows in the stream
  and whatever characters the texts hold; an exception of the handler, other than one that ends the process, arrives as an answer
  that names its class.\<close>

theorem pipe_round_trip:
  assumes "wf_json req" and "handler req w = (r, w')" and "\<forall>resp. r = Inr resp \<longrightarrow> wf_json resp" and "\<forall>e. r = Inl e \<longrightarrow> isinstance e ''Exception''"
  shows "\<exists>written. serve_one handler None ne (frame req @ later) w = (if ne \<in> {None, Some 0, Some 535} then (Inr True, written, w') else (Inr False, [], w)) \<and>
    pipe_client_request True (written @ rest) = Inr (case r of Inl e \<Rightarrow> pipe_failure e | Inr resp \<Rightarrow> resp)"
proof -
  let ?a = "case r of Inl e \<Rightarrow> pipe_failure e | Inr resp \<Rightarrow> resp"
  have "respond handler (read_line (frame req @ later)) w = (Inr ?a, w')"
    using assms by (cases r) (simp_all add: respond_def loads_frame)
  moreover have "wf_json ?a" using assms(3) by (cases r) (simp_all add: pipe_failure_def)
  ultimately show ?thesis by (intro exI [of _ "frame ?a"]) (simp add: serve_one_def pipe_client_request_def loads_frame)
qed

theorem pipe_round_trip_witness:
  "\<exists>written. serve_one (\<lambda>req w. (Inr (JArr [req]), Suc w)) None None (frame (JStr ''line'') @ []) (0::nat) = (Inr True, written, 1) \<and>
     pipe_client_request True (written @ []) = Inr (JArr [JStr ''line''])"
  using pipe_round_trip [of "JStr ''line''" "\<lambda>req w. (Inr (JArr [req]), Suc w)" 0 "Inr (JArr [JStr ''line''])" 1 None "[]" "[]"] by simp

subsection \<open>The service process\<close>

text \<open>
  What the host does to the outside: it opens and closes the store, takes and releases the single-instance lock, runs the server, asks
  it to stop, and reports a state with the accepted controls and a wait hint to the service control manager.
\<close>

datatype host_event = StoreOpened | LockTaken | ServerRan | StopAsked | StoreClosed | LockReleased | Status nat nat nat

definition runner_init :: "json option \<Rightarrow> py_exn + unit \<Rightarrow> py_exn + unit \<Rightarrow> (py_exn + unit) \<times> host_event list" where
  "runner_init cfg opened acquired =
     (case rbind (config_init cfg) (\<lambda>_. opened) of
        Inl e \<Rightarrow> (Inl e, [])
      | Inr _ \<Rightarrow> (case acquired of Inl e \<Rightarrow> (Inl e, [StoreOpened]) | Inr _ \<Rightarrow> (Inr (), [StoreOpened, LockTaken])))"

definition runner_cleanup :: "py_exn + unit \<Rightarrow> (py_exn + unit) \<times> host_event list" where
  "runner_cleanup close_result = (case close_result of Inl e \<Rightarrow> (Inl e, [LockReleased]) | Inr _ \<Rightarrow> (Inr (), [StoreClosed, LockReleased]))"

text \<open>An exception of the cleanup replaces the one of the server.\<close>

definition runner_serve :: "py_exn + unit \<Rightarrow> py_exn + unit \<Rightarrow> (py_exn + unit) \<times> host_event list" where
  "runner_serve run_result close_result =
     (case runner_cleanup close_result of
        (Inl e, evs) \<Rightarrow> (Inl e, ServerRan # evs)
      | (Inr _, evs) \<Rightarrow> (run_result, ServerRan # evs))"

definition run_console ::
  "(string \<Rightarrow> bool option) \<Rightarrow> string \<Rightarrow> json option \<Rightarrow> py_exn + unit \<Rightarrow> py_exn + unit \<Rightarrow> py_exn + unit \<Rightarrow> py_exn + unit \<Rightarrow>
     (py_exn + int) \<times> host_event list" where
  "run_console ip_loopback host cfg opened acquired run_result close_result =
     (case check_bind ip_loopback host False True of
        Inl e \<Rightarrow> (Inl e, [])
      | Inr _ \<Rightarrow>
          (case runner_init cfg opened acquired of
             (Inl e, evs) \<Rightarrow> (Inl e, evs)
           | (Inr _, evs) \<Rightarrow> (case runner_serve run_result close_result of (r, evs') \<Rightarrow> (rbind r (\<lambda>_. Inr 0), evs @ evs'))))"

definition control_handler :: "bool \<Rightarrow> nat \<Rightarrow> host_event list" where
  "control_handler has_runner control =
     (if control \<in> {1, 5} then [Status 3 0 5000] @ (if has_runner then [StopAsked] else []) @ [Status 1 0 0] else [])"

text \<open>
  The service under the control manager, with the controls that arrive before its server has ended. Nothing of an exception
  of the server's thread, or of a failing start, is reported.
\<close>

definition service_main :: "json option \<Rightarrow> py_exn + unit \<Rightarrow> py_exn + unit \<Rightarrow> nat list \<Rightarrow> py_exn + unit \<Rightarrow> py_exn + unit \<Rightarrow> host_event list" where
  "service_main cfg opened acquired controls run_result close_result =
     [Status 2 0 5000] @
     (case runner_init cfg opened acquired of
        (Inl e, evs) \<Rightarrow> evs
      | (Inr _, evs) \<Rightarrow>
          evs @ [Status 4 5 0] @ concat (map (control_handler True) controls) @ snd (runner_serve run_result close_result) @ [Status 1 0 0])"

datatype host_mode = WorkerMode | ConsoleMode "string list" | ServiceMode

definition service_entry :: "bool \<Rightarrow> bool \<Rightarrow> string list \<Rightarrow> host_mode" where
  "service_entry windows under_scm argv =
     (if take 1 argv = [''__scr_worker__''] then WorkerMode
      else if take 1 argv = [''run''] \<or> \<not> windows then ConsoleMode argv
      else if under_scm then ServiceMode else ConsoleMode [''run''])"

text \<open>The adapter of the service's kernels; nothing stands for the scripted one that is used while no model is configured.\<close>

definition service_adapter :: "'k machine \<Rightarrow> 'k vault \<Rightarrow> config \<Rightarrow> py_exn + vendor option" where
  "service_adapter dp v c =
     (let name = config_get c ''default_model'' JNull in
      if \<not> truthy name then Inr None
      else rbind (config_models c) (\<lambda>ms.
        case name of
          JStr n \<Rightarrow>
            (case dict_get ms n of
               None \<Rightarrow> Inr None
             | Some m \<Rightarrow> rbind (as_dict m) (\<lambda>mc. rbind (model_secret dp v mc) (\<lambda>s. rbind (build_adapter mc s) (\<lambda>a. Inr (Some a)))))
        | _ \<Rightarrow> if hashable name then Inr None else Inl type_error))"

text \<open>The service and the command line use the same model: where a command without an explicit model finds its entry, the service builds
  the adapter that the command builds, or raises what the command raises.\<close>

theorem service_and_cli_agree:
  assumes "chosen_model c None = Inr mc"
  shows "service_adapter dp v c = rbind (adapter_from_config dp v c None) (\<lambda>a. Inr (Some a))"
proof -
  let ?name = "config_get c ''default_model'' JNull"
  obtain n where n: "?name = JStr n" "truthy ?name"
    using assms by (cases ?name) (auto simp: chosen_model_def Let_def rbind_Inr_iff split: if_splits)
  with assms obtain ms m where m: "config_models c = Inr ms" "dict_get ms n = Some m" "as_dict m = Inr mc"
    by (auto simp: chosen_model_def Let_def rbind_Inr_iff split: option.splits)
  show ?thesis using n m assms by (cases "model_secret dp v mc") (simp_all add: service_adapter_def adapter_from_config_def)
qed

text \<open>The lock of the service is given back. On every path of the console host, also when the server or closing the store raises, the
  lock is released exactly as often as it was taken; an address outside the machine is refused before the store is opened or the
  lock is taken.\<close>

theorem service_lock_balanced:
  assumes "run_console ip_loopback host cfg opened acquired run_result close_result = (r, evs)"
  shows "count_list evs LockTaken = count_list evs LockReleased \<and> (LockTaken \<in> set evs \<longrightarrow> last evs = LockReleased) \<and>
    (ip_loopback host = Some False \<longrightarrow> evs = [] \<and> (\<exists>e. r = Inl e))"
  using assms
  by (auto simp: run_console_def runner_init_def runner_serve_def runner_cleanup_def check_bind_def Let_def
      split: sum.splits prod.splits if_splits)

theorem service_lock_balanced_witness:
  "count_list (snd (run_console (\<lambda>_. Some True) ''127.0.0.1'' None (Inr ()) (Inr ()) (Inl (os_error ''x'')) (Inl (os_error ''y'')))) LockReleased =
   count_list (snd (run_console (\<lambda>_. Some True) ''127.0.0.1'' None (Inr ()) (Inr ()) (Inl (os_error ''x'')) (Inl (os_error ''y'')))) LockTaken"
  using service_lock_balanced [of "\<lambda>_. Some True" "''127.0.0.1''" None "Inr ()" "Inr ()" "Inl (os_error ''x'')" "Inl (os_error ''y'')"]
  by (cases "run_console (\<lambda>_. Some True) ''127.0.0.1'' None (Inr ()) (Inr ()) (Inl (os_error ''x'')) (Inl (os_error ''y''))") auto

text \<open>A stopping service is reported as stopped too early: a stop or shutdown control makes the host report the stopped state before the
  server has ended, the store is closed and the lock is released.\<close>

theorem stopped_reported_early:
  assumes "runner_init cfg opened acquired = (Inr (), evs)" and "control \<in> {1, 5}" and "control \<in> set controls"
  shows "\<exists>before after. service_main cfg opened acquired controls run_result close_result = before @ [Status 1 0 0] @ after \<and>
    LockReleased \<notin> set before \<and> ServerRan \<notin> set before \<and> LockReleased \<in> set after"
proof -
  obtain c1 c2 where c: "controls = c1 @ control # c2" using assms(3) by (auto simp: in_set_conv_decomp)
  let ?h = "\<lambda>cs. concat (map (control_handler True) cs)"
  let ?b = "[Status 2 0 5000] @ evs @ [Status 4 5 0] @ ?h c1 @ [Status 3 0 5000, StopAsked]"
  let ?a = "?h c2 @ snd (runner_serve run_result close_result) @ [Status 1 0 0]"
  have "service_main cfg opened acquired controls run_result close_result = ?b @ [Status 1 0 0] @ ?a"
    using assms(1,2) by (simp add: service_main_def c control_handler_def)
  moreover have "LockReleased \<notin> set evs" "ServerRan \<notin> set evs"
    using assms(1) by (auto simp: runner_init_def split: sum.splits)
  moreover have "LockReleased \<notin> set (?h c1)" "ServerRan \<notin> set (?h c1)" by (auto simp: control_handler_def split: if_splits)
  moreover have "LockReleased \<in> set (snd (runner_serve run_result close_result))" by (auto simp: runner_serve_def runner_cleanup_def split: sum.splits)
  ultimately show ?thesis by (intro exI [of _ ?b] exI [of _ ?a]) simp
qed

subsection \<open>Running workers\<close>

text \<open>The table of the sandbox: the handles of the workers under way, in the order they were started, and those that were killed.\<close>

record worker_table =
  wt_live :: "nat list"
  wt_killed :: "nat list"

definition register :: "nat \<Rightarrow> worker_table \<Rightarrow> worker_table" where
  "register p t = t\<lparr>wt_live := wt_live t @ [p]\<rparr>"

definition unregister :: "nat \<Rightarrow> worker_table \<Rightarrow> worker_table" where
  "unregister p t = t\<lparr>wt_live := remove1 p (wt_live t)\<rparr>"

definition kill_all :: "worker_table \<Rightarrow> nat \<times> worker_table" where
  "kill_all t = (length (wt_live t), t\<lparr>wt_killed := wt_killed t @ wt_live t\<rparr>)"

datatype table_op = Register nat | Unregister nat | KillAll

fun table_step :: "table_op \<Rightarrow> worker_table \<Rightarrow> worker_table" where
  "table_step (Register p) t = register p t"
| "table_step (Unregister p) t = unregister p t"
| "table_step KillAll t = snd (kill_all t)"

definition new_table :: worker_table where
  "new_table = \<lparr>wt_live = [], wt_killed = []\<rparr>"

text \<open>Handles are registered once, and unregistered only after that.\<close>

fun ops_ok :: "nat set \<Rightarrow> table_op list \<Rightarrow> bool" where
  "ops_ok seen [] = True"
| "ops_ok seen (Register p # ops) = (p \<notin> seen \<and> ops_ok (insert p seen) ops)"
| "ops_ok seen (Unregister p # ops) = (p \<in> seen \<and> ops_ok seen ops)"
| "ops_ok seen (KillAll # ops) = ops_ok seen ops"

lemma registered_later: "ops_ok seen ops \<Longrightarrow> Register p \<in> set ops \<Longrightarrow> p \<notin> seen"
  by (induction seen ops rule: ops_ok.induct) auto

lemma live_after:
  assumes "ops_ok seen ops" and "set (wt_live t) \<subseteq> seen" and "distinct (wt_live t)"
  shows "distinct (wt_live (fold table_step ops t)) \<and>
    set (wt_live (fold table_step ops t)) = {p. (p \<in> set (wt_live t) \<or> Register p \<in> set ops) \<and> Unregister p \<notin> set ops}"
  using assms
proof (induction seen ops arbitrary: t rule: ops_ok.induct)
  case (2 seen p ops)
  then have "p \<notin> set (wt_live t)" by auto
  with 2 have "distinct (wt_live (register p t))" "set (wt_live (register p t)) = insert p (set (wt_live t))" by (auto simp: register_def)
  with 2 show ?case by auto
next
  case (3 seen p ops)
  have "distinct (wt_live (unregister p t))" "set (wt_live (unregister p t)) = set (wt_live t) - {p}" using 3 by (auto simp: unregister_def)
  moreover have "Register p \<notin> set ops" using 3 by (auto dest: registered_later)
  ultimately show ?case using 3 by auto
next
  case (4 seen ops)
  then show ?case by (simp add: kill_all_def)
qed simp_all

text \<open>A cancel reaches every worker that is under way. After any sequence of starts, ends and cancels, a cancel kills exactly the
  workers that were started and have not ended, each once, and answers their number.\<close>

theorem cancel_kills_live:
  assumes "ops_ok {} ops" and "kill_all (fold table_step ops new_table) = (n, t')"
  shows "\<exists>ps. wt_killed t' = wt_killed (fold table_step ops new_table) @ ps \<and> n = card (set ps) \<and> distinct ps \<and>
    set ps = {p. Register p \<in> set ops \<and> Unregister p \<notin> set ops}"
proof -
  have "distinct (wt_live (fold table_step ops new_table)) \<and>
    set (wt_live (fold table_step ops new_table)) = {p. Register p \<in> set ops \<and> Unregister p \<notin> set ops}"
    using live_after [OF assms(1), of new_table] by (simp add: new_table_def)
  then show ?thesis using assms(2) distinct_card [of "wt_live (fold table_step ops new_table)"]
    by (intro exI [of _ "wt_live (fold table_step ops new_table)"]) (auto simp: kill_all_def)
qed

theorem cancel_kills_live_witness:
  "\<exists>ps. wt_killed (snd (kill_all (fold table_step [Register 1, Register 2, Unregister 1] new_table))) =
     wt_killed (fold table_step [Register 1, Register 2, Unregister 1] new_table) @ ps \<and> set ps = {2}"
proof -
  let ?ops = "[Register 1, Register 2, Unregister 1]"
  obtain n t' where "kill_all (fold table_step ?ops new_table) = (n, t')" by (cases "kill_all (fold table_step ?ops new_table)")
  moreover have "{p. Register p \<in> set ?ops \<and> Unregister p \<notin> set ?ops} = {2}" by auto
  ultimately show ?thesis using cancel_kills_live [of ?ops] by force
qed

end
