(* ===== verification/Spec2Isabelle.thy ===== *)
theory Spec2Isabelle
  imports Execution Recovery Orchestration Progress TeamSafety Registry Compliance McpHost Adapters Service Resilience Updates Migrations Locks Secrets
    Backups Releases Replays Settings Commands Hosting
begin

text \<open>
  Verification library for the SelfConnect runtime (\<open>src/scr\<close>).

  \<^bold>\<open>The program.\<close> The runtime executes language-model agents under a capability kernel. A signed package
  declares agents and what they may do; the kernel runs the loop of model calls and tool calls and writes
  every step ahead to a journal; every fact worth proving later is appended to a per-session hash chain, the
  ledger; a crash is classified from the journal; the ledger is sealed and exported as a bundle that a
  standalone program verifies offline. Agents delegate to each other in teams; their tools run in sandboxed
  workers or on tool servers. Around this core are the registry of installed packages, the job queue with the service
  in front of it, the command line, licensing, updates, schema migrations, the workspace lock, the vault, backups,
  releases and the configuration.

  \<^bold>\<open>Theories and sources.\<close>
  \<^item> \<open>Prelude\<close>, \<open>Sha256\<close>, \<open>Json\<close>: the parts of Python and its standard library the sources use: strings,
    dictionaries in insertion order, exceptions as values with their class, \<open>hashlib\<close> and \<open>hmac\<close>
    (a real SHA-256 on 32-bit words), \<open>json.dumps\<close> and \<open>json.loads\<close> with the round trip between them. The
    interfaces \<open>session_log\<close>, \<open>first_wins\<close> and \<open>hash_chain\<close> are locales of \<open>Prelude\<close>.
  \<^item> \<open>State\<close> (\<open>state.py\<close>): one record with a list of rows per table and one definition per method. Journal
    and ledger are instances of \<open>session_log\<close>, tool results and approvals of \<open>first_wins\<close>.
  \<^item> \<open>Ledger\<close> (\<open>ledger.py\<close>): append, seal and verify. An accepted head fixes the history, a seal fixes it
    against replacement, appends keep it verifiable. Hash properties are stated without assumptions: the
    conclusion holds or two named byte strings are a collision.
  \<^item> \<open>Capability\<close>, \<open>Policy\<close>, \<open>Orchestration\<close> (\<open>capability.py\<close>, \<open>policy.py\<close>, \<open>orchestration.py\<close>): checks,
    attenuation as a meet, delegation paths, revocation and tightening. \<open>os.path.realpath\<close> and the
    regular-expression engine are parameters.
  \<^item> \<open>Gateway\<close>, \<open>Kernel\<close>, \<open>Execution\<close>, \<open>Recovery\<close> (\<open>gateway.py\<close>, \<open>kernel.py\<close>): the whole loop with its guards,
    the approval gate, parallel batches, retries, resume and crash recovery. A kernel is a record of what the
    constructor takes; tools and the model act on a world of an arbitrary type and on the store, within the
    contract \<open>kernel_ok\<close>. The invariant \<open>store_ok\<close> and the relation \<open>grows\<close> between stores are kept by every
    operation; the run properties follow from one lemma per operation.
  \<^item> \<open>Steps\<close>, \<open>Progress\<close>: the kernel as a step relation, \<open>kstep\<close>, which every run refines, also when its tools write to the
    store; what a run with an answering or a failing model comes to. Statements about what a run does to its
    surroundings (\<open>TeamRuns\<close>, \<open>Tools\<close>, \<open>McpHost\<close>) go through the steps.
  \<^item> \<open>Topology\<close>, \<open>Teams\<close>, \<open>TeamRuns\<close>, \<open>TeamSafety\<close> (\<open>team.py\<close>): loading and validating a team, the runner with its
    delegate tool and policies, and its checks: an accepted team is a forest of trees along its edges, no
    member executes what it does not declare, delegation is bounded, evidence and mailbox stay verifiable, required children ran.
  \<^item> \<open>Tools\<close> (\<open>tools_native.py\<close>, \<open>worker.py\<close>, \<open>atomic.py\<close>, \<open>sandbox.py\<close>): the native tools down to the primitives of the
    operating system, with the steps of an atomic write and the redirects of a fetch. What a run with them does is bounded by
    its manifest up to two named exceptions, and a refused call does nothing.
  \<^item> \<open>McpHost\<close> (\<open>mcp_host.py\<close>): clients of tool servers, restarts and projection into the kernel.
  \<^item> \<open>Adapters\<close> (\<open>gateway.py\<close>, \<open>adapters_cloud.py\<close>, \<open>model_factory.py\<close>): what vendors answer; which adapter gives only calls that
    the kernel can read.
  \<^item> \<open>Merkle\<close>, \<open>Packages\<close>, \<open>Semver\<close>, \<open>Registry\<close> (\<open>merkle.py\<close>, \<open>signing.py\<close>, \<open>signer.py\<close>, \<open>package.py\<close>,
    \<open>loader.py\<close>, \<open>semver.py\<close>, \<open>registry.py\<close>): from signing a package to its session-start check. Ed25519
    is a record of functions whose only assumed law is that a signature made with a key verifies under it.
  \<^item> \<open>Evidence\<close> (\<open>evidence.py\<close>, \<open>_evidence_verifier.py\<close>): bundles and the standalone verifier; the text chain is
    a second instance of \<open>hash_chain\<close>.
  \<^item> \<open>Sessions\<close> (\<open>sessions.py\<close>): the job queue over the kernel; \<open>sm_reach\<close> is any sequence of its operations.
  \<^item> \<open>Service\<close> (\<open>service.py\<close>, \<open>observability.py\<close>): every route behind its guard, over the job queue; what requests cannot do and
    what they leave in place.
  \<^item> \<open>Compliance\<close> (\<open>compliance.py\<close>): snapshots of bundles, signals and the evaluation of control catalogs.
  \<^item> \<open>Secrets\<close> (\<open>vault.py\<close>, \<open>redaction.py\<close>, \<open>observability.py\<close>), \<open>Backups\<close> (\<open>backup.py\<close>), \<open>Releases\<close> (\<open>release.py\<close>), \<open>Replays\<close>
    (\<open>replay.py\<close>), \<open>Settings\<close> (\<open>config.py\<close>): round trips and failing closed; ciphers, key stores and the regular-expression
    engine are arguments with the laws they are documented to have.
  \<^item> \<open>Resilience\<close> (\<open>resilience.py\<close>): breakers refine an abstract contract; the fallback chain.
  \<^item> \<open>Admission\<close> (\<open>rbac.py\<close>, \<open>seats.py\<close>, \<open>license.py\<close>), \<open>Updates\<close> (\<open>atomic.py\<close>, \<open>updater.py\<close>), \<open>Migrations\<close>
    (\<open>migrations.py\<close>), \<open>Locks\<close> (\<open>locks.py\<close>): a crash model of the disk, and a step relation of the lock's system
    calls, carry the last ones.
  \<^item> \<open>Commands\<close> (\<open>cli.py\<close>, the entry point of \<open>_evidence_verifier.py\<close>): what the commands print, return and change, over the
    operations above. \<open>Hosting\<close> (\<open>pipe_transport.py\<close>, \<open>service_main.py\<close>, the worker table of \<open>sandbox.py\<close>): the frames of the
    named pipe, the events of the service process in order, and which workers a cancel reaches.

  \<^bold>\<open>Bounds and fuel.\<close> The loop of the kernel recurses on the iterations left, which is the code's own bound, and
  \<open>kernel_run_ends\<close> shows that it returns. Reading JSON uses the length of the text as fuel, which every step
  shortens. The loops over pending calls, delegation paths and Merkle levels are total functions with
  termination proofs. Nested team runs recurse on the depth left, and \<open>team_run_bounded\<close> shows that the depth limit of
  the code is reached first. A client waiting for an answer scans the lines that arrived, which are finitely many.

  \<^bold>\<open>Where the model departs from Python.\<close> Strings are lists of characters below 256, encoded as UTF-8; floating
  numbers do not occur in values: times and budgets are integers. Threads of a parallel batch run in list order. A
  database statement is atomic and durable when it returns.

  \<^bold>\<open>Operating system.\<close> Files, processes, pipes, sockets and clocks are primitives over a world of an arbitrary type;
  a worker that is killed has done its job or none of it, and what else happened is part of the world's own step. A theorem
  about a world holds for every behaviour of the primitives, or names what it needs of them.

  \<^bold>\<open>Not modelled.\<close> The declaration of the command line's arguments and the remaining commands, which print what an operation
  above returns; \<open>privdrop.py\<close>, the process creation in \<open>sandbox.py\<close>, and the calls by which a pipe or a service is registered
  with the operating system, which are sequences of system calls without decisions of their own; the HTTP exchange, threads, log
  handlers, and the readers of YAML and TOML, which belong to libraries.
\<close>

end
